(* ===== verification/Mesh_Prelude.thy ===== *)
theory Mesh_Prelude
  imports Main "HOL-Library.Word"
begin

text \<open>
  Shared vocabulary of the development: Rust's fixed-width integers, byte buffers, the
  \<open>Result\<close> and \<open>Option\<close> plumbing, big- and little-endian conversion, and the
  interfaces (locales) that several components implement.

  A Rust function that fills a caller's buffer (\<open>out: &mut [u8]\<close>) is a function that
  takes the buffer and returns the \<open>Result\<close> together with the buffer afterwards, so
  that partial writes on an error path are visible in the model.
\<close>

unbundle bit_operations_syntax

type_synonym u8 = "8 word"
type_synonym u16 = "16 word"
type_synonym u32 = "32 word"
type_synonym u64 = "64 word"
type_synonym i32 = "32 word"
type_synonym bytes = "u8 list"

text \<open>A \<open>Result<usize, 'e>\<close> paired with the output buffer after the call.\<close>

type_synonym 'e out_result = "('e + nat) \<times> bytes"

named_theorems consts_defs \<open>numeric constants of the program\<close>
named_theorems buf_simps \<open>reading and writing byte buffers at concrete offsets\<close>

section \<open>Results\<close>

text \<open>\<open>?\<close> on a \<open>Result\<close>, \<open>.ok()\<close>, \<open>.map_err(|_| e)\<close> and \<open>ok_or(e)?\<close>.\<close>

fun rbind :: "'e + 'a \<Rightarrow> ('a \<Rightarrow> 'e + 'b) \<Rightarrow> 'e + 'b" where
  "rbind (Inl e) f = Inl e"
| "rbind (Inr x) f = f x"

fun res_ok :: "'e + 'a \<Rightarrow> 'a option" where
  "res_ok (Inl e) = None"
| "res_ok (Inr x) = Some x"

fun map_err :: "('e \<Rightarrow> 'f) \<Rightarrow> 'e + 'a \<Rightarrow> 'f + 'a" where
  "map_err f (Inl e) = Inl (f e)"
| "map_err f (Inr x) = Inr x"

fun ok_or :: "'e \<Rightarrow> 'a option \<Rightarrow> 'e + 'a" where
  "ok_or e None = Inl e"
| "ok_or e (Some x) = Inr x"

definition is_ok :: "'e + 'a \<Rightarrow> bool" where
  "is_ok r \<longleftrightarrow> (\<exists>x. r = Inr x)"

lemma is_ok_simps [simp]: "is_ok (Inr x)" "\<not> is_ok (Inl e)"
  by (auto simp: is_ok_def)

lemma rbind_Inr [simp]: "rbind r f = Inr y \<longleftrightarrow> (\<exists>x. r = Inr x \<and> f x = Inr y)"
  by (cases r) auto

lemma rbind_Inl: "rbind r f = Inl e \<longleftrightarrow> r = Inl e \<or> (\<exists>x. r = Inr x \<and> f x = Inl e)"
  by (cases r) auto

lemma res_ok_Some [simp]: "res_ok r = Some x \<longleftrightarrow> r = Inr x"
  by (cases r) auto

lemma map_err_Inr [simp]: "map_err f r = Inr x \<longleftrightarrow> r = Inr x"
  by (cases r) auto

lemma ok_or_Inr [simp]: "ok_or e r = Inr x \<longleftrightarrow> r = Some x"
  by (cases r) auto

text \<open>An early return \<open>if c { return Err(e) }\<close> on the way to success.\<close>

lemma if_Inl_Inr: "(if c then Inl e else r) = Inr y \<longleftrightarrow> \<not> c \<and> r = Inr y"
  by simp

section \<open>Rust integer operations\<close>

definition checked_add :: "'a::len word \<Rightarrow> 'a word \<Rightarrow> 'a word option" where
  "checked_add a b = (if unat a + unat b < 2 ^ LENGTH('a) then Some (a + b) else None)"

definition checked_sub :: "'a::len word \<Rightarrow> 'a word \<Rightarrow> 'a word option" where
  "checked_sub a b = (if b \<le> a then Some (a - b) else None)"

definition saturating_add :: "'a::len word \<Rightarrow> 'a word \<Rightarrow> 'a word" where
  "saturating_add a b = (if unat a + unat b < 2 ^ LENGTH('a) then a + b else - 1)"

definition saturating_sub :: "'a::len word \<Rightarrow> 'a word \<Rightarrow> 'a word" where
  "saturating_sub a b = (if b \<le> a then a - b else 0)"

lemma unat_u8_less: "unat (a :: u8) < 256"
  and unat_u16_less: "unat (b :: u16) < 65536"
  and unat_u32_less: "unat (c :: u32) < 4294967296"
  and unat_u64_less: "unat (d :: u64) < 18446744073709551616"
  using unsigned_less [of a] unsigned_less [of b] unsigned_less [of c] unsigned_less [of d]
  by simp_all

lemmas word_order_unat = word_le_nat_alt word_less_nat_alt word_unat_eq_iff

lemma unat_plus_fits: "unat a + unat b < 2 ^ LENGTH('a) \<Longrightarrow> unat (a + b) = unat a + unat b"
  for a b :: "'a::len word"
  by (simp add: unat_word_ariths)

lemma checked_add_Some:
  "checked_add a b = Some c \<longleftrightarrow> unat a + unat b < 2 ^ LENGTH('a) \<and> c = a + b"
  for a :: "'a::len word"
  by (auto simp: checked_add_def)

lemma unat_checked_add: "checked_add a b = Some c \<Longrightarrow> unat c = unat a + unat b"
  by (auto simp: checked_add_Some unat_plus_fits)

lemma unat_saturating_add:
  "unat (saturating_add a b) = min (unat a + unat b) (2 ^ LENGTH('a) - 1)"
  for a :: "'a::len word"
proof -
  have "unat (- 1 :: 'a word) = 2 ^ LENGTH('a) - 1"
    by (simp add: unsigned_minus_1_eq_mask mask_eq_exp_minus_1)
  then show ?thesis by (auto simp: saturating_add_def unat_plus_fits)
qed

lemma unat_saturating_sub: "unat (saturating_sub a b) = unat a - unat b"
  by (auto simp: saturating_sub_def unat_sub word_le_nat_alt)

lemma xor_right_cancel [simp]: "a XOR c = b XOR c \<longleftrightarrow> a = b"
  and xor_left_cancel [simp]: "c XOR a = c XOR b \<longleftrightarrow> a = b"
  for a b c :: "'a::len word"
  by (auto simp: bit_eq_iff bit_xor_iff)

section \<open>Byte buffers\<close>

text \<open>\<open>out[i..i + b.len()].copy_from_slice(b)\<close> and \<open>buf[i..j]\<close>.\<close>

definition put_at :: "nat \<Rightarrow> bytes \<Rightarrow> bytes \<Rightarrow> bytes" where
  "put_at i b out = take i out @ b @ drop (i + length b) out"

definition bslice :: "nat \<Rightarrow> nat \<Rightarrow> 'a list \<Rightarrow> 'a list" where
  "bslice i j xs = take (j - i) (drop i xs)"

lemma length_put_at [simp]: "i + length b \<le> length out \<Longrightarrow> length (put_at i b out) = length out"
  by (simp add: put_at_def)

lemma length_bslice [simp]: "length (bslice i j xs) = min (j - i) (length xs - i)"
  by (simp add: bslice_def)

lemma put_at_0: "put_at 0 b out = b @ drop (length b) out"
  by (simp add: put_at_def)

text \<open>Writing the next field right after the fields written so far.\<close>

lemma put_at_next:
  "length xs = i \<Longrightarrow> put_at i b (xs @ drop i out) = (xs @ b) @ drop (i + length b) out"
  by (simp add: put_at_def add.commute)

lemma put_at_over:
  "length xs = i \<Longrightarrow> length b = length ys \<Longrightarrow> put_at i b (xs @ ys @ zs) = xs @ b @ zs"
  by (simp add: put_at_def)

lemma take_put_at: "i + length b \<le> length out \<Longrightarrow> take i (put_at i b out) = take i out"
  by (simp add: put_at_def)

lemma nth_put_at:
  "i + length b \<le> length out \<Longrightarrow> k < length out \<Longrightarrow>
   put_at i b out ! k = (if i \<le> k \<and> k < i + length b then b ! (k - i) else out ! k)"
  by (auto simp: put_at_def nth_append min_def)

lemma bslice_append: "length xs = i \<Longrightarrow> length ys = j - i \<Longrightarrow> bslice i j (xs @ ys @ zs) = ys"
  by (simp add: bslice_def)

lemma bslice_all [simp]: "bslice 0 (length xs) xs = xs"
  by (simp add: bslice_def)

lemma bslice_glue: "i \<le> j \<Longrightarrow> j \<le> k \<Longrightarrow> bslice i j xs @ bslice j k xs = bslice i k xs"
proof -
  assume "i \<le> j" and "j \<le> k"
  then obtain m n where "j = i + m" and "k = i + m + n" by (metis le_iff_add)
  then show ?thesis by (simp add: bslice_def take_add ac_simps)
qed

lemma bslice_single: "i < length xs \<Longrightarrow> [xs ! i] = bslice i (Suc i) xs"
  by (simp add: bslice_def take_Suc_conv_app_nth hd_drop_conv_nth take_Suc)

lemma bslice_whole: "length xs \<le> n \<Longrightarrow> bslice 0 n xs = xs"
  by (simp add: bslice_def)

text \<open>A callee working on the sub-slice \<open>&mut out[i..j]\<close>.\<close>

definition on_slice :: "nat \<Rightarrow> nat \<Rightarrow> (bytes \<Rightarrow> 'r \<times> bytes) \<Rightarrow> bytes \<Rightarrow> 'r \<times> bytes" where
  "on_slice i j f out = (let (r, sub) = f (bslice i j out) in (r, put_at i sub out))"

text \<open>A run of writes, each starting where the one before ended.\<close>

primrec write_all :: "nat \<Rightarrow> bytes list \<Rightarrow> bytes \<Rightarrow> bytes" where
  "write_all i [] out = out"
| "write_all i (b # bs) out = write_all (i + length b) bs (put_at i b out)"

lemma write_all_eq:
  "i + length (concat bs) \<le> length out \<Longrightarrow>
   write_all i bs out = take i out @ concat bs @ drop (i + length (concat bs)) out"
proof (induction bs arbitrary: i out)
  case Nil
  then show ?case by simp
next
  case (Cons b bs)
  then have "write_all i (b # bs) out =
      take (i + length b) (put_at i b out) @ concat bs @
      drop (i + length b + length (concat bs)) (put_at i b out)"
    by simp
  with Cons.prems show ?case
    by (simp add: put_at_def ac_simps)
qed

lemma write_all_0:
  "length (concat bs) = n \<Longrightarrow> n \<le> length out \<Longrightarrow> write_all 0 bs out = concat bs @ drop n out"
  by (simp add: write_all_eq)

lemmas cons_buf_simps [buf_simps] =
  put_at_def bslice_def take_Cons_numeral drop_Cons_numeral nth_Cons_numeral

section \<open>Endian conversion\<close>

text \<open>
  \<open>x.to_be_bytes()\<close> for an integer of \<open>n\<close> bytes and \<open>from_be_bytes\<close>; the
  little-endian reading is on the reversed bytes.
\<close>

fun be_bytes :: "nat \<Rightarrow> 'a::len word \<Rightarrow> bytes" where
  "be_bytes 0 w = []"
| "be_bytes (Suc n) w = ucast (drop_bit (8 * n) w) # be_bytes n w"

definition of_be :: "bytes \<Rightarrow> 'a::len word" where
  "of_be bs = foldl (\<lambda>a b. push_bit 8 a OR ucast b) 0 bs"

definition of_le :: "bytes \<Rightarrow> 'a::len word" where
  "of_le bs = of_be (rev bs)"

abbreviation be16 :: "u16 \<Rightarrow> bytes" where "be16 \<equiv> be_bytes 2"
abbreviation be32 :: "u32 \<Rightarrow> bytes" where "be32 \<equiv> be_bytes 4"
abbreviation be64 :: "u64 \<Rightarrow> bytes" where "be64 \<equiv> be_bytes 8"

lemma length_be_bytes [simp]: "length (be_bytes n w) = n"
  by (induction n) auto

lemma of_be_Nil [simp]: "of_be [] = 0"
  by (simp add: of_be_def)

lemma of_be_snoc: "of_be (bs @ [b]) = push_bit 8 (of_be bs) OR ucast b"
  by (simp add: of_be_def)

lemma bit_of_be:
  "bit (of_be bs :: 'a::len word) k \<longleftrightarrow>
     k < LENGTH('a) \<and> k < 8 * length bs \<and> bit (bs ! (length bs - 1 - k div 8)) (k mod 8)"
proof (induction bs arbitrary: k rule: rev_induct)
  case Nil
  then show ?case by simp
next
  case (snoc b bs)
  show ?case
  proof (cases "k < 8")
    case True
    then show ?thesis
      by (auto simp: of_be_snoc bit_simps)
  next
    case False
    then have hi: "\<not> bit (ucast b :: 'a word) k"
      using bit_imp_le_length [of b k] by (auto simp: bit_simps)
    have idx: "(bs @ [b]) ! (length bs - k div 8) = bs ! (length bs - 1 - (k - 8) div 8)"
      if "k < 8 * Suc (length bs)"
    proof -
      have "k div 8 = Suc ((k - 8) div 8)" using False by simp
      moreover have "0 < length bs" using False that by auto
      ultimately show ?thesis by (simp add: nth_append)
    qed
    from False hi snoc.IH[of "k - 8"] show ?thesis
      by (auto simp: of_be_snoc bit_simps idx le_mod_geq)
  qed
qed

lemma nth_be_bytes: "i < n \<Longrightarrow> be_bytes n w ! i = ucast (drop_bit (8 * (n - 1 - i)) w)"
proof (induction n arbitrary: i)
  case 0
  then show ?case by simp
next
  case (Suc n)
  then show ?case by (cases i) auto
qed

lemma of_be_bytes:
  "of_be (be_bytes n w) = take_bit (8 * n) w" for w :: "'a::len word"
proof (rule bit_word_eqI)
  fix k assume k: "k < LENGTH('a)"
  show "bit (of_be (be_bytes n w) :: 'a word) k = bit (take_bit (8 * n) w) k"
  proof (cases "k < 8 * n")
    case True
    then have "n - 1 - (n - 1 - k div 8) = k div 8" and "n - 1 - k div 8 < n"
      by auto
    with True k show ?thesis
      by (simp add: bit_of_be nth_be_bytes bit_simps)
  next
    case False
    with k show ?thesis by (simp add: bit_of_be bit_simps)
  qed
qed

lemma be_bytes_of_be:
  assumes "length bs = n" and "8 * n \<le> LENGTH('a)"
  shows "be_bytes n (of_be bs :: 'a::len word) = bs"
proof (rule nth_equalityI)
  show "length (be_bytes n (of_be bs :: 'a word)) = length bs" using assms by simp
next
  fix i assume "i < length (be_bytes n (of_be bs :: 'a word))"
  then have i: "i < n" by simp
  show "be_bytes n (of_be bs :: 'a word) ! i = bs ! i"
  proof (rule bit_word_eqI)
    fix k assume k: "k < LENGTH(8)"
    then have "n - 1 - (8 * (n - 1 - i) + k) div 8 = i" "(8 * (n - 1 - i) + k) mod 8 = k"
      using i by auto
    moreover have "8 * (n - 1 - i) + k < 8 * n" using i k by simp
    ultimately show "bit (be_bytes n (of_be bs :: 'a word) ! i) k = bit (bs ! i) k"
      using i k assms by (simp add: nth_be_bytes bit_simps bit_of_be)
  qed
qed

lemma of_be16_bytes [simp]: "of_be (be16 w) = w"
  and of_be32_bytes [simp]: "of_be (be32 d) = d"
  and of_be64_bytes [simp]: "of_be (be64 q) = q"
  by (simp_all add: of_be_bytes take_bit_word_eq_self)

lemma be16_of_be [simp]: "length bs = 2 \<Longrightarrow> be16 (of_be bs) = bs"
  and be32_of_be [simp]: "length bs = 4 \<Longrightarrow> be32 (of_be bs) = bs"
  and be64_of_be [simp]: "length bs = 8 \<Longrightarrow> be64 (of_be bs) = bs"
  by (simp_all add: be_bytes_of_be)

lemma be32_inj [simp]: "be32 a = be32 b \<longleftrightarrow> a = b"
  by (metis of_be32_bytes)

lemma be64_inj [simp]: "be64 a = be64 b \<longleftrightarrow> a = b"
  by (metis of_be64_bytes)

lemma be16_inj [simp]: "be16 a = be16 b \<longleftrightarrow> a = b"
  by (metis of_be16_bytes)

text \<open>The byte lists have no further rewrite: unfold \<open>be_bytes\<close> only on demand.\<close>

declare be_bytes.simps [simp del]

lemmas be_expand = be_bytes.simps numeral_eq_Suc

section \<open>UTF-8\<close>

text \<open>\<open>core::str::from_utf8\<close>: the byte ranges of well-formed UTF-8 that Rust's standard library
  documents.\<close>

definition utf8_cont :: "u8 \<Rightarrow> bool" where
  "utf8_cont b \<longleftrightarrow> 0x80 \<le> b \<and> b \<le> 0xBF"

text \<open>The second byte's range depends on the first (no overlong forms, no surrogates,
  nothing above U+10FFFF).\<close>

definition utf8_second :: "u8 \<Rightarrow> u8 \<Rightarrow> bool" where
  "utf8_second a b \<longleftrightarrow>
     (if a = 0xE0 then 0xA0 \<le> b \<and> b \<le> 0xBF
      else if a = 0xED then 0x80 \<le> b \<and> b \<le> 0x9F
      else if a = 0xF0 then 0x90 \<le> b \<and> b \<le> 0xBF
      else if a = 0xF4 then 0x80 \<le> b \<and> b \<le> 0x8F
      else utf8_cont b)"

fun utf8_valid :: "bytes \<Rightarrow> bool" where
  "utf8_valid [] = True"
| "utf8_valid (a # as) =
     (if a < 0x80 then utf8_valid as
      else if 0xC2 \<le> a \<and> a \<le> 0xDF then
        (case as of b # bs \<Rightarrow> utf8_cont b \<and> utf8_valid bs | _ \<Rightarrow> False)
      else if 0xE0 \<le> a \<and> a \<le> 0xEF then
        (case as of b # c # bs \<Rightarrow> utf8_second a b \<and> utf8_cont c \<and> utf8_valid bs | _ \<Rightarrow> False)
      else if 0xF0 \<le> a \<and> a \<le> 0xF4 then
        (case as of b # c # d # bs \<Rightarrow>
            utf8_second a b \<and> utf8_cont c \<and> utf8_cont d \<and> utf8_valid bs
         | _ \<Rightarrow> False)
      else False)"

section \<open>Interfaces\<close>

subsection \<open>Byte codecs\<close>

text \<open>
  A writer and a parser of one record type. A codec promises that parsing what was
  written gives the value back; a strict codec accepts no other spelling of a value.
\<close>

locale codec =
  fixes enc :: "'a \<Rightarrow> bytes"
    and dec :: "bytes \<Rightarrow> 'a option"
    and valid :: "'a \<Rightarrow> bool"
  assumes dec_enc: "valid x \<Longrightarrow> dec (enc x) = Some x"
begin

lemma enc_inject: "valid x \<Longrightarrow> valid y \<Longrightarrow> enc x = enc y \<longleftrightarrow> x = y"
  using dec_enc by (metis option.inject)

lemma enc_accepted: "valid x \<Longrightarrow> dec (enc x) \<noteq> None"
  by (simp add: dec_enc)

end

locale strict_codec = codec +
  assumes dec_sound: "dec bs = Some x \<Longrightarrow> valid x \<and> enc x = bs"
begin

lemma dec_Some_iff: "dec bs = Some x \<longleftrightarrow> valid x \<and> bs = enc x"
  using dec_enc dec_sound by blast

lemma dec_inject: "dec bs = Some x \<Longrightarrow> dec cs = Some x \<Longrightarrow> bs = cs"
  using dec_sound by blast

lemma dec_None_iff: "dec bs = None \<longleftrightarrow> (\<forall>x. valid x \<longrightarrow> bs \<noteq> enc x)"
  by (metis dec_Some_iff not_None_eq)

end

subsection \<open>Replay filters\<close>

text \<open>
  A filter that is offered items one at a time and takes each or refuses it. \<open>seen w s\<close>
  says that \<open>w\<close> will never take \<open>s\<close> again. The client's fact: over any run,
  whatever the order and the repetitions, no item is taken twice.
\<close>

locale replay_filter =
  fixes inv :: "'w \<Rightarrow> bool"
    and offer :: "'s \<Rightarrow> 'w \<Rightarrow> bool \<times> 'w"
    and seen :: "'w \<Rightarrow> 's \<Rightarrow> bool"
  assumes inv_offer: "inv w \<Longrightarrow> inv (snd (offer s w))"
    and taken_fresh: "inv w \<Longrightarrow> fst (offer s w) \<Longrightarrow> \<not> seen w s"
    and taken_seen: "inv w \<Longrightarrow> fst (offer s w) \<Longrightarrow> seen (snd (offer s w)) s"
    and seen_mono: "inv w \<Longrightarrow> seen w t \<Longrightarrow> seen (snd (offer s w)) t"
begin

primrec run :: "'w \<Rightarrow> 's list \<Rightarrow> 's list \<times> 'w" where
  "run w [] = ([], w)"
| "run w (s # ss) =
     (let (b, w') = offer s w; (ts, w'') = run w' ss in (if b then s # ts else ts, w''))"

lemma run_inv: "inv w \<Longrightarrow> inv (snd (run w ss))"
  by (induction ss arbitrary: w) (auto simp: split_def Let_def inv_offer)

lemma run_keeps_seen: "inv w \<Longrightarrow> seen w t \<Longrightarrow> seen (snd (run w ss)) t"
  by (induction ss arbitrary: w) (auto simp: split_def Let_def inv_offer seen_mono)

lemma run_takes_unseen: "inv w \<Longrightarrow> seen w t \<Longrightarrow> t \<notin> set (fst (run w ss))"
proof (induction ss arbitrary: w)
  case Nil
  then show ?case by simp
next
  case (Cons s ss)
  then have "t \<notin> set (fst (run (snd (offer s w)) ss))"
    by (blast intro: inv_offer seen_mono)
  moreover from Cons.prems have "fst (offer s w) \<Longrightarrow> t \<noteq> s"
    using taken_fresh by blast
  ultimately show ?case by (auto simp: split_def Let_def)
qed

lemma run_distinct: "inv w \<Longrightarrow> distinct (fst (run w ss))"
proof (induction ss arbitrary: w)
  case Nil
  then show ?case by simp
next
  case (Cons s ss)
  then have "distinct (fst (run (snd (offer s w)) ss))"
    by (blast intro: inv_offer)
  moreover have "fst (offer s w) \<Longrightarrow> s \<notin> set (fst (run (snd (offer s w)) ss))"
    using Cons.prems run_takes_unseen [OF inv_offer taken_seen] by blast
  ultimately show ?case by (auto simp: split_def Let_def)
qed

end

subsection \<open>Transition systems\<close>

text \<open>
  A labelled step relation with an inductive invariant: the invariant holds along every
  finite execution.
\<close>

locale transition_system =
  fixes step :: "'s \<Rightarrow> 'l \<Rightarrow> 's \<Rightarrow> bool"
    and inv :: "'s \<Rightarrow> bool"
  assumes step_inv: "inv s \<Longrightarrow> step s l t \<Longrightarrow> inv t"
begin

inductive exec :: "'s \<Rightarrow> 'l list \<Rightarrow> 's \<Rightarrow> bool" where
  exec_Nil: "exec s [] s"
| exec_snoc: "exec s ls t \<Longrightarrow> step t l u \<Longrightarrow> exec s (ls @ [l]) u"

lemma exec_inv: "exec s ls t \<Longrightarrow> inv s \<Longrightarrow> inv t"
  by (induction rule: exec.induct) (auto intro: step_inv)

end

end
