(* ===== verification/Frame.thy ===== *)
theory Frame
  imports Mesh_Prelude
begin

text \<open>
  The frame codec, \<open>crates/mesh-core/src/frame.rs\<close>: header layout, CRC-16, encoding and
  strict decoding of a frame, and the two plaintext bodies (DATA and ACK).
\<close>

section \<open>Constants and types\<close>

definition HEADER_LEN :: nat where [consts_defs, code_unfold]: "HEADER_LEN = 28"
definition CRC_LEN :: nat where [consts_defs, code_unfold]: "CRC_LEN = 2"
definition MIN_FRAME_LEN :: nat where [consts_defs]: "MIN_FRAME_LEN = HEADER_LEN + CRC_LEN"
definition MAX_FRAME_LEN :: nat where [consts_defs]: "MAX_FRAME_LEN = 255"
definition MAX_TEXT_LEN :: nat where [consts_defs]: "MAX_TEXT_LEN = 160"
definition VERSION_PLAINTEXT_LAB :: u8 where [consts_defs]: "VERSION_PLAINTEXT_LAB = 0"
definition VERSION_SECURE :: u8 where [consts_defs]: "VERSION_SECURE = 1"
definition FLAG_WANT_ACK :: u8 where [consts_defs]: "FLAG_WANT_ACK = 0x01"
definition FLAGS_VALID_MASK :: u8 where [consts_defs]: "FLAGS_VALID_MASK = FLAG_WANT_ACK"
definition BODY_DATA :: u8 where [consts_defs]: "BODY_DATA = 0x01"
definition BODY_ACK :: u8 where [consts_defs]: "BODY_ACK = 0x02"
definition TAG_LEN :: nat where [consts_defs]: "TAG_LEN = 16"
definition SECURE_DATA_MAX :: nat where [consts_defs]: "SECURE_DATA_MAX = 207"
definition SECURE_ACK_LEN :: nat where [consts_defs]: "SECURE_ACK_LEN = 63"

record header =
  h_version :: u8
  h_flags :: u8
  h_dst :: u32
  h_src :: u32
  h_packet_id :: u32
  h_hops :: u8
  h_epoch :: u32
  h_sequence :: u64

datatype reject =
    TooShort
  | TooLong
  | LengthMismatch
  | BadCrc
  | UnknownVersion
  | BadFlags
  | BadHops
  | BadBody

section \<open>CRC-16\<close>

definition crc_bit :: "u16 \<Rightarrow> u16" where
  "crc_bit crc = (if crc AND 0x8000 \<noteq> 0 then push_bit 1 crc XOR 0x1021 else push_bit 1 crc)"

definition crc_byte :: "u16 \<Rightarrow> u8 \<Rightarrow> u16" where
  "crc_byte crc b = (crc_bit ^^ 8) (crc XOR push_bit 8 (ucast b))"

definition crc16 :: "bytes \<Rightarrow> u16" where
  "crc16 data = foldl crc_byte 0xFFFF data"

section \<open>Encoding\<close>

definition encode_header :: "header \<Rightarrow> bytes \<Rightarrow> reject out_result" where
  "encode_header h out =
     (if length out < HEADER_LEN then (Inl TooShort, out)
      else
        let out = put_at 0 [h_version h] out;
            out = put_at 1 [h_flags h] out;
            out = put_at 2 (be32 (h_dst h)) out;
            out = put_at 6 (be32 (h_src h)) out;
            out = put_at 10 (be32 (h_packet_id h)) out;
            out = put_at 14 [h_hops h] out;
            out = put_at 15 (be32 (h_epoch h)) out;
            out = put_at 19 (be64 (h_sequence h)) out;
            out = put_at 27 [0] out
        in (Inr HEADER_LEN, out))"

definition encode_frame :: "header \<Rightarrow> bytes \<Rightarrow> bytes \<Rightarrow> reject out_result" where
  "encode_frame h body out =
     (let total = HEADER_LEN + length body + CRC_LEN in
      if total > MAX_FRAME_LEN \<or> length out < total then (Inl TooLong, out)
      else
        case encode_header h out of
          (Inl e, out) \<Rightarrow> (Inl e, out)
        | (Inr _, out) \<Rightarrow>
            let out = put_at 27 [of_nat (length body)] out;
                out = put_at HEADER_LEN body out;
                crc = crc16 (bslice 0 (HEADER_LEN + length body) out);
                out = put_at (HEADER_LEN + length body) (be16 crc) out
            in (Inr total, out))"

section \<open>Bodies\<close>

definition validate_body :: "u8 \<Rightarrow> bytes \<Rightarrow> reject + unit" where
  "validate_body flags body =
     (case body of
        [] \<Rightarrow> Inl BadBody
      | b # text \<Rightarrow>
          if b = BODY_DATA \<and> flags = FLAG_WANT_ACK then
            (if text = [] \<or> length text > MAX_TEXT_LEN \<or> \<not> utf8_valid text
             then Inl BadBody else Inr ())
          else if b = BODY_ACK \<and> flags = 0 \<and> length body = 17 then Inr ()
          else Inl BadBody)"

definition encode_data_body :: "bytes \<Rightarrow> bytes \<Rightarrow> reject out_result" where
  "encode_data_body text out =
     (if text = [] \<or> length text > MAX_TEXT_LEN \<or> length out < 1 + length text
         \<or> \<not> utf8_valid text
      then (Inl BadBody, out)
      else
        let out = put_at 0 [BODY_DATA] out;
            out = put_at 1 text out
        in (Inr (1 + length text), out))"

definition encode_ack_body :: "u32 \<Rightarrow> u64 \<Rightarrow> u32 \<Rightarrow> bytes \<Rightarrow> reject out_result" where
  "encode_ack_body epoch seq packet_id out =
     (if length out < 17 then (Inl BadBody, out)
      else
        let out = put_at 0 [BODY_ACK] out;
            out = put_at 1 (be32 epoch) out;
            out = put_at 5 (be64 seq) out;
            out = put_at 13 (be32 packet_id) out
        in (Inr 17, out))"

section \<open>Decoding\<close>

definition decode_frame :: "bytes \<Rightarrow> reject + (header \<times> bytes)" where
  "decode_frame frame =
     (if length frame < MIN_FRAME_LEN then Inl TooShort
      else if length frame > MAX_FRAME_LEN then Inl TooLong
      else if frame ! 0 \<noteq> VERSION_PLAINTEXT_LAB \<and> frame ! 0 \<noteq> VERSION_SECURE
        then Inl UnknownVersion
      else if frame ! 1 AND NOT FLAGS_VALID_MASK \<noteq> 0 then Inl BadFlags
      else if frame ! 14 > 1 then Inl BadHops
      else
        let body_len = unat (frame ! 27) in
        if HEADER_LEN + body_len + CRC_LEN \<noteq> length frame then Inl LengthMismatch
        else
          let body_end = 28 + body_len;
              want = of_be [frame ! body_end, frame ! (body_end + 1)] in
          if crc16 (bslice 0 body_end frame) \<noteq> want then Inl BadCrc
          else
            let h = \<lparr> h_version = frame ! 0,
                      h_flags = frame ! 1,
                      h_dst = of_be (bslice 2 6 frame),
                      h_src = of_be (bslice 6 10 frame),
                      h_packet_id = of_be (bslice 10 14 frame),
                      h_hops = frame ! 14,
                      h_epoch = of_be (bslice 15 19 frame),
                      h_sequence = of_be (bslice 19 27 frame) \<rparr>;
                body = bslice HEADER_LEN body_end frame in
            if h_version h = VERSION_PLAINTEXT_LAB then
              rbind (validate_body (h_flags h) body) (\<lambda>_. Inr (h, body))
            else Inr (h, body))"

section \<open>The bytes of a frame\<close>

definition header_bytes :: "header \<Rightarrow> u8 \<Rightarrow> bytes" where
  "header_bytes h n =
     h_version h # h_flags h # be32 (h_dst h) @ be32 (h_src h) @ be32 (h_packet_id h) @
     h_hops h # be32 (h_epoch h) @ be64 (h_sequence h) @ [n]"

definition frame_bytes :: "header \<Rightarrow> bytes \<Rightarrow> bytes" where
  "frame_bytes h body =
     (let hb = header_bytes h (of_nat (length body)) @ body in hb @ be16 (crc16 hb))"

lemma length_header_bytes [simp]: "length (header_bytes h n) = 28"
  by (simp add: header_bytes_def)

lemma length_frame_bytes [simp]: "length (frame_bytes h body) = 30 + length body"
  by (simp add: frame_bytes_def Let_def)

lemma encode_header_ok:
  assumes "28 \<le> length out"
  shows "encode_header h out = (Inr 28, header_bytes h 0 @ drop 28 out)"
proof -
  have "snd (encode_header h out) =
      write_all 0 [[h_version h], [h_flags h], be32 (h_dst h), be32 (h_src h),
        be32 (h_packet_id h), [h_hops h], be32 (h_epoch h), be64 (h_sequence h), [0]] out"
    using assms by (simp add: encode_header_def consts_defs Let_def numeral_2_eq_2)
  also have "\<dots> = header_bytes h 0 @ drop 28 out"
    using assms by (subst write_all_0 [where n = 28]) (simp_all add: header_bytes_def)
  finally show ?thesis
    using assms by (simp add: encode_header_def consts_defs Let_def)
qed

lemma encode_frame_ok:
  assumes "length body \<le> 225" and "30 + length body \<le> length out"
  shows "encode_frame h body out =
    (Inr (30 + length body), frame_bytes h body @ drop (30 + length body) out)"
proof -
  let ?hb = "header_bytes h (of_nat (length body))"
  have 1: "put_at 27 [of_nat (length body)] (header_bytes h 0 @ drop 28 out) =
      ?hb @ drop 28 out"
    by (simp add: header_bytes_def buf_simps)
  have 2: "put_at 28 body (?hb @ drop 28 out) = (?hb @ body) @ drop (28 + length body) out"
    by (simp add: put_at_next)
  have 3: "bslice 0 (28 + length body) ((?hb @ body) @ drop (28 + length body) out) = ?hb @ body"
    by (simp add: bslice_def)
  have 4: "put_at (28 + length body) c ((?hb @ body) @ drop (28 + length body) out) =
      ((?hb @ body) @ c) @ drop (30 + length body) out" if "length c = 2" for c
    using that by (subst put_at_next) simp_all
  show ?thesis
    using assms
    by (simp add: encode_frame_def encode_header_ok consts_defs Let_def 1 2 3 4 frame_bytes_def
        del: append_assoc)
qed

text \<open>Every refusal of the encoder happens before the first write.\<close>

lemma encode_frame_err:
  assumes "fst (encode_frame h body out) = Inl e"
  shows "e = TooLong \<and> snd (encode_frame h body out) = out"
  using assms
  by (auto simp: encode_frame_def encode_header_def consts_defs Let_def split: if_splits)

lemma encode_frame_result:
  "fst (encode_frame h body out) =
     (if length body \<le> 225 \<and> 30 + length body \<le> length out then Inr (30 + length body)
      else Inl TooLong)"
  using encode_frame_ok [of body out h]
  by (cases "length body \<le> 225 \<and> 30 + length body \<le> length out")
     (auto simp: encode_frame_def consts_defs Let_def split: sum.splits prod.splits)

section \<open>Reading the fields of a written header\<close>

lemma frame_bytes_fields:
  assumes "length body \<le> 225"
  shows "frame_bytes h body ! 0 = h_version h"
    and "frame_bytes h body ! 1 = h_flags h"
    and "frame_bytes h body ! 14 = h_hops h"
    and "frame_bytes h body ! 27 = of_nat (length body)"
    and "bslice 2 6 (frame_bytes h body) = be32 (h_dst h)"
    and "bslice 6 10 (frame_bytes h body) = be32 (h_src h)"
    and "bslice 10 14 (frame_bytes h body) = be32 (h_packet_id h)"
    and "bslice 15 19 (frame_bytes h body) = be32 (h_epoch h)"
    and "bslice 19 27 (frame_bytes h body) = be64 (h_sequence h)"
    and "bslice 28 (28 + length body) (frame_bytes h body) = body"
    and "bslice 0 (28 + length body) (frame_bytes h body) =
           header_bytes h (of_nat (length body)) @ body"
    and "[frame_bytes h body ! (28 + length body), frame_bytes h body ! (29 + length body)] =
           be16 (crc16 (header_bytes h (of_nat (length body)) @ body))"
  by (simp_all add: frame_bytes_def Let_def header_bytes_def buf_simps nth_append be_expand)

section \<open>The frame codec is strict\<close>

text \<open>A header and body the decoder accepts.\<close>

definition frame_ok :: "header \<times> bytes \<Rightarrow> bool" where
  "frame_ok hb \<longleftrightarrow>
     (let (h, body) = hb in
      (h_version h = VERSION_PLAINTEXT_LAB \<or> h_version h = VERSION_SECURE) \<and>
      h_flags h AND NOT FLAGS_VALID_MASK = 0 \<and> h_hops h \<le> 1 \<and> length body \<le> 225 \<and>
      (h_version h = VERSION_PLAINTEXT_LAB \<longrightarrow> validate_body (h_flags h) body = Inr ()))"

lemma unat_of_nat_u8 [simp]: "n \<le> 255 \<Longrightarrow> unat (of_nat n :: u8) = n"
  by (simp add: unat_of_nat)

lemma decode_frame_bytes:
  assumes "frame_ok (h, body)"
  shows "decode_frame (frame_bytes h body) = Inr (h, body)"
proof -
  from assms have len: "length body \<le> 225" by (simp add: frame_ok_def)
  note fields = frame_bytes_fields [OF len, of h] frame_bytes_fields(2) [OF len, of h, simplified]
  have n: "unat (frame_bytes h body ! 27) = length body"
    using len by (simp add: fields)
  have crc: "of_be [frame_bytes h body ! (28 + length body),
      frame_bytes h body ! (28 + length body + 1)] =
      crc16 (bslice 0 (28 + length body) (frame_bytes h body))"
    using fields(11,12) by (simp add: add.commute)
  from assms len show ?thesis
    by (auto simp: decode_frame_def Let_def n crc frame_ok_def consts_defs fields not_less)
qed

lemma split_frame:
  assumes "30 \<le> length f" and "length f = 30 + n" and "n \<le> 225"
    and "unat (f ! 27) = n"
    and crc: "crc16 (bslice 0 (28 + n) f) = of_be [f ! (28 + n), f ! (28 + n + 1)]"
    and h: "h = \<lparr> h_version = f ! 0, h_flags = f ! 1, h_dst = of_be (bslice 2 6 f),
      h_src = of_be (bslice 6 10 f), h_packet_id = of_be (bslice 10 14 f), h_hops = f ! 14,
      h_epoch = of_be (bslice 15 19 f), h_sequence = of_be (bslice 19 27 f) \<rparr>"
    and body: "body = bslice 28 (28 + n) f"
  shows "frame_bytes h body = f"
proof -
  have f27: "of_nat n = f ! 27"
    using assms(3,4) by (simp add: word_unat_eq_iff)
  have len: "length body = n" using assms by simp
  have hd: "header_bytes h (of_nat n) = take 28 f"
  proof (rule nth_equalityI)
    fix i assume i: "i < length (header_bytes h (of_nat n))"
    show "header_bytes h (of_nat n) ! i = take 28 f ! i"
      using i assms(1) f27
      by (auto simp: header_bytes_def h buf_simps nth_append nth_Cons'
          intro!: arg_cong [where f = "(!) f"])
  qed (use assms in simp)
  have pre: "header_bytes h (of_nat n) @ body = take (28 + n) f"
    by (simp add: hd body bslice_def take_add)
  have post: "be16 (crc16 (take (28 + n) f)) = drop (28 + n) f"
  proof -
    have "bslice 0 (28 + n) f = take (28 + n) f" by (simp add: bslice_def)
    then have "be16 (crc16 (take (28 + n) f)) = [f ! (28 + n), f ! (28 + n + 1)]"
      using crc by simp
    also have "\<dots> = drop (28 + n) f"
      using assms(2) by (intro nth_equalityI) (auto simp: nth_Cons' less_Suc_eq)
    finally show ?thesis .
  qed
  show ?thesis
    by (simp add: frame_bytes_def Let_def len pre post flip: append_assoc)
qed

lemma decode_frame_sound:
  assumes "decode_frame f = Inr (h, body)"
  shows "frame_ok (h, body) \<and> frame_bytes h body = f"
proof -
  define n where "n = unat (f ! 27)"
  from assms have len: "30 \<le> length f" "length f = 30 + n" "n \<le> 225"
    and crc: "crc16 (bslice 0 (28 + n) f) = of_be [f ! (28 + n), f ! (28 + n + 1)]"
    and h: "h = \<lparr> h_version = f ! 0, h_flags = f ! 1, h_dst = of_be (bslice 2 6 f),
      h_src = of_be (bslice 6 10 f), h_packet_id = of_be (bslice 10 14 f), h_hops = f ! 14,
      h_epoch = of_be (bslice 15 19 f), h_sequence = of_be (bslice 19 27 f) \<rparr>"
    and body: "body = bslice 28 (28 + n) f"
    by (auto simp: decode_frame_def Let_def consts_defs n_def split: if_splits)
  have "frame_bytes h body = f"
    using split_frame [OF len n_def [symmetric] crc h body] .
  moreover have "frame_ok (h, body)"
    using assms len
    by (auto simp: frame_ok_def decode_frame_def Let_def consts_defs n_def [symmetric] not_less
        split: if_splits)
  ultimately show ?thesis by simp
qed

interpretation fc: strict_codec "\<lambda>(h, b). frame_bytes h b" "\<lambda>f. res_ok (decode_frame f)" frame_ok
proof
  show "res_ok (decode_frame (case x of (h, b) \<Rightarrow> frame_bytes h b)) = Some x"
    if "frame_ok x" for x
    using that by (cases x) (simp add: decode_frame_bytes)
  show "frame_ok x \<and> (case x of (h, b) \<Rightarrow> frame_bytes h b) = bs"
    if "res_ok (decode_frame bs) = Some x" for bs x
    using that by (cases x) (simp add: decode_frame_sound)
qed

section \<open>What the CRC detects\<close>

lemma crc_bit_bit0: "bit (crc_bit c) 0 \<longleftrightarrow> bit c 15"
proof -
  have "c AND 0x8000 \<noteq> 0 \<longleftrightarrow> bit c 15"
    using and_exp_eq_0_iff_not_bit [of c 15] by simp
  moreover have "\<not> bit (push_bit 1 c) 0" by (simp only: bit_push_bit_iff) simp
  ultimately show ?thesis by (simp add: crc_bit_def bit_xor_iff del: push_bit_of_1 push_bit_Suc)
qed

lemma crc_bit_inj: "crc_bit c = crc_bit d \<Longrightarrow> c = d"
proof -
  assume eq: "crc_bit c = crc_bit d"
  have top: "bit c 15 = bit d 15"
    using crc_bit_bit0 [of c] crc_bit_bit0 [of d] eq by simp
  have msk: "x AND 0x8000 \<noteq> 0 \<longleftrightarrow> bit x 15" for x :: u16
    using and_exp_eq_0_iff_not_bit [of x 15] by simp
  have "push_bit 1 c = push_bit 1 d"
    using eq top unfolding crc_bit_def msk by (cases "bit d 15") (simp_all only: if_True if_False xor_right_cancel)
  then have sh: "bit c n = bit d n" if "n < 15" for n
    using that bit_push_bit_iff [of 1 c "Suc n"] bit_push_bit_iff [of 1 d "Suc n"] by simp
  show "c = d"
  proof (rule bit_word_eqI)
    fix n assume "n < LENGTH(16)"
    then show "bit c n = bit d n" using sh top by (cases "n = 15") auto
  qed
qed

lemma crc_bits_inj: "(crc_bit ^^ n) c = (crc_bit ^^ n) d \<Longrightarrow> c = d"
  by (induction n) (auto dest: crc_bit_inj)

lemma crc_byte_inj_crc: "crc_byte c b = crc_byte d b \<Longrightarrow> c = d"
  using crc_bits_inj [of 8] by (metis crc_byte_def xor_right_cancel)

lemma crc_byte_inj_byte: "crc_byte c a = crc_byte c b \<Longrightarrow> a = b"
proof -
  assume "crc_byte c a = crc_byte c b"
  then have "push_bit 8 (ucast a :: u16) = push_bit 8 (ucast b)"
    using crc_bits_inj [of 8] by (metis crc_byte_def xor_left_cancel)
  then have "bit a n = bit b n" if "n < 8" for n
    using that bit_push_bit_iff [of 8 "ucast a :: u16" "n + 8"]
      bit_push_bit_iff [of 8 "ucast b :: u16" "n + 8"] by (simp add: bit_simps)
  then show "a = b" by (intro bit_word_eqI) simp
qed

lemma crc_fold_inj: "foldl crc_byte c bs = foldl crc_byte d bs \<Longrightarrow> c = d"
  by (induction bs arbitrary: c d) (auto dest: crc_byte_inj_crc)

lemma crc16_one_byte: "a \<noteq> b \<Longrightarrow> crc16 (xs @ a # ys) \<noteq> crc16 (xs @ b # ys)"
  by (auto simp: crc16_def dest!: crc_fold_inj crc_byte_inj_byte)

lemma crc16_update:
  assumes "i < length xs" and "x \<noteq> xs ! i"
  shows "crc16 (xs[i := x]) \<noteq> crc16 xs"
proof -
  have "xs = take i xs @ xs ! i # drop (Suc i) xs"
    using assms(1) by (simp add: id_take_nth_drop)
  moreover have "xs[i := x] = take i xs @ x # drop (Suc i) xs"
    using assms(1) by (simp add: upd_conv_take_nth_drop)
  ultimately show ?thesis using crc16_one_byte [OF assms(2)] by metis
qed

section \<open>What the body encoders write\<close>

definition data_body_ok :: "bytes \<Rightarrow> bool" where
  "data_body_ok text \<longleftrightarrow> text \<noteq> [] \<and> length text \<le> MAX_TEXT_LEN \<and> utf8_valid text"

definition ack_body :: "u32 \<Rightarrow> u64 \<Rightarrow> u32 \<Rightarrow> bytes" where
  "ack_body epoch seq packet_id = BODY_ACK # be32 epoch @ be64 seq @ be32 packet_id"

lemma length_ack_body [simp]: "length (ack_body e s p) = 17"
  by (simp add: ack_body_def)

lemma encode_data_body_result:
  "encode_data_body text out =
     (if data_body_ok text \<and> 1 + length text \<le> length out
      then (Inr (1 + length text), (BODY_DATA # text) @ drop (1 + length text) out)
      else (Inl BadBody, out))"
  by (auto simp: encode_data_body_def data_body_ok_def Let_def put_at_0 put_at_def not_less
      drop_Suc)

lemma encode_ack_body_result:
  "encode_ack_body epoch seq packet_id out =
     (if 17 \<le> length out then (Inr 17, ack_body epoch seq packet_id @ drop 17 out)
      else (Inl BadBody, out))"
proof -
  have "put_at 13 (be32 packet_id) (put_at 5 (be64 seq) (put_at 1 (be32 epoch)
      (put_at 0 [BODY_ACK] out))) = ack_body epoch seq packet_id @ drop 17 out"
    if "17 \<le> length out"
    using that write_all_0 [of "[[BODY_ACK], be32 epoch, be64 seq, be32 packet_id]" 17 out]
    by (simp add: ack_body_def)
  then show ?thesis by (simp add: encode_ack_body_def Let_def not_less)
qed

lemma validate_body_Inr:
  "validate_body flags body = Inr () \<longleftrightarrow>
     flags = FLAG_WANT_ACK \<and> (\<exists>text. body = BODY_DATA # text \<and> data_body_ok text) \<or>
     flags = 0 \<and> length body = 17 \<and> hd body = BODY_ACK"
  by (cases body) (auto simp: validate_body_def data_body_ok_def consts_defs not_less)

lemma ack_body_inject [simp]:
  "ack_body e s p = ack_body e' s' p' \<longleftrightarrow> e = e' \<and> s = s' \<and> p = p'"
  by (auto simp: ack_body_def append_eq_append_conv)

lemma ack_body_fields [simp]:
  "ack_body e s p ! 0 = BODY_ACK"
  "of_be (bslice 1 5 (ack_body e s p)) = e"
  "of_be (bslice 5 13 (ack_body e s p)) = s"
  "of_be (bslice 13 17 (ack_body e s p)) = p"
  by (simp_all add: ack_body_def bslice_def)

section \<open>Properties\<close>

text \<open>C29: The wire format has one spelling per frame. A buffer decodes to a header and a body
  exactly when both are well formed and encoding them writes that very buffer, so the decoder
  accepts everything the encoder can write for an accepted header and nothing else.\<close>

theorem decode_frame_iff_encode_frame:
  "decode_frame f = Inr (h, body) \<longleftrightarrow>
     frame_ok (h, body) \<and> encode_frame h body (replicate (length f) 0) = (Inr (length f), f)"
proof
  assume "decode_frame f = Inr (h, body)"
  then have ok: "frame_ok (h, body)" and f: "f = frame_bytes h body"
    using fc.dec_Some_iff [of f "(h, body)"] by simp_all
  from ok have "length body \<le> 225" by (simp add: frame_ok_def)
  with ok show "frame_ok (h, body) \<and>
      encode_frame h body (replicate (length f) 0) = (Inr (length f), f)"
    by (simp add: f encode_frame_ok)
next
  assume a: "frame_ok (h, body) \<and>
      encode_frame h body (replicate (length f) 0) = (Inr (length f), f)"
  then have "length body \<le> 225" by (simp add: frame_ok_def)
  moreover from a have "30 + length body \<le> length f"
    using encode_frame_result [of h body "replicate (length f) 0"] by (simp split: if_splits)
  ultimately have "f = frame_bytes h body"
    using a encode_frame_ok [of body "replicate (length f) 0" h]
    by (metis append.right_neutral drop_all length_replicate order_refl prod.inject sum.inject(2))
  with a show "decode_frame f = Inr (h, body)"
    using fc.dec_enc [of "(h, body)"] by simp
qed

lemma decode_frame_Inr_shape:
  assumes "decode_frame f = Inr x"
  shows "30 \<le> length f" and "unat (f ! 27) + 30 = length f"
    and "crc16 (take (28 + unat (f ! 27)) f) =
          of_be [f ! (28 + unat (f ! 27)), f ! (28 + unat (f ! 27) + 1)]"
  using assms by (auto simp: decode_frame_def Let_def consts_defs bslice_def split: if_splits)

lemma of_be16_pair_inj:
  "(of_be [a, b] :: u16) = of_be [c, d] \<longleftrightarrow> a = c \<and> b = d"
proof
  assume "(of_be [a, b] :: u16) = of_be [c, d]"
  then have "be16 (of_be [a, b]) = be16 (of_be [c, d])" by simp
  then show "a = c \<and> b = d" by (simp add: be16_of_be)
qed auto

text \<open>C30: Every single-byte corruption of an accepted frame is rejected: whatever byte of it
  is changed, in the header, the length, the body or the CRC, decoding fails.\<close>

theorem decode_frame_detects_one_byte:
  assumes "decode_frame f = Inr x" and "i < length f" and "v \<noteq> f ! i"
  shows "\<exists>e. decode_frame (f[i := v]) = Inl e"
proof (rule ccontr)
  assume "\<not> ?thesis"
  then obtain y where y: "decode_frame (f[i := v]) = Inr y"
    by (cases "decode_frame (f[i := v])") auto
  define n where "n = unat (f ! 27)"
  have n: "n + 30 = length f"
    using decode_frame_Inr_shape(2) [OF assms(1)] by (simp add: n_def)
  note shape = decode_frame_Inr_shape [OF assms(1), folded n_def]
  have n': "unat (f[i := v] ! 27) = n"
    using decode_frame_Inr_shape(2) [OF y] n by simp
  then have i: "i \<noteq> 27"
    using assms n by (auto simp: n_def word_unat_eq_iff)
  note shape' = decode_frame_Inr_shape(3) [OF y, unfolded n']
  show False
  proof (cases "i < 28 + n")
    case True
    then have "crc16 ((take (28 + n) f)[i := v]) \<noteq> crc16 (take (28 + n) f)"
      using assms n by (intro crc16_update) simp_all
    moreover have "f[i := v] ! (28 + n) = f ! (28 + n)" "f[i := v] ! (28 + n + 1) = f ! (28 + n + 1)"
      using True by (simp_all add: nth_list_update_neq)
    ultimately show False
      using shape(3) shape' by (simp only: take_update_swap)
  next
    case False
    then have "take (28 + n) (f[i := v]) = take (28 + n) f" by simp
    then have "(of_be [f[i := v] ! (28 + n), f[i := v] ! (28 + n + 1)] :: u16) =
        of_be [f ! (28 + n), f ! (28 + n + 1)]"
      using shape(3) shape' by metis
    then have "f[i := v] ! (28 + n) = f ! (28 + n)" "f[i := v] ! (28 + n + 1) = f ! (28 + n + 1)"
      by (simp_all only: of_be16_pair_inj)
    moreover have "i = 28 + n \<or> i = 28 + n + 1" using False assms(2) n by auto
    ultimately show False
      using assms(2,3) n by (metis nth_list_update_eq)
  qed
qed

lemma decode_frame_detects_one_byte_witness:
  "\<exists>e. decode_frame ((frame_bytes \<lparr>h_version = 1, h_flags = 1, h_dst = 2, h_src = 3,
      h_packet_id = 4, h_hops = 0, h_epoch = 5, h_sequence = 6\<rparr> [7, 8])[14 := 1]) = Inl e"
proof (rule decode_frame_detects_one_byte)
  show "decode_frame (frame_bytes \<lparr>h_version = 1, h_flags = 1, h_dst = 2, h_src = 3,
      h_packet_id = 4, h_hops = 0, h_epoch = 5, h_sequence = 6\<rparr> [7, 8]) =
      Inr (\<lparr>h_version = 1, h_flags = 1, h_dst = 2, h_src = 3,
      h_packet_id = 4, h_hops = 0, h_epoch = 5, h_sequence = 6\<rparr>, [7, 8])"
    by (rule decode_frame_bytes) (simp add: frame_ok_def VERSION_PLAINTEXT_LAB_def
        VERSION_SECURE_def FLAGS_VALID_MASK_def FLAG_WANT_ACK_def)
qed (simp_all add: frame_bytes_fields(3))

end
