(* ===== verification/Crypto.thy ===== *)
theory Crypto
  imports Mesh_Prelude
begin

text \<open>
  The cryptographic crates the program links against (sha2, hmac, hkdf,
  chacha20poly1305, x25519-dalek, ed25519-dalek) are not part of the repository. They are
  one record of functions, an argument of every definition that calls them. What the
  program relies on is the documented behaviour collected in the predicates below; they
  are hypotheses of the theorems that need them. The record \<open>demo_crypto\<close> only shows that
  the hypotheses can hold together.
\<close>

record crypto =
  k_sha256 :: "bytes \<Rightarrow> bytes"
  k_hmac :: "bytes \<Rightarrow> bytes \<Rightarrow> bytes"
  k_hkdf :: "bytes option \<Rightarrow> bytes \<Rightarrow> bytes \<Rightarrow> bytes"
  k_seal :: "bytes \<Rightarrow> bytes \<Rightarrow> bytes \<Rightarrow> bytes \<Rightarrow> (bytes \<times> bytes) option"
  k_open :: "bytes \<Rightarrow> bytes \<Rightarrow> bytes \<Rightarrow> bytes \<Rightarrow> bytes \<Rightarrow> bytes option"
  k_x25519 :: "bytes \<Rightarrow> bytes \<Rightarrow> bytes"
  k_x_public :: "bytes \<Rightarrow> bytes"
  k_ed_public :: "bytes \<Rightarrow> bytes"
  k_ed_key_ok :: "bytes \<Rightarrow> bool"
  k_ed_sign :: "bytes \<Rightarrow> bytes \<Rightarrow> bytes"
  k_ed_verify :: "bytes \<Rightarrow> bytes \<Rightarrow> bytes \<Rightarrow> bool"

text \<open>Digest, MAC and KDF outputs are 32 bytes (the KDF is only asked for 32).\<close>

definition hash_lengths :: "crypto \<Rightarrow> bool" where
  "hash_lengths C \<longleftrightarrow>
     (\<forall>m. length (k_sha256 C m) = 32) \<and> (\<forall>k m. length (k_hmac C k m) = 32) \<and>
     (\<forall>s i l. length (k_hkdf C s i l) = 32)"

text \<open>Sealing succeeds for every message the program sends (the cipher's limit is 256 GiB),
  keeps the length, adds a 16-byte tag, and opening under the same key, nonce and
  associated data gives the message back.\<close>

definition aead_correct :: "crypto \<Rightarrow> bool" where
  "aead_correct C \<longleftrightarrow>
     (\<forall>k n a p. length p \<le> 255 \<longrightarrow>
        (\<exists>c t. k_seal C k n a p = Some (c, t) \<and> length c = length p \<and> length t = 16 \<and>
               k_open C k n a c t = Some p))"

definition aead_lengths :: "crypto \<Rightarrow> bool" where
  "aead_lengths C \<longleftrightarrow>
     (\<forall>k n a p c t. k_seal C k n a p = Some (c, t) \<longrightarrow> length c = length p \<and> length t = 16) \<and>
     (\<forall>k n a c t p. k_open C k n a c t = Some p \<longrightarrow> length p = length c)"

text \<open>Every fixed-size output has its size.\<close>

definition crypto_sizes :: "crypto \<Rightarrow> bool" where
  "crypto_sizes C \<longleftrightarrow>
     hash_lengths C \<and> aead_lengths C \<and>
     (\<forall>s. length (k_ed_public C s) = 32) \<and> (\<forall>s m. length (k_ed_sign C s m) = 64)"

text \<open>The two sides of a Diffie-Hellman exchange agree, and honest signatures verify.\<close>

definition dh_commutes :: "crypto \<Rightarrow> bool" where
  "dh_commutes C \<longleftrightarrow>
     (\<forall>a b. k_x25519 C a (k_x_public C b) = k_x25519 C b (k_x_public C a))"

definition sign_correct :: "crypto \<Rightarrow> bool" where
  "sign_correct C \<longleftrightarrow>
     (\<forall>s m. length (k_ed_public C s) = 32 \<and> k_ed_key_ok C (k_ed_public C s) \<and>
        length (k_ed_sign C s m) = 64 \<and>
        k_ed_verify C (k_ed_public C s) m (k_ed_sign C s m))"

lemma hash_lengthsD [simp]:
  assumes "hash_lengths C"
  shows "length (k_sha256 C m) = 32" and "length (k_hmac C k m) = 32"
    and "length (k_hkdf C s i l) = 32"
  using assms by (auto simp: hash_lengths_def)

lemma crypto_sizesD:
  assumes "crypto_sizes C"
  shows "hash_lengths C" and "aead_lengths C"
    and "length (k_ed_public C s) = 32" and "length (k_ed_sign C s m) = 64"
  using assms by (auto simp: crypto_sizes_def)

lemma aead_correctE:
  assumes "aead_correct C" and "length p \<le> 255"
  obtains c t where "k_seal C k n a p = Some (c, t)" and "length c = length p"
    and "length t = 16" and "k_open C k n a c t = Some p"
  using assms unfolding aead_correct_def by blast

lemma aead_lengths_open:
  "aead_lengths C \<Longrightarrow> k_open C k n a c t = Some p \<Longrightarrow> length p = length c"
  by (simp add: aead_lengths_def)

section \<open>The hypotheses are satisfiable\<close>

text \<open>An instance for witnesses: no secrecy, only the algebra the hypotheses state.\<close>

definition demo_pad :: "nat \<Rightarrow> bytes \<Rightarrow> bytes" where
  "demo_pad n m = take n (m @ replicate n 0)"

lemma length_demo_pad [simp]: "length (demo_pad n m) = n"
  by (simp add: demo_pad_def)

definition demo_crypto :: crypto where
  "demo_crypto = \<lparr>
     k_sha256 = (\<lambda>m. demo_pad 32 (rev m)),
     k_hmac = (\<lambda>k m. demo_pad 32 (rev m @ k)),
     k_hkdf = (\<lambda>s i l. demo_pad 32 (rev l @ i)),
     k_seal = (\<lambda>k n a p. Some (p, demo_pad 16 (rev a))),
     k_open = (\<lambda>k n a c t. if t = demo_pad 16 (rev a) then Some c else None),
     k_x25519 = (\<lambda>s p. demo_pad 32 (map2 (\<lambda>x y. x + y) (demo_pad 32 s) (demo_pad 32 p))),
     k_x_public = demo_pad 32,
     k_ed_public = demo_pad 32,
     k_ed_key_ok = (\<lambda>p. True),
     k_ed_sign = (\<lambda>s m. demo_pad 64 (demo_pad 32 s @ m)),
     k_ed_verify = (\<lambda>p m g. g = demo_pad 64 (demo_pad 32 p @ m)) \<rparr>"

lemma demo_pad_idem [simp]: "demo_pad n (demo_pad n m) = demo_pad n m"
  by (simp add: demo_pad_def)

lemma demo_hash_lengths: "hash_lengths demo_crypto"
  by (simp add: hash_lengths_def demo_crypto_def)

lemma demo_aead_correct: "aead_correct demo_crypto"
  by (simp add: aead_correct_def demo_crypto_def)

lemma demo_aead_lengths: "aead_lengths demo_crypto"
  by (simp add: aead_lengths_def demo_crypto_def)

lemma demo_crypto_sizes: "crypto_sizes demo_crypto"
  using demo_hash_lengths demo_aead_lengths by (simp add: crypto_sizes_def demo_crypto_def)

lemma demo_dh_commutes: "dh_commutes demo_crypto"
proof -
  have "map2 (\<lambda>x y. x + y) xs ys = map2 (\<lambda>x y. x + y) ys xs" for xs ys :: bytes
    by (induction xs ys rule: list_induct2') (auto simp: add.commute)
  then show ?thesis by (simp add: dh_commutes_def demo_crypto_def)
qed

lemma demo_sign_correct: "sign_correct demo_crypto"
  by (simp add: sign_correct_def demo_crypto_def)

end
