(* ===== verification/Clock.thy ===== *)
theory Clock
  imports Crypto
begin

text \<open>
  Hour epochs and hourly private addresses, \<open>crates/mesh-core/src/clock.rs\<close>: the epoch of
  a Unix time, the acceptance window of one hour either way, the guard of the trusted
  clock, address derivation (HMAC is a parameter) and the per-contact alias cache.
\<close>

definition ADDR_DOMAIN :: bytes where
  "ADDR_DOMAIN = [0x4C,0x4D,0x45,0x53,0x48,0x2D,0x61,0x64,0x64,0x72,0x2D,0x76,0x31]"
definition SECS_PER_HOUR :: u64 where [consts_defs]: "SECS_PER_HOUR = 3600"

text \<open>\<open>u32::try_from\<close> of a 64-bit value.\<close>

definition u32_try_from :: "u64 \<Rightarrow> u32 option" where
  "u32_try_from x = (if unat x < 2 ^ 32 then Some (ucast x) else None)"

definition epoch_of_unix :: "u64 \<Rightarrow> u32 option" where
  "epoch_of_unix unix_seconds = u32_try_from (unix_seconds div SECS_PER_HOUR)"

definition in_accept_window :: "u32 \<Rightarrow> u32 \<Rightarrow> bool" where
  "in_accept_window rx_epoch local_epoch \<longleftrightarrow>
     rx_epoch = local_epoch \<or> checked_add rx_epoch 1 = Some local_epoch \<or>
     checked_add local_epoch 1 = Some rx_epoch"

definition derive_address :: "crypto \<Rightarrow> bytes \<Rightarrow> bytes \<Rightarrow> u32 \<Rightarrow> bytes" where
  "derive_address C secret identity epoch =
     (let out = k_hmac C secret (ADDR_DOMAIN @ identity @ be32 epoch)
      in [out ! 0, out ! 1, out ! 2, out ! 3])"

datatype time_error = TimeRollback

definition check_time_set :: "u32 \<Rightarrow> u32 \<Rightarrow> u32 \<Rightarrow> time_error + unit" where
  "check_time_set new_epoch persisted_tx_epoch rx_anchor =
     (if new_epoch < persisted_tx_epoch \<or> new_epoch < rx_anchor then Inl TimeRollback
      else Inr ())"

definition anchor_may_advance :: "u32 \<Rightarrow> u32 \<Rightarrow> bool" where
  "anchor_may_advance old_anchor new_anchor \<longleftrightarrow> old_anchor \<le> new_anchor"

record alias_cache =
  ac_epoch :: u32
  ac_own :: "bytes list"
  ac_peer :: "bytes list"
  ac_valid :: bool

definition AliasCache_new :: alias_cache where
  "AliasCache_new = \<lparr> ac_epoch = 0, ac_own = replicate 3 [0, 0, 0, 0],
     ac_peer = replicate 3 [0, 0, 0, 0], ac_valid = False \<rparr>"

definition AliasCache_refresh ::
  "crypto \<Rightarrow> alias_cache \<Rightarrow> bytes \<Rightarrow> bytes \<Rightarrow> bytes \<Rightarrow> u32 \<Rightarrow> alias_cache" where
  "AliasCache_refresh C a secret own_id peer_id epoch =
     (let epochs = [saturating_sub epoch 1, epoch, saturating_add epoch 1];
          a = foldl (\<lambda>a (i, e).
                a\<lparr> ac_own := (ac_own a)[i := derive_address C secret own_id e],
                   ac_peer := (ac_peer a)[i := derive_address C secret peer_id e] \<rparr>)
              a (enumerate 0 epochs)
      in a\<lparr> ac_epoch := epoch, ac_valid := True \<rparr>)"

definition AliasCache_slot_epochs :: "alias_cache \<Rightarrow> u32 list" where
  "AliasCache_slot_epochs a =
     [saturating_sub (ac_epoch a) 1, ac_epoch a, saturating_add (ac_epoch a) 1]"

definition AliasCache_find_slot :: "alias_cache \<Rightarrow> bytes \<Rightarrow> nat option" where
  "AliasCache_find_slot a addr =
     (if \<not> ac_valid a then None
      else List.find (\<lambda>i. ac_own a ! i = addr \<or> ac_peer a ! i = addr) [0, 1, 2])"

section \<open>Lemmas\<close>

lemma u32_try_from_Some:
  "u32_try_from x = Some e \<longleftrightarrow> unat x = unat e"
proof -
  have "unat e < 2 ^ 32" using unat_u32_less [of e] by simp
  moreover have "unat (ucast x :: u32) = unat x" if "unat x < 2 ^ 32"
    using that by (simp add: unsigned_ucast_eq take_bit_nat_eq_self)
  ultimately show ?thesis
    by (auto simp: u32_try_from_def word_unat_eq_iff)
qed

lemma epoch_of_unix_Some:
  "epoch_of_unix t = Some e \<longleftrightarrow> unat t div 3600 = unat e"
  by (simp add: epoch_of_unix_def u32_try_from_Some SECS_PER_HOUR_def unat_div_distrib)

lemma in_accept_window_unat:
  "in_accept_window a b \<longleftrightarrow> unat a = unat b \<or> unat a + 1 = unat b \<or> unat b + 1 = unat a"
proof -
  have "checked_add x 1 = Some y \<longleftrightarrow> unat x + 1 = unat y" for x y :: u32
    using unat_u32_less [of y] unat_plus_fits [of x 1]
    by (auto simp: checked_add_Some word_unat_eq_iff)
  then show ?thesis by (simp add: in_accept_window_def word_unat_eq_iff)
qed

lemma check_time_set_Inr:
  "check_time_set e tx rx = Inr () \<longleftrightarrow> tx \<le> e \<and> rx \<le> e"
  by (auto simp: check_time_set_def not_less)

lemma length_derive_address [simp]: "length (derive_address C s i e) = 4"
  by (simp add: derive_address_def Let_def)

lemma AliasCache_refresh_eq:
  assumes "length (ac_own a) = 3" and "length (ac_peer a) = 3"
  shows "AliasCache_refresh C a secret own peer e =
    \<lparr> ac_epoch = e,
      ac_own = map (derive_address C secret own) [saturating_sub e 1, e, saturating_add e 1],
      ac_peer = map (derive_address C secret peer) [saturating_sub e 1, e, saturating_add e 1],
      ac_valid = True \<rparr>"
proof -
  obtain x y z where o: "ac_own a = [x, y, z]"
    using assms(1) by (auto simp: length_Suc_conv numeral_eq_Suc)
  obtain u v w where p: "ac_peer a = [u, v, w]"
    using assms(2) by (auto simp: length_Suc_conv numeral_eq_Suc)
  show ?thesis
    by (simp add: AliasCache_refresh_def Let_def o p numeral_eq_Suc)
qed

lemma find_slot_Some:
  "AliasCache_find_slot a addr = Some i \<Longrightarrow>
     ac_valid a \<and> i < 3 \<and> (ac_own a ! i = addr \<or> ac_peer a ! i = addr)"
  by (auto simp: AliasCache_find_slot_def find_Some_iff numeral_eq_Suc nth_Cons'
      split: if_splits)

lemma find_slot_None:
  "ac_valid a \<Longrightarrow> i < 3 \<Longrightarrow> ac_own a ! i = addr \<or> ac_peer a ! i = addr \<Longrightarrow>
     AliasCache_find_slot a addr \<noteq> None"
  by (auto simp: AliasCache_find_slot_def find_None_iff numeral_eq_Suc less_Suc_eq)

section \<open>Properties\<close>

lemma window_epochs:
  "in_accept_window x e \<longleftrightarrow> x \<in> {saturating_sub e 1, e, saturating_add e 1}"
  using unat_u32_less [of e] unat_u32_less [of x]
  by (auto simp: in_accept_window_unat word_unat_eq_iff unat_saturating_add
      unat_saturating_sub min_def split: if_splits)

text \<open>C31: In a refreshed cache an address is found exactly when it is an alias that one of the
  two identities derives for an epoch of the acceptance window around the cache's hour, and
  the slot that is found names an epoch whose alias it is.\<close>

theorem alias_cache_finds_exactly_the_window:
  assumes "length (ac_own a) = 3" and "length (ac_peer a) = 3"
    and "a' = AliasCache_refresh C a secret own peer e"
  shows "case AliasCache_find_slot a' addr of
      None \<Rightarrow> \<not> (\<exists>x. in_accept_window x e \<and>
        addr \<in> {derive_address C secret own x, derive_address C secret peer x})
    | Some i \<Rightarrow> i < 3 \<and> in_accept_window (AliasCache_slot_epochs a' ! i) e \<and>
        addr \<in> {derive_address C secret own (AliasCache_slot_epochs a' ! i),
                 derive_address C secret peer (AliasCache_slot_epochs a' ! i)}"
proof -
  let ?es = "[saturating_sub e 1, e, saturating_add e 1]"
  note a' = assms(3) [unfolded AliasCache_refresh_eq [OF assms(1,2)]]
  have nth: "ac_own a' ! i = derive_address C secret own (?es ! i)"
    "ac_peer a' ! i = derive_address C secret peer (?es ! i)"
    "AliasCache_slot_epochs a' = ?es" "in_accept_window (?es ! i) e" if "i < 3" for i
    using that
    by (auto simp: a' AliasCache_slot_epochs_def numeral_eq_Suc less_Suc_eq window_epochs)
  show ?thesis
  proof (cases "AliasCache_find_slot a' addr")
    case (Some i)
    then show ?thesis
      using find_slot_Some [OF Some] nth [of i] by auto
  next
    case None
    have "addr \<notin> {derive_address C secret own x, derive_address C secret peer x}"
      if x: "in_accept_window x e" for x
    proof -
      have "x \<in> set ?es" using x by (simp add: window_epochs)
      then obtain i where "i < 3" "x = ?es ! i"
        by (metis in_set_conv_nth length_Cons list.size(3) numeral_3_eq_3)
      then show ?thesis
        using find_slot_None [of a' i addr] nth [of i] None by (auto simp: a')
    qed
    with None show ?thesis by auto
  qed
qed

lemma alias_cache_finds_exactly_the_window_witness:
  "case AliasCache_find_slot (AliasCache_refresh demo_crypto AliasCache_new [1] [2] [3] 7)
      (derive_address demo_crypto [1] [3] 8) of
      None \<Rightarrow> \<not> (\<exists>x. in_accept_window x 7 \<and>
        derive_address demo_crypto [1] [3] 8 \<in>
          {derive_address demo_crypto [1] [2] x, derive_address demo_crypto [1] [3] x})
    | Some i \<Rightarrow> i < 3 \<and> in_accept_window (AliasCache_slot_epochs
          (AliasCache_refresh demo_crypto AliasCache_new [1] [2] [3] 7) ! i) 7 \<and>
        derive_address demo_crypto [1] [3] 8 \<in>
          {derive_address demo_crypto [1] [2] (AliasCache_slot_epochs
             (AliasCache_refresh demo_crypto AliasCache_new [1] [2] [3] 7) ! i),
           derive_address demo_crypto [1] [3] (AliasCache_slot_epochs
             (AliasCache_refresh demo_crypto AliasCache_new [1] [2] [3] 7) ! i)}"
  by (rule alias_cache_finds_exactly_the_window) (simp_all add: AliasCache_new_def)

text \<open>The guard of the trusted clock composed with the epoch computation: a Unix time is
  refused as a rollback exactly when its hour lies before the last transmit epoch or the
  receive anchor, so a correction inside the hour always passes.\<close>

theorem check_time_set_by_hour:
  "epoch_of_unix t = Some e \<Longrightarrow>
     check_time_set e tx rx = (if unat t < 3600 * max (unat tx) (unat rx) then Inl TimeRollback
       else Inr ())"
proof -
  assume "epoch_of_unix t = Some e"
  then have "unat e = unat t div 3600" by (simp add: epoch_of_unix_Some)
  then have "e < x \<longleftrightarrow> unat t < 3600 * unat x" for x
    by (simp add: word_less_nat_alt div_less_iff_less_mult mult.commute)
  then show ?thesis by (auto simp: check_time_set_def max_def word_order_unat)
qed

lemma check_time_set_by_hour_witness:
  "check_time_set 2 1 2 = (if unat (7200 :: u64) < 3600 * max (unat (1 :: u32)) (unat (2 :: u32))
     then Inl TimeRollback else Inr ())"
  by (rule check_time_set_by_hour) (simp add: epoch_of_unix_Some)

end
