(* ===== verification/Security.thy ===== *)
theory Security
  imports Frame Crypto "HOL-Library.List_Lexorder"
begin

text \<open>
  Pairing transcript and key derivation, frame encryption, the 64-entry replay window and
  the receive-window anchor, \<open>crates/mesh-core/src/security.rs\<close>. Hashing, HKDF and the AEAD
  are parameters. \<open>Secret32\<close> and the other 32-byte wrappers are their bytes: erasing a
  secret when it is dropped has no effect a caller can observe.
\<close>

section \<open>Labels\<close>

definition OFFER_LEN :: nat where [consts_defs]: "OFFER_LEN = 97"
definition NONCE_LEN :: nat where [consts_defs]: "NONCE_LEN = 12"
definition AAD_LEN :: nat where [consts_defs]: "AAD_LEN = 41"

definition ascii :: "string \<Rightarrow> bytes" where
  "ascii s = map of_char s"

definition DOMAIN_PAIR :: bytes where "DOMAIN_PAIR = ascii ''LMESH-PAIR-v1''"
definition DOMAIN_FRAME :: bytes where "DOMAIN_FRAME = ascii ''LMESH-frame-v1''"
definition LABEL_ROOT :: bytes where "LABEL_ROOT = ascii ''LMESH-root-v1''"
definition LABEL_SETUP_LR :: bytes where "LABEL_SETUP_LR = ascii ''LMESH-setup-LR-v1''"
definition LABEL_SETUP_RL :: bytes where "LABEL_SETUP_RL = ascii ''LMESH-setup-RL-v1''"
definition LABEL_TRAFFIC_LR :: bytes where "LABEL_TRAFFIC_LR = ascii ''LMESH-traffic-LR-v1''"
definition LABEL_TRAFFIC_RL :: bytes where "LABEL_TRAFFIC_RL = ascii ''LMESH-traffic-RL-v1''"
definition LABEL_ADDRESS :: bytes where "LABEL_ADDRESS = ascii ''LMESH-address-v1''"
definition LABEL_CONFIRM :: bytes where "LABEL_CONFIRM = ascii ''LMESH-confirm-v1''"
definition LABEL_HOUR :: bytes where "LABEL_HOUR = ascii ''LMESH-hour-v1''"

datatype crypto_error = BufferTooSmall | BadTag

section \<open>Transcript and keys\<close>

definition order_offers :: "bytes \<Rightarrow> bytes \<Rightarrow> bytes \<times> bytes" where
  "order_offers a b = (if bslice 1 33 a \<le> bslice 1 33 b then (a, b) else (b, a))"

definition transcript_t :: "crypto \<Rightarrow> bytes \<Rightarrow> bytes \<Rightarrow> bytes" where
  "transcript_t C l r = k_sha256 C (DOMAIN_PAIR @ l @ r)"

definition derive_root :: "crypto \<Rightarrow> bytes \<Rightarrow> bytes \<Rightarrow> bytes" where
  "derive_root C dh t = k_hkdf C (Some t) dh LABEL_ROOT"

definition derive_label :: "crypto \<Rightarrow> bytes \<Rightarrow> bytes \<Rightarrow> bytes" where
  "derive_label C root label = k_hkdf C None root label"

definition hourly_key :: "crypto \<Rightarrow> bytes \<Rightarrow> u32 \<Rightarrow> bytes" where
  "hourly_key C dir_root epoch = k_hkdf C None dir_root (LABEL_HOUR @ be32 epoch)"

section \<open>Frame encryption\<close>

definition nonce :: "u32 \<Rightarrow> u64 \<Rightarrow> bytes" where
  "nonce epoch sq =
     (let n = replicate NONCE_LEN 0;
          n = put_at 0 (be32 epoch) n;
          n = put_at 4 (be64 sq) n
      in n)"

definition frame_aad :: "header \<Rightarrow> u8 \<Rightarrow> bytes" where
  "frame_aad h body_len =
     (let aad = replicate AAD_LEN 0;
          aad = put_at 0 DOMAIN_FRAME aad;
          aad = put_at 14 [h_version h] aad;
          aad = put_at 15 [h_flags h] aad;
          aad = put_at 16 (be32 (h_dst h)) aad;
          aad = put_at 20 (be32 (h_src h)) aad;
          aad = put_at 24 (be32 (h_packet_id h)) aad;
          aad = put_at 28 (be32 (h_epoch h)) aad;
          aad = put_at 32 (be64 (h_sequence h)) aad;
          aad = put_at 40 [body_len] aad
      in aad)"

text \<open>The cipher works in place on the copy of the message in the output buffer; when it
  refuses, the copy stays there.\<close>

definition encrypt_data ::
  "crypto \<Rightarrow> bytes \<Rightarrow> bytes \<Rightarrow> bytes \<Rightarrow> bytes \<Rightarrow> bytes \<Rightarrow> crypto_error out_result" where
  "encrypt_data C key nonce12 aad plaintext out =
     (let total = length plaintext + TAG_LEN in
      if length out < total then (Inl BufferTooSmall, out)
      else
        let out = put_at 0 plaintext out in
        case k_seal C key nonce12 aad (take (length plaintext) out) of
          None \<Rightarrow> (Inl BadTag, out)
        | Some (ct, tag) \<Rightarrow>
            let out = put_at 0 ct out;
                out = put_at (length plaintext) tag out
            in (Inr total, out))"

definition decrypt_data ::
  "crypto \<Rightarrow> bytes \<Rightarrow> bytes \<Rightarrow> bytes \<Rightarrow> bytes \<Rightarrow> bytes \<Rightarrow> crypto_error out_result" where
  "decrypt_data C key nonce12 aad ct_and_tag out =
     (if length ct_and_tag < TAG_LEN then (Inl BufferTooSmall, out)
      else
        let pt_len = length ct_and_tag - TAG_LEN in
        if length out < pt_len then (Inl BufferTooSmall, out)
        else
          let out = put_at 0 (take pt_len ct_and_tag) out in
          case k_open C key nonce12 aad (take pt_len out) (drop pt_len ct_and_tag) of
            Some pt \<Rightarrow> (Inr pt_len, put_at 0 pt out)
          | None \<Rightarrow> (Inl BadTag, put_at 0 (replicate pt_len 0) out))"

section \<open>Replay windows\<close>

datatype verdict = Accepted | Duplicate | Stale

record replay_window =
  rw_highest :: u64
  rw_bitmap :: u64
  rw_empty :: bool

definition ReplayWindow_new :: replay_window where
  "ReplayWindow_new = \<lparr> rw_highest = 0, rw_bitmap = 0, rw_empty = True \<rparr>"

definition ReplayWindow_accept :: "replay_window \<Rightarrow> u64 \<Rightarrow> verdict \<times> replay_window" where
  "ReplayWindow_accept w sq =
     (if rw_empty w then
        (Accepted, w\<lparr> rw_empty := False, rw_highest := sq, rw_bitmap := 1 \<rparr>)
      else if sq > rw_highest w then
        (let shift = sq - rw_highest w;
             bm = (if shift \<ge> 64 then 1 else push_bit (unat shift) (rw_bitmap w) OR 1)
         in (Accepted, w\<lparr> rw_bitmap := bm, rw_highest := sq \<rparr>))
      else
        (let back = rw_highest w - sq in
         if back \<ge> 64 then (Stale, w)
         else
           (let b = push_bit (unat back) 1 in
            if rw_bitmap w AND b \<noteq> 0 then (Duplicate, w)
            else (Accepted, w\<lparr> rw_bitmap := rw_bitmap w OR b \<rparr>))))"

definition ReplayWindow_highest :: "replay_window \<Rightarrow> u64 option" where
  "ReplayWindow_highest w = (if rw_empty w then None else Some (rw_highest w))"

definition ReplayWindow_is_empty :: "replay_window \<Rightarrow> bool" where
  "ReplayWindow_is_empty w = rw_empty w"

definition ReplayWindow_bitmap_bits :: "replay_window \<Rightarrow> u64" where
  "ReplayWindow_bitmap_bits w = rw_bitmap w"

definition ReplayWindow_restore :: "u64 \<Rightarrow> u64 \<Rightarrow> bool \<Rightarrow> replay_window" where
  "ReplayWindow_restore hi bm em =
     (if em then ReplayWindow_new
      else if bm = 0 then ReplayWindow_new
      else \<lparr> rw_highest = hi, rw_bitmap = bm, rw_empty = False \<rparr>)"

section \<open>Receive-window anchors\<close>

datatype anchor_error = AnchorRollback

record anchor_hours =
  ah_anchor :: u32

definition AnchorHours_new :: "u32 \<Rightarrow> anchor_hours" where
  "AnchorHours_new a = \<lparr> ah_anchor = a \<rparr>"

definition AnchorHours_anchor :: "anchor_hours \<Rightarrow> u32" where
  "AnchorHours_anchor a = ah_anchor a"

definition AnchorHours_slots :: "u32 \<Rightarrow> u32 list" where
  "AnchorHours_slots anchor = [saturating_sub anchor 1, anchor, saturating_add anchor 1]"

text \<open>\<open>heapless::Vec<u32, 3>::push\<close> drops the element when the vector is full, as the code
  ignores its result.\<close>

definition push3 :: "'a \<Rightarrow> 'a list \<Rightarrow> 'a list" where
  "push3 x xs = (if length xs < 3 then xs @ [x] else xs)"

definition trusted_advance :: "anchor_hours \<Rightarrow> u32 \<Rightarrow> (anchor_error + u32 list) \<times> anchor_hours"
  where
  "trusted_advance a new_hour =
     (if new_hour < ah_anchor a then (Inl AnchorRollback, a)
      else
        let old = AnchorHours_slots (ah_anchor a);
            new = AnchorHours_slots new_hour;
            init = foldl (\<lambda>init s. if s \<notin> set old \<and> s \<notin> set init then push3 s init else init)
                     [] new
        in (Inr init, a\<lparr> ah_anchor := new_hour \<rparr>))"

section \<open>Lemmas: nonces and associated data\<close>

lemma length_DOMAIN_FRAME [simp]: "length DOMAIN_FRAME = 14"
  by (simp add: DOMAIN_FRAME_def ascii_def)

lemma nonce_eq: "nonce e s = be32 e @ be64 s"
  using write_all_0 [of "[be32 e, be64 s]" 12 "replicate 12 0"]
  by (simp add: nonce_def NONCE_LEN_def)

lemma frame_aad_eq:
  "frame_aad h n = DOMAIN_FRAME @ [h_version h, h_flags h] @ be32 (h_dst h) @ be32 (h_src h) @
     be32 (h_packet_id h) @ be32 (h_epoch h) @ be64 (h_sequence h) @ [n]"
  using write_all_0 [of "[DOMAIN_FRAME, [h_version h], [h_flags h], be32 (h_dst h),
      be32 (h_src h), be32 (h_packet_id h), be32 (h_epoch h), be64 (h_sequence h), [n]]" 41
      "replicate 41 0"]
  by (simp add: frame_aad_def AAD_LEN_def)

lemma length_nonce [simp]: "length (nonce e s) = 12"
  by (simp add: nonce_eq)

lemma length_frame_aad [simp]: "length (frame_aad h n) = 41"
  by (simp add: frame_aad_eq)

lemma nonce_inject [simp]: "nonce e s = nonce e' s' \<longleftrightarrow> e = e' \<and> s = s'"
  by (auto simp: nonce_eq append_eq_append_conv)

lemma frame_aad_inject:
  "frame_aad h n = frame_aad h' n' \<longleftrightarrow> h'\<lparr> h_hops := h_hops h \<rparr> = h \<and> n = n'"
  by (cases h; cases h') (auto simp: frame_aad_eq append_eq_append_conv)

lemma frame_aad_hops [simp]: "frame_aad (h\<lparr> h_hops := x \<rparr>) n = frame_aad h n"
  by (simp add: frame_aad_eq)

section \<open>Lemmas: encryption\<close>

lemma encrypt_data_ok:
  assumes "k_seal C key n12 aad p = Some (c, t)" and "length c = length p" and "length t = 16"
    and "length p + 16 \<le> length out"
  shows "encrypt_data C key n12 aad p out =
    (Inr (length p + 16), c @ t @ drop (length p + 16) out)"
  using assms
  by (simp add: encrypt_data_def TAG_LEN_def Let_def put_at_0 put_at_next [where xs = c]
      put_at_over [where xs = "[]", simplified])

lemma encrypt_data_small:
  "length out < length p + 16 \<Longrightarrow> encrypt_data C key n12 aad p out = (Inl BufferTooSmall, out)"
  by (simp add: encrypt_data_def TAG_LEN_def Let_def)

lemma decrypt_data_ok:
  assumes "k_open C key n12 aad c t = Some p" and "length c = length p" and "length t = 16"
    and "length p \<le> length out"
  shows "decrypt_data C key n12 aad (c @ t) out = (Inr (length p), p @ drop (length p) out)"
  using assms by (simp add: decrypt_data_def TAG_LEN_def Let_def put_at_0)

lemma decrypt_data_Inr:
  assumes "decrypt_data C key n12 aad ct out = (Inr n, out')" and "aead_lengths C"
  shows "16 \<le> length ct \<and> n = length ct - 16 \<and> n \<le> length out \<and>
    k_open C key n12 aad (take n ct) (drop n ct) = Some (take n out') \<and>
    out' = take n out' @ drop n out"
proof -
  have le: "16 \<le> length ct" "length ct - 16 \<le> length out"
    using assms(1) by (auto simp: decrypt_data_def TAG_LEN_def Let_def split: if_splits)
  with assms(1) obtain p where p: "k_open C key n12 aad (take (length ct - 16) ct)
        (drop (length ct - 16) ct) = Some p" and n: "n = length ct - 16"
    and out': "out' = put_at 0 p (put_at 0 (take (length ct - 16) ct) out)"
    by (auto simp: decrypt_data_def TAG_LEN_def Let_def put_at_0 split: option.splits)
  have "length p = n" using aead_lengths_open [OF assms(2) p] n le by simp
  with le n p out' show ?thesis by (simp add: put_at_0)
qed

lemma decrypt_data_BadTag:
  assumes "decrypt_data C key n12 aad ct out = (Inl e, out')"
  shows "e = BufferTooSmall \<and> out' = out \<or>
    e = BadTag \<and> 16 \<le> length ct \<and>
    out' = replicate (length ct - 16) 0 @ drop (length ct - 16) out"
proof (cases "length ct < 16 \<or> length out < length ct - 16")
  case True
  with assms show ?thesis by (auto simp: decrypt_data_def TAG_LEN_def Let_def split: if_splits)
next
  case False
  with assms show ?thesis
    by (auto simp: decrypt_data_def TAG_LEN_def Let_def put_at_0 not_less split: option.splits)
qed

lemma decrypt_encrypt:
  assumes "aead_correct C" and "length p \<le> 255"
  obtains c where "length c = length p + 16"
    and "\<And>out. length p + 16 \<le> length out \<Longrightarrow>
          encrypt_data C key n12 aad p out = (Inr (length p + 16), c @ drop (length p + 16) out)"
    and "\<And>out. length p \<le> length out \<Longrightarrow>
          decrypt_data C key n12 aad c out = (Inr (length p), p @ drop (length p) out)"
proof -
  from assms obtain c t where ct: "k_seal C key n12 aad p = Some (c, t)" "length c = length p"
    "length t = 16" "k_open C key n12 aad c t = Some p"
    by (rule aead_correctE)
  show thesis
  proof (rule that)
    show "length (c @ t) = length p + 16" using ct by simp
  qed (use ct encrypt_data_ok decrypt_data_ok in fastforce)+
qed

section \<open>Lemmas: the replay window\<close>

text \<open>What a window refuses, as a set of sequence numbers.\<close>

definition rw_seen :: "replay_window \<Rightarrow> u64 \<Rightarrow> bool" where
  "rw_seen w s \<longleftrightarrow> \<not> rw_empty w \<and> s \<le> rw_highest w \<and>
     (64 \<le> unat (rw_highest w - s) \<or> bit (rw_bitmap w) (unat (rw_highest w - s)))"

definition rw_ok :: "replay_window \<Rightarrow> bool" where
  "rw_ok w \<longleftrightarrow>
     (if rw_empty w then rw_highest w = 0 \<and> rw_bitmap w = 0 else rw_bitmap w \<noteq> 0)"

lemma and_bit_nonzero: "n < LENGTH('a) \<Longrightarrow> w AND push_bit n 1 \<noteq> 0 \<longleftrightarrow> bit w n"
  for w :: "'a::len word"
  using and_exp_eq_0_iff_not_bit [of w n] by (simp add: push_bit_of_1)

lemma u64_ge_64: "64 \<le> x \<longleftrightarrow> 64 \<le> unat x" for x :: u64
  by (simp add: word_le_nat_alt)

text \<open>The four cases of an offer, without the bit arithmetic.\<close>

lemma accept_empty:
  "rw_empty w \<Longrightarrow> ReplayWindow_accept w s =
     (Accepted, w\<lparr> rw_empty := False, rw_highest := s, rw_bitmap := 1 \<rparr>)"
  by (simp add: ReplayWindow_accept_def)

lemma accept_above:
  "\<not> rw_empty w \<Longrightarrow> rw_highest w < s \<Longrightarrow> ReplayWindow_accept w s =
     (Accepted, w\<lparr> rw_highest := s, rw_bitmap :=
       (if 64 \<le> unat (s - rw_highest w) then 1
        else push_bit (unat (s - rw_highest w)) (rw_bitmap w) OR 1) \<rparr>)"
  by (simp add: ReplayWindow_accept_def Let_def u64_ge_64)

lemma accept_within:
  assumes "\<not> rw_empty w" and "s \<le> rw_highest w"
  shows "ReplayWindow_accept w s =
     (if 64 \<le> unat (rw_highest w - s) then (Stale, w)
      else if bit (rw_bitmap w) (unat (rw_highest w - s)) then (Duplicate, w)
      else (Accepted, w\<lparr> rw_bitmap :=
              rw_bitmap w OR push_bit (unat (rw_highest w - s)) 1 \<rparr>))"
proof -
  have "\<not> rw_highest w < s" using assms by simp
  moreover have "rw_bitmap w AND push_bit (unat (rw_highest w - s)) 1 \<noteq> 0 \<longleftrightarrow>
      bit (rw_bitmap w) (unat (rw_highest w - s))" if "\<not> 64 \<le> unat (rw_highest w - s)"
    using that by (intro and_bit_nonzero) simp
  ultimately show ?thesis
    using assms(1)
    by (cases "64 \<le> unat (rw_highest w - s)")
      (simp_all only: ReplayWindow_accept_def Let_def u64_ge_64 if_True if_False simp_thms)
qed

lemma accept_verdict:
  "fst (ReplayWindow_accept w s) =
     (if \<not> rw_seen w s then Accepted
      else if 64 \<le> unat (rw_highest w - s) then Stale else Duplicate)"
proof -
  consider "rw_empty w" | "\<not> rw_empty w" "rw_highest w < s" | "\<not> rw_empty w" "s \<le> rw_highest w"
    by fastforce
  then show ?thesis
    by cases (auto simp: accept_empty accept_above accept_within rw_seen_def)
qed

lemma accept_Accepted: "fst (ReplayWindow_accept w s) = Accepted \<longleftrightarrow> \<not> rw_seen w s"
  by (simp add: accept_verdict)

lemma accept_refused: "rw_seen w s \<Longrightarrow> snd (ReplayWindow_accept w s) = w"
  by (auto simp: rw_seen_def accept_within)

text \<open>Taking \<open>s\<close> adds exactly \<open>s\<close>, and everything that is now 64 or more behind.\<close>

lemma unat_diff_add:
  "t \<le> h \<Longrightarrow> h \<le> s \<Longrightarrow> unat (s - t) = unat (s - h) + unat (h - t)" for s :: "'a::len word"
  by (simp add: unat_sub word_le_nat_alt)

lemma unat_diff_0: "t \<le> s \<Longrightarrow> unat (s - t) = 0 \<longleftrightarrow> s = t" for s :: "'a::len word"
  by (auto simp: unat_sub word_order_unat)

lemma accept_seen_above:
  assumes "\<not> rw_empty w" and "rw_highest w < s"
  shows "rw_seen (snd (ReplayWindow_accept w s)) t \<longleftrightarrow>
    rw_seen w t \<or> t = s \<or> t < s \<and> 64 \<le> unat (s - t)"
proof -
  define sh where "sh = unat (s - rw_highest w)"
  define d where "d = unat (s - t)"
  have upd: "rw_seen (snd (ReplayWindow_accept w s)) t \<longleftrightarrow> t \<le> s \<and>
      (64 \<le> d \<or> d = 0 \<or> sh \<le> d \<and> d < 64 \<and> sh < 64 \<and> bit (rw_bitmap w) (d - sh))"
    using assms by (auto simp: accept_above rw_seen_def sh_def d_def bit_simps split: if_splits)
  show ?thesis
  proof (cases "t \<le> rw_highest w")
    case True
    then have "d = sh + unat (rw_highest w - t)" "t < s" "0 < sh"
      using assms by (auto simp: sh_def d_def unat_sub word_order_unat)
    then show ?thesis
      using True assms(1) by (auto simp: upd rw_seen_def [of w] simp flip: d_def)
  next
    case False
    have "d < sh" if "t \<le> s"
      using False that assms by (auto simp: sh_def d_def unat_sub word_order_unat)
    moreover have "d = 0 \<longleftrightarrow> t = s" if "t \<le> s"
      using that unat_diff_0 [of t s] by (auto simp: d_def)
    ultimately show ?thesis
      using False by (auto simp: upd rw_seen_def [of w] simp flip: d_def)
  qed
qed

lemma accept_seen:
  assumes "\<not> rw_seen w s"
  shows "rw_seen (snd (ReplayWindow_accept w s)) t \<longleftrightarrow>
    rw_seen w t \<or> t = s \<or> t < s \<and> 64 \<le> unat (s - t)"
proof -
  consider "rw_empty w" | "\<not> rw_empty w" "rw_highest w < s" | "\<not> rw_empty w" "s \<le> rw_highest w"
    by fastforce
  then show ?thesis
  proof cases
    case 1
    then show ?thesis
      using unat_diff_0 [of t s]
      by (auto simp: accept_empty rw_seen_def bit_1_iff order_le_less)
  next
    case 2
    then show ?thesis by (rule accept_seen_above)
  next
    case 3
    with assms have b: "unat (rw_highest w - s) < 64"
      and upd: "snd (ReplayWindow_accept w s) =
        w\<lparr> rw_bitmap := rw_bitmap w OR push_bit (unat (rw_highest w - s)) 1 \<rparr>"
      by (auto simp: rw_seen_def accept_within)
    have same: "unat (rw_highest w - t) = unat (rw_highest w - s) \<longleftrightarrow> t = s"
      by (simp flip: word_unat_eq_iff)
    have far: "64 \<le> unat (rw_highest w - t)" "t \<le> rw_highest w"
      if "64 \<le> unat (s - t)" "t < s"
      using that 3 unat_diff_add [of t s "rw_highest w"] by auto
    have "rw_seen (snd (ReplayWindow_accept w s)) t \<longleftrightarrow> t \<le> rw_highest w \<and>
        (64 \<le> unat (rw_highest w - t) \<or> bit (rw_bitmap w) (unat (rw_highest w - t)) \<or> t = s)"
      using 3 b same by (auto simp: upd rw_seen_def bit_simps)
    then show ?thesis
      using 3 far by (auto simp: rw_seen_def)
  qed
qed

lemma accept_ok: "rw_ok w \<Longrightarrow> rw_ok (snd (ReplayWindow_accept w s))"
proof -
  have "x OR 1 \<noteq> 0" for x :: u64
    by (metis bit_0_eq bit_or_iff bit_1_0 bot_apply bot_bool_def)
  moreover have "x OR y \<noteq> 0" if "x \<noteq> 0" for x y :: u64
    using that by (auto simp: bit_eq_iff bit_simps)
  ultimately show "rw_ok w \<Longrightarrow> rw_ok (snd (ReplayWindow_accept w s))"
    by (auto simp: rw_ok_def ReplayWindow_accept_def Let_def)
qed

lemma new_not_seen [simp]: "\<not> rw_seen ReplayWindow_new s"
  by (simp add: rw_seen_def ReplayWindow_new_def)

lemma new_ok [simp]: "rw_ok ReplayWindow_new"
  by (simp add: rw_ok_def ReplayWindow_new_def)

lemma restore_ok [simp]: "rw_ok (ReplayWindow_restore h b e)"
  by (auto simp: ReplayWindow_restore_def rw_ok_def ReplayWindow_new_def)

lemma restore_fields:
  "rw_ok w \<Longrightarrow> ReplayWindow_restore (rw_highest w) (rw_bitmap w) (rw_empty w) = w"
  by (cases w) (auto simp: ReplayWindow_restore_def rw_ok_def ReplayWindow_new_def split: if_splits)

definition offer_window :: "u64 \<Rightarrow> replay_window \<Rightarrow> bool \<times> replay_window" where
  "offer_window s w = (let (v, w') = ReplayWindow_accept w s in (v = Accepted, w'))"

interpretation rwf: replay_filter rw_ok offer_window rw_seen
proof
  fix w :: replay_window and s t :: u64
  show "rw_ok w \<Longrightarrow> rw_ok (snd (offer_window s w))"
    by (simp add: offer_window_def split_def Let_def accept_ok)
  show "fst (offer_window s w) \<Longrightarrow> \<not> rw_seen w s"
    by (simp add: offer_window_def split_def Let_def accept_Accepted)
  show "fst (offer_window s w) \<Longrightarrow> rw_seen (snd (offer_window s w)) s"
    by (simp add: offer_window_def split_def Let_def accept_Accepted accept_seen)
  show "rw_seen w t \<Longrightarrow> rw_seen (snd (offer_window s w)) t"
    by (cases "rw_seen w s") (simp_all add: offer_window_def split_def Let_def accept_refused accept_seen)
qed

section \<open>The window against its specification\<close>

text \<open>What the bitmap stands for: the verdict on a sequence number, given everything that was
  offered before.\<close>

definition spec_verdict :: "u64 list \<Rightarrow> u64 \<Rightarrow> verdict" where
  "spec_verdict hist s =
     (if hist = [] \<or> s > Max (set hist) then Accepted
      else if 64 \<le> unat (Max (set hist) - s) then Stale
      else if s \<in> set hist then Duplicate else Accepted)"

definition window_after :: "u64 list \<Rightarrow> replay_window" where
  "window_after hist = foldl (\<lambda>w s. snd (ReplayWindow_accept w s)) ReplayWindow_new hist"

lemma window_after_snoc:
  "window_after (hist @ [s]) = snd (ReplayWindow_accept (window_after hist) s)"
  by (simp add: window_after_def)

lemma accept_highest:
  "rw_empty (snd (ReplayWindow_accept w s)) = False"
  "rw_highest (snd (ReplayWindow_accept w s)) =
     (if rw_empty w then s else max (rw_highest w) s)"
  by (auto simp: ReplayWindow_accept_def Let_def max_def)

lemma window_after_highest:
  "rw_empty (window_after hist) \<longleftrightarrow> hist = []"
  "hist \<noteq> [] \<Longrightarrow> rw_highest (window_after hist) = Max (set hist)"
proof (induction hist rule: rev_induct)
  case (snoc s hist)
  { case 1 then show ?case by (simp add: window_after_snoc accept_highest) }
  { case 2
    with snoc show ?case
      by (cases "hist = []") (auto simp: window_after_snoc accept_highest max.commute
          simp del: append_Nil) }
qed (simp_all add: window_after_def ReplayWindow_new_def)

lemma window_after_seen:
  "rw_seen (window_after hist) t \<longleftrightarrow>
     hist \<noteq> [] \<and> t \<le> Max (set hist) \<and> (64 \<le> unat (Max (set hist) - t) \<or> t \<in> set hist)"
proof (induction hist arbitrary: t rule: rev_induct)
  case Nil
  then show ?case by (simp add: window_after_def)
next
  case (snoc s hist)
  show ?case
  proof (cases "rw_seen (window_after hist) s")
    case True
    with snoc.IH [of s] have "hist \<noteq> []" "s \<le> Max (set hist)"
      "64 \<le> unat (Max (set hist) - s) \<or> s \<in> set hist"
      by auto
    then show ?thesis
      using True snoc by (auto simp: window_after_snoc accept_refused max_def)
  next
    case False
    show ?thesis
    proof (cases "hist = []")
      case True
      then show ?thesis
        using False window_after_snoc [of "[]" s] snoc.IH [of t]
        by (auto simp: accept_seen order_le_less)
    next
      case ne: False
      let ?m = "Max (set hist)"
      have in_le: "x \<in> set hist \<Longrightarrow> x \<le> ?m" for x by simp
      have mx: "Max (set (hist @ [s])) = max s ?m" using ne by (simp add: max.commute)
      show ?thesis
      proof (cases "s \<le> ?m")
        case True
        then have "64 \<le> unat (?m - t)" "t \<le> ?m" if "64 \<le> unat (s - t)" "t < s"
          using that unat_diff_add [of t s ?m] by auto
        then show ?thesis
          using ne False True mx
          by (auto simp: window_after_snoc accept_seen snoc max_absorb2)
      next
        case gt: False
        have far: "unat (s - t) = unat (s - ?m) + unat (?m - t)" "t < s" if "t \<le> ?m"
          using that gt by (auto intro: unat_diff_add)
        have "rw_seen (window_after (hist @ [s])) t \<longleftrightarrow>
            t \<le> ?m \<and> (64 \<le> unat (?m - t) \<or> t \<in> set hist) \<or> t = s \<or> t < s \<and> 64 \<le> unat (s - t)"
          using ne False by (simp add: window_after_snoc accept_seen snoc)
        moreover have m: "max s ?m = s" using gt by (simp add: max_def)
        moreover have "t \<le> ?m \<Longrightarrow> 64 \<le> unat (?m - t) \<Longrightarrow> 64 \<le> unat (s - t)"
          using far by linarith
        moreover have "64 \<le> unat (s - t) \<Longrightarrow> t \<noteq> s" by auto
        moreover have "t \<in> set (hist @ [s]) \<longleftrightarrow> t \<in> set hist \<or> t = s" "hist @ [s] \<noteq> []"
          by auto
        ultimately show ?thesis
          using far(2) in_le [of t] unfolding mx m order_le_less [of t s] by blast
      qed
    qed
  qed
qed

section \<open>Lemmas: anchors\<close>

lemma slots_window: "x \<in> set (AnchorHours_slots e) \<longleftrightarrow>
    unat x = unat e \<or> unat x + 1 = unat e \<or> unat e + 1 = unat x"
  using unat_u32_less [of e] unat_u32_less [of x]
  by (auto simp: AnchorHours_slots_def word_unat_eq_iff unat_saturating_add
      unat_saturating_sub min_def split: if_splits)

lemma length_slots [simp]: "length (AnchorHours_slots e) = 3"
  by (simp add: AnchorHours_slots_def)

lemma new_slots_fold:
  assumes "length init + length new \<le> 3" and "distinct init"
    and "r = foldl (\<lambda>init s. if s \<notin> set old \<and> s \<notin> set init then push3 s init else init)
      init new"
  shows "distinct r \<and> set r = set init \<union> (set new - set old) \<and> length r \<le> 3"
  using assms(1,2) unfolding assms(3)
proof (induction new arbitrary: init)
  case (Cons s new)
  show ?case
    using Cons.prems Cons.IH [of init] Cons.IH [of "init @ [s]"] by (auto simp: push3_def)
qed simp

lemma trusted_advance_Inr:
  "trusted_advance a e = (Inr init, a') \<longleftrightarrow>
     ah_anchor a \<le> e \<and> a' = \<lparr> ah_anchor = e \<rparr> \<and> init = the (res_ok (fst (trusted_advance a e)))"
  by (cases a) (auto simp: trusted_advance_def Let_def not_less)

lemma trusted_advance_set:
  assumes "trusted_advance a e = (Inr init, a')"
  shows "distinct init \<and>
    set init = set (AnchorHours_slots e) - set (AnchorHours_slots (ah_anchor a))"
  using assms new_slots_fold [OF _ _ refl, of "[]" "AnchorHours_slots e"
    "AnchorHours_slots (ah_anchor a)"]
  by (auto simp: trusted_advance_def Let_def split: if_splits)

section \<open>Properties\<close>

text \<open>C32: The 64-bit window implements its specification: after any history of offered
  sequence numbers, in any order and with repetitions, a number is stale exactly when it is
  64 or more below the highest one offered, a duplicate exactly when it was offered before and
  is not stale, and accepted otherwise.\<close>

theorem replay_window_refines_history:
  "fst (ReplayWindow_accept (window_after hist) s) = spec_verdict hist s"
  using window_after_highest [of hist]
  by (auto simp: accept_verdict window_after_seen spec_verdict_def not_le)

text \<open>From any well-formed window, whether fresh or restored from flash, no run of offers
  accepts a sequence number twice, and none that the window had already seen is accepted.\<close>

theorem replay_window_accepts_once:
  assumes "rw_ok w" and "rw_seen w t"
  shows "distinct (fst (rwf.run w ss)) \<and> t \<notin> set (fst (rwf.run w ss))"
  using assms rwf.run_distinct rwf.run_takes_unseen by blast

lemma replay_window_accepts_once_witness:
  "distinct (fst (rwf.run (ReplayWindow_restore 7 5 False) [8, 6, 7, 6, 100])) \<and>
   5 \<notin> set (fst (rwf.run (ReplayWindow_restore 7 5 False) [8, 6, 7, 6, 100]))"
  by (rule replay_window_accepts_once)
    (simp_all add: ReplayWindow_restore_def rw_ok_def rw_seen_def bit_numeral_rec)

text \<open>The associated data authenticates the whole envelope except the hop byte: two frames
  have the same associated data exactly when their headers differ at most in the hop count
  and their body lengths are equal.\<close>

theorem frame_aad_covers_envelope:
  "frame_aad h n = frame_aad h' n' \<longleftrightarrow>
     (\<exists>hops. h' = h\<lparr> h_hops := hops \<rparr>) \<and> n = n'"
proof -
  have "h'\<lparr> h_hops := h_hops h \<rparr> = h \<longleftrightarrow> (\<exists>hops. h' = h\<lparr> h_hops := hops \<rparr>)"
    by (cases h; cases h') auto
  then show ?thesis by (simp add: frame_aad_inject)
qed

text \<open>A frame body sealed by the sender opens at the receiver to the same text, also when a
  relay has changed the hop byte in between, whatever the two buffers held before.\<close>

theorem seal_open_across_relay:
  assumes "aead_correct C" and "length p \<le> 160"
    and "length p + 16 \<le> length out" and "length p \<le> length pt"
  shows "case encrypt_data C key (nonce e s) (frame_aad h n) p out of (r, out') \<Rightarrow>
    r = Inr (length p + 16) \<and>
    decrypt_data C key (nonce e s) (frame_aad (h\<lparr> h_hops := hops \<rparr>) n)
      (take (length p + 16) out') pt = (Inr (length p), p @ drop (length p) pt)"
proof -
  from assms(2) have "length p \<le> 255" by simp
  from decrypt_encrypt [OF assms(1) this, of key "nonce e s" "frame_aad h n"]
  obtain c where "length c = length p + 16"
    and "\<And>out. length p + 16 \<le> length out \<Longrightarrow>
      encrypt_data C key (nonce e s) (frame_aad h n) p out =
        (Inr (length p + 16), c @ drop (length p + 16) out)"
    and "\<And>out. length p \<le> length out \<Longrightarrow>
      decrypt_data C key (nonce e s) (frame_aad h n) c out =
        (Inr (length p), p @ drop (length p) out)"
    by blast
  with assms(3,4) show ?thesis by simp
qed

lemma seal_open_across_relay_witness:
  "case encrypt_data demo_crypto (replicate 32 9) (nonce 5 6) (frame_aad
        \<lparr>h_version = 1, h_flags = 1, h_dst = 2, h_src = 3, h_packet_id = 4, h_hops = 1,
          h_epoch = 5, h_sequence = 6\<rparr> 18) [1, 72] (replicate 20 0) of (r, out') \<Rightarrow>
    r = Inr (length [1, 72 :: u8] + 16) \<and>
    decrypt_data demo_crypto (replicate 32 9) (nonce 5 6) (frame_aad
        (\<lparr>h_version = 1, h_flags = 1, h_dst = 2, h_src = 3, h_packet_id = 4, h_hops = 1,
          h_epoch = 5, h_sequence = 6\<rparr>\<lparr> h_hops := 0 \<rparr>) 18)
      (take (length [1, 72 :: u8] + 16) out') [7, 7, 7] =
      (Inr (length [1, 72 :: u8]), [1, 72] @ drop (length [1, 72 :: u8]) [7, 7, 7])"
  using demo_aead_correct
  by (intro seal_open_across_relay [of demo_crypto "[1, 72]" "replicate 20 0" "[7, 7, 7]"])
    simp_all

text \<open>Moving the anchor forward to a trusted hour asks the caller to initialise exactly the
  retained hours that were not retained before, each once; a move backwards is refused
  and changes nothing.\<close>

theorem trusted_advance_new_slots:
  "case trusted_advance a e of
     (Inl _, a') \<Rightarrow> e < ah_anchor a \<and> a' = a
   | (Inr init, a') \<Rightarrow> ah_anchor a \<le> e \<and> ah_anchor a' = e \<and> distinct init \<and>
       set init = set (AnchorHours_slots e) - set (AnchorHours_slots (ah_anchor a))"
proof (cases "e < ah_anchor a")
  case True
  then show ?thesis by (simp add: trusted_advance_def)
next
  case False
  then obtain init where r: "trusted_advance a e = (Inr init, a\<lparr> ah_anchor := e \<rparr>)"
    by (simp add: trusted_advance_def Let_def)
  with False trusted_advance_set [OF r] show ?thesis by (simp add: not_less)
qed

end
