(* ===== verification/Relay.thy ===== *)
theory Relay
  imports Frame Crypto
begin

text \<open>
  Managed flooding, \<open>crates/mesh-core/src/relay.rs\<close>: the 64-entry airtime cache and its
  lazy expiry, the forwarding decision, and the rewrite of a frame for forwarding. The
  cache is the list of its 64 entries; a loop over the entries is a recursion on the list.
\<close>

definition RELAY_CACHE_SIZE :: nat where [consts_defs]: "RELAY_CACHE_SIZE = 64"
definition RELAY_CACHE_TTL_MS :: u64 where [consts_defs]: "RELAY_CACHE_TTL_MS = 8000"
definition FORWARD_DELAY_MIN_MS :: u16 where [consts_defs]: "FORWARD_DELAY_MIN_MS = 100"
definition FORWARD_DELAY_MAX_MS :: u16 where [consts_defs]: "FORWARD_DELAY_MAX_MS = 300"

definition sanitize_jitter_ms :: "u16 \<Rightarrow> u16" where
  "sanitize_jitter_ms jitter_ms =
     (if jitter_ms < FORWARD_DELAY_MIN_MS then FORWARD_DELAY_MIN_MS
      else if jitter_ms > FORWARD_DELAY_MAX_MS then FORWARD_DELAY_MAX_MS
      else jitter_ms)"

definition cache_key :: "crypto \<Rightarrow> bytes \<Rightarrow> bytes \<Rightarrow> bytes" where
  "cache_key C header body = k_sha256 C (bslice 0 14 header @ drop 15 header @ body)"

definition cache_key_of_frame :: "crypto \<Rightarrow> bytes \<Rightarrow> bytes \<Rightarrow> bytes option" where
  "cache_key_of_frame C frame body =
     (if length frame < HEADER_LEN then None
      else Some (cache_key C (take HEADER_LEN frame) body))"

datatype observe = ObserveNew | ObserveDuplicate

record entry =
  e_key :: bytes
  e_expires_ms :: u64
  e_occupied :: bool

type_synonym relay_cache = "entry list"

definition RelayCache_new :: relay_cache where
  "RelayCache_new =
     replicate RELAY_CACHE_SIZE \<lparr> e_key = replicate 32 0, e_expires_ms = 0, e_occupied = False \<rparr>"

text \<open>First loop: reclaim expired entries up to a live entry with this key; the flag says that
  such an entry ended the loop.\<close>

fun observe_scan :: "bytes \<Rightarrow> u64 \<Rightarrow> entry list \<Rightarrow> bool \<times> entry list" where
  "observe_scan key now_ms [] = (False, [])"
| "observe_scan key now_ms (e # es) =
     (if \<not> e_occupied e then (let (d, es') = observe_scan key now_ms es in (d, e # es'))
      else if now_ms \<ge> e_expires_ms e then
        (let (d, es') = observe_scan key now_ms es in (d, e\<lparr> e_occupied := False \<rparr> # es'))
      else if e_key e = key then (True, e # es)
      else (let (d, es') = observe_scan key now_ms es in (d, e # es')))"

text \<open>Second loop: the first free slot, else the slot with the oldest expiry.\<close>

fun observe_slot :: "nat \<Rightarrow> nat \<Rightarrow> u64 \<Rightarrow> entry list \<Rightarrow> nat" where
  "observe_slot i victim victim_expires [] = victim"
| "observe_slot i victim victim_expires (e # es) =
     (if \<not> e_occupied e then i
      else if e_expires_ms e < victim_expires then observe_slot (Suc i) i (e_expires_ms e) es
      else observe_slot (Suc i) victim victim_expires es)"

definition RelayCache_observe :: "relay_cache \<Rightarrow> bytes \<Rightarrow> u64 \<Rightarrow> observe \<times> relay_cache" where
  "RelayCache_observe c key now_ms =
     (case observe_scan key now_ms c of
        (True, c) \<Rightarrow> (ObserveDuplicate, c)
      | (False, c) \<Rightarrow>
          let slot = observe_slot 0 0 (- 1) c in
          (ObserveNew,
           c[slot := \<lparr> e_key = key, e_expires_ms = saturating_add now_ms RELAY_CACHE_TTL_MS,
                       e_occupied = True \<rparr>]))"

definition RelayCache_live_count :: "relay_cache \<Rightarrow> u64 \<Rightarrow> nat" where
  "RelayCache_live_count c now_ms =
     length (filter (\<lambda>e. e_occupied e \<and> now_ms < e_expires_ms e) c)"

definition should_forward :: "u8 \<Rightarrow> bool \<Rightarrow> bool \<Rightarrow> bool" where
  "should_forward hops is_local_origin_echo is_locally_delivered \<longleftrightarrow>
     hops = 1 \<and> \<not> is_local_origin_echo \<and> \<not> is_locally_delivered"

definition cancel_on_dup :: "u8 \<Rightarrow> u8 \<Rightarrow> bool" where
  "cancel_on_dup dup_hops orig_hops \<longleftrightarrow> dup_hops < orig_hops"

definition prepare_forward :: "bytes \<Rightarrow> bytes \<Rightarrow> reject out_result" where
  "prepare_forward frame out =
     (case decode_frame frame of
        Inl e \<Rightarrow> (Inl e, out)
      | Inr (header, _) \<Rightarrow>
          if h_hops header \<noteq> 1 then (Inl BadHops, out)
          else if length out < length frame then (Inl TooLong, out)
          else
            let out = put_at 0 frame out;
                out = put_at 14 [0] out;
                crc = crc16 (take (length frame - 2) out);
                n = length frame;
                out = put_at (n - 2) (be16 crc) out
            in (Inr n, out))"

section \<open>Lemmas: the cache as a set of live keys\<close>

definition live :: "relay_cache \<Rightarrow> u64 \<Rightarrow> (bytes \<times> u64) set" where
  "live c now_ms =
     {(e_key e, e_expires_ms e) | e. e \<in> set c \<and> e_occupied e \<and> now_ms < e_expires_ms e}"

definition cache_ok :: "relay_cache \<Rightarrow> bool" where
  "cache_ok c \<longleftrightarrow> length c = RELAY_CACHE_SIZE \<and> distinct (map e_key (filter e_occupied c))"

lemma live_Nil [simp]: "live [] t = {}"
  by (simp add: live_def)

lemma live_Cons:
  "live (e # es) t =
     (if e_occupied e \<and> t < e_expires_ms e then insert (e_key e, e_expires_ms e) (live es t)
      else live es t)"
  by (auto simp: live_def)

lemma live_append [simp]: "live (xs @ ys) t = live xs t \<union> live ys t"
  by (induction xs) (auto simp: live_Cons)

lemma live_keys: "fst ` live c t \<subseteq> e_key ` set (filter e_occupied c)"
  by (auto simp: live_def)

lemma cache_new_ok: "cache_ok RelayCache_new"
  by (simp add: cache_ok_def RelayCache_new_def RELAY_CACHE_SIZE_def)

lemma scan_length: "length (snd (observe_scan k now c)) = length c"
  by (induction c) (auto simp: split_def Let_def)

lemma scan_found: "fst (observe_scan k now c) \<longleftrightarrow> k \<in> fst ` live c now"
  by (induction c) (auto simp: live_Cons split_def Let_def image_iff not_le not_less)

lemma scan_live: "now \<le> t \<Longrightarrow> live (snd (observe_scan k now c)) t = live c t"
proof (induction c)
  case (Cons e es)
  moreover from Cons.prems have "e_expires_ms e \<le> now \<Longrightarrow> \<not> t < e_expires_ms e" by order
  ultimately show ?case by (simp add: live_Cons split_def Let_def)
qed simp

lemma scan_keys:
  "e_key ` set (filter e_occupied (snd (observe_scan k now c))) \<subseteq> e_key ` set (filter e_occupied c)"
  by (induction c) (auto simp: split_def Let_def)

lemma scan_distinct:
  "distinct (map e_key (filter e_occupied c)) \<Longrightarrow>
   distinct (map e_key (filter e_occupied (snd (observe_scan k now c))))"
proof (induction c)
  case (Cons e es)
  then show ?case
    using scan_keys [of k now es] by (auto simp: split_def Let_def)
qed simp

lemma scan_ok: "cache_ok c \<Longrightarrow> cache_ok (snd (observe_scan k now c))"
  by (simp add: cache_ok_def scan_length scan_distinct)

lemma scan_fresh:
  "\<not> fst (observe_scan k now c) \<Longrightarrow> e \<in> set (snd (observe_scan k now c)) \<Longrightarrow> e_occupied e \<Longrightarrow>
   now < e_expires_ms e \<and> e_key e \<noteq> k"
  by (induction c) (auto simp: split_def Let_def not_le split: if_splits)

lemma scan_count:
  "RelayCache_live_count (snd (observe_scan k now c)) now = RelayCache_live_count c now"
  by (induction c) (auto simp: RelayCache_live_count_def split_def Let_def not_le not_less)

lemma slot_free:
  "\<exists>e \<in> set es. \<not> e_occupied e \<Longrightarrow>
   (let s = observe_slot i v ve es in i \<le> s \<and> s < i + length es \<and> \<not> e_occupied (es ! (s - i)))"
proof (induction es arbitrary: i v ve)
  case (Cons e es)
  show ?case
  proof (cases "e_occupied e")
    case True
    with Cons.prems have ex: "\<exists>e \<in> set es. \<not> e_occupied e" by auto
    show ?thesis
      using True Cons.IH [OF ex, of "Suc i" i "e_expires_ms e"] Cons.IH [OF ex, of "Suc i" v ve]
      by (auto simp: Let_def Suc_diff_le nth_Cons' diff_Suc split: nat.splits)
  qed simp
qed simp

lemma slot_oldest:
  "\<forall>e \<in> set es. e_occupied e \<Longrightarrow>
   (let s = observe_slot i v ve es in
     s = v \<and> (\<forall>e \<in> set es. ve \<le> e_expires_ms e) \<or>
     i \<le> s \<and> s < i + length es \<and> e_expires_ms (es ! (s - i)) < ve \<and>
     (\<forall>e \<in> set es. e_expires_ms (es ! (s - i)) \<le> e_expires_ms e))"
proof (induction es arbitrary: i v ve)
  case (Cons e es)
  from Cons.prems have occ: "\<forall>e \<in> set es. e_occupied e" "e_occupied e" by auto
  note IH = Cons.IH [OF occ(1), of "Suc i" i "e_expires_ms e", unfolded Let_def]
    Cons.IH [OF occ(1), of "Suc i" v ve, unfolded Let_def]
  have nth: "(e # es) ! (s - i) = es ! (s - Suc i)" if "Suc i \<le> s" for s
    using that by (simp add: nth_Cons')
  show ?case
    using occ(2) IH nth by (fastforce simp: Let_def not_less)
qed simp

lemma observe_slot_cases:
  assumes "c \<noteq> []" and "s = observe_slot 0 0 (- 1) c"
  shows "s < length c"
    and "\<not> e_occupied (c ! s) \<or>
      (\<forall>e \<in> set c. e_occupied e \<and> e_expires_ms (c ! s) \<le> e_expires_ms e)"
proof -
  have max: "x \<le> - 1" "- 1 \<le> x \<Longrightarrow> x = - 1" for x :: u64
    by (auto simp: word_order.extremum_unique)
  show "s < length c"
    using assms slot_free [of c 0 0 "- 1"] slot_oldest [of c 0 0 "- 1"]
    by (cases "\<exists>e \<in> set c. \<not> e_occupied e") (auto simp: Let_def)
  show "\<not> e_occupied (c ! s) \<or>
      (\<forall>e \<in> set c. e_occupied e \<and> e_expires_ms (c ! s) \<le> e_expires_ms e)"
  proof (cases "\<exists>e \<in> set c. \<not> e_occupied e")
    case True
    then show ?thesis using assms slot_free [of c 0 0 "- 1"] by (auto simp: Let_def)
  next
    case False
    have "c ! 0 \<in> set c" using assms by simp
    with False show ?thesis
      using assms slot_oldest [of c 0 0 "- 1"] max by (auto simp: Let_def) (metis max)+
  qed
qed

text \<open>Replacing the entry of one slot.\<close>

lemma live_update:
  assumes "s < length c" and "distinct (map e_key (filter e_occupied c))"
  shows "live (c[s := e]) t = live [e] t \<union> (live c t - live [c ! s] t)"
proof -
  have c: "c = take s c @ c ! s # drop (Suc s) c" by (simp add: id_take_nth_drop assms(1))
  then have "distinct (map e_key (filter e_occupied (take s c @ c ! s # drop (Suc s) c)))"
    using assms(2) by simp
  then have "live (take s c) t \<inter> live [c ! s] t = {}" "live (drop (Suc s) c) t \<inter> live [c ! s] t = {}"
    by (force simp: live_def split: if_splits)+
  moreover have "live c t = live (take s c) t \<union> live [c ! s] t \<union> live (drop (Suc s) c) t"
    by (subst c) (auto simp: live_Cons)
  moreover have "live (c[s := e]) t = live (take s c) t \<union> live [e] t \<union> live (drop (Suc s) c) t"
    using assms(1) by (auto simp: upd_conv_take_nth_drop live_Cons)
  ultimately show ?thesis by blast
qed

lemma distinct_update:
  assumes "distinct (map e_key (filter e_occupied c))" and "s < length c"
    and "\<forall>x \<in> set c. e_occupied x \<longrightarrow> e_key x \<noteq> e_key e"
  shows "distinct (map e_key (filter e_occupied (c[s := e])))"
proof -
  have "c = take s c @ c ! s # drop (Suc s) c" by (simp add: id_take_nth_drop assms(2))
  then have "distinct (map e_key (filter e_occupied (take s c @ c ! s # drop (Suc s) c)))"
    using assms(1) by simp
  moreover have "\<forall>x \<in> set (take s c) \<union> set (drop (Suc s) c). e_occupied x \<longrightarrow> e_key x \<noteq> e_key e"
    using assms(3) by (auto dest: in_set_takeD in_set_dropD)
  ultimately show ?thesis
    using assms(2) by (auto simp: upd_conv_take_nth_drop split: if_splits)
qed

lemma full_count:
  "RelayCache_live_count c now < length c \<longleftrightarrow>
     (\<exists>e \<in> set c. \<not> (e_occupied e \<and> now < e_expires_ms e))"
  unfolding RelayCache_live_count_def
  by (metis (mono_tags, lifting) filter_id_conv length_filter_less nat_neq_iff)

lemma observe_new:
  assumes "cache_ok c" and "now < - 1" and "k \<notin> fst ` live c now"
    and "d = snd (observe_scan k now c)" and "s = observe_slot 0 0 (- 1) d"
    and "e = \<lparr> e_key = k, e_expires_ms = saturating_add now RELAY_CACHE_TTL_MS,
           e_occupied = True \<rparr>"
  shows "RelayCache_observe c k now = (ObserveNew, d[s := e])" and "cache_ok (d[s := e])"
    and "\<exists>evicted. live (d[s := e]) now =
        insert (k, saturating_add now RELAY_CACHE_TTL_MS) (live c now - evicted) \<and>
      (if RelayCache_live_count c now < RELAY_CACHE_SIZE then evicted = {}
       else \<exists>v \<in> live c now. evicted = {v} \<and> (\<forall>x \<in> live c now. snd v \<le> snd x))"
proof -
  have nf: "\<not> fst (observe_scan k now c)" using assms(3) scan_found by simp
  show "RelayCache_observe c k now = (ObserveNew, d[s := e])"
    using nf by (cases "observe_scan k now c") (simp add: RelayCache_observe_def assms(4-6) Let_def)
  have dok: "cache_ok d" using assms by (simp add: scan_ok)
  then have dd: "distinct (map e_key (filter e_occupied d))" "length d = 64"
    by (simp_all add: cache_ok_def RELAY_CACHE_SIZE_def)
  have fresh: "now < e_expires_ms x \<and> e_key x \<noteq> k" if "x \<in> set d" "e_occupied x" for x
    using scan_fresh [OF nf] that assms(4) by simp
  have s: "s < length d" "\<not> e_occupied (d ! s) \<or>
      (\<forall>x \<in> set d. e_occupied x \<and> e_expires_ms (d ! s) \<le> e_expires_ms x)"
    using observe_slot_cases [OF _ assms(5)] dd(2) by (metis length_0_conv zero_neq_numeral)+
  show "cache_ok (d[s := e])"
    using dok s fresh distinct_update [of d s e] by (auto simp: cache_ok_def assms(6))
  have ld: "live d now = live c now" by (simp add: assms(4) scan_live)
  have "now < saturating_add now RELAY_CACHE_TTL_MS"
    using assms(2) unat_u64_less [of now]
    by (auto simp: word_less_nat_alt unat_saturating_add RELAY_CACHE_TTL_MS_def min_def
        unsigned_minus_1_eq_mask mask_eq_exp_minus_1)
  then have le: "live [e] now = {(k, saturating_add now RELAY_CACHE_TTL_MS)}"
    by (simp add: live_Cons assms(6))
  have upd: "live (d[s := e]) now =
      insert (k, saturating_add now RELAY_CACHE_TTL_MS) (live c now - live [d ! s] now)"
    using live_update [OF s(1) dd(1), of e now] by (simp add: le ld)
  have cnt: "RelayCache_live_count c now < 64 \<longleftrightarrow> (\<exists>x \<in> set d. \<not> e_occupied x)"
    using full_count [of d now] fresh assms(4) scan_count [of k now c] dd(2) by auto
  show "\<exists>evicted. live (d[s := e]) now =
        insert (k, saturating_add now RELAY_CACHE_TTL_MS) (live c now - evicted) \<and>
      (if RelayCache_live_count c now < RELAY_CACHE_SIZE then evicted = {}
       else \<exists>v \<in> live c now. evicted = {v} \<and> (\<forall>x \<in> live c now. snd v \<le> snd x))"
  proof (intro exI [of _ "live [d ! s] now"] conjI upd)
    show "if RelayCache_live_count c now < RELAY_CACHE_SIZE then live [d ! s] now = {}
       else \<exists>v \<in> live c now. live [d ! s] now = {v} \<and> (\<forall>x \<in> live c now. snd v \<le> snd x)"
    proof (cases "\<exists>x \<in> set d. \<not> e_occupied x")
      case True
      with s(2) have "\<not> e_occupied (d ! s)" by blast
      with True show ?thesis by (simp add: cnt RELAY_CACHE_SIZE_def live_Cons)
    next
      case False
      have "d ! s \<in> set d" using s(1) by simp
      with False fresh s(2) have "live [d ! s] now = {(e_key (d ! s), e_expires_ms (d ! s))}"
        "(e_key (d ! s), e_expires_ms (d ! s)) \<in> live d now"
        "\<forall>x \<in> live d now. e_expires_ms (d ! s) \<le> snd x"
        by (auto simp: live_Cons live_def)
      with False show ?thesis by (auto simp: cnt RELAY_CACHE_SIZE_def ld)
    qed
  qed
qed

text \<open>The cache stays well formed, whatever the clock says.\<close>

lemma observe_cache_ok:
  assumes "cache_ok c"
  shows "cache_ok (snd (RelayCache_observe c k now))"
proof (cases "fst (observe_scan k now c)")
  case True
  then show ?thesis
    using scan_ok [OF assms, of k now]
    by (cases "observe_scan k now c") (simp add: RelayCache_observe_def)
next
  case False
  let ?d = "snd (observe_scan k now c)"
  have d: "cache_ok ?d" using assms by (rule scan_ok)
  then have "?d \<noteq> []" by (auto simp: cache_ok_def RELAY_CACHE_SIZE_def)
  then have "observe_slot 0 0 (- 1) ?d < length ?d"
    using observe_slot_cases(1) [OF _ refl] by blast
  then show ?thesis
    using d False scan_fresh [OF False] distinct_update [of ?d "observe_slot 0 0 (- 1) ?d"]
    by (cases "observe_scan k now c") (auto simp: RelayCache_observe_def cache_ok_def Let_def)
qed

section \<open>Lemmas: forwarding\<close>

lemma prepare_forward_Inr:
  assumes "decode_frame frame = Inr (h, body)" and "h_hops h = 1"
    and "length frame \<le> length out"
  shows "prepare_forward frame out =
    (Inr (length frame), frame_bytes (h\<lparr> h_hops := 0 \<rparr>) body @ drop (length frame) out)"
proof -
  from assms(1) have ok: "frame_ok (h, body)" and f: "frame = frame_bytes h body"
    using fc.dec_Some_iff [of frame "(h, body)"] by simp_all
  have len: "length frame = 30 + length body" by (simp add: f)
  define q where "q = header_bytes (h\<lparr> h_hops := 0 \<rparr>) (of_nat (length body)) @ body"
  define z where "z = drop (length frame) out"
  have lq: "length q = length frame - 2" by (simp add: q_def len)
  obtain c0 where 1: "put_at 14 [0] (frame @ z) = q @ c0 @ z" and c0: "length c0 = 2"
    by (rule that [of "be16 (crc16 (header_bytes h (of_nat (length body)) @ body))"])
      (simp_all add: q_def f frame_bytes_def Let_def header_bytes_def put_at_def
        take_Cons_numeral drop_Cons_numeral)
  have 2: "put_at (length frame - 2) c (q @ c0 @ z) = q @ c @ z" if "length c = 2" for c
    using that c0 lq by (intro put_at_over) simp_all
  have 3: "take (length frame - 2) (q @ c0 @ z) = q" by (simp flip: lq)
  have "prepare_forward frame out = (let x = put_at 14 [0] (frame @ z) in
      (Inr (length frame), put_at (length frame - 2) (be16 (crc16 (take (length frame - 2) x))) x))"
    using assms by (simp add: prepare_forward_def Let_def put_at_0 z_def)
  also have "\<dots> = (Inr (length frame), q @ be16 (crc16 q) @ z)"
    unfolding 1 Let_def 3 by (simp only: 2 length_be_bytes)
  finally show ?thesis by (simp add: frame_bytes_def Let_def q_def z_def)
qed

lemma decode_frame_hops: "decode_frame frame = Inr (h, body) \<Longrightarrow> h_hops h \<noteq> 1 \<Longrightarrow> h_hops h = 0"
proof -
  assume "decode_frame frame = Inr (h, body)" and "h_hops h \<noteq> 1"
  then have "h_hops h < 1"
    using fc.dec_Some_iff [of frame "(h, body)"] by (simp add: frame_ok_def order_less_le)
  then show "h_hops h = 0" by (simp add: word_less_nat_alt word_unat_eq_iff)
qed

section \<open>Properties\<close>

text \<open>C33: The airtime cache is a bounded set of live keys. On a well-formed cache a key is
  reported as a duplicate exactly when it is live, and then nothing that is alive now or
  later changes, in particular no lifetime is extended; otherwise it is added for eight
  seconds, and only a full cache loses an entry, one whose expiry is the oldest.\<close>

theorem relay_cache_observe_spec:
  assumes "cache_ok c" and "now < - 1"
  shows "case RelayCache_observe c k now of
      (ObserveDuplicate, c') \<Rightarrow> k \<in> fst ` live c now \<and> cache_ok c' \<and>
        (\<forall>t. now \<le> t \<longrightarrow> live c' t = live c t)
    | (ObserveNew, c') \<Rightarrow> k \<notin> fst ` live c now \<and> cache_ok c' \<and>
        (\<exists>evicted. live c' now =
            insert (k, saturating_add now RELAY_CACHE_TTL_MS) (live c now - evicted) \<and>
          (if RelayCache_live_count c now < RELAY_CACHE_SIZE then evicted = {}
           else \<exists>v \<in> live c now. evicted = {v} \<and> (\<forall>x \<in> live c now. snd v \<le> snd x)))"
proof (cases "k \<in> fst ` live c now")
  case True
  then have "RelayCache_observe c k now = (ObserveDuplicate, snd (observe_scan k now c))"
    using scan_found [of k now c] by (cases "observe_scan k now c") (simp add: RelayCache_observe_def)
  with True assms show ?thesis by (simp add: scan_ok scan_live)
next
  case False
  from observe_new [OF assms False refl refl refl] False show ?thesis by simp
qed

lemma relay_cache_observe_spec_witness:
  "case RelayCache_observe RelayCache_new [1] 5 of
      (ObserveDuplicate, c') \<Rightarrow> [1] \<in> fst ` live RelayCache_new 5 \<and> cache_ok c' \<and>
        (\<forall>t. 5 \<le> t \<longrightarrow> live c' t = live RelayCache_new t)
    | (ObserveNew, c') \<Rightarrow> [1] \<notin> fst ` live RelayCache_new 5 \<and> cache_ok c' \<and>
        (\<exists>evicted. live c' 5 =
            insert ([1], saturating_add 5 RELAY_CACHE_TTL_MS) (live RelayCache_new 5 - evicted) \<and>
          (if RelayCache_live_count RelayCache_new 5 < RELAY_CACHE_SIZE then evicted = {}
           else \<exists>v \<in> live RelayCache_new 5. evicted = {v} \<and>
             (\<forall>x \<in> live RelayCache_new 5. snd v \<le> snd x)))"
  by (rule relay_cache_observe_spec) (simp_all add: cache_new_ok)

text \<open>C34: A relay forwards only accepted frames with a hop to spend, and spends it: the result
  decodes to the same header with hop count zero and the same body, has the same relay-cache
  key, and differs from the input at most in the hop byte and the two CRC bytes. Every other
  input is refused and the output buffer is left alone.\<close>

theorem prepare_forward_spec:
  "case prepare_forward frame out of
     (Inr n, out') \<Rightarrow> n = length frame \<and> length out' = length out \<and>
       (\<exists>h body. decode_frame frame = Inr (h, body) \<and> h_hops h = 1 \<and>
         decode_frame (take n out') = Inr (h\<lparr> h_hops := 0 \<rparr>, body) \<and>
         cache_key_of_frame C (take n out') body = cache_key_of_frame C frame body \<and>
         {i. i < n \<and> out' ! i \<noteq> frame ! i} \<subseteq> {14, n - 2, n - 1})
   | (Inl e, out') \<Rightarrow> out' = out \<and>
       (case decode_frame frame of Inl e' \<Rightarrow> e = e'
        | Inr (h, _) \<Rightarrow> h_hops h = 0 \<and> e = BadHops \<or> e = TooLong \<and> length out < length frame)"
proof (cases "\<exists>h body. decode_frame frame = Inr (h, body) \<and> h_hops h = 1 \<and> length frame \<le> length out")
  case True
  then obtain h body where d: "decode_frame frame = Inr (h, body)" and hops: "h_hops h = 1"
    and le: "length frame \<le> length out" by blast
  from d have ok: "frame_ok (h, body)" and f: "frame = frame_bytes h body"
    using fc.dec_Some_iff [of frame "(h, body)"] by simp_all
  let ?h = "h\<lparr> h_hops := 0 \<rparr>"
  have len: "length frame = 30 + length body" by (simp add: f)
  have dec: "decode_frame (frame_bytes ?h body) = Inr (?h, body)"
    using ok by (intro decode_frame_bytes) (simp add: frame_ok_def)
  have key: "cache_key_of_frame C (frame_bytes ?h body) body =
      cache_key_of_frame C (frame_bytes h body) body"
    by (simp add: cache_key_of_frame_def cache_key_def HEADER_LEN_def frame_bytes_def Let_def
        header_bytes_def bslice_def take_Cons_numeral drop_Cons_numeral)
  have same: "frame_bytes ?h body ! i = frame_bytes h body ! i"
    if "i < 28 + length body" "i \<noteq> 14" for i
    using that by (auto simp: frame_bytes_def Let_def header_bytes_def nth_append nth_Cons')
  let ?out = "frame_bytes ?h body @ drop (length frame) out"
  have diff: "{i. i < length frame \<and> ?out ! i \<noteq> frame ! i}
      \<subseteq> {14, length frame - 2, length frame - 1}"
  proof
    fix i assume "i \<in> {i. i < length frame \<and> ?out ! i \<noteq> frame ! i}"
    then have "i < 30 + length body" "i < 28 + length body \<Longrightarrow> i = 14"
      using same [of i] by (auto simp: f nth_append)
    then show "i \<in> {14, length frame - 2, length frame - 1}"
      by (cases "i < 28 + length body") (auto simp: len)
  qed
  have tk: "take (length frame) ?out = frame_bytes ?h body" and lo: "length ?out = length out"
    using le by (simp_all add: len)
  show ?thesis
    unfolding prepare_forward_Inr [OF d hops le] prod.case sum.case tk lo
    using d hops dec key diff by (auto simp: f)
next
  case False
  then show ?thesis
  proof (cases "decode_frame frame")
    case (Inl e)
    then show ?thesis by (simp add: prepare_forward_def)
  next
    case (Inr p)
    then obtain h body where d: "decode_frame frame = Inr (h, body)" by (cases p) simp
    with False have "h_hops h \<noteq> 1 \<or> length out < length frame" by (auto simp: not_le)
    then show ?thesis
      using d decode_frame_hops [OF d]
      by (cases "h_hops h = 1") (simp_all add: prepare_forward_def)
  qed
qed

end
