(* ===== verification/Pairing.thy ===== *)
theory Pairing
  imports Security
begin

text \<open>
  Pairing records, \<open>crates/mesh-core/src/pairing.rs\<close>: the strict
  codecs of offers, proofs and confirmations, role selection, expiry, and the fingerprint
  shown to the operators. The text transport of the same file is in \<open>Transport\<close>.
\<close>

section \<open>Constants and types\<close>

definition OFFER_VERSION :: u8 where [consts_defs]: "OFFER_VERSION = 0x01"
definition RECORD_OFFER :: u8 where [consts_defs]: "RECORD_OFFER = 0x01"
definition RECORD_PROOF :: u8 where [consts_defs]: "RECORD_PROOF = 0x02"
definition RECORD_CONFIRM :: u8 where [consts_defs]: "RECORD_CONFIRM = 0x03"
definition ED_PUB_LEN :: nat where [consts_defs]: "ED_PUB_LEN = 32"
definition EPH_PUB_LEN :: nat where [consts_defs]: "EPH_PUB_LEN = 32"
definition CHALLENGE_LEN :: nat where [consts_defs]: "CHALLENGE_LEN = 32"
definition T_LEN :: nat where [consts_defs]: "T_LEN = 32"
definition PROOF_CT_LEN :: nat where [consts_defs]: "PROOF_CT_LEN = 24"
definition SIG_LEN :: nat where [consts_defs]: "SIG_LEN = 64"
definition MAC_LEN :: nat where [consts_defs]: "MAC_LEN = 32"
definition OFFER_PAYLOAD_LEN :: nat where [consts_defs]: "OFFER_PAYLOAD_LEN = 97"
definition OFFER_RECORD_LEN :: nat where [consts_defs]: "OFFER_RECORD_LEN = 98"
definition PROOF_RECORD_LEN :: nat where [consts_defs]: "PROOF_RECORD_LEN = 122"
definition CONFIRM_RECORD_LEN :: nat where [consts_defs]: "CONFIRM_RECORD_LEN = 66"
definition TRANSPORT_PREFIX :: bytes where
  "TRANSPORT_PREFIX = [0x4C, 0x4D, 0x45, 0x53, 0x48, 0x31, 0x3A]"
definition PAIRING_EXPIRY_SECS :: u64 where [consts_defs]: "PAIRING_EXPIRY_SECS = 600"
definition ROLE_L :: u8 where [consts_defs]: "ROLE_L = 0"
definition ROLE_R :: u8 where [consts_defs]: "ROLE_R = 1"

datatype pair_error =
    BadType
  | BadLength
  | BadPrefix
  | BadCharset
  | BadVersion
  | BadRole
  | SelfPairing
  | PairBufferTooSmall

record offer =
  o_ed_pub :: bytes
  o_eph_pub :: bytes
  o_challenge :: bytes

record proof_record =
  pf_t :: bytes
  pf_role :: u8
  pf_ct :: bytes
  pf_sig :: bytes

record confirmation =
  cf_t :: bytes
  cf_role :: u8
  cf_mac :: bytes

section \<open>Offers\<close>

definition encode_offer_payload :: "offer \<Rightarrow> bytes \<Rightarrow> pair_error out_result" where
  "encode_offer_payload offer out =
     (if length out < OFFER_PAYLOAD_LEN then (Inl PairBufferTooSmall, out)
      else
        let out = put_at 0 [OFFER_VERSION] out;
            out = put_at 1 (o_ed_pub offer) out;
            out = put_at (1 + ED_PUB_LEN) (o_eph_pub offer) out;
            out = put_at (1 + ED_PUB_LEN + EPH_PUB_LEN) (o_challenge offer) out
        in (Inr OFFER_PAYLOAD_LEN, out))"

definition decode_offer_payload :: "bytes \<Rightarrow> pair_error + offer" where
  "decode_offer_payload b =
     (if length b \<noteq> OFFER_PAYLOAD_LEN then Inl BadLength
      else if b ! 0 \<noteq> OFFER_VERSION then Inl BadVersion
      else Inr \<lparr> o_ed_pub = bslice 1 (1 + ED_PUB_LEN) b,
                 o_eph_pub = bslice (1 + ED_PUB_LEN) (1 + ED_PUB_LEN + EPH_PUB_LEN) b,
                 o_challenge = bslice (1 + ED_PUB_LEN + EPH_PUB_LEN) OFFER_PAYLOAD_LEN b \<rparr>)"

definition encode_offer_record :: "offer \<Rightarrow> bytes \<Rightarrow> pair_error out_result" where
  "encode_offer_record offer out =
     (if length out < OFFER_RECORD_LEN then (Inl PairBufferTooSmall, out)
      else
        let out = put_at 0 [RECORD_OFFER] out in
        case on_slice 1 OFFER_RECORD_LEN (encode_offer_payload offer) out of
          (Inl e, out) \<Rightarrow> (Inl e, out)
        | (Inr _, out) \<Rightarrow> (Inr OFFER_RECORD_LEN, out))"

definition decode_offer_record :: "bytes \<Rightarrow> pair_error + offer" where
  "decode_offer_record record =
     (if length record \<noteq> OFFER_RECORD_LEN then Inl BadLength
      else if record ! 0 \<noteq> RECORD_OFFER then Inl BadType
      else decode_offer_payload (drop 1 record))"

definition offer_record_payload :: "bytes \<Rightarrow> pair_error + bytes" where
  "offer_record_payload record =
     (if length record \<noteq> OFFER_RECORD_LEN then Inl BadLength
      else if record ! 0 \<noteq> RECORD_OFFER then Inl BadType
      else Inr (drop 1 record))"

section \<open>Proofs and confirmations\<close>

definition encode_proof :: "proof_record \<Rightarrow> bytes \<Rightarrow> pair_error out_result" where
  "encode_proof p out =
     (if pf_role p \<noteq> ROLE_L \<and> pf_role p \<noteq> ROLE_R then (Inl BadRole, out)
      else if length out < PROOF_RECORD_LEN then (Inl PairBufferTooSmall, out)
      else
        let out = put_at 0 [RECORD_PROOF] out;
            out = put_at 1 (pf_t p) out;
            out = put_at (1 + T_LEN) [pf_role p] out;
            out = put_at (1 + T_LEN + 1) (pf_ct p) out;
            out = put_at (1 + T_LEN + 1 + PROOF_CT_LEN) (pf_sig p) out
        in (Inr PROOF_RECORD_LEN, out))"

definition decode_proof :: "bytes \<Rightarrow> pair_error + proof_record" where
  "decode_proof record =
     (if length record \<noteq> PROOF_RECORD_LEN then Inl BadLength
      else if record ! 0 \<noteq> RECORD_PROOF then Inl BadType
      else
        let role = record ! (1 + T_LEN) in
        if role \<noteq> ROLE_L \<and> role \<noteq> ROLE_R then Inl BadRole
        else Inr \<lparr> pf_t = bslice 1 (1 + T_LEN) record,
                   pf_role = role,
                   pf_ct = bslice (1 + T_LEN + 1) (1 + T_LEN + 1 + PROOF_CT_LEN) record,
                   pf_sig = bslice (1 + T_LEN + 1 + PROOF_CT_LEN) PROOF_RECORD_LEN record \<rparr>)"

definition encode_confirmation :: "confirmation \<Rightarrow> bytes \<Rightarrow> pair_error out_result" where
  "encode_confirmation conf out =
     (if cf_role conf \<noteq> ROLE_L \<and> cf_role conf \<noteq> ROLE_R then (Inl BadRole, out)
      else if length out < CONFIRM_RECORD_LEN then (Inl PairBufferTooSmall, out)
      else
        let out = put_at 0 [RECORD_CONFIRM] out;
            out = put_at 1 (cf_t conf) out;
            out = put_at (1 + T_LEN) [cf_role conf] out;
            out = put_at (1 + T_LEN + 1) (cf_mac conf) out
        in (Inr CONFIRM_RECORD_LEN, out))"

definition decode_confirmation :: "bytes \<Rightarrow> pair_error + confirmation" where
  "decode_confirmation record =
     (if length record \<noteq> CONFIRM_RECORD_LEN then Inl BadLength
      else if record ! 0 \<noteq> RECORD_CONFIRM then Inl BadType
      else
        let role = record ! (1 + T_LEN) in
        if role \<noteq> ROLE_L \<and> role \<noteq> ROLE_R then Inl BadRole
        else Inr \<lparr> cf_t = bslice 1 (1 + T_LEN) record,
                   cf_role = role,
                   cf_mac = bslice (1 + T_LEN + 1) CONFIRM_RECORD_LEN record \<rparr>)"

section \<open>Roles, expiry, fingerprint\<close>

text \<open>\<open>cmp\<close> on byte slices is the lexicographic order.\<close>

definition role_for :: "bytes \<Rightarrow> bytes \<Rightarrow> u8" where
  "role_for own_ed peer_ed = (if own_ed < peer_ed then ROLE_L else ROLE_R)"

definition check_not_self :: "bytes \<Rightarrow> bytes \<Rightarrow> pair_error + unit" where
  "check_not_self own_ed peer_ed = (if own_ed = peer_ed then Inl SelfPairing else Inr ())"

definition is_expired :: "u64 \<Rightarrow> u64 \<Rightarrow> bool" where
  "is_expired start_mono_s now_mono_s \<longleftrightarrow>
     saturating_sub now_mono_s start_mono_s \<ge> PAIRING_EXPIRY_SECS"

definition HEX_DIGITS :: bytes where
  "HEX_DIGITS = [0x30, 0x31, 0x32, 0x33, 0x34, 0x35, 0x36, 0x37, 0x38, 0x39,
                 0x61, 0x62, 0x63, 0x64, 0x65, 0x66]"

definition transcript_fingerprint :: "bytes \<Rightarrow> bytes" where
  "transcript_fingerprint t =
     foldl (\<lambda>out i. out[2 * i := HEX_DIGITS ! unat (drop_bit 4 (t ! i)),
                        2 * i + 1 := HEX_DIGITS ! unat (t ! i AND 0x0f)])
       (replicate 16 0) [0..<8]"

section \<open>The record codecs are strict\<close>

definition offer_ok :: "offer \<Rightarrow> bool" where
  "offer_ok x \<longleftrightarrow> length (o_ed_pub x) = 32 \<and> length (o_eph_pub x) = 32 \<and>
     length (o_challenge x) = 32"

definition proof_ok :: "proof_record \<Rightarrow> bool" where
  "proof_ok x \<longleftrightarrow> length (pf_t x) = 32 \<and> pf_role x \<in> {ROLE_L, ROLE_R} \<and>
     length (pf_ct x) = 24 \<and> length (pf_sig x) = 64"

definition confirmation_ok :: "confirmation \<Rightarrow> bool" where
  "confirmation_ok x \<longleftrightarrow> length (cf_t x) = 32 \<and> cf_role x \<in> {ROLE_L, ROLE_R} \<and>
     length (cf_mac x) = 32"

definition offer_payload_bytes :: "offer \<Rightarrow> bytes" where
  "offer_payload_bytes x = [OFFER_VERSION] @ o_ed_pub x @ o_eph_pub x @ o_challenge x"

definition offer_bytes :: "offer \<Rightarrow> bytes" where
  "offer_bytes x = RECORD_OFFER # offer_payload_bytes x"

definition proof_bytes :: "proof_record \<Rightarrow> bytes" where
  "proof_bytes x = [RECORD_PROOF] @ pf_t x @ [pf_role x] @ pf_ct x @ pf_sig x"

definition confirmation_bytes :: "confirmation \<Rightarrow> bytes" where
  "confirmation_bytes x = [RECORD_CONFIRM] @ cf_t x @ [cf_role x] @ cf_mac x"

lemma encode_offer_payload_ok:
  assumes "offer_ok x" and "97 \<le> length out"
  shows "encode_offer_payload x out = (Inr 97, offer_payload_bytes x @ drop 97 out)"
  using assms write_all_0 [of "[[OFFER_VERSION], o_ed_pub x, o_eph_pub x, o_challenge x]" 97 out]
  by (simp add: encode_offer_payload_def offer_payload_bytes_def offer_ok_def Let_def
      OFFER_PAYLOAD_LEN_def ED_PUB_LEN_def EPH_PUB_LEN_def)

lemma encode_offer_record_ok:
  assumes "offer_ok x" and "98 \<le> length out"
  shows "encode_offer_record x out = (Inr 98, offer_bytes x @ drop 98 out)"
proof -
  have "length (offer_payload_bytes x) = 97"
    using assms by (simp add: offer_payload_bytes_def offer_ok_def)
  then show ?thesis
    using assms
    by (simp add: encode_offer_record_def OFFER_RECORD_LEN_def on_slice_def Let_def
        encode_offer_payload_ok offer_bytes_def)
      (simp add: put_at_def bslice_def)
qed

lemma encode_proof_ok:
  assumes "proof_ok x" and "122 \<le> length out"
  shows "encode_proof x out = (Inr 122, proof_bytes x @ drop 122 out)"
  using assms write_all_0 [of "[[RECORD_PROOF], pf_t x, [pf_role x], pf_ct x, pf_sig x]" 122 out]
  by (auto simp: encode_proof_def proof_bytes_def proof_ok_def Let_def PROOF_RECORD_LEN_def
      T_LEN_def PROOF_CT_LEN_def)

lemma encode_confirmation_ok:
  assumes "confirmation_ok x" and "66 \<le> length out"
  shows "encode_confirmation x out = (Inr 66, confirmation_bytes x @ drop 66 out)"
  using assms write_all_0 [of "[[RECORD_CONFIRM], cf_t x, [cf_role x], cf_mac x]" 66 out]
  by (auto simp: encode_confirmation_def confirmation_bytes_def confirmation_ok_def Let_def
      CONFIRM_RECORD_LEN_def T_LEN_def)

lemma nth_0_bslice: "xs ! 0 = b \<Longrightarrow> 0 < length xs \<Longrightarrow> bslice 0 (Suc 0) xs = [b]"
  by (cases xs) (auto simp: bslice_def)

lemma drop_bslice: "drop i xs = bslice i (length xs) xs"
  by (simp add: bslice_def)

lemma decode_offer_payload_bytes:
  "offer_ok x \<Longrightarrow> decode_offer_payload (offer_payload_bytes x) = Inr x"
  by (cases x) (simp add: decode_offer_payload_def offer_payload_bytes_def offer_ok_def consts_defs
      bslice_def)

lemma decode_offer_payload_sound:
  assumes "decode_offer_payload b = Inr x"
  shows "offer_ok x \<and> offer_payload_bytes x = b"
proof -
  from assms have len: "length b = 97" and v: "b ! 0 = OFFER_VERSION"
    and x: "x = \<lparr> o_ed_pub = bslice 1 33 b, o_eph_pub = bslice 33 65 b, o_challenge = bslice 65 97 b \<rparr>"
    by (auto simp: decode_offer_payload_def OFFER_PAYLOAD_LEN_def ED_PUB_LEN_def EPH_PUB_LEN_def
        split: if_splits)
  have "offer_payload_bytes x = bslice 0 1 b @ bslice 1 33 b @ bslice 33 65 b @ bslice 65 97 b"
    using len nth_0_bslice [OF v] by (auto simp: offer_payload_bytes_def x)
  also have "\<dots> = b" using len by (simp add: bslice_glue bslice_whole)
  finally show ?thesis by (simp add: x offer_ok_def len)
qed

interpretation oc: strict_codec offer_bytes "\<lambda>b. res_ok (decode_offer_record b)" offer_ok
proof
  show "res_ok (decode_offer_record (offer_bytes x)) = Some x" if "offer_ok x" for x
    using that decode_offer_payload_bytes [OF that]
    by (simp add: decode_offer_record_def offer_bytes_def OFFER_RECORD_LEN_def)
      (simp add: offer_payload_bytes_def offer_ok_def)
  show "offer_ok x \<and> offer_bytes x = b" if "res_ok (decode_offer_record b) = Some x" for b x
    using that decode_offer_payload_sound [of "drop 1 b" x]
    by (cases b) (auto simp: decode_offer_record_def offer_bytes_def OFFER_RECORD_LEN_def
        split: if_splits)
qed

interpretation pc: strict_codec proof_bytes "\<lambda>b. res_ok (decode_proof b)" proof_ok
proof
  show "res_ok (decode_proof (proof_bytes x)) = Some x" if "proof_ok x" for x
    using that by (cases x) (auto simp: decode_proof_def proof_bytes_def proof_ok_def Let_def
        PROOF_RECORD_LEN_def T_LEN_def PROOF_CT_LEN_def bslice_def nth_append)
  show "proof_ok x \<and> proof_bytes x = b" if d: "res_ok (decode_proof b) = Some x" for b x
  proof -
    from d have len: "length b = 122" and ty: "b ! 0 = RECORD_PROOF"
      and role: "b ! 33 \<in> {ROLE_L, ROLE_R}"
      and x: "x = \<lparr> pf_t = bslice 1 33 b, pf_role = b ! 33, pf_ct = bslice 34 58 b,
        pf_sig = bslice 58 122 b \<rparr>"
      by (auto simp: decode_proof_def Let_def PROOF_RECORD_LEN_def T_LEN_def PROOF_CT_LEN_def
          split: if_splits)
    have "proof_bytes x = bslice 0 1 b @ bslice 1 33 b @ bslice 33 34 b @ bslice 34 58 b @
        bslice 58 122 b"
      using len nth_0_bslice [OF ty] bslice_single [of 33 b]
      by (auto simp: proof_bytes_def x)
    also have "\<dots> = b" using len by (simp add: bslice_glue bslice_whole)
    finally show ?thesis using role by (simp add: x proof_ok_def len)
  qed
qed

interpretation cc: strict_codec confirmation_bytes "\<lambda>b. res_ok (decode_confirmation b)"
  confirmation_ok
proof
  show "res_ok (decode_confirmation (confirmation_bytes x)) = Some x" if "confirmation_ok x" for x
    using that by (cases x) (auto simp: decode_confirmation_def confirmation_bytes_def
        confirmation_ok_def Let_def CONFIRM_RECORD_LEN_def T_LEN_def bslice_def nth_append)
  show "confirmation_ok x \<and> confirmation_bytes x = b"
    if d: "res_ok (decode_confirmation b) = Some x" for b x
  proof -
    from d have len: "length b = 66" and ty: "b ! 0 = RECORD_CONFIRM"
      and role: "b ! 33 \<in> {ROLE_L, ROLE_R}"
      and x: "x = \<lparr> cf_t = bslice 1 33 b, cf_role = b ! 33, cf_mac = bslice 34 66 b \<rparr>"
      by (auto simp: decode_confirmation_def Let_def CONFIRM_RECORD_LEN_def T_LEN_def
          split: if_splits)
    have "confirmation_bytes x = bslice 0 1 b @ bslice 1 33 b @ bslice 33 34 b @ bslice 34 66 b"
      using len nth_0_bslice [OF ty] bslice_single [of 33 b]
      by (auto simp: confirmation_bytes_def x)
    also have "\<dots> = b" using len by (simp add: bslice_glue bslice_whole)
    finally show ?thesis using role by (simp add: x confirmation_ok_def len)
  qed
qed

section \<open>Roles agree with the transcript order\<close>

lemma offer_payload_ed: "offer_ok x \<Longrightarrow> bslice 1 33 (offer_payload_bytes x) = o_ed_pub x"
  by (simp add: offer_payload_bytes_def offer_ok_def bslice_def)

lemma length_offer_payload: "offer_ok x \<Longrightarrow> length (offer_payload_bytes x) = 97"
  by (simp add: offer_payload_bytes_def offer_ok_def)

lemma order_offers_swap:
  "bslice 1 33 a \<noteq> bslice 1 33 b \<Longrightarrow> order_offers b a = order_offers a b"
  by (auto simp: order_offers_def)

lemma role_for_cases: "role_for a b \<in> {ROLE_L, ROLE_R}"
  by (simp add: role_for_def)

lemma role_for_swap: "a \<noteq> b \<Longrightarrow> role_for a b = ROLE_L \<longleftrightarrow> role_for b a = ROLE_R"
  by (auto simp: role_for_def ROLE_L_def ROLE_R_def)

lemma role_for_order:
  assumes "bslice 1 33 a \<noteq> bslice 1 33 b"
  shows "order_offers a b =
    (if role_for (bslice 1 33 a) (bslice 1 33 b) = ROLE_L then (a, b) else (b, a))"
  using assms by (auto simp: order_offers_def role_for_def ROLE_L_def ROLE_R_def)

section \<open>The fingerprint\<close>

lemma HEX_DIGITS_inj: "i < 16 \<Longrightarrow> j < 16 \<Longrightarrow> HEX_DIGITS ! i = HEX_DIGITS ! j \<longleftrightarrow> i = j"
proof -
  have "distinct HEX_DIGITS" "length HEX_DIGITS = 16" by (simp_all add: HEX_DIGITS_def)
  then show "i < 16 \<Longrightarrow> j < 16 \<Longrightarrow> HEX_DIGITS ! i = HEX_DIGITS ! j \<longleftrightarrow> i = j"
    by (simp add: nth_eq_iff_index_eq)
qed

definition hex_pair :: "u8 \<Rightarrow> bytes" where
  "hex_pair b = [HEX_DIGITS ! unat (drop_bit 4 b), HEX_DIGITS ! unat (b AND 0x0f)]"

lemma transcript_fingerprint_eq:
  "8 \<le> length t \<Longrightarrow> transcript_fingerprint t = concat (map hex_pair (take 8 t))"
proof -
  assume "8 \<le> length t"
  then have "take 8 t = map ((!) t) [0..<8]"
    by (intro nth_equalityI) simp_all
  then show ?thesis
    by (simp add: transcript_fingerprint_def hex_pair_def upt_rec_numeral numeral_eq_Suc)
qed

lemma nibbles: "unat (drop_bit 4 b) < 16" "unat (b AND 0x0f) < 16"
  "b = push_bit 4 (drop_bit 4 b) OR (b AND 0x0f)" for b :: u8
proof -
  have m: "b AND 0x0f = take_bit 4 b" by (simp add: take_bit_eq_mask mask_eq_exp_minus_1)
  show "unat (b AND 0x0f) < 16"
    unfolding m by (simp add: unsigned_take_bit_eq take_bit_nat_less_exp [of 4, simplified])
  show "unat (drop_bit 4 b) < 16"
    using unat_u8_less [of b] by (simp add: drop_bit_eq_div unat_div_distrib)
  show "b = push_bit 4 (drop_bit 4 b) OR (b AND 0x0f)"
    unfolding m by (rule bit_word_eqI) (auto simp: bit_simps not_less)
qed

lemma hex_pair_inj: "hex_pair a = hex_pair b \<longleftrightarrow> a = b"
  using nibbles [of a] nibbles [of b]
  by (auto simp: hex_pair_def HEX_DIGITS_inj simp flip: word_unat_eq_iff)

lemma concat_hex_inj:
  "concat (map hex_pair xs) = concat (map hex_pair ys) \<longleftrightarrow> xs = ys"
proof (induction xs arbitrary: ys)
  case Nil
  then show ?case by (cases ys) (simp_all add: hex_pair_def)
next
  case (Cons x xs)
  have "length (hex_pair z) = 2" for z by (simp add: hex_pair_def)
  with Cons.IH show ?case
    by (cases ys) (simp_all add: append_eq_append_conv hex_pair_inj, simp add: hex_pair_def)
qed

section \<open>Properties\<close>

text \<open>C35: The three record codecs are strict: a buffer decodes to an offer, a proof or a
  confirmation exactly when the fields are well formed and encoding them writes that very
  buffer.\<close>

theorem pairing_records_strict:
  "(decode_offer_record b = Inr f \<longleftrightarrow>
      offer_ok f \<and> encode_offer_record f (replicate (length b) 0) = (Inr (length b), b)) \<and>
   (decode_proof b = Inr p \<longleftrightarrow>
      proof_ok p \<and> encode_proof p (replicate (length b) 0) = (Inr (length b), b)) \<and>
   (decode_confirmation b = Inr c \<longleftrightarrow>
      confirmation_ok c \<and> encode_confirmation c (replicate (length b) 0) = (Inr (length b), b))"
proof (intro conjI)
  have "length (offer_bytes f) = 98" if "offer_ok f"
    using that by (simp add: offer_bytes_def length_offer_payload)
  then show "decode_offer_record b = Inr f \<longleftrightarrow>
      offer_ok f \<and> encode_offer_record f (replicate (length b) 0) = (Inr (length b), b)"
    using oc.dec_Some_iff [of b f] encode_offer_record_ok [of f "replicate (length b) 0"]
    by (cases "98 \<le> length b")
      (auto simp: encode_offer_record_def OFFER_RECORD_LEN_def)
  have "length (proof_bytes p) = 122" if "proof_ok p"
    using that by (simp add: proof_bytes_def proof_ok_def)
  then show "decode_proof b = Inr p \<longleftrightarrow>
      proof_ok p \<and> encode_proof p (replicate (length b) 0) = (Inr (length b), b)"
    using pc.dec_Some_iff [of b p] encode_proof_ok [of p "replicate (length b) 0"]
    by (cases "122 \<le> length b") (auto simp: encode_proof_def PROOF_RECORD_LEN_def)
  have "length (confirmation_bytes c) = 66" if "confirmation_ok c"
    using that by (simp add: confirmation_bytes_def confirmation_ok_def)
  then show "decode_confirmation b = Inr c \<longleftrightarrow>
      confirmation_ok c \<and> encode_confirmation c (replicate (length b) 0) = (Inr (length b), b)"
    using cc.dec_Some_iff [of b c] encode_confirmation_ok [of c "replicate (length b) 0"]
    by (cases "66 \<le> length b") (auto simp: encode_confirmation_def CONFIRM_RECORD_LEN_def)
qed

text \<open>The fingerprint the operators compare is exactly the first eight bytes of the
  transcript: two transcripts show the same sixteen characters if and only if those bytes
  agree.\<close>

theorem fingerprint_compares_eight_bytes:
  assumes "length t = T_LEN" and "length t' = T_LEN"
  shows "transcript_fingerprint t = transcript_fingerprint t' \<longleftrightarrow> take 8 t = take 8 t'"
  using assms by (simp add: transcript_fingerprint_eq concat_hex_inj T_LEN_def)

lemma fingerprint_compares_eight_bytes_witness:
  "transcript_fingerprint (replicate 32 7) = transcript_fingerprint (replicate 31 7 @ [9]) \<longleftrightarrow>
     take 8 (replicate 32 7 :: bytes) = take 8 (replicate 31 7 @ [9])"
  by (rule fingerprint_compares_eight_bytes) (simp_all add: T_LEN_def)

end
