(* ===== verification/Transport.thy ===== *)
theory Transport
  imports Pairing
begin

text \<open>
  The text transport of pairing records, \<open>crates/mesh-core/src/pairing.rs\<close> from
  \<open>B64_ALPHABET\<close> on: base64url without padding, hand-rolled, and the \<open>LMESH1:\<close> prefix. The
  loops over groups are recursions on the input; the lemmas show that the decoder inverts
  the encoder and accepts no second spelling of a record.
\<close>

section \<open>Base64url\<close>

definition B64_ALPHABET :: bytes where
  "B64_ALPHABET = map of_nat ([65..<91] @ [97..<123] @ [48..<58] @ [45, 95])"

definition b64_encoded_len :: "nat \<Rightarrow> nat" where
  "b64_encoded_len n = (n * 4 + 2) div 3"

definition transport_encoded_len :: "nat \<Rightarrow> nat" where
  "transport_encoded_len record_len = length TRANSPORT_PREFIX + b64_encoded_len record_len"

definition transport_decoded_max :: "nat \<Rightarrow> nat" where
  "transport_decoded_max body_len = (body_len div 4) * 3 + 3"

definition b64_val :: "u8 \<Rightarrow> pair_error + u8" where
  "b64_val c =
     (if 0x41 \<le> c \<and> c \<le> 0x5A then Inr (c - 0x41)
      else if 0x61 \<le> c \<and> c \<le> 0x7A then Inr (c - 0x61 + 26)
      else if 0x30 \<le> c \<and> c \<le> 0x39 then Inr (c - 0x30 + 52)
      else if c = 0x2D then Inr 62
      else if c = 0x5F then Inr 63
      else Inl BadCharset)"

text \<open>The encoder's loop over three-byte groups and the one or two bytes that remain;
  \<open>op\<close> is the write position.\<close>

fun b64_encode_loop :: "bytes \<Rightarrow> nat \<Rightarrow> bytes \<Rightarrow> nat \<times> bytes" where
  "b64_encode_loop (x # y # z # rest) op out =
     (let n = push_bit 16 (ucast x) OR push_bit 8 (ucast y) OR ucast z :: u32;
          out = put_at op [B64_ALPHABET ! unat (drop_bit 18 n AND 63),
                           B64_ALPHABET ! unat (drop_bit 12 n AND 63),
                           B64_ALPHABET ! unat (drop_bit 6 n AND 63),
                           B64_ALPHABET ! unat (n AND 63)] out
      in b64_encode_loop rest (op + 4) out)"
| "b64_encode_loop [x, y] op out =
     (let n = push_bit 16 (ucast x) OR push_bit 8 (ucast y) :: u32;
          out = put_at op [B64_ALPHABET ! unat (drop_bit 18 n AND 63),
                           B64_ALPHABET ! unat (drop_bit 12 n AND 63),
                           B64_ALPHABET ! unat (drop_bit 6 n AND 63)] out
      in (op + 3, out))"
| "b64_encode_loop [x] op out =
     (let n = push_bit 16 (ucast x) :: u32;
          out = put_at op [B64_ALPHABET ! unat (drop_bit 18 n AND 63),
                           B64_ALPHABET ! unat (drop_bit 12 n AND 63)] out
      in (op + 2, out))"
| "b64_encode_loop [] op out = (op, out)"

definition b64_encode_into :: "bytes \<Rightarrow> bytes \<Rightarrow> pair_error out_result" where
  "b64_encode_into input out =
     (if length out < b64_encoded_len (length input) then (Inl PairBufferTooSmall, out)
      else let (op, out) = b64_encode_loop input 0 out in (Inr op, out))"

text \<open>The decoder's loop over four-character groups and its two tails. What was written before
  a bad character stays in the buffer. A tail of one character never reaches the loop.\<close>

fun b64_decode_loop :: "bytes \<Rightarrow> nat \<Rightarrow> bytes \<Rightarrow> pair_error out_result" where
  "b64_decode_loop (p # q # r # s # rest) op out =
     (case rbind (b64_val p) (\<lambda>a. rbind (b64_val q) (\<lambda>b. rbind (b64_val r) (\<lambda>c.
             rbind (b64_val s) (\<lambda>d. Inr (a, b, c, d))))) of
        Inl e \<Rightarrow> (Inl e, out)
      | Inr (a, b, c, d) \<Rightarrow>
          let n = push_bit 18 (ucast a) OR push_bit 12 (ucast b) OR push_bit 6 (ucast c)
                    OR ucast d :: u32;
              out = put_at op [ucast (drop_bit 16 n), ucast (drop_bit 8 n), ucast n] out
          in b64_decode_loop rest (op + 3) out)"
| "b64_decode_loop [p, q, r] op out =
     (case rbind (b64_val p) (\<lambda>a. rbind (b64_val q) (\<lambda>b. rbind (b64_val r) (\<lambda>c.
             Inr (a, b, c)))) of
        Inl e \<Rightarrow> (Inl e, out)
      | Inr (a, b, c) \<Rightarrow>
          if c AND 0x03 \<noteq> 0 then (Inl BadCharset, out)
          else
            let out = put_at op [push_bit 2 a OR drop_bit 4 b] out;
                out = put_at (op + 1) [push_bit 4 (b AND 0x0f) OR (drop_bit 2 c AND 0x0f)] out
            in (Inr (op + 2), out))"
| "b64_decode_loop [p, q] op out =
     (case rbind (b64_val p) (\<lambda>a. rbind (b64_val q) (\<lambda>b. Inr (a, b))) of
        Inl e \<Rightarrow> (Inl e, out)
      | Inr (a, b) \<Rightarrow>
          if b AND 0x0f \<noteq> 0 then (Inl BadCharset, out)
          else (Inr (op + 1), put_at op [push_bit 2 a OR drop_bit 4 b] out))"
| "b64_decode_loop _ op out = (Inr op, out)"

definition b64_decode_into :: "bytes \<Rightarrow> bytes \<Rightarrow> pair_error out_result" where
  "b64_decode_into input out =
     (let tail = length input mod 4 in
      if tail = 1 then (Inl BadLength, out)
      else
        let main_len = length input - tail;
            need = (main_len div 4) * 3 + (if tail = 2 then 1 else if tail = 3 then 2 else 0) in
        if length out < need then (Inl PairBufferTooSmall, out)
        else b64_decode_loop input 0 out)"

definition transport_encode :: "bytes \<Rightarrow> bytes \<Rightarrow> pair_error out_result" where
  "transport_encode record out =
     (if record = [] then (Inl BadLength, out)
      else if length out < transport_encoded_len (length record)
      then (Inl PairBufferTooSmall, out)
      else
        let out = put_at 0 TRANSPORT_PREFIX out in
        case on_slice (length TRANSPORT_PREFIX) (length out) (b64_encode_into record) out of
          (Inl e, out) \<Rightarrow> (Inl e, out)
        | (Inr n, out) \<Rightarrow> (Inr (length TRANSPORT_PREFIX + n), out))"

definition decode_transport :: "bytes \<Rightarrow> bytes \<Rightarrow> pair_error out_result" where
  "decode_transport asc out =
     (if length asc < length TRANSPORT_PREFIX \<or>
         take (length TRANSPORT_PREFIX) asc \<noteq> TRANSPORT_PREFIX
      then (Inl BadPrefix, out)
      else
        let body = drop (length TRANSPORT_PREFIX) asc in
        if body = [] then (Inl BadLength, out)
        else b64_decode_into body out)"

section \<open>Bit groups\<close>

lemma and_masks:
  "w AND 63 = take_bit 6 w" "w AND 15 = take_bit 4 w" "w AND 3 = take_bit 2 w"
  for w :: "'a::len word"
  by (simp_all add: take_bit_eq_mask mask_eq_exp_minus_1)

lemma b64_val_table:
  "list_all (\<lambda>n. b64_val (B64_ALPHABET ! n) = Inr (of_nat n)) [0..<64]"
  by code_simp

lemma b64_val_table_inv:
  "list_all (\<lambda>n. case b64_val (of_nat n) of Inl _ \<Rightarrow> True
     | Inr v \<Rightarrow> v < 64 \<and> B64_ALPHABET ! unat v = of_nat n) [0..<256]"
  by code_simp


lemma bit_u8: "bit (w :: u8) k \<Longrightarrow> k < 8"
  using bit_imp_le_length [of w k] by simp

lemma group_bits:
  fixes x y z :: u8
  defines "n \<equiv> push_bit 16 (ucast x) OR push_bit 8 (ucast y) OR ucast z :: u32"
  shows "ucast (drop_bit 16 n) = x" "ucast (drop_bit 8 n) = y" "ucast n = z"
  unfolding n_def
  by (rule bit_word_eqI; auto simp: bit_simps dest: bit_u8)+

definition join6 :: "u8 \<Rightarrow> u8 \<Rightarrow> u8 \<Rightarrow> u8 \<Rightarrow> u32" where
  "join6 a b c d = push_bit 18 (ucast a) OR push_bit 12 (ucast b) OR push_bit 6 (ucast c) OR ucast d"

lemma join6_split:
  fixes n :: u32
  assumes "take_bit 24 n = n"
  shows "join6 (ucast (drop_bit 18 n AND 63)) (ucast (drop_bit 12 n AND 63)) (ucast (drop_bit 6 n AND 63)) (ucast (n AND 63)) = n"
proof -
  have hi: "bit n k \<Longrightarrow> k < 24" for k using assms by (metis bit_take_bit_iff)
  then show ?thesis
  unfolding join6_def and_masks
  apply (intro bit_word_eqI)
  subgoal for k
    by (cases "k < 6"; cases "k < 12"; cases "k < 18"; auto simp: bit_simps dest: hi)
  done
qed

lemma take24: "take_bit 24 (push_bit 16 (ucast (x::u8)) OR push_bit 8 (ucast (y::u8)) OR ucast (z::u8) :: u32) = push_bit 16 (ucast x) OR push_bit 8 (ucast y) OR ucast z"
  by (rule bit_word_eqI; auto simp: bit_simps dest: bit_u8)

lemma split_join6:
  assumes "take_bit 6 a = a" "take_bit 6 b = b" "take_bit 6 c = c" "take_bit 6 d = d"
  shows "drop_bit 18 (join6 a b c d) AND 63 = ucast a" "drop_bit 12 (join6 a b c d) AND 63 = ucast b"
     "drop_bit 6 (join6 a b c d) AND 63 = ucast c" "join6 a b c d AND 63 = ucast d"
     "push_bit 16 (ucast (ucast (drop_bit 16 (join6 a b c d)) :: u8)) OR push_bit 8 (ucast (ucast (drop_bit 8 (join6 a b c d)) :: u8)) OR ucast (ucast (join6 a b c d) :: u8) = join6 a b c d"
proof -
  have six: "bit a k \<Longrightarrow> k < 6" "bit b k \<Longrightarrow> k < 6" "bit c k \<Longrightarrow> k < 6" "bit d k \<Longrightarrow> k < 6" for k
   using assms by (metis bit_take_bit_iff)+
  show "drop_bit 18 (join6 a b c d) AND 63 = ucast a" "drop_bit 12 (join6 a b c d) AND 63 = ucast b"
     "drop_bit 6 (join6 a b c d) AND 63 = ucast c" "join6 a b c d AND 63 = ucast d"
    unfolding join6_def and_masks by (rule bit_word_eqI; auto simp: bit_simps dest: six)+
  show "push_bit 16 (ucast (ucast (drop_bit 16 (join6 a b c d)) :: u8)) OR push_bit 8 (ucast (ucast (drop_bit 8 (join6 a b c d)) :: u8)) OR ucast (ucast (join6 a b c d) :: u8) = join6 a b c d"
    apply (intro bit_word_eqI)
  subgoal for k
    by (cases "k < 8"; cases "k < 16"; auto simp: bit_simps join6_def dest: six)
  done
qed

lemma tail_bytes:
  assumes "take_bit 6 a = a" "take_bit 6 b = b" "take_bit 6 c = c"
  shows "push_bit 2 a OR drop_bit 4 b = ucast (drop_bit 16 (join6 a b c d))"
    and "push_bit 4 (b AND 0x0f) OR (drop_bit 2 c AND 0x0f) = ucast (drop_bit 8 (join6 a b c 0))"
    and "c AND 3 = 0 \<longleftrightarrow> (ucast (join6 a b c 0) :: u8) = 0"
    and "b AND 15 = 0 \<longleftrightarrow> (ucast (drop_bit 8 (join6 a b 0 0)) :: u8) = 0"
proof -
  have six: "bit a k \<Longrightarrow> k < 6" "bit b k \<Longrightarrow> k < 6" "bit c k \<Longrightarrow> k < 6" for k
   using assms by (metis bit_take_bit_iff)+
  note d8 = bit_u8 [of d]
  show "push_bit 2 a OR drop_bit 4 b = ucast (drop_bit 16 (join6 a b c d))"
    unfolding join6_def by (rule bit_word_eqI; auto simp: bit_simps dest: six d8)
  show "push_bit 4 (b AND 0x0f) OR (drop_bit 2 c AND 0x0f) = ucast (drop_bit 8 (join6 a b c 0))"
    unfolding join6_def and_masks by (rule bit_word_eqI; auto simp: bit_simps dest: six)
  have "ucast (join6 a b c 0) = push_bit 6 (c AND 3)"
    unfolding join6_def and_masks by (rule bit_word_eqI; auto simp: bit_simps dest: six)
  moreover have "take_bit 2 (drop_bit 6 (push_bit 6 (c AND 3))) = c AND 3" unfolding and_masks by (rule bit_word_eqI; auto simp: bit_simps dest: six)
  ultimately show "c AND 3 = 0 \<longleftrightarrow> (ucast (join6 a b c 0) :: u8) = 0"
    by (metis drop_bit_of_0 push_bit_of_0 take_bit_of_0)
  have "ucast (drop_bit 8 (join6 a b 0 0)) = push_bit 4 (b AND 15)"
    unfolding join6_def and_masks by (rule bit_word_eqI; auto simp: bit_simps dest: six)
  moreover have "take_bit 4 (drop_bit 4 (push_bit 4 (b AND 15))) = b AND 15" unfolding and_masks by (rule bit_word_eqI; auto simp: bit_simps dest: six)
  ultimately show "b AND 15 = 0 \<longleftrightarrow> (ucast (drop_bit 8 (join6 a b 0 0)) :: u8) = 0"
    by (metis drop_bit_of_0 push_bit_of_0 take_bit_of_0)
qed

section \<open>The loops\<close>

definition enc3 :: "u8 \<Rightarrow> u8 \<Rightarrow> u8 \<Rightarrow> bytes" where
  "enc3 x y z =
     (let n = push_bit 16 (ucast x) OR push_bit 8 (ucast y) OR ucast z :: u32
      in map (\<lambda>v. B64_ALPHABET ! unat v)
           [drop_bit 18 n AND 63, drop_bit 12 n AND 63, drop_bit 6 n AND 63, n AND 63])"

fun b64_chars :: "bytes \<Rightarrow> bytes" where
  "b64_chars (x # y # z # rest) = enc3 x y z @ b64_chars rest"
| "b64_chars [x, y] = take 3 (enc3 x y 0)"
| "b64_chars [x] = take 2 (enc3 x 0 0)"
| "b64_chars [] = []"

lemma length_enc3 [simp]: "length (enc3 x y z) = 4"
  by (simp add: enc3_def Let_def)

lemma length_b64_chars: "length (b64_chars bs) = (length bs * 4 + 2) div 3"
  by (induction bs rule: b64_chars.induct) auto

lemma put_at_extend:
  assumes "length b = n" and "op + n \<le> length out"
  shows "take (op + n) (put_at op b out) = take op out @ b"
    and "op + n \<le> k \<Longrightarrow> drop k (put_at op b out) = drop k out"
proof -
  show "take (op + n) (put_at op b out) = take op out @ b"
    using assms by (simp add: put_at_def)
  assume "op + n \<le> k"
  then obtain j where "k = op + n + j" using le_Suc_ex by blast
  then show "drop k (put_at op b out) = drop k out"
    using assms by (simp add: put_at_def ac_simps)
qed

lemma b64_encode_step:
  "b64_encode_loop (x # y # z # rest) op out =
     b64_encode_loop rest (op + 4) (put_at op (enc3 x y z) out)"
  "b64_encode_loop [x, y] op out = (op + 3, put_at op (take 3 (enc3 x y 0)) out)"
  "b64_encode_loop [x] op out = (op + 2, put_at op (take 2 (enc3 x 0 0)) out)"
  by (simp_all add: Let_def enc3_def)

lemma b64_encode_loop_eq:
  "op + length (b64_chars bs) \<le> length out \<Longrightarrow>
   b64_encode_loop bs op out =
     (op + length (b64_chars bs),
      take op out @ b64_chars bs @ drop (op + length (b64_chars bs)) out)"
proof (induction bs arbitrary: op out rule: b64_chars.induct)
  case (1 x y z rest)
  note put = put_at_extend [of "enc3 x y z" 4 op out]
  show ?case
    using 1(2) put 1(1) [of "op + 4" "put_at op (enc3 x y z) out"]
    unfolding b64_encode_step(1) by (simp add: add.assoc)
next
  case (2 x y)
  then show ?case by (simp only: b64_encode_step) (simp add: put_at_def)
next
  case (3 x)
  then show ?case by (simp only: b64_encode_step) (simp add: put_at_def)
qed simp

section \<open>Characters and groups\<close>

lemma b64_val_alphabet: "v < 64 \<Longrightarrow> b64_val (B64_ALPHABET ! unat v) = Inr (ucast v)" for v :: u32
proof -
  assume "v < 64"
  then have "unat v \<in> set [0..<64]" by (simp add: word_less_nat_alt)
  then have "b64_val (B64_ALPHABET ! unat v) = Inr (of_nat (unat v))"
    using b64_val_table unfolding list_all_iff by blast
  then show ?thesis by (simp add: of_nat_unat)
qed

lemma b64_val_Inr: "b64_val c = Inr v \<Longrightarrow> take_bit 6 v = v \<and> B64_ALPHABET ! unat v = c"
proof -
  assume v: "b64_val c = Inr v"
  have "unat c \<in> set [0..<256]" using unat_u8_less [of c] by simp
  moreover have "of_nat (unat c) = c" by (simp add: of_nat_unat)
  ultimately have "v < 64 \<and> B64_ALPHABET ! unat v = c"
    using b64_val_table_inv v unfolding list_all_iff by fastforce
  then show ?thesis
    by (auto simp: take_bit_nat_eq_self word_unat_eq_iff unsigned_take_bit_eq word_less_nat_alt)
qed

definition bytes3 :: "u32 \<Rightarrow> bytes" where
  "bytes3 n = [ucast (drop_bit 16 n), ucast (drop_bit 8 n), ucast n]"

lemma length_bytes3 [simp]: "length (bytes3 n) = 3"
  by (simp add: bytes3_def)

lemma and63_less: "w AND 63 < 64" for w :: u32
proof -
  have "unat (w AND 63) < 64"
    by (simp add: and_masks unsigned_take_bit_eq take_bit_nat_less_exp [of 6, simplified])
  then show ?thesis by (simp add: word_less_nat_alt)
qed

text \<open>The values behind the characters of a group, and their bytes.\<close>

lemma enc3_vals:
  fixes x y z :: u8
  assumes n: "n = push_bit 16 (ucast x) OR push_bit 8 (ucast y) OR (ucast z :: u32)"
    and abcd: "a = ucast (drop_bit 18 n AND 63)" "b = ucast (drop_bit 12 n AND 63)"
      "c = ucast (drop_bit 6 n AND 63)" "d = ucast (n AND 63)"
  obtains p q r s where "enc3 x y z = [p, q, r, s]" and "b64_val p = Inr a" and "b64_val q = Inr b"
    and "b64_val r = Inr c" and "b64_val s = Inr d" and "bytes3 (join6 a b c d) = [x, y, z]"
    and "take_bit 6 a = a" and "take_bit 6 b = b" and "take_bit 6 c = c"
    and "z = 0 \<Longrightarrow> d = 0" and "y = 0 \<Longrightarrow> z = 0 \<Longrightarrow> c = 0"
proof (rule that [of "B64_ALPHABET ! unat (drop_bit 18 n AND 63)"
      "B64_ALPHABET ! unat (drop_bit 12 n AND 63)" "B64_ALPHABET ! unat (drop_bit 6 n AND 63)"
      "B64_ALPHABET ! unat (n AND 63)"])
  show "bytes3 (join6 a b c d) = [x, y, z]"
    using join6_split [of n] take24 [of x y z] group_bits [where x = x and y = y and z = z]
    by (simp add: abcd bytes3_def flip: n)
  show "take_bit 6 a = a" "take_bit 6 b = b" "take_bit 6 c = c"
    unfolding abcd and_masks by (rule bit_word_eqI; auto simp: bit_simps)+
  show "d = 0" if "z = 0"
    unfolding abcd and_masks n that by (rule bit_word_eqI) (auto simp: bit_simps)
  show "c = 0" if "y = 0" "z = 0"
    unfolding abcd and_masks n that by (rule bit_word_eqI) (auto simp: bit_simps)
qed (simp_all only: b64_val_alphabet and63_less abcd enc3_def Let_def n list.map)

lemma b64_decode_step:
  assumes "b64_val p = Inr a" and "b64_val q = Inr b"
  shows "b64_val r = Inr c \<Longrightarrow> b64_val s = Inr d \<Longrightarrow>
      b64_decode_loop (p # q # r # s # rest) op out =
        b64_decode_loop rest (op + 3) (put_at op (bytes3 (join6 a b c d)) out)"
    and "b64_val r = Inr c \<Longrightarrow> op + 2 \<le> length out \<Longrightarrow> b64_decode_loop [p, q, r] op out =
      (if (ucast (join6 a b c 0) :: u8) \<noteq> 0 then (Inl BadCharset, out)
       else (Inr (op + 2), put_at op (take 2 (bytes3 (join6 a b c 0))) out))"
    and "b64_decode_loop [p, q] op out =
      (if (ucast (drop_bit 8 (join6 a b 0 0)) :: u8) \<noteq> 0 then (Inl BadCharset, out)
       else (Inr (op + 1), put_at op (take 1 (bytes3 (join6 a b 0 0))) out))"
proof -
  note six = assms [THEN b64_val_Inr, THEN conjunct1]
  show "b64_decode_loop (p # q # r # s # rest) op out =
        b64_decode_loop rest (op + 3) (put_at op (bytes3 (join6 a b c d)) out)"
    if "b64_val r = Inr c" "b64_val s = Inr d"
    using assms that by (simp add: Let_def bytes3_def join6_def)
  show "b64_decode_loop [p, q] op out =
      (if (ucast (drop_bit 8 (join6 a b 0 0)) :: u8) \<noteq> 0 then (Inl BadCharset, out)
       else (Inr (op + 1), put_at op (take 1 (bytes3 (join6 a b 0 0))) out))"
    using assms tail_bytes(1) [OF six, of 0 0] tail_bytes(4) [OF six, of 0]
    by (simp add: bytes3_def)
  assume c: "b64_val r = Inr c" and le: "op + 2 \<le> length out"
  note sixc = b64_val_Inr [OF c, THEN conjunct1]
  have "put_at (op + 1) [v] (put_at op [u] out) = put_at op [u, v] out" for u v
    using le by (simp add: put_at_def)
  then show "b64_decode_loop [p, q, r] op out =
      (if (ucast (join6 a b c 0) :: u8) \<noteq> 0 then (Inl BadCharset, out)
       else (Inr (op + 2), put_at op (take 2 (bytes3 (join6 a b c 0))) out))"
    using assms c tail_bytes(1) [OF six sixc, of 0] tail_bytes(2) [OF six sixc]
      tail_bytes(3) [OF six sixc]
    by (simp add: bytes3_def Let_def)
qed

section \<open>The decoder inverts the encoder\<close>

lemma b64_decode_chars:
  "op + length bs \<le> length out \<Longrightarrow>
   b64_decode_loop (b64_chars bs) op out =
     (Inr (op + length bs), take op out @ bs @ drop (op + length bs) out)"
proof (induction bs arbitrary: op out rule: b64_chars.induct)
  case (1 x y z rest)
  obtain p q r s a b c d where "enc3 x y z = [p, q, r, s]" "b64_val p = Inr a" "b64_val q = Inr b"
    "b64_val r = Inr c" "b64_val s = Inr d" "bytes3 (join6 a b c d) = [x, y, z]"
    by (rule enc3_vals [OF refl refl refl refl refl])
  then show ?case
    using 1(2) put_at_extend [of "[x, y, z]" 3 op out] 1(1) [of "op + 3" "put_at op [x, y, z] out"]
    by (simp add: b64_decode_step add.assoc numeral_3_eq_3 del: b64_decode_loop.simps)
next
  case (2 x y)
  obtain p q r s a b c d where "enc3 x y 0 = [p, q, r, s]" "b64_val p = Inr a" "b64_val q = Inr b"
    "b64_val r = Inr c" "bytes3 (join6 a b c d) = [x, y, 0]" "d = 0"
    by (rule enc3_vals [OF refl refl refl refl refl, of x y 0]) simp
  then show ?case
    using 2 by (simp add: b64_decode_step bytes3_def put_at_def del: b64_decode_loop.simps)
next
  case (3 x)
  obtain p q r s a b c d where "enc3 x 0 0 = [p, q, r, s]" "b64_val p = Inr a" "b64_val q = Inr b"
    "bytes3 (join6 a b c d) = [x, 0, 0]" "c = 0" "d = 0"
    by (rule enc3_vals [OF refl refl refl refl refl, of x 0 0]) simp
  then show ?case
    using 3 by (simp add: b64_decode_step bytes3_def put_at_def del: b64_decode_loop.simps)
qed simp

section \<open>The decoder accepts nothing else\<close>

lemma enc3_of_vals:
  assumes "b64_val p = Inr a" and "b64_val q = Inr b" and "b64_val r = Inr c" and "b64_val s = Inr d"
    and "bytes3 (join6 a b c d) = [x, y, z]"
  shows "enc3 x y z = [p, q, r, s]"
proof -
  note six = assms(1-4) [THEN b64_val_Inr, THEN conjunct1]
  note chars = assms(1-4) [THEN b64_val_Inr, THEN conjunct2]
  have n: "push_bit 16 (ucast x) OR push_bit 8 (ucast y) OR ucast z = join6 a b c d"
    using assms(5) split_join6(5) [OF six] by (auto simp: bytes3_def)
  have "unat (ucast v :: u32) = unat v" for v :: u8
    using unat_u8_less [of v] by (simp add: unsigned_ucast_eq take_bit_nat_eq_self)
  then show ?thesis
    using chars by (simp add: enc3_def n split_join6(1-4) [OF six])
qed

lemma b64_val_A: "b64_val 0x41 = Inr 0"
  by (simp add: b64_val_def)

lemma b64_decode_loop_sound:
  "b64_decode_loop cs op out = (Inr m, out') \<Longrightarrow> length cs mod 4 \<noteq> 1 \<Longrightarrow>
   op + length cs * 3 div 4 \<le> length out \<Longrightarrow> \<exists>bs. cs = b64_chars bs \<and> length bs = length cs * 3 div 4"
proof (induction cs op out rule: b64_decode_loop.induct)
  case (1 p q r s rest op out)
  then obtain a b c d where v: "b64_val p = Inr a" "b64_val q = Inr b" "b64_val r = Inr c"
      "b64_val s = Inr d"
    by (auto split: sum.splits)
  let ?out = "put_at op (bytes3 (join6 a b c d)) out"
  have "b64_decode_loop rest (op + 3) ?out = (Inr m, out')"
    using 1(2) unfolding b64_decode_step(1) [OF v] .
  moreover have "length rest mod 4 \<noteq> 1" "op + 3 + length rest * 3 div 4 \<le> length ?out"
    using 1(3,4) by simp_all
  ultimately obtain bs where "rest = b64_chars bs" "length bs = length rest * 3 div 4"
    using 1(1) [of "(a, b, c, d)" a "(b, c, d)" b "(c, d)" c d] v by (force simp: join6_def bytes3_def)
  moreover obtain x y z where "bytes3 (join6 a b c d) = [x, y, z]" by (simp add: bytes3_def)
  ultimately show ?case
    using enc3_of_vals [OF v] by (intro exI [of _ "x # y # z # bs"]) simp
next
  case (2 p q r op out)
  then obtain a b c where v: "b64_val p = Inr a" "b64_val q = Inr b" "b64_val r = Inr c"
    by (auto split: sum.splits)
  have "(ucast (join6 a b c 0) :: u8) = 0"
    using 2 b64_decode_step(2) [OF v] by (auto split: if_splits simp del: b64_decode_loop.simps)
  then obtain x y where "bytes3 (join6 a b c 0) = [x, y, 0]" by (simp add: bytes3_def)
  then show ?case
    using enc3_of_vals [OF v b64_val_A] by (intro exI [of _ "[x, y]"]) simp
next
  case (3 p q op out)
  then obtain a b where v: "b64_val p = Inr a" "b64_val q = Inr b"
    by (auto split: sum.splits)
  have "(ucast (drop_bit 8 (join6 a b 0 0)) :: u8) = 0"
    using 3 b64_decode_step(3) [OF v] by (auto split: if_splits simp del: b64_decode_loop.simps)
  moreover have "(ucast (join6 a b 0 0) :: u8) = 0"
    by (rule bit_word_eqI) (auto simp: join6_def bit_simps)
  ultimately obtain x where "bytes3 (join6 a b 0 0) = [x, 0, 0]" by (simp add: bytes3_def)
  then show ?case
    using enc3_of_vals [OF v b64_val_A b64_val_A] by (intro exI [of _ "[x]"]) simp
qed auto

lemma b64_encode_into_eq:
  "b64_encode_into bs out =
     (if length (b64_chars bs) \<le> length out
      then (Inr (length (b64_chars bs)), b64_chars bs @ drop (length (b64_chars bs)) out)
      else (Inl PairBufferTooSmall, out))"
  using b64_encode_loop_eq [of 0 bs out]
  by (auto simp: b64_encode_into_def b64_encoded_len_def length_b64_chars not_less)

lemma b64_need:
  "(n - n mod 4) div 4 * 3 + (if n mod 4 = 2 then 1 else if n mod 4 = 3 then 2 else 0) =
     n * 3 div 4" if "n mod 4 \<noteq> 1" for n :: nat
proof -
  obtain k r where n: "n = 4 * k + r" and r: "r < 4"
    by (metis mult_div_mod_eq mod_less_divisor zero_less_numeral)
  then have "r = 0 \<or> r = 2 \<or> r = 3" using that by auto
  then show ?thesis unfolding n by auto
qed

lemma length_chars_need: "length (b64_chars bs) mod 4 \<noteq> 1"
  "length (b64_chars bs) * 3 div 4 = length bs"
  unfolding length_b64_chars by presburger+

lemma b64_decode_into_chars:
  "length bs \<le> length out \<Longrightarrow>
   b64_decode_into (b64_chars bs) out = (Inr (length bs), bs @ drop (length bs) out)"
  using b64_decode_chars [of 0 bs out] b64_need [OF length_chars_need(1), of bs]
  by (simp add: b64_decode_into_def Let_def length_chars_need length_chars_need(1) [simplified])

lemma b64_decode_into_sound:
  assumes "b64_decode_into cs out = (Inr m, out')"
  obtains bs where "cs = b64_chars bs" and "m = length bs" and "out' = bs @ drop m out"
    and "length bs \<le> length out"
proof -
  from assms have t: "length cs mod 4 \<noteq> 1" and n: "length cs * 3 div 4 \<le> length out"
    and r: "b64_decode_loop cs 0 out = (Inr m, out')"
    using b64_need [of "length cs"] by (auto simp: b64_decode_into_def Let_def split: if_splits)
  from b64_decode_loop_sound [OF r t] n obtain bs where bs: "cs = b64_chars bs"
    "length bs = length cs * 3 div 4"
    by auto
  with n r b64_decode_chars [of 0 bs out] show thesis by (intro that [of bs]) auto
qed

section \<open>Transport text\<close>

definition transport_text :: "bytes \<Rightarrow> bytes" where
  "transport_text record = TRANSPORT_PREFIX @ b64_chars record"

lemma length_prefix [simp]: "length TRANSPORT_PREFIX = 7"
  by (simp add: TRANSPORT_PREFIX_def)

lemma length_transport_text: "length (transport_text r) = transport_encoded_len (length r)"
  by (simp add: transport_text_def transport_encoded_len_def b64_encoded_len_def length_b64_chars)

lemma transport_encode_eq:
  "transport_encode r out =
     (if r = [] then (Inl BadLength, out)
      else if length out < length (transport_text r) then (Inl PairBufferTooSmall, out)
      else (Inr (length (transport_text r)),
            transport_text r @ drop (length (transport_text r)) out))"
proof (cases "r = [] \<or> length out < length (transport_text r)")
  case True
  then show ?thesis by (auto simp: transport_encode_def length_transport_text)
next
  case False
  let ?c = "b64_chars r"
  have le: "7 + length ?c \<le> length out" using False by (simp add: transport_text_def not_less)
  have sub: "bslice 7 (length out) (put_at 0 TRANSPORT_PREFIX out) = drop 7 out"
    and le': "length ?c \<le> length out - 7"
    using le by (simp_all add: put_at_0 bslice_def)
  have "put_at 7 (?c @ drop (length ?c) (drop 7 out)) (put_at 0 TRANSPORT_PREFIX out) =
      TRANSPORT_PREFIX @ ?c @ drop (7 + length ?c) out"
    using le by (simp add: put_at_0 put_at_def ac_simps)
  then show ?thesis
    using False le le'
    by (simp add: transport_encode_def length_transport_text [symmetric] on_slice_def sub
        b64_encode_into_eq transport_text_def Let_def ac_simps)
qed

lemma transport_encode_fills:
  "transport_encode r (replicate (length a) 0) = (Inr (length a), a) \<longleftrightarrow>
     r \<noteq> [] \<and> a = transport_text r"
  by (auto simp: transport_encode_eq)

lemma decode_transport_text:
  "r \<noteq> [] \<Longrightarrow> length r \<le> length out \<Longrightarrow>
   decode_transport (transport_text r) out = (Inr (length r), r @ drop (length r) out)"
proof -
  assume r: "r \<noteq> []" and le: "length r \<le> length out"
  have "b64_chars r \<noteq> []" using r length_chars_need(2) [of r] by auto
  then show ?thesis
    using le by (simp add: decode_transport_def transport_text_def b64_decode_into_chars)
qed

lemma decode_transport_sound:
  assumes "decode_transport a out = (Inr n, out')"
  obtains r where "r \<noteq> []" and "a = transport_text r" and "n = length r"
    and "out' = r @ drop n out" and "length r \<le> length out"
proof -
  from assms have p: "take 7 a = TRANSPORT_PREFIX" and ne: "drop 7 a \<noteq> []"
    and d: "b64_decode_into (drop 7 a) out = (Inr n, out')"
    by (auto simp: decode_transport_def Let_def split: if_splits)
  from d obtain r where r: "drop 7 a = b64_chars r" "n = length r" "out' = r @ drop n out"
    "length r \<le> length out"
    by (rule b64_decode_into_sound)
  moreover have "a = transport_text r"
    using p r(1) by (metis append_take_drop_id transport_text_def)
  moreover have "r \<noteq> []" using ne r(1) by auto
  ultimately show thesis using that by blast
qed

interpretation tc: strict_codec transport_text
  "\<lambda>a. case decode_transport a (replicate (length a) 0) of
     (Inr n, out) \<Rightarrow> Some (take n out) | (Inl _, _) \<Rightarrow> None" "\<lambda>r. r \<noteq> []"
proof
  have le: "length r \<le> length (transport_text r)" for r
    by (simp add: transport_text_def length_b64_chars)
  show "(case decode_transport (transport_text r) (replicate (length (transport_text r)) 0) of
     (Inr n, out) \<Rightarrow> Some (take n out) | (Inl _, _) \<Rightarrow> None) = Some r" if "r \<noteq> []" for r
    using that le [of r] by (simp add: decode_transport_text)
  show "r \<noteq> [] \<and> transport_text r = a"
    if "(case decode_transport a (replicate (length a) 0) of
      (Inr n, out) \<Rightarrow> Some (take n out) | (Inl _, _) \<Rightarrow> None) = Some r" for a r
    using that by (auto split: prod.splits sum.splits elim!: decode_transport_sound)
qed

section \<open>Properties\<close>

text \<open>C36: The pairing text transport is canonical. Decoding a text into a buffer succeeds exactly
  when the text is the encoding of some non-empty record that fits the buffer; the record is
  then written at the start of the buffer and the rest of the buffer is untouched. So two
  different texts never decode to one record: padding, stray bits and other alphabets are
  refused.\<close>

theorem transport_canonical:
  "case decode_transport a out of
     (Inr n, out') \<Rightarrow>
       transport_encode (take n out') (replicate (length a) 0) = (Inr (length a), a) \<and>
       n \<le> length out \<and> length out' = length out \<and> drop n out' = drop n out
   | (Inl e, _) \<Rightarrow>
       \<not> (\<exists>r. length r \<le> length out \<and>
            transport_encode r (replicate (length a) 0) = (Inr (length a), a))"
proof (cases "decode_transport a out")
  case (Pair res out')
  show ?thesis
  proof (cases res)
    case (Inr n)
    with Pair obtain r where "r \<noteq> []" "a = transport_text r" "n = length r"
      "out' = r @ drop n out" "length r \<le> length out"
      by (auto elim: decode_transport_sound)
    with Pair Inr show ?thesis by (simp add: transport_encode_fills)
  next
    case (Inl e)
    with Pair show ?thesis
      by (auto simp: transport_encode_fills decode_transport_text)
  qed
qed

end
