(* ===== verification/Compat.thy ===== *)
theory Compat
  imports Mesh_Prelude "HOL-Library.Sublist"
begin

text \<open>
  The receive-only parser of public Meshtastic packets (\<open>mesh-core/src/compat.rs\<close>): the
  varint reader, the protobuf field iterator \<open>ProtoFields\<close>, the \<open>Data\<close> envelope and the packet.

  The iterator's \<open>&mut pos\<close> is passed and returned explicitly. A \<open>while let Some(item) =
  fields.next()\<close> loop is \<open>proto_fold\<close>, whose body is the step applied to each field; the
  termination proofs of \<open>read_varint_loop\<close> and \<open>proto_fold\<close> are those of the Rust loops.
  A string slice is its bytes. \<open>position\<close> takes the conversion of the raw coordinate to
  degrees (\<open>raw as f32 / 1e7\<close>) as a parameter: no floating point is modelled.

  The second half states the wire grammar as a relation between a field and its spellings and
  proves that the parser accepts exactly the sequences of spelled fields.
\<close>

section \<open>Types\<close>

definition BROADCAST_ADDR :: u32 where "BROADCAST_ADDR = 0xFFFFFFFF"
definition MAX_COMPAT_FRAME_LEN :: nat where "MAX_COMPAT_FRAME_LEN = 512"
definition PORT_TEXT :: u32 where "PORT_TEXT = 1"
definition PORT_POSITION :: u32 where "PORT_POSITION = 3"

datatype compat_error =
  Empty | TooLong | NoFields | Truncated | BadTag | VarintOverflow | UnsupportedWire | Duplicate
  | BothDecodedAndEncrypted | NeitherDecodedNorEncrypted | BadUtf8 | TextEmpty | Int32OutOfRange

record compat_data =
  portnum :: u32
  payload :: bytes

record compat_packet =
  from_id :: u32
  to_id :: u32
  channel :: u64
  packet_id :: u32
  hop_limit :: u64
  hop_start :: u64
  want_ack :: bool
  via_mqtt :: bool
  rx_time :: u32
  rx_snr_bits :: "u32 option"
  rx_rssi :: "i32 option"
  data :: "compat_data option"
  encrypted :: bool
  encrypted_len :: nat
  unknown_count :: u8

datatype wire = Wire_Varint | Wire_Fixed64 | Wire_Len | Wire_Fixed32

datatype field_val = Val_Varint u64 | Val_Len bytes | Val_Fixed32 u32

type_synonym field = "u32 \<times> wire \<times> field_val"

fun varint :: "field_val \<Rightarrow> u64" where
  "varint (Val_Varint n) = n"
| "varint _ = 0"

fun fixed32 :: "field_val \<Rightarrow> u32" where
  "fixed32 (Val_Fixed32 b) = b"
| "fixed32 _ = 0"

fun len_bytes :: "field_val \<Rightarrow> bytes" where
  "len_bytes (Val_Len b) = b"
| "len_bytes _ = []"

section \<open>The varint reader\<close>

function read_varint_loop :: "bytes \<Rightarrow> nat \<Rightarrow> u64 \<Rightarrow> nat \<Rightarrow> (compat_error + u64) \<times> nat" where
  "read_varint_loop buf pos result shift =
     (if length buf \<le> pos then (Inl Truncated, pos)
      else
        let byte = buf ! pos; pos' = pos + 1 in
        if 64 \<le> shift then (Inl VarintOverflow, pos')
        else if shift = 63 \<and> byte AND 0x7E \<noteq> 0 then (Inl VarintOverflow, pos')
        else
          let result' = result OR push_bit shift (ucast (byte AND 0x7F)) in
          if byte AND 0x80 = 0 then (Inr result', pos')
          else if 70 < shift + 7 then (Inl VarintOverflow, pos')
          else read_varint_loop buf pos' result' (shift + 7))"
  by pat_completeness auto
termination
  by (relation "measure (\<lambda>(buf, pos, _, _). length buf - pos)") auto

declare read_varint_loop.simps [simp del]

definition read_varint :: "bytes \<Rightarrow> nat \<Rightarrow> (compat_error + u64) \<times> nat" where
  "read_varint buf pos = read_varint_loop buf pos 0 0"

section \<open>The field iterator\<close>

text \<open>The value after the tag, by wire type; the iterator then returns it with the field number.\<close>

definition proto_value :: "u32 \<Rightarrow> u8 \<Rightarrow> bytes \<Rightarrow> nat \<Rightarrow> (compat_error + field) option \<times> nat" where
  "proto_value field_no wire_bits buf pos =
     (if wire_bits = 0 then
        (case read_varint buf pos of
           (Inl e, pos) \<Rightarrow> (Some (Inl e), pos)
         | (Inr v, pos) \<Rightarrow> (Some (Inr (field_no, Wire_Varint, Val_Varint v)), pos))
      else if wire_bits = 1 then
        (if length buf < pos + 8 then (Some (Inl Truncated), pos)
         else (Some (Inr (field_no, Wire_Fixed64, Val_Varint 0)), pos + 8))
      else if wire_bits = 2 then
        (case read_varint buf pos of
           (Inl e, pos) \<Rightarrow> (Some (Inl e), pos)
         | (Inr len, pos) \<Rightarrow>
             if length buf < unat len then (Some (Inl Truncated), pos)
             else if length buf < pos + unat len then (Some (Inl Truncated), pos)
             else (Some (Inr (field_no, Wire_Len, Val_Len (bslice pos (pos + unat len) buf))),
                   pos + unat len))
      else if wire_bits = 5 then
        (if length buf < pos + 4 then (Some (Inl Truncated), pos)
         else (Some (Inr (field_no, Wire_Fixed32, Val_Fixed32 (of_le (bslice pos (pos + 4) buf)))),
               pos + 4))
      else (Some (Inl UnsupportedWire), pos))"

definition proto_next :: "bytes \<Rightarrow> nat \<Rightarrow> (compat_error + field) option \<times> nat" where
  "proto_next buf pos =
     (if length buf \<le> pos then (None, pos)
      else
        case read_varint buf pos of
          (Inl e, pos) \<Rightarrow> (Some (Inl e), pos)
        | (Inr tag, pos) \<Rightarrow>
            let field_no = drop_bit 3 tag; wire_bits = ucast (tag AND 0x07) in
            if field_no = 0 \<or> field_no > 0xFFFFFFFF then (Some (Inl BadTag), pos)
            else proto_value (ucast field_no) wire_bits buf pos)"

lemma read_varint_loop_pos:
  "pos \<le> snd (read_varint_loop buf pos r k) \<and>
   (\<forall>v. fst (read_varint_loop buf pos r k) = Inr v \<longrightarrow>
     pos < snd (read_varint_loop buf pos r k) \<and> snd (read_varint_loop buf pos r k) \<le> length buf)"
proof (induction buf pos r k rule: read_varint_loop.induct)
  case (1 buf pos r k)
  let ?r = "r OR push_bit k (ucast (buf ! pos AND 0x7F))"
  have "\<not> length buf \<le> pos \<Longrightarrow> \<not> 64 \<le> k \<Longrightarrow> \<not> (k = 63 \<and> buf ! pos AND 0x7E \<noteq> 0) \<Longrightarrow>
      buf ! pos AND 0x80 \<noteq> 0 \<Longrightarrow> \<not> 70 < k + 7 \<Longrightarrow>
      pos + 1 \<le> snd (read_varint_loop buf (pos + 1) ?r (k + 7)) \<and>
      (\<forall>v. fst (read_varint_loop buf (pos + 1) ?r (k + 7)) = Inr v \<longrightarrow>
        pos + 1 < snd (read_varint_loop buf (pos + 1) ?r (k + 7)) \<and>
        snd (read_varint_loop buf (pos + 1) ?r (k + 7)) \<le> length buf)"
    using 1 [OF _ refl refl _ _ refl] by blast
  then show ?case
    unfolding read_varint_loop.simps [of buf pos r k] by (auto simp: Let_def)
qed

lemma read_varint_pos: "read_varint buf pos = (Inr v, q) \<Longrightarrow> pos < q \<and> q \<le> length buf"
  using read_varint_loop_pos [of pos buf 0 0] by (simp add: read_varint_def)

lemma proto_value_pos:
  "proto_value no wb buf pos = (Some (Inr it), q) \<Longrightarrow> pos \<le> length buf \<Longrightarrow> pos \<le> q \<and> q \<le> length buf"
  by (auto simp: proto_value_def split: prod.splits sum.splits if_splits dest!: read_varint_pos)

lemma proto_next_pos: "proto_next buf pos = (Some (Inr it), q) \<Longrightarrow> pos < q \<and> q \<le> length buf"
  by (auto simp: proto_next_def Let_def split: prod.splits sum.splits if_splits
      dest!: read_varint_pos proto_value_pos)

function proto_fold ::
  "('s \<Rightarrow> field \<Rightarrow> compat_error + 's) \<Rightarrow> bytes \<Rightarrow> nat \<Rightarrow> 's \<Rightarrow> compat_error + 's" where
  "proto_fold body buf pos s =
     (case proto_next buf pos of
        (None, pos') \<Rightarrow> Inr s
      | (Some (Inl e), pos') \<Rightarrow> Inl e
      | (Some (Inr item), pos') \<Rightarrow> rbind (body s item) (proto_fold body buf pos'))"
  by pat_completeness auto
termination
  by (relation "measure (\<lambda>(_, buf, pos, _). length buf - pos)")
    (auto dest!: proto_next_pos [OF sym])

declare proto_fold.simps [simp del]

section \<open>The \<open>Data\<close> envelope\<close>

definition data_field :: "u32 \<times> bytes \<times> bool \<Rightarrow> field \<Rightarrow> compat_error + u32 \<times> bytes \<times> bool" where
  "data_field st item =
     (let (port, pay, seen_payload) = st; (field_no, w, val) = item in
      if field_no = 1 \<and> w = Wire_Varint then
        let v = varint val in
        Inr (if v \<le> 0xFFFFFFFF then ucast v else 0xFFFFFFFF, pay, seen_payload)
      else if field_no = 2 \<and> w = Wire_Len then
        (if seen_payload then Inl Duplicate else Inr (port, len_bytes val, True))
      else Inr st)"

definition parse_data :: "bytes \<Rightarrow> compat_error + compat_data" where
  "parse_data buf =
     rbind (proto_fold data_field buf 0 (0, [], False)) (\<lambda>(port, pay, seen_payload).
       if length pay > MAX_COMPAT_FRAME_LEN then Inl TooLong
       else Inr \<lparr> portnum = port, payload = pay \<rparr>)"

section \<open>The packet\<close>

definition varint_to_int32 :: "u64 \<Rightarrow> compat_error + i32" where
  "varint_to_int32 val =
     (let as_i64 = sint (val AND 0xFFFFFFFFFFFFFFFF) in
      if as_i64 < - (2 ^ 31) \<or> as_i64 > 2 ^ 31 - 1 then Inl Int32OutOfRange
      else Inr (word_of_int as_i64))"

definition packet_init :: compat_packet where
  "packet_init = \<lparr> from_id = 0, to_id = 0, channel = 0, packet_id = 0, hop_limit = 0, hop_start = 0,
     want_ack = False, via_mqtt = False, rx_time = 0, rx_snr_bits = None, rx_rssi = None,
     data = None, encrypted = False, encrypted_len = 0, unknown_count = 0 \<rparr>"

definition packet_field :: "compat_packet \<Rightarrow> field \<Rightarrow> compat_error + compat_packet" where
  "packet_field pkt item =
     (let (field_no, w, val) = item in
      if field_no = 1 \<and> w = Wire_Fixed32 then Inr (pkt\<lparr> from_id := fixed32 val \<rparr>)
      else if field_no = 2 \<and> w = Wire_Fixed32 then Inr (pkt\<lparr> to_id := fixed32 val \<rparr>)
      else if field_no = 3 \<and> w = Wire_Varint then Inr (pkt\<lparr> channel := varint val \<rparr>)
      else if field_no = 4 \<and> w = Wire_Len then
        (if data pkt \<noteq> None then Inl Duplicate
         else rbind (parse_data (len_bytes val)) (\<lambda>d. Inr (pkt\<lparr> data := Some d \<rparr>)))
      else if field_no = 5 \<and> w = Wire_Len then
        Inr (pkt\<lparr> encrypted := True, encrypted_len := length (len_bytes val) \<rparr>)
      else if field_no = 6 \<and> w = Wire_Fixed32 then Inr (pkt\<lparr> packet_id := fixed32 val \<rparr>)
      else if field_no = 7 \<and> w = Wire_Fixed32 then Inr (pkt\<lparr> rx_time := fixed32 val \<rparr>)
      else if field_no = 8 \<and> w = Wire_Fixed32 then Inr (pkt\<lparr> rx_snr_bits := Some (fixed32 val) \<rparr>)
      else if field_no = 9 \<and> w = Wire_Varint then Inr (pkt\<lparr> hop_limit := varint val \<rparr>)
      else if field_no = 10 \<and> w = Wire_Varint then Inr (pkt\<lparr> want_ack := varint val \<noteq> 0 \<rparr>)
      else if field_no = 12 \<and> w = Wire_Varint then
        rbind (varint_to_int32 (varint val)) (\<lambda>i. Inr (pkt\<lparr> rx_rssi := Some i \<rparr>))
      else if field_no = 14 \<and> w = Wire_Varint then Inr (pkt\<lparr> via_mqtt := varint val \<noteq> 0 \<rparr>)
      else if field_no = 15 \<and> w = Wire_Varint then Inr (pkt\<lparr> hop_start := varint val \<rparr>)
      else if w = Wire_Fixed64 then Inr pkt
      else Inr (pkt\<lparr> unknown_count := saturating_add (unknown_count pkt) 1 \<rparr>))"

definition packet_check :: "compat_packet \<Rightarrow> compat_error + compat_packet" where
  "packet_check pkt =
     (if data pkt \<noteq> None \<and> encrypted pkt then Inl BothDecodedAndEncrypted
      else if data pkt = None \<and> \<not> encrypted pkt then Inl NeitherDecodedNorEncrypted
      else Inr pkt)"

definition parse_packet :: "bytes \<Rightarrow> compat_error + compat_packet" where
  "parse_packet raw =
     (if raw = [] then Inl Empty
      else if length raw > MAX_COMPAT_FRAME_LEN then Inl TooLong
      else rbind (proto_fold packet_field raw 0 packet_init) packet_check)"

definition try_parse_packet :: "bytes \<Rightarrow> compat_packet option" where
  "try_parse_packet raw = res_ok (parse_packet raw)"

section \<open>Display\<close>

definition portnum_names :: "(u32 \<times> string) list" where
  "portnum_names =
     [(0, ''UNKNOWN''),
      (1, ''TEXT_MESSAGE_APP''),
      (2, ''REMOTE_HARDWARE_APP''),
      (3, ''POSITION_APP''),
      (4, ''NODEINFO_APP''),
      (5, ''ROUTING_APP''),
      (6, ''ADMIN_APP''),
      (7, ''TEXT_MESSAGE_COMPRESSED_APP''),
      (8, ''WAYPOINT_APP''),
      (9, ''AUDIO_APP''),
      (10, ''DETECTION_SENSOR_APP''),
      (11, ''ALERT_APP''),
      (12, ''KEY_VERIFICATION_APP''),
      (13, ''REPLY_APP''),
      (14, ''IP_TUNNEL_APP''),
      (15, ''SERIAL_APP''),
      (16, ''STORE_FORWARD_APP''),
      (17, ''RANGE_TEST_APP''),
      (18, ''TELEMETRY_APP''),
      (19, ''ZPS_APP''),
      (20, ''ATAK_PLUGIN''),
      (21, ''MAP_REPORT_APP''),
      (22, ''POWERSTRESS_APP''),
      (32, ''PRIVATE_APP''),
      (33, ''ATAK_FORWARDER''),
      (64, ''SIMULATOR_APP''),
      (256, ''TRACEROUTE_APP''),
      (257, ''NEIGHBORINFO_APP'')]"

definition portnum_name :: "u32 \<Rightarrow> string" where
  "portnum_name p = (case map_of portnum_names p of Some n \<Rightarrow> n | None \<Rightarrow> ''UNKNOWN'')"

definition CompatData_text :: "compat_data \<Rightarrow> compat_error + bytes" where
  "CompatData_text d =
     (if payload d = [] then Inl TextEmpty
      else if utf8_valid (payload d) then Inr (payload d)
      else Inl BadUtf8)"

text \<open>\<open>position\<close>'s loop stops at an error and keeps what it has read.\<close>

definition position_field ::
  "(i32 \<Rightarrow> 'f) \<Rightarrow> 'f option \<times> 'f option \<Rightarrow> field \<Rightarrow> 'f option \<times> 'f option" where
  "position_field deg st item =
     (let (latitude, longitude) = st; (field_no, w, val) = item in
      if w \<noteq> Wire_Fixed32 then st
      else case val of
        Val_Fixed32 raw \<Rightarrow>
          if field_no = 1 \<and> latitude = None then (Some (deg raw), longitude)
          else if field_no = 2 \<and> longitude = None then (latitude, Some (deg raw))
          else st
      | _ \<Rightarrow> st)"

function position_loop ::
  "(i32 \<Rightarrow> 'f) \<Rightarrow> bytes \<Rightarrow> nat \<Rightarrow> 'f option \<times> 'f option \<Rightarrow> 'f option \<times> 'f option" where
  "position_loop deg buf pos st =
     (case proto_next buf pos of
        (None, pos') \<Rightarrow> st
      | (Some (Inl e), pos') \<Rightarrow> st
      | (Some (Inr item), pos') \<Rightarrow> position_loop deg buf pos' (position_field deg st item))"
  by pat_completeness auto
termination
  by (relation "measure (\<lambda>(_, buf, pos, _). length buf - pos)")
    (auto dest!: proto_next_pos [OF sym])

declare position_loop.simps [simp del]

definition CompatData_position :: "(i32 \<Rightarrow> 'f) \<Rightarrow> compat_data \<Rightarrow> 'f option \<times> 'f option" where
  "CompatData_position deg d = position_loop deg (payload d) 0 (None, None)"

section \<open>Varints as numbers\<close>

fun varint_bytes :: "bytes \<Rightarrow> bool" where
  "varint_bytes [] \<longleftrightarrow> False"
| "varint_bytes (b # bs) \<longleftrightarrow> (if unat b < 128 then bs = [] else varint_bytes bs)"

fun varint_value :: "bytes \<Rightarrow> nat" where
  "varint_value [] = 0"
| "varint_value (b # bs) = unat b mod 128 + 128 * varint_value bs"

text \<open>A spelling of a 64-bit number: at most ten bytes, the last one without the continuation bit.\<close>

definition varint_spells :: "nat \<Rightarrow> bytes \<Rightarrow> bool" where
  "varint_spells n bs \<longleftrightarrow> varint_bytes bs \<and> length bs \<le> 10 \<and> varint_value bs = n \<and> n < 2 ^ 64"

lemma low7: "unat (b AND 0x7F) = unat b mod 128" for b :: u8
proof -
  have "b AND 0x7F = take_bit 7 b" by (simp add: take_bit_eq_mask mask_eq_exp_minus_1)
  then show ?thesis by (simp only: unsigned_take_bit_eq) (simp add: take_bit_eq_mod)
qed

lemma top_bit: "b AND 0x80 = 0 \<longleftrightarrow> unat b < 128" for b :: u8
proof -
  have "b AND 0x80 = 0 \<longleftrightarrow> \<not> bit b 7"
    using and_exp_eq_0_iff_not_bit [of b 7] by simp
  also have "\<dots> \<longleftrightarrow> take_bit 7 b = b"
  proof
    assume nb: "\<not> bit b 7"
    show "take_bit 7 b = b"
    proof (rule bit_word_eqI)
      fix n assume "n < LENGTH(8)"
      then have "n < 7 \<or> n = 7" by auto
      with nb show "bit (take_bit 7 b) n = bit b n" by (auto simp: bit_simps)
    qed
  next
    assume "take_bit 7 b = b"
    moreover have "\<not> bit (take_bit 7 b) 7" by (simp add: bit_simps)
    ultimately show "\<not> bit b 7" by simp
  qed
  also have "\<dots> \<longleftrightarrow> unat b < 128"
    by (simp add: word_unat_eq_iff unsigned_take_bit_eq take_bit_nat_eq_self_iff)
  finally show ?thesis .
qed

lemma mid_bits: "b AND 0x7E = 0 \<longleftrightarrow> unat b mod 128 < 2" for b :: u8
proof -
  have m: "(0x7E :: u8) = push_bit 1 (mask 6)"
    by (simp add: mask_eq_exp_minus_1 push_bit_eq_mult)
  have "b AND 0x7E = push_bit 1 (drop_bit 1 (take_bit 7 b))"
    unfolding m by (rule bit_word_eqI) (auto simp: bit_simps simp del: push_bit_of_1 push_bit_Suc_numeral push_bit_Suc)
  moreover have "unat (push_bit 1 (drop_bit 1 (take_bit 7 b))) = 2 * unat (drop_bit 1 (take_bit 7 b))"
  proof -
    have "unat (drop_bit 1 (take_bit 7 b)) = unat b mod 128 div 2"
      by (simp only: unsigned_drop_bit_eq unsigned_take_bit_eq) (simp add: take_bit_eq_mod drop_bit_eq_div)
    then have "unat (drop_bit 1 (take_bit 7 b)) < 64" by simp
    then show ?thesis
      by (simp only: unsigned_push_bit_eq) (simp add: push_bit_eq_mult take_bit_nat_eq_self)
  qed
  ultimately have "b AND 0x7E = 0 \<longleftrightarrow> drop_bit 1 (take_bit 7 b) = 0"
    by (simp add: word_unat_eq_iff)
  also have "\<dots> \<longleftrightarrow> unat (take_bit 7 b) div 2 = 0"
    by (simp add: word_unat_eq_iff drop_bit_eq_div unat_div)
  also have "\<dots> \<longleftrightarrow> unat b mod 128 < 2"
    by (simp only: unsigned_take_bit_eq) (auto simp: take_bit_eq_mod)
  finally show ?thesis .
qed

lemma or_shift:
  fixes r b :: u64
  assumes r: "unat r < 2 ^ k" and b: "unat b * 2 ^ k < 2 ^ 64" and k: "k \<le> 64"
  shows "unat (r OR push_bit k b) = unat r + 2 ^ k * unat b"
proof -
  have nb: "\<not> bit r i" if "k \<le> i" for i
  proof -
    have "take_bit k (unat r) = unat r" using r by (simp add: take_bit_nat_eq_self)
    then have "take_bit k r = r" by (simp add: word_unat_eq_iff unsigned_take_bit_eq)
    moreover have "\<not> bit (take_bit k r) i" using that by (simp add: bit_simps)
    ultimately show ?thesis by simp
  qed
  then have "r AND push_bit k b = 0" by (auto simp: bit_eq_iff bit_simps)
  then have "r OR push_bit k b = r + push_bit k b" by (simp add: disjunctive_add_eq_or)
  moreover have pb: "unat (push_bit k b) = 2 ^ k * unat b"
    using b by (simp only: unsigned_push_bit_eq) (simp add: push_bit_eq_mult take_bit_nat_eq_self mult.commute)
  moreover have "unat r + 2 ^ k * unat b < 2 ^ 64"
  proof -
    have pow: "(2::nat) ^ 64 = 2 ^ (64 - k) * 2 ^ k" using k by (simp flip: power_add)
    from b have "unat b < 2 ^ (64 - k)" unfolding pow by (simp only: mult_less_cancel2)
    then have "(unat b + 1) * 2 ^ k \<le> 2 ^ 64" unfolding pow by (intro mult_le_mono) simp_all
    with r show ?thesis by (simp add: mult.commute add.commute)
  qed
  ultimately show ?thesis by (simp add: unat_plus_fits)
qed

lemma varint_bytes_step:
  "(\<exists>bs. varint_bytes bs \<and> length bs \<le> Suc j \<and> prefix bs (b # xs) \<and> q = pos + length bs \<and>
      P (varint_value bs)) \<longleftrightarrow>
   (if unat b < 128 then q = Suc pos \<and> P (unat b)
    else \<exists>cs. varint_bytes cs \<and> length cs \<le> j \<and> prefix cs xs \<and> q = Suc pos + length cs \<and>
      P (unat b mod 128 + 128 * varint_value cs))" (is "?L \<longleftrightarrow> ?R")
proof
  assume ?L
  then obtain bs where bs: "varint_bytes bs" "length bs \<le> Suc j" "prefix bs (b # xs)"
    "q = pos + length bs" "P (varint_value bs)" by blast
  then obtain cs where "bs = b # cs" "prefix cs xs" by (cases bs) auto
  with bs show ?R by (auto split: if_splits)
next
  assume R: ?R
  show ?L
  proof (cases "unat b < 128")
    case True
    with R show ?L by (intro exI [of _ "[b]"]) auto
  next
    case False
    with R obtain cs where "varint_bytes cs" "length cs \<le> j" "prefix cs xs"
      "q = Suc pos + length cs" "P (unat b mod 128 + 128 * varint_value cs)" by auto
    with False show ?L by (intro exI [of _ "b # cs"]) auto
  qed
qed

lemma read_varint_loop_spells:
  assumes "k = 10 - j" and "j \<le> 10" and "unat r < 2 ^ (7 * k)"
  shows "read_varint_loop buf pos r (7 * k) = (Inr v, q) \<longleftrightarrow>
    (\<exists>bs. varint_bytes bs \<and> length bs \<le> j \<and> prefix bs (drop pos buf) \<and> q = pos + length bs \<and>
      unat v = unat r + 2 ^ (7 * k) * varint_value bs)"
  using assms
proof (induction j arbitrary: k pos r)
  case 0
  have "read_varint_loop buf pos r 70 \<noteq> (Inr v, q)"
    unfolding read_varint_loop.simps [of buf pos r 70] by (simp add: Let_def)
  with 0 show ?case by auto
next
  case (Suc j)
  have k: "k = 9 - j" "k \<le> 9" "10 - j = Suc k" using Suc.prems by auto
  show ?case
  proof (cases "pos < length buf")
    case False
    then show ?thesis
      unfolding read_varint_loop.simps [of buf pos r "7 * k"] by (auto simp: Let_def)
  next
    case True
    define b where "b = buf ! pos"
    have drop: "drop pos buf = b # drop (Suc pos) buf"
      using True by (simp add: b_def Cons_nth_drop_Suc)
    have kk: "64 \<le> 7 * k \<longleftrightarrow> k = 10" "7 * k = 63 \<longleftrightarrow> k = 9" "7 * k + 7 = 7 * Suc k"
      "70 < 7 * Suc k \<longleftrightarrow> 10 \<le> k"
      using k by auto
    define r' where "r' = r OR push_bit (7 * k) (ucast (b AND 0x7F))"
    have fits: "unat b mod 128 * 2 ^ (7 * k) < 2 ^ 64" if "k = 9 \<longrightarrow> unat b mod 128 < 2"
    proof (cases "k = 9")
      case True
      with that show ?thesis by simp
    next
      case False
      then have "(2::nat) ^ (7 * k) \<le> 2 ^ 56" using k by (intro power_increasing) auto
      then have "unat b mod 128 * 2 ^ (7 * k) \<le> 127 * 2 ^ 56" by (intro mult_le_mono) auto
      then show ?thesis by simp
    qed
    have r': "unat r' = unat r + 2 ^ (7 * k) * (unat b mod 128)" if "k = 9 \<longrightarrow> unat b mod 128 < 2"
    proof -
      have u: "unat (ucast (b AND 0x7F) :: u64) = unat b mod 128"
        by (simp add: unsigned_ucast_eq low7 take_bit_nat_eq_self)
      show ?thesis
        unfolding r'_def u [symmetric] using Suc.prems(3) fits [OF that] k(2) u
        by (intro or_shift) auto
    qed
    have unf: "read_varint_loop buf pos r (7 * k) =
        (if k = 9 \<and> \<not> unat b mod 128 < 2 then (Inl VarintOverflow, Suc pos)
         else if unat b < 128 then (Inr r', Suc pos)
         else read_varint_loop buf (Suc pos) r' (7 * Suc k))"
      unfolding read_varint_loop.simps [of buf pos r "7 * k"] using True k(2)
      by (simp add: Let_def top_bit mid_bits kk r'_def flip: b_def)
    show ?thesis
    proof (cases "k = 9 \<and> \<not> unat b mod 128 < 2")
      case True
      have "unat v \<noteq> unat r + 2 ^ (7 * k) * varint_value bs" if "prefix bs (b # xs)" "bs \<noteq> []" for bs xs
      proof -
        from that have "unat b mod 128 \<le> varint_value bs" by (cases bs) auto
        with True have "2 \<le> varint_value bs" by linarith
        with True unat_u64_less [of v] show ?thesis by auto
      qed
      moreover have "read_varint_loop buf pos r (7 * k) \<noteq> (Inr v, q)" using unf True by simp
      ultimately show ?thesis unfolding drop by fastforce
    next
      case False
      then have val: "unat r' = unat r + 2 ^ (7 * k) * (unat b mod 128)" by (intro r') auto
      have "unat r' < 2 ^ (7 * Suc k)"
      proof -
        have "2 ^ (7 * k) * (unat b mod 128) \<le> 2 ^ (7 * k) * 127" by (intro mult_le_mono) auto
        with val Suc.prems(3) have "unat r' < 2 ^ (7 * k) * 128" by linarith
        then show ?thesis by (simp add: power_add mult.commute)
      qed
      moreover have "Suc k = 10 - j" "j \<le> 10" using k Suc.prems by auto
      ultimately have IH: "read_varint_loop buf (Suc pos) r' (7 * Suc k) = (Inr v, q) \<longleftrightarrow>
          (\<exists>bs. varint_bytes bs \<and> length bs \<le> j \<and> prefix bs (drop (Suc pos) buf) \<and>
            q = Suc pos + length bs \<and> unat v = unat r' + 2 ^ (7 * Suc k) * varint_value bs)"
        using Suc.IH by blast
      have shift: "unat r' + 2 ^ (7 * Suc k) * n =
          unat r + 2 ^ (7 * k) * (unat b mod 128 + 128 * n)" for n
        by (simp add: val power_add algebra_simps)
      note step = varint_bytes_step [where P = "\<lambda>n. unat v = unat r + 2 ^ (7 * k) * n"]
      show ?thesis
      proof (cases "unat b < 128")
        case True
        then have "read_varint_loop buf pos r (7 * k) = (Inr r', Suc pos)" using unf False by simp
        moreover have "unat b mod 128 = unat b" using True by simp
        ultimately show ?thesis
          unfolding drop step if_P [OF True] using val word_unat_eq_iff [of v r'] by auto
      next
        case big: False
        then have "read_varint_loop buf pos r (7 * k) = read_varint_loop buf (Suc pos) r' (7 * Suc k)"
          by (simp only: unf if_not_P [OF False] if_not_P [OF big] if_False)
        then show ?thesis
          unfolding drop step if_not_P [OF big] using IH by (simp only: shift)
      qed
    qed
  qed
qed

lemma read_varint_iff:
  "read_varint buf pos = (Inr v, q) \<longleftrightarrow>
    (\<exists>bs. varint_spells (unat v) bs \<and> prefix bs (drop pos buf) \<and> q = pos + length bs)"
  using read_varint_loop_spells [of 0 10 0 buf pos v q] unat_u64_less [of v]
  by (auto simp: read_varint_def varint_spells_def)

section \<open>The wire grammar\<close>

fun wire_code :: "wire \<Rightarrow> nat" where
  "wire_code Wire_Varint = 0"
| "wire_code Wire_Fixed64 = 1"
| "wire_code Wire_Len = 2"
| "wire_code Wire_Fixed32 = 5"

fun body_spells :: "wire \<Rightarrow> field_val \<Rightarrow> bytes \<Rightarrow> bool" where
  "body_spells Wire_Varint (Val_Varint v) bs \<longleftrightarrow> varint_spells (unat v) bs"
| "body_spells Wire_Fixed64 (Val_Varint v) bs \<longleftrightarrow> v = 0 \<and> length bs = 8"
| "body_spells Wire_Len (Val_Len xs) bs \<longleftrightarrow> (\<exists>ls. varint_spells (length xs) ls \<and> bs = ls @ xs)"
| "body_spells Wire_Fixed32 (Val_Fixed32 w) bs \<longleftrightarrow> length bs = 4 \<and> w = of_le bs"
| "body_spells _ _ _ \<longleftrightarrow> False"

definition field_spells :: "field \<Rightarrow> bytes \<Rightarrow> bool" where
  "field_spells it bs \<longleftrightarrow>
     (let (no, w, val) = it in
      no \<noteq> 0 \<and> (\<exists>ts vs. bs = ts @ vs \<and> varint_spells (8 * unat no + wire_code w) ts \<and> body_spells w val vs))"

lemma prefix_drop_append:
  "prefix (xs @ ys) (drop n zs) \<longleftrightarrow> prefix xs (drop n zs) \<and> prefix ys (drop (n + length xs) zs)"
proof -
  have "prefix (xs @ ys) ws \<longleftrightarrow> prefix xs ws \<and> prefix ys (drop (length xs) ws)" for ws :: "'a list"
    by (auto simp: prefix_def)
  then show ?thesis by (simp add: add.commute)
qed

lemma prefix_bslice: "prefix xs (drop n zs) \<longleftrightarrow> n + length xs \<le> length zs \<and> bslice n (n + length xs) zs = xs"
  if "n \<le> length zs"
  using that by (auto simp: bslice_def prefix_def dest: arg_cong [where f = length])
    (metis append_take_drop_id)

lemma wire_code_iffs:
  "wire_code w = 0 \<longleftrightarrow> w = Wire_Varint" "wire_code w = Suc 0 \<longleftrightarrow> w = Wire_Fixed64"
  "wire_code w = 2 \<longleftrightarrow> w = Wire_Len" "wire_code w = 5 \<longleftrightarrow> w = Wire_Fixed32"
  by (cases w; simp)+

lemma body_spells_iffs:
  "body_spells Wire_Varint val bs \<longleftrightarrow> (\<exists>v. val = Val_Varint v \<and> varint_spells (unat v) bs)"
  "body_spells Wire_Fixed64 val bs \<longleftrightarrow> val = Val_Varint 0 \<and> length bs = 8"
  "body_spells Wire_Len val bs \<longleftrightarrow>
     (\<exists>xs ls. val = Val_Len xs \<and> varint_spells (length xs) ls \<and> bs = ls @ xs)"
  "body_spells Wire_Fixed32 val bs \<longleftrightarrow> val = Val_Fixed32 (of_le bs) \<and> length bs = 4"
  by (cases val; auto)+

text \<open>A fixed number of bytes is there exactly when the buffer is long enough.\<close>

lemma fixed_prefix:
  assumes "pos \<le> length buf"
  shows "(\<exists>vs. P vs \<and> length vs = n \<and> prefix vs (drop pos buf) \<and> q = pos + length vs) \<longleftrightarrow>
    \<not> length buf < pos + n \<and> P (bslice pos (pos + n) buf) \<and> q = pos + n"
  using assms by (auto simp: prefix_bslice intro!: exI [of _ "bslice pos (pos + n) buf"])

lemma len_value_iff:
  assumes "pos \<le> length buf"
  shows "(\<exists>vs. body_spells Wire_Len val vs \<and> prefix vs (drop pos buf) \<and> q = pos + length vs) \<longleftrightarrow>
    (\<exists>len p. read_varint buf pos = (Inr len, p) \<and> \<not> length buf < p + unat len \<and>
      val = Val_Len (bslice p (p + unat len) buf) \<and> q = p + unat len)" (is "?L \<longleftrightarrow> ?R")
proof
  assume ?L
  then obtain xs ls where val: "val = Val_Len xs" "varint_spells (length xs) ls"
    "prefix (ls @ xs) (drop pos buf)" "q = pos + length ls + length xs"
    by (auto simp: body_spells_iffs)
  define len :: u64 where "len = of_nat (length xs)"
  have "unat len = length xs"
    using val(2) by (simp add: len_def varint_spells_def unsigned_of_nat take_bit_nat_eq_self)
  moreover from this val have "read_varint buf pos = (Inr len, pos + length ls)"
    unfolding read_varint_iff prefix_drop_append by auto
  moreover from this have "pos + length ls \<le> length buf" by (auto dest: read_varint_pos)
  ultimately show ?R
    using val by (auto simp: prefix_drop_append prefix_bslice)
next
  assume ?R
  then obtain len p where r: "read_varint buf pos = (Inr len, p)" "p + unat len \<le> length buf"
    "val = Val_Len (bslice p (p + unat len) buf)" "q = p + unat len" by auto
  then obtain ls where "varint_spells (unat len) ls" "prefix ls (drop pos buf)" "p = pos + length ls"
    by (auto simp: read_varint_iff)
  moreover from r have "prefix (bslice p (p + unat len) buf) (drop p buf)" by (simp add: prefix_bslice)
  ultimately show ?L
    using r by (intro exI [of _ "ls @ bslice p (p + unat len) buf"])
      (auto simp: body_spells_iffs prefix_drop_append)
qed

lemma proto_value_iff:
  assumes "pos \<le> length buf"
  shows "proto_value no wb buf pos = (Some (Inr (no', w, val)), q) \<longleftrightarrow>
    no' = no \<and> wire_code w = unat wb \<and>
    (\<exists>vs. body_spells w val vs \<and> prefix vs (drop pos buf) \<and> q = pos + length vs)"
proof -
  consider "wb = 0" | "wb = 1" | "wb = 2" | "wb = 5"
    | (other) "wb \<noteq> 0" "wb \<noteq> 1" "wb \<noteq> 2" "wb \<noteq> 5" by blast
  then show ?thesis
  proof cases
    case 1
    have "proto_value no 0 buf pos = (Some (Inr (no', w, val)), q) \<longleftrightarrow>
        no' = no \<and> w = Wire_Varint \<and> (\<exists>v. val = Val_Varint v \<and> read_varint buf pos = (Inr v, q))"
      by (auto simp: proto_value_def split: prod.splits sum.splits)
    with 1 show ?thesis
      by (cases "w = Wire_Varint")
        (simp add: wire_code_iffs body_spells_iffs read_varint_iff; blast)+
  next
    case 2
    have "(\<exists>vs. body_spells Wire_Fixed64 val vs \<and> prefix vs (drop pos buf) \<and> q = pos + length vs) \<longleftrightarrow>
      \<not> length buf < pos + 8 \<and> val = Val_Varint 0 \<and> q = pos + 8"
      using fixed_prefix [OF assms, of "\<lambda>_. val = Val_Varint 0" 8 q]
      by (simp add: body_spells_iffs conj_ac)
    with 2 show ?thesis
      by (auto simp: proto_value_def wire_code_iffs)
  next
    case 3
    then show ?thesis
      using len_value_iff [OF assms, of val q]
      by (auto simp: proto_value_def wire_code_iffs split: prod.splits sum.splits)
  next
    case 4
    have "(\<exists>vs. body_spells Wire_Fixed32 val vs \<and> prefix vs (drop pos buf) \<and> q = pos + length vs) \<longleftrightarrow>
      \<not> length buf < pos + 4 \<and> val = Val_Fixed32 (of_le (bslice pos (pos + 4) buf)) \<and> q = pos + 4"
      using fixed_prefix [OF assms, of "\<lambda>vs. val = Val_Fixed32 (of_le vs)" 4 q]
      by (simp add: body_spells_iffs conj_ac)
    with 4 show ?thesis
      by (auto simp: proto_value_def wire_code_iffs)
  next
    case other
    then have "unat wb \<noteq> 0 \<and> unat wb \<noteq> 1 \<and> unat wb \<noteq> 2 \<and> unat wb \<noteq> 5"
      by (simp add: word_unat_eq_iff)
    then have "wire_code w \<noteq> unat wb" by (cases w) auto
    with other show ?thesis by (simp add: proto_value_def)
  qed
qed

lemma tag_parts: "unat tag = 8 * unat (drop_bit 3 tag) + unat (ucast (tag AND 0x07) :: u8)" for tag :: u64
proof -
  have "tag AND 0x07 = take_bit 3 tag" by (simp add: take_bit_eq_mask mask_eq_exp_minus_1)
  then have "unat (ucast (tag AND 0x07) :: u8) = unat tag mod 8"
    by (simp only: unsigned_ucast_eq unsigned_take_bit_eq) (simp add: take_bit_eq_mod mod_mod_cancel)
  moreover have "unat (drop_bit 3 tag) = unat tag div 8"
    by (simp add: drop_bit_eq_div unat_div)
  ultimately show ?thesis by simp
qed

lemma wire_code_less: "wire_code w < 8" by (cases w) auto

lemma proto_next_iff:
  "proto_next buf pos = (Some (Inr it), q) \<longleftrightarrow>
    (\<exists>bs. field_spells it bs \<and> prefix bs (drop pos buf) \<and> q = pos + length bs)" (is "?L \<longleftrightarrow> ?R")
proof -
  obtain no w val where it: "it = (no, w, val)" by (cases it)
  show ?thesis
  proof
    assume ?L
    then obtain tag p where tag: "read_varint buf pos = (Inr tag, p)"
      and fn: "drop_bit 3 tag \<noteq> 0" "drop_bit 3 tag \<le> 0xFFFFFFFF"
      and v: "proto_value (ucast (drop_bit 3 tag)) (ucast (tag AND 0x07)) buf p = (Some (Inr it), q)"
      by (auto simp: proto_next_def Let_def not_less split: prod.splits sum.splits if_splits)
    have p: "p \<le> length buf" using read_varint_pos [OF tag] by simp
    have u: "unat (ucast (drop_bit 3 tag) :: u32) = unat (drop_bit 3 tag)"
      using fn(2) by (simp add: unsigned_ucast_eq take_bit_nat_eq_self word_le_nat_alt)
    from tag obtain ts where ts: "varint_spells (unat tag) ts" "prefix ts (drop pos buf)" "p = pos + length ts"
      by (auto simp: read_varint_iff)
    from v [unfolded it proto_value_iff [OF p]] obtain vs where vs:
      "no = ucast (drop_bit 3 tag)" "wire_code w = unat (ucast (tag AND 0x07) :: u8)"
      "body_spells w val vs" "prefix vs (drop p buf)" "q = p + length vs" by auto
    have "no \<noteq> 0" using fn(1) u vs(1) by (metis unat_0_iff unsigned_0)
    moreover have "unat tag = 8 * unat no + wire_code w" using tag_parts [of tag] vs u by simp
    ultimately show ?R
      using ts vs by (intro exI [of _ "ts @ vs"]) (auto simp: it field_spells_def prefix_drop_append)
  next
    assume ?R
    then obtain ts vs where no: "no \<noteq> 0" and ts: "varint_spells (8 * unat no + wire_code w) ts"
      and vs: "body_spells w val vs" and pre: "prefix (ts @ vs) (drop pos buf)"
      and q: "q = pos + length ts + length vs"
      by (auto simp: it field_spells_def)
    define tag :: u64 where "tag = of_nat (8 * unat no + wire_code w)"
    have t: "unat tag = 8 * unat no + wire_code w"
      unfolding tag_def using ts by (simp only: varint_spells_def unsigned_of_nat) (simp add: take_bit_nat_eq_self)
    then have rv: "read_varint buf pos = (Inr tag, pos + length ts)"
      using ts pre by (auto simp: read_varint_iff prefix_drop_append)
    have parts: "unat (drop_bit 3 tag) = unat no" "unat (ucast (tag AND 0x07) :: u8) = wire_code w"
    proof -
      have "unat (drop_bit 3 tag) = unat tag div 8"
        by (simp add: drop_bit_eq_div unat_div)
      with t wire_code_less [of w] show "unat (drop_bit 3 tag) = unat no" by simp
      with tag_parts [of tag] t show "unat (ucast (tag AND 0x07) :: u8) = wire_code w" by simp
    qed
    have "drop_bit 3 tag \<noteq> 0" using parts(1) no by (metis unat_0_iff unsigned_0)
    moreover have "drop_bit 3 tag \<le> 0xFFFFFFFF"
      using parts(1) unat_u32_less [of no] by (simp add: word_le_nat_alt)
    moreover have "ucast (drop_bit 3 tag) = no"
      using parts(1) unat_u32_less [of no]
      by (simp add: word_unat_eq_iff unsigned_ucast_eq take_bit_nat_eq_self)
    moreover have pos: "pos + length ts \<le> length buf" "pos < length buf"
      using read_varint_pos [OF rv] by linarith+
    moreover have "proto_value no (ucast (tag AND 0x07)) buf (pos + length ts) = (Some (Inr it), q)"
      unfolding it proto_value_iff [OF pos(1)] using parts(2) vs pre q
      by (auto simp: prefix_drop_append)
    ultimately show ?L
      by (simp add: proto_next_def rv Let_def not_le not_less)
  qed
qed

section \<open>Sequences of fields\<close>

fun fields_spell :: "field list \<Rightarrow> bytes \<Rightarrow> bool" where
  "fields_spell [] bs \<longleftrightarrow> bs = []"
| "fields_spell (it # its) bs \<longleftrightarrow>
     (\<exists>xs ys. bs = xs @ ys \<and> field_spells it xs \<and> fields_spell its ys)"

primrec fold_fields :: "('s \<Rightarrow> field \<Rightarrow> compat_error + 's) \<Rightarrow> 's \<Rightarrow> field list \<Rightarrow> compat_error + 's" where
  "fold_fields body s [] = Inr s"
| "fold_fields body s (it # its) = rbind (body s it) (\<lambda>t. fold_fields body t its)"

lemma proto_next_None: "proto_next buf pos = (None, q) \<longleftrightarrow> length buf \<le> pos \<and> q = pos"
  by (auto simp: proto_next_def proto_value_def Let_def split: prod.splits sum.splits if_splits)

lemma field_spells_ne: "field_spells it bs \<Longrightarrow> bs \<noteq> []"
  by (auto simp: field_spells_def varint_spells_def split: prod.splits)

text \<open>The loop returns exactly when the rest of the buffer is a sequence of spelled fields and
  its body accepts them in order.\<close>

lemma proto_fold_iff:
  "pos \<le> length buf \<Longrightarrow> proto_fold body buf pos s = Inr t \<longleftrightarrow>
     (\<exists>its. fields_spell its (drop pos buf) \<and> fold_fields body s its = Inr t)"
proof (induction body buf pos s rule: proto_fold.induct)
  case (1 body buf pos s)
  show ?case
  proof (cases "pos = length buf")
    case True
    then have "fields_spell its (drop pos buf) \<longleftrightarrow> its = []" for its
      using field_spells_ne by (cases its) auto
    moreover have "proto_next buf pos = (None, pos)" using True by (simp add: proto_next_None)
    ultimately show ?thesis
      by (subst proto_fold.simps) (simp add: True)
  next
    case False
    with 1(2) have pos: "pos < length buf" by simp
    have split: "(\<exists>its. fields_spell its (drop pos buf) \<and> fold_fields body s its = Inr t) \<longleftrightarrow>
      (\<exists>it q u. proto_next buf pos = (Some (Inr it), q) \<and> body s it = Inr u \<and>
        (\<exists>its. fields_spell its (drop q buf) \<and> fold_fields body u its = Inr t))" (is "?L \<longleftrightarrow> ?R")
    proof
      assume ?L
      then obtain it its where "fields_spell (it # its) (drop pos buf)"
        "fold_fields body s (it # its) = Inr t" using pos
        by (metis drop_eq_Nil fields_spell.simps(1) list.exhaust not_less)
      then obtain xs ys u where "drop pos buf = xs @ ys" "field_spells it xs" "fields_spell its ys"
        "body s it = Inr u" "fold_fields body u its = Inr t" by auto
      moreover from this have "drop (pos + length xs) buf = ys"
        by (metis add.commute append_eq_conv_conj drop_drop)
      moreover have "proto_next buf pos = (Some (Inr it), pos + length xs)"
        using calculation by (auto simp: proto_next_iff)
      ultimately show ?R by blast
    next
      assume ?R
      then obtain it q u its where n: "proto_next buf pos = (Some (Inr it), q)" "body s it = Inr u"
        "fields_spell its (drop q buf)" "fold_fields body u its = Inr t" by blast
      then obtain xs where "field_spells it xs" "prefix xs (drop pos buf)" "q = pos + length xs"
        by (auto simp: proto_next_iff)
      moreover from this have "drop pos buf = xs @ drop q buf"
        by (auto simp: prefix_def) (metis add.commute append_eq_conv_conj drop_drop)
      ultimately show ?L using n by (intro exI [of _ "it # its"]) auto
    qed
    obtain r q where n: "proto_next buf pos = (r, q)" by (cases "proto_next buf pos")
    consider (none) "r = None" | (err) e where "r = Some (Inl e)" | (ok) it where "r = Some (Inr it)"
      by (metis obj_sumE option.exhaust)
    then show ?thesis
    proof cases
      case none
      with n pos show ?thesis by (simp add: proto_next_None)
    next
      case err
      then show ?thesis unfolding split by (subst proto_fold.simps) (simp add: n)
    next
      case ok
      have q: "q \<le> length buf" using n ok proto_next_pos by simp
      have "proto_fold body buf pos s = rbind (body s it) (proto_fold body buf q)"
        by (subst proto_fold.simps) (simp add: n ok)
      moreover have "proto_fold body buf q u = Inr t \<longleftrightarrow>
          (\<exists>its. fields_spell its (drop q buf) \<and> fold_fields body u its = Inr t)" for u
        using 1(1) [OF n [symmetric] ok refl] q by blast
      ultimately show ?thesis unfolding split using n ok by auto
    qed
  qed
qed

lemma fields_spell_bytes:
  "fields_spell its bs \<Longrightarrow> (no, w, Val_Len xs) \<in> set its \<Longrightarrow> sublist xs bs"
proof (induction its arbitrary: bs)
  case (Cons it its)
  then obtain ys zs where s: "bs = ys @ zs" "field_spells it ys" "fields_spell its zs" by auto
  show ?case
  proof (cases "it = (no, w, Val_Len xs)")
    case True
    with s(2) have "sublist xs ys"
      by (cases w) (auto simp: field_spells_def body_spells_iffs suffix_def intro!: suffix_imp_sublist)
    with s(1) show ?thesis unfolding sublist_def by (metis append_assoc)
  next
    case False
    with Cons s have "sublist xs zs" by auto
    with s(1) show ?thesis unfolding sublist_def by (metis append_assoc)
  qed
qed simp

lemma fold_fields_inv:
  assumes "fold_fields body s its = Inr t" and "I s"
    and "\<And>s it u. it \<in> set its \<Longrightarrow> I s \<Longrightarrow> body s it = Inr u \<Longrightarrow> I u"
  shows "I t"
  using assms
proof (induction its arbitrary: s)
  case (Cons it its)
  then obtain u where "body s it = Inr u" "fold_fields body u its = Inr t" by auto
  with Cons show ?case by (metis list.set_intros)
qed simp

text \<open>What can go wrong: the reader's own errors, or an error of the body on a field whose bytes
  lie in the buffer, in a state the body has reached.\<close>

lemma proto_next_err: "proto_next buf pos = (Some (Inl e), q) \<Longrightarrow> e \<in> {Truncated, BadTag, VarintOverflow, UnsupportedWire}"
proof -
  have rv: "read_varint_loop buf pos r k = (Inl e, q) \<Longrightarrow> e \<in> {Truncated, VarintOverflow}" for buf pos r k e q
    by (induction buf pos r k rule: read_varint_loop.induct)
      (subst (asm) (2) read_varint_loop.simps, auto simp: Let_def split: if_splits)
  have "e \<in> {Truncated, VarintOverflow}" if "read_varint buf pos = (Inl e, q)" for buf pos e q
    using rv that by (simp add: read_varint_def)
  then show "proto_next buf pos = (Some (Inl e), q) \<Longrightarrow> e \<in> {Truncated, BadTag, VarintOverflow, UnsupportedWire}"
    by (fastforce simp: proto_next_def proto_value_def Let_def split: prod.splits sum.splits if_splits)
qed

lemma parse_data_iff:
  "parse_data buf = Inr d \<longleftrightarrow>
     (\<exists>its seen. fields_spell its buf \<and>
        fold_fields data_field (0, [], False) its = Inr (portnum d, payload d, seen) \<and>
        length (payload d) \<le> MAX_COMPAT_FRAME_LEN)"
proof -
  have "parse_data buf = Inr d \<longleftrightarrow>
      (\<exists>seen. proto_fold data_field buf 0 (0, [], False) = Inr (portnum d, payload d, seen) \<and>
        length (payload d) \<le> MAX_COMPAT_FRAME_LEN)"
    by (cases d) (auto simp: parse_data_def not_less split: if_splits)
  then show ?thesis
    using proto_fold_iff [of 0 buf data_field "(0, [], False)"] by auto
qed

lemma data_field_keeps:
  assumes "fields_spell its buf" and "it \<in> set its" and "sublist (fst (snd s)) buf"
    and "data_field s it = Inr u"
  shows "sublist (fst (snd u)) buf"
  using assms(2-4) fields_spell_bytes [OF assms(1)]
  by (cases "snd (snd it)") (auto simp: data_field_def Let_def split: prod.splits if_splits)

lemma parse_data_payload: "parse_data buf = Inr d \<Longrightarrow> sublist (payload d) buf"
proof -
  assume "parse_data buf = Inr d"
  then obtain its seen where i: "fields_spell its buf"
    "fold_fields data_field (0, [], False) its = Inr (portnum d, payload d, seen)"
    by (auto simp: parse_data_iff)
  have "sublist (fst (snd (portnum d, payload d, seen))) buf"
    using data_field_keeps [OF i(1)] by (rule fold_fields_inv [OF i(2), rotated]) simp_all
  then show ?thesis by simp
qed

text \<open>A loop's error is the reader's, or its body's on a field whose bytes lie in the buffer.\<close>

abbreviation reader_errors :: "compat_error set" where
  "reader_errors \<equiv> {Truncated, BadTag, VarintOverflow, UnsupportedWire}"

abbreviation field_len :: "field \<Rightarrow> nat" where
  "field_len it \<equiv> length (len_bytes (snd (snd it)))"

lemma proto_next_bytes:
  assumes "proto_next buf pos = (Some (Inr it), q)"
  shows "field_len it \<le> length buf"
proof -
  obtain no w val where it: "it = (no, w, val)" by (cases it)
  from assms obtain bs where bs: "field_spells it bs" "prefix bs (drop pos buf)"
    by (auto simp: proto_next_iff)
  from bs(1) have "field_len it \<le> length bs"
    by (cases w; cases val) (auto simp: it field_spells_def)
  moreover have "length bs \<le> length (drop pos buf)" using bs(2) by (rule prefix_length_le)
  ultimately show ?thesis by simp
qed

lemma proto_fold_err:
  assumes "\<And>s it e. field_len it \<le> length buf \<Longrightarrow> body s it = Inl e \<Longrightarrow> e \<in> E"
  shows "proto_fold body buf pos s = Inl e \<Longrightarrow> e \<in> E \<union> reader_errors"
  using assms
proof (induction body buf pos s rule: proto_fold.induct)
  case (1 body buf pos s)
  from 1(2) consider (err) q where "proto_next buf pos = (Some (Inl e), q)"
    | (body) it q where "proto_next buf pos = (Some (Inr it), q)" "body s it = Inl e"
    | (rec) it q t where "proto_next buf pos = (Some (Inr it), q)" "proto_fold body buf q t = Inl e"
    by (subst (asm) proto_fold.simps) (auto simp: rbind_Inl split: prod.splits option.splits sum.splits)
  then show ?case
  proof cases
    case err
    then show ?thesis using proto_next_err by auto
  next
    case body
    then show ?thesis using 1(3) [OF proto_next_bytes] by simp
  next
    case rec
    from 1(1) [OF rec(1) [symmetric] refl refl rec(2)] 1(3) show ?thesis by blast
  qed
qed

lemma data_field_err: "data_field s it = Inl e \<Longrightarrow> e = Duplicate"
  by (auto simp: data_field_def Let_def split: prod.splits if_splits)

lemma parse_data_err:
  assumes "parse_data buf = Inl e" and "length buf \<le> MAX_COMPAT_FRAME_LEN"
  shows "e \<in> {Duplicate} \<union> reader_errors"
proof (cases "proto_fold data_field buf 0 (0, [], False)")
  case (Inl e')
  then show ?thesis
    using assms proto_fold_err [of buf data_field "{Duplicate}" 0 "(0, [], False)" e] data_field_err
    by (auto simp: parse_data_def)
next
  case (Inr st)
  then obtain port pay seen where st: "st = (port, pay, seen)" by (cases st)
  from Inr proto_fold_iff [of 0 buf data_field "(0, [], False)" st]
  obtain its where i: "fields_spell its buf" "fold_fields data_field (0, [], False) its = Inr st" by auto
  have "sublist (fst (snd st)) buf"
    using data_field_keeps [OF i(1)] by (rule fold_fields_inv [OF i(2), rotated]) simp_all
  then have "length pay \<le> length buf" by (simp add: st sublist_length_le)
  with assms Inr st show ?thesis by (simp add: parse_data_def)
qed

lemma if_neqI: "a \<noteq> e \<Longrightarrow> b \<noteq> e \<Longrightarrow> (if c then a else b) \<noteq> e"
  by simp

lemma varint_to_int32_err: "varint_to_int32 v = Inl e \<Longrightarrow> e = Int32OutOfRange"
  by (auto simp: varint_to_int32_def Let_def split: if_splits)

lemma packet_field_neq:
  "e \<noteq> Duplicate \<Longrightarrow> parse_data (len_bytes val) \<noteq> Inl e \<Longrightarrow> varint_to_int32 (varint val) \<noteq> Inl e \<Longrightarrow>
     packet_field s (no, w, val) \<noteq> Inl e"
  unfolding packet_field_def Let_def prod.case
  by (intro if_neqI) (simp_all add: rbind_Inl)

lemma packet_field_err:
  assumes "field_len it \<le> length raw" and "length raw \<le> MAX_COMPAT_FRAME_LEN"
    and "packet_field s it = Inl e"
  shows "e \<in> {Duplicate, Int32OutOfRange} \<union> reader_errors"
proof -
  obtain no w val where it: "it = (no, w, val)" by (cases it)
  have "length (len_bytes val) \<le> MAX_COMPAT_FRAME_LEN" using assms(1,2) by (simp add: it)
  with packet_field_neq [of e val s no w] assms(3) [unfolded it] parse_data_err varint_to_int32_err
  show ?thesis by blast
qed

definition on_ok :: "('a \<Rightarrow> bool) \<Rightarrow> 'e + 'a \<Rightarrow> bool" where
  "on_ok I r \<longleftrightarrow> (\<forall>u. r = Inr u \<longrightarrow> I u)"

lemma on_ok_if: "on_ok I a \<Longrightarrow> on_ok I b \<Longrightarrow> on_ok I (if c then a else b)"
  by simp

definition packet_within :: "bytes \<Rightarrow> compat_packet \<Rightarrow> bool" where
  "packet_within raw p \<longleftrightarrow>
     (case data p of Some d \<Rightarrow> sublist (payload d) raw | None \<Rightarrow> True) \<and> encrypted_len p \<le> length raw"

lemma packet_field_keeps:
  assumes "fields_spell its raw" and "it \<in> set its" and "packet_within raw s"
    and "packet_field s it = Inr u"
  shows "packet_within raw u"
proof -
  obtain no w val where it: "it = (no, w, val)" by (cases it)
  have sub: "sublist (len_bytes val) raw"
    using fields_spell_bytes [OF assms(1)] assms(2) by (cases val) (auto simp: it)
  have sub2: "sublist (payload d) raw" if "parse_data (len_bytes val) = Inr d" for d
    using parse_data_payload [OF that] sub by (rule sublist_order.order.trans)
  have "on_ok (packet_within raw) (packet_field s (no, w, val))"
    unfolding packet_field_def Let_def prod.case
    by (intro on_ok_if)
      (use assms(3) sub2 sublist_length_le [OF sub] in \<open>auto simp: on_ok_def packet_within_def\<close>)
  with assms(4) show ?thesis by (simp add: on_ok_def it)
qed

section \<open>Properties\<close>

text \<open>C40: Every call of the field iterator that yields a field consumes at least one byte and
  stays inside the buffer, so the parsing loops end.\<close>

theorem proto_next_progress:
  "case proto_next buf pos of
     (Some (Inr item), q) \<Rightarrow> pos < q \<and> q \<le> length buf
   | (Some (Inl e), q) \<Rightarrow> e \<in> {Truncated, BadTag, VarintOverflow, UnsupportedWire}
   | (None, q) \<Rightarrow> length buf \<le> pos \<and> q = pos"
  by (auto split: prod.splits option.splits sum.splits dest: proto_next_pos proto_next_err
      simp: proto_next_None)

text \<open>The varint reader accepts exactly the spellings of 64-bit numbers in at most ten
  bytes, and returns the number and the position right after the spelling.\<close>

theorem read_varint_exact:
  "read_varint buf pos = (Inr v, q) \<longleftrightarrow>
     (\<exists>bs. varint_bytes bs \<and> length bs \<le> 10 \<and> varint_value bs = unat v \<and>
        prefix bs (drop pos buf) \<and> q = pos + length bs)"
  using unat_u64_less [of v] by (auto simp: read_varint_iff varint_spells_def)

text \<open>C39: A packet is accepted exactly when it is non-empty, at most 512 bytes long, a sequence
  of spelled protobuf fields from its first to its last byte whose values the packet accepts in
  order, and carries exactly one of the decoded and the encrypted part.\<close>

theorem parse_packet_grammar:
  "parse_packet raw = Inr p \<longleftrightarrow>
     raw \<noteq> [] \<and> length raw \<le> 512 \<and> (data p = None \<longleftrightarrow> encrypted p) \<and>
     (\<exists>its. fields_spell its raw \<and> fold_fields packet_field packet_init its = Inr p)"
proof -
  have "packet_check p' = Inr p \<longleftrightarrow> p' = p \<and> (data p = None \<longleftrightarrow> encrypted p)" for p'
    by (auto simp: packet_check_def)
  then show ?thesis
    using proto_fold_iff [of 0 raw packet_field packet_init]
    by (auto simp: parse_packet_def MAX_COMPAT_FRAME_LEN_def)
qed

text \<open>An accepted packet carries exactly one of the decoded and the encrypted part, its
  payload is a piece of the input and its encrypted length is at most the input's; the size errors
  mean what they say, and the errors for missing fields and bad text are never raised here.\<close>

theorem parse_packet_outcome:
  "case parse_packet raw of
     Inr p \<Rightarrow> (data p = None \<longleftrightarrow> encrypted p) \<and> encrypted_len p \<le> length raw \<and>
       (case data p of Some d \<Rightarrow> sublist (payload d) raw | None \<Rightarrow> True)
   | Inl e \<Rightarrow> (e = Empty \<longleftrightarrow> raw = []) \<and> (e = TooLong \<longleftrightarrow> 512 < length raw) \<and>
       e \<notin> {NoFields, BadUtf8, TextEmpty}"
proof (cases "parse_packet raw")
  case (Inl e)
  show ?thesis
  proof (cases "raw = [] \<or> 512 < length raw")
    case True
    with Inl show ?thesis by (auto simp: parse_packet_def MAX_COMPAT_FRAME_LEN_def split: if_splits)
  next
    case False
    then have len: "length raw \<le> MAX_COMPAT_FRAME_LEN" by (simp add: MAX_COMPAT_FRAME_LEN_def)
    from Inl False len consider "proto_fold packet_field raw 0 packet_init = Inl e"
      | p where "packet_check p = Inl e"
      by (auto simp: parse_packet_def rbind_Inl)
    then have "e \<in> {Duplicate, Int32OutOfRange, BothDecodedAndEncrypted, NeitherDecodedNorEncrypted} \<union> reader_errors"
    proof cases
      case 1
      have "e \<in> ({Duplicate, Int32OutOfRange} \<union> reader_errors) \<union> reader_errors"
        by (rule proto_fold_err [OF packet_field_err [OF _ len] 1])
      then show ?thesis by auto
    next
      case 2
      then show ?thesis by (auto simp: packet_check_def split: if_splits)
    qed
    with Inl False show ?thesis by auto
  qed
next
  case (Inr p)
  then have ok: "proto_fold packet_field raw 0 packet_init = Inr p" "data p = None \<longleftrightarrow> encrypted p"
    by (auto simp: parse_packet_def packet_check_def split: if_splits)
  from ok(1) proto_fold_iff [of 0 raw packet_field packet_init p]
  obtain its where i: "fields_spell its raw" "fold_fields packet_field packet_init its = Inr p" by auto
  have "packet_within raw packet_init" by (simp add: packet_within_def packet_init_def)
  then have "packet_within raw p"
    using packet_field_keeps [OF i(1)] by (rule fold_fields_inv [OF i(2)])
  with ok Inr show ?thesis by (simp add: packet_within_def)
qed

section \<open>The source's test packets\<close>

lemma compat_test_packets:
  "map_option (\<lambda>p. (from_id p, to_id p, packet_id p, encrypted p, data p))
     (try_parse_packet [0x0D, 0x78, 0x56, 0x34, 0x12, 0x15, 0xFF, 0xFF, 0xFF, 0xFF, 0x22, 0x06, 0x08, 0x01,
        0x12, 0x02, 0x48, 0x69, 0x35, 0x2A, 0x00, 0x00, 0x00]) =
   Some (0x12345678, BROADCAST_ADDR, 0x2A, False, Some \<lparr> portnum = PORT_TEXT, payload = [0x48, 0x69] \<rparr>)"
  "map_option (\<lambda>p. (encrypted p, encrypted_len p, data p)) (try_parse_packet [0x2A, 0x03, 0xAA, 0xBB, 0xCC]) =
   Some (True, 3, None)"
  "parse_packet [] = Inl Empty"
  "try_parse_packet [0xFF, 0xFF, 0xFF] = None"
  "parse_packet [0x22, 0x00, 0x2A, 0x01, 0x00] = Inl BothDecodedAndEncrypted"
  by code_simp+

end
