(* ===== verification/Settings.thy ===== *)
theory Settings
  imports Mesh_Prelude
begin

text \<open>
  The tunable parameters, \<open>crates/mesh-node/src/settings.rs\<close>: the key table, clamping reads and
  writes by key, and the 13-byte record. Keys are strings; \<open>i64\<close> values are integers, which no
  operation here takes out of range.
\<close>

section \<open>The parameters\<close>

record settings =
  tx_power_dbm :: u8
  max_tx :: u8
  ack_wait_s :: u8
  relay_ttl_ms :: u16
  relay_jitter_ms :: u16
  cad_attempts :: u8

definition Settings_default :: settings where
  "Settings_default = \<lparr> tx_power_dbm = 2, max_tx = 3, ack_wait_s = 12, relay_ttl_ms = 8000,
     relay_jitter_ms = 100, cad_attempts = 5 \<rparr>"

record key_meta =
  km_key :: string
  km_min :: u32
  km_max :: u32
  km_readonly :: bool
  km_rf :: bool

definition KEYS :: "key_meta list" where
  "KEYS = [
     \<lparr> km_key = ''tx_power'', km_min = 2, km_max = 2, km_readonly = True, km_rf = True \<rparr>,
     \<lparr> km_key = ''max_tx'', km_min = 1, km_max = 10, km_readonly = False, km_rf = False \<rparr>,
     \<lparr> km_key = ''ack_wait'', km_min = 1, km_max = 60, km_readonly = False, km_rf = False \<rparr>,
     \<lparr> km_key = ''relay_ttl'', km_min = 1000, km_max = 60000, km_readonly = False, km_rf = False \<rparr>,
     \<lparr> km_key = ''relay_jitter'', km_min = 20, km_max = 300, km_readonly = False, km_rf = False \<rparr>,
     \<lparr> km_key = ''cad_attempts'', km_min = 1, km_max = 10, km_readonly = False, km_rf = False \<rparr>,
     \<lparr> km_key = ''sync_word'', km_min = 18, km_max = 18, km_readonly = True, km_rf = True \<rparr>]"

definition SETTINGS_MAGIC :: bytes where "SETTINGS_MAGIC = [0x4C, 0x53, 0x45, 0x54]"
definition SETTINGS_VERSION :: u8 where "SETTINGS_VERSION = 1"
definition SETTINGS_LEN :: nat where "SETTINGS_LEN = 13"

definition clamp_u32 :: "u32 \<Rightarrow> u32 \<Rightarrow> u32 \<Rightarrow> u32 \<times> bool" where
  "clamp_u32 v mn mx = (if v < mn then (mn, True) else if v > mx then (mx, True) else (v, False))"

section \<open>Access by key\<close>

definition Settings_meta :: "string \<Rightarrow> key_meta option" where
  "Settings_meta key = find (\<lambda>m. km_key m = key) KEYS"

definition Settings_value :: "settings \<Rightarrow> string \<Rightarrow> u32 option" where
  "Settings_value s key =
     (if key = ''tx_power'' then Some (ucast (tx_power_dbm s))
      else if key = ''max_tx'' then Some (ucast (max_tx s))
      else if key = ''ack_wait'' then Some (ucast (ack_wait_s s))
      else if key = ''relay_ttl'' then Some (ucast (relay_ttl_ms s))
      else if key = ''relay_jitter'' then Some (ucast (relay_jitter_ms s))
      else if key = ''cad_attempts'' then Some (ucast (cad_attempts s))
      else if key = ''sync_word'' then Some 0x12
      else None)"

definition clamp_int :: "int \<Rightarrow> int \<Rightarrow> int \<Rightarrow> int" where
  "clamp_int v mn mx = (if v < mn then mn else if v > mx then mx else v)"

definition Settings_set :: "settings \<Rightarrow> string \<Rightarrow> int \<Rightarrow> (unit + bool) \<times> settings" where
  "Settings_set s key val =
     (case Settings_meta key of
        None \<Rightarrow> (Inl (), s)
      | Some m \<Rightarrow>
          if km_readonly m then (Inl (), s)
          else
            let v = word_of_int (clamp_int val (uint (km_min m)) (uint (km_max m))) :: u32;
                r = (Inr (uint v \<noteq> val) :: unit + bool) in
            if key = ''tx_power'' then (r, s\<lparr> tx_power_dbm := ucast v \<rparr>)
            else if key = ''max_tx'' then (r, s\<lparr> max_tx := ucast v \<rparr>)
            else if key = ''ack_wait'' then (r, s\<lparr> ack_wait_s := ucast v \<rparr>)
            else if key = ''relay_ttl'' then (r, s\<lparr> relay_ttl_ms := ucast v \<rparr>)
            else if key = ''relay_jitter'' then (r, s\<lparr> relay_jitter_ms := ucast v \<rparr>)
            else if key = ''cad_attempts'' then (r, s\<lparr> cad_attempts := ucast v \<rparr>)
            else (Inl (), s))"

definition clamp_all :: "settings \<Rightarrow> bool \<times> settings" where
  "clamp_all s =
     (let changed = False;
          (v, c) = clamp_u32 (ucast (tx_power_dbm s)) 2 2;
          s = s\<lparr> tx_power_dbm := ucast v \<rparr>; changed = (changed \<or> c);
          (v, c) = clamp_u32 (ucast (max_tx s)) 1 10;
          s = s\<lparr> max_tx := ucast v \<rparr>; changed = (changed \<or> c);
          (v, c) = clamp_u32 (ucast (ack_wait_s s)) 1 60;
          s = s\<lparr> ack_wait_s := ucast v \<rparr>; changed = (changed \<or> c);
          (v, c) = clamp_u32 (ucast (relay_ttl_ms s)) 1000 60000;
          s = s\<lparr> relay_ttl_ms := ucast v \<rparr>; changed = (changed \<or> c);
          (v, c) = clamp_u32 (ucast (relay_jitter_ms s)) 20 300;
          s = s\<lparr> relay_jitter_ms := ucast v \<rparr>; changed = (changed \<or> c);
          (v, c) = clamp_u32 (ucast (cad_attempts s)) 1 10;
          s = s\<lparr> cad_attempts := ucast v \<rparr>; changed = (changed \<or> c)
      in (changed, s))"

section \<open>The record\<close>

definition Settings_encode :: "settings \<Rightarrow> bytes" where
  "Settings_encode s =
     (let out = replicate SETTINGS_LEN 0;
          out = put_at 0 SETTINGS_MAGIC out;
          out = out[4 := SETTINGS_VERSION];
          out = out[5 := tx_power_dbm s];
          out = out[6 := max_tx s];
          out = out[7 := ack_wait_s s];
          out = put_at 8 (be16 (relay_ttl_ms s)) out;
          out = put_at 10 (be16 (relay_jitter_ms s)) out;
          out = out[12 := cad_attempts s]
      in out)"

definition Settings_decode :: "bytes \<Rightarrow> settings option" where
  "Settings_decode b =
     (if length b \<noteq> SETTINGS_LEN then None
      else if bslice 0 4 b \<noteq> SETTINGS_MAGIC \<or> b ! 4 \<noteq> SETTINGS_VERSION then None
      else
        let s = \<lparr> tx_power_dbm = b ! 5, max_tx = b ! 6, ack_wait_s = b ! 7,
                  relay_ttl_ms = of_be [b ! 8, b ! 9], relay_jitter_ms = of_be [b ! 10, b ! 11],
                  cad_attempts = b ! 12 \<rparr>
        in Some (snd (clamp_all s)))"

section \<open>Ranges\<close>

definition in_range :: "settings \<Rightarrow> bool" where
  "in_range s \<longleftrightarrow>
     (\<forall>m \<in> set KEYS. \<exists>v. Settings_value s (km_key m) = Some v \<and> km_min m \<le> v \<and> v \<le> km_max m)"

lemma unat_ucast_u8 [simp]: "unat (ucast (x :: u8) :: u32) = unat x"
  using unat_u8_less [of x] by (simp add: unsigned_ucast_eq take_bit_nat_eq_self)

lemma unat_ucast_u16 [simp]: "unat (ucast (x :: u16) :: u32) = unat x"
  using unat_u16_less [of x] by (simp add: unsigned_ucast_eq take_bit_nat_eq_self)

lemma in_range_fields:
  "in_range s \<longleftrightarrow> unat (tx_power_dbm s) = 2 \<and> 1 \<le> unat (max_tx s) \<and> unat (max_tx s) \<le> 10 \<and>
     1 \<le> unat (ack_wait_s s) \<and> unat (ack_wait_s s) \<le> 60 \<and>
     1000 \<le> unat (relay_ttl_ms s) \<and> unat (relay_ttl_ms s) \<le> 60000 \<and>
     20 \<le> unat (relay_jitter_ms s) \<and> unat (relay_jitter_ms s) \<le> 300 \<and>
     1 \<le> unat (cad_attempts s) \<and> unat (cad_attempts s) \<le> 10"
  by (auto simp: in_range_def KEYS_def Settings_value_def word_le_nat_alt)

text \<open>Clamping through the wider type, on one field.\<close>

definition clamped :: "nat \<Rightarrow> nat \<Rightarrow> nat \<Rightarrow> nat" where
  "clamped v mn mx = (if v < mn then mn else if v > mx then mx else v)"

lemma clamped_range: "mn \<le> mx \<Longrightarrow> mn \<le> clamped v mn mx \<and> clamped v mn mx \<le> mx"
  by (simp add: clamped_def)

lemma clamp_u32_unat:
  "unat (fst (clamp_u32 v mn mx)) = clamped (unat v) (unat mn) (unat mx)"
  "snd (clamp_u32 v mn mx) \<longleftrightarrow> clamped (unat v) (unat mn) (unat mx) \<noteq> unat v"
  by (auto simp: clamp_u32_def clamped_def word_less_nat_alt)

lemma unat_down8: "unat (w :: u32) < 256 \<Longrightarrow> unat (ucast w :: u8) = unat w"
  by (simp add: unsigned_ucast_eq take_bit_nat_eq_self)

lemma unat_down16: "unat (w :: u32) < 65536 \<Longrightarrow> unat (ucast w :: u16) = unat w"
  by (simp add: unsigned_ucast_eq take_bit_nat_eq_self)

lemma clamp_field8:
  "unat mn \<le> unat mx \<Longrightarrow> unat mx < 256 \<Longrightarrow>
   unat (ucast (fst (clamp_u32 (ucast (x :: u8)) mn mx)) :: u8) = clamped (unat x) (unat mn) (unat mx)"
  using clamped_range [of "unat mn" "unat mx" "unat x"]
  by (subst unat_down8) (simp_all add: clamp_u32_unat)

lemma clamp_field16:
  "unat mn \<le> unat mx \<Longrightarrow> unat mx < 65536 \<Longrightarrow>
   unat (ucast (fst (clamp_u32 (ucast (x :: u16)) mn mx)) :: u16) = clamped (unat x) (unat mn) (unat mx)"
  using clamped_range [of "unat mn" "unat mx" "unat x"]
  by (subst unat_down16) (simp_all add: clamp_u32_unat)

lemma clamp_all_fields:
  "unat (tx_power_dbm (snd (clamp_all s))) = 2"
  "unat (max_tx (snd (clamp_all s))) = clamped (unat (max_tx s)) 1 10"
  "unat (ack_wait_s (snd (clamp_all s))) = clamped (unat (ack_wait_s s)) 1 60"
  "unat (relay_ttl_ms (snd (clamp_all s))) = clamped (unat (relay_ttl_ms s)) 1000 60000"
  "unat (relay_jitter_ms (snd (clamp_all s))) = clamped (unat (relay_jitter_ms s)) 20 300"
  "unat (cad_attempts (snd (clamp_all s))) = clamped (unat (cad_attempts s)) 1 10"
proof -
  have two: "clamped n 2 2 = 2" for n by (simp add: clamped_def)
  show "unat (tx_power_dbm (snd (clamp_all s))) = 2"
    "unat (max_tx (snd (clamp_all s))) = clamped (unat (max_tx s)) 1 10"
    "unat (ack_wait_s (snd (clamp_all s))) = clamped (unat (ack_wait_s s)) 1 60"
    "unat (relay_ttl_ms (snd (clamp_all s))) = clamped (unat (relay_ttl_ms s)) 1000 60000"
    "unat (relay_jitter_ms (snd (clamp_all s))) = clamped (unat (relay_jitter_ms s)) 20 300"
    "unat (cad_attempts (snd (clamp_all s))) = clamped (unat (cad_attempts s)) 1 10"
    by (simp_all add: clamp_all_def Let_def split_def clamp_field8 clamp_field16 two)
qed

lemma clamp_all_in_range: "in_range (snd (clamp_all s))"
  using clamped_range by (simp add: in_range_fields clamp_all_fields)

lemma settings_eqI:
  "unat (tx_power_dbm s) = unat (tx_power_dbm t) \<Longrightarrow> unat (max_tx s) = unat (max_tx t) \<Longrightarrow>
   unat (ack_wait_s s) = unat (ack_wait_s t) \<Longrightarrow> unat (relay_ttl_ms s) = unat (relay_ttl_ms t) \<Longrightarrow>
   unat (relay_jitter_ms s) = unat (relay_jitter_ms t) \<Longrightarrow>
   unat (cad_attempts s) = unat (cad_attempts t) \<Longrightarrow> s = (t :: settings)"
  by (cases s; cases t) (simp add: word_unat_eq_iff)

lemma clamp_all_id: "in_range s \<Longrightarrow> snd (clamp_all s) = s"
  by (rule settings_eqI) (auto simp: clamp_all_fields in_range_fields clamped_def)

lemma clamp_all_flag: "fst (clamp_all s) \<longleftrightarrow> snd (clamp_all s) \<noteq> s"
proof -
  have "fst (clamp_all s) \<longleftrightarrow> \<not> in_range s"
    by (auto simp: clamp_all_def Let_def split_def clamp_u32_unat in_range_fields clamped_def)
  then show ?thesis using clamp_all_id clamp_all_in_range by metis
qed

section \<open>The record codec\<close>

lemma Settings_encode_eq:
  "Settings_encode s = SETTINGS_MAGIC @ [SETTINGS_VERSION, tx_power_dbm s, max_tx s, ack_wait_s s] @
     be16 (relay_ttl_ms s) @ be16 (relay_jitter_ms s) @ [cad_attempts s]"
  by (simp add: Settings_encode_def Let_def SETTINGS_LEN_def SETTINGS_MAGIC_def put_at_def be_expand
      numeral_eq_Suc)

lemma Settings_decode_encode: "Settings_decode (Settings_encode s) = Some (snd (clamp_all s))"
proof -
  have 2: "[be16 w ! 0, be16 w ! 1] = be16 w" for w :: u16
    by (simp add: be_expand)
  show ?thesis
    using 2 [of "relay_ttl_ms s"] 2 [of "relay_jitter_ms s"]
    by (cases s) (simp add: Settings_decode_def Settings_encode_eq SETTINGS_LEN_def SETTINGS_MAGIC_def
        bslice_def nth_append Let_def)
qed

interpretation sc: codec Settings_encode Settings_decode in_range
  by unfold_locales (simp add: Settings_decode_encode clamp_all_id)

section \<open>Writing by key\<close>

lemma clamp_int_word:
  assumes "0 \<le> mn" and "mn \<le> mx" and "mx < 2 ^ 32"
  shows "uint (word_of_int (clamp_int v mn mx) :: u32) = clamp_int v mn mx"
proof -
  have "0 \<le> clamp_int v mn mx" "clamp_int v mn mx < 2 ^ 32"
    using assms by (auto simp: clamp_int_def)
  then show ?thesis by (simp add: unsigned_of_int take_bit_int_eq_self)
qed

lemma u32_via_u8: "uint (v :: u32) < 256 \<Longrightarrow> ucast (ucast v :: u8) = v"
proof -
  assume "uint v < 256"
  then have "unat v < 256" by (simp only: uint_nat of_nat_less_numeral_iff)
  then have "unat (ucast (ucast v :: u8) :: u32) = unat v" by (simp add: unat_down8)
  then show ?thesis by (simp only: word_unat_eq_iff)
qed

lemma u32_via_u16: "uint (v :: u32) < 65536 \<Longrightarrow> ucast (ucast v :: u16) = v"
proof -
  assume "uint v < 65536"
  then have "unat v < 65536" by (simp only: uint_nat of_nat_less_numeral_iff)
  then have "unat (ucast (ucast v :: u16) :: u32) = unat v" by (simp add: unat_down16)
  then show ?thesis by (simp only: word_unat_eq_iff)
qed

lemma clamp_int_le: "mn \<le> mx \<Longrightarrow> mx < n \<Longrightarrow> clamp_int v mn mx < n"
  by (simp add: clamp_int_def)

lemma clamp_int_back8:
  assumes "0 \<le> mn" and "mn \<le> mx" and "mx < 256"
  shows "ucast (ucast (word_of_int (clamp_int v mn mx) :: u32) :: u8) =
    (word_of_int (clamp_int v mn mx) :: u32)"
  using assms by (intro u32_via_u8) (simp add: clamp_int_word clamp_int_le)

lemma clamp_int_back16:
  assumes "0 \<le> mn" and "mn \<le> mx" and "mx < 65536"
  shows "ucast (ucast (word_of_int (clamp_int v mn mx) :: u32) :: u16) =
    (word_of_int (clamp_int v mn mx) :: u32)"
  using assms by (intro u32_via_u16) (simp add: clamp_int_word clamp_int_le)

text \<open>The keys that can be written.\<close>

lemma Settings_meta_writable:
  "Settings_meta ''max_tx'' = Some \<lparr> km_key = ''max_tx'', km_min = 1, km_max = 10, km_readonly = False, km_rf = False \<rparr>"
  "Settings_meta ''ack_wait'' = Some \<lparr> km_key = ''ack_wait'', km_min = 1, km_max = 60, km_readonly = False, km_rf = False \<rparr>"
  "Settings_meta ''relay_ttl'' = Some \<lparr> km_key = ''relay_ttl'', km_min = 1000, km_max = 60000, km_readonly = False, km_rf = False \<rparr>"
  "Settings_meta ''relay_jitter'' = Some \<lparr> km_key = ''relay_jitter'', km_min = 20, km_max = 300, km_readonly = False, km_rf = False \<rparr>"
  "Settings_meta ''cad_attempts'' = Some \<lparr> km_key = ''cad_attempts'', km_min = 1, km_max = 10, km_readonly = False, km_rf = False \<rparr>"
  by (simp_all add: Settings_meta_def KEYS_def)

lemma Settings_set_eqs:
  "Settings_set s ''max_tx'' val = (let v = word_of_int (clamp_int val 1 10) :: u32
     in (Inr (uint v \<noteq> val), s\<lparr> max_tx := ucast v \<rparr>))"
  "Settings_set s ''ack_wait'' val = (let v = word_of_int (clamp_int val 1 60) :: u32
     in (Inr (uint v \<noteq> val), s\<lparr> ack_wait_s := ucast v \<rparr>))"
  "Settings_set s ''relay_ttl'' val = (let v = word_of_int (clamp_int val 1000 60000) :: u32
     in (Inr (uint v \<noteq> val), s\<lparr> relay_ttl_ms := ucast v \<rparr>))"
  "Settings_set s ''relay_jitter'' val = (let v = word_of_int (clamp_int val 20 300) :: u32
     in (Inr (uint v \<noteq> val), s\<lparr> relay_jitter_ms := ucast v \<rparr>))"
  "Settings_set s ''cad_attempts'' val = (let v = word_of_int (clamp_int val 1 10) :: u32
     in (Inr (uint v \<noteq> val), s\<lparr> cad_attempts := ucast v \<rparr>))"
  by (simp_all add: Settings_set_def Settings_meta_writable Let_def)

lemma Settings_value_upd:
  "uint v < 256 \<Longrightarrow>
     Settings_value (s\<lparr> max_tx := ucast v \<rparr>) = (Settings_value s)(''max_tx'' \<mapsto> v)"
  "uint v < 256 \<Longrightarrow>
     Settings_value (s\<lparr> ack_wait_s := ucast v \<rparr>) = (Settings_value s)(''ack_wait'' \<mapsto> v)"
  "uint v < 65536 \<Longrightarrow>
     Settings_value (s\<lparr> relay_ttl_ms := ucast v \<rparr>) = (Settings_value s)(''relay_ttl'' \<mapsto> v)"
  "uint v < 65536 \<Longrightarrow>
     Settings_value (s\<lparr> relay_jitter_ms := ucast v \<rparr>) = (Settings_value s)(''relay_jitter'' \<mapsto> v)"
  "uint v < 256 \<Longrightarrow>
     Settings_value (s\<lparr> cad_attempts := ucast v \<rparr>) = (Settings_value s)(''cad_attempts'' \<mapsto> v)"
  by (simp_all add: fun_eq_iff Settings_value_def u32_via_u8 u32_via_u16)

definition stored_by_key :: "settings \<Rightarrow> string \<Rightarrow> int \<Rightarrow> bool" where
  "stored_by_key s key val \<longleftrightarrow>
     (\<exists>m v t. Settings_set s key val = (Inr (uint v \<noteq> val), t) \<and>
        Settings_meta key = Some m \<and> \<not> km_readonly m \<and>
        uint v = clamp_int val (uint (km_min m)) (uint (km_max m)) \<and>
        Settings_value t = (Settings_value s)(key \<mapsto> v))"

lemma stored_by_keyI:
  assumes "Settings_set s key val = (let v = word_of_int (clamp_int val lo hi) :: u32
      in (Inr (uint v \<noteq> val), upd v))"
    and "Settings_meta key = Some m" and "\<not> km_readonly m"
    and "uint (km_min m) = lo" and "uint (km_max m) = hi" and "lo \<le> hi"
    and "\<And>v. uint v \<le> hi \<Longrightarrow> Settings_value (upd v) = (Settings_value s)(key \<mapsto> v)"
  shows "stored_by_key s key val"
proof -
  define v where "v = (word_of_int (clamp_int val lo hi) :: u32)"
  have "0 \<le> lo" "hi < 2 ^ 32"
    using assms(4) [symmetric] assms(5) [symmetric] uint_bounded [of "km_max m"] by simp_all
  then have "uint v = clamp_int val lo hi"
    unfolding v_def using \<open>lo \<le> hi\<close> by (intro clamp_int_word)
  moreover from this have "uint v \<le> hi" using \<open>lo \<le> hi\<close> by (simp add: clamp_int_def)
  moreover have "Settings_set s key val = (Inr (uint v \<noteq> val), upd v)"
    by (simp add: assms(1) Let_def v_def)
  ultimately show ?thesis
    unfolding stored_by_key_def using assms by blast
qed

lemma Settings_set_writable:
  assumes "key = ''max_tx'' \<or> key = ''ack_wait'' \<or> key = ''relay_ttl'' \<or> key = ''relay_jitter'' \<or>
    key = ''cad_attempts''"
  shows "stored_by_key s key val"
proof -
  consider "key = ''max_tx''" | "key = ''ack_wait''" | "key = ''relay_ttl''"
    | "key = ''relay_jitter''" | "key = ''cad_attempts''"
    using assms by (elim disjE)
  then show ?thesis
  proof cases
    case 1
    show ?thesis unfolding 1
      by (rule stored_by_keyI [where upd = "\<lambda>v. s\<lparr> max_tx := ucast v \<rparr>",
            OF Settings_set_eqs(1) Settings_meta_writable(1)])
        (simp_all add: Settings_value_upd(1))
  next
    case 2
    show ?thesis unfolding 2
      by (rule stored_by_keyI [where upd = "\<lambda>v. s\<lparr> ack_wait_s := ucast v \<rparr>",
            OF Settings_set_eqs(2) Settings_meta_writable(2)])
        (simp_all add: Settings_value_upd(2))
  next
    case 3
    show ?thesis unfolding 3
      by (rule stored_by_keyI [where upd = "\<lambda>v. s\<lparr> relay_ttl_ms := ucast v \<rparr>",
            OF Settings_set_eqs(3) Settings_meta_writable(3)])
        (simp_all add: Settings_value_upd(3))
  next
    case 4
    show ?thesis unfolding 4
      by (rule stored_by_keyI [where upd = "\<lambda>v. s\<lparr> relay_jitter_ms := ucast v \<rparr>",
            OF Settings_set_eqs(4) Settings_meta_writable(4)])
        (simp_all add: Settings_value_upd(4))
  next
    case 5
    show ?thesis unfolding 5
      by (rule stored_by_keyI [where upd = "\<lambda>v. s\<lparr> cad_attempts := ucast v \<rparr>",
            OF Settings_set_eqs(5) Settings_meta_writable(5)])
        (simp_all add: Settings_value_upd(5))
  qed
qed

lemma Settings_set_refused:
  assumes "\<not> (key = ''max_tx'' \<or> key = ''ack_wait'' \<or> key = ''relay_ttl'' \<or> key = ''relay_jitter'' \<or>
    key = ''cad_attempts'')"
  shows "Settings_set s key val = (Inl (), s) \<and> (\<forall>m. Settings_meta key = Some m \<longrightarrow> km_readonly m)"
  using assms by (auto simp: Settings_set_def Settings_meta_def KEYS_def)

lemma Settings_set_cases:
  obtains (refused) "Settings_set s key val = (Inl (), s)" "\<forall>m. Settings_meta key = Some m \<longrightarrow> km_readonly m"
  | (stored) m v t where "Settings_set s key val = (Inr (uint v \<noteq> val), t)"
      "Settings_meta key = Some m" "\<not> km_readonly m"
      "uint v = clamp_int val (uint (km_min m)) (uint (km_max m))"
      "Settings_value t = (Settings_value s)(key \<mapsto> v)"
  using Settings_set_writable [of key s val] Settings_set_refused [of key s val]
  unfolding stored_by_key_def by metis

section \<open>Properties\<close>


text \<open>Writing a parameter by key refuses exactly unknown and read-only keys and then changes
  nothing; otherwise it stores the value clamped into the key's range, leaves every other key's
  value as it was, and reports whether it had to clamp.\<close>

theorem settings_set_by_key:
  "case Settings_set s key val of
     (Inl _, t) \<Rightarrow> t = s \<and>
       (case Settings_meta key of None \<Rightarrow> True | Some m \<Rightarrow> km_readonly m)
   | (Inr c, t) \<Rightarrow>
       (\<exists>m v. Settings_meta key = Some m \<and> \<not> km_readonly m \<and>
          uint v = clamp_int val (uint (km_min m)) (uint (km_max m)) \<and>
          Settings_value t = (Settings_value s)(key \<mapsto> v) \<and> c = (uint v \<noteq> val))"
  by (cases rule: Settings_set_cases [of s key val]) (auto split: option.split)

end
