(* ===== verification/Persist.thy ===== *)
theory Persist
  imports Security
begin

text \<open>
  The durable node record, \<open>crates/mesh-node/src/persist.rs\<close>: the fixed big-endian layout,
  its strict decoder with the three accepted versions, and migration. The three structs with
  the same fields (\<open>PersistView\<close>, \<open>OwnedView\<close>, \<open>Decoded\<close>) are one record; a fixed-size array is a
  list whose length the well-formedness predicate states.
\<close>

section \<open>Constants and types\<close>

definition MAX_CONTACTS :: nat where "MAX_CONTACTS = 16"
definition PERSIST_MAGIC :: bytes where "PERSIST_MAGIC = [0x4C, 0x4D, 0x53, 0x48]"
definition PERSIST_VERSION :: u8 where "PERSIST_VERSION = 3"
definition CONTACT_BYTES :: nat where
  "CONTACT_BYTES = 1 + 1 + 32 + 8 + 32 + 1 + 8 + 8 + 4 + 4 + 12 + 3 * 17 + 3 * 17"
definition PERSIST_V2_LEN :: nat where
  "PERSIST_V2_LEN = 4 + 1 + 1 + 1 + 8 + 1 + 8 + 4 + 1 + 32 + 2 * CONTACT_BYTES"
definition PERSIST_LEN :: nat where
  "PERSIST_LEN = 4 + 1 + 1 + 1 + 8 + 1 + 8 + 4 + 1 + 32 + MAX_CONTACTS * CONTACT_BYTES"
definition KEY_SETTINGS :: u8 where "KEY_SETTINGS = 0x02"
definition KEY_WIFI :: u8 where "KEY_WIFI = 0x03"

type_synonym win_triple = "u64 \<times> u64 \<times> bool"

record persist_contact =
  pc_present :: bool
  pc_blocked :: bool
  pc_ed_peer :: bytes
  pc_peer_identity :: bytes
  pc_root :: bytes
  pc_role :: u8
  pc_tx_next :: u64
  pc_tx_reserved :: u64
  pc_tx_epoch_max :: u32
  pc_anchor :: u32
  pc_win_epochs :: "u32 list"
  pc_win_data :: "win_triple list"
  pc_win_ack :: "win_triple list"

definition PersistContact_empty :: persist_contact where
  "PersistContact_empty = \<lparr>
     pc_present = False, pc_blocked = False, pc_ed_peer = replicate 32 0,
     pc_peer_identity = replicate 8 0, pc_root = replicate 32 0, pc_role = 0,
     pc_tx_next = 0, pc_tx_reserved = 0, pc_tx_epoch_max = 0, pc_anchor = 0,
     pc_win_epochs = replicate 3 0, pc_win_data = replicate 3 (0, 0, True),
     pc_win_ack = replicate 3 (0, 0, True) \<rparr>"

record persist_view =
  pv_provisioned :: bool
  pv_label :: u8
  pv_uid :: bytes
  pv_uid_set :: bool
  pv_unix_seconds :: u64
  pv_persisted_tx_epoch :: u32
  pv_armed_next_boot :: bool
  pv_sign_priv :: bytes
  pv_sign_set :: bool
  pv_contacts :: "persist_contact list"

definition PersistView_new ::
  "bool \<Rightarrow> u8 \<Rightarrow> bytes \<Rightarrow> bool \<Rightarrow> u64 \<Rightarrow> u32 \<Rightarrow> bytes \<Rightarrow> bool \<Rightarrow> persist_contact list \<Rightarrow> persist_view"
  where
  "PersistView_new provisioned label uid uid_set unix_seconds persisted_tx_epoch sign_priv
     sign_set contacts = \<lparr>
       pv_provisioned = provisioned, pv_label = label, pv_uid = uid, pv_uid_set = uid_set,
       pv_unix_seconds = unix_seconds, pv_persisted_tx_epoch = persisted_tx_epoch,
       pv_armed_next_boot = False, pv_sign_priv = sign_priv, pv_sign_set = sign_set,
       pv_contacts = contacts \<rparr>"

datatype persist_error = PBadLength | PBadMagic | PBadVersion

section \<open>Writing\<close>

text \<open>A writer works on the buffer and the position the code keeps in \<open>pos\<close>.\<close>

type_synonym writer = "bytes \<times> nat \<Rightarrow> bytes \<times> nat"

definition w8 :: "u8 \<Rightarrow> writer" where
  "w8 v = (\<lambda>(out, pos). (put_at pos [v] out, pos + 1))"

definition w32 :: "u32 \<Rightarrow> writer" where
  "w32 v = (\<lambda>(out, pos). (put_at pos (be32 v) out, pos + 4))"

definition w64 :: "u64 \<Rightarrow> writer" where
  "w64 v = (\<lambda>(out, pos). (put_at pos (be64 v) out, pos + 8))"

definition wbytes :: "bytes \<Rightarrow> writer" where
  "wbytes b = (\<lambda>(out, pos). (put_at pos b out, pos + length b))"

definition bool_u8 :: "bool \<Rightarrow> u8" where
  "bool_u8 b = (if b then 1 else 0)"

definition window_writers :: "win_triple \<Rightarrow> writer list" where
  "window_writers = (\<lambda>(h, b, e). [w64 h, w64 b, w8 (bool_u8 e)])"

definition contact_writers :: "persist_contact \<Rightarrow> writer list" where
  "contact_writers c =
     [w8 (bool_u8 (pc_present c)), w8 (bool_u8 (pc_blocked c)), wbytes (pc_ed_peer c),
      wbytes (pc_peer_identity c), wbytes (pc_root c), w8 (pc_role c), w64 (pc_tx_next c),
      w64 (pc_tx_reserved c), w32 (pc_tx_epoch_max c), w32 (pc_anchor c)] @
     map w32 (pc_win_epochs c) @
     concat (map window_writers (pc_win_data c)) @
     concat (map window_writers (pc_win_ack c))"

definition view_writers :: "persist_view \<Rightarrow> writer list" where
  "view_writers v =
     [wbytes PERSIST_MAGIC, w8 PERSIST_VERSION,
      w8 (bool_u8 (pv_provisioned v) OR push_bit 1 (bool_u8 (pv_armed_next_boot v))),
      w8 (pv_label v), wbytes (pv_uid v), w8 (bool_u8 (pv_uid_set v)), w64 (pv_unix_seconds v),
      w32 (pv_persisted_tx_epoch v), w8 (bool_u8 (pv_sign_set v)), wbytes (pv_sign_priv v)] @
     concat (map contact_writers (pv_contacts v))"

definition encode_into :: "persist_view \<Rightarrow> bytes \<Rightarrow> nat \<times> bytes" where
  "encode_into v out =
     (let (out, p) = fold (\<lambda>w s. w s) (view_writers v) (out, 0) in (p, out))"

definition encode_persist :: "persist_view \<Rightarrow> bytes \<times> nat" where
  "encode_persist v = (let (n, out) = encode_into v (replicate PERSIST_LEN 0) in (out, n))"

section \<open>Reading\<close>

text \<open>A reader returns its value and the position after it.\<close>

definition r8 :: "bytes \<Rightarrow> nat \<Rightarrow> persist_error + (u8 \<times> nat)" where
  "r8 inp pos = (if pos < length inp then Inr (inp ! pos, pos + 1) else Inl PBadLength)"

definition rbytes :: "nat \<Rightarrow> bytes \<Rightarrow> nat \<Rightarrow> persist_error + (bytes \<times> nat)" where
  "rbytes n inp pos =
     (if pos + n \<le> length inp then Inr (bslice pos (pos + n) inp, pos + n) else Inl PBadLength)"

definition r32 :: "bytes \<Rightarrow> nat \<Rightarrow> persist_error + (u32 \<times> nat)" where
  "r32 inp pos = rbind (rbytes 4 inp pos) (\<lambda>(b, pos). Inr (of_be b, pos))"

definition r64 :: "bytes \<Rightarrow> nat \<Rightarrow> persist_error + (u64 \<times> nat)" where
  "r64 inp pos = rbind (rbytes 8 inp pos) (\<lambda>(b, pos). Inr (of_be b, pos))"

fun r_epochs :: "nat \<Rightarrow> bytes \<Rightarrow> nat \<Rightarrow> persist_error + (u32 list \<times> nat)" where
  "r_epochs 0 inp p = Inr ([], p)"
| "r_epochs (Suc n) inp p =
     rbind (r32 inp p) (\<lambda>(e, p). rbind (r_epochs n inp p) (\<lambda>(es, p). Inr (e # es, p)))"

fun r_windows :: "nat \<Rightarrow> bytes \<Rightarrow> nat \<Rightarrow> persist_error + (win_triple list \<times> nat)" where
  "r_windows 0 inp p = Inr ([], p)"
| "r_windows (Suc n) inp p =
     rbind (r64 inp p) (\<lambda>(h, p). rbind (r64 inp p) (\<lambda>(b, p). rbind (r8 inp p) (\<lambda>(eb, p).
       let e = eb \<noteq> 0 in
       if e \<and> (h \<noteq> 0 \<or> b \<noteq> 0) then Inl PBadVersion
       else if \<not> e \<and> b = 0 then Inl PBadVersion
       else rbind (r_windows n inp p) (\<lambda>(ws, p). Inr ((h, b, e) # ws, p)))))"

text \<open>One turn of the loop over the contact slots.\<close>

definition r_contact :: "bytes \<Rightarrow> nat \<Rightarrow> persist_error + (persist_contact \<times> nat)" where
  "r_contact inp p =
     rbind (r8 inp p) (\<lambda>(present, p).
     rbind (r8 inp p) (\<lambda>(blocked, p).
     rbind (rbytes 32 inp p) (\<lambda>(ed_peer, p).
     rbind (rbytes 8 inp p) (\<lambda>(peer_identity, p).
     rbind (rbytes 32 inp p) (\<lambda>(root, p).
     rbind (r8 inp p) (\<lambda>(role, p).
     if role > 1 then Inl PBadVersion else
     rbind (r64 inp p) (\<lambda>(tx_next, p).
     rbind (r64 inp p) (\<lambda>(tx_reserved, p).
     if tx_reserved < tx_next then Inl PBadVersion else
     rbind (r32 inp p) (\<lambda>(tx_epoch_max, p).
     rbind (r32 inp p) (\<lambda>(anchor, p).
     rbind (r_epochs 3 inp p) (\<lambda>(win_epochs, p).
     rbind (r_windows 3 inp p) (\<lambda>(win_data, p).
     rbind (r_windows 3 inp p) (\<lambda>(win_ack, p).
     if present = 0 \<and>
        (blocked \<noteq> 0 \<or> ed_peer \<noteq> replicate 32 0 \<or> peer_identity \<noteq> replicate 8 0 \<or>
         root \<noteq> replicate 32 0 \<or> tx_next \<noteq> 0 \<or> tx_reserved \<noteq> 0 \<or> tx_epoch_max \<noteq> 0 \<or>
         anchor \<noteq> 0)
     then Inl PBadVersion
     else Inr (\<lparr> pc_present = present \<noteq> 0, pc_blocked = blocked \<noteq> 0, pc_ed_peer = ed_peer,
                 pc_peer_identity = peer_identity, pc_root = root, pc_role = role,
                 pc_tx_next = tx_next, pc_tx_reserved = tx_reserved,
                 pc_tx_epoch_max = tx_epoch_max, pc_anchor = anchor,
                 pc_win_epochs = win_epochs, pc_win_data = win_data, pc_win_ack = win_ack \<rparr>,
               p))))))))))))))"

fun r_contacts :: "nat \<Rightarrow> bytes \<Rightarrow> nat \<Rightarrow> persist_error + (persist_contact list \<times> nat)" where
  "r_contacts 0 inp p = Inr ([], p)"
| "r_contacts (Suc n) inp p =
     rbind (r_contact inp p) (\<lambda>(c, p). rbind (r_contacts n inp p) (\<lambda>(cs, p). Inr (c # cs, p)))"

text \<open>\<open>slots\<close> and \<open>full\<close> are what \<open>decode_view\<close> derives from the length of the record.\<close>

definition r_view :: "nat \<Rightarrow> bool \<Rightarrow> bytes \<Rightarrow> nat \<Rightarrow> persist_error + (persist_view \<times> nat)" where
  "r_view slots full b p =
     rbind (rbytes 4 b p) (\<lambda>(magic, p).
     if magic \<noteq> PERSIST_MAGIC then Inl PBadMagic else
     rbind (r8 b p) (\<lambda>(ver, p).
     if full \<noteq> (ver = PERSIST_VERSION) \<or> ver \<noteq> 1 \<and> ver \<noteq> 2 \<and> ver \<noteq> PERSIST_VERSION
     then Inl PBadVersion else
     rbind (r8 b p) (\<lambda>(flags, p).
     if flags AND NOT (if ver = 1 then 1 else 3) \<noteq> 0 then Inl PBadVersion else
     rbind (r8 b p) (\<lambda>(label, p).
     if label > 3 then Inl PBadVersion else
     rbind (rbytes 8 b p) (\<lambda>(uid, p).
     rbind (r8 b p) (\<lambda>(uid_set, p).
     rbind (r64 b p) (\<lambda>(unix_seconds, p).
     rbind (r32 b p) (\<lambda>(persisted_tx_epoch, p).
     rbind (r8 b p) (\<lambda>(sign_set, p).
     rbind (rbytes 32 b p) (\<lambda>(sign_priv, p).
     rbind (r_contacts slots b p) (\<lambda>(cs, p).
     Inr (\<lparr> pv_provisioned = flags AND 1 \<noteq> 0, pv_label = label, pv_uid = uid,
            pv_uid_set = uid_set \<noteq> 0, pv_unix_seconds = unix_seconds,
            pv_persisted_tx_epoch = persisted_tx_epoch,
            pv_armed_next_boot = flags AND 2 \<noteq> 0, pv_sign_priv = sign_priv,
            pv_sign_set = sign_set \<noteq> 0,
            pv_contacts = cs @ replicate (MAX_CONTACTS - slots) PersistContact_empty \<rparr>, p))))))))))))"

definition decode_view :: "bytes \<Rightarrow> persist_error + persist_view" where
  "decode_view b =
     (if length b \<noteq> PERSIST_LEN \<and> length b \<noteq> PERSIST_V2_LEN then Inl PBadLength else
      let slots = (if length b = PERSIST_LEN then MAX_CONTACTS else 2);
          full = (length b = PERSIST_LEN) in
      rbind (r_view slots full b 0) (\<lambda>(v, p).
      if p \<noteq> length b then Inl PBadLength else Inr v))"

definition decode_persist :: "bytes \<Rightarrow> persist_error + persist_view" where
  "decode_persist b = decode_view b"

definition migrate_to_v3 :: "bytes \<Rightarrow> persist_error + bytes" where
  "migrate_to_v3 b = rbind (decode_persist b) (\<lambda>v. Inr (fst (encode_persist v)))"

section \<open>Well-formed records and their bytes\<close>

definition win_ok :: "win_triple \<Rightarrow> bool" where
  "win_ok = (\<lambda>(h, b, e). if e then h = 0 \<and> b = 0 else b \<noteq> 0)"

lemma win_ok_triple [simp]: "win_ok (h, b, e) \<longleftrightarrow> (if e then h = 0 \<and> b = 0 else b \<noteq> 0)"
  by (simp add: win_ok_def)

definition contact_wf :: "persist_contact \<Rightarrow> bool" where
  "contact_wf c \<longleftrightarrow>
     length (pc_ed_peer c) = 32 \<and> length (pc_peer_identity c) = 8 \<and> length (pc_root c) = 32 \<and>
     pc_role c \<le> 1 \<and> pc_tx_next c \<le> pc_tx_reserved c \<and>
     length (pc_win_epochs c) = 3 \<and> length (pc_win_data c) = 3 \<and> length (pc_win_ack c) = 3 \<and>
     list_all win_ok (pc_win_data c) \<and> list_all win_ok (pc_win_ack c) \<and>
     (pc_present c \<or>
      \<not> pc_blocked c \<and> pc_ed_peer c = replicate 32 0 \<and> pc_peer_identity c = replicate 8 0 \<and>
      pc_root c = replicate 32 0 \<and> pc_tx_next c = 0 \<and> pc_tx_reserved c = 0 \<and>
      pc_tx_epoch_max c = 0 \<and> pc_anchor c = 0)"

definition view_wf :: "persist_view \<Rightarrow> bool" where
  "view_wf v \<longleftrightarrow>
     pv_label v \<le> 3 \<and> length (pv_uid v) = 8 \<and> length (pv_sign_priv v) = 32 \<and>
     length (pv_contacts v) = MAX_CONTACTS \<and> list_all contact_wf (pv_contacts v)"

definition window_bytes :: "win_triple \<Rightarrow> bytes" where
  "window_bytes = (\<lambda>(h, b, e). be64 h @ be64 b @ [bool_u8 e])"

definition contact_bytes :: "persist_contact \<Rightarrow> bytes" where
  "contact_bytes c =
     [bool_u8 (pc_present c)] @ [bool_u8 (pc_blocked c)] @ pc_ed_peer c @ pc_peer_identity c @
     pc_root c @ [pc_role c] @ be64 (pc_tx_next c) @ be64 (pc_tx_reserved c) @
     be32 (pc_tx_epoch_max c) @ be32 (pc_anchor c) @ concat (map be32 (pc_win_epochs c)) @
     concat (map window_bytes (pc_win_data c)) @ concat (map window_bytes (pc_win_ack c))"

definition view_head :: "persist_view \<Rightarrow> bytes" where
  "view_head v =
     PERSIST_MAGIC @ [PERSIST_VERSION] @
     [bool_u8 (pv_provisioned v) OR push_bit 1 (bool_u8 (pv_armed_next_boot v))] @
     [pv_label v] @ pv_uid v @ [bool_u8 (pv_uid_set v)] @ be64 (pv_unix_seconds v) @
     be32 (pv_persisted_tx_epoch v) @ [bool_u8 (pv_sign_set v)] @ pv_sign_priv v"

definition view_bytes :: "persist_view \<Rightarrow> bytes" where
  "view_bytes v = view_head v @ concat (map contact_bytes (pv_contacts v))"

lemma length_MAGIC [simp]: "length PERSIST_MAGIC = 4"
  by (simp add: PERSIST_MAGIC_def)

lemma PERSIST_LEN_num: "PERSIST_LEN = 3469" and PERSIST_V2_LEN_num: "PERSIST_V2_LEN = 487"
  by (simp_all add: PERSIST_LEN_def PERSIST_V2_LEN_def CONTACT_BYTES_def MAX_CONTACTS_def)

lemma length_window_bytes [simp]: "length (window_bytes w) = 17"
  by (cases w) (simp add: window_bytes_def)

lemma length_concat_const: "(\<And>x. x \<in> set xs \<Longrightarrow> length (f x) = n) \<Longrightarrow> length (concat (map f xs)) = n * length xs"
  by (induction xs) auto

lemma length_contact_bytes: "contact_wf c \<Longrightarrow> length (contact_bytes c) = 213"
  by (simp add: contact_bytes_def contact_wf_def length_concat_const [where n = 17]
      length_concat_const [where n = 4])

lemma length_view_head: "view_wf v \<Longrightarrow> length (view_head v) = 61"
  by (simp add: view_head_def view_wf_def)

lemma length_view_bytes: "view_wf v \<Longrightarrow> length (view_bytes v) = PERSIST_LEN"
  using length_view_head [of v]
  by (simp add: view_bytes_def view_wf_def list_all_iff length_contact_bytes PERSIST_LEN_num
      length_concat_const [where n = 213] MAX_CONTACTS_def)

text \<open>Every writer appends its bytes.\<close>

lemma writers_wbytes:
  "w8 v = wbytes [v]" "w32 d = wbytes (be32 d)" "w64 q = wbytes (be64 q)"
  by (simp_all add: w8_def w32_def w64_def wbytes_def)

lemma fold_wbytes:
  "fold (\<lambda>w s. w s) (map wbytes bs) (out, p) = (write_all p bs out, p + length (concat bs))"
  by (induction bs arbitrary: out p) (simp_all add: wbytes_def)

lemma contact_writers_wbytes:
  "\<exists>bs. contact_writers c = map wbytes bs \<and> concat bs = contact_bytes c"
proof -
  have win: "concat (map window_writers ws) = map wbytes (concat (map (\<lambda>(h, b, e).
      [be64 h, be64 b, [bool_u8 e]]) ws))" for ws
    by (induction ws) (auto simp: window_writers_def writers_wbytes)
  have winb: "concat (concat (map (\<lambda>(h, b, e). [be64 h, be64 b, [bool_u8 e]]) ws)) =
      concat (map window_bytes ws)" for ws
    by (induction ws) (auto simp: window_bytes_def)
  show ?thesis
    by (rule exI [of _ "[[bool_u8 (pc_present c)], [bool_u8 (pc_blocked c)], pc_ed_peer c,
      pc_peer_identity c, pc_root c, [pc_role c], be64 (pc_tx_next c), be64 (pc_tx_reserved c),
      be32 (pc_tx_epoch_max c), be32 (pc_anchor c)] @ map be32 (pc_win_epochs c) @
      concat (map (\<lambda>(h, b, e). [be64 h, be64 b, [bool_u8 e]]) (pc_win_data c)) @
      concat (map (\<lambda>(h, b, e). [be64 h, be64 b, [bool_u8 e]]) (pc_win_ack c))"])
      (simp add: contact_writers_def contact_bytes_def win winb writers_wbytes)
qed

lemma view_writers_wbytes:
  "\<exists>bs. view_writers v = map wbytes bs \<and> concat bs = view_bytes v"
proof -
  have "\<exists>bs. concat (map contact_writers cs) = map wbytes bs \<and>
      concat bs = concat (map contact_bytes cs)" for cs
  proof (induction cs)
    case (Cons c cs)
    then obtain bs where "concat (map contact_writers cs) = map wbytes bs"
      "concat bs = concat (map contact_bytes cs)" by blast
    moreover obtain as where "contact_writers c = map wbytes as" "concat as = contact_bytes c"
      using contact_writers_wbytes by blast
    ultimately show ?case by (intro exI [of _ "as @ bs"]) simp
  qed simp
  then obtain bs where "concat (map contact_writers (pv_contacts v)) = map wbytes bs"
    "concat bs = concat (map contact_bytes (pv_contacts v))" by blast
  then show ?thesis
    by (intro exI [of _ "[PERSIST_MAGIC, [PERSIST_VERSION],
      [bool_u8 (pv_provisioned v) OR push_bit 1 (bool_u8 (pv_armed_next_boot v))],
      [pv_label v], pv_uid v, [bool_u8 (pv_uid_set v)], be64 (pv_unix_seconds v),
      be32 (pv_persisted_tx_epoch v), [bool_u8 (pv_sign_set v)], pv_sign_priv v] @ bs"])
      (simp add: view_writers_def view_bytes_def view_head_def writers_wbytes)
qed

lemma encode_into_eq:
  assumes "length (view_bytes v) \<le> length out"
  shows "encode_into v out =
    (length (view_bytes v), view_bytes v @ drop (length (view_bytes v)) out)"
proof -
  obtain bs where "view_writers v = map wbytes bs" "concat bs = view_bytes v"
    using view_writers_wbytes by blast
  then show ?thesis
    using assms by (simp add: encode_into_def fold_wbytes write_all_0 [where n = "length (view_bytes v)"])
qed

section \<open>Reading back\<close>

text \<open>\<open>reads f x v\<close>: wherever the bytes \<open>x\<close> stand in a buffer, the reader \<open>f\<close> placed there
  consumes exactly them and returns \<open>v\<close>.\<close>

definition reads :: "(bytes \<Rightarrow> nat \<Rightarrow> 'e + ('a \<times> nat)) \<Rightarrow> bytes \<Rightarrow> 'a \<Rightarrow> bool" where
  "reads f x v \<longleftrightarrow>
     (\<forall>b p r. p \<le> length b \<longrightarrow> drop p b = x @ r \<longrightarrow> f b p = Inr (v, p + length x))"

lemma readsD: "reads f x v \<Longrightarrow> p \<le> length b \<Longrightarrow> drop p b = x @ r \<Longrightarrow> f b p = Inr (v, p + length x)"
  by (simp add: reads_def)

lemma reads_bind:
  assumes "reads f x v" and "reads (g v) y w"
  shows "reads (\<lambda>b p. rbind (f b p) (\<lambda>(v, p). g v b p)) (x @ y) w"
  unfolding reads_def
proof (intro allI impI)
  fix b p r
  assume p: "p \<le> length b" and d: "drop p b = (x @ y) @ r"
  from d have "length (drop p b) = length x + length y + length r" by simp
  then have "p + length x \<le> length b" using p by simp
  moreover have "drop (p + length x) b = y @ r"
    using d by (metis append_assoc append_eq_conv_conj drop_drop add.commute)
  ultimately have "g v b (p + length x) = Inr (w, p + length x + length y)"
    using assms(2) by (blast intro: readsD)
  moreover have "f b p = Inr (v, p + length x)"
    using assms(1) p d by (intro readsD [where r = "y @ r"]) simp_all
  ultimately show "rbind (f b p) (\<lambda>(v, p). g v b p) = Inr (w, p + length (x @ y))"
    by (simp add: add.assoc)
qed

lemma reads_ret: "reads (\<lambda>b p. Inr (v, p)) [] v"
  by (simp add: reads_def)

lemma reads_last:
  assumes "reads f x v"
  shows "reads (\<lambda>b p. rbind (f b p) (\<lambda>(v, p). Inr (F v, p))) x (F v)"
  using assms by (simp add: reads_def)

lemma reads_r8: "reads r8 [v] v"
  by (auto simp: reads_def r8_def nth_via_drop dest: arg_cong [where f = length])

lemma reads_rbytes: "length x = n \<Longrightarrow> reads (rbytes n) x x"
  by (auto simp: reads_def rbytes_def bslice_def dest: arg_cong [where f = length])

lemma reads_r32: "reads r32 (be32 w) w"
  using reads_last [OF reads_rbytes, of "be32 w" 4 "of_be :: bytes \<Rightarrow> u32"]
  by (simp add: reads_def r32_def)

lemma reads_r64: "reads r64 (be64 w) w"
  using reads_last [OF reads_rbytes, of "be64 w" 8 "of_be :: bytes \<Rightarrow> u64"]
  by (simp add: reads_def r64_def)

lemma reads_epochs: "reads (r_epochs (length es)) (concat (map be32 es)) es"
proof (induction es)
  case (Cons e es)
  have "reads (\<lambda>inp p. rbind (r_epochs (length es) inp p) (\<lambda>(es, p). Inr (e # es, p)))
      (concat (map be32 es)) (e # es)"
    by (rule reads_last [OF Cons.IH])
  from reads_bind [OF reads_r32, where g = "\<lambda>e inp p. rbind (r_epochs (length es) inp p)
      (\<lambda>(es, p). Inr (e # es, p))", OF this]
  show ?case by (simp add: reads_def)
qed (simp add: reads_def)

lemma bool_u8_nz [simp]: "bool_u8 b \<noteq> 0 \<longleftrightarrow> b"
  by (simp add: bool_u8_def)

lemma bool_u8_z [simp]: "bool_u8 b = 0 \<longleftrightarrow> \<not> b"
  by (simp add: bool_u8_def)

text \<open>One reading step of a parser that goes on with \<open>g\<close>.\<close>

lemmas reads_step = reads_bind [OF reads_r8] reads_bind [OF reads_r32] reads_bind [OF reads_r64]
  reads_bind [OF reads_rbytes]

lemma reads_if: "\<not> c \<Longrightarrow> reads f x v \<Longrightarrow> reads (\<lambda>b p. if c then Inl e else f b p) x v"
  by simp

lemma reads_windows:
  "list_all win_ok ws \<Longrightarrow> reads (r_windows (length ws)) (concat (map window_bytes ws)) ws"
proof (induction ws)
  case (Cons w ws)
  obtain h b e where w: "w = (h, b, e)" by (cases w)
  have last: "reads (\<lambda>inp p. rbind (r_windows (length ws) inp p) (\<lambda>(ws, p). Inr ((h, b, e) # ws, p)))
      (concat (map window_bytes ws)) (w # ws)"
    using reads_last [OF Cons.IH, of "(#) w"] Cons.prems by (simp add: w)
  have "concat (map window_bytes (w # ws)) =
      be64 h @ be64 b @ [bool_u8 e] @ concat (map window_bytes ws)"
    by (simp add: w window_bytes_def)
  moreover have "reads (\<lambda>inp p. r_windows (length (w # ws)) inp p)
      (be64 h @ be64 b @ [bool_u8 e] @ concat (map window_bytes ws)) (w # ws)"
    unfolding list.size r_windows.simps add_0_right add_Suc_right
    by (rule reads_step, rule reads_step, rule reads_step)
      (use Cons.prems last in \<open>simp add: w win_ok_def Let_def split: if_splits\<close>)
  ultimately show ?case by simp
qed (simp add: reads_def)

lemma reads_contact: "contact_wf c \<Longrightarrow> reads r_contact (contact_bytes c) c"
proof -
  assume c: "contact_wf c"
  have e: "reads (r_epochs 3) (concat (map be32 (pc_win_epochs c))) (pc_win_epochs c)"
    using reads_epochs [of "pc_win_epochs c"] c by (simp add: contact_wf_def)
  have d: "reads (r_windows 3) (concat (map window_bytes (pc_win_data c))) (pc_win_data c)"
    and a: "reads (r_windows 3) (concat (map window_bytes (pc_win_ack c))) (pc_win_ack c)"
    using reads_windows [of "pc_win_data c"] reads_windows [of "pc_win_ack c"] c
    by (simp_all add: contact_wf_def)
  note bind = reads_bind [where w = c]
  show ?thesis
    unfolding r_contact_def contact_bytes_def
    using c e d a unfolding contact_wf_def
    by (intro reads_bind [OF reads_r8] reads_bind [OF reads_r32] reads_bind [OF reads_r64]
        reads_bind [OF reads_rbytes] reads_bind [OF e] reads_bind [OF d]
        reads_bind [OF a, where y = "[]", simplified] reads_if)
      (auto, auto simp: reads_def intro!: persist_contact.equality)
qed

lemma reads_contacts:
  "list_all contact_wf cs \<Longrightarrow> reads (r_contacts (length cs)) (concat (map contact_bytes cs)) cs"
proof (induction cs)
  case (Cons c cs)
  have "reads (\<lambda>inp p. rbind (r_contacts (length cs) inp p) (\<lambda>(cs, p). Inr (c # cs, p)))
      (concat (map contact_bytes cs)) (c # cs)"
    using Cons by (intro reads_last) simp
  moreover have "reads r_contact (contact_bytes c) c"
    using Cons.prems by (simp add: reads_contact)
  ultimately have "reads (\<lambda>inp p. rbind (r_contact inp p) (\<lambda>(c, p).
      rbind (r_contacts (length cs) inp p) (\<lambda>(cs, p). Inr (c # cs, p))))
      (contact_bytes c @ concat (map contact_bytes cs)) (c # cs)"
    by (rule reads_bind [rotated])
  then show ?case by (simp add: reads_def)
qed (simp add: reads_def)

lemma reads_view:
  assumes v: "view_wf v"
  shows "reads (r_view MAX_CONTACTS True) (view_bytes v) v"
proof -
  have cs: "reads (r_contacts MAX_CONTACTS) (concat (map contact_bytes (pv_contacts v)))
      (pv_contacts v)"
    using reads_contacts [of "pv_contacts v"] v by (simp add: view_wf_def)
  define f where "f = bool_u8 (pv_provisioned v) OR push_bit 1 (bool_u8 (pv_armed_next_boot v))"
  have f: "f AND NOT 3 = 0" "f AND 1 \<noteq> 0 \<longleftrightarrow> pv_provisioned v" "f AND 2 \<noteq> 0 \<longleftrightarrow> pv_armed_next_boot v"
    unfolding f_def by (cases "pv_provisioned v"; cases "pv_armed_next_boot v"; simp add: bool_u8_def)+
  show ?thesis
    using v f unfolding r_view_def view_bytes_def view_head_def append_assoc view_wf_def f_def [symmetric]
    by (intro reads_step reads_bind [OF cs, where y = "[]", simplified] reads_if)
      (auto simp: PERSIST_VERSION_def, auto simp: reads_def intro!: persist_view.equality)
qed

lemma decode_view_bytes: "view_wf v \<Longrightarrow> decode_view (view_bytes v) = Inr v"
  using readsD [OF reads_view, of v 0 "view_bytes v" "[]"]
  by (simp add: decode_view_def Let_def length_view_bytes)

interpretation persist: codec view_bytes "\<lambda>b. res_ok (decode_view b)" view_wf
  by unfold_locales (simp add: decode_view_bytes)

section \<open>What the decoder accepts is well formed\<close>

lemma r8_Inr: "r8 b p = Inr (v, p') \<Longrightarrow> p' = p + 1"
  by (auto simp: r8_def split: if_splits)

lemma rbytes_Inr: "rbytes n b p = Inr (v, p') \<Longrightarrow> length v = n \<and> p' = p + n"
  by (auto simp: rbytes_def split: if_splits)

lemma r_epochs_length: "r_epochs n b p = Inr (es, p') \<Longrightarrow> length es = n"
  by (induction n arbitrary: p es) auto

lemma r_windows_ok: "r_windows n b p = Inr (ws, p') \<Longrightarrow> length ws = n \<and> list_all win_ok ws"
  by (induction n arbitrary: p ws) (auto simp: Let_def split: if_splits)

lemma r_contact_wf: "r_contact b p = Inr (c, p') \<Longrightarrow> contact_wf c"
  unfolding r_contact_def contact_wf_def
  by (auto simp: if_Inl_Inr not_less not_le split del: if_split
      dest!: rbytes_Inr r_epochs_length r_windows_ok)

lemma r_contacts_wf: "r_contacts n b p = Inr (cs, p') \<Longrightarrow> length cs = n \<and> list_all contact_wf cs"
  by (induction n arbitrary: p cs) (auto dest: r_contact_wf)

lemma empty_contact_wf: "contact_wf PersistContact_empty"
  by (simp add: contact_wf_def PersistContact_empty_def list_all_iff)

lemma r_view_Inr:
  assumes "r_view slots full b p = Inr (v, p')"
  shows "pv_label v \<le> 3 \<and> length (pv_uid v) = 8 \<and> length (pv_sign_priv v) = 32 \<and>
    (\<exists>cs. length cs = slots \<and> list_all contact_wf cs \<and>
      pv_contacts v = cs @ replicate (MAX_CONTACTS - slots) PersistContact_empty)"
  using assms unfolding r_view_def
  by (auto simp: if_Inl_Inr not_less split del: if_split dest!: rbytes_Inr r_contacts_wf)

lemma decode_view_wf:
  assumes "decode_view b = Inr v"
  shows "view_wf v"
proof -
  obtain slots full p where le: "slots \<le> MAX_CONTACTS" and r: "r_view slots full b 0 = Inr (v, p)"
  proof (cases "length b = PERSIST_LEN")
    case True
    with assms show thesis
      by (intro that [of MAX_CONTACTS True]) (auto simp: decode_view_def Let_def split: if_splits)
  next
    case False
    with assms show thesis
      by (intro that [of 2 False])
        (auto simp: decode_view_def Let_def MAX_CONTACTS_def split: if_splits)
  qed
  from r_view_Inr [OF r] le empty_contact_wf show ?thesis
    by (auto simp: view_wf_def list_all_iff)
qed

lemma encode_persist_eq: "view_wf v \<Longrightarrow> encode_persist v = (view_bytes v, PERSIST_LEN)"
  by (simp add: encode_persist_def encode_into_eq length_view_bytes)

section \<open>Properties\<close>

text \<open>C37: A well-formed node state survives flash: encoding it into a record-sized buffer fills
  exactly that buffer, and decoding the buffer gives the state back, every field of every
  contact included.\<close>

theorem persist_round_trip:
  assumes "view_wf v" and "length out = PERSIST_LEN"
  shows "case encode_into v out of (n, out') \<Rightarrow> n = PERSIST_LEN \<and> length out' = PERSIST_LEN \<and>
    decode_view out' = Inr v"
  using assms persist.dec_enc [of v]
  by (simp add: encode_into_eq length_view_bytes)

lemma persist_round_trip_witness:
  "case encode_into \<lparr> pv_provisioned = True, pv_label = 2, pv_uid = replicate 8 7,
      pv_uid_set = True, pv_unix_seconds = 5, pv_persisted_tx_epoch = 6,
      pv_armed_next_boot = True, pv_sign_priv = replicate 32 9, pv_sign_set = True,
      pv_contacts = replicate MAX_CONTACTS PersistContact_empty \<rparr> (replicate PERSIST_LEN 1)
   of (n, out') \<Rightarrow> n = PERSIST_LEN \<and> length out' = PERSIST_LEN \<and>
    decode_view out' = Inr \<lparr> pv_provisioned = True, pv_label = 2, pv_uid = replicate 8 7,
      pv_uid_set = True, pv_unix_seconds = 5, pv_persisted_tx_epoch = 6,
      pv_armed_next_boot = True, pv_sign_priv = replicate 32 9, pv_sign_set = True,
      pv_contacts = replicate MAX_CONTACTS PersistContact_empty \<rparr>"
  by (rule persist_round_trip) (simp_all add: view_wf_def empty_contact_wf list_all_iff)

text \<open>Migration is safe: whatever record the decoder accepts, of version 1, 2 or 3, is
  well formed, and rewriting it as a version 3 record does not change what it says; a record
  the decoder refuses is not migrated.\<close>

theorem migrate_preserves_view:
  "case decode_view b of
     Inr v \<Rightarrow> view_wf v \<and> (\<exists>b'. migrate_to_v3 b = Inr b' \<and> length b' = PERSIST_LEN \<and>
       decode_view b' = Inr v)
   | Inl e \<Rightarrow> migrate_to_v3 b = Inl e"
  by (cases "decode_view b")
    (auto simp: migrate_to_v3_def decode_persist_def decode_view_wf encode_persist_eq
      length_view_bytes decode_view_bytes)

end
