(* ===== verification/Engine_State.thy ===== *)
theory Engine_State
  imports Clock Relay Pairing Persist
begin

text \<open>
  The node engine's data and its durability protocol, \<open>crates/mesh-node/src/engine.rs\<close>: the
  structs, construction, staging of a snapshot, commit, discard and restore. A method of
  \<open>impl Engine\<close> is a function on the \<open>engine\<close> record; one that takes \<open>&mut self\<close> returns
  its result together with the engine afterwards. The crates behind \<open>crypto\<close> are a
  parameter \<open>C\<close>.
\<close>

section \<open>Types\<close>

definition SEQ_RESERVE_BLOCK :: u64 where [consts_defs]: "SEQ_RESERVE_BLOCK = 32"
definition DOMAIN_PROOF :: bytes where "DOMAIN_PROOF = ascii ''LMESH-proof-v1''"
definition DOMAIN_CONFIRM_MSG :: bytes where "DOMAIN_CONFIRM_MSG = ascii ''LMESH-confirm-v1''"

datatype engine_error =
    BadRequest
  | Unprovisioned
  | StorageFault
  | TimeUnset
  | ETimeRollback
  | Busy
  | ContactBlocked
  | RadioMustBeOff
  | RadioUnavailable
  | UnknownOp
  | PairingAbsent
  | PairingExpired
  | NoSlot
  | SasMismatch
  | TimeJumpNeedsConfirm

datatype pair_step = NeedProof | NeedConfirm | Active

record pair_import_outcome =
  po_step :: pair_step
  po_fingerprint :: bytes
  po_contact_id :: "u8 option"

record ack_reference =
  ar_epoch :: u32
  ar_sequence :: u64
  ar_packet_id :: u32

record pending_send =
  ps_contact_id :: u8
  ps_epoch :: u32
  ps_sequence :: u64
  ps_packet_id :: u32

datatype block_outcome = Blocked | Unblocked | CancelledSend pending_send

datatype incoming_kind =
    Deliver u8 u8
  | ReAck u8
  | Ack u8
  | Forward
  | Ignore

record outgoing_frame =
  of_len :: nat
  of_frame :: bytes
  of_contact_id :: "u8 option"
  of_is_ack :: bool
  of_is_retry_echo :: bool

definition OutgoingFrame_as_slice :: "outgoing_frame \<Rightarrow> bytes" where
  "OutgoingFrame_as_slice f = bslice 0 (of_len f) (of_frame f)"

text \<open>\<open>Received\<close>: contact, epoch, sequence, text buffer, text length; \<open>SendAcked\<close>: contact,
  epoch, sequence, packet id.\<close>

datatype node_event =
    Received u8 u32 u64 bytes u8
  | SendAcked u8 u32 u64 u32

record contact =
  c_present :: bool
  c_blocked :: bool
  c_label_hint :: bytes
  c_label_len :: u8
  c_ed_peer :: bytes
  c_peer_identity :: bytes
  c_root :: bytes
  c_traffic_lr :: bytes
  c_traffic_rl :: bytes
  c_addr_secret :: bytes
  c_role :: u8
  c_tx_next :: u64
  c_tx_reserved :: u64
  c_tx_epoch_max :: u32
  c_anchor :: anchor_hours
  c_win_data :: "replay_window list"
  c_win_ack :: "replay_window list"
  c_win_epochs :: "u32 list"
  c_aliases :: alias_cache
  c_cached_epoch :: u32

definition Contact_empty :: contact where
  "Contact_empty = \<lparr>
     c_present = False, c_blocked = False, c_label_hint = replicate 8 0, c_label_len = 0,
     c_ed_peer = replicate 32 0, c_peer_identity = replicate 8 0, c_root = replicate 32 0,
     c_traffic_lr = replicate 32 0, c_traffic_rl = replicate 32 0,
     c_addr_secret = replicate 32 0, c_role = ROLE_L, c_tx_next = 0, c_tx_reserved = 0,
     c_tx_epoch_max = 0, c_anchor = AnchorHours_new 0,
     c_win_data = replicate 3 ReplayWindow_new, c_win_ack = replicate 3 ReplayWindow_new,
     c_win_epochs = replicate 3 0, c_aliases = AliasCache_new, c_cached_epoch = - 1 \<rparr>"

record pending_pair =
  pp_own_offer :: bytes
  pp_own_eph_priv :: bytes
  pp_peer_offer :: "bytes option"
  pp_peer_identity :: "bytes option"
  pp_transcript :: "bytes option"
  pp_own_role :: u8
  pp_own_proof :: "bytes option"
  pp_peer_proof :: "bytes option"
  pp_own_confirm :: "bytes option"
  pp_start_mono_s :: u64
  pp_slot :: nat
  pp_replace :: bool

datatype staged_commit =
    StNone
  | StProvision
  | StTime u64
  | StPairActivate nat
  | StTxReserve nat u64
  | StRxAccept
  | StAnchorAdvance

record engine =
  en_provisioned :: bool
  en_label :: u8
  en_uid :: bytes
  en_uid_set :: bool
  en_unix_seconds :: u64
  en_time_valid :: bool
  en_persisted_tx_epoch :: u32
  en_radio_on :: bool
  en_armed_next_boot :: bool
  en_radio_available :: bool
  en_sign_priv :: bytes
  en_sign_set :: bool
  en_contacts :: "contact list"
  en_pending :: "pending_pair option"
  en_pending_send :: "pending_send option"
  en_pending_text :: bytes
  en_pending_text_len :: u8
  en_relay_cache :: relay_cache
  en_fault :: bool
  en_staged :: "staged_commit option"
  en_persist_scratch :: bytes
  en_persist_len :: nat
  en_persist_dirty :: bool
  en_mono_s :: u64
  en_utc_mono_s :: u64
  en_auth_failures :: u32
  en_replay_drops :: u32

type_synonym 'a eresult = "engine_error + 'a"

definition Engine_new :: "bool \<Rightarrow> engine" where
  "Engine_new radio_available = \<lparr>
     en_provisioned = False, en_label = 0, en_uid = replicate 8 0, en_uid_set = False,
     en_unix_seconds = 0, en_time_valid = False, en_persisted_tx_epoch = 0,
     en_radio_on = False, en_armed_next_boot = False, en_radio_available = radio_available,
     en_sign_priv = replicate 32 0, en_sign_set = False,
     en_contacts = replicate MAX_CONTACTS Contact_empty, en_pending = None,
     en_pending_send = None, en_pending_text = replicate MAX_TEXT_LEN 0,
     en_pending_text_len = 0, en_relay_cache = RelayCache_new, en_fault = False,
     en_staged = None, en_persist_scratch = replicate PERSIST_LEN 0, en_persist_len = 0,
     en_persist_dirty = False, en_mono_s = 0, en_utc_mono_s = 0, en_auth_failures = 0,
     en_replay_drops = 0 \<rparr>"

section \<open>Accessors\<close>

definition set_mono_s :: "engine \<Rightarrow> u64 \<Rightarrow> engine" where
  "set_mono_s e now = e\<lparr> en_mono_s := now \<rparr>"

definition check_usable :: "engine \<Rightarrow> unit eresult" where
  "check_usable e =
     (if en_fault e then Inl StorageFault
      else if \<not> en_provisioned e then Inl Unprovisioned else Inr ())"

definition mark_fault :: "engine \<Rightarrow> engine" where
  "mark_fault e = e\<lparr> en_fault := True \<rparr>"

definition Engine_provisioned :: "engine \<Rightarrow> bool" where
  "Engine_provisioned e \<longleftrightarrow> \<not> en_fault e \<and> en_provisioned e"

definition Engine_time_valid :: "engine \<Rightarrow> bool" where
  "Engine_time_valid e \<longleftrightarrow> \<not> en_fault e \<and> en_time_valid e"

definition Engine_epoch :: "engine \<Rightarrow> u32" where
  "Engine_epoch e =
     (if en_time_valid e then
        (case epoch_of_unix (en_unix_seconds e) of Some ep \<Rightarrow> ep | None \<Rightarrow> 0)
      else 0)"

definition Engine_identity :: "engine \<Rightarrow> bytes option" where
  "Engine_identity e = (if en_uid_set e then Some (en_uid e) else None)"

definition ed_pubkey :: "crypto \<Rightarrow> engine \<Rightarrow> bytes eresult" where
  "ed_pubkey C e =
     (if \<not> en_sign_set e then Inl Unprovisioned else Inr (k_ed_public C (en_sign_priv e)))"

definition send_inflight :: "engine \<Rightarrow> bool" where
  "send_inflight e \<longleftrightarrow> en_pending_send e \<noteq> None"

definition Engine_armed_next_boot :: "engine \<Rightarrow> bool" where
  "Engine_armed_next_boot e = en_armed_next_boot e"

definition require_radio_off :: "engine \<Rightarrow> unit eresult" where
  "require_radio_off e = (if en_radio_on e then Inl RadioMustBeOff else Inr ())"

text \<open>\<open>contacts.iter().position(|c| !c.present)\<close>\<close>

fun position :: "('a \<Rightarrow> bool) \<Rightarrow> 'a list \<Rightarrow> nat option" where
  "position P [] = None"
| "position P (x # xs) = (if P x then Some 0 else map_option Suc (position P xs))"

definition free_slot :: "engine \<Rightarrow> nat option" where
  "free_slot e = position (\<lambda>c. \<not> c_present c) (en_contacts e)"

definition slot_of :: "engine \<Rightarrow> u8 \<Rightarrow> nat eresult" where
  "slot_of e contact_id =
     (if contact_id < 1 \<or> unat contact_id > MAX_CONTACTS then Inl BadRequest
      else
        let slot = unat (contact_id - 1) in
        if \<not> c_present (en_contacts e ! slot) then Inl BadRequest else Inr slot)"

definition contact_present :: "engine \<Rightarrow> u8 \<Rightarrow> bool" where
  "contact_present e contact_id \<longleftrightarrow>
     unat contact_id \<ge> 1 \<and> unat contact_id \<le> MAX_CONTACTS \<and>
     c_present (en_contacts e ! unat (contact_id - 1))"

definition contact_blocked :: "engine \<Rightarrow> u8 \<Rightarrow> bool" where
  "contact_blocked e contact_id \<longleftrightarrow>
     contact_present e contact_id \<and> c_blocked (en_contacts e ! unat (contact_id - 1))"

definition contact_fingerprint :: "crypto \<Rightarrow> engine \<Rightarrow> u8 \<Rightarrow> bytes option" where
  "contact_fingerprint C e contact_id =
     (if \<not> contact_present e contact_id then None
      else Some (k_sha256 C (c_ed_peer (en_contacts e ! unat (contact_id - 1)))))"

definition present_count :: "engine \<Rightarrow> u8" where
  "present_count e = of_nat (length (filter c_present (en_contacts e)))"

definition blocked_count :: "engine \<Rightarrow> u8" where
  "blocked_count e = of_nat (length (filter (\<lambda>c. c_present c \<and> c_blocked c) (en_contacts e)))"

text \<open>In-place change of one contact, \<open>let c = &mut self.contacts[slot]\<close>.\<close>

definition upd_contact :: "nat \<Rightarrow> (contact \<Rightarrow> contact) \<Rightarrow> engine \<Rightarrow> engine" where
  "upd_contact slot f e = e\<lparr> en_contacts := (en_contacts e)[slot := f (en_contacts e ! slot)] \<rparr>"

section \<open>Staging, commit, discard\<close>

definition persist_window :: "replay_window \<Rightarrow> win_triple" where
  "persist_window w =
     (case ReplayWindow_highest w of Some h \<Rightarrow> h | None \<Rightarrow> 0,
      ReplayWindow_bitmap_bits w, ReplayWindow_is_empty w)"

definition persist_contact_of :: "contact \<Rightarrow> persist_contact" where
  "persist_contact_of c = \<lparr>
     pc_present = c_present c, pc_blocked = c_blocked c, pc_ed_peer = c_ed_peer c,
     pc_peer_identity = c_peer_identity c, pc_root = c_root c, pc_role = c_role c,
     pc_tx_next = c_tx_next c, pc_tx_reserved = c_tx_reserved c,
     pc_tx_epoch_max = c_tx_epoch_max c, pc_anchor = AnchorHours_anchor (c_anchor c),
     pc_win_epochs = c_win_epochs c, pc_win_data = map persist_window (c_win_data c),
     pc_win_ack = map persist_window (c_win_ack c) \<rparr>"

definition Engine_persist_view :: "engine \<Rightarrow> persist_view" where
  "Engine_persist_view e =
     (let cs = map persist_contact_of (en_contacts e);
          cs = (case en_staged e of
                  Some (StTxReserve slot new_reserved) \<Rightarrow>
                    cs[slot := (cs ! slot)\<lparr> pc_tx_reserved := new_reserved \<rparr>]
                | _ \<Rightarrow> cs);
          view = PersistView_new (en_provisioned e) (en_label e) (en_uid e) (en_uid_set e)
                   (en_unix_seconds e) (en_persisted_tx_epoch e) (en_sign_priv e)
                   (en_sign_set e) cs
      in view\<lparr> pv_armed_next_boot := en_armed_next_boot e \<rparr>)"

definition stage_persist :: "staged_commit \<Rightarrow> engine \<Rightarrow> engine" where
  "stage_persist op e =
     (let e = e\<lparr> en_staged := Some op \<rparr>;
          (n, scratch) = encode_into (Engine_persist_view e) (en_persist_scratch e)
      in e\<lparr> en_persist_scratch := scratch, en_persist_len := n, en_persist_dirty := True \<rparr>)"

definition pending_persist :: "engine \<Rightarrow> bytes option" where
  "pending_persist e =
     (if en_persist_dirty e then Some (bslice 0 (en_persist_len e) (en_persist_scratch e))
      else None)"

definition commit_ok :: "engine \<Rightarrow> engine" where
  "commit_ok e =
     (let staged = en_staged e;
          e = e\<lparr> en_staged := None \<rparr>;
          e = (case staged of
                 Some (StTxReserve slot new_reserved) \<Rightarrow>
                   if slot < length (en_contacts e)
                   then upd_contact slot (\<lambda>c. c\<lparr> c_tx_reserved := new_reserved \<rparr>) e else e
               | Some (StPairActivate _) \<Rightarrow> e\<lparr> en_pending := None \<rparr>
               | _ \<Rightarrow> e)
      in e\<lparr> en_persist_dirty := False \<rparr>)"

definition discard_staged :: "engine \<Rightarrow> engine" where
  "discard_staged e =
     e\<lparr> en_staged := None, en_persist_dirty := False, en_pending_send := None \<rparr>"

section \<open>Restore\<close>

definition restore_contact :: "crypto \<Rightarrow> persist_contact \<Rightarrow> contact" where
  "restore_contact C pc =
     (if \<not> pc_present pc then Contact_empty
      else
        let skip_to = max (pc_tx_reserved pc) (pc_tx_next pc);
            win = (\<lambda>(h, b, em). ReplayWindow_restore h b em)
        in Contact_empty\<lparr>
             c_present := True, c_blocked := pc_blocked pc, c_ed_peer := pc_ed_peer pc,
             c_peer_identity := pc_peer_identity pc, c_root := pc_root pc,
             c_traffic_lr := derive_label C (pc_root pc) LABEL_TRAFFIC_LR,
             c_traffic_rl := derive_label C (pc_root pc) LABEL_TRAFFIC_RL,
             c_addr_secret := derive_label C (pc_root pc) LABEL_ADDRESS,
             c_role := pc_role pc, c_tx_next := skip_to,
             c_tx_reserved := max (pc_tx_reserved pc) skip_to,
             c_tx_epoch_max := pc_tx_epoch_max pc,
             c_anchor := AnchorHours_new (pc_anchor pc), c_win_epochs := pc_win_epochs pc,
             c_win_data := map win (pc_win_data pc), c_win_ack := map win (pc_win_ack pc),
             c_cached_epoch := - 1 \<rparr>)"

definition restore :: "crypto \<Rightarrow> engine \<Rightarrow> bytes \<Rightarrow> unit eresult \<times> engine" where
  "restore C e b =
     (case decode_view b of
        Inl _ \<Rightarrow> (Inl StorageFault, e)
      | Inr v \<Rightarrow>
          (Inr (),
           e\<lparr> en_provisioned := pv_provisioned v, en_label := pv_label v, en_uid := pv_uid v,
              en_uid_set := pv_uid_set v, en_unix_seconds := pv_unix_seconds v,
              en_time_valid := False, en_persisted_tx_epoch := pv_persisted_tx_epoch v,
              en_radio_on := False, en_armed_next_boot := pv_armed_next_boot v,
              en_sign_priv := pv_sign_priv v, en_sign_set := pv_sign_set v,
              en_contacts := map (restore_contact C) (pv_contacts v),
              en_pending := None, en_pending_send := None, en_persist_dirty := False,
              en_staged := None \<rparr>))"

end
