(* ===== verification/Engine_Ops.thy ===== *)
theory Engine_Ops
  imports Engine_State
begin

text \<open>
  The engine's operations other than pairing and traffic, \<open>crates/mesh-node/src/engine.rs\<close>:
  provisioning, identity, trusted time, radio state and boot arming, contact removal and
  blocking.
\<close>

section \<open>Identity, provisioning, radio\<close>

definition set_radio_available :: "engine \<Rightarrow> bool \<Rightarrow> engine" where
  "set_radio_available e available =
     (let e = e\<lparr> en_radio_available := available \<rparr> in
      if \<not> available then
        e\<lparr> en_radio_on := False, en_pending_send := None, en_armed_next_boot := False \<rparr>
      else e)"

definition set_identity :: "engine \<Rightarrow> bytes \<Rightarrow> engine" where
  "set_identity e uid =
     (if en_uid_set e \<and> en_uid e = uid then e
      else stage_persist StNone (e\<lparr> en_uid := uid, en_uid_set := True \<rparr>))"

definition provision :: "engine \<Rightarrow> u8 \<Rightarrow> bytes \<Rightarrow> unit eresult \<times> engine" where
  "provision e label sign_priv =
     (if en_fault e then (Inl StorageFault, e)
      else if en_provisioned e then (Inl Busy, e)
      else if label = 0 \<or> label > 3 then (Inl BadRequest, e)
      else
        (Inr (),
         stage_persist StProvision
           (e\<lparr> en_label := label, en_sign_priv := sign_priv, en_sign_set := True,
               en_provisioned := True \<rparr>)))"

definition set_radio :: "engine \<Rightarrow> bool \<Rightarrow> unit eresult \<times> engine" where
  "set_radio e enabled =
     (if en_fault e then (Inl StorageFault, e)
      else if enabled \<and> \<not> en_radio_available e then (Inl RadioUnavailable, e)
      else
        let e = e\<lparr> en_radio_on := enabled \<rparr>;
            e = (if \<not> enabled then e\<lparr> en_pending_send := None, en_armed_next_boot := False \<rparr>
                 else e)
        in (Inr (), stage_persist StNone e))"

definition arm_next_boot :: "engine \<Rightarrow> unit eresult \<times> engine" where
  "arm_next_boot e =
     (case check_usable e of
        Inl err \<Rightarrow> (Inl err, e)
      | Inr _ \<Rightarrow>
          if \<not> en_radio_available e then (Inl RadioUnavailable, e)
          else (Inr (), stage_persist StNone (e\<lparr> en_armed_next_boot := True \<rparr>)))"

definition consume_boot_arm :: "engine \<Rightarrow> bool eresult \<times> engine" where
  "consume_boot_arm e =
     (if en_fault e then (Inl StorageFault, e)
      else
        let armed = en_armed_next_boot e;
            e = (if armed then stage_persist StNone (e\<lparr> en_armed_next_boot := False \<rparr>) else e)
        in (Inr (armed \<and> en_radio_available e), e))"

section \<open>Trusted time\<close>

text \<open>The new place of one window slot: the window that was kept for this epoch, or a fresh
  one.\<close>

definition move_windows ::
  "u32 list \<Rightarrow> u32 list \<Rightarrow> u32 list \<Rightarrow> replay_window list \<Rightarrow> replay_window list" where
  "move_windows new old init ws =
     foldl (\<lambda>nd (slot_i, e).
         case position (\<lambda>x. x = e) old of
           Some old_i \<Rightarrow> nd[slot_i := ws ! old_i]
         | None \<Rightarrow>
             if e \<in> set init \<or> e \<notin> set old then nd[slot_i := ReplayWindow_new] else nd)
       ws (enumerate 0 new)"

definition advance_contact :: "contact \<Rightarrow> u32 \<Rightarrow> unit eresult \<times> contact" where
  "advance_contact c new_epoch =
     (case trusted_advance (c_anchor c) new_epoch of
        (Inl _, a) \<Rightarrow> (Inl ETimeRollback, c\<lparr> c_anchor := a \<rparr>)
      | (Inr init, a) \<Rightarrow>
          let new = [saturating_sub new_epoch 1, new_epoch, saturating_add new_epoch 1];
              old = c_win_epochs c;
              ne = foldl (\<lambda>ne (slot_i, e). ne[slot_i := e]) (c_win_epochs c) (enumerate 0 new)
          in (Inr (),
              c\<lparr> c_anchor := a,
                 c_win_data := move_windows new old init (c_win_data c),
                 c_win_ack := move_windows new old init (c_win_ack c),
                 c_win_epochs := ne, c_cached_epoch := - 1 \<rparr>))"

text \<open>The loop over the contacts stops at the first refusal, with the contacts before it
  already moved.\<close>

fun advance_contacts :: "contact list \<Rightarrow> u32 \<Rightarrow> unit eresult \<times> contact list" where
  "advance_contacts [] new_epoch = (Inr (), [])"
| "advance_contacts (c # cs) new_epoch =
     (if c_present c then
        (case advance_contact c new_epoch of
           (Inl err, c') \<Rightarrow> (Inl err, c' # cs)
         | (Inr _, c') \<Rightarrow> let (r, cs') = advance_contacts cs new_epoch in (r, c' # cs'))
      else let (r, cs') = advance_contacts cs new_epoch in (r, c # cs'))"

definition time_floor :: "engine \<Rightarrow> u32" where
  "time_floor e =
     foldl (\<lambda>fl c. if c_present c then max fl (AnchorHours_anchor (c_anchor c)) else fl)
       (max 0 (en_persisted_tx_epoch e)) (en_contacts e)"

definition set_time_confirmed :: "engine \<Rightarrow> u64 \<Rightarrow> bool \<Rightarrow> u32 eresult \<times> engine" where
  "set_time_confirmed e unix_seconds confirmed =
     (if en_fault e then (Inl StorageFault, e)
      else
        case epoch_of_unix unix_seconds of
          None \<Rightarrow> (Inl BadRequest, e)
        | Some new_epoch \<Rightarrow>
            if new_epoch < time_floor e then (Inl ETimeRollback, e)
            else if \<not> confirmed \<and> en_time_valid e \<and>
                    new_epoch > saturating_add (Engine_epoch e) 1
            then (Inl TimeJumpNeedsConfirm, e)
            else
              case advance_contacts (en_contacts e) new_epoch of
                (Inl err, cs) \<Rightarrow> (Inl err, e\<lparr> en_contacts := cs \<rparr>)
              | (Inr _, cs) \<Rightarrow>
                  (Inr new_epoch,
                   stage_persist (StTime unix_seconds)
                     (e\<lparr> en_contacts := cs, en_unix_seconds := unix_seconds,
                         en_time_valid := True, en_utc_mono_s := en_mono_s e \<rparr>)))"

definition set_time :: "engine \<Rightarrow> u64 \<Rightarrow> u32 eresult \<times> engine" where
  "set_time e unix_seconds = set_time_confirmed e unix_seconds False"

definition advance_time :: "engine \<Rightarrow> u64 \<Rightarrow> unit eresult \<times> engine" where
  "advance_time e now_mono_s =
     (if en_fault e then (Inl StorageFault, e)
      else
        let e = e\<lparr> en_mono_s := now_mono_s \<rparr> in
        if \<not> en_time_valid e then (Inr (), e)
        else
          case checked_sub now_mono_s (en_utc_mono_s e) of
            None \<Rightarrow> (Inl ETimeRollback, e\<lparr> en_time_valid := False \<rparr>)
          | Some elapsed \<Rightarrow>
              (case (case checked_add (en_unix_seconds e) elapsed of
                       Some s \<Rightarrow> if epoch_of_unix s \<noteq> None then Some s else None
                     | None \<Rightarrow> None) of
                 None \<Rightarrow> (Inl BadRequest, e\<lparr> en_time_valid := False \<rparr>)
               | Some nxt \<Rightarrow>
                   if epoch_of_unix nxt \<noteq> Some (Engine_epoch e) then
                     (case set_time e nxt of
                        (Inl err, e) \<Rightarrow> (Inl err, e)
                      | (Inr _, e) \<Rightarrow> (Inr (), e))
                   else
                     (Inr (), e\<lparr> en_unix_seconds := nxt, en_utc_mono_s := now_mono_s \<rparr>)))"

section \<open>Contact removal and blocking\<close>

definition delete_contact :: "engine \<Rightarrow> u8 \<Rightarrow> unit eresult \<times> engine" where
  "delete_contact e contact_id =
     (case rbind (check_usable e) (\<lambda>_. slot_of e contact_id) of
        Inl err \<Rightarrow> (Inl err, e)
      | Inr slot \<Rightarrow>
          let e = upd_contact slot (\<lambda>_. Contact_empty) e;
              e = (case en_pending_send e of
                     Some ps \<Rightarrow>
                       if ps_contact_id ps = contact_id then e\<lparr> en_pending_send := None \<rparr> else e
                   | None \<Rightarrow> e)
          in (Inr (), stage_persist StNone e))"

definition set_blocked :: "engine \<Rightarrow> u8 \<Rightarrow> bool \<Rightarrow> block_outcome eresult \<times> engine" where
  "set_blocked e contact_id blocked =
     (case rbind (check_usable e) (\<lambda>_. slot_of e contact_id) of
        Inl err \<Rightarrow> (Inl err, e)
      | Inr slot \<Rightarrow>
          let e = upd_contact slot (\<lambda>c. c\<lparr> c_blocked := blocked \<rparr>) e;
              e = stage_persist StNone e in
          if blocked then
            (case en_pending_send e of
               Some ps \<Rightarrow>
                 if ps_contact_id ps = contact_id
                 then (Inr (CancelledSend ps), e\<lparr> en_pending_send := None \<rparr>)
                 else (Inr Blocked, e)
             | None \<Rightarrow> (Inr Blocked, e))
          else (Inr Unblocked, e))"

end
