(* ===== verification/Engine_Pair.thy ===== *)
theory Engine_Pair
  imports Engine_Ops
begin

text \<open>
  The pairing ceremony, \<open>crates/mesh-node/src/engine.rs\<close> from \<open>pair_offer\<close> to
  \<open>activate_contact\<close>. A chain of \<open>?\<close> that only reads the state is a chain of \<open>rbind\<close>;
  the state changes after it. \<open>as_ref().unwrap()\<close> is \<open>the\<close>: the invariant of
  \<open>Engine_Inv\<close> shows that it is never applied to \<open>None\<close>.
\<close>

section \<open>Offers\<close>

definition offer_record_of :: "bytes \<Rightarrow> bytes" where
  "offer_record_of payload =
     put_at 1 payload (put_at 0 [RECORD_OFFER] (replicate OFFER_RECORD_LEN 0))"

text \<open>\<open>pair_offer\<close> after the check for an attempt that is still open.\<close>

definition pair_offer_payload ::
  "crypto \<Rightarrow> engine \<Rightarrow> bytes \<Rightarrow> bytes \<Rightarrow> (bytes \<times> nat) eresult" where
  "pair_offer_payload C e eph_pub challenge =
     (if \<not> en_sign_set e then Inl Unprovisioned
      else
        rbind (ed_pubkey C e) (\<lambda>ed.
        if eph_pub = replicate 32 0 then Inl BadRequest
        else
          let offer = \<lparr> o_ed_pub = ed, o_eph_pub = eph_pub, o_challenge = challenge \<rparr> in
          case encode_offer_payload offer (replicate OFFER_PAYLOAD_LEN 0) of
            (Inl _, _) \<Rightarrow> Inl BadRequest
          | (Inr _, payload) \<Rightarrow>
              rbind (ok_or NoSlot (free_slot e)) (\<lambda>slot. Inr (payload, slot))))"

definition pair_offer_fresh ::
  "crypto \<Rightarrow> engine \<Rightarrow> bytes \<Rightarrow> bytes \<Rightarrow> bytes \<Rightarrow> bytes eresult \<times> engine" where
  "pair_offer_fresh C e eph_priv eph_pub challenge =
     (case pair_offer_payload C e eph_pub challenge of
        Inl err \<Rightarrow> (Inl err, e)
      | Inr (payload, slot) \<Rightarrow>
          (Inr (offer_record_of payload),
           e\<lparr> en_pending := Some \<lparr>
                pp_own_offer = payload, pp_own_eph_priv = eph_priv, pp_peer_offer = None,
                pp_peer_identity = None, pp_transcript = None, pp_own_role = ROLE_L,
                pp_own_proof = None, pp_peer_proof = None, pp_own_confirm = None,
                pp_start_mono_s = en_mono_s e, pp_slot = slot, pp_replace = False \<rparr> \<rparr>))"

definition pair_offer ::
  "crypto \<Rightarrow> engine \<Rightarrow> bytes \<Rightarrow> bytes \<Rightarrow> bytes \<Rightarrow> bytes eresult \<times> engine" where
  "pair_offer C e eph_priv eph_pub challenge =
     (case rbind (check_usable e) (\<lambda>_. require_radio_off e) of
        Inl err \<Rightarrow> (Inl err, e)
      | Inr _ \<Rightarrow>
          case en_pending e of
            Some p \<Rightarrow>
              if \<not> is_expired (pp_start_mono_s p) (en_mono_s e)
              then (Inr (offer_record_of (pp_own_offer p)), e)
              else pair_offer_fresh C e eph_priv eph_pub challenge
          | None \<Rightarrow> pair_offer_fresh C e eph_priv eph_pub challenge)"

definition pair_cancel :: "engine \<Rightarrow> engine" where
  "pair_cancel e = e\<lparr> en_pending := None, en_pending_send := None \<rparr>"

text \<open>The attempt after the peer's offer, and its transcript.\<close>

definition import_offer_check ::
  "crypto \<Rightarrow> engine \<Rightarrow> bytes \<Rightarrow> bool \<Rightarrow> (pending_pair \<times> bytes) eresult" where
  "import_offer_check C e record replace =
     rbind (map_err (\<lambda>_. BadRequest) (decode_offer_record record)) (\<lambda>offer.
     rbind (ok_or PairingAbsent (en_pending e)) (\<lambda>p.
     rbind (map_err (\<lambda>_. StorageFault) (decode_offer_payload (pp_own_offer p))) (\<lambda>own.
     rbind (map_err (\<lambda>_. BadRequest) (check_not_self (o_ed_pub own) (o_ed_pub offer))) (\<lambda>_.
     if \<exists>c \<in> set (en_contacts e). c_present c \<and> c_ed_peer c = o_ed_pub offer
     then Inl BadRequest
     else
       case encode_offer_payload offer (replicate OFFER_PAYLOAD_LEN 0) of
         (Inl _, _) \<Rightarrow> Inl BadRequest
       | (Inr _, peer_payload) \<Rightarrow>
           let own_copy = pp_own_offer p;
               (l, r) = (if bslice 1 33 own_copy \<le> bslice 1 33 peer_payload
                         then (own_copy, peer_payload) else (peer_payload, own_copy));
               t = transcript_t C l r;
               role = role_for (o_ed_pub own) (o_ed_pub offer) in
           rbind (if replace then Inr (pp_slot p) else ok_or NoSlot (free_slot e)) (\<lambda>slot.
           Inr (p\<lparr> pp_peer_offer := Some peer_payload, pp_transcript := Some t,
                   pp_own_role := role, pp_slot := slot, pp_replace := replace \<rparr>, t))))))"

definition import_offer ::
  "crypto \<Rightarrow> engine \<Rightarrow> bytes \<Rightarrow> bool \<Rightarrow> pair_import_outcome eresult \<times> engine" where
  "import_offer C e record replace =
     (case import_offer_check C e record replace of
        Inl err \<Rightarrow> (Inl err, e)
      | Inr (p, t) \<Rightarrow>
          (Inr \<lparr> po_step = NeedProof, po_fingerprint = transcript_fingerprint t,
                 po_contact_id = None \<rparr>,
           e\<lparr> en_pending := Some p \<rparr>))"

section \<open>Keys of the attempt\<close>

definition pair_root :: "crypto \<Rightarrow> engine \<Rightarrow> bytes \<Rightarrow> bytes eresult" where
  "pair_root C e t =
     rbind (ok_or PairingAbsent (en_pending e)) (\<lambda>p.
     rbind (ok_or BadRequest (pp_peer_offer p)) (\<lambda>peer_payload.
     rbind (map_err (\<lambda>_. BadRequest) (decode_offer_payload peer_payload)) (\<lambda>peer_offer.
     let dh = k_x25519 C (pp_own_eph_priv p) (o_eph_pub peer_offer) in
     if dh = replicate 32 0 then Inl BadRequest else Inr (derive_root C dh t))))"

definition setup_keys :: "crypto \<Rightarrow> engine \<Rightarrow> bytes \<Rightarrow> u8 \<Rightarrow> (bytes \<times> bytes) eresult" where
  "setup_keys C e t role =
     rbind (ok_or PairingAbsent (en_pending e)) (\<lambda>p.
     rbind (ok_or BadRequest (pp_peer_offer p)) (\<lambda>peer_payload.
     rbind (map_err (\<lambda>_. BadRequest) (decode_offer_payload peer_payload)) (\<lambda>peer_offer.
     let dh = k_x25519 C (pp_own_eph_priv p) (o_eph_pub peer_offer) in
     if dh = replicate 32 0 then Inl BadRequest
     else
       let root = derive_root C dh t in
       Inr (derive_label C root LABEL_SETUP_LR, derive_label C root LABEL_SETUP_RL))))"

section \<open>Proofs\<close>

definition proof_aad :: "bytes \<Rightarrow> u8 \<Rightarrow> bytes" where
  "proof_aad t role = put_at 32 [role] (put_at 0 t (replicate 33 0))"

definition proof_message :: "bytes \<Rightarrow> u8 \<Rightarrow> bytes \<Rightarrow> bytes" where
  "proof_message t role ct =
     put_at 47 ct (put_at 46 [role] (put_at 14 t (put_at 0 DOMAIN_PROOF
       (replicate (14 + 32 + 1 + PROOF_CT_LEN) 0))))"

text \<open>The transcript and role of an open attempt that has not expired.\<close>

definition open_attempt :: "engine \<Rightarrow> (pending_pair \<times> bytes \<times> u8) eresult" where
  "open_attempt e =
     rbind (ok_or PairingAbsent (en_pending e)) (\<lambda>p.
     if is_expired (pp_start_mono_s p) (en_mono_s e) then Inl PairingExpired
     else rbind (ok_or BadRequest (pp_transcript p)) (\<lambda>t. Inr (p, t, pp_own_role p)))"

text \<open>The proof record of an attempt: the own identity sealed under the setup key of the own
  role, and a signature over it.\<close>

definition own_proof_record :: "crypto \<Rightarrow> engine \<Rightarrow> bytes \<Rightarrow> u8 \<Rightarrow> bytes eresult" where
  "own_proof_record C e t role =
     rbind (setup_keys C e t role) (\<lambda>(k_lr, k_rl).
     let out_key = (if role = ROLE_L then k_lr else k_rl) in
     if \<not> en_uid_set e then Inl Unprovisioned
     else
       case encrypt_data C out_key (replicate 12 0) (proof_aad t role) (en_uid e)
              (replicate PROOF_CT_LEN 0) of
         (Inl _, _) \<Rightarrow> Inl StorageFault
       | (Inr _, ct) \<Rightarrow>
           let sig = k_ed_sign C (en_sign_priv e) (proof_message t role ct);
               p = \<lparr> pf_t = t, pf_role = role, pf_ct = ct, pf_sig = sig \<rparr> in
           (case encode_proof p (replicate PROOF_RECORD_LEN 0) of
              (Inl _, _) \<Rightarrow> Inl BadRequest
            | (Inr _, rec) \<Rightarrow> Inr rec))"

definition pair_proof :: "crypto \<Rightarrow> engine \<Rightarrow> bytes eresult \<times> engine" where
  "pair_proof C e =
     (case rbind (check_usable e) (\<lambda>_. rbind (require_radio_off e) (\<lambda>_. open_attempt e)) of
        Inl err \<Rightarrow> (Inl err, e)
      | Inr (p, t, role) \<Rightarrow>
          case pp_own_proof p of
            Some saved \<Rightarrow> (Inr saved, e)
          | None \<Rightarrow>
              (case own_proof_record C e t role of
                 Inl err \<Rightarrow> (Inl err, e)
               | Inr rec \<Rightarrow> (Inr rec, e\<lparr> en_pending := Some (p\<lparr> pp_own_proof := Some rec \<rparr>) \<rparr>)))"

text \<open>What decrypting the peer's sealed identity gives, at proof import and again at
  confirmation.\<close>

definition open_peer_identity ::
  "crypto \<Rightarrow> engine \<Rightarrow> bytes \<Rightarrow> u8 \<Rightarrow> u8 \<Rightarrow> bytes \<Rightarrow> bytes eresult" where
  "open_peer_identity C e t role peer_role ct =
     rbind (setup_keys C e t role) (\<lambda>(k_lr, k_rl).
     let peer_key = (if peer_role = ROLE_L then k_lr else k_rl) in
     case decrypt_data C peer_key (replicate 12 0) (proof_aad t peer_role) ct (replicate 8 0) of
       (Inl _, _) \<Rightarrow> Inl BadRequest
     | (Inr _, pt) \<Rightarrow> Inr pt)"

definition import_proof_check ::
  "crypto \<Rightarrow> engine \<Rightarrow> bytes \<Rightarrow> (pending_pair \<times> bytes \<times> bytes) eresult" where
  "import_proof_check C e record =
     rbind (map_err (\<lambda>_. BadRequest) (decode_proof record)) (\<lambda>prf.
     rbind (ok_or PairingAbsent (en_pending e)) (\<lambda>p.
     rbind (ok_or BadRequest (pp_transcript p)) (\<lambda>t.
     let role = pp_own_role p in
     if pf_t prf \<noteq> t then Inl BadRequest
     else if pf_role prf = role then Inl BadRequest
     else
       rbind (map_err (\<lambda>_. BadRequest) (decode_offer_payload (the (pp_peer_offer p)))) (\<lambda>po.
       if \<not> k_ed_key_ok C (o_ed_pub po) then Inl BadRequest
       else if \<not> k_ed_verify C (o_ed_pub po)
                 (proof_message (pf_t prf) (pf_role prf) (pf_ct prf)) (pf_sig prf)
       then Inl BadRequest
       else
         rbind (open_peer_identity C e t role (pf_role prf) (pf_ct prf)) (\<lambda>pt.
         Inr (p, t, pt))))))"

definition import_proof ::
  "crypto \<Rightarrow> engine \<Rightarrow> bytes \<Rightarrow> pair_import_outcome eresult \<times> engine" where
  "import_proof C e record =
     (case import_proof_check C e record of
        Inl err \<Rightarrow> (Inl err, e)
      | Inr (p, t, pt) \<Rightarrow>
          (Inr \<lparr> po_step = NeedConfirm, po_fingerprint = transcript_fingerprint t,
                 po_contact_id = None \<rparr>,
           e\<lparr> en_pending := Some (p\<lparr> pp_peer_proof := Some record,
                                     pp_peer_identity := Some pt \<rparr>) \<rparr>))"

section \<open>Confirmations\<close>

definition proofs_digest :: "crypto \<Rightarrow> u8 \<Rightarrow> bytes \<Rightarrow> bytes \<Rightarrow> bytes" where
  "proofs_digest C role own_proof peer_proof =
     (let (pl, pr) = (if role = ROLE_L then (own_proof, peer_proof) else (peer_proof, own_proof))
      in k_sha256 C (pl @ pr))"

definition confirm_mac :: "crypto \<Rightarrow> bytes \<Rightarrow> bytes \<Rightarrow> u8 \<Rightarrow> bytes \<Rightarrow> bytes" where
  "confirm_mac C root t role digest =
     k_hmac C (derive_label C root LABEL_CONFIRM) (DOMAIN_CONFIRM_MSG @ t @ [role] @ digest)"

definition own_confirm_record ::
  "crypto \<Rightarrow> engine \<Rightarrow> pending_pair \<Rightarrow> bytes \<Rightarrow> u8 \<Rightarrow> bytes eresult" where
  "own_confirm_record C e p t role =
     rbind (ok_or BadRequest (pp_own_proof p)) (\<lambda>own_proof.
     rbind (ok_or BadRequest (pp_peer_proof p)) (\<lambda>peer_proof.
     let digest = proofs_digest C role own_proof peer_proof in
     rbind (pair_root C e t) (\<lambda>root.
     let conf = \<lparr> cf_t = t, cf_role = role, cf_mac = confirm_mac C root t role digest \<rparr> in
     case encode_confirmation conf (replicate CONFIRM_RECORD_LEN 0) of
       (Inl _, _) \<Rightarrow> Inl BadRequest
     | (Inr _, rec) \<Rightarrow> Inr rec)))"

definition pair_confirm :: "crypto \<Rightarrow> engine \<Rightarrow> bytes eresult \<times> engine" where
  "pair_confirm C e =
     (case rbind (check_usable e) (\<lambda>_. rbind (require_radio_off e) (\<lambda>_. open_attempt e)) of
        Inl err \<Rightarrow> (Inl err, e)
      | Inr (p, t, role) \<Rightarrow>
          if pp_peer_proof p = None then (Inl BadRequest, e)
          else
            case pp_own_confirm p of
              Some saved \<Rightarrow> (Inr saved, e)
            | None \<Rightarrow>
                (case own_confirm_record C e p t role of
                   Inl err \<Rightarrow> (Inl err, e)
                 | Inr rec \<Rightarrow>
                     (Inr rec, e\<lparr> en_pending := Some (p\<lparr> pp_own_confirm := Some rec \<rparr>) \<rparr>)))"

definition activate_contact ::
  "crypto \<Rightarrow> engine \<Rightarrow> nat \<Rightarrow> bytes \<Rightarrow> bytes \<Rightarrow> bytes \<Rightarrow> u8 \<Rightarrow> unit eresult \<times> engine" where
  "activate_contact C e slot peer_ed peer_id root role =
     (if slot \<ge> MAX_CONTACTS then (Inl NoSlot, e)
      else
        let epoch = Engine_epoch e;
            (lr, rl) = (if role = ROLE_L
               then (derive_label C root LABEL_TRAFFIC_LR, derive_label C root LABEL_TRAFFIC_RL)
               else (derive_label C root LABEL_TRAFFIC_LR, derive_label C root LABEL_TRAFFIC_RL))
        in (Inr (), upd_contact slot (\<lambda>_. Contact_empty\<lparr>
              c_present := True, c_ed_peer := peer_ed, c_peer_identity := peer_id,
              c_root := root, c_traffic_lr := lr, c_traffic_rl := rl,
              c_addr_secret := derive_label C root LABEL_ADDRESS, c_role := role,
              c_anchor := AnchorHours_new epoch,
              c_win_epochs := [saturating_sub epoch 1, epoch, saturating_add epoch 1],
              c_cached_epoch := - 1 \<rparr>) e))"

text \<open>The attempt, its transcript, the peer's keys and identity and the root, once the peer's
  confirmation has been checked.\<close>

definition import_confirm_check ::
  "crypto \<Rightarrow> engine \<Rightarrow> bytes \<Rightarrow> (pending_pair \<times> bytes \<times> bytes \<times> bytes \<times> bytes) eresult" where
  "import_confirm_check C e record =
     rbind (map_err (\<lambda>_. BadRequest) (decode_confirmation record)) (\<lambda>conf.
     rbind (ok_or PairingAbsent (en_pending e)) (\<lambda>p.
     rbind (ok_or BadRequest (pp_transcript p)) (\<lambda>t.
     let role = pp_own_role p in
     if cf_t conf \<noteq> t \<or> cf_role conf = role then Inl BadRequest
     else
       rbind (ok_or BadRequest (pp_own_proof p)) (\<lambda>own_proof.
       rbind (ok_or BadRequest (pp_peer_proof p)) (\<lambda>peer_proof.
       let digest = proofs_digest C role own_proof peer_proof in
       rbind (pair_root C e t) (\<lambda>root.
       if confirm_mac C root t (cf_role conf) digest \<noteq> cf_mac conf then Inl BadRequest
       else
         rbind (ok_or BadRequest (pp_peer_identity p)) (\<lambda>peer_id_cached.
         rbind (map_err (\<lambda>_. BadRequest) (decode_proof peer_proof)) (\<lambda>peer_proof_d.
         rbind (open_peer_identity C e t role (cf_role conf) (pf_ct peer_proof_d)) (\<lambda>peer_id.
         if peer_id \<noteq> peer_id_cached then Inl BadRequest
         else
           rbind (map_err (\<lambda>_. BadRequest)
                    (decode_offer_payload (the (pp_peer_offer p)))) (\<lambda>po.
           Inr (p, t, o_ed_pub po, peer_id, root)))))))))))"

definition import_confirm ::
  "crypto \<Rightarrow> engine \<Rightarrow> bytes \<Rightarrow> pair_import_outcome eresult \<times> engine" where
  "import_confirm C e record =
     (case import_confirm_check C e record of
        Inl err \<Rightarrow> (Inl err, e)
      | Inr (p, t, peer_ed, peer_id, root) \<Rightarrow>
          (case activate_contact C e (pp_slot p) peer_ed peer_id root (pp_own_role p) of
             (Inl err, e) \<Rightarrow> (Inl err, e)
           | (Inr _, e) \<Rightarrow>
               (Inr \<lparr> po_step = Active, po_fingerprint = transcript_fingerprint t,
                      po_contact_id = Some (of_nat (pp_slot p + 1)) \<rparr>,
                stage_persist (StPairActivate (pp_slot p)) e)))"

section \<open>Import\<close>

definition pair_import_sas ::
  "crypto \<Rightarrow> engine \<Rightarrow> bytes \<Rightarrow> bool \<Rightarrow> bool \<Rightarrow> pair_import_outcome eresult \<times> engine" where
  "pair_import_sas C e record replace sas_match =
     (case rbind (check_usable e) (\<lambda>_.
           rbind (require_radio_off e) (\<lambda>_. ok_or PairingAbsent (en_pending e))) of
        Inl err \<Rightarrow> (Inl err, e)
      | Inr p \<Rightarrow>
          if is_expired (pp_start_mono_s p) (en_mono_s e) then (Inl PairingExpired, e)
          else if record = [] then (Inl BadRequest, e)
          else if record ! 0 = RECORD_CONFIRM \<and> \<not> sas_match then (Inl SasMismatch, e)
          else if record ! 0 = RECORD_OFFER then import_offer C e record replace
          else if record ! 0 = RECORD_PROOF then import_proof C e record
          else if record ! 0 = RECORD_CONFIRM then import_confirm C e record
          else (Inl BadRequest, e))"

definition pair_import ::
  "crypto \<Rightarrow> engine \<Rightarrow> bytes \<Rightarrow> bool \<Rightarrow> pair_import_outcome eresult \<times> engine" where
  "pair_import C e record replace = pair_import_sas C e record replace False"

end
