(* ===== verification/Engine_Traffic.thy ===== *)
theory Engine_Traffic
  imports Engine_Ops
begin

text \<open>
  Sending, receiving, acknowledging and relaying, \<open>crates/mesh-node/src/engine.rs\<close> from
  \<open>dir_roots\<close> to \<open>build_ack\<close>. The loop of \<open>on_frame\<close> over the contact slots is a recursion
  on the list of slots.
\<close>

section \<open>Keys and aliases\<close>

definition dir_roots :: "engine \<Rightarrow> nat \<Rightarrow> (bytes \<times> bytes) eresult" where
  "dir_roots e slot =
     (if slot \<ge> length (en_contacts e) then Inl BadRequest
      else
        let c = en_contacts e ! slot in
        if \<not> c_present c then Inl BadRequest else Inr (c_traffic_lr c, c_traffic_rl c))"

definition outgoing_key :: "crypto \<Rightarrow> engine \<Rightarrow> nat \<Rightarrow> u32 \<Rightarrow> bytes eresult" where
  "outgoing_key C e slot epoch =
     rbind (dir_roots e slot) (\<lambda>(lr, rl).
     let role = c_role (en_contacts e ! slot);
         dir = (if role = ROLE_L then lr else rl)
     in Inr (hourly_key C dir epoch))"

definition incoming_key :: "crypto \<Rightarrow> engine \<Rightarrow> nat \<Rightarrow> u32 \<Rightarrow> bytes eresult" where
  "incoming_key C e slot epoch =
     rbind (dir_roots e slot) (\<lambda>(lr, rl).
     let role = c_role (en_contacts e ! slot);
         dir = (if role = ROLE_L then rl else lr)
     in Inr (hourly_key C dir epoch))"

definition refresh_aliases :: "crypto \<Rightarrow> nat \<Rightarrow> engine \<Rightarrow> engine" where
  "refresh_aliases C slot e =
     (let epoch = Engine_epoch e; c = en_contacts e ! slot in
      if \<not> c_present c \<or> c_cached_epoch c = epoch then e
      else
        upd_contact slot (\<lambda>c. c\<lparr>
          c_aliases := AliasCache_refresh C (c_aliases c) (c_addr_secret c) (en_uid e)
                         (c_peer_identity c) epoch,
          c_cached_epoch := epoch \<rparr>) e)"

text \<open>The addresses of a frame from us to the contact in this epoch.\<close>

definition frame_addresses :: "crypto \<Rightarrow> engine \<Rightarrow> nat \<Rightarrow> u32 \<Rightarrow> bytes \<times> bytes" where
  "frame_addresses C e slot epoch =
     (let c = en_contacts e ! slot in
      (derive_address C (c_addr_secret c) (c_peer_identity c) epoch,
       derive_address C (c_addr_secret c) (en_uid e) epoch))"

section \<open>Sending\<close>

text \<open>The checks of \<open>send_begin\<close>, which change nothing: the slot, and what will be staged.\<close>

definition send_begin_check :: "engine \<Rightarrow> u8 \<Rightarrow> bytes \<Rightarrow> (nat \<times> staged_commit) eresult" where
  "send_begin_check e contact_id text =
     rbind (check_usable e) (\<lambda>_.
     if \<not> en_time_valid e then Inl TimeUnset
     else
       rbind (slot_of e contact_id) (\<lambda>slot.
       let c = en_contacts e ! slot in
       if c_blocked c then Inl ContactBlocked
       else if en_pending_send e \<noteq> None then Inl Busy
       else if text = [] \<or> length text > MAX_TEXT_LEN \<or> \<not> utf8_valid text
       then Inl BadRequest
       else if Engine_epoch e < c_tx_epoch_max c then Inl ETimeRollback
       else if c_tx_next c \<ge> c_tx_reserved c then
         rbind (ok_or StorageFault (checked_add (c_tx_next c) SEQ_RESERVE_BLOCK))
           (\<lambda>new_reserved. Inr (slot, StTxReserve slot new_reserved))
       else Inr (slot, StNone)))"

definition send_begin :: "engine \<Rightarrow> u8 \<Rightarrow> bytes \<Rightarrow> u32 \<Rightarrow> pending_send eresult \<times> engine" where
  "send_begin e contact_id text packet_id =
     (case send_begin_check e contact_id text of
        Inl err \<Rightarrow> (Inl err, e)
      | Inr (slot, op) \<Rightarrow>
          let epoch = Engine_epoch e;
              e = stage_persist op e;
              e = e\<lparr> en_pending_text := put_at 0 text (en_pending_text e),
                     en_pending_text_len := of_nat (length text) \<rparr>;
              ps = \<lparr> ps_contact_id = contact_id, ps_epoch = epoch,
                     ps_sequence = c_tx_next (en_contacts e ! slot),
                     ps_packet_id = packet_id \<rparr>
          in (Inr ps, e\<lparr> en_pending_send := Some ps \<rparr>))"

text \<open>The header, plaintext, encryption and encoding of the DATA frame, which \<open>send_emit\<close> and
  \<open>send_retry_echo\<close> spell out alike.\<close>

definition data_header :: "crypto \<Rightarrow> engine \<Rightarrow> nat \<Rightarrow> pending_send \<Rightarrow> header" where
  "data_header C e slot ps =
     (let (dst, src) = frame_addresses C e slot (ps_epoch ps) in
      \<lparr> h_version = VERSION_SECURE, h_flags = FLAG_WANT_ACK, h_dst = of_be dst,
        h_src = of_be src, h_packet_id = ps_packet_id ps, h_hops = 1,
        h_epoch = ps_epoch ps, h_sequence = ps_sequence ps \<rparr>)"

definition data_frame :: "crypto \<Rightarrow> engine \<Rightarrow> nat \<Rightarrow> pending_send \<Rightarrow> bytes \<Rightarrow> (nat \<times> bytes) eresult"
  where
  "data_frame C e slot ps key =
     (let n12 = nonce (ps_epoch ps) (ps_sequence ps);
          pt = put_at 0 [BODY_DATA] (replicate (1 + MAX_TEXT_LEN) 0);
          pt = put_at 1 (take (unat (en_pending_text_len e)) (en_pending_text e)) pt;
          pt_len = 1 + unat (en_pending_text_len e);
          h = data_header C e slot ps;
          aad = frame_aad h (of_nat (pt_len + TAG_LEN)) in
      case encrypt_data C key n12 aad (take pt_len pt) (replicate (1 + MAX_TEXT_LEN + TAG_LEN) 0) of
        (Inl _, _) \<Rightarrow> Inl StorageFault
      | (Inr ct_len, body) \<Rightarrow>
          (case encode_frame h (take ct_len body) (replicate MAX_FRAME_LEN 0) of
             (Inl _, _) \<Rightarrow> Inl BadRequest
           | (Inr len, frm) \<Rightarrow> Inr (len, frm)))"

text \<open>The checks of \<open>send_emit\<close>: the send in progress, its slot and its key.\<close>

definition send_emit_check :: "crypto \<Rightarrow> engine \<Rightarrow> (pending_send \<times> nat \<times> bytes) eresult" where
  "send_emit_check C e =
     rbind (ok_or BadRequest (en_pending_send e)) (\<lambda>ps.
     rbind (slot_of e (ps_contact_id ps)) (\<lambda>slot.
     let c = en_contacts e ! slot in
     if c_tx_next c \<noteq> ps_sequence ps \<or> ps_sequence ps \<ge> c_tx_reserved c
     then Inl StorageFault
     else if ps_epoch ps < c_tx_epoch_max c then Inl ETimeRollback
     else
       rbind (outgoing_key C e slot (ps_epoch ps)) (\<lambda>key. Inr (ps, slot, key))))"

definition send_emit :: "crypto \<Rightarrow> engine \<Rightarrow> outgoing_frame eresult \<times> engine" where
  "send_emit C e =
     (if en_persist_dirty e then (Inl Busy, e)
      else
        case send_emit_check C e of
          Inl err \<Rightarrow> (Inl err, e)
        | Inr (ps, slot, key) \<Rightarrow>
            let e = refresh_aliases C slot e in
            (case data_frame C e slot ps key of
               Inl err \<Rightarrow> (Inl err, e)
             | Inr (len, frm) \<Rightarrow>
                 let e = upd_contact slot (\<lambda>c. c\<lparr>
                       c_tx_next := ps_sequence ps + 1,
                       c_tx_epoch_max := max (c_tx_epoch_max c) (ps_epoch ps) \<rparr>) e;
                     e = e\<lparr> en_persisted_tx_epoch :=
                              max (en_persisted_tx_epoch e) (ps_epoch ps) \<rparr>;
                     e = stage_persist StNone e;
                     e = e\<lparr> en_pending_send := Some ps \<rparr>
                 in (Inr \<lparr> of_len = len, of_frame = frm,
                            of_contact_id = Some (ps_contact_id ps), of_is_ack = False,
                            of_is_retry_echo = False \<rparr>, e)))"

definition send_retry_echo :: "crypto \<Rightarrow> engine \<Rightarrow> outgoing_frame eresult" where
  "send_retry_echo C e =
     rbind (ok_or BadRequest (en_pending_send e)) (\<lambda>ps.
     rbind (slot_of e (ps_contact_id ps)) (\<lambda>slot.
     rbind (outgoing_key C e slot (ps_epoch ps)) (\<lambda>key.
     rbind (data_frame C e slot ps key) (\<lambda>(len, frm).
     Inr \<lparr> of_len = len, of_frame = frm, of_contact_id = Some (ps_contact_id ps),
           of_is_ack = False, of_is_retry_echo = True \<rparr>))))"

definition send_complete :: "engine \<Rightarrow> bool \<Rightarrow> engine" where
  "send_complete e acked = e\<lparr> en_pending_send := None \<rparr>"

section \<open>Relaying\<close>

type_synonym rx_result = "incoming_kind \<times> outgoing_frame option \<times> node_event option"

definition note_origin :: "crypto \<Rightarrow> engine \<Rightarrow> bytes \<Rightarrow> u64 \<Rightarrow> engine" where
  "note_origin C e b now_ms =
     (case decode_frame b of
        Inl _ \<Rightarrow> e
      | Inr (_, body) \<Rightarrow>
          (case cache_key_of_frame C b body of
             None \<Rightarrow> e
           | Some key \<Rightarrow>
               e\<lparr> en_relay_cache := snd (RelayCache_observe (en_relay_cache e) key now_ms) \<rparr>))"

definition transit :: "crypto \<Rightarrow> engine \<Rightarrow> bytes \<Rightarrow> header \<Rightarrow> u64 \<Rightarrow> rx_result \<times> engine" where
  "transit C e frame h now_ms =
     (let body = bslice 28 (length frame - 2) frame;
          key = cache_key C (bslice 0 28 frame) body;
          (seen, cache) = RelayCache_observe (en_relay_cache e) key now_ms;
          e = e\<lparr> en_relay_cache := cache \<rparr> in
      case seen of
        ObserveDuplicate \<Rightarrow> ((Ignore, None, None), e)
      | ObserveNew \<Rightarrow>
          if \<not> should_forward (h_hops h) False False then ((Ignore, None, None), e)
          else
            (case prepare_forward frame (replicate MAX_FRAME_LEN 0) of
               (Inr len, out) \<Rightarrow>
                 ((Forward,
                   Some \<lparr> of_len = len, of_frame = out, of_contact_id = None,
                          of_is_ack = False, of_is_retry_echo = False \<rparr>,
                   None), e)
             | (Inl _, _) \<Rightarrow> ((Ignore, None, None), e)))"

section \<open>Acknowledging\<close>

definition ack_header :: "crypto \<Rightarrow> engine \<Rightarrow> nat \<Rightarrow> u32 \<Rightarrow> u64 \<Rightarrow> u32 \<Rightarrow> header" where
  "ack_header C e slot epoch sq packet_id =
     (let (dst, src) = frame_addresses C e slot epoch in
      \<lparr> h_version = VERSION_SECURE, h_flags = 0, h_dst = of_be dst, h_src = of_be src,
        h_packet_id = packet_id, h_hops = 1, h_epoch = epoch, h_sequence = sq \<rparr>)"

definition ack_plaintext :: "header \<Rightarrow> bytes" where
  "ack_plaintext data_h =
     put_at 13 (be32 (h_packet_id data_h)) (put_at 5 (be64 (h_sequence data_h))
       (put_at 1 (be32 (h_epoch data_h)) (put_at 0 [BODY_ACK] (replicate 17 0))))"

definition ack_frame :: "crypto \<Rightarrow> bytes \<Rightarrow> header \<Rightarrow> header \<Rightarrow> (nat \<times> bytes) option" where
  "ack_frame C key h data_h =
     (let n12 = nonce (h_epoch h) (h_sequence h);
          aad = frame_aad h (of_nat (17 + TAG_LEN)) in
      case encrypt_data C key n12 aad (ack_plaintext data_h) (replicate (17 + TAG_LEN) 0) of
        (Inl _, _) \<Rightarrow> None
      | (Inr ct_len, body) \<Rightarrow>
          (case encode_frame h (take ct_len body) (replicate MAX_FRAME_LEN 0) of
             (Inl _, _) \<Rightarrow> None
           | (Inr len, frm) \<Rightarrow> Some (len, frm)))"

text \<open>Each \<open>?\<close> leaves what was staged before it in place.\<close>

definition ack_stage :: "engine \<Rightarrow> nat \<Rightarrow> engine option" where
  "ack_stage e slot =
     (let c = en_contacts e ! slot in
      if c_tx_next c \<ge> c_tx_reserved c then
        (case checked_add (c_tx_next c) SEQ_RESERVE_BLOCK of
           None \<Rightarrow> None
         | Some new_reserved \<Rightarrow> Some (stage_persist (StTxReserve slot new_reserved) e))
      else Some (stage_persist StRxAccept e))"

definition build_ack ::
  "crypto \<Rightarrow> engine \<Rightarrow> nat \<Rightarrow> header \<Rightarrow> u32 \<Rightarrow> outgoing_frame option \<times> engine" where
  "build_ack C e slot data_h packet_id =
     (if \<not> en_time_valid e then (None, e)
      else
        let epoch = Engine_epoch e in
        case ack_stage e slot of
          None \<Rightarrow> (None, e)
        | Some e \<Rightarrow>
            let sq = c_tx_next (en_contacts e ! slot) in
            (case outgoing_key C e slot epoch of
               Inl _ \<Rightarrow> (None, e)
             | Inr key \<Rightarrow>
                 (case ack_frame C key (ack_header C e slot epoch sq packet_id) data_h of
                    None \<Rightarrow> (None, e)
                  | Some (len, frm) \<Rightarrow>
                      let e = upd_contact slot (\<lambda>c. c\<lparr>
                            c_tx_next := sq + 1,
                            c_tx_epoch_max := max (c_tx_epoch_max c) epoch \<rparr>) e;
                          e = e\<lparr> en_persisted_tx_epoch := max (en_persisted_tx_epoch e) epoch \<rparr>;
                          e = stage_persist
                                (case en_staged e of Some op \<Rightarrow> op | None \<Rightarrow> StRxAccept) e
                      in (Some \<lparr> of_len = len, of_frame = frm,
                                 of_contact_id = Some (of_nat (slot + 1)), of_is_ack = True,
                                 of_is_retry_echo = False \<rparr>, e))))"

section \<open>Receiving\<close>

text \<open>What one turn of the slot loop does: \<open>continue\<close>, \<open>continue\<close> after a failed
  authentication, or \<open>return\<close>.\<close>

datatype slot_outcome = SkipSlot | AuthFailed | Return rx_result

definition bump_replay_drops :: "engine \<Rightarrow> engine" where
  "bump_replay_drops e = e\<lparr> en_replay_drops := saturating_add (en_replay_drops e) 1 \<rparr>"

definition rx_data ::
  "crypto \<Rightarrow> engine \<Rightarrow> nat \<Rightarrow> nat \<Rightarrow> header \<Rightarrow> bytes \<Rightarrow> u32 \<Rightarrow> rx_result \<times> engine" where
  "rx_data C e slot win_idx h text ack_packet_id =
     (let contact_id = of_nat (slot + 1);
          c = en_contacts e ! slot;
          (verdict, w) = ReplayWindow_accept (c_win_data c ! win_idx) (h_sequence h);
          e = upd_contact slot (\<lambda>c. c\<lparr> c_win_data := (c_win_data c)[win_idx := w] \<rparr>) e in
      case verdict of
        Accepted \<Rightarrow>
          let e = stage_persist StRxAccept e;
              tb = put_at 0 text (replicate MAX_TEXT_LEN 0);
              ev = Received contact_id (h_epoch h) (h_sequence h) tb (of_nat (length text));
              (ack, e) = build_ack C e slot h ack_packet_id
          in ((Deliver contact_id (of_nat (length text)), ack, Some ev), e)
      | Duplicate \<Rightarrow>
          let e = bump_replay_drops e;
              e = stage_persist StNone e;
              (ack, e) = build_ack C e slot h ack_packet_id
          in ((ReAck contact_id, ack, None), e)
      | Stale \<Rightarrow> ((Ignore, None, None), bump_replay_drops e))"

definition rx_ack :: "engine \<Rightarrow> nat \<Rightarrow> header \<Rightarrow> bytes \<Rightarrow> rx_result \<times> engine" where
  "rx_ack e slot h pt =
     (let contact_id = of_nat (slot + 1);
          ref_epoch = of_be (bslice 1 5 pt);
          ref_seq = of_be (bslice 5 13 pt);
          ref_pid = of_be (bslice 13 17 pt);
          c = en_contacts e ! slot in
      case position (\<lambda>x. x = h_epoch h) (c_win_epochs c) of
        None \<Rightarrow> ((Ignore, None, None), e)
      | Some own_idx \<Rightarrow>
          let (verdict, w) = ReplayWindow_accept (c_win_ack c ! own_idx) (h_sequence h);
              e = upd_contact slot (\<lambda>c. c\<lparr> c_win_ack := (c_win_ack c)[own_idx := w] \<rparr>) e in
          if verdict = Stale \<or> verdict = Duplicate
          then ((Ignore, None, None), bump_replay_drops e)
          else
            let e = stage_persist StRxAccept e in
            case en_pending_send e of
              Some ps \<Rightarrow>
                if ps_contact_id ps = contact_id \<and> ps_epoch ps = ref_epoch \<and>
                   ps_sequence ps = ref_seq \<and> ps_packet_id ps = ref_pid
                then ((Ack contact_id, None,
                       Some (SendAcked contact_id ref_epoch ref_seq ref_pid)), e)
                else ((Ignore, None, None), e)
            | None \<Rightarrow> ((Ignore, None, None), e))"

definition on_frame_slot ::
  "crypto \<Rightarrow> engine \<Rightarrow> header \<Rightarrow> bytes \<Rightarrow> u32 \<Rightarrow> nat \<Rightarrow> slot_outcome \<times> engine" where
  "on_frame_slot C e h body ack_packet_id slot =
     (if \<not> c_present (en_contacts e ! slot) then (SkipSlot, e)
      else
        case position (\<lambda>x. x = h_epoch h) (c_win_epochs (en_contacts e ! slot)) of
          None \<Rightarrow> (SkipSlot, e)
        | Some win_idx \<Rightarrow>
            let e = refresh_aliases C slot e;
                c = en_contacts e ! slot;
                own_a = derive_address C (c_addr_secret c) (en_uid e) (h_epoch h);
                peer_a = derive_address C (c_addr_secret c) (c_peer_identity c) (h_epoch h) in
            if be32 (h_dst h) \<noteq> own_a \<or> be32 (h_src h) \<noteq> peer_a then (SkipSlot, e)
            else
              (case incoming_key C e slot (h_epoch h) of
                 Inl _ \<Rightarrow> (SkipSlot, e)
               | Inr key \<Rightarrow>
                   (case decrypt_data C key (nonce (h_epoch h) (h_sequence h))
                           (frame_aad h (of_nat (length body))) body
                           (replicate (1 + MAX_TEXT_LEN) 0) of
                      (Inl _, _) \<Rightarrow> (AuthFailed, e)
                    | (Inr pt_len, pt) \<Rightarrow>
                        if \<not> is_ok (validate_body (h_flags h) (take pt_len pt))
                        then (SkipSlot, e)
                        else if c_blocked c then (Return (Ignore, None, None), e)
                        else if pt ! 0 = BODY_DATA then
                          (let (r, e) = rx_data C e slot win_idx h (bslice 1 pt_len pt)
                                          ack_packet_id
                           in (Return r, e))
                        else (let (r, e) = rx_ack e slot h pt in (Return r, e)))))"

fun on_frame_slots ::
  "crypto \<Rightarrow> header \<Rightarrow> bytes \<Rightarrow> u32 \<Rightarrow> nat list \<Rightarrow> bool \<Rightarrow> engine \<Rightarrow>
     (rx_result option \<times> bool) \<times> engine" where
  "on_frame_slots C h body ack_packet_id [] failed e = ((None, failed), e)"
| "on_frame_slots C h body ack_packet_id (slot # slots) failed e =
     (case on_frame_slot C e h body ack_packet_id slot of
        (SkipSlot, e) \<Rightarrow> on_frame_slots C h body ack_packet_id slots failed e
      | (AuthFailed, e) \<Rightarrow> on_frame_slots C h body ack_packet_id slots True e
      | (Return r, e) \<Rightarrow> ((Some r, failed), e))"

definition on_frame ::
  "crypto \<Rightarrow> engine \<Rightarrow> bytes \<Rightarrow> u64 \<Rightarrow> u32 \<Rightarrow> rx_result \<times> engine" where
  "on_frame C e frame now_ms ack_packet_id =
     (case decode_frame frame of
        Inl _ \<Rightarrow> ((Ignore, None, None), e)
      | Inr (h, body) \<Rightarrow>
          if h_version h \<noteq> VERSION_SECURE then ((Ignore, None, None), e)
          else if h_hops h > 1 then ((Ignore, None, None), e)
          else if \<not> en_provisioned e \<or> en_fault e then transit C e frame h now_ms
          else if \<not> en_time_valid e then transit C e frame h now_ms
          else
            let local_epoch = Engine_epoch e in
            if en_time_valid e \<and> \<not> in_accept_window (h_epoch h) local_epoch
            then transit C e frame h now_ms
            else
              (case on_frame_slots C h body ack_packet_id [0..<MAX_CONTACTS] False e of
                 ((Some r, _), e) \<Rightarrow> (r, e)
               | ((None, failed), e) \<Rightarrow>
                   let e = (if failed
                            then e\<lparr> en_auth_failures := saturating_add (en_auth_failures e) 1 \<rparr>
                            else e)
                   in transit C e frame h now_ms))"

end
