(* ===== verification/Engine_Inv.thy ===== *)
theory Engine_Inv
  imports Engine_Pair Engine_Traffic
begin

text \<open>
  The invariant of the node engine and the lemmas that its operations keep it. \<open>core_inv\<close>
  speaks of the state alone; \<open>settled\<close> is a state with nothing staged, where the code
  accepts the next operation; \<open>staged_ok\<close> is a state with a snapshot staged that
  describes it. Every operation leads from a settled state to a settled or a staged one, and
  committing leads back to a settled one.
\<close>

section \<open>The invariant\<close>

definition contact_inv :: "crypto \<Rightarrow> contact \<Rightarrow> bool" where
  "contact_inv C c \<longleftrightarrow>
     (c_present c \<or> c = Contact_empty) \<and>
     length (c_ed_peer c) = 32 \<and> length (c_peer_identity c) = 8 \<and> length (c_root c) = 32 \<and>
     c_role c \<le> 1 \<and> length (c_win_epochs c) = 3 \<and>
     length (c_win_data c) = 3 \<and> length (c_win_ack c) = 3 \<and>
     list_all rw_ok (c_win_data c) \<and> list_all rw_ok (c_win_ack c) \<and>
     (c_present c \<longrightarrow>
        c_win_epochs c = AnchorHours_slots (ah_anchor (c_anchor c)) \<and>
        c_traffic_lr c = derive_label C (c_root c) LABEL_TRAFFIC_LR \<and>
        c_traffic_rl c = derive_label C (c_root c) LABEL_TRAFFIC_RL \<and>
        c_addr_secret c = derive_label C (c_root c) LABEL_ADDRESS)"

definition contacts_ok :: "crypto \<Rightarrow> engine \<Rightarrow> bool" where
  "contacts_ok C e \<longleftrightarrow>
     length (en_contacts e) = MAX_CONTACTS \<and> list_all (contact_inv C) (en_contacts e)"

definition sizes_ok :: "engine \<Rightarrow> bool" where
  "sizes_ok e \<longleftrightarrow>
     en_label e \<le> 3 \<and> length (en_uid e) = 8 \<and> length (en_sign_priv e) = 32 \<and>
     length (en_persist_scratch e) = PERSIST_LEN \<and> length (en_pending_text e) = MAX_TEXT_LEN \<and>
     unat (en_pending_text_len e) \<le> MAX_TEXT_LEN \<and> cache_ok (en_relay_cache e)"

text \<open>A valid clock has an epoch, every present contact is anchored at it, and no frame was
  sent under a later one.\<close>

definition clock_ok :: "engine \<Rightarrow> bool" where
  "clock_ok e \<longleftrightarrow>
     (\<forall>c \<in> set (en_contacts e). c_tx_epoch_max c \<le> en_persisted_tx_epoch e) \<and>
     (en_time_valid e \<longrightarrow>
        epoch_of_unix (en_unix_seconds e) \<noteq> None \<and>
        en_persisted_tx_epoch e \<le> Engine_epoch e \<and>
        (\<forall>c \<in> set (en_contacts e). c_present c \<longrightarrow> ah_anchor (c_anchor c) = Engine_epoch e))"

text \<open>The reservation of a slot once what is staged has been committed.\<close>

definition staged_reserve :: "staged_commit option \<Rightarrow> nat \<Rightarrow> u64 \<Rightarrow> u64" where
  "staged_reserve st i r0 =
     (case st of Some (StTxReserve slot r) \<Rightarrow> if slot = i then r else r0 | _ \<Rightarrow> r0)"

definition eff_reserved :: "engine \<Rightarrow> nat \<Rightarrow> u64" where
  "eff_reserved e i = staged_reserve (en_staged e) i (c_tx_reserved (en_contacts e ! i))"

lemma staged_reserve_simps [simp]:
  "staged_reserve None i r = r"
  "staged_reserve (Some StNone) i r = r"
  "staged_reserve (Some StProvision) i r = r"
  "staged_reserve (Some (StTime t)) i r = r"
  "staged_reserve (Some (StPairActivate s)) i r = r"
  "staged_reserve (Some StRxAccept) i r = r"
  "staged_reserve (Some (StTxReserve s r')) i r = (if s = i then r' else r)"
  by (simp_all add: staged_reserve_def)

definition reserve_ok :: "engine \<Rightarrow> bool" where
  "reserve_ok e \<longleftrightarrow>
     (\<forall>i < MAX_CONTACTS. c_tx_next (en_contacts e ! i) \<le> eff_reserved e i) \<and>
     (\<forall>slot r. en_staged e = Some (StTxReserve slot r) \<longrightarrow>
        slot < MAX_CONTACTS \<and> c_present (en_contacts e ! slot))"

definition pending_inv :: "engine \<Rightarrow> pending_pair \<Rightarrow> bool" where
  "pending_inv e p \<longleftrightarrow>
     (\<exists>o1. decode_offer_payload (pp_own_offer p) = Inr o1) \<and>
     (\<forall>po. pp_peer_offer p = Some po \<longrightarrow> (\<exists>o2. decode_offer_payload po = Inr o2)) \<and>
     (pp_transcript p \<noteq> None \<longrightarrow> pp_peer_offer p \<noteq> None) \<and>
     (pp_peer_proof p \<noteq> None \<longleftrightarrow> pp_peer_identity p \<noteq> None) \<and>
     pp_own_role p \<le> 1 \<and> pp_slot p < MAX_CONTACTS \<and>
     (en_staged e = Some (StPairActivate (pp_slot p)) \<or>
      \<not> c_present (en_contacts e ! pp_slot p))"

definition pending_ok :: "engine \<Rightarrow> bool" where
  "pending_ok e \<longleftrightarrow> (\<forall>p. en_pending e = Some p \<longrightarrow> pending_inv e p)"

text \<open>A send in progress belongs to a present contact and is not ahead of its anchor.\<close>

definition send_ok :: "engine \<Rightarrow> bool" where
  "send_ok e \<longleftrightarrow>
     (\<forall>ps. en_pending_send e = Some ps \<longrightarrow>
        0 < unat (ps_contact_id ps) \<and> unat (ps_contact_id ps) \<le> MAX_CONTACTS \<and>
        c_present (en_contacts e ! (unat (ps_contact_id ps) - 1)) \<and>
        ps_epoch ps \<le> ah_anchor (c_anchor (en_contacts e ! (unat (ps_contact_id ps) - 1))))"

definition core_inv :: "crypto \<Rightarrow> engine \<Rightarrow> bool" where
  "core_inv C e \<longleftrightarrow>
     contacts_ok C e \<and> sizes_ok e \<and> clock_ok e \<and> reserve_ok e \<and> pending_ok e \<and> send_ok e"

definition settled :: "crypto \<Rightarrow> engine \<Rightarrow> bool" where
  "settled C e \<longleftrightarrow> core_inv C e \<and> \<not> en_persist_dirty e \<and> en_staged e = None"

definition staged_ok :: "crypto \<Rightarrow> engine \<Rightarrow> bool" where
  "staged_ok C e \<longleftrightarrow>
     core_inv C e \<and> en_persist_dirty e \<and> en_staged e \<noteq> None \<and>
     pending_persist e = Some (view_bytes (Engine_persist_view e))"

definition op_ok :: "crypto \<Rightarrow> engine \<Rightarrow> bool" where
  "op_ok C e \<longleftrightarrow> settled C e \<or> staged_ok C e"

named_theorems inv_defs \<open>the parts of the engine invariant\<close>
declare contacts_ok_def [inv_defs] sizes_ok_def [inv_defs] clock_ok_def [inv_defs]
  reserve_ok_def [inv_defs] pending_ok_def [inv_defs] pending_inv_def [inv_defs]
  send_ok_def [inv_defs]
  eff_reserved_def [inv_defs] core_inv_def [inv_defs]

lemma settled_core: "settled C e \<Longrightarrow> core_inv C e"
  by (simp add: settled_def)

lemma settled_op_ok: "settled C e \<Longrightarrow> op_ok C e"
  by (simp add: op_ok_def)

section \<open>Fields the invariant does not read\<close>

lemma Engine_epoch_cong:
  "en_time_valid e' = en_time_valid e \<Longrightarrow> en_unix_seconds e' = en_unix_seconds e \<Longrightarrow>
   Engine_epoch e' = Engine_epoch e"
  by (simp add: Engine_epoch_def)

lemma core_inv_cong:
  assumes "en_contacts e' = en_contacts e" and "en_label e' = en_label e" and "en_uid e' = en_uid e"
    and "en_sign_priv e' = en_sign_priv e"
    and "length (en_persist_scratch e') = length (en_persist_scratch e)"
    and "en_pending_text e' = en_pending_text e"
    and "en_pending_text_len e' = en_pending_text_len e"
    and "en_relay_cache e' = en_relay_cache e" and "en_time_valid e' = en_time_valid e"
    and "en_unix_seconds e' = en_unix_seconds e"
    and "en_persisted_tx_epoch e' = en_persisted_tx_epoch e" and "en_staged e' = en_staged e"
    and "en_pending e' = en_pending e" and "en_pending_send e' = en_pending_send e"
  shows "core_inv C e' = core_inv C e"
  using assms Engine_epoch_cong [of e' e] by (simp add: inv_defs)

lemma core_inv_frame [simp]:
  "core_inv C (e\<lparr> en_mono_s := m \<rparr>) = core_inv C e"
  "core_inv C (e\<lparr> en_utc_mono_s := m \<rparr>) = core_inv C e"
  "core_inv C (e\<lparr> en_radio_on := b \<rparr>) = core_inv C e"
  "core_inv C (e\<lparr> en_radio_available := b \<rparr>) = core_inv C e"
  "core_inv C (e\<lparr> en_armed_next_boot := b \<rparr>) = core_inv C e"
  "core_inv C (e\<lparr> en_provisioned := b \<rparr>) = core_inv C e"
  "core_inv C (e\<lparr> en_uid_set := b \<rparr>) = core_inv C e"
  "core_inv C (e\<lparr> en_sign_set := b \<rparr>) = core_inv C e"
  "core_inv C (e\<lparr> en_fault := b \<rparr>) = core_inv C e"
  "core_inv C (e\<lparr> en_persist_len := k \<rparr>) = core_inv C e"
  "core_inv C (e\<lparr> en_persist_dirty := b \<rparr>) = core_inv C e"
  "core_inv C (e\<lparr> en_auth_failures := n \<rparr>) = core_inv C e"
  "core_inv C (e\<lparr> en_replay_drops := n \<rparr>) = core_inv C e"
  by (rule core_inv_cong; simp)+

lemma core_inv_no_send [simp]: "core_inv C e \<Longrightarrow> core_inv C (e\<lparr> en_pending_send := None \<rparr>)"
  using Engine_epoch_cong [of "e\<lparr> en_pending_send := None \<rparr>" e] by (simp add: inv_defs)

section \<open>The snapshot\<close>

lemma persist_window_ok: "rw_ok w \<Longrightarrow> win_ok (persist_window w)"
  by (auto simp: persist_window_def rw_ok_def ReplayWindow_highest_def
      ReplayWindow_bitmap_bits_def ReplayWindow_is_empty_def)

lemma persist_contact_wf:
  assumes "contact_inv C c" and "c_tx_next c \<le> r" and "c_present c \<or> r = 0"
  shows "contact_wf ((persist_contact_of c)\<lparr> pc_tx_reserved := r \<rparr>)"
proof -
  have "list_all win_ok (map persist_window ws)" if "list_all rw_ok ws" for ws
    using that by (auto simp: list_all_iff persist_window_ok)
  moreover have "c_present c \<or> c = Contact_empty" using assms(1) by (simp add: contact_inv_def)
  ultimately show ?thesis
    using assms
    by (auto simp: contact_inv_def contact_wf_def persist_contact_of_def AnchorHours_anchor_def
        AnchorHours_new_def Contact_empty_def)
qed

lemma nth_persist_contacts:
  assumes "core_inv C e" and "i < MAX_CONTACTS"
  shows "pv_contacts (Engine_persist_view e) ! i =
    (persist_contact_of (en_contacts e ! i))\<lparr> pc_tx_reserved := eff_reserved e i \<rparr>"
proof -
  have len: "length (en_contacts e) = MAX_CONTACTS"
    using assms(1) by (simp add: inv_defs)
  have self: "(persist_contact_of c)\<lparr> pc_tx_reserved := c_tx_reserved c \<rparr> = persist_contact_of c" for c
    by (simp add: persist_contact_of_def)
  show ?thesis
  proof (cases "en_staged e")
    case None
    with assms len show ?thesis
      by (simp add: Engine_persist_view_def PersistView_new_def Let_def eff_reserved_def self)
  next
    case (Some st)
    with assms len show ?thesis
      by (cases st) (auto simp: Engine_persist_view_def PersistView_new_def Let_def eff_reserved_def
          self nth_list_update staged_reserve_def)
  qed
qed

lemma length_pv_contacts [simp]:
  "length (pv_contacts (Engine_persist_view e)) = length (en_contacts e)"
  by (simp add: Engine_persist_view_def PersistView_new_def Let_def split: option.splits staged_commit.splits)

lemma absent_contact: "contact_inv C c \<Longrightarrow> \<not> c_present c \<Longrightarrow> c = Contact_empty"
  by (simp add: contact_inv_def)

lemma contact_inv_nth: "core_inv C e \<Longrightarrow> i < MAX_CONTACTS \<Longrightarrow> contact_inv C (en_contacts e ! i)"
  by (simp add: inv_defs list_all_length)

lemma Contact_empty_simps [simp]:
  "c_present Contact_empty = False" "c_tx_next Contact_empty = 0" "c_tx_reserved Contact_empty = 0"
  "c_tx_epoch_max Contact_empty = 0" "c_blocked Contact_empty = False"
  by (simp_all add: Contact_empty_def)

lemma Contact_empty_inv [simp]: "contact_inv C Contact_empty"
  by (simp add: contact_inv_def) (simp add: Contact_empty_def ROLE_L_def list_all_iff)

lemma view_wf_core:
  assumes "core_inv C e"
  shows "view_wf (Engine_persist_view e)"
proof -
  have "contact_wf (pv_contacts (Engine_persist_view e) ! i)" if i: "i < MAX_CONTACTS" for i
  proof -
    have c: "contact_inv C (en_contacts e ! i)" and r: "c_tx_next (en_contacts e ! i) \<le> eff_reserved e i"
      using assms i by (auto simp: contact_inv_nth) (simp add: inv_defs)
    have "eff_reserved e i = 0" if a: "\<not> c_present (en_contacts e ! i)"
    proof -
      have "en_staged e \<noteq> Some (StTxReserve i r)" for r
        using a assms by (auto simp: core_inv_def reserve_ok_def)
      then show ?thesis
        using absent_contact [OF c a]
        by (auto simp: eff_reserved_def staged_reserve_def split: option.split staged_commit.split)
    qed
    then show ?thesis
      using c r persist_contact_wf [of C "en_contacts e ! i" "eff_reserved e i"]
      by (auto simp: nth_persist_contacts [OF assms i])
  qed
  then have "list_all contact_wf (pv_contacts (Engine_persist_view e))"
    using assms by (simp add: list_all_length inv_defs)
  then show ?thesis
    using assms
    by (simp add: view_wf_def inv_defs) (simp add: Engine_persist_view_def PersistView_new_def Let_def)
qed

lemma view_cong:
  assumes "en_provisioned e' = en_provisioned e" and "en_label e' = en_label e"
    and "en_uid e' = en_uid e" and "en_uid_set e' = en_uid_set e"
    and "en_unix_seconds e' = en_unix_seconds e"
    and "en_persisted_tx_epoch e' = en_persisted_tx_epoch e"
    and "en_armed_next_boot e' = en_armed_next_boot e" and "en_sign_priv e' = en_sign_priv e"
    and "en_sign_set e' = en_sign_set e" and "en_contacts e' = en_contacts e"
    and "en_staged e' = en_staged e"
  shows "Engine_persist_view e' = Engine_persist_view e"
  using assms by (simp add: Engine_persist_view_def)

section \<open>Staging and committing\<close>

lemma stage_persist_eq:
  "stage_persist op e = e\<lparr> en_staged := Some op,
     en_persist_scratch := snd (encode_into (Engine_persist_view (e\<lparr> en_staged := Some op \<rparr>))
       (en_persist_scratch e)),
     en_persist_len := fst (encode_into (Engine_persist_view (e\<lparr> en_staged := Some op \<rparr>))
       (en_persist_scratch e)),
     en_persist_dirty := True \<rparr>"
  by (simp add: stage_persist_def Let_def split_def)

lemma stage_fields [simp]:
  "en_staged (stage_persist op e) = Some op" "en_persist_dirty (stage_persist op e)"
  "en_contacts (stage_persist op e) = en_contacts e" "en_pending (stage_persist op e) = en_pending e"
  "en_pending_send (stage_persist op e) = en_pending_send e"
  "en_time_valid (stage_persist op e) = en_time_valid e"
  "en_unix_seconds (stage_persist op e) = en_unix_seconds e"
  "en_uid (stage_persist op e) = en_uid e" "en_fault (stage_persist op e) = en_fault e"
  "en_provisioned (stage_persist op e) = en_provisioned e"
  "en_persisted_tx_epoch (stage_persist op e) = en_persisted_tx_epoch e"
  "en_pending_text (stage_persist op e) = en_pending_text e"
  "en_pending_text_len (stage_persist op e) = en_pending_text_len e"
  "en_relay_cache (stage_persist op e) = en_relay_cache e"
  "Engine_epoch (stage_persist op e) = Engine_epoch e"
  by (simp_all add: stage_persist_eq Engine_epoch_def)

lemma stage_scratch:
  assumes "core_inv C (e\<lparr> en_staged := Some op \<rparr>)"
  shows "en_persist_scratch (stage_persist op e) = view_bytes (Engine_persist_view (e\<lparr> en_staged := Some op \<rparr>))"
    and "en_persist_len (stage_persist op e) = PERSIST_LEN"
proof -
  let ?v = "Engine_persist_view (e\<lparr> en_staged := Some op \<rparr>)"
  have "length (view_bytes ?v) = PERSIST_LEN"
    using assms view_wf_core by (blast intro: length_view_bytes)
  moreover have "length (en_persist_scratch e) = PERSIST_LEN"
    using assms by (simp add: inv_defs)
  ultimately show "en_persist_scratch (stage_persist op e) = view_bytes ?v"
    and "en_persist_len (stage_persist op e) = PERSIST_LEN"
    by (simp_all add: stage_persist_eq encode_into_eq)
qed

lemma stage_staged_ok:
  assumes "core_inv C (e\<lparr> en_staged := Some op \<rparr>)"
  shows "staged_ok C (stage_persist op e)"
proof -
  let ?s = "stage_persist op e" and ?v = "Engine_persist_view (e\<lparr> en_staged := Some op \<rparr>)"
  have len: "length (view_bytes ?v) = PERSIST_LEN"
    using assms view_wf_core by (blast intro: length_view_bytes)
  have v: "Engine_persist_view ?s = ?v"
    by (rule view_cong) (simp_all add: stage_persist_eq)
  have "core_inv C ?s = core_inv C (e\<lparr> en_staged := Some op \<rparr>)"
    using assms stage_scratch [OF assms] len
    by (intro core_inv_cong) (simp_all add: stage_persist_eq inv_defs)
  then show ?thesis
    using assms stage_scratch [OF assms] len
    by (simp add: staged_ok_def pending_persist_def v bslice_whole)
qed

lemma staged_ok_cong:
  assumes "staged_ok C e" and "Engine_persist_view e' = Engine_persist_view e" and "core_inv C e'"
    and "en_staged e' = en_staged e" and "en_persist_dirty e' = en_persist_dirty e"
    and "en_persist_len e' = en_persist_len e" and "en_persist_scratch e' = en_persist_scratch e"
  shows "staged_ok C e'"
  using assms by (auto simp: staged_ok_def pending_persist_def)

text \<open>Replacing what is staged.\<close>

lemma core_inv_restage:
  assumes "core_inv C e"
    and "\<And>j. j < MAX_CONTACTS \<Longrightarrow>
      c_tx_next (en_contacts e ! j) \<le> staged_reserve st j (c_tx_reserved (en_contacts e ! j))"
    and "\<And>i r. st = Some (StTxReserve i r) \<Longrightarrow> i < MAX_CONTACTS \<and> c_present (en_contacts e ! i)"
    and "\<And>p. en_pending e = Some p \<Longrightarrow>
      st = Some (StPairActivate (pp_slot p)) \<or> \<not> c_present (en_contacts e ! pp_slot p)"
  shows "core_inv C (e\<lparr> en_staged := st \<rparr>)"
proof -
  have "Engine_epoch (e\<lparr> en_staged := st \<rparr>) = Engine_epoch e" by (rule Engine_epoch_cong) simp_all
  moreover have "pending_ok (e\<lparr> en_staged := st \<rparr>)"
    using assms(1,4) by (auto simp: core_inv_def pending_ok_def pending_inv_def)
  moreover have "reserve_ok (e\<lparr> en_staged := st \<rparr>)"
    using assms(2,3) by (auto simp: reserve_ok_def eff_reserved_def)
  ultimately show ?thesis
    using assms(1) by (simp add: core_inv_def contacts_ok_def sizes_ok_def clock_ok_def send_ok_def)
qed

text \<open>From a state with nothing staged, what is staged besides a reservation or an activation
  makes no difference.\<close>

definition plain_stage :: "staged_commit \<Rightarrow> bool" where
  "plain_stage op \<longleftrightarrow> op = StNone \<or> op = StProvision \<or> (\<exists>t. op = StTime t) \<or> op = StRxAccept"

lemma plain_stage_simps [simp]: "plain_stage StNone" "plain_stage StProvision"
  "plain_stage (StTime t)" "plain_stage StRxAccept"
  by (auto simp: plain_stage_def)

lemma unstaged_reserve:
  "core_inv C e \<Longrightarrow> en_staged e = None \<Longrightarrow> j < MAX_CONTACTS \<Longrightarrow>
   c_tx_next (en_contacts e ! j) \<le> c_tx_reserved (en_contacts e ! j)"
  by (simp add: inv_defs)

lemma unstaged_pending:
  "core_inv C e \<Longrightarrow> en_staged e = None \<Longrightarrow> en_pending e = Some p \<Longrightarrow>
   \<not> c_present (en_contacts e ! pp_slot p)"
  by (simp add: inv_defs)

lemma core_inv_stage:
  assumes "core_inv C e" and "en_staged e = None" and "plain_stage op"
  shows "core_inv C (e\<lparr> en_staged := Some op \<rparr>)"
  using assms
  by (intro core_inv_restage) (auto simp: plain_stage_def dest: unstaged_reserve unstaged_pending)

lemma upd_contact_fields [simp]:
  "en_staged (upd_contact i f e) = en_staged e" "en_pending (upd_contact i f e) = en_pending e"
  "en_pending_send (upd_contact i f e) = en_pending_send e"
  "en_persist_dirty (upd_contact i f e) = en_persist_dirty e"
  "en_time_valid (upd_contact i f e) = en_time_valid e"
  "en_unix_seconds (upd_contact i f e) = en_unix_seconds e"
  "en_persisted_tx_epoch (upd_contact i f e) = en_persisted_tx_epoch e"
  "en_uid (upd_contact i f e) = en_uid e" "en_fault (upd_contact i f e) = en_fault e"
  "en_provisioned (upd_contact i f e) = en_provisioned e"
  "en_pending_text (upd_contact i f e) = en_pending_text e"
  "en_pending_text_len (upd_contact i f e) = en_pending_text_len e"
  "en_relay_cache (upd_contact i f e) = en_relay_cache e"
  "length (en_contacts (upd_contact i f e)) = length (en_contacts e)"
  "Engine_epoch (upd_contact i f e) = Engine_epoch e"
  by (simp_all add: upd_contact_def Engine_epoch_def)

lemma upd_contact_staged:
  "upd_contact i f (e\<lparr> en_staged := st \<rparr>) = (upd_contact i f e)\<lparr> en_staged := st \<rparr>"
  by (cases e) (simp add: upd_contact_def)

lemma nth_upd_contact:
  "j < length (en_contacts e) \<Longrightarrow>
   en_contacts (upd_contact i f e) ! j =
     (if i = j then f (en_contacts e ! j) else en_contacts e ! j)"
  by (auto simp: upd_contact_def nth_list_update)

text \<open>Changing one contact: what has to be shown of the new contact. The conditions mirror the
  parts of the invariant.\<close>

lemma core_inv_upd:
  assumes "core_inv C e" and "i < MAX_CONTACTS"
    and c: "c = en_contacts e ! i"
    and "contact_inv C (f c)" and "c_present (f c) = c_present c"
    and "ah_anchor (c_anchor (f c)) = ah_anchor (c_anchor c)"
    and "c_tx_epoch_max (f c) \<le> en_persisted_tx_epoch e"
    and "c_tx_next (f c) \<le> staged_reserve (en_staged e) i (c_tx_reserved (f c))"
  shows "core_inv C (upd_contact i f e)"
proof -
  have len: "length (en_contacts e) = MAX_CONTACTS" using assms(1) by (simp add: inv_defs)
  then have nth: "en_contacts (upd_contact i f e) ! j =
      (if i = j then f (en_contacts e ! j) else en_contacts e ! j)" if "j < MAX_CONTACTS" for j
    using that by (simp add: nth_upd_contact)
  have all: "(\<forall>x \<in> set (en_contacts (upd_contact i f e)). P x) \<longleftrightarrow>
      (\<forall>j < MAX_CONTACTS. P (if i = j then f (en_contacts e ! j) else en_contacts e ! j))" for P
    using len nth by (auto simp: all_set_conv_all_nth)
  have old: "(\<forall>x \<in> set (en_contacts e). P x) \<longleftrightarrow> (\<forall>j < MAX_CONTACTS. P (en_contacts e ! j))" for P
    using len by (auto simp: all_set_conv_all_nth)
  show ?thesis
    using assms
    unfolding core_inv_def contacts_ok_def clock_ok_def reserve_ok_def pending_ok_def pending_inv_def
      list_all_iff all old sizes_ok_def eff_reserved_def send_ok_def
    by (auto simp: nth len upd_contact_def [of i f e, THEN arg_cong [where f = en_label]]
        upd_contact_def [of i f e, THEN arg_cong [where f = en_sign_priv]]
        upd_contact_def [of i f e, THEN arg_cong [where f = en_persist_scratch]])
qed

lemma commit_settled:
  assumes "staged_ok C e"
  shows "settled C (commit_ok e)"
proof -
  have core: "core_inv C e" and ne: "en_staged e \<noteq> None"
    using assms by (simp_all add: staged_ok_def)
  then have len: "length (en_contacts e) = MAX_CONTACTS" by (simp add: inv_defs)
  have pend: "\<not> c_present (en_contacts e ! pp_slot p)"
    if "en_pending e = Some p" "\<And>i. en_staged e \<noteq> Some (StPairActivate i)" for p
    using core that by (auto simp: core_inv_def pending_ok_def pending_inv_def)
  have slot_lt: "pp_slot p < MAX_CONTACTS" if "en_pending e = Some p" for p
    using core that by (auto simp: core_inv_def pending_ok_def pending_inv_def)
  have res: "c_tx_next (en_contacts e ! j) \<le>
      staged_reserve (en_staged e) j (c_tx_reserved (en_contacts e ! j))" if "j < MAX_CONTACTS" for j
    using core that by (simp add: core_inv_def reserve_ok_def eff_reserved_def)
  show ?thesis
  proof (cases "\<exists>i r. en_staged e = Some (StTxReserve i r)")
    case True
    then obtain i r where st: "en_staged e = Some (StTxReserve i r)" by blast
    have i: "i < MAX_CONTACTS" "c_present (en_contacts e ! i)"
      using core st by (auto simp: core_inv_def reserve_ok_def)
    let ?f = "\<lambda>c. c\<lparr> c_tx_reserved := r \<rparr>"
    have ci: "contact_inv C (en_contacts e ! i)" using core i by (simp add: contact_inv_nth)
    then have "contact_inv C (?f (en_contacts e ! i))"
      using i by (simp add: contact_inv_def)
    moreover have "c_tx_epoch_max (en_contacts e ! i) \<le> en_persisted_tx_epoch e"
      using core i len by (simp add: core_inv_def clock_ok_def)
    ultimately have "core_inv C (upd_contact i ?f e)"
      using core i res [OF i(1)] by (intro core_inv_upd [OF _ _ refl]) (simp_all add: st)
    then have "core_inv C ((upd_contact i ?f e)\<lparr> en_staged := None \<rparr>)"
    proof (rule core_inv_restage)
      show "c_tx_next (en_contacts (upd_contact i ?f e) ! j) \<le>
          staged_reserve None j (c_tx_reserved (en_contacts (upd_contact i ?f e) ! j))"
        if "j < MAX_CONTACTS" for j
        using res [OF that] that by (simp add: nth_upd_contact len st split: if_splits)
      show "None = Some (StPairActivate (pp_slot p)) \<or>
          \<not> c_present (en_contacts (upd_contact i ?f e) ! pp_slot p)"
        if "en_pending (upd_contact i ?f e) = Some p" for p
        using that pend [of p] slot_lt [of p] by (auto simp: nth_upd_contact len st)
    qed simp
    then show ?thesis
      using i len by (simp add: settled_def commit_ok_def st Let_def upd_contact_staged)
  next
    case False
    then have res': "c_tx_next (en_contacts e ! j) \<le> c_tx_reserved (en_contacts e ! j)"
      if "j < MAX_CONTACTS" for j
      using res [OF that] by (auto simp: staged_reserve_def split: option.splits staged_commit.splits)
    show ?thesis
    proof (cases "\<exists>i. en_staged e = Some (StPairActivate i)")
      case True
      have "core_inv C (e\<lparr> en_pending := None \<rparr>)"
        using core Engine_epoch_cong [of "e\<lparr> en_pending := None \<rparr>" e] by (simp add: inv_defs)
      then have "core_inv C (e\<lparr> en_pending := None, en_staged := None \<rparr>)"
        using res' by (intro core_inv_restage) simp_all
      then have "core_inv C (e\<lparr> en_staged := None, en_pending := None \<rparr>)"
        using core_inv_cong [of "e\<lparr> en_staged := None, en_pending := None \<rparr>"
            "e\<lparr> en_pending := None, en_staged := None \<rparr>" C] by simp
      with True show ?thesis by (auto simp: settled_def commit_ok_def Let_def)
    next
      case no: False
      then have "core_inv C (e\<lparr> en_staged := None \<rparr>)"
        using core res' pend by (intro core_inv_restage) auto
      moreover have "commit_ok e = e\<lparr> en_staged := None, en_persist_dirty := False \<rparr>"
        using False no by (auto simp: commit_ok_def Let_def split: option.splits staged_commit.splits)
      ultimately show ?thesis by (simp add: settled_def)
    qed
  qed
qed

end
