(* ===== verification/Engine_Time.thy ===== *)
theory Engine_Time
  imports Engine_Inv
begin

text \<open>
  The operations of \<open>Engine_Ops\<close> keep the invariant of the engine: identity, provisioning,
  radio state, boot arming, trusted time with its move of the receive windows, contact
  removal and blocking.
\<close>

section \<open>Identity, provisioning, radio\<close>

lemma stage_plain:
  "core_inv C e \<Longrightarrow> en_staged e = None \<Longrightarrow> plain_stage op \<Longrightarrow> staged_ok C (stage_persist op e)"
  by (intro stage_staged_ok core_inv_stage)

lemma op_ok_stage_plain:
  "core_inv C e \<Longrightarrow> en_staged e = None \<Longrightarrow> plain_stage op \<Longrightarrow> op_ok C (stage_persist op e)"
  by (simp add: op_ok_def stage_plain)

lemma set_mono_s_ok: "settled C e \<Longrightarrow> settled C (set_mono_s e now)"
  by (simp add: settled_def set_mono_s_def)

lemma set_radio_available_ok: "settled C e \<Longrightarrow> settled C (set_radio_available e b)"
  by (simp add: settled_def set_radio_available_def Let_def)

lemma core_inv_uid: "core_inv C e \<Longrightarrow> length uid = 8 \<Longrightarrow> core_inv C (e\<lparr> en_uid := uid \<rparr>)"
  using Engine_epoch_cong [of "e\<lparr> en_uid := uid \<rparr>" e] by (simp add: inv_defs)

lemma set_identity_ok: "settled C e \<Longrightarrow> length uid = 8 \<Longrightarrow> op_ok C (set_identity e uid)"
  by (auto simp: set_identity_def settled_def core_inv_uid op_ok_def intro: stage_plain)

lemma core_inv_sign:
  "core_inv C e \<Longrightarrow> length k = 32 \<Longrightarrow> label \<le> 3 \<Longrightarrow>
   core_inv C (e\<lparr> en_label := label, en_sign_priv := k \<rparr>)"
  using Engine_epoch_cong [of "e\<lparr> en_label := label, en_sign_priv := k \<rparr>" e]
  by (simp add: inv_defs)

lemma provision_ok: "settled C e \<Longrightarrow> length k = 32 \<Longrightarrow> op_ok C (snd (provision e label k))"
  by (auto simp: provision_def settled_def core_inv_sign not_less op_ok_def intro: stage_plain)

lemma set_radio_ok: "settled C e \<Longrightarrow> op_ok C (snd (set_radio e b))"
  by (auto simp: set_radio_def settled_def Let_def op_ok_def intro: stage_plain)

lemma arm_next_boot_ok: "settled C e \<Longrightarrow> op_ok C (snd (arm_next_boot e))"
  by (auto simp: arm_next_boot_def settled_def op_ok_def intro: stage_plain split: sum.split)

lemma consume_boot_arm_ok: "settled C e \<Longrightarrow> op_ok C (snd (consume_boot_arm e))"
  by (auto simp: consume_boot_arm_def settled_def Let_def op_ok_def intro: stage_plain)

section \<open>Moving the windows\<close>

lemma position_Some: "position P xs = Some i \<Longrightarrow> i < length xs \<and> P (xs ! i)"
  by (induction xs arbitrary: i) (auto split: if_splits)

lemma position_None: "position P xs = None \<longleftrightarrow> (\<forall>x \<in> set xs. \<not> P x)"
  by (induction xs) auto

text \<open>The first position: no earlier element satisfies the predicate.\<close>

lemma position_first: "position P xs = Some i \<Longrightarrow> j < i \<Longrightarrow> \<not> P (xs ! j)"
proof (induction xs arbitrary: i j)
  case (Cons x xs)
  then show ?case by (cases j) (auto split: if_splits)
qed simp

lemma slots_shape: "AnchorHours_slots e = [saturating_sub e 1, e, saturating_add e 1]"
  by (simp add: AnchorHours_slots_def)

lemma length_3: "length xs = 3 \<longleftrightarrow> (\<exists>a b c. xs = [a, b, c])"
  by (auto simp: numeral_3_eq_3 length_Suc_conv)

lemma nth_move_windows:
  assumes "length new = 3" and "length ws = 3" and "i < 3"
  shows "move_windows new old init ws ! i =
    (case position (\<lambda>x. x = new ! i) old of Some k \<Rightarrow> ws ! k | None \<Rightarrow> ReplayWindow_new)"
proof -
  define g where "g e = (case position (\<lambda>x. x = e) old of
    Some k \<Rightarrow> ws ! k | None \<Rightarrow> ReplayWindow_new)" for e
  have step: "(case position (\<lambda>x. x = e) old of Some old_i \<Rightarrow> nd[j := ws ! old_i]
      | None \<Rightarrow> if e \<in> set init \<or> e \<notin> set old then nd[j := ReplayWindow_new] else nd) =
      nd[j := g e]" for nd j e
  proof (cases "position (\<lambda>x. x = e) old")
    case None
    then have "e \<notin> set old" by (auto simp: position_None)
    with None show ?thesis by (simp add: g_def)
  qed (simp add: g_def)
  from assms obtain a b c x y z where "new = [a, b, c]" "ws = [x, y, z]"
    by (auto simp: length_3)
  moreover have eq: "(\<lambda>nd (slot_i, e). case position (\<lambda>x. x = e) old of
      Some old_i \<Rightarrow> nd[slot_i := ws ! old_i]
    | None \<Rightarrow> if e \<in> set init \<or> e \<notin> set old then nd[slot_i := ReplayWindow_new] else nd) =
      (\<lambda>nd (slot_i, e). nd[slot_i := g e])"
    by (intro ext) (simp add: split_def step)
  have "move_windows new old init ws = foldl (\<lambda>nd (slot_i, e). nd[slot_i := g e]) ws (enumerate 0 new)"
    unfolding move_windows_def eq ..
  ultimately have "move_windows new old init ws = map g new" by simp
  then show ?thesis using assms by (simp add: g_def)
qed

lemma length_move_windows: "length (move_windows new old init ws) = length ws"
proof -
  have "length (foldl (\<lambda>nd (slot_i, e). case position (\<lambda>x. x = e) old of
         Some old_i \<Rightarrow> nd[slot_i := ws ! old_i]
       | None \<Rightarrow> if e \<in> set init \<or> e \<notin> set old then nd[slot_i := ReplayWindow_new] else nd)
       nd ps) = length nd" for nd ps
    by (induction ps arbitrary: nd) (auto split: option.split)
  then show ?thesis by (simp add: move_windows_def)
qed

lemma move_windows_ok:
  assumes "length new = 3" and "length old = 3" and "length ws = 3" and "list_all rw_ok ws"
  shows "list_all rw_ok (move_windows new old init ws)"
  using assms
  by (auto simp: list_all_length length_move_windows nth_move_windows split: option.split
      dest: position_Some)

definition advanced :: "contact \<Rightarrow> u32 \<Rightarrow> contact" where
  "advanced c n = snd (advance_contact c n)"

lemma advance_contact_eq:
  assumes "ah_anchor (c_anchor c) \<le> n"
  shows "advance_contact c n = (Inr (), advanced c n)"
  using assms by (auto simp: advanced_def advance_contact_def trusted_advance_def Let_def not_less)

lemma advanced_fields:
  assumes "ah_anchor (c_anchor c) \<le> n" and "length (c_win_epochs c) = 3"
  shows "ah_anchor (c_anchor (advanced c n)) = n"
    and "c_win_epochs (advanced c n) = AnchorHours_slots n"
    and "\<exists>init. c_win_data (advanced c n) =
      move_windows (AnchorHours_slots n) (c_win_epochs c) init (c_win_data c) \<and>
      c_win_ack (advanced c n) =
      move_windows (AnchorHours_slots n) (c_win_epochs c) init (c_win_ack c)"
proof -
  obtain a b d where w: "c_win_epochs c = [a, b, d]" using assms(2) by (auto simp: length_3)
  obtain init where t: "trusted_advance (c_anchor c) n = (Inr init, (c_anchor c)\<lparr> ah_anchor := n \<rparr>)"
    using assms(1) by (simp add: trusted_advance_def Let_def flip: not_less)
  have adv: "advanced c n = c\<lparr> c_anchor := (c_anchor c)\<lparr> ah_anchor := n \<rparr>,
      c_win_data := move_windows (AnchorHours_slots n) (c_win_epochs c) init (c_win_data c),
      c_win_ack := move_windows (AnchorHours_slots n) (c_win_epochs c) init (c_win_ack c),
      c_win_epochs := AnchorHours_slots n, c_cached_epoch := - 1 \<rparr>"
    by (simp add: advanced_def advance_contact_def t Let_def slots_shape w)
  show "ah_anchor (c_anchor (advanced c n)) = n"
    "c_win_epochs (advanced c n) = AnchorHours_slots n"
    "\<exists>init. c_win_data (advanced c n) =
      move_windows (AnchorHours_slots n) (c_win_epochs c) init (c_win_data c) \<and>
      c_win_ack (advanced c n) =
      move_windows (AnchorHours_slots n) (c_win_epochs c) init (c_win_ack c)"
    by (auto simp: adv)
qed

lemma advanced_other [simp]:
  "c_present (advanced c n) = c_present c" "c_blocked (advanced c n) = c_blocked c"
  "c_ed_peer (advanced c n) = c_ed_peer c" "c_peer_identity (advanced c n) = c_peer_identity c"
  "c_root (advanced c n) = c_root c" "c_traffic_lr (advanced c n) = c_traffic_lr c"
  "c_traffic_rl (advanced c n) = c_traffic_rl c" "c_addr_secret (advanced c n) = c_addr_secret c"
  "c_role (advanced c n) = c_role c" "c_tx_next (advanced c n) = c_tx_next c"
  "c_tx_reserved (advanced c n) = c_tx_reserved c"
  "c_tx_epoch_max (advanced c n) = c_tx_epoch_max c"
  by (auto simp: advanced_def advance_contact_def Let_def split: prod.split sum.split)

lemma advanced_inv:
  assumes "contact_inv C c" and "c_present c" and "ah_anchor (c_anchor c) \<le> n"
  shows "contact_inv C (advanced c n)"
proof -
  have len: "length (c_win_epochs c) = 3" using assms(1) by (simp add: contact_inv_def)
  obtain init where "c_win_data (advanced c n) =
      move_windows (AnchorHours_slots n) (c_win_epochs c) init (c_win_data c)"
    "c_win_ack (advanced c n) =
      move_windows (AnchorHours_slots n) (c_win_epochs c) init (c_win_ack c)"
    using advanced_fields(3) [OF assms(3) len] by blast
  then show ?thesis
    using assms advanced_fields(1,2) [OF assms(3) len]
    by (simp add: contact_inv_def length_move_windows move_windows_ok)
qed

section \<open>Setting the time\<close>

lemma fold_floor:
  "n \<ge> foldl (\<lambda>fl c. if c_present c then max fl (AnchorHours_anchor (c_anchor c)) else fl) m cs \<longleftrightarrow>
   m \<le> n \<and> (\<forall>c \<in> set cs. c_present c \<longrightarrow> ah_anchor (c_anchor c) \<le> n)"
  by (induction cs arbitrary: m) (auto simp: AnchorHours_anchor_def)

lemma time_floor_le:
  "time_floor e \<le> n \<longleftrightarrow> en_persisted_tx_epoch e \<le> n \<and>
     (\<forall>c \<in> set (en_contacts e). c_present c \<longrightarrow> ah_anchor (c_anchor c) \<le> n)"
  by (simp add: time_floor_def fold_floor)

definition advanced_all :: "contact list \<Rightarrow> u32 \<Rightarrow> contact list" where
  "advanced_all cs n = map (\<lambda>c. if c_present c then advanced c n else c) cs"

lemma advance_contacts_eq:
  "\<forall>c \<in> set cs. c_present c \<longrightarrow> ah_anchor (c_anchor c) \<le> n \<Longrightarrow>
   advance_contacts cs n = (Inr (), advanced_all cs n)"
  by (induction cs) (auto simp: advanced_all_def advance_contact_eq)

lemma set_time_confirmed_eq:
  "set_time_confirmed e t confirmed =
     (if en_fault e then (Inl StorageFault, e)
      else
        case epoch_of_unix t of
          None \<Rightarrow> (Inl BadRequest, e)
        | Some n \<Rightarrow>
            if \<not> time_floor e \<le> n then (Inl ETimeRollback, e)
            else if \<not> confirmed \<and> en_time_valid e \<and> n > saturating_add (Engine_epoch e) 1
            then (Inl TimeJumpNeedsConfirm, e)
            else
              (Inr n, stage_persist (StTime t)
                 (e\<lparr> en_contacts := advanced_all (en_contacts e) n, en_unix_seconds := t,
                     en_time_valid := True, en_utc_mono_s := en_mono_s e \<rparr>)))"
proof (cases "epoch_of_unix t")
  case (Some n)
  show ?thesis
  proof (cases "time_floor e \<le> n")
    case True
    then have "advance_contacts (en_contacts e) n = (Inr (), advanced_all (en_contacts e) n)"
      by (intro advance_contacts_eq) (simp add: time_floor_le)
    moreover have "\<not> n < time_floor e" using True by simp
    ultimately show ?thesis using Some True by (simp add: set_time_confirmed_def)
  next
    case False
    with Some show ?thesis by (simp add: set_time_confirmed_def not_le)
  qed
qed (simp add: set_time_confirmed_def)

lemma nth_advanced_all:
  "i < length cs \<Longrightarrow> advanced_all cs n ! i =
     (if c_present (cs ! i) then advanced (cs ! i) n else cs ! i)"
  by (simp add: advanced_all_def)

lemma core_inv_set_time:
  assumes "core_inv C e" and "en_staged e = None" and "epoch_of_unix t = Some n"
    and "time_floor e \<le> n"
  shows "core_inv C (e\<lparr> en_contacts := advanced_all (en_contacts e) n, en_unix_seconds := t,
    en_time_valid := True \<rparr>)" (is "core_inv C ?e")
proof -
  have len: "length (en_contacts e) = MAX_CONTACTS" using assms(1) by (simp add: inv_defs)
  have ci: "contact_inv C c" if "c \<in> set (en_contacts e)" for c
    using assms(1) that by (simp add: inv_defs list_all_iff)
  have fl: "en_persisted_tx_epoch e \<le> n"
    "\<And>c. c \<in> set (en_contacts e) \<Longrightarrow> c_present c \<Longrightarrow> ah_anchor (c_anchor c) \<le> n"
    using assms(4) by (auto simp: time_floor_le)
  have ep: "Engine_epoch ?e = n" using assms(3) by (simp add: Engine_epoch_def)
  have "contacts_ok C ?e"
    using ci fl len by (auto simp: contacts_ok_def advanced_all_def list_all_iff advanced_inv)
  moreover have "clock_ok ?e"
    unfolding clock_ok_def ep
    using assms(1,3) fl ci
    by (auto simp: advanced_all_def core_inv_def clock_ok_def contact_inv_def advanced_fields(1))
  moreover have "reserve_ok ?e" "pending_ok ?e"
    using assms(1,2) len
    by (auto simp: core_inv_def reserve_ok_def eff_reserved_def pending_ok_def pending_inv_def
        nth_advanced_all)
  moreover have "sizes_ok ?e" using assms(1) by (simp add: inv_defs)
  moreover have "send_ok ?e"
    unfolding send_ok_def
  proof (intro allI impI)
    fix ps assume ps: "en_pending_send ?e = Some ps"
    let ?i = "unat (ps_contact_id ps) - 1"
    have old: "0 < unat (ps_contact_id ps)" "unat (ps_contact_id ps) \<le> MAX_CONTACTS"
      "c_present (en_contacts e ! ?i)" "ps_epoch ps \<le> ah_anchor (c_anchor (en_contacts e ! ?i))"
      using assms(1) ps by (auto simp: core_inv_def send_ok_def)
    then have "?i < length (en_contacts e)" using len by auto
    moreover from this have "en_contacts e ! ?i \<in> set (en_contacts e)" by simp
    ultimately show "0 < unat (ps_contact_id ps) \<and> unat (ps_contact_id ps) \<le> MAX_CONTACTS \<and>
        c_present (en_contacts ?e ! ?i) \<and> ps_epoch ps \<le> ah_anchor (c_anchor (en_contacts ?e ! ?i))"
      using old fl(2) [of "en_contacts e ! ?i"] ci [of "en_contacts e ! ?i"]
        order_trans [of "ps_epoch ps" "ah_anchor (c_anchor (en_contacts e ! ?i))" n]
      by (auto simp: nth_advanced_all advanced_fields(1) contact_inv_def)
  qed
  ultimately show ?thesis by (simp add: core_inv_def)
qed

lemma set_time_confirmed_ok: "settled C e \<Longrightarrow> op_ok C (snd (set_time_confirmed e t confirmed))"
  by (auto simp: set_time_confirmed_eq settled_def core_inv_set_time op_ok_def
      intro: stage_plain split: option.split)

lemma core_inv_invalidate: "core_inv C e \<Longrightarrow> core_inv C (e\<lparr> en_time_valid := False \<rparr>)"
  by (simp add: core_inv_def contacts_ok_def sizes_ok_def clock_ok_def reserve_ok_def
      eff_reserved_def pending_ok_def pending_inv_def send_ok_def)

lemma core_inv_tick:
  assumes "core_inv C e" and "epoch_of_unix t = Some (Engine_epoch e)"
  shows "core_inv C (e\<lparr> en_unix_seconds := t \<rparr>)"
proof -
  have "Engine_epoch (e\<lparr> en_unix_seconds := t \<rparr>) = Engine_epoch e"
    if "en_time_valid e"
    using assms(2) that by (simp add: Engine_epoch_def)
  then show ?thesis
    using assms
    by (auto simp: core_inv_def contacts_ok_def sizes_ok_def clock_ok_def reserve_ok_def
        eff_reserved_def pending_ok_def pending_inv_def send_ok_def)
qed

lemma advance_time_ok: "settled C e \<Longrightarrow> op_ok C (snd (advance_time e now))"
proof -
  assume s: "settled C e"
  let ?e = "e\<lparr> en_mono_s := now \<rparr>"
  have s': "settled C ?e" using s by (simp add: settled_def)
  have inval: "settled C (?e\<lparr> en_time_valid := False \<rparr>)"
    using s' by (simp add: settled_def core_inv_invalidate)
  have tick: "settled C (?e\<lparr> en_unix_seconds := t, en_utc_mono_s := now \<rparr>)"
    if "epoch_of_unix t = Some (Engine_epoch ?e)" for t
    using s' core_inv_tick [OF settled_core [OF s'] that] by (simp add: settled_def)
  show ?thesis
    using s s' inval tick set_time_confirmed_ok [OF s', of _ False]
    by (auto simp: advance_time_def Let_def set_time_def split_def
        intro: settled_op_ok split: option.splits sum.splits prod.splits)
qed

section \<open>Contact removal and blocking\<close>

lemma slot_of_Inr:
  "slot_of e cid = Inr slot \<longleftrightarrow>
     0 < unat cid \<and> unat cid \<le> MAX_CONTACTS \<and> slot = unat cid - 1 \<and>
     c_present (en_contacts e ! slot)"
proof -
  have "unat (cid - 1) = unat cid - 1" if "0 < unat cid"
    using that by (simp add: unat_sub word_le_nat_alt)
  then show ?thesis
    by (auto simp: slot_of_def Let_def word_less_nat_alt not_less not_le)
qed

lemma slot_of_less: "slot_of e cid = Inr slot \<Longrightarrow> slot < MAX_CONTACTS"
  by (auto simp: slot_of_Inr)

lemma core_inv_delete:
  assumes "core_inv C e" and "en_staged e = None" and "i < MAX_CONTACTS"
    and "\<And>ps. s = Some ps \<Longrightarrow> en_pending_send e = Some ps \<and> unat (ps_contact_id ps) - 1 \<noteq> i"
  shows "core_inv C ((upd_contact i (\<lambda>_. Contact_empty) e)\<lparr> en_pending_send := s \<rparr>)"
    (is "core_inv C ?e")
proof -
  have len: "length (en_contacts e) = MAX_CONTACTS" using assms(1) by (simp add: inv_defs)
  have sub: "set (en_contacts ?e) \<subseteq> insert Contact_empty (set (en_contacts e))"
    by (simp add: upd_contact_def set_update_subset_insert)
  have nth: "en_contacts ?e ! j = (if i = j then Contact_empty else en_contacts e ! j)"
    if "j < MAX_CONTACTS" for j
    using that len by (simp add: nth_upd_contact)
  have ep: "Engine_epoch ?e = Engine_epoch e" by (simp add: Engine_epoch_def)
  have "contacts_ok C ?e" "clock_ok ?e"
    using assms(1) sub len
    by (fastforce simp: core_inv_def contacts_ok_def clock_ok_def list_all_iff ep)+
  moreover have "reserve_ok ?e" "pending_ok ?e"
    using assms(1-3) nth
    by (auto simp: core_inv_def reserve_ok_def eff_reserved_def pending_ok_def pending_inv_def)
  moreover have "sizes_ok ?e"
    using assms(1) by (simp add: core_inv_def sizes_ok_def upd_contact_def)
  moreover have "send_ok ?e"
    unfolding send_ok_def
  proof (intro allI impI)
    fix ps assume ps: "en_pending_send ?e = Some ps"
    define j where "j = unat (ps_contact_id ps) - 1"
    have "en_pending_send e = Some ps" and ne: "j \<noteq> i"
      using assms(4) ps by (auto simp: j_def)
    then have old: "0 < unat (ps_contact_id ps)" "unat (ps_contact_id ps) \<le> MAX_CONTACTS"
      "c_present (en_contacts e ! j)" "ps_epoch ps \<le> ah_anchor (c_anchor (en_contacts e ! j))"
      using assms(1) by (auto simp: core_inv_def send_ok_def j_def)
    then have "j < MAX_CONTACTS" by (auto simp: j_def)
    from nth [OF this] old ne
    show "0 < unat (ps_contact_id ps) \<and> unat (ps_contact_id ps) \<le> MAX_CONTACTS \<and>
        c_present (en_contacts ?e ! (unat (ps_contact_id ps) - 1)) \<and>
        ps_epoch ps \<le> ah_anchor (c_anchor (en_contacts ?e ! (unat (ps_contact_id ps) - 1)))"
      unfolding j_def [symmetric] by simp
  qed
  ultimately show ?thesis by (simp add: core_inv_def)
qed

definition send_kept :: "engine \<Rightarrow> u8 \<Rightarrow> pending_send option" where
  "send_kept e cid =
     (case en_pending_send e of
        Some ps \<Rightarrow> if ps_contact_id ps = cid then None else Some ps | None \<Rightarrow> None)"

lemma delete_contact_eq:
  "rbind (check_usable e) (\<lambda>_. slot_of e cid) = Inr slot \<Longrightarrow>
   delete_contact e cid = (Inr (), stage_persist StNone
     ((upd_contact slot (\<lambda>_. Contact_empty) e)\<lparr> en_pending_send := send_kept e cid \<rparr>))"
proof -
  assume slot: "rbind (check_usable e) (\<lambda>_. slot_of e cid) = Inr slot"
  have same: "(upd_contact slot f e)\<lparr> en_pending_send := p \<rparr> = upd_contact slot f e"
    if "en_pending_send e = p" for f p
    using that by (cases e) (simp add: upd_contact_def)
  show ?thesis
    by (cases "en_pending_send e") (simp_all add: slot delete_contact_def Let_def send_kept_def same)
qed

lemma delete_contact_ok: "settled C e \<Longrightarrow> op_ok C (snd (delete_contact e cid))"
proof -
  assume s: "settled C e"
  show ?thesis
  proof (cases "rbind (check_usable e) (\<lambda>_. slot_of e cid)")
    case (Inl err)
    with s show ?thesis by (simp add: delete_contact_def settled_op_ok)
  next
    case (Inr slot)
    then have slot: "slot < MAX_CONTACTS" "slot = unat cid - 1" "0 < unat cid"
      using slot_of_less by (auto simp: slot_of_Inr)
    have "en_pending_send e = Some ps \<and> unat (ps_contact_id ps) - 1 \<noteq> slot"
      if "send_kept e cid = Some ps" for ps
    proof -
      have ps: "en_pending_send e = Some ps" "ps_contact_id ps \<noteq> cid"
        using that by (auto simp: send_kept_def split: option.splits if_splits)
      then have "0 < unat (ps_contact_id ps)"
        using s by (auto simp: settled_def core_inv_def send_ok_def)
      with ps slot show ?thesis by (auto simp: word_unat_eq_iff)
    qed
    then have "core_inv C ((upd_contact slot (\<lambda>_. Contact_empty) e)\<lparr> en_pending_send := send_kept e cid \<rparr>)"
      using s slot by (intro core_inv_delete) (auto simp: settled_def)
    with s show ?thesis
      by (simp add: delete_contact_eq [OF Inr] settled_def op_ok_stage_plain)
  qed
qed

lemma set_blocked_ok: "settled C e \<Longrightarrow> op_ok C (snd (set_blocked e cid b))"
proof -
  assume s: "settled C e"
  show ?thesis
  proof (cases "rbind (check_usable e) (\<lambda>_. slot_of e cid)")
    case (Inl err)
    with s show ?thesis by (simp add: set_blocked_def settled_op_ok)
  next
    case (Inr slot)
    let ?e = "upd_contact slot (\<lambda>c. c\<lparr> c_blocked := b \<rparr>) e"
    have i: "slot < MAX_CONTACTS" "c_present (en_contacts e ! slot)"
      using Inr slot_of_less by (auto simp: slot_of_Inr)
    have len: "length (en_contacts e) = MAX_CONTACTS"
      using s by (simp add: settled_def inv_defs)
    have "contact_inv C (en_contacts e ! slot)"
      using s i by (simp add: settled_def contact_inv_nth)
    then have "contact_inv C ((en_contacts e ! slot)\<lparr> c_blocked := b \<rparr>)"
      using i by (simp add: contact_inv_def)
    then have "core_inv C ?e"
      using s i len unstaged_reserve [of C e slot]
      by (intro core_inv_upd [OF _ _ refl]) (auto simp: settled_def inv_defs)
    then have st: "staged_ok C (stage_persist StNone ?e)"
      using s by (simp add: stage_plain settled_def)
    moreover from st have "staged_ok C ((stage_persist StNone ?e)\<lparr> en_pending_send := None \<rparr>)"
      by (rule staged_ok_cong) (use st in \<open>simp_all add: staged_ok_def Engine_persist_view_def\<close>)
    ultimately show ?thesis
      using Inr by (auto simp: set_blocked_def Let_def op_ok_def split: option.split)
  qed
qed

end
