(* ===== verification/Engine_Rx.thy ===== *)
theory Engine_Rx
  imports Engine_Time
begin

text \<open>
  The operations of \<open>Engine_Traffic\<close> keep the invariant of the engine: a send is begun,
  emitted and completed, a frame is received, acknowledged or relayed.
\<close>

section \<open>Staging over what is staged\<close>

text \<open>What is staged, if anything, is neither a reservation nor an activation.\<close>

definition unreserved :: "engine \<Rightarrow> bool" where
  "unreserved e \<longleftrightarrow> (\<forall>op. en_staged e = Some op \<longrightarrow> plain_stage op)"

lemma unreserved_simps [simp]:
  "en_staged e = None \<Longrightarrow> unreserved e"
  "unreserved (stage_persist op e) = plain_stage op"
  "unreserved (upd_contact i f e) = unreserved e"
  by (simp_all add: unreserved_def)

lemma not_plain [simp]: "\<not> plain_stage (StPairActivate s)" "\<not> plain_stage (StTxReserve i r)"
  by (auto simp: plain_stage_def)

lemma plain_reserve:
  assumes "core_inv C e" and "unreserved e" and "j < MAX_CONTACTS"
  shows "c_tx_next (en_contacts e ! j) \<le> c_tx_reserved (en_contacts e ! j)"
proof -
  have "c_tx_next (en_contacts e ! j) \<le> eff_reserved e j"
    using assms by (simp add: core_inv_def reserve_ok_def)
  moreover have "eff_reserved e j = c_tx_reserved (en_contacts e ! j)"
    using assms(2)
    by (cases "en_staged e") (auto simp: eff_reserved_def unreserved_def plain_stage_def)
  ultimately show ?thesis by simp
qed

lemma plain_pending:
  "core_inv C e \<Longrightarrow> unreserved e \<Longrightarrow> en_pending e = Some p \<Longrightarrow>
   \<not> c_present (en_contacts e ! pp_slot p)"
  by (auto simp: core_inv_def pending_ok_def pending_inv_def unreserved_def)

lemma stage_over:
  assumes "core_inv C e" and "unreserved e" and "plain_stage op"
  shows "staged_ok C (stage_persist op e)"
proof -
  have "staged_reserve (Some op) j r = r" for j r using assms(3) by (auto simp: plain_stage_def)
  moreover have "op \<noteq> StTxReserve i r" for i r using assms(3) by (auto simp: plain_stage_def)
  ultimately show ?thesis
    using assms
    by (intro stage_staged_ok core_inv_restage) (auto dest: plain_reserve plain_pending)
qed

lemma stage_reserve:
  assumes "core_inv C e" and "unreserved e" and "i < MAX_CONTACTS"
    and "c_present (en_contacts e ! i)" and "c_tx_next (en_contacts e ! i) \<le> r"
  shows "staged_ok C (stage_persist (StTxReserve i r) e)"
  using assms
  by (intro stage_staged_ok core_inv_restage) (auto dest: plain_reserve plain_pending)

lemma restage_same:
  assumes "core_inv C e" and "en_staged e = Some op"
  shows "staged_ok C (stage_persist op e)"
proof -
  have "e\<lparr> en_staged := Some op \<rparr> = e" using assms(2) by (cases e) simp
  with assms(1) show ?thesis by (intro stage_staged_ok) simp
qed

section \<open>Aliases\<close>

definition aliased :: "crypto \<Rightarrow> engine \<Rightarrow> contact \<Rightarrow> contact" where
  "aliased C e c = c\<lparr>
     c_aliases := AliasCache_refresh C (c_aliases c) (c_addr_secret c) (en_uid e)
                    (c_peer_identity c) (Engine_epoch e),
     c_cached_epoch := Engine_epoch e \<rparr>"

lemma aliased_fields [simp]:
  "c_present (aliased C e c) = c_present c" "c_blocked (aliased C e c) = c_blocked c"
  "c_ed_peer (aliased C e c) = c_ed_peer c" "c_peer_identity (aliased C e c) = c_peer_identity c"
  "c_root (aliased C e c) = c_root c" "c_traffic_lr (aliased C e c) = c_traffic_lr c"
  "c_traffic_rl (aliased C e c) = c_traffic_rl c" "c_addr_secret (aliased C e c) = c_addr_secret c"
  "c_role (aliased C e c) = c_role c" "c_tx_next (aliased C e c) = c_tx_next c"
  "c_tx_reserved (aliased C e c) = c_tx_reserved c"
  "c_tx_epoch_max (aliased C e c) = c_tx_epoch_max c" "c_anchor (aliased C e c) = c_anchor c"
  "c_win_data (aliased C e c) = c_win_data c" "c_win_ack (aliased C e c) = c_win_ack c"
  "c_win_epochs (aliased C e c) = c_win_epochs c"
  by (simp_all add: aliased_def)

lemma refresh_aliases_cases:
  "refresh_aliases C slot e = e \<or>
   refresh_aliases C slot e = upd_contact slot (aliased C e) e \<and> c_present (en_contacts e ! slot)"
  by (auto simp: refresh_aliases_def aliased_def Let_def upd_contact_def)

lemma refresh_aliases_fields [simp]:
  "en_staged (refresh_aliases C slot e) = en_staged e"
  "en_pending (refresh_aliases C slot e) = en_pending e"
  "en_pending_send (refresh_aliases C slot e) = en_pending_send e"
  "en_persist_dirty (refresh_aliases C slot e) = en_persist_dirty e"
  "en_time_valid (refresh_aliases C slot e) = en_time_valid e"
  "en_unix_seconds (refresh_aliases C slot e) = en_unix_seconds e"
  "en_persisted_tx_epoch (refresh_aliases C slot e) = en_persisted_tx_epoch e"
  "en_uid (refresh_aliases C slot e) = en_uid e"
  "en_fault (refresh_aliases C slot e) = en_fault e"
  "en_provisioned (refresh_aliases C slot e) = en_provisioned e"
  "en_pending_text (refresh_aliases C slot e) = en_pending_text e"
  "en_pending_text_len (refresh_aliases C slot e) = en_pending_text_len e"
  "en_relay_cache (refresh_aliases C slot e) = en_relay_cache e"
  "length (en_contacts (refresh_aliases C slot e)) = length (en_contacts e)"
  "Engine_epoch (refresh_aliases C slot e) = Engine_epoch e"
  using refresh_aliases_cases [of C slot e] by auto

text \<open>Refreshing aliases changes no contact in anything but its cache.\<close>

lemma nth_refresh_aliases:
  assumes "j < length (en_contacts e)"
  shows "en_contacts (refresh_aliases C slot e) ! j = en_contacts e ! j \<or>
    en_contacts (refresh_aliases C slot e) ! j = aliased C e (en_contacts e ! j)"
  using refresh_aliases_cases [of C slot e] assms by (auto simp: nth_upd_contact)

lemma core_inv_refresh:
  assumes "core_inv C e" and "slot < MAX_CONTACTS"
  shows "core_inv C (refresh_aliases C slot e)"
proof (cases "refresh_aliases C slot e = e")
  case False
  then have eq: "refresh_aliases C slot e = upd_contact slot (aliased C e) e"
    and pr: "c_present (en_contacts e ! slot)"
    using refresh_aliases_cases by blast+
  have "contact_inv C (en_contacts e ! slot)"
    using assms by (simp add: contact_inv_nth)
  then have "contact_inv C (aliased C e (en_contacts e ! slot))"
    using pr by (simp add: contact_inv_def)
  moreover have "c_tx_epoch_max (en_contacts e ! slot) \<le> en_persisted_tx_epoch e"
    "c_tx_next (en_contacts e ! slot) \<le> eff_reserved e slot"
    using assms by (auto simp: core_inv_def clock_ok_def contacts_ok_def reserve_ok_def)
  ultimately show ?thesis
    unfolding eq using assms by (intro core_inv_upd [OF _ _ refl]) (simp_all add: eff_reserved_def)
qed (simp add: assms)

lemma settled_refresh:
  "settled C e \<Longrightarrow> slot < MAX_CONTACTS \<Longrightarrow> settled C (refresh_aliases C slot e)"
  by (simp add: settled_def core_inv_refresh)

section \<open>Sending\<close>

text \<open>Raising the durable epoch and using up one sequence number of a contact.\<close>

definition used_one :: "nat \<Rightarrow> u32 \<Rightarrow> engine \<Rightarrow> engine" where
  "used_one slot ep e =
     (upd_contact slot (\<lambda>c. c\<lparr>
        c_tx_next := c_tx_next c + 1, c_tx_epoch_max := max (c_tx_epoch_max c) ep \<rparr>) e)
     \<lparr> en_persisted_tx_epoch := max (en_persisted_tx_epoch e) ep \<rparr>"

lemma core_inv_raise_epoch:
  assumes "core_inv C e" and "en_time_valid e \<Longrightarrow> ep \<le> Engine_epoch e"
  shows "core_inv C (e\<lparr> en_persisted_tx_epoch := max (en_persisted_tx_epoch e) ep \<rparr>)"
proof -
  have "Engine_epoch (e\<lparr> en_persisted_tx_epoch := m \<rparr>) = Engine_epoch e" for m
    by (simp add: Engine_epoch_def)
  then show ?thesis
    using assms
    by (auto simp: core_inv_def contacts_ok_def sizes_ok_def clock_ok_def reserve_ok_def
        eff_reserved_def pending_ok_def pending_inv_def send_ok_def le_max_iff_disj)
qed

lemma core_inv_used_one:
  assumes "core_inv C e" and i: "slot < MAX_CONTACTS"
    and "en_time_valid e \<Longrightarrow> ep \<le> Engine_epoch e"
    and pr: "c_present (en_contacts e ! slot)"
    and lt: "c_tx_next (en_contacts e ! slot) < eff_reserved e slot"
  shows "core_inv C (used_one slot ep e)"
proof -
  let ?e = "e\<lparr> en_persisted_tx_epoch := max (en_persisted_tx_epoch e) ep \<rparr>"
  let ?f = "\<lambda>c. c\<lparr> c_tx_next := c_tx_next c + 1, c_tx_epoch_max := max (c_tx_epoch_max c) ep \<rparr>"
  have eq: "used_one slot ep e = upd_contact slot ?f ?e"
    by (simp add: used_one_def upd_contact_def)
  have "contact_inv C (en_contacts e ! slot)" using assms by (simp add: contact_inv_nth)
  then have "contact_inv C (?f (en_contacts e ! slot))" using pr by (simp add: contact_inv_def)
  moreover have "c_tx_epoch_max (en_contacts e ! slot) \<le> en_persisted_tx_epoch e"
    using assms by (auto simp: core_inv_def clock_ok_def contacts_ok_def)
  moreover have "c_tx_next (en_contacts e ! slot) + 1 \<le> eff_reserved e slot"
    using lt by (rule inc_le)
  ultimately show ?thesis
    unfolding eq
    using i core_inv_raise_epoch [OF assms(1,3)]
    by (intro core_inv_upd [OF _ _ refl]) (auto simp: eff_reserved_def le_max_iff_disj)
qed

lemma used_one_fields [simp]:
  "en_staged (used_one slot ep e) = en_staged e"
  "en_persist_dirty (used_one slot ep e) = en_persist_dirty e"
  "en_pending_send (used_one slot ep e) = en_pending_send e"
  by (simp_all add: used_one_def)

text \<open>Beginning a send keeps the text and the reference, over what was staged.\<close>

lemma core_inv_begin:
  assumes "core_inv C e" and "length t \<le> MAX_TEXT_LEN"
    and "0 < unat (ps_contact_id ps)" and "unat (ps_contact_id ps) \<le> MAX_CONTACTS"
    and "c_present (en_contacts e ! (unat (ps_contact_id ps) - 1))"
    and "ps_epoch ps \<le> ah_anchor (c_anchor (en_contacts e ! (unat (ps_contact_id ps) - 1)))"
  shows "core_inv C (e\<lparr> en_pending_text := put_at 0 t (en_pending_text e),
    en_pending_text_len := of_nat (length t), en_pending_send := Some ps \<rparr>)" (is "core_inv C ?e")
proof -
  have "Engine_epoch ?e = Engine_epoch e" by (rule Engine_epoch_cong) simp_all
  moreover have "sizes_ok ?e"
    using assms(1,2) by (auto simp: core_inv_def sizes_ok_def MAX_TEXT_LEN_def)
  ultimately show ?thesis
    using assms
    by (simp add: core_inv_def contacts_ok_def clock_ok_def reserve_ok_def eff_reserved_def
        pending_ok_def pending_inv_def send_ok_def)
qed

lemma anchored:
  assumes "core_inv C e" and "en_time_valid e" and "i < MAX_CONTACTS"
    and "c_present (en_contacts e ! i)"
  shows "ah_anchor (c_anchor (en_contacts e ! i)) = Engine_epoch e"
  using assms by (auto simp: core_inv_def clock_ok_def contacts_ok_def)

lemma send_begin_ok:
  assumes s: "settled C e"
  shows "op_ok C (snd (send_begin e cid t pid))"
proof (cases "send_begin_check e cid t")
  case (Inl err)
  with s show ?thesis by (simp add: send_begin_def settled_op_ok)
next
  case (Inr so)
  obtain slot op where so: "so = (slot, op)" by fastforce
  from Inr [unfolded so] have
    tv: "en_time_valid e" and slot: "slot_of e cid = Inr slot"
    and t: "length t \<le> MAX_TEXT_LEN"
    and op: "op = StNone \<or> (\<exists>r. op = StTxReserve slot r \<and>
        checked_add (c_tx_next (en_contacts e ! slot)) SEQ_RESERVE_BLOCK = Some r)"
    by (auto simp: send_begin_check_def Let_def if_Inl_Inr split: if_splits)
  have eq: "snd (send_begin e cid t pid) =
      (stage_persist op e)\<lparr> en_pending_text := put_at 0 t (en_pending_text e),
        en_pending_text_len := of_nat (length t),
        en_pending_send := Some \<lparr> ps_contact_id = cid, ps_epoch = Engine_epoch e,
          ps_sequence = c_tx_next (en_contacts e ! slot), ps_packet_id = pid \<rparr> \<rparr>"
    by (simp add: send_begin_def Inr so Let_def)
  from slot have i: "slot < MAX_CONTACTS" "c_present (en_contacts e ! slot)"
      "0 < unat cid" "unat cid \<le> MAX_CONTACTS" "slot = unat cid - 1"
    using slot_of_less by (auto simp: slot_of_Inr)
  have core: "core_inv C e" and un: "en_staged e = None" using s by (simp_all add: settled_def)
  have st: "staged_ok C (stage_persist op e)"
    using op
  proof (elim disjE exE conjE)
    fix r assume "op = StTxReserve slot r"
      and "checked_add (c_tx_next (en_contacts e ! slot)) SEQ_RESERVE_BLOCK = Some r"
    moreover from this have "c_tx_next (en_contacts e ! slot) \<le> r"
      by (auto dest: unat_checked_add simp: word_le_nat_alt)
    ultimately show ?thesis using core un i by (simp add: stage_reserve)
  qed (simp add: core un stage_plain)
  let ?e = "snd (send_begin e cid t pid)"
  have "core_inv C ?e"
    using st t i anchored [OF core tv] core_inv_begin [of C "stage_persist op e" t]
    by (simp add: eq staged_ok_def)
  then have "staged_ok C ?e"
    by (intro staged_ok_cong [OF st view_cong]) (simp_all add: eq stage_persist_eq)
  then show ?thesis by (simp add: op_ok_def)
qed

lemma core_inv_send:
  assumes "core_inv C e" and "en_pending_send e = Some ps"
  shows "core_inv C (e\<lparr> en_pending_send := Some ps \<rparr>)"
proof -
  have "e\<lparr> en_pending_send := Some ps \<rparr> = e" using assms(2) by (cases e) simp
  with assms(1) show ?thesis by simp
qed

lemma send_emit_check_Inr:
  "send_emit_check C e = Inr (ps, slot, key) \<longleftrightarrow>
     en_pending_send e = Some ps \<and> slot_of e (ps_contact_id ps) = Inr slot \<and>
     c_tx_next (en_contacts e ! slot) = ps_sequence ps \<and>
     ps_sequence ps < c_tx_reserved (en_contacts e ! slot) \<and>
     c_tx_epoch_max (en_contacts e ! slot) \<le> ps_epoch ps \<and>
     outgoing_key C e slot (ps_epoch ps) = Inr key"
  by (auto simp: send_emit_check_def Let_def if_Inl_Inr not_le not_less)

text \<open>A frame that is emitted leaves the state staged, with the sequence number used up.\<close>

lemma send_emit_eq:
  assumes "\<not> en_persist_dirty e" and "send_emit_check C e = Inr (ps, slot, key)"
    and "data_frame C (refresh_aliases C slot e) slot ps key = Inr (len, frm)"
    and "slot < length (en_contacts e)"
  shows "send_emit C e =
    (Inr \<lparr> of_len = len, of_frame = frm, of_contact_id = Some (ps_contact_id ps),
           of_is_ack = False, of_is_retry_echo = False \<rparr>,
     stage_persist StNone (used_one slot (ps_epoch ps) (refresh_aliases C slot e)))"
proof -
  let ?r = "refresh_aliases C slot e"
  have c: "c_tx_next (en_contacts ?r ! slot) = ps_sequence ps" and ps: "en_pending_send ?r = Some ps"
    using nth_refresh_aliases [OF assms(4), of C slot] assms(2) by (auto simp: send_emit_check_Inr)
  have "upd_contact slot (\<lambda>c. c\<lparr> c_tx_next := ps_sequence ps + 1,
        c_tx_epoch_max := max (c_tx_epoch_max c) (ps_epoch ps) \<rparr>) ?r
      \<lparr> en_persisted_tx_epoch := max (en_persisted_tx_epoch ?r) (ps_epoch ps) \<rparr> =
      used_one slot (ps_epoch ps) ?r"
    by (simp add: used_one_def upd_contact_def c)
  moreover have "x\<lparr> en_pending_send := Some ps \<rparr> = x" if "en_pending_send x = Some ps" for x :: engine
    using that by (cases x) simp
  ultimately show ?thesis
    using assms ps by (simp add: send_emit_def Let_def)
qed

lemma send_emit_ok:
  assumes s: "settled C e"
  shows "op_ok C (snd (send_emit C e))"
proof (cases "send_emit_check C e")
  case (Inl err)
  with s show ?thesis by (simp add: send_emit_def settled_op_ok)
next
  case (Inr t)
  obtain ps slot key where t: "t = (ps, slot, key)" by (cases t) auto
  note chk = Inr [unfolded t]
  let ?r = "refresh_aliases C slot e"
  have core: "core_inv C e" and clean: "\<not> en_persist_dirty e" and un: "en_staged e = None"
    using s by (simp_all add: settled_def)
  then have len: "length (en_contacts e) = MAX_CONTACTS" by (simp add: core_inv_def contacts_ok_def)
  have ps: "en_pending_send e = Some ps" and slot: "slot_of e (ps_contact_id ps) = Inr slot"
    and sq: "c_tx_next (en_contacts e ! slot) = ps_sequence ps"
      "ps_sequence ps < c_tx_reserved (en_contacts e ! slot)"
    using chk by (auto simp: send_emit_check_Inr)
  then have i: "slot < MAX_CONTACTS" "c_present (en_contacts e ! slot)"
    and sl: "slot = unat (ps_contact_id ps) - 1"
    using slot_of_less by (auto simp: slot_of_Inr)
  have r: "settled C ?r" using s i(1) by (rule settled_refresh)
  show ?thesis
  proof (cases "data_frame C ?r slot ps key")
    case (Inl err)
    then show ?thesis using clean r by (simp add: send_emit_def chk Let_def settled_op_ok)
  next
    case (Inr lf)
    obtain len' frm where lf: "lf = (len', frm)" by fastforce
    have "c_present (en_contacts ?r ! slot)" "c_tx_next (en_contacts ?r ! slot) < eff_reserved ?r slot"
      using nth_refresh_aliases [of slot e C slot] i sq len un by (auto simp: eff_reserved_def)
    moreover have "ps_epoch ps \<le> Engine_epoch ?r" if "en_time_valid ?r"
      using core that i ps anchored [OF core _ i] unfolding sl by (auto simp: core_inv_def send_ok_def)
    ultimately have "core_inv C (used_one slot (ps_epoch ps) ?r)"
      using r i(1) by (intro core_inv_used_one) (auto simp: settled_def)
    then show ?thesis
      using r un i(1) len by (simp add: send_emit_eq [OF clean chk Inr [unfolded lf]] op_ok_stage_plain)
  qed
qed

lemma send_complete_ok: "settled C e \<Longrightarrow> settled C (send_complete e acked)"
  by (simp add: settled_def send_complete_def)

section \<open>Relaying\<close>

lemma core_inv_cache:
  assumes "core_inv C e" and "cache_ok c"
  shows "core_inv C (e\<lparr> en_relay_cache := c \<rparr>)"
proof -
  have "Engine_epoch (e\<lparr> en_relay_cache := c \<rparr>) = Engine_epoch e" by (rule Engine_epoch_cong) simp_all
  with assms show ?thesis by (simp add: inv_defs)
qed

lemma core_inv_cache_ok: "core_inv C e \<Longrightarrow> cache_ok (en_relay_cache e)"
  by (simp add: core_inv_def sizes_ok_def)

lemma note_origin_ok: "settled C e \<Longrightarrow> settled C (note_origin C e b now)"
  by (auto simp: note_origin_def settled_def core_inv_cache core_inv_cache_ok observe_cache_ok
      split: sum.split option.split)

lemma transit_state:
  "snd (transit C e f h now) = e\<lparr> en_relay_cache := snd (RelayCache_observe (en_relay_cache e)
     (cache_key C (bslice 0 28 f) (bslice 28 (length f - 2) f)) now) \<rparr>"
  by (simp add: transit_def Let_def split: prod.split observe.split sum.split)

lemma transit_ok: "settled C e \<Longrightarrow> settled C (snd (transit C e f h now))"
  by (auto simp: transit_state settled_def
      intro: core_inv_cache core_inv_cache_ok observe_cache_ok)

section \<open>Acknowledging\<close>

lemma ack_stage_Some:
  assumes "staged_ok C e" and "unreserved e" and "slot < MAX_CONTACTS"
    and "c_present (en_contacts e ! slot)" and "ack_stage e slot = Some e'"
  shows "staged_ok C e'" and "\<exists>op. e' = stage_persist op e"
    and "c_tx_next (en_contacts e ! slot) < eff_reserved e' slot"
proof -
  let ?c = "en_contacts e ! slot"
  have core: "core_inv C e" using assms(1) by (simp add: staged_ok_def)
  have "staged_ok C e' \<and> (\<exists>op. e' = stage_persist op e) \<and> c_tx_next ?c < eff_reserved e' slot"
  proof (cases "c_tx_next ?c \<ge> c_tx_reserved ?c")
    case True
    with assms(5) obtain r where r: "checked_add (c_tx_next ?c) SEQ_RESERVE_BLOCK = Some r"
      and e': "e' = stage_persist (StTxReserve slot r) e"
      by (auto simp: ack_stage_def Let_def split: option.splits)
    from r have "c_tx_next ?c < r"
      by (auto dest!: unat_checked_add simp: word_less_nat_alt SEQ_RESERVE_BLOCK_def)
    with assms core show ?thesis by (auto simp: e' stage_reserve eff_reserved_def)
  next
    case False
    with assms(5) have "e' = stage_persist StRxAccept e"
      by (auto simp: ack_stage_def Let_def)
    with False assms core show ?thesis by (auto simp: stage_over eff_reserved_def not_le)
  qed
  then show "staged_ok C e'" "\<exists>op. e' = stage_persist op e"
    "c_tx_next (en_contacts e ! slot) < eff_reserved e' slot" by blast+
qed

text \<open>An acknowledgement is built in a state that has a snapshot staged, and restages it with
  the sequence number used up.\<close>

lemma build_ack_cases:
  obtains (none) "snd (build_ack C e slot h pid) = e" "fst (build_ack C e slot h pid) = None"
  | (stuck) e' where "ack_stage e slot = Some e'" "build_ack C e slot h pid = (None, e')"
  | (sent) e' key len frm where "en_time_valid e" "ack_stage e slot = Some e'"
      "outgoing_key C e' slot (Engine_epoch e) = Inr key"
      "ack_frame C key (ack_header C e' slot (Engine_epoch e)
         (c_tx_next (en_contacts e' ! slot)) pid) h = Some (len, frm)"
      "build_ack C e slot h pid =
        (Some \<lparr> of_len = len, of_frame = frm, of_contact_id = Some (of_nat (slot + 1)),
                of_is_ack = True, of_is_retry_echo = False \<rparr>,
         stage_persist (case en_staged e' of Some op \<Rightarrow> op | None \<Rightarrow> StRxAccept)
           (used_one slot (Engine_epoch e) e'))"
proof (cases "\<not> en_time_valid e \<or> ack_stage e slot = None")
  case True
  then show thesis by (intro none) (auto simp: build_ack_def Let_def)
next
  case False
  then obtain e' where e': "ack_stage e slot = Some e'" and tv: "en_time_valid e" by auto
  have u: "upd_contact slot (\<lambda>c. c\<lparr> c_tx_next := c_tx_next (en_contacts e' ! slot) + 1,
        c_tx_epoch_max := max (c_tx_epoch_max c) ep \<rparr>) e'
      \<lparr> en_persisted_tx_epoch := max (en_persisted_tx_epoch e') ep \<rparr> = used_one slot ep e'" for ep
    by (simp add: used_one_def upd_contact_def)
  show thesis
  proof (cases "outgoing_key C e' slot (Engine_epoch e)")
    case (Inl err)
    then show thesis using e' tv by (intro stuck) (simp_all add: build_ack_def Let_def)
  next
    case (Inr key)
    show thesis
    proof (cases "ack_frame C key (ack_header C e' slot (Engine_epoch e)
         (c_tx_next (en_contacts e' ! slot)) pid) h")
      case None
      with Inr show thesis using e' tv by (intro stuck) (simp_all add: build_ack_def Let_def)
    next
      case (Some lf)
      obtain len frm where "lf = (len, frm)" by fastforce
      with Some Inr show thesis
        using e' tv by (intro sent) (simp_all add: build_ack_def Let_def u)
    qed
  qed
qed

lemma build_ack_ok:
  assumes st: "staged_ok C e" and "unreserved e" and i: "slot < MAX_CONTACTS"
    and pr: "c_present (en_contacts e ! slot)"
  shows "staged_ok C (snd (build_ack C e slot h pid))"
proof (cases rule: build_ack_cases [of C e slot h pid])
  case none
  with st show ?thesis by simp
next
  case (stuck e')
  with ack_stage_Some(1) [OF assms] show ?thesis by simp
next
  case (sent e' key len frm)
  note s = ack_stage_Some [OF assms sent(2)]
  then obtain op where op: "e' = stage_persist op e" by blast
  have "core_inv C (used_one slot (Engine_epoch e) e')"
    using s i pr by (intro core_inv_used_one) (auto simp: staged_ok_def op)
  then show ?thesis by (simp add: sent(5) op restage_same)
qed

section \<open>Receiving\<close>

lemma list_all_update: "list_all P xs \<Longrightarrow> P x \<Longrightarrow> list_all P (xs[i := x])"
  by (auto simp: list_all_iff dest: set_update_subset_insert [THEN subsetD])

text \<open>Storing the new state of one receive window.\<close>

lemma core_inv_windows:
  assumes "core_inv C e" and i: "slot < MAX_CONTACTS" and pr: "c_present (en_contacts e ! slot)"
    and "length D = 3" and "length A = 3" and "list_all rw_ok D" and "list_all rw_ok A"
    and f: "f (en_contacts e ! slot) = (en_contacts e ! slot)\<lparr> c_win_data := D, c_win_ack := A \<rparr>"
  shows "core_inv C (upd_contact slot f e)"
proof -
  have "contact_inv C (en_contacts e ! slot)" using assms(1) i by (simp add: contact_inv_nth)
  then have "contact_inv C (f (en_contacts e ! slot))"
    using assms by (simp add: contact_inv_def)
  moreover have "c_tx_epoch_max (en_contacts e ! slot) \<le> en_persisted_tx_epoch e"
    "c_tx_next (en_contacts e ! slot) \<le> eff_reserved e slot"
    using assms by (auto simp: core_inv_def clock_ok_def contacts_ok_def reserve_ok_def)
  ultimately show ?thesis
    using assms(1) i by (intro core_inv_upd [OF _ _ refl]) (simp_all add: f eff_reserved_def)
qed

lemma settled_window_upd:
  assumes s: "settled C e" and i: "slot < MAX_CONTACTS" and pr: "c_present (en_contacts e ! slot)"
    and w: "w = snd (ReplayWindow_accept (v ! k) sq)" and k: "k < 3"
  shows "v = c_win_data (en_contacts e ! slot) \<Longrightarrow>
      settled C (upd_contact slot (\<lambda>c. c\<lparr> c_win_data := (c_win_data c)[k := w] \<rparr>) e)"
    and "v = c_win_ack (en_contacts e ! slot) \<Longrightarrow>
      settled C (upd_contact slot (\<lambda>c. c\<lparr> c_win_ack := (c_win_ack c)[k := w] \<rparr>) e)"
proof -
  let ?c = "en_contacts e ! slot"
  have "contact_inv C ?c" using s i by (simp add: contact_inv_nth settled_def)
  then have c: "length (c_win_data ?c) = 3" "length (c_win_ack ?c) = 3"
    "list_all rw_ok (c_win_data ?c)" "list_all rw_ok (c_win_ack ?c)"
    by (simp_all add: contact_inv_def)
  then have r: "rw_ok (c_win_data ?c ! k)" "rw_ok (c_win_ack ?c ! k)"
    using k by (simp_all add: list_all_length)
  have un: "en_contacts (upd_contact slot f e) = (en_contacts e)[slot := f ?c]" for f
    by (simp add: upd_contact_def)
  show "settled C (upd_contact slot (\<lambda>c. c\<lparr> c_win_data := (c_win_data c)[k := w] \<rparr>) e)"
    if "v = c_win_data ?c"
    using s i pr c r that
    by (simp add: settled_def
        core_inv_windows [where D = "(c_win_data ?c)[k := w]" and A = "c_win_ack ?c"]
        list_all_update accept_ok w)
  show "settled C (upd_contact slot (\<lambda>c. c\<lparr> c_win_ack := (c_win_ack c)[k := w] \<rparr>) e)"
    if "v = c_win_ack ?c"
    using s i pr c r that
    by (simp add: settled_def
        core_inv_windows [where D = "c_win_data ?c" and A = "(c_win_ack ?c)[k := w]"]
        list_all_update accept_ok w)
qed

lemma bump_fields [simp]:
  "en_contacts (bump_replay_drops e) = en_contacts e" "en_staged (bump_replay_drops e) = en_staged e"
  "core_inv C (bump_replay_drops e) = core_inv C e" "settled C (bump_replay_drops e) = settled C e"
  by (simp_all add: bump_replay_drops_def settled_def)

lemma settled_stage: "settled C e \<Longrightarrow> plain_stage op \<Longrightarrow> staged_ok C (stage_persist op e)"
  by (simp add: settled_def stage_plain)

lemma rx_data_ok:
  assumes s: "settled C e" and i: "slot < MAX_CONTACTS" and pr: "c_present (en_contacts e ! slot)"
    and k: "k < 3"
  shows "op_ok C (snd (rx_data C e slot k h t pid))"
proof -
  obtain v w where a: "ReplayWindow_accept (c_win_data (en_contacts e ! slot) ! k) (h_sequence h) = (v, w)"
    by fastforce
  let ?e = "upd_contact slot (\<lambda>c. c\<lparr> c_win_data := (c_win_data c)[k := w] \<rparr>) e"
  have s': "settled C ?e"
    using s i pr k by (intro settled_window_upd(1) [where sq = "h_sequence h", OF _ _ _ _ _ refl]) (simp_all add: a)
  have len: "length (en_contacts e) = MAX_CONTACTS"
    using s by (simp add: settled_def core_inv_def contacts_ok_def)
  have pr': "c_present (en_contacts ?e ! slot)"
    using pr i len by (simp add: nth_upd_contact)
  have "staged_ok C (snd (build_ack C (stage_persist StRxAccept ?e) slot h pid))"
    "staged_ok C (snd (build_ack C (stage_persist StNone (bump_replay_drops ?e)) slot h pid))"
    using s' pr' i by (intro build_ack_ok; simp add: settled_stage)+
  then show ?thesis
    using s'
    by (cases v) (simp_all add: rx_data_def a Let_def split_def op_ok_def)
qed

lemma rx_ack_ok:
  assumes s: "settled C e" and i: "slot < MAX_CONTACTS" and pr: "c_present (en_contacts e ! slot)"
  shows "op_ok C (snd (rx_ack e slot h pt))"
proof (cases "position (\<lambda>x. x = h_epoch h) (c_win_epochs (en_contacts e ! slot))")
  case None
  with s show ?thesis by (simp add: rx_ack_def Let_def settled_op_ok)
next
  case (Some k)
  have "contact_inv C (en_contacts e ! slot)" using s i by (simp add: contact_inv_nth settled_def)
  with Some have k: "k < 3" by (auto dest: position_Some simp: contact_inv_def)
  obtain v w where a: "ReplayWindow_accept (c_win_ack (en_contacts e ! slot) ! k) (h_sequence h) = (v, w)"
    by fastforce
  have s': "settled C (upd_contact slot (\<lambda>c. c\<lparr> c_win_ack := (c_win_ack c)[k := w] \<rparr>) e)"
    using s i pr k by (intro settled_window_upd(2) [where sq = "h_sequence h", OF _ _ _ _ _ refl]) (simp_all add: a)
  then show ?thesis
    by (auto simp: rx_ack_def Let_def Some a op_ok_def settled_stage split: option.split)
qed

lemma on_frame_slot_ok:
  assumes s: "settled C e" and i: "slot < MAX_CONTACTS"
  shows "case on_frame_slot C e h b pid slot of
    (Return r, e') \<Rightarrow> op_ok C e' | (_, e') \<Rightarrow> settled C e'"
proof (cases "c_present (en_contacts e ! slot)")
  case False
  with s show ?thesis by (simp add: on_frame_slot_def)
next
  case pr: True
  let ?r = "refresh_aliases C slot e"
  have len: "length (en_contacts e) = MAX_CONTACTS"
    using s by (simp add: settled_def core_inv_def contacts_ok_def)
  have r: "settled C ?r" using s i by (rule settled_refresh)
  have pr': "c_present (en_contacts ?r ! slot)"
    using pr i len nth_refresh_aliases [of slot e C slot] by auto
  show ?thesis
  proof (cases "position (\<lambda>x. x = h_epoch h) (c_win_epochs (en_contacts e ! slot))")
    case None
    with s pr show ?thesis by (simp add: on_frame_slot_def)
  next
    case (Some k)
    have "contact_inv C (en_contacts e ! slot)" using s i by (simp add: contact_inv_nth settled_def)
    with Some have k: "k < 3" by (auto dest: position_Some simp: contact_inv_def)
    have "op_ok C (snd (rx_data C ?r slot k h t pid))" "op_ok C (snd (rx_ack ?r slot h t))" for t
      using r i pr' k by (simp_all add: rx_data_ok rx_ack_ok)
    then show ?thesis
      using r pr Some
      by (simp add: on_frame_slot_def Let_def split_def settled_op_ok
          split: sum.split prod.split)
  qed
qed

lemma on_frame_slots_ok:
  "settled C e \<Longrightarrow> set slots \<subseteq> {..<MAX_CONTACTS} \<Longrightarrow>
   case on_frame_slots C h b pid slots failed e of
     ((Some r, _), e') \<Rightarrow> op_ok C e' | ((None, _), e') \<Rightarrow> settled C e'"
proof (induction slots arbitrary: failed e)
  case (Cons slot slots)
  obtain out e1 where o: "on_frame_slot C e h b pid slot = (out, e1)" by fastforce
  with on_frame_slot_ok [OF Cons.prems(1), of slot h b pid] Cons.prems
  have "case out of Return r \<Rightarrow> op_ok C e1 | _ \<Rightarrow> settled C e1" by simp
  then show ?case
    using Cons.IH [of e1 failed] Cons.IH [of e1 True] Cons.prems(2)
    by (simp add: o split: slot_outcome.splits)
qed simp

lemma on_frame_ok:
  assumes s: "settled C e"
  shows "op_ok C (snd (on_frame C e f now pid))"
proof -
  have tr: "op_ok C (snd (transit C x f h now))" if "settled C x" for x h
    using that transit_ok settled_op_ok by blast
  have bump: "settled C (x\<lparr> en_auth_failures := n \<rparr>) = settled C x" for x n
    by (simp add: settled_def)
  have "set [0..<MAX_CONTACTS] \<subseteq> {..<MAX_CONTACTS}" by auto
  note slots = on_frame_slots_ok [OF s this]
  show ?thesis
  proof (cases "decode_frame f")
    case (Inl err)
    with s show ?thesis by (simp add: on_frame_def settled_op_ok)
  next
    case (Inr hb)
    obtain h b where hb: "hb = (h, b)" by fastforce
    obtain r failed e' where o: "on_frame_slots C h b pid [0..<MAX_CONTACTS] False e = ((r, failed), e')"
      by (metis prod.exhaust)
    show ?thesis
    proof (cases r)
      case None
      with slots [of h b pid False] o have "settled C e'" by simp
      with s show ?thesis
        by (simp add: on_frame_def Inr hb Let_def o None settled_op_ok tr bump)
    next
      case (Some res)
      with slots [of h b pid False] o have "op_ok C e'" by simp
      with s show ?thesis
        by (simp add: on_frame_def Inr hb Let_def o Some settled_op_ok tr)
    qed
  qed
qed

end
