(* ===== verification/Engine_Ceremony.thy ===== *)
theory Engine_Ceremony
  imports Engine_Rx
begin

text \<open>
  The pairing operations of \<open>Engine_Pair\<close> keep the invariant of the engine, up to the
  activation of a contact; and commit, discard and restore lead back to a settled engine.
\<close>

section \<open>The attempt\<close>

lemma free_slot_Some:
  assumes "core_inv C e" and "free_slot e = Some i"
  shows "i < MAX_CONTACTS" and "\<not> c_present (en_contacts e ! i)"
  using assms position_Some [of "\<lambda>c. \<not> c_present c" "en_contacts e" i]
  by (simp_all add: free_slot_def core_inv_def contacts_ok_def)

lemma core_inv_no_pending: "core_inv C e \<Longrightarrow> core_inv C (e\<lparr> en_pending := None \<rparr>)"
  using Engine_epoch_cong [of "e\<lparr> en_pending := None \<rparr>" e] by (simp add: inv_defs)

lemma core_inv_pending:
  assumes "core_inv C e" and "pending_inv e p"
  shows "core_inv C (e\<lparr> en_pending := Some p \<rparr>)"
proof -
  have "Engine_epoch (e\<lparr> en_pending := Some p \<rparr>) = Engine_epoch e" by (rule Engine_epoch_cong) simp_all
  with assms show ?thesis by (simp add: inv_defs)
qed

lemma settled_pending:
  "settled C e \<Longrightarrow> pending_inv e p \<Longrightarrow> settled C (e\<lparr> en_pending := Some p \<rparr>)"
  by (simp add: settled_def core_inv_pending)

lemma settled_pendingD: "settled C e \<Longrightarrow> en_pending e = Some p \<Longrightarrow> pending_inv e p"
  by (simp add: settled_def core_inv_def pending_ok_def)

lemma pair_cancel_ok: "settled C e \<Longrightarrow> settled C (pair_cancel e)"
  by (simp add: settled_def pair_cancel_def core_inv_no_pending)

lemma encode_offer_payload_new:
  "offer_ok x \<Longrightarrow> encode_offer_payload x (replicate OFFER_PAYLOAD_LEN 0) =
    (Inr OFFER_PAYLOAD_LEN, offer_payload_bytes x)"
  using encode_offer_payload_ok [of x "replicate OFFER_PAYLOAD_LEN 0"]
  by (simp add: length_offer_payload OFFER_PAYLOAD_LEN_def)

lemma pair_offer_payload_Inr:
  assumes "crypto_sizes C" and "core_inv C e" and "length eph_pub = 32" and "length ch = 32"
    and "pair_offer_payload C e eph_pub ch = Inr (payload, slot)"
  shows "payload = offer_payload_bytes
      \<lparr> o_ed_pub = k_ed_public C (en_sign_priv e), o_eph_pub = eph_pub, o_challenge = ch \<rparr>"
    and "offer_ok \<lparr> o_ed_pub = k_ed_public C (en_sign_priv e), o_eph_pub = eph_pub, o_challenge = ch \<rparr>"
    and "slot < MAX_CONTACTS" and "\<not> c_present (en_contacts e ! slot)"
proof -
  let ?o = "\<lparr> o_ed_pub = k_ed_public C (en_sign_priv e), o_eph_pub = eph_pub, o_challenge = ch \<rparr>"
  show ok: "offer_ok ?o" using assms crypto_sizesD(3) by (simp add: offer_ok_def)
  from assms(5) have p: "payload = offer_payload_bytes ?o \<and> free_slot e = Some slot"
    by (auto simp: pair_offer_payload_def ed_pubkey_def Let_def encode_offer_payload_new [OF ok]
        split: if_splits)
  then show "payload = offer_payload_bytes ?o" by simp
  from p have fs: "free_slot e = Some slot" by simp
  show "slot < MAX_CONTACTS" "\<not> c_present (en_contacts e ! slot)"
    using assms(2) fs by (rule free_slot_Some)+
qed

lemma pair_offer_fresh_ok:
  assumes "crypto_sizes C" and s: "settled C e" and "length eph_pub = 32" and "length ch = 32"
  shows "settled C (snd (pair_offer_fresh C e eph_priv eph_pub ch))"
proof (cases "pair_offer_payload C e eph_pub ch")
  case (Inl err)
  with s show ?thesis by (simp add: pair_offer_fresh_def)
next
  case (Inr ps)
  obtain payload slot where ps: "ps = (payload, slot)" by fastforce
  note p = pair_offer_payload_Inr [OF assms(1) settled_core [OF s] assms(3,4) Inr [unfolded ps]]
  from p show ?thesis
    by (simp add: pair_offer_fresh_def Inr ps)
      (intro settled_pending s; simp add: pending_inv_def decode_offer_payload_bytes ROLE_L_def)
qed

lemma pair_offer_ok:
  "crypto_sizes C \<Longrightarrow> settled C e \<Longrightarrow> length eph_pub = 32 \<Longrightarrow> length ch = 32 \<Longrightarrow>
   settled C (snd (pair_offer C e eph_priv eph_pub ch))"
  by (auto simp: pair_offer_def pair_offer_fresh_ok split: sum.split option.split)

text \<open>The peer's offer: what is checked, and the transcript over the two payloads.\<close>

lemma import_offer_check_Inr:
  assumes "import_offer_check C e record rep = Inr (q, t)"
  obtains p own x where "en_pending e = Some p" and "decode_offer_record record = Inr x"
    and "offer_ok x" and "decode_offer_payload (pp_own_offer p) = Inr own"
    and "o_ed_pub own \<noteq> o_ed_pub x"
    and "\<forall>c \<in> set (en_contacts e). c_present c \<longrightarrow> c_ed_peer c \<noteq> o_ed_pub x"
    and "t = (if o_ed_pub own \<le> o_ed_pub x
              then transcript_t C (pp_own_offer p) (offer_payload_bytes x)
              else transcript_t C (offer_payload_bytes x) (pp_own_offer p))"
    and "if rep then pp_slot q = pp_slot p else free_slot e = Some (pp_slot q)"
    and "q = p\<lparr> pp_peer_offer := Some (offer_payload_bytes x), pp_transcript := Some t,
                pp_own_role := role_for (o_ed_pub own) (o_ed_pub x),
                pp_slot := pp_slot q, pp_replace := rep \<rparr>"
proof -
  from assms obtain x where x: "decode_offer_record record = Inr x"
    by (auto simp: import_offer_check_def)
  then have ok: "offer_ok x" using oc.dec_Some_iff [of "record" x] by simp
  define payload where "payload = offer_payload_bytes x"
  have enc: "encode_offer_payload x (replicate OFFER_PAYLOAD_LEN 0) = (Inr OFFER_PAYLOAD_LEN, payload)"
    using ok by (simp add: encode_offer_payload_new payload_def)
  from assms obtain p where p: "en_pending e = Some p"
    by (auto simp: import_offer_check_def x)
  with assms obtain own where own: "decode_offer_payload (pp_own_offer p) = Inr own"
    by (auto simp: import_offer_check_def x)
  with assms p have ns: "check_not_self (o_ed_pub own) (o_ed_pub x) = Inr ()"
    by (auto simp: import_offer_check_def x)
  with assms p own have nd: "\<not> (\<exists>c \<in> set (en_contacts e). c_present c \<and> c_ed_peer c = o_ed_pub x)"
    by (auto simp: import_offer_check_def x split: if_splits)
  then have dup: "\<forall>c \<in> set (en_contacts e). c_present c \<longrightarrow> c_ed_peer c \<noteq> o_ed_pub x"
    by blast
  define t' where "t' = (if bslice 1 33 (pp_own_offer p) \<le> bslice 1 33 payload
    then transcript_t C (pp_own_offer p) payload else transcript_t C payload (pp_own_offer p))"
  have "import_offer_check C e record rep =
      rbind (if rep then Inr (pp_slot p) else ok_or NoSlot (free_slot e)) (\<lambda>slot.
        Inr (p\<lparr> pp_peer_offer := Some payload, pp_transcript := Some t',
          pp_own_role := role_for (o_ed_pub own) (o_ed_pub x), pp_slot := slot, pp_replace := rep \<rparr>, t'))"
    unfolding import_offer_check_def t'_def
    by (simp only: x p own ns enc Let_def rbind.simps map_err.simps ok_or.simps nd if_False
        prod.case sum.case) simp
  with assms have t: "t = t'" and sl: "if rep then pp_slot q = pp_slot p else free_slot e = Some (pp_slot q)"
    and q: "q = p\<lparr> pp_peer_offer := Some payload, pp_transcript := Some t',
          pp_own_role := role_for (o_ed_pub own) (o_ed_pub x), pp_slot := pp_slot q, pp_replace := rep \<rparr>"
    by auto
  have b: "bslice 1 33 (pp_own_offer p) = o_ed_pub own"
    using decode_offer_payload_sound [OF own] offer_payload_ed by metis
  have "bslice 1 33 payload = o_ed_pub x" using offer_payload_ed [OF ok] by (simp add: payload_def)
  with b have t': "t' = (if o_ed_pub own \<le> o_ed_pub x
      then transcript_t C (pp_own_offer p) (offer_payload_bytes x)
      else transcript_t C (offer_payload_bytes x) (pp_own_offer p))"
    unfolding t'_def by (simp add: payload_def)
  have ne: "o_ed_pub own \<noteq> o_ed_pub x" using ns by (auto simp: check_not_self_def split: if_splits)
  show thesis
    by (rule that [OF p x ok own ne dup trans [OF t t'] sl])
      (use q in \<open>simp only: t payload_def\<close>)
qed

lemma role_for_le: "role_for a b \<le> 1"
  by (simp add: role_for_def ROLE_L_def ROLE_R_def)

lemma import_offer_ok:
  assumes s: "settled C e"
  shows "settled C (snd (import_offer C e record rep))"
proof (cases "import_offer_check C e record rep")
  case (Inl err)
  with s show ?thesis by (simp add: import_offer_def)
next
  case (Inr qt)
  obtain q t where qt: "qt = (q, t)" by fastforce
  from Inr [unfolded qt] obtain p own x where p: "en_pending e = Some p"
    and "decode_offer_record record = Inr x" and x: "offer_ok x"
    and "decode_offer_payload (pp_own_offer p) = Inr own" and "o_ed_pub own \<noteq> o_ed_pub x"
    and "\<forall>c \<in> set (en_contacts e). c_present c \<longrightarrow> c_ed_peer c \<noteq> o_ed_pub x"
    and "t = (if o_ed_pub own \<le> o_ed_pub x
              then transcript_t C (pp_own_offer p) (offer_payload_bytes x)
              else transcript_t C (offer_payload_bytes x) (pp_own_offer p))"
    and sl: "if rep then pp_slot q = pp_slot p else free_slot e = Some (pp_slot q)"
    and q: "q = p\<lparr> pp_peer_offer := Some (offer_payload_bytes x), pp_transcript := Some t,
                pp_own_role := role_for (o_ed_pub own) (o_ed_pub x),
                pp_slot := pp_slot q, pp_replace := rep \<rparr>"
    by (rule import_offer_check_Inr)
  note pi = settled_pendingD [OF s p]
  have free: "\<not> c_present (en_contacts e ! pp_slot p)" "pp_slot p < MAX_CONTACTS"
    using pi s by (auto simp: pending_inv_def settled_def)
  have "pp_slot q < MAX_CONTACTS \<and> \<not> c_present (en_contacts e ! pp_slot q)"
    using sl free free_slot_Some [OF settled_core [OF s]] by (cases rep) auto
  moreover have "pp_own_offer q = pp_own_offer p" "pp_peer_proof q = pp_peer_proof p"
    "pp_peer_identity q = pp_peer_identity p" "pp_peer_offer q = Some (offer_payload_bytes x)"
    "pp_own_role q \<le> 1"
    by (subst q; simp add: role_for_le)+
  ultimately have "pending_inv e q"
    using pi by (simp add: pending_inv_def decode_offer_payload_bytes [OF x])
  with s show ?thesis by (simp add: import_offer_def Inr qt settled_pending)
qed

lemma open_attempt_Inr:
  "open_attempt e = Inr (p, t, role) \<longleftrightarrow>
     en_pending e = Some p \<and> \<not> is_expired (pp_start_mono_s p) (en_mono_s e) \<and>
     pp_transcript p = Some t \<and> role = pp_own_role p"
  by (auto simp: open_attempt_def if_Inl_Inr)

lemma pending_inv_records [simp]:
  "pending_inv e (p\<lparr> pp_own_proof := r \<rparr>) = pending_inv e p"
  "pending_inv e (p\<lparr> pp_own_confirm := r \<rparr>) = pending_inv e p"
  "pending_inv e p \<Longrightarrow> pending_inv e (p\<lparr> pp_peer_proof := Some b, pp_peer_identity := Some i \<rparr>)"
  by (simp_all add: pending_inv_def)

lemma pair_proof_ok: "settled C e \<Longrightarrow> settled C (snd (pair_proof C e))"
  by (auto simp: pair_proof_def open_attempt_Inr settled_pending settled_pendingD
      split: sum.split option.split)

lemma import_proof_check_Inr:
  assumes "import_proof_check C e record = Inr (p, t, pt)"
  shows "en_pending e = Some p" and "pp_transcript p = Some t"
  using assms by (auto simp: import_proof_check_def Let_def if_Inl_Inr)

lemma import_proof_ok: "settled C e \<Longrightarrow> settled C (snd (import_proof C e record))"
  by (auto simp: import_proof_def settled_pending settled_pendingD dest: import_proof_check_Inr(1)
      split: sum.split)

lemma pair_confirm_ok: "settled C e \<Longrightarrow> settled C (snd (pair_confirm C e))"
  by (auto simp: pair_confirm_def open_attempt_Inr settled_pending settled_pendingD
      split: sum.split option.split)

section \<open>Activation\<close>

definition activated :: "crypto \<Rightarrow> engine \<Rightarrow> bytes \<Rightarrow> bytes \<Rightarrow> bytes \<Rightarrow> u8 \<Rightarrow> contact" where
  "activated C e peer_ed peer_id root role = Contact_empty\<lparr>
     c_present := True, c_ed_peer := peer_ed, c_peer_identity := peer_id, c_root := root,
     c_traffic_lr := derive_label C root LABEL_TRAFFIC_LR,
     c_traffic_rl := derive_label C root LABEL_TRAFFIC_RL,
     c_addr_secret := derive_label C root LABEL_ADDRESS, c_role := role,
     c_anchor := AnchorHours_new (Engine_epoch e),
     c_win_epochs := AnchorHours_slots (Engine_epoch e), c_cached_epoch := - 1 \<rparr>"

lemma activate_contact_eq:
  "slot < MAX_CONTACTS \<Longrightarrow> activate_contact C e slot peer_ed peer_id root role =
     (Inr (), upd_contact slot (\<lambda>_. activated C e peer_ed peer_id root role) e)"
  by (simp add: activate_contact_def activated_def Let_def slots_shape)

lemma activated_simps [simp]:
  "c_present (activated C e k i r ro)" "c_tx_next (activated C e k i r ro) = 0"
  "c_tx_epoch_max (activated C e k i r ro) = 0" "c_blocked (activated C e k i r ro) = False"
  "ah_anchor (c_anchor (activated C e k i r ro)) = Engine_epoch e"
  "c_ed_peer (activated C e k i r ro) = k" "c_peer_identity (activated C e k i r ro) = i"
  "c_root (activated C e k i r ro) = r" "c_role (activated C e k i r ro) = ro"
  by (simp_all add: activated_def AnchorHours_new_def)

lemma activated_inv:
  "length k = 32 \<Longrightarrow> length i = 8 \<Longrightarrow> length r = 32 \<Longrightarrow> ro \<le> 1 \<Longrightarrow>
   contact_inv C (activated C e k i r ro)"
  by (simp add: contact_inv_def) (simp add: activated_def Contact_empty_def AnchorHours_new_def
      slots_shape list_all_iff)

text \<open>Filling a free slot, with the activation staged.\<close>

lemma core_inv_activate:
  assumes core: "core_inv C e" and un: "en_staged e = None" and p: "en_pending e = Some p"
    and i: "pp_slot p < MAX_CONTACTS" and free: "\<not> c_present (en_contacts e ! pp_slot p)"
    and ci: "contact_inv C c" and c: "c_present c" "c_tx_next c = 0" "c_tx_epoch_max c = 0"
      "ah_anchor (c_anchor c) = Engine_epoch e"
  shows "core_inv C ((upd_contact (pp_slot p) (\<lambda>_. c) e)
    \<lparr> en_staged := Some (StPairActivate (pp_slot p)) \<rparr>)" (is "core_inv C ?e")
proof -
  have len: "length (en_contacts e) = MAX_CONTACTS" using core by (simp add: inv_defs)
  have sub: "set (en_contacts ?e) \<subseteq> insert c (set (en_contacts e))"
    by (simp add: upd_contact_def set_update_subset_insert)
  have nth: "en_contacts ?e ! j = (if pp_slot p = j then c else en_contacts e ! j)"
    if "j < MAX_CONTACTS" for j
    using that len by (simp add: nth_upd_contact)
  have ep: "Engine_epoch ?e = Engine_epoch e" by (simp add: Engine_epoch_def)
  have "contacts_ok C ?e" "clock_ok ?e"
    using core sub len ci c
    by (fastforce simp: core_inv_def contacts_ok_def clock_ok_def list_all_iff ep)+
  moreover have "reserve_ok ?e"
    using core un nth c by (auto simp: core_inv_def reserve_ok_def eff_reserved_def)
  moreover have "pending_ok ?e"
    using core p by (simp add: core_inv_def pending_ok_def pending_inv_def)
  moreover have "sizes_ok ?e"
    using core by (simp add: core_inv_def sizes_ok_def upd_contact_def)
  moreover have "send_ok ?e"
    unfolding send_ok_def
  proof (intro allI impI)
    fix ps assume ps: "en_pending_send ?e = Some ps"
    define j where "j = unat (ps_contact_id ps) - 1"
    have old: "0 < unat (ps_contact_id ps)" "unat (ps_contact_id ps) \<le> MAX_CONTACTS"
      "c_present (en_contacts e ! j)" "ps_epoch ps \<le> ah_anchor (c_anchor (en_contacts e ! j))"
      using core ps by (auto simp: core_inv_def send_ok_def j_def)
    then have "j < MAX_CONTACTS" "pp_slot p \<noteq> j" using free by (auto simp: j_def)
    with nth [of j] old
    show "0 < unat (ps_contact_id ps) \<and> unat (ps_contact_id ps) \<le> MAX_CONTACTS \<and>
        c_present (en_contacts ?e ! (unat (ps_contact_id ps) - 1)) \<and>
        ps_epoch ps \<le> ah_anchor (c_anchor (en_contacts ?e ! (unat (ps_contact_id ps) - 1)))"
      unfolding j_def [symmetric] by simp
  qed
  ultimately show ?thesis by (simp add: core_inv_def)
qed

lemma open_peer_identity_length:
  assumes "aead_lengths C" and "open_peer_identity C e t role pr ct = Inr pt"
  shows "length pt = 8"
proof -
  from assms(2) obtain a b where k: "setup_keys C e t role = Inr (a, b)"
    by (auto simp: open_peer_identity_def)
  define key where "key = (if pr = ROLE_L then a else b)"
  obtain x out where d: "decrypt_data C key (replicate 12 0) (proof_aad t pr) ct (replicate 8 0) = (x, out)"
    by fastforce
  with assms(2) obtain n where "x = Inr n" "out = pt"
    by (cases x) (auto simp: open_peer_identity_def k Let_def key_def)
  with d have "decrypt_data C key (replicate 12 0) (proof_aad t pr) ct (replicate 8 0) = (Inr n, pt)"
    by simp
  note D = decrypt_data_Inr [OF this assms(1), unfolded length_replicate]
  have n: "n = length ct - 16" "16 \<le> length ct" "n \<le> 8"
    and o: "k_open C key (replicate 12 0) (proof_aad t pr) (take n ct) (drop n ct) = Some (take n pt)"
    and pt: "pt = take n pt @ drop n (replicate 8 0)"
    by (insert D, elim conjE, assumption)+
  have "length (take n pt) = n" using aead_lengths_open [OF assms(1) o] n by simp
  then have "length pt = n + (8 - n)"
    using arg_cong [OF pt, of length] by (metis length_append length_drop length_replicate)
  then show ?thesis using n(3) by linarith
qed

lemma import_confirm_check_Inr:
  assumes "import_confirm_check C e record = Inr (p, t, ed, i, r)"
  obtains conf own_proof peer_proof pr po where
    "decode_confirmation record = Inr conf" and "en_pending e = Some p" and "pp_transcript p = Some t"
    and "cf_t conf = t" and "cf_role conf \<noteq> pp_own_role p"
    and "pp_own_proof p = Some own_proof" and "pp_peer_proof p = Some peer_proof"
    and "pair_root C e t = Inr r"
    and "cf_mac conf = confirm_mac C r t (cf_role conf)
           (proofs_digest C (pp_own_role p) own_proof peer_proof)"
    and "pp_peer_identity p = Some i" and "decode_proof peer_proof = Inr pr"
    and "open_peer_identity C e t (pp_own_role p) (cf_role conf) (pf_ct pr) = Inr i"
    and "decode_offer_payload (the (pp_peer_offer p)) = Inr po" and "ed = o_ed_pub po"
proof -
  from assms obtain conf q where cf: "decode_confirmation record = Inr conf"
    and q: "en_pending e = Some q" by (auto simp: import_confirm_check_def)
  with assms obtain t' where t': "pp_transcript q = Some t'" by (auto simp: import_confirm_check_def)
  note d = assms [unfolded import_confirm_check_def, simplified cf q t' Let_def map_err.simps
      ok_or.simps rbind.simps if_Inl_Inr rbind_Inr]
  show thesis using d cf q t' that by auto
qed

lemma pair_root_length: "hash_lengths C \<Longrightarrow> pair_root C e t = Inr r \<Longrightarrow> length r = 32"
  by (auto simp: pair_root_def Let_def derive_root_def split: if_splits)

lemma import_confirm_ok:
  assumes C: "crypto_sizes C" and s: "settled C e"
  shows "op_ok C (snd (import_confirm C e record))"
proof (cases "import_confirm_check C e record")
  case (Inl err)
  with s show ?thesis by (simp add: import_confirm_def settled_op_ok)
next
  case (Inr r5)
  obtain p t ed i r where r5: "r5 = (p, t, ed, i, r)" by (cases r5) auto
  from import_confirm_check_Inr [OF Inr [unfolded r5]]
  obtain po where p: "en_pending e = Some p" and r: "pair_root C e t = Inr r"
    and i: "length i = 8" and po: "decode_offer_payload (the (pp_peer_offer p)) = Inr po"
    and ed: "ed = o_ed_pub po"
    using open_peer_identity_length [OF crypto_sizesD(2) [OF C]] by metis
  note pi = settled_pendingD [OF s p]
  have free: "\<not> c_present (en_contacts e ! pp_slot p)" "pp_slot p < MAX_CONTACTS" "pp_own_role p \<le> 1"
    using pi s by (auto simp: pending_inv_def settled_def)
  have "length ed = 32"
    using decode_offer_payload_sound [OF po] by (simp add: ed offer_ok_def)
  then have "contact_inv C (activated C e ed i r (pp_own_role p))"
    using i free(3) pair_root_length [OF crypto_sizesD(1) [OF C] r] by (intro activated_inv)
  then have "core_inv C ((upd_contact (pp_slot p) (\<lambda>_. activated C e ed i r (pp_own_role p)) e)
      \<lparr> en_staged := Some (StPairActivate (pp_slot p)) \<rparr>)"
    using s p free by (intro core_inv_activate) (simp_all add: settled_def)
  then show ?thesis
    using free(2) by (simp add: import_confirm_def Inr r5 activate_contact_eq op_ok_def stage_staged_ok)
qed

lemma pair_import_sas_ok:
  "crypto_sizes C \<Longrightarrow> settled C e \<Longrightarrow> op_ok C (snd (pair_import_sas C e record rep sas))"
  by (auto simp: pair_import_sas_def import_offer_ok import_proof_ok import_confirm_ok settled_op_ok
      split: sum.split)

section \<open>Restart\<close>

text \<open>The contact that a restart makes of a contact whose reservation is \<open>r\<close>.\<close>

definition rebooted :: "contact \<Rightarrow> u64 \<Rightarrow> contact" where
  "rebooted c r =
     (if c_present c then c\<lparr>
        c_label_hint := replicate 8 0, c_label_len := 0, c_tx_next := r, c_tx_reserved := r,
        c_aliases := AliasCache_new, c_cached_epoch := - 1 \<rparr>
      else Contact_empty)"

lemma restore_window:
  "rw_ok w \<Longrightarrow> (case persist_window w of (h, b, em) \<Rightarrow> ReplayWindow_restore h b em) = w"
  by (cases w) (auto simp: persist_window_def ReplayWindow_highest_def ReplayWindow_bitmap_bits_def
      ReplayWindow_is_empty_def ReplayWindow_restore_def rw_ok_def ReplayWindow_new_def
      split: if_splits)

lemma restore_contact_rebooted:
  assumes "contact_inv C c" and "c_tx_next c \<le> r"
  shows "restore_contact C ((persist_contact_of c)\<lparr> pc_tx_reserved := r \<rparr>) = rebooted c r"
proof -
  have "map (\<lambda>(h, b, em). ReplayWindow_restore h b em) (map persist_window ws) = ws"
    if "list_all rw_ok ws" for ws
    using that by (induction ws) (simp_all add: restore_window)
  with assms show ?thesis
    by (cases c)
      (auto simp: restore_contact_def persist_contact_of_def rebooted_def contact_inv_def Let_def
        Contact_empty_def AnchorHours_anchor_def AnchorHours_new_def max_absorb1)
qed

definition restarted :: "engine \<Rightarrow> engine \<Rightarrow> engine" where
  "restarted e0 e = e0\<lparr>
     en_provisioned := en_provisioned e, en_label := en_label e, en_uid := en_uid e,
     en_uid_set := en_uid_set e, en_unix_seconds := en_unix_seconds e, en_time_valid := False,
     en_persisted_tx_epoch := en_persisted_tx_epoch e, en_radio_on := False,
     en_armed_next_boot := en_armed_next_boot e, en_sign_priv := en_sign_priv e,
     en_sign_set := en_sign_set e,
     en_contacts := map (\<lambda>i. rebooted (en_contacts e ! i) (eff_reserved e i)) [0..<MAX_CONTACTS],
     en_pending := None, en_pending_send := None, en_persist_dirty := False, en_staged := None \<rparr>"

lemma reserve_le: "core_inv C e \<Longrightarrow> i < MAX_CONTACTS \<Longrightarrow> c_tx_next (en_contacts e ! i) \<le> eff_reserved e i"
  by (simp add: core_inv_def reserve_ok_def)

lemma restored_contacts:
  assumes "core_inv C e"
  shows "map (restore_contact C) (pv_contacts (Engine_persist_view e)) =
    map (\<lambda>i. rebooted (en_contacts e ! i) (eff_reserved e i)) [0..<MAX_CONTACTS]"
proof (rule nth_equalityI)
  have len: "length (en_contacts e) = MAX_CONTACTS" using assms by (simp add: core_inv_def contacts_ok_def)
  show "length (map (restore_contact C) (pv_contacts (Engine_persist_view e))) =
      length (map (\<lambda>i. rebooted (en_contacts e ! i) (eff_reserved e i)) [0..<MAX_CONTACTS])"
    using assms by (simp add: core_inv_def contacts_ok_def)
  fix i assume "i < length (map (restore_contact C) (pv_contacts (Engine_persist_view e)))"
  then have "i < MAX_CONTACTS" using assms by (simp add: core_inv_def contacts_ok_def)
  then show "map (restore_contact C) (pv_contacts (Engine_persist_view e)) ! i =
      map (\<lambda>i. rebooted (en_contacts e ! i) (eff_reserved e i)) [0..<MAX_CONTACTS] ! i"
    using assms restore_contact_rebooted [OF contact_inv_nth reserve_le, of C e i]
    by (simp add: nth_persist_contacts len)
qed

lemma restore_snapshot:
  assumes "core_inv C e"
  shows "restore C e0 (view_bytes (Engine_persist_view e)) = (Inr (), restarted e0 e)"
proof -
  have "pv_provisioned (Engine_persist_view e) = en_provisioned e"
    "pv_label (Engine_persist_view e) = en_label e" "pv_uid (Engine_persist_view e) = en_uid e"
    "pv_uid_set (Engine_persist_view e) = en_uid_set e"
    "pv_unix_seconds (Engine_persist_view e) = en_unix_seconds e"
    "pv_persisted_tx_epoch (Engine_persist_view e) = en_persisted_tx_epoch e"
    "pv_armed_next_boot (Engine_persist_view e) = en_armed_next_boot e"
    "pv_sign_priv (Engine_persist_view e) = en_sign_priv e"
    "pv_sign_set (Engine_persist_view e) = en_sign_set e"
    by (simp_all add: Engine_persist_view_def PersistView_new_def Let_def)
  then show ?thesis
    using restored_contacts [OF assms]
    by (simp add: restore_def decode_view_bytes view_wf_core [OF assms] restarted_def)
qed

lemma nth_restarted [simp]:
  "i < MAX_CONTACTS \<Longrightarrow>
   en_contacts (restarted e0 e) ! i = rebooted (en_contacts e ! i) (eff_reserved e i)"
  by (simp add: restarted_def)

lemma rebooted_simps [simp]:
  "c_present (rebooted c r) = c_present c"
  "c_present c \<Longrightarrow> c_root (rebooted c r) = c_root c"
  "c_present c \<Longrightarrow> c_tx_next (rebooted c r) = r"
  "c_present c \<Longrightarrow> c_tx_reserved (rebooted c r) = r"
  "c_present c \<Longrightarrow> c_win_data (rebooted c r) = c_win_data c"
  "c_present c \<Longrightarrow> c_win_epochs (rebooted c r) = c_win_epochs c"
  "c_present c \<Longrightarrow> c_anchor (rebooted c r) = c_anchor c"
  "c_present c \<Longrightarrow> c_role (rebooted c r) = c_role c"
  "c_present c \<Longrightarrow> c_blocked (rebooted c r) = c_blocked c"
  "c_present c \<Longrightarrow> c_ed_peer (rebooted c r) = c_ed_peer c"
  "c_tx_next (rebooted c r) \<le> c_tx_reserved (rebooted c r)"
  "c_tx_epoch_max (rebooted c r) = (if c_present c then c_tx_epoch_max c else 0)"
  by (simp_all add: rebooted_def)

lemma rebooted_inv: "contact_inv C c \<Longrightarrow> contact_inv C (rebooted c r)"
  by (cases "c_present c") (simp add: rebooted_def contact_inv_def, simp add: rebooted_def)

text \<open>A restart from a snapshot of a state that satisfies the invariant is settled.\<close>

lemma restarted_settled:
  assumes core: "core_inv C e" and e0: "core_inv C e0"
  shows "settled C (restarted e0 e)"
proof -
  let ?r = "restarted e0 e"
  have len: "length (en_contacts e) = MAX_CONTACTS" using core by (simp add: core_inv_def contacts_ok_def)
  have "contacts_ok C ?r"
    using core rebooted_inv contact_inv_nth
    by (auto simp: contacts_ok_def list_all_iff restarted_def)
  moreover have "sizes_ok ?r"
    using core e0 by (simp add: core_inv_def sizes_ok_def restarted_def)
  moreover have "clock_ok ?r"
    using core len by (auto simp: core_inv_def clock_ok_def restarted_def)
  moreover have "reserve_ok ?r"
    by (simp add: reserve_ok_def eff_reserved_def) (simp add: restarted_def)
  ultimately show ?thesis
    by (simp add: settled_def core_inv_def pending_ok_def send_ok_def) (simp add: restarted_def)
qed

lemma Engine_new_inv: "core_inv C (Engine_new b)"
proof -
  have "list_all (contact_inv C) (en_contacts (Engine_new b))"
    by (simp add: Engine_new_def list_all_iff)
  then show ?thesis
    by (simp add: core_inv_def contacts_ok_def sizes_ok_def clock_ok_def reserve_ok_def pending_ok_def
        send_ok_def eff_reserved_def)
      (simp add: Engine_new_def cache_new_ok)
qed

section \<open>Faults\<close>

text \<open>After a failed save the engine is marked faulted with nothing staged: it refuses to send
  and to change what would be saved.\<close>

definition faulted :: "engine \<Rightarrow> bool" where
  "faulted e \<longleftrightarrow> en_fault e \<and> en_staged e = None \<and> \<not> en_persist_dirty e \<and> en_pending_send e = None"

lemma faulted_mark: "faulted (mark_fault (discard_staged e))"
  by (simp add: faulted_def mark_fault_def discard_staged_def)

end
