(* ===== verification/Engine_Evolve.thy ===== *)
theory Engine_Evolve
  imports Engine_Ceremony
begin

text \<open>
  What the operations of the engine do to its contacts: a contact that stays keeps its root, its
  next sequence number only grows and what its windows refuse only grows; a frame that is sealed
  uses up the next sequence number; a message that is delivered was not seen before and is
  after.
\<close>

section \<open>How contacts evolve\<close>

text \<open>A message of this epoch and sequence number will not be taken again: its window refuses
  it, or its epoch is behind all windows.\<close>

definition rx_seen :: "contact \<Rightarrow> u32 \<Rightarrow> u64 \<Rightarrow> bool" where
  "rx_seen c ep sq =
     (case position (\<lambda>x. x = ep) (c_win_epochs c) of
        Some k \<Rightarrow> rw_seen (c_win_data c ! k) sq
      | None \<Rightarrow> unat ep + 1 < unat (ah_anchor (c_anchor c)))"

definition follows :: "contact \<Rightarrow> contact \<Rightarrow> bool" where
  "follows c c' \<longleftrightarrow> c_root c' = c_root c \<and> c_tx_next c \<le> c_tx_next c' \<and>
     (\<forall>ep sq. rx_seen c ep sq \<longrightarrow> rx_seen c' ep sq)"

text \<open>No contact appears, and those that stay only use up sequence numbers and remember more.\<close>

definition keeps :: "engine \<Rightarrow> engine \<Rightarrow> bool" where
  "keeps e e' \<longleftrightarrow>
     (\<forall>i < MAX_CONTACTS. c_present (en_contacts e' ! i) \<longrightarrow>
        c_present (en_contacts e ! i) \<and> follows (en_contacts e ! i) (en_contacts e' ! i))"

text \<open>The same, but one contact may appear.\<close>

definition evolves :: "engine \<Rightarrow> engine \<Rightarrow> bool" where
  "evolves e e' \<longleftrightarrow>
     (\<exists>k. \<forall>i < MAX_CONTACTS. c_present (en_contacts e' ! i) \<longrightarrow>
        (if c_present (en_contacts e ! i) then follows (en_contacts e ! i) (en_contacts e' ! i)
         else i = k))"

text \<open>Traffic neither adds nor removes contacts.\<close>

definition stays :: "engine \<Rightarrow> engine \<Rightarrow> bool" where
  "stays e e' \<longleftrightarrow>
     (\<forall>i < MAX_CONTACTS. c_present (en_contacts e' ! i) = c_present (en_contacts e ! i) \<and>
        follows (en_contacts e ! i) (en_contacts e' ! i))"

lemma follows_refl [simp]: "follows c c"
  by (simp add: follows_def)

lemma follows_trans: "follows a b \<Longrightarrow> follows b c \<Longrightarrow> follows a c"
  by (auto simp: follows_def)

lemma keeps_contacts: "en_contacts e' = en_contacts e \<Longrightarrow> keeps e e'"
  by (simp add: keeps_def)

lemma keeps_refl [simp]: "keeps e e"
  by (simp add: keeps_contacts)

lemma keeps_trans: "keeps a b \<Longrightarrow> keeps b c \<Longrightarrow> keeps a c"
  by (auto simp: keeps_def intro: follows_trans)

lemma keeps_evolves: "keeps e e' \<Longrightarrow> evolves e e'"
  by (auto simp: keeps_def evolves_def)

lemma stays_keeps: "stays e e' \<Longrightarrow> keeps e e'"
  by (simp add: stays_def keeps_def)

lemma stays_contacts: "en_contacts e' = en_contacts e \<Longrightarrow> stays e e'"
  by (simp add: stays_def)

lemma stays_refl [simp]: "stays e e"
  by (simp add: stays_contacts)

lemma stays_trans: "stays a b \<Longrightarrow> stays b c \<Longrightarrow> stays a c"
  by (auto simp: stays_def intro: follows_trans)

lemma stays_stage [simp]: "stays e (stage_persist op e') = stays e e'" "stays (stage_persist op e) e' = stays e e'"
  by (simp_all add: stays_def)

lemma follows_same:
  "c_root c' = c_root c \<Longrightarrow> c_tx_next c \<le> c_tx_next c' \<Longrightarrow> c_win_data c' = c_win_data c \<Longrightarrow>
   c_win_epochs c' = c_win_epochs c \<Longrightarrow> c_anchor c' = c_anchor c \<Longrightarrow> follows c c'"
  by (simp add: follows_def rx_seen_def split: option.split)

lemma stays_upd:
  assumes "length (en_contacts e) = MAX_CONTACTS"
    and "c_present (f (en_contacts e ! i)) = c_present (en_contacts e ! i)"
    and "follows (en_contacts e ! i) (f (en_contacts e ! i))"
  shows "stays e (upd_contact i f e)"
  using assms by (auto simp: stays_def nth_upd_contact)

lemma settled_length: "settled C e \<Longrightarrow> length (en_contacts e) = MAX_CONTACTS"
  by (simp add: settled_def core_inv_def contacts_ok_def)

subsection \<open>Advancing the time\<close>

text \<open>An epoch among the new slots that is not among the old ones is not behind the old
  anchor.\<close>

lemma slots_reach:
  assumes "ep \<in> set (AnchorHours_slots n)" and "a \<le> n"
  shows "unat a \<le> unat ep + 1"
  using assms unat_u32_less [of ep] unat_u32_less [of n] unat_saturating_sub [of n 1]
    unat_saturating_add [of n 1]
  by (auto simp: slots_shape word_le_nat_alt)

lemma slots_behind:
  assumes "ep \<notin> set (AnchorHours_slots n)" and "ep \<in> set (AnchorHours_slots a)" and "a \<le> n"
  shows "unat ep + 1 < unat n"
proof -
  have u: "unat (saturating_sub x 1) = unat x - 1"
    "unat (saturating_add x 1) = min (unat x + 1) (2 ^ 32 - 1)" for x :: u32
    by (simp_all add: unat_saturating_sub unat_saturating_add)
  have "unat ep \<noteq> unat n - 1" "unat ep \<noteq> unat n" "unat ep \<noteq> min (unat n + 1) (2 ^ 32 - 1)"
    using assms(1) by (auto simp: slots_shape word_unat_eq_iff u)
  moreover have "unat ep = unat a - 1 \<or> unat ep = unat a \<or> unat ep = min (unat a + 1) (2 ^ 32 - 1)"
    using assms(2) by (auto simp: slots_shape u)
  moreover have "unat a \<le> unat n" using assms(3) by (simp add: word_le_nat_alt)
  ultimately show ?thesis using unat_u32_less [of n] by linarith
qed

lemma follows_advanced:
  assumes inv: "contact_inv C c" and pr: "c_present c" and le: "ah_anchor (c_anchor c) \<le> n"
  shows "follows c (advanced c n)"
proof -
  let ?a = "ah_anchor (c_anchor c)" and ?d = "advanced c n"
  have ep3: "length (c_win_epochs c) = 3" "c_win_epochs c = AnchorHours_slots ?a"
    and wd3: "length (c_win_data c) = 3"
    using inv pr by (simp_all add: contact_inv_def)
  note adv = advanced_fields [OF le ep3(1)]
  have s3: "length (AnchorHours_slots n) = 3" by (simp add: slots_shape)
  have "rx_seen ?d ep sq" if seen: "rx_seen c ep sq" for ep sq
  proof (cases "position (\<lambda>x. x = ep) (AnchorHours_slots n)")
    case None
    then have out: "ep \<notin> set (AnchorHours_slots n)" by (auto simp: position_None)
    have "unat ep + 1 < unat n"
    proof (cases "position (\<lambda>x. x = ep) (c_win_epochs c)")
      case (Some k)
      then have "ep \<in> set (c_win_epochs c)" by (auto dest!: position_Some)
      then have "ep \<in> set (AnchorHours_slots ?a)" by (simp add: ep3(2))
      with out le show ?thesis by (intro slots_behind)
    next
      case None
      then have "unat ep + 1 < unat ?a" using seen by (simp add: rx_seen_def)
      also have "unat ?a \<le> unat n" using le by (simp add: word_le_nat_alt)
      finally show ?thesis .
    qed
    then show ?thesis using None by (simp add: rx_seen_def adv(1,2))
  next
    case (Some j)
    then have j: "j < 3" "AnchorHours_slots n ! j = ep" using position_Some s3 by fastforce+
    obtain init where "c_win_data ?d =
        move_windows (AnchorHours_slots n) (c_win_epochs c) init (c_win_data c)"
      using adv(3) by blast
    then have w: "c_win_data ?d ! j =
        (case position (\<lambda>x. x = ep) (c_win_epochs c) of Some k \<Rightarrow> c_win_data c ! k
         | None \<Rightarrow> ReplayWindow_new)"
      using nth_move_windows [OF s3 wd3 j(1)] j(2) by simp
    have "position (\<lambda>x. x = ep) (c_win_epochs c) \<noteq> None"
    proof
      assume none: "position (\<lambda>x. x = ep) (c_win_epochs c) = None"
      with seen have "unat ep + 1 < unat ?a" by (simp add: rx_seen_def)
      moreover have "unat ?a \<le> unat ep + 1"
        using j s3 le by (intro slots_reach [of ep n]) (metis nth_mem)
      ultimately show False by simp
    qed
    then show ?thesis using seen Some w by (auto simp: rx_seen_def adv(2))
  qed
  then show ?thesis by (simp add: follows_def)
qed

lemma keeps_set_time:
  assumes s: "settled C e"
  shows "keeps e (snd (set_time_confirmed e t b))"
proof -
  have "keeps e (e\<lparr> en_contacts := advanced_all (en_contacts e) n \<rparr>)" if "time_floor e \<le> n" for n
  proof -
    have "follows (en_contacts e ! i) (advanced (en_contacts e ! i) n)"
      if i: "i < MAX_CONTACTS" "c_present (en_contacts e ! i)" for i
    proof (rule follows_advanced)
      show "contact_inv C (en_contacts e ! i)" using s i by (simp add: settled_def contact_inv_nth)
      show "ah_anchor (c_anchor (en_contacts e ! i)) \<le> n"
        using \<open>time_floor e \<le> n\<close> i settled_length [OF s] by (simp add: time_floor_le)
    qed (rule i(2))
    then show ?thesis by (auto simp: keeps_def nth_advanced_all settled_length [OF s])
  qed
  then have "keeps e (stage_persist (StTime t) (e\<lparr> en_contacts := advanced_all (en_contacts e) n,
      en_unix_seconds := t, en_time_valid := True, en_utc_mono_s := en_mono_s e \<rparr>))"
    if "time_floor e \<le> n" for n
    using that by (simp add: keeps_def)
  then show ?thesis by (auto simp: set_time_confirmed_eq split: option.split)
qed

section \<open>What an operation does to the contacts\<close>

lemma keeps_delete:
  assumes "settled C e"
  shows "keeps e (snd (delete_contact e cid))"
proof (cases "rbind (check_usable e) (\<lambda>_. slot_of e cid)")
  case (Inr slot)
  show ?thesis
    unfolding delete_contact_eq [OF Inr]
    using settled_length [OF assms] by (auto simp: keeps_def nth_upd_contact)
qed (simp add: delete_contact_def)

lemma keeps_set_blocked:
  assumes "settled C e"
  shows "keeps e (snd (set_blocked e cid b))"
proof -
  have "keeps e (upd_contact slot (\<lambda>c. c\<lparr> c_blocked := b \<rparr>) e)" for slot
    using settled_length [OF assms] by (auto simp: keeps_def nth_upd_contact intro: follows_same)
  then show ?thesis
    by (auto simp: set_blocked_def Let_def keeps_def split: sum.split option.split)
qed

lemma stays_refresh:
  assumes "length (en_contacts e) = MAX_CONTACTS"
  shows "stays e (refresh_aliases C slot e)"
proof -
  have "follows c (aliased C e c)" for c by (rule follows_same) simp_all
  then show ?thesis
    using nth_refresh_aliases [of _ e C slot] assms by (fastforce simp: stays_def)
qed

lemma stays_used_one:
  assumes "length (en_contacts e) = MAX_CONTACTS" and "slot < MAX_CONTACTS"
    and "c_tx_next (en_contacts e ! slot) < eff_reserved e slot"
  shows "stays e (used_one slot ep e)"
    and "c_tx_next (en_contacts e ! slot) < c_tx_next (en_contacts (used_one slot ep e) ! slot)"
proof -
  have "c_tx_next (en_contacts e ! slot) < c_tx_next (en_contacts e ! slot) + 1"
    using assms(3) unat_u64_less [of "eff_reserved e slot"]
    by (simp add: word_less_nat_alt unat_plus_fits)
  then show "stays e (used_one slot ep e)"
    and "c_tx_next (en_contacts e ! slot) < c_tx_next (en_contacts (used_one slot ep e) ! slot)"
    using assms(1,2)
    by (auto simp: used_one_def stays_def nth_upd_contact less_imp_le intro: follows_same)
qed

subsection \<open>Sealing\<close>

text \<open>The sequence number a frame carries, read from its bytes: with the epoch before it these
  are the bytes of the nonce.\<close>

definition frame_seq :: "outgoing_frame \<Rightarrow> u64" where
  "frame_seq f = of_be (bslice 19 27 (OutgoingFrame_as_slice f))"

lemma encode_frame_seq:
  assumes "encode_frame h body (replicate MAX_FRAME_LEN 0) = (Inr len, frm)"
  shows "of_be (bslice 19 27 (bslice 0 len frm)) = h_sequence h"
    and "of_be (bslice 15 19 (bslice 0 len frm)) = h_epoch h"
proof -
  have "fst (encode_frame h body (replicate MAX_FRAME_LEN 0)) = Inr len" using assms by simp
  then have len: "length body \<le> 225" "len = 30 + length body"
    by (auto simp: encode_frame_result split: if_splits)
  then have "frm = frame_bytes h body @ drop len (replicate MAX_FRAME_LEN 0)"
    using assms encode_frame_ok [of body "replicate MAX_FRAME_LEN 0" h]
    by (auto simp: MAX_FRAME_LEN_def)
  then have "bslice 0 len frm = frame_bytes h body" using len(2) by (simp add: bslice_def)
  then show "of_be (bslice 19 27 (bslice 0 len frm)) = h_sequence h"
    and "of_be (bslice 15 19 (bslice 0 len frm)) = h_epoch h"
    using frame_bytes_fields(8,9) [OF len(1), of h] by simp_all
qed

text \<open>Operation result: a frame sealed for a contact carries the contact's next sequence number,
  which is used up in the state after it, and that state has to be saved first.\<close>

definition sealed :: "engine \<Rightarrow> outgoing_frame \<Rightarrow> engine \<Rightarrow> bool" where
  "sealed e f e' \<longleftrightarrow>
     (\<forall>cid. of_contact_id f = Some cid \<longrightarrow> en_persist_dirty e' \<and>
        (\<exists>i < MAX_CONTACTS. cid = of_nat (i + 1) \<and> c_present (en_contacts e ! i) \<and>
           c_present (en_contacts e' ! i) \<and>
           frame_seq f = c_tx_next (en_contacts e ! i) \<and>
           frame_seq f < c_tx_next (en_contacts e' ! i)))"

lemma header_fields [simp]:
  "h_sequence (data_header C e slot ps) = ps_sequence ps"
  "h_epoch (data_header C e slot ps) = ps_epoch ps"
  "h_sequence (ack_header C e slot ep sq pid) = sq"
  "h_epoch (ack_header C e slot ep sq pid) = ep"
  by (simp_all add: data_header_def ack_header_def Let_def split: prod.split)

lemma send_emit_sealed:
  assumes s: "settled C e" and em: "send_emit C e = (Inr f, e')"
  shows "stays e e' \<and> sealed e f e'"
proof -
  from em obtain ps slot key where chk: "send_emit_check C e = Inr (ps, slot, key)"
    by (auto simp: send_emit_def split: if_splits sum.splits)
  let ?r = "refresh_aliases C slot e"
  from em chk obtain len frm where df: "data_frame C ?r slot ps key = Inr (len, frm)"
    by (auto simp: send_emit_def Let_def split: if_splits sum.splits)
  have slot: "slot_of e (ps_contact_id ps) = Inr slot" and sq: "c_tx_next (en_contacts e ! slot) = ps_sequence ps"
    and lt: "ps_sequence ps < c_tx_reserved (en_contacts e ! slot)"
    using chk by (auto simp: send_emit_check_Inr)
  then have i: "slot < MAX_CONTACTS" "c_present (en_contacts e ! slot)"
    and cid: "ps_contact_id ps = of_nat (slot + 1)"
    by (auto simp: slot_of_Inr slot_of_less)
  have len: "length (en_contacts e) = MAX_CONTACTS" using s by (rule settled_length)
  have un: "en_staged e = None" "\<not> en_persist_dirty e" using s by (simp_all add: settled_def)
  have e': "f = \<lparr> of_len = len, of_frame = frm, of_contact_id = Some (ps_contact_id ps),
      of_is_ack = False, of_is_retry_echo = False \<rparr>"
    "e' = stage_persist StNone (used_one slot (ps_epoch ps) ?r)"
    using em send_emit_eq [OF un(2) chk df] i len by simp_all
  have r: "c_tx_next (en_contacts ?r ! slot) = ps_sequence ps" "c_present (en_contacts ?r ! slot)"
    "c_tx_next (en_contacts ?r ! slot) < eff_reserved ?r slot"
    using nth_refresh_aliases [of slot e C slot] i sq lt len un by (auto simp: eff_reserved_def)
  have k: "stays e ?r" "stays ?r (used_one slot (ps_epoch ps) ?r)"
    using stays_refresh [OF len] stays_used_one(1) [of ?r slot] len i r by simp_all
  have pr: "c_present (en_contacts (used_one slot (ps_epoch ps) ?r) ! slot)"
    using r(2) i len by (simp add: used_one_def nth_upd_contact)
  obtain body where " encode_frame (data_header C ?r slot ps) body (replicate MAX_FRAME_LEN 0) =
      (Inr len, frm)"
    using df by (auto simp: data_frame_def Let_def split: prod.splits sum.splits)
  then have "frame_seq f = ps_sequence ps"
    by (simp add: frame_seq_def e'(1) OutgoingFrame_as_slice_def encode_frame_seq(1))
  then have "sealed e f e'"
    using i r pr cid sq stays_used_one(2) [of ?r slot "ps_epoch ps"] len
    by (auto simp: sealed_def e')
  moreover have "stays e e'"
    using stays_trans [OF k] by (simp add: e'(2))
  ultimately show ?thesis by simp
qed

text \<open>Only contacts and next sequence numbers matter before the operation.\<close>

lemma sealed_left:
  assumes "sealed e1 f e2"
    and "\<And>i. i < MAX_CONTACTS \<Longrightarrow> c_present (en_contacts e ! i) = c_present (en_contacts e1 ! i) \<and>
      c_tx_next (en_contacts e ! i) = c_tx_next (en_contacts e1 ! i)"
  shows "sealed e f e2"
  using assms unfolding sealed_def by metis

lemma ack_frame_seq:
  assumes "ack_frame C key h d = Some (len, frm)"
  shows "of_be (bslice 19 27 (bslice 0 len frm)) = h_sequence h"
proof -
  from assms obtain body where "encode_frame h body (replicate MAX_FRAME_LEN 0) = (Inr len, frm)"
    by (auto simp: ack_frame_def Let_def split: prod.splits sum.splits)
  then show ?thesis by (rule encode_frame_seq(1))
qed

lemma build_ack_sealed:
  assumes st: "staged_ok C e" and un: "unreserved e" and i: "slot < MAX_CONTACTS"
    and pr: "c_present (en_contacts e ! slot)"
  shows "stays e (snd (build_ack C e slot h pid)) \<and>
    (\<forall>f. fst (build_ack C e slot h pid) = Some f \<longrightarrow> sealed e f (snd (build_ack C e slot h pid)))"
proof (cases rule: build_ack_cases [of C e slot h pid])
  case none
  then show ?thesis by simp
next
  case (stuck e')
  obtain op where "e' = stage_persist op e" using ack_stage_Some(2) [OF assms stuck(1)] by blast
  with stuck show ?thesis by simp
next
  case (sent e' key len frm)
  note a = ack_stage_Some [OF assms sent(2)]
  obtain op where op: "e' = stage_persist op e" using a(2) by blast
  have len: "length (en_contacts e') = MAX_CONTACTS"
    using st by (simp add: op staged_ok_def core_inv_def contacts_ok_def)
  let ?u = "used_one slot (Engine_epoch e) e'"
  have "c_tx_next (en_contacts e' ! slot) < eff_reserved e' slot" using a(3) by (simp add: op)
  note u = stays_used_one [OF len i this]
  have "frame_seq \<lparr> of_len = len, of_frame = frm, of_contact_id = Some (of_nat (slot + 1)),
      of_is_ack = True, of_is_retry_echo = False \<rparr> = c_tx_next (en_contacts e' ! slot)"
    using ack_frame_seq [OF sent(4)] by (simp add: frame_seq_def OutgoingFrame_as_slice_def)
  moreover have "c_present (en_contacts ?u ! slot)"
    using pr i len by (simp add: used_one_def nth_upd_contact op)
  ultimately show ?thesis
    using u i pr by (auto simp: sent(5) sealed_def op)
qed

subsection \<open>Delivering\<close>

definition delivers :: "engine \<Rightarrow> node_event \<Rightarrow> engine \<Rightarrow> bool" where
  "delivers e ev e' \<longleftrightarrow>
     (\<forall>cid ep sq t n. ev = Received cid ep sq t n \<longrightarrow> en_persist_dirty e' \<and>
        (\<exists>i < MAX_CONTACTS. cid = of_nat (i + 1) \<and> c_present (en_contacts e ! i) \<and>
           c_present (en_contacts e' ! i) \<and>
           \<not> rx_seen (en_contacts e ! i) ep sq \<and> rx_seen (en_contacts e' ! i) ep sq))"

definition result_ok :: "engine \<Rightarrow> rx_result \<Rightarrow> engine \<Rightarrow> bool" where
  "result_ok e r e' \<longleftrightarrow> stays e e' \<and>
     (case r of (_, f, ev) \<Rightarrow>
        (\<forall>x. f = Some x \<longrightarrow> sealed e x e') \<and> (\<forall>x. ev = Some x \<longrightarrow> delivers e x e'))"

lemma accept_seen_mono: "rw_seen w t \<Longrightarrow> rw_seen (snd (ReplayWindow_accept w s)) t"
  by (cases "rw_seen w s") (simp_all add: accept_refused accept_seen)

text \<open>Offering a sequence number to a data window.\<close>

lemma rx_seen_offer:
  assumes "k < length (c_win_data c)" and "position (\<lambda>x. x = ep) (c_win_epochs c) = Some k"
    and "d = c\<lparr> c_win_data := (c_win_data c)[k := snd (ReplayWindow_accept (c_win_data c ! k) sq)] \<rparr>"
  shows "follows c d"
    and "fst (ReplayWindow_accept (c_win_data c ! k) sq) = Accepted \<Longrightarrow>
      \<not> rx_seen c ep sq \<and> rx_seen d ep sq"
proof -
  have "rx_seen c x s \<Longrightarrow> rx_seen d x s" for x s
    using assms(1,3)
    by (auto simp: rx_seen_def nth_list_update accept_seen_mono split: option.splits)
  then show "follows c d" by (simp add: follows_def assms(3))
  assume "fst (ReplayWindow_accept (c_win_data c ! k) sq) = Accepted"
  then have "\<not> rw_seen (c_win_data c ! k) sq" by (simp add: accept_Accepted)
  then show "\<not> rx_seen c ep sq \<and> rx_seen d ep sq"
    using assms by (simp add: rx_seen_def accept_seen)
qed

lemma rx_data_result:
  assumes s: "settled C e" and i: "slot < MAX_CONTACTS" and pr: "c_present (en_contacts e ! slot)"
    and pos: "position (\<lambda>x. x = h_epoch h) (c_win_epochs (en_contacts e ! slot)) = Some k"
  shows "result_ok e (fst (rx_data C e slot k h t pid)) (snd (rx_data C e slot k h t pid))"
proof -
  let ?c = "en_contacts e ! slot"
  have ci: "contact_inv C ?c" using s i by (simp add: settled_def contact_inv_nth)
  then have k: "k < 3" "length (c_win_data ?c) = 3"
    using position_Some [OF pos] by (auto simp: contact_inv_def)
  obtain v w where a: "ReplayWindow_accept (c_win_data ?c ! k) (h_sequence h) = (v, w)" by fastforce
  define f :: "contact \<Rightarrow> contact" where "f = (\<lambda>c. c\<lparr> c_win_data := (c_win_data c)[k := w] \<rparr>)"
  let ?e = "upd_contact slot f e"
  have s': "settled C ?e"
    using s i pr k(1) unfolding f_def
    by (intro settled_window_upd(1) [where sq = "h_sequence h", OF _ _ _ _ _ refl]) (simp_all add: a)
  have len: "length (en_contacts e) = MAX_CONTACTS" using s by (rule settled_length)
  have off: "follows ?c (f ?c)" "v = Accepted \<Longrightarrow>
      \<not> rx_seen ?c (h_epoch h) (h_sequence h) \<and> rx_seen (f ?c) (h_epoch h) (h_sequence h)"
    using rx_seen_offer [OF _ pos, of "f ?c" "h_sequence h"] k by (simp_all add: a f_def)
  have pr': "c_present (en_contacts ?e ! slot)" using pr i len by (simp add: nth_upd_contact f_def)
  have st: "stays e ?e" using off(1) len by (intro stays_upd) (simp_all add: f_def)
  have b: "staged_ok C x \<Longrightarrow> unreserved x \<Longrightarrow> en_contacts x = en_contacts ?e \<Longrightarrow>
      stays e (snd (build_ack C x slot h pid)) \<and>
      c_present (en_contacts (snd (build_ack C x slot h pid)) ! slot) \<and>
      (rx_seen (f ?c) (h_epoch h) (h_sequence h) \<longrightarrow>
         rx_seen (en_contacts (snd (build_ack C x slot h pid)) ! slot) (h_epoch h) (h_sequence h)) \<and>
      (\<forall>fr. fst (build_ack C x slot h pid) = Some fr \<longrightarrow> sealed e fr (snd (build_ack C x slot h pid)))"
    for x
  proof -
    assume x: "staged_ok C x" "unreserved x" "en_contacts x = en_contacts ?e"
    have prx: "c_present (en_contacts x ! slot)" using pr' by (simp add: x(3))
    note bs = build_ack_sealed [OF x(1,2) i prx, of h pid]
    have "c_present (en_contacts e ! j) = c_present (en_contacts x ! j) \<and>
        c_tx_next (en_contacts e ! j) = c_tx_next (en_contacts x ! j)" if "j < MAX_CONTACTS" for j
      using that len by (simp add: x(3) nth_upd_contact f_def)
    moreover have "stays e x" using st by (simp add: stays_def x(3))
    moreover have "en_contacts x ! slot = f ?c" using i len by (simp add: x(3) nth_upd_contact)
    ultimately show ?thesis
      using bs i prx stays_trans [of e x] sealed_left [of x _ _ e]
      by (auto simp: stays_def follows_def)
  qed
  have dirty: "en_persist_dirty (snd (build_ack C (stage_persist StRxAccept ?e) slot h pid))"
    using build_ack_ok [OF settled_stage [OF s'] _ i, of StRxAccept] pr' by (simp add: staged_ok_def)
  have b1: "staged_ok C (stage_persist StRxAccept ?e)" "staged_ok C (stage_persist StNone (bump_replay_drops ?e))"
    using s' by (simp_all add: settled_stage)
  show ?thesis
  proof (cases v)
    case Accepted
    with off(2) b [OF b1(1)] i pr dirty show ?thesis
      by (auto simp: rx_data_def a Let_def split_def result_ok_def delivers_def simp flip: f_def)
  next
    case Duplicate
    with b [OF b1(2)] show ?thesis
      by (simp add: rx_data_def a Let_def split_def result_ok_def flip: f_def)
  next
    case Stale
    with st show ?thesis
      by (simp add: rx_data_def a Let_def result_ok_def stays_def flip: f_def)
  qed
qed

lemma rx_ack_result:
  assumes s: "settled C e"
  shows "result_ok e (fst (rx_ack e slot h pt)) (snd (rx_ack e slot h pt))"
proof -
  have "stays e (upd_contact slot (\<lambda>c. c\<lparr> c_win_ack := x c \<rparr>) e)" for x
    using settled_length [OF s] by (intro stays_upd) (auto intro: follows_same)
  then have "stays e (snd (rx_ack e slot h pt))"
    by (auto simp: rx_ack_def Let_def stays_def bump_replay_drops_def
        split: option.split prod.split)
  then show ?thesis
    by (auto simp: result_ok_def delivers_def) (auto simp: rx_ack_def Let_def
        split: option.splits prod.splits if_splits)
qed

lemma result_ok_left:
  assumes "result_ok e1 r e2" and "stays e e1"
    and "\<And>i. i < MAX_CONTACTS \<Longrightarrow> c_tx_next (en_contacts e ! i) = c_tx_next (en_contacts e1 ! i) \<and>
      rx_seen (en_contacts e ! i) = rx_seen (en_contacts e1 ! i)"
  shows "result_ok e r e2"
proof -
  have pr: "c_present (en_contacts e ! i) = c_present (en_contacts e1 ! i)" if "i < MAX_CONTACTS" for i
    using assms(2) that by (simp add: stays_def)
  have "stays e e2" using assms(1,2) stays_trans by (auto simp: result_ok_def)
  moreover have "sealed e1 f e2 \<Longrightarrow> sealed e f e2" for f
    by (erule sealed_left) (simp add: assms(3) pr)
  moreover have "delivers e1 ev e2 \<Longrightarrow> delivers e ev e2" for ev
    using assms(3) pr unfolding delivers_def by metis
  ultimately show ?thesis using assms(1) by (auto simp: result_ok_def)
qed

lemma rx_seen_aliased [simp]: "rx_seen (aliased C e c) = rx_seen c"
  by (simp add: rx_seen_def fun_eq_iff split: option.split)

lemma refresh_same:
  assumes "settled C e" and "i < MAX_CONTACTS"
  shows "c_tx_next (en_contacts e ! i) = c_tx_next (en_contacts (refresh_aliases C slot e) ! i) \<and>
    rx_seen (en_contacts e ! i) = rx_seen (en_contacts (refresh_aliases C slot e) ! i)"
  using nth_refresh_aliases [of i e C slot] assms settled_length [OF assms(1)]
  by auto

lemma result_ok_nothing [simp]: "result_ok e (k, None, None) e' = stays e e'"
  by (simp add: result_ok_def)

lemma on_frame_slot_result:
  assumes s: "settled C e" and i: "slot < MAX_CONTACTS"
  shows "case on_frame_slot C e h b pid slot of
    (Return r, e') \<Rightarrow> result_ok e r e' | (_, e') \<Rightarrow> stays e e' \<and>
      (\<forall>i < MAX_CONTACTS. c_tx_next (en_contacts e ! i) = c_tx_next (en_contacts e' ! i) \<and>
        rx_seen (en_contacts e ! i) = rx_seen (en_contacts e' ! i))"
proof (cases "c_present (en_contacts e ! slot)")
  case False
  then show ?thesis by (simp add: on_frame_slot_def)
next
  case pr: True
  let ?r = "refresh_aliases C slot e"
  have len: "length (en_contacts e) = MAX_CONTACTS" using s by (rule settled_length)
  have r: "settled C ?r" using s i by (rule settled_refresh)
  have st: "stays e ?r" using len by (rule stays_refresh)
  have same: "\<And>i. i < MAX_CONTACTS \<Longrightarrow> c_tx_next (en_contacts e ! i) = c_tx_next (en_contacts ?r ! i) \<and>
      rx_seen (en_contacts e ! i) = rx_seen (en_contacts ?r ! i)"
    using refresh_same [OF s] .
  have pr': "c_present (en_contacts ?r ! slot)"
    and we: "c_win_epochs (en_contacts ?r ! slot) = c_win_epochs (en_contacts e ! slot)"
    using pr i len nth_refresh_aliases [of slot e C slot] by auto
  show ?thesis
  proof (cases "position (\<lambda>x. x = h_epoch h) (c_win_epochs (en_contacts e ! slot))")
    case None
    with pr show ?thesis by (simp add: on_frame_slot_def)
  next
    case (Some k)
    have "result_ok e (fst (rx_data C ?r slot k h t pid)) (snd (rx_data C ?r slot k h t pid))" for t
      using rx_data_result [OF r i pr'] Some result_ok_left [OF _ st same] by (simp add: we)
    moreover have "result_ok e (fst (rx_ack ?r slot h t)) (snd (rx_ack ?r slot h t))" for t
      using rx_ack_result [OF r] result_ok_left [OF _ st same] by simp
    ultimately show ?thesis
      using pr Some st same
      by (simp add: on_frame_slot_def Let_def split_def split: sum.split prod.split)
  qed
qed

lemma on_frame_slots_result:
  "settled C e \<Longrightarrow> set slots \<subseteq> {..<MAX_CONTACTS} \<Longrightarrow>
   case on_frame_slots C h b pid slots failed e of
     ((Some r, _), e') \<Rightarrow> result_ok e r e' | ((None, _), e') \<Rightarrow> stays e e'"
proof (induction slots arbitrary: failed e)
  case (Cons slot slots)
  obtain out e1 where o: "on_frame_slot C e h b pid slot = (out, e1)" by fastforce
  have i: "slot < MAX_CONTACTS" using Cons.prems(2) by simp
  note ok = on_frame_slot_ok [OF Cons.prems(1) i, of h b pid] on_frame_slot_result [OF Cons.prems(1) i, of h b pid]
  show ?case
  proof (cases "\<exists>r. out = Return r")
    case True
    then show ?thesis using ok(2) by (auto simp: o)
  next
    case False
    then have st: "stays e e1" and s1: "settled C e1"
      and same: "\<And>i. i < MAX_CONTACTS \<Longrightarrow> c_tx_next (en_contacts e ! i) = c_tx_next (en_contacts e1 ! i) \<and>
        rx_seen (en_contacts e ! i) = rx_seen (en_contacts e1 ! i)"
      using ok by (auto simp: o split: slot_outcome.splits)
    define f' where "f' = (failed \<or> out = AuthFailed)"
    have step: "on_frame_slots C h b pid (slot # slots) failed e = on_frame_slots C h b pid slots f' e1"
      using False by (cases out) (auto simp: o f'_def)
    obtain r fl e2 where o2: "on_frame_slots C h b pid slots f' e1 = ((r, fl), e2)"
      by (metis prod.exhaust)
    have "case r of Some r \<Rightarrow> result_ok e1 r e2 | None \<Rightarrow> stays e1 e2"
      using Cons.IH [OF s1, of f'] Cons.prems(2) o2 by (auto split: option.splits)
    then show ?thesis
      using st same result_ok_left [OF _ st same] stays_trans [OF st]
      unfolding step o2 by (auto split: option.splits)
  qed
qed simp

lemma transit_result: "result_ok e (fst (transit C e f h now)) (snd (transit C e f h now))"
  by (auto simp: transit_def Let_def result_ok_def sealed_def stays_def
      split: prod.split observe.split sum.split)

lemma on_frame_result:
  assumes s: "settled C e"
  shows "result_ok e (fst (on_frame C e f now pid)) (snd (on_frame C e f now pid))"
proof (cases "decode_frame f")
  case (Inl err)
  then show ?thesis by (simp add: on_frame_def)
next
  case (Inr hb)
  obtain h b where hb: "hb = (h, b)" by fastforce
  obtain r failed e' where o: "on_frame_slots C h b pid [0..<MAX_CONTACTS] False e = ((r, failed), e')"
    by (metis prod.exhaust)
  have "set [0..<MAX_CONTACTS] \<subseteq> {..<MAX_CONTACTS}" by auto
  note slots = on_frame_slots_result [OF s this, of h b pid False, unfolded o]
  show ?thesis
  proof (cases r)
    case None
    define e2 where "e2 = (if failed then e'\<lparr> en_auth_failures := saturating_add (en_auth_failures e') 1 \<rparr> else e')"
    have "stays e e2" using slots None by (simp add: e2_def stays_def)
    moreover have "en_contacts (snd (transit C e2 f h now)) = en_contacts e2" by (simp add: transit_state)
    moreover have "sealed x y z" if "of_contact_id y = None" for x y z using that by (simp add: sealed_def)
    moreover have "snd (snd (fst (transit C e2 f h now))) = None \<and>
        (\<forall>y. fst (snd (fst (transit C e2 f h now))) = Some y \<longrightarrow> of_contact_id y = None)"
      by (auto simp: transit_def Let_def split: prod.split observe.split sum.split)
    ultimately have "result_ok e (fst (transit C e2 f h now)) (snd (transit C e2 f h now))"
      by (auto simp: result_ok_def stays_def split: prod.split)
    then show ?thesis
      by (simp add: on_frame_def Inr hb Let_def o None transit_result flip: e2_def)
  next
    case (Some res)
    with slots show ?thesis by (simp add: on_frame_def Inr hb Let_def o transit_result)
  qed
qed

end
