(* ===== verification/Engine_Wire.thy ===== *)
theory Engine_Wire
  imports Engine_Evolve
begin

text \<open>
  What a frame on the air carries and what its receiver does with it. A frame that \<open>send_emit\<close>
  or \<open>build_ack\<close> seals opens at the linked contact of the peer, directly or after a relay has
  spent its hop; a frame nobody can open changes nothing but counters and caches.
\<close>

section \<open>Sealed frames\<close>

text \<open>A body opens under a key to a plaintext, whatever the output buffer held.\<close>

definition opens :: "crypto \<Rightarrow> bytes \<Rightarrow> header \<Rightarrow> bytes \<Rightarrow> bytes \<Rightarrow> bool" where
  "opens C key h ct pt \<longleftrightarrow> length pt \<le> 1 + MAX_TEXT_LEN \<and> length ct = length pt + 16 \<and>
     (\<forall>out. length pt \<le> length out \<longrightarrow>
        decrypt_data C key (nonce (h_epoch h) (h_sequence h)) (frame_aad h (of_nat (length ct))) ct out =
          (Inr (length pt), pt @ drop (length pt) out))"

lemma opens_hops [simp]: "opens C key (h\<lparr> h_hops := x \<rparr>) ct pt = opens C key h ct pt"
  by (simp add: opens_def)

lemma seal_opens:
  assumes "aead_correct C" and "length pt \<le> 1 + MAX_TEXT_LEN"
  obtains ct where "opens C key h ct pt"
    and "\<And>out. length pt + 16 \<le> length out \<Longrightarrow>
      encrypt_data C key (nonce (h_epoch h) (h_sequence h)) (frame_aad h (of_nat (length pt + TAG_LEN))) pt out =
        (Inr (length pt + 16), ct @ drop (length pt + 16) out)"
proof -
  have "length pt \<le> 255" using assms(2) by (simp add: MAX_TEXT_LEN_def)
  from decrypt_encrypt [OF assms(1) this, of key "nonce (h_epoch h) (h_sequence h)"
      "frame_aad h (of_nat (length pt + TAG_LEN))"]
  obtain c where "length c = length pt + 16"
    and "\<And>out. length pt + 16 \<le> length out \<Longrightarrow>
      encrypt_data C key (nonce (h_epoch h) (h_sequence h)) (frame_aad h (of_nat (length pt + TAG_LEN))) pt out =
        (Inr (length pt + 16), c @ drop (length pt + 16) out)"
    and "\<And>out. length pt \<le> length out \<Longrightarrow>
      decrypt_data C key (nonce (h_epoch h) (h_sequence h)) (frame_aad h (of_nat (length pt + TAG_LEN))) c out =
        (Inr (length pt), pt @ drop (length pt) out)"
    by blast
  with assms(2) show thesis by (intro that [of c]) (simp_all add: opens_def TAG_LEN_def)
qed

text \<open>The frame on the wire is the encoding of a header and a sealed body.\<close>

definition carries :: "crypto \<Rightarrow> bytes \<Rightarrow> bytes \<Rightarrow> header \<Rightarrow> bytes \<Rightarrow> bool" where
  "carries C key frame h pt \<longleftrightarrow>
     (\<exists>ct. frame = frame_bytes h ct \<and> frame_ok (h, ct) \<and> opens C key h ct pt)"

definition pending_msg :: "engine \<Rightarrow> bytes" where
  "pending_msg e = take (unat (en_pending_text_len e)) (en_pending_text e)"

lemma encode_sealed:
  assumes "opens C key h ct pt"
  shows "encode_frame h ct (replicate MAX_FRAME_LEN 0) =
    (Inr (30 + length ct), frame_bytes h ct @ drop (30 + length ct) (replicate MAX_FRAME_LEN 0))"
  using assms by (intro encode_frame_ok) (auto simp: opens_def MAX_TEXT_LEN_def MAX_FRAME_LEN_def)

lemma secure_frame_ok:
  assumes "opens C key h ct pt" and "h_version h = VERSION_SECURE" and "h_hops h \<le> 1"
    and "h_flags h = FLAG_WANT_ACK \<or> h_flags h = 0"
  shows "frame_ok (h, ct)"
  using assms by (auto simp: frame_ok_def opens_def consts_defs)

lemma data_header_simps [simp]:
  "h_version (data_header C e slot ps) = VERSION_SECURE" "h_hops (data_header C e slot ps) = 1"
  "h_flags (data_header C e slot ps) = FLAG_WANT_ACK"
  "h_packet_id (data_header C e slot ps) = ps_packet_id ps"
  "h_version (ack_header C e slot ep sq pid) = VERSION_SECURE" "h_hops (ack_header C e slot ep sq pid) = 1"
  "h_flags (ack_header C e slot ep sq pid) = 0"
  by (simp_all add: data_header_def ack_header_def Let_def split: prod.split)

lemma data_plaintext:
  assumes "length (en_pending_text e) = MAX_TEXT_LEN" and "unat (en_pending_text_len e) \<le> MAX_TEXT_LEN"
  shows "take (1 + unat (en_pending_text_len e))
      (put_at 1 (take (unat (en_pending_text_len e)) (en_pending_text e))
        (put_at 0 [BODY_DATA] (replicate (1 + MAX_TEXT_LEN) 0))) = BODY_DATA # pending_msg e"
    and "length (pending_msg e) = unat (en_pending_text_len e)"
  using assms by (simp_all add: pending_msg_def put_at_def)

lemma data_frame_carries:
  assumes "aead_correct C" and "length (en_pending_text e) = MAX_TEXT_LEN"
    and "unat (en_pending_text_len e) \<le> MAX_TEXT_LEN"
  obtains len frm where "data_frame C e slot ps key = Inr (len, frm)"
    and "carries C key (bslice 0 len frm) (data_header C e slot ps) (BODY_DATA # pending_msg e)"
proof -
  let ?h = "data_header C e slot ps" and ?pt = "BODY_DATA # pending_msg e"
  note pt = data_plaintext [OF assms(2,3)]
  have "length ?pt \<le> 1 + MAX_TEXT_LEN" using pt(2) assms(3) by simp
  from seal_opens [OF assms(1) this, of key ?h] obtain ct where o: "opens C key ?h ct ?pt"
    and enc: "\<And>out. length ?pt + 16 \<le> length out \<Longrightarrow>
      encrypt_data C key (nonce (ps_epoch ps) (ps_sequence ps)) (frame_aad ?h (of_nat (length ?pt + TAG_LEN)))
        ?pt out = (Inr (length ?pt + 16), ct @ drop (length ?pt + 16) out)"
    by auto
  have ct: "length ct = length ?pt + 16" using o by (simp add: opens_def)
  have n: "1 + unat (en_pending_text_len e) = length ?pt" using pt(2) by simp
  let ?frm = "frame_bytes ?h ct @ drop (30 + length ct) (replicate MAX_FRAME_LEN 0)"
  have "encrypt_data C key (nonce (ps_epoch ps) (ps_sequence ps)) (frame_aad ?h (of_nat (length ?pt + TAG_LEN)))
        ?pt (replicate (1 + MAX_TEXT_LEN + TAG_LEN) 0) =
      (Inr (length ?pt + 16), ct @ drop (length ?pt + 16) (replicate (1 + MAX_TEXT_LEN + TAG_LEN) 0))"
    using assms(3) pt(2) by (intro enc) (simp add: TAG_LEN_def)
  then have "data_frame C e slot ps key = Inr (30 + length ct, ?frm)"
    unfolding data_frame_def Let_def pt(1) unfolding n
    using ct encode_sealed [OF o] by simp
  moreover have "carries C key (bslice 0 (30 + length ct) ?frm) ?h ?pt"
    using o secure_frame_ok [OF o] by (auto simp: carries_def bslice_def)
  ultimately show thesis by (rule that)
qed

lemma ack_frame_carries:
  assumes "aead_correct C" and "h_version h = VERSION_SECURE" and "h_hops h \<le> 1" and "h_flags h = 0"
  obtains len frm where "ack_frame C key h data_h = Some (len, frm)"
    and "carries C key (bslice 0 len frm) h (ack_body (h_epoch data_h) (h_sequence data_h) (h_packet_id data_h))"
proof -
  let ?pt = "ack_body (h_epoch data_h) (h_sequence data_h) (h_packet_id data_h)"
  have p: "ack_plaintext data_h = ?pt"
    using write_all_0 [of "[[BODY_ACK], be32 (h_epoch data_h), be64 (h_sequence data_h),
        be32 (h_packet_id data_h)]" 17 "replicate 17 0"]
    by (simp add: ack_plaintext_def ack_body_def)
  from seal_opens [OF assms(1), of ?pt key h] obtain ct where o: "opens C key h ct ?pt"
    and enc: "\<And>out. length ?pt + 16 \<le> length out \<Longrightarrow>
      encrypt_data C key (nonce (h_epoch h) (h_sequence h)) (frame_aad h (of_nat (length ?pt + TAG_LEN))) ?pt out =
        (Inr (length ?pt + 16), ct @ drop (length ?pt + 16) out)"
    by (auto simp: MAX_TEXT_LEN_def)
  have ct: "length ct = 33" using o by (simp add: opens_def)
  let ?frm = "frame_bytes h ct @ drop (30 + length ct) (replicate MAX_FRAME_LEN 0)"
  have "ack_frame C key h data_h = Some (30 + length ct, ?frm)"
    using enc [of "replicate (17 + TAG_LEN) 0"] ct encode_sealed [OF o]
    by (simp add: ack_frame_def Let_def p TAG_LEN_def)
  moreover have "carries C key (bslice 0 (30 + length ct) ?frm) h ?pt"
    using o secure_frame_ok [OF o] assms by (auto simp: carries_def bslice_def)
  ultimately show thesis by (rule that)
qed

text \<open>A relay that spends the hop leaves what the frame carries.\<close>

lemma carries_forwarded:
  assumes "carries C key frame h pt" and "h_hops h = 1"
    and "prepare_forward frame out = (Inr n, out')"
  shows "carries C key (take n out') (h\<lparr> h_hops := 0 \<rparr>) pt"
proof -
  from assms(1) obtain ct where f: "frame = frame_bytes h ct" "frame_ok (h, ct)" "opens C key h ct pt"
    by (auto simp: carries_def)
  have d: "decode_frame frame = Inr (h, ct)" using f by (simp add: decode_frame_bytes)
  have le: "length frame \<le> length out"
    using assms(3) d assms(2) by (auto simp: prepare_forward_def not_less split: if_splits)
  have "take n out' = frame_bytes (h\<lparr> h_hops := 0 \<rparr>) ct"
    using assms(3) prepare_forward_Inr [OF d assms(2) le] by (auto simp: f(1))
  with f show ?thesis by (auto simp: carries_def frame_ok_def)
qed

section \<open>Links between two engines\<close>

text \<open>The two contacts two engines hold of each other after pairing.\<close>

definition linked :: "engine \<Rightarrow> nat \<Rightarrow> engine \<Rightarrow> nat \<Rightarrow> bool" where
  "linked a i b j \<longleftrightarrow>
     (let c = en_contacts a ! i; d = en_contacts b ! j in
      i < MAX_CONTACTS \<and> j < MAX_CONTACTS \<and> c_present c \<and> c_present d \<and> c_root c = c_root d \<and>
      ((c_role c = ROLE_L) \<noteq> (c_role d = ROLE_L)) \<and>
      c_peer_identity c = en_uid b \<and> c_peer_identity d = en_uid a)"

lemma linked_sym: "linked a i b j \<Longrightarrow> linked b j a i"
  by (auto simp: linked_def Let_def)

text \<open>Contacts that agree on everything but the cached aliases.\<close>

definition same_link :: "contact \<Rightarrow> contact \<Rightarrow> bool" where
  "same_link c d \<longleftrightarrow> d = c\<lparr> c_aliases := c_aliases d, c_cached_epoch := c_cached_epoch d \<rparr>"

lemma same_linkD:
  assumes "same_link c d"
  shows "c_present d = c_present c" "c_blocked d = c_blocked c" "c_peer_identity d = c_peer_identity c"
    "c_root d = c_root c" "c_traffic_lr d = c_traffic_lr c" "c_traffic_rl d = c_traffic_rl c"
    "c_addr_secret d = c_addr_secret c" "c_role d = c_role c" "c_tx_next d = c_tx_next c"
    "c_tx_reserved d = c_tx_reserved c" "c_tx_epoch_max d = c_tx_epoch_max c" "c_anchor d = c_anchor c"
    "c_win_data d = c_win_data c" "c_win_ack d = c_win_ack c" "c_win_epochs d = c_win_epochs c"
  by (subst same_link_def [THEN iffD1, OF assms], simp)+

lemma same_link_refl [simp]: "same_link c c"
  by (cases c) (simp add: same_link_def)

lemma same_link_trans: "same_link a b \<Longrightarrow> same_link b c \<Longrightarrow> same_link a c"
  by (cases a; cases b; cases c) (auto simp: same_link_def)

lemma same_link_aliased [simp]: "same_link c (aliased C e c)"
  by (cases c) (simp add: same_link_def aliased_def)

text \<open>Engines that agree on everything but cached aliases.\<close>

definition quiet :: "engine \<Rightarrow> engine \<Rightarrow> bool" where
  "quiet e e' \<longleftrightarrow> e' = e\<lparr> en_contacts := en_contacts e' \<rparr> \<and>
     list_all2 same_link (en_contacts e) (en_contacts e')"

lemma quiet_refl [simp]: "quiet e e"
  by (cases e) (simp add: quiet_def list_all2_same)

lemma quiet_trans: "quiet a b \<Longrightarrow> quiet b c \<Longrightarrow> quiet a c"
  by (cases a; cases b; cases c)
    (auto simp: quiet_def elim: list_all2_trans [rotated] intro: same_link_trans)

lemma quiet_refresh: "quiet e (refresh_aliases C slot e)"
proof -
  have "quiet e (upd_contact slot (aliased C e) e)"
    unfolding quiet_def list_all2_conv_all_nth
    by (auto simp: nth_upd_contact) (simp add: upd_contact_def)
  then show ?thesis using refresh_aliases_cases [of C slot e] by auto
qed

lemma quietD:
  assumes "quiet e e'"
  shows "length (en_contacts e') = length (en_contacts e)" "en_uid e' = en_uid e"
    "en_provisioned e' = en_provisioned e" "en_fault e' = en_fault e" "en_time_valid e' = en_time_valid e"
    "Engine_epoch e' = Engine_epoch e" "en_staged e' = en_staged e" "en_persist_dirty e' = en_persist_dirty e"
    "en_pending_send e' = en_pending_send e" "en_pending_text e' = en_pending_text e"
    "en_pending_text_len e' = en_pending_text_len e"
proof -
  have eq: "e' = e\<lparr> en_contacts := en_contacts e' \<rparr>" and
    len: "length (en_contacts e') = length (en_contacts e)"
    using assms by (auto simp: quiet_def list_all2_lengthD)
  show "length (en_contacts e') = length (en_contacts e)" by (fact len)
  show "en_uid e' = en_uid e" "en_provisioned e' = en_provisioned e" "en_fault e' = en_fault e"
    "en_time_valid e' = en_time_valid e" "Engine_epoch e' = Engine_epoch e" "en_staged e' = en_staged e"
    "en_persist_dirty e' = en_persist_dirty e" "en_pending_send e' = en_pending_send e"
    "en_pending_text e' = en_pending_text e" "en_pending_text_len e' = en_pending_text_len e"
    by (subst eq, simp add: Engine_epoch_def)+
qed

lemma quiet_nth:
  "quiet e e' \<Longrightarrow> i < length (en_contacts e) \<Longrightarrow> same_link (en_contacts e ! i) (en_contacts e' ! i)"
  by (simp add: quiet_def list_all2_nthD)

section \<open>Keys\<close>

lemma outgoing_key_eq:
  assumes "slot < length (en_contacts e)" and "c_present (en_contacts e ! slot)"
  shows "outgoing_key C e slot ep = Inr (hourly_key C
    (if c_role (en_contacts e ! slot) = ROLE_L then c_traffic_lr (en_contacts e ! slot)
     else c_traffic_rl (en_contacts e ! slot)) ep)"
  using assms by (simp add: outgoing_key_def dir_roots_def Let_def)

lemma incoming_key_eq:
  assumes "slot < length (en_contacts e)" and "c_present (en_contacts e ! slot)"
  shows "incoming_key C e slot ep = Inr (hourly_key C
    (if c_role (en_contacts e ! slot) = ROLE_L then c_traffic_rl (en_contacts e ! slot)
     else c_traffic_lr (en_contacts e ! slot)) ep)"
  using assms by (simp add: incoming_key_def dir_roots_def Let_def)

lemma keys_quiet:
  assumes "quiet e e'" and "slot < length (en_contacts e)"
  shows "incoming_key C e' slot ep = incoming_key C e slot ep"
    and "outgoing_key C e' slot ep = outgoing_key C e slot ep"
  using same_linkD [OF quiet_nth [OF assms]] quietD(1) [OF assms(1)]
  by (simp_all add: incoming_key_def outgoing_key_def dir_roots_def Let_def)

lemma linked_secrets:
  assumes "core_inv C a" and "core_inv C b" and "linked a i b j"
  shows "c_traffic_lr (en_contacts a ! i) = c_traffic_lr (en_contacts b ! j)"
    "c_traffic_rl (en_contacts a ! i) = c_traffic_rl (en_contacts b ! j)"
    "c_addr_secret (en_contacts a ! i) = c_addr_secret (en_contacts b ! j)"
  using assms contact_inv_nth [of C a i] contact_inv_nth [of C b j]
  by (auto simp: linked_def Let_def contact_inv_def)

lemma linked_key:
  assumes "core_inv C a" and "core_inv C b" and l: "linked a i b j"
  shows "outgoing_key C a i ep = incoming_key C b j ep"
proof -
  have "length (en_contacts a) = MAX_CONTACTS" "length (en_contacts b) = MAX_CONTACTS"
    using assms by (auto simp: core_inv_def contacts_ok_def)
  with l show ?thesis
    using linked_secrets [OF assms]
    by (auto simp: linked_def Let_def outgoing_key_eq incoming_key_eq)
qed

section \<open>Which contact a frame is for\<close>

definition addressed :: "crypto \<Rightarrow> engine \<Rightarrow> nat \<Rightarrow> header \<Rightarrow> bool" where
  "addressed C e slot h \<longleftrightarrow>
     (let c = en_contacts e ! slot in
      c_present c \<and> h_epoch h \<in> set (c_win_epochs c) \<and>
      be32 (h_dst h) = derive_address C (c_addr_secret c) (en_uid e) (h_epoch h) \<and>
      be32 (h_src h) = derive_address C (c_addr_secret c) (c_peer_identity c) (h_epoch h))"

text \<open>A frame is heard by a contact: the engine is up, the epoch is in its window, and the
  contact is the first one whose addresses the frame bears.\<close>

definition hears :: "crypto \<Rightarrow> engine \<Rightarrow> nat \<Rightarrow> header \<Rightarrow> bool" where
  "hears C e slot h \<longleftrightarrow> slot < MAX_CONTACTS \<and> en_provisioned e \<and> \<not> en_fault e \<and> en_time_valid e \<and>
     in_accept_window (h_epoch h) (Engine_epoch e) \<and> addressed C e slot h \<and>
     (\<forall>k < slot. \<not> addressed C e k h)"

lemma addressed_quiet:
  assumes "quiet e e'" and "slot < length (en_contacts e)"
  shows "addressed C e' slot h = addressed C e slot h"
  using same_linkD [OF quiet_nth [OF assms]] quietD(2) [OF assms(1)] by (simp add: addressed_def Let_def)

lemma addressed_hops [simp]: "addressed C e slot (h\<lparr> h_hops := x \<rparr>) = addressed C e slot h"
  by (simp add: addressed_def)

lemma hears_hops [simp]: "hears C e slot (h\<lparr> h_hops := x \<rparr>) = hears C e slot h"
  by (simp add: hears_def)

lemma skip_slot:
  assumes "\<not> addressed C e slot h" and "slot < length (en_contacts e)"
  shows "\<exists>e'. on_frame_slot C e h body pid slot = (SkipSlot, e') \<and> quiet e e'"
proof (cases "c_present (en_contacts e ! slot) \<and> h_epoch h \<in> set (c_win_epochs (en_contacts e ! slot))")
  case False
  then have "\<not> c_present (en_contacts e ! slot) \<or>
      position (\<lambda>x. x = h_epoch h) (c_win_epochs (en_contacts e ! slot)) = None"
    by (auto simp: position_None)
  then have "on_frame_slot C e h body pid slot = (SkipSlot, e)"
    by (auto simp: on_frame_slot_def)
  then show ?thesis by auto
next
  case True
  then obtain k where k: "position (\<lambda>x. x = h_epoch h) (c_win_epochs (en_contacts e ! slot)) = Some k"
    using position_None [of "\<lambda>x. x = h_epoch h" "c_win_epochs (en_contacts e ! slot)"] by auto
  note q = quiet_refresh [of e C slot]
  note same = same_linkD [OF quiet_nth [OF q assms(2)]]
  have "on_frame_slot C e h body pid slot = (SkipSlot, refresh_aliases C slot e)"
    using assms(1) True by (auto simp: on_frame_slot_def k Let_def addressed_def same)
  with q show ?thesis by auto
qed

lemma skip_slots:
  assumes "\<And>k. k \<in> set ks \<Longrightarrow> \<not> addressed C e k h \<and> k < length (en_contacts e)"
  shows "\<exists>e'. quiet e e' \<and>
    on_frame_slots C h body pid (ks @ rest) failed e = on_frame_slots C h body pid rest failed e'"
  using assms
proof (induction ks arbitrary: e)
  case (Cons k ks)
  then obtain e1 where e1: "on_frame_slot C e h body pid k = (SkipSlot, e1)" "quiet e e1"
    using skip_slot [of C e k h body pid] by auto
  have "\<exists>e'. quiet e1 e' \<and>
      on_frame_slots C h body pid (ks @ rest) failed e1 = on_frame_slots C h body pid rest failed e'"
    using Cons.prems addressed_quiet [OF e1(2)] quietD(1) [OF e1(2)] by (intro Cons.IH) auto
  with e1 show ?case using quiet_trans by auto
next
  case Nil
  show ?case by (intro exI [of _ e]) simp
qed

text \<open>The frame reaches its contact, in a state that differs from the old one in cached aliases.\<close>

lemma on_frame_hit:
  assumes len: "length (en_contacts b) = MAX_CONTACTS" and hr: "hears C b j h"
    and car: "carries C key frame h pt" and key: "incoming_key C b j (h_epoch h) = Inr key"
    and h: "h_version h = VERSION_SECURE" "validate_body (h_flags h) pt = Inr ()"
  obtains b' k where "quiet b b'" and "position (\<lambda>x. x = h_epoch h) (c_win_epochs (en_contacts b ! j)) = Some k"
    and "on_frame C b frame now pid =
      (if c_blocked (en_contacts b ! j) then ((Ignore, None, None), b')
       else if pt ! 0 = BODY_DATA then rx_data C b' j k h (tl pt) pid
       else rx_ack b' j h (pt @ drop (length pt) (replicate (1 + MAX_TEXT_LEN) 0)))"
proof -
  from car obtain ct where f: "frame = frame_bytes h ct" "frame_ok (h, ct)" "opens C key h ct pt"
    by (auto simp: carries_def)
  have dec: "decode_frame frame = Inr (h, ct)" using f by (simp add: decode_frame_bytes)
  have j: "j < MAX_CONTACTS" and ad: "addressed C b j h" and skip: "\<And>k. k < j \<Longrightarrow> \<not> addressed C b k h"
    using hr by (auto simp: hears_def)
  have upt: "[0..<MAX_CONTACTS] = [0..<j] @ j # [Suc j..<MAX_CONTACTS]"
    using j upt_add_eq_append [of 0 j "MAX_CONTACTS - j"] by (simp add: upt_conv_Cons)
  obtain b1 where b1: "quiet b b1"
    "on_frame_slots C h ct pid [0..<MAX_CONTACTS] False b =
      on_frame_slots C h ct pid (j # [Suc j..<MAX_CONTACTS]) False b1"
    unfolding upt using skip_slots [of "[0..<j]" C b h ct pid "j # [Suc j..<MAX_CONTACTS]" False] skip j len
    by auto
  have len1: "j < length (en_contacts b1)" using quietD(1) [OF b1(1)] len j by simp
  let ?r = "refresh_aliases C j b1"
  have q: "quiet b ?r" using b1(1) quiet_refresh quiet_trans by blast
  note s1 = same_linkD [OF quiet_nth [OF b1(1)], of j]
  note s2 = same_linkD [OF quiet_nth [OF q], of j]
  have ad': "c_present (en_contacts b ! j)" "h_epoch h \<in> set (c_win_epochs (en_contacts b ! j))"
    using ad by (auto simp: addressed_def Let_def)
  then obtain k where k: "position (\<lambda>x. x = h_epoch h) (c_win_epochs (en_contacts b ! j)) = Some k"
    using position_None [of "\<lambda>x. x = h_epoch h" "c_win_epochs (en_contacts b ! j)"] by auto
  have key': "incoming_key C ?r j (h_epoch h) = Inr key"
    using key keys_quiet(1) [OF q] j len by simp
  have ne: "pt \<noteq> []" using h(2) by (auto simp: validate_body_def)
  have dd: "decrypt_data C key (nonce (h_epoch h) (h_sequence h)) (frame_aad h (of_nat (length ct))) ct
      (replicate (1 + MAX_TEXT_LEN) 0) = (Inr (length pt), pt @ drop (length pt) (replicate (1 + MAX_TEXT_LEN) 0))"
  proof -
    have "length pt \<le> length (replicate (1 + MAX_TEXT_LEN) (0 :: u8))" using f(3) by (simp add: opens_def)
    then show ?thesis using f(3) unfolding opens_def by blast
  qed
  let ?pb = "pt @ drop (length pt) (replicate (1 + MAX_TEXT_LEN) 0)"
  have pb: "?pb ! 0 = pt ! 0" "bslice 1 (length pt) ?pb = tl pt" "take (length pt) ?pb = pt"
    using ne by (simp_all add: nth_append bslice_def drop_Suc)
  have slot: "on_frame_slot C b1 h ct pid j =
      (if c_blocked (en_contacts b ! j) then (Return (Ignore, None, None), ?r)
       else if pt ! 0 = BODY_DATA then (let (r, e) = rx_data C ?r j k h (tl pt) pid in (Return r, e))
       else (let (r, e) = rx_ack ?r j h ?pb in (Return r, e)))"
    unfolding on_frame_slot_def Let_def
    using ad k j len s1 s2 key' dd h(2) pb quietD(2) [OF q]
    by (simp add: addressed_def Let_def)
  define res where "res = (if c_blocked (en_contacts b ! j) then ((Ignore, None, None), ?r)
       else if pt ! 0 = BODY_DATA then rx_data C ?r j k h (tl pt) pid else rx_ack ?r j h ?pb)"
  have "on_frame_slot C b1 h ct pid j = (Return (fst res), snd res)"
    unfolding slot res_def by (simp add: Let_def split_def)
  then have slots: "on_frame_slots C h ct pid [0..<MAX_CONTACTS] False b = ((Some (fst res), False), snd res)"
    unfolding b1(2) by simp
  have "\<not> h_hops h > 1" using f(2) by (simp add: frame_ok_def not_less)
  then have "on_frame C b frame now pid = (fst res, snd res)"
    using hr h(1) unfolding on_frame_def dec hears_def by (simp add: Let_def slots)
  then have "on_frame C b frame now pid = res" by simp
  with q k show thesis unfolding res_def by (rule that)
qed

section \<open>From \<open>send_begin\<close> to a frame\<close>

lemma send_begin_check_Inr:
  "send_begin_check e cid text = Inr (slot, op) \<longleftrightarrow>
     check_usable e = Inr () \<and> en_time_valid e \<and> slot_of e cid = Inr slot \<and>
     \<not> c_blocked (en_contacts e ! slot) \<and> en_pending_send e = None \<and> data_body_ok text \<and>
     c_tx_epoch_max (en_contacts e ! slot) \<le> Engine_epoch e \<and>
     (if c_tx_reserved (en_contacts e ! slot) \<le> c_tx_next (en_contacts e ! slot)
      then \<exists>r. checked_add (c_tx_next (en_contacts e ! slot)) SEQ_RESERVE_BLOCK = Some r \<and>
        op = StTxReserve slot r
      else op = StNone)"
  by (auto simp: send_begin_check_def Let_def if_Inl_Inr data_body_ok_def not_less)

lemma ok_or_Inl: "ok_or x r = Inl y \<longleftrightarrow> r = None \<and> y = x"
  by (cases r) auto

lemma send_begin_Inr:
  assumes "send_begin e cid text pid = (Inr ps, e')"
  obtains slot op where "send_begin_check e cid text = Inr (slot, op)"
    and "ps = \<lparr> ps_contact_id = cid, ps_epoch = Engine_epoch e,
      ps_sequence = c_tx_next (en_contacts e ! slot), ps_packet_id = pid \<rparr>"
    and "e' = (stage_persist op e)\<lparr> en_pending_text := put_at 0 text (en_pending_text e),
      en_pending_text_len := of_nat (length text), en_pending_send := Some ps \<rparr>"
  using assms by (auto simp: send_begin_def Let_def split: sum.splits)

text \<open>The fields a frame is made of.\<close>

definition frame_view :: "engine \<Rightarrow> nat \<Rightarrow> bytes \<times> bytes \<times> bytes \<times> bytes \<times> bytes \<times> u8 \<times> bool" where
  "frame_view e slot = (let c = en_contacts e ! slot in
     (en_uid e, c_peer_identity c, c_addr_secret c, c_traffic_lr c, c_traffic_rl c, c_role c, c_present c))"

lemma frame_view_cong:
  assumes "frame_view e' slot = frame_view e slot" and "length (en_contacts e') = length (en_contacts e)"
  shows "data_header C e' slot ps = data_header C e slot ps"
    and "ack_header C e' slot ep sq pid = ack_header C e slot ep sq pid"
    and "outgoing_key C e' slot ep = outgoing_key C e slot ep"
    and "incoming_key C e' slot ep = incoming_key C e slot ep"
  using assms
  by (simp_all add: frame_view_def data_header_def ack_header_def frame_addresses_def outgoing_key_def
      incoming_key_def dir_roots_def Let_def)

lemma frame_view_quiet:
  "quiet e e' \<Longrightarrow> slot < length (en_contacts e) \<Longrightarrow> frame_view e' slot = frame_view e slot"
  using same_linkD [OF quiet_nth] quietD(2) by (simp add: frame_view_def Let_def)

lemma commit_fields [simp]:
  "en_pending_send (commit_ok e) = en_pending_send e" "en_pending_text (commit_ok e) = en_pending_text e"
  "en_pending_text_len (commit_ok e) = en_pending_text_len e" "\<not> en_persist_dirty (commit_ok e)"
  "length (en_contacts (commit_ok e)) = length (en_contacts e)" "frame_view (commit_ok e) slot = frame_view e slot"
  "en_uid (commit_ok e) = en_uid e" "en_provisioned (commit_ok e) = en_provisioned e"
  "en_fault (commit_ok e) = en_fault e" "en_time_valid (commit_ok e) = en_time_valid e"
  "Engine_epoch (commit_ok e) = Engine_epoch e"
  by (auto simp: commit_ok_def Let_def upd_contact_def frame_view_def nth_list_update Engine_epoch_def
      split: option.split staged_commit.split)

lemma nth_commit:
  assumes "slot < length (en_contacts e)"
  shows "en_contacts (commit_ok e) ! slot = (en_contacts e ! slot)\<lparr> c_tx_reserved := eff_reserved e slot \<rparr>"
  using assms
  by (auto simp: commit_ok_def Let_def upd_contact_def nth_list_update eff_reserved_def staged_reserve_def
      split: option.split staged_commit.split)

lemma begin_emit:
  assumes s: "settled C a" and C: "aead_correct C" and b: "send_begin a cid text pid = (Inr ps, a1)"
  obtains f a2 slot key where "slot_of a cid = Inr slot"
    and "ps = \<lparr> ps_contact_id = cid, ps_epoch = Engine_epoch a,
      ps_sequence = c_tx_next (en_contacts a ! slot), ps_packet_id = pid \<rparr>"
    and "send_emit C (commit_ok a1) = (Inr f, a2)" and "of_contact_id f = Some cid"
    and "outgoing_key C a slot (Engine_epoch a) = Inr key"
    and "carries C key (OutgoingFrame_as_slice f) (data_header C a slot ps) (BODY_DATA # text)"
    and "data_body_ok text" and "en_time_valid a" and "\<not> c_blocked (en_contacts a ! slot)"
    and "quiet (commit_ok a1) (refresh_aliases C slot (commit_ok a1))"
    and "a2 = stage_persist StNone (used_one slot (Engine_epoch a) (refresh_aliases C slot (commit_ok a1)))"
proof -
  from b obtain slot op where chk: "send_begin_check a cid text = Inr (slot, op)"
    and ps: "ps = \<lparr> ps_contact_id = cid, ps_epoch = Engine_epoch a,
      ps_sequence = c_tx_next (en_contacts a ! slot), ps_packet_id = pid \<rparr>"
    and a1: "a1 = (stage_persist op a)\<lparr> en_pending_text := put_at 0 text (en_pending_text a),
      en_pending_text_len := of_nat (length text), en_pending_send := Some ps \<rparr>"
    by (rule send_begin_Inr)
  note k = chk [unfolded send_begin_check_Inr]
  have slot: "slot < MAX_CONTACTS" "slot_of a cid = Inr slot" "c_present (en_contacts a ! slot)"
    using k slot_of_less by (auto simp: slot_of_Inr)
  have len: "length (en_contacts a) = MAX_CONTACTS" "length (en_pending_text a) = MAX_TEXT_LEN"
    using s by (auto simp: settled_def core_inv_def contacts_ok_def sizes_ok_def)
  have msgok: "data_body_ok text" "length text \<le> MAX_TEXT_LEN" using k by (auto simp: data_body_ok_def)
  have u: "unat (of_nat (length text) :: u8) = length text"
    using msgok(2) by (simp add: MAX_TEXT_LEN_def)
  let ?e = "commit_ok a1" and ?c = "en_contacts a ! slot"
  have "frame_view a1 slot = frame_view a slot" by (simp add: a1 frame_view_def)
  then have fv: "frame_view ?e slot = frame_view a slot" "length (en_contacts ?e) = length (en_contacts a)"
    by (simp, simp add: a1)
  have msg: "pending_msg ?e = text" "length (en_pending_text ?e) = MAX_TEXT_LEN"
    "unat (en_pending_text_len ?e) \<le> MAX_TEXT_LEN"
    using len msgok u by (simp_all add: a1 pending_msg_def put_at_0)
  have un: "en_staged a = None" using s by (simp add: settled_def)
  have "c_tx_next ?c < eff_reserved a1 slot"
  proof (cases "c_tx_reserved ?c \<le> c_tx_next ?c")
    case True
    with k obtain r where r: "checked_add (c_tx_next ?c) SEQ_RESERVE_BLOCK = Some r" "op = StTxReserve slot r"
      by auto
    then have "c_tx_next ?c < r"
      by (auto dest!: unat_checked_add simp: word_less_nat_alt SEQ_RESERVE_BLOCK_def)
    with r show ?thesis by (simp add: a1 eff_reserved_def)
  next
    case False
    with k show ?thesis by (simp add: a1 eff_reserved_def not_le)
  qed
  moreover have ce: "en_contacts ?e ! slot = ?c\<lparr> c_tx_reserved := eff_reserved a1 slot \<rparr>"
    using nth_commit [of slot a1] len slot by (simp add: a1)
  moreover obtain key where key: "outgoing_key C a slot (Engine_epoch a) = Inr key"
    using len slot by (simp add: outgoing_key_eq)
  ultimately have ec: "send_emit_check C ?e = Inr (ps, slot, key)"
    using k slot frame_view_cong(3) [OF fv, of C "Engine_epoch a"]
    by (simp add: send_emit_check_Inr ps) (simp add: a1 ps slot_of_Inr)
  let ?r = "refresh_aliases C slot ?e"
  have q: "quiet ?e ?r" by (rule quiet_refresh)
  have fr: "frame_view ?r slot = frame_view a slot" "length (en_contacts ?r) = length (en_contacts a)"
    using frame_view_quiet [OF q] quietD(1) [OF q] fv slot len by simp_all
  have "pending_msg ?r = text" "length (en_pending_text ?r) = MAX_TEXT_LEN"
    "unat (en_pending_text_len ?r) \<le> MAX_TEXT_LEN"
    using msg by (simp_all add: pending_msg_def)
  with C data_frame_carries obtain n frm where df: "data_frame C ?r slot ps key = Inr (n, frm)"
    and car: "carries C key (bslice 0 n frm) (data_header C ?r slot ps) (BODY_DATA # text)"
    by metis
  let ?f = "\<lparr> of_len = n, of_frame = frm, of_contact_id = Some (ps_contact_id ps),
    of_is_ack = False, of_is_retry_echo = False \<rparr>"
  have "send_emit C ?e = (Inr ?f, stage_persist StNone (used_one slot (ps_epoch ps) ?r))"
    using ec df fv(2) slot len by (intro send_emit_eq) simp_all
  then show thesis
    using that [of slot ?f _ key] slot ps key car q k frame_view_cong(1) [OF fr]
    by (simp add: OutgoingFrame_as_slice_def)
qed

section \<open>The peer hears the frame\<close>

definition awake :: "engine \<Rightarrow> u32 \<Rightarrow> bool" where
  "awake e ep \<longleftrightarrow> en_provisioned e \<and> \<not> en_fault e \<and> en_time_valid e \<and> in_accept_window ep (Engine_epoch e)"

definition sent_to :: "crypto \<Rightarrow> engine \<Rightarrow> nat \<Rightarrow> header \<Rightarrow> bool" where
  "sent_to C e slot h \<longleftrightarrow>
     (h_dst h, h_src h) = map_prod of_be of_be (frame_addresses C e slot (h_epoch h))"

lemma sent_to_headers [simp]:
  "sent_to C e slot (data_header C e slot ps)" "sent_to C e slot (ack_header C e slot ep sq pid)"
  by (simp_all add: sent_to_def data_header_def ack_header_def frame_addresses_def Let_def)

lemma window_slot:
  assumes "core_inv C e" and "en_time_valid e" and "slot < MAX_CONTACTS" and "c_present (en_contacts e ! slot)"
  shows "ep \<in> set (c_win_epochs (en_contacts e ! slot)) \<longleftrightarrow> in_accept_window ep (Engine_epoch e)"
proof -
  have "c_win_epochs (en_contacts e ! slot) = AnchorHours_slots (Engine_epoch e)"
    using assms contact_inv_nth [of C e slot] anchored [of C e slot] by (simp add: contact_inv_def)
  then show ?thesis by (auto simp: slots_window in_accept_window_unat)
qed

lemma linked_hears:
  assumes "core_inv C a" and "core_inv C b" and l: "linked a i b j"
    and "sent_to C a i h" and "awake b (h_epoch h)" and "\<And>k. k < j \<Longrightarrow> \<not> addressed C b k h"
  shows "hears C b j h"
proof -
  have j: "j < MAX_CONTACTS" "c_present (en_contacts b ! j)"
    "c_peer_identity (en_contacts a ! i) = en_uid b" "c_peer_identity (en_contacts b ! j) = en_uid a"
    using l by (auto simp: linked_def Let_def)
  have "h_epoch h \<in> set (c_win_epochs (en_contacts b ! j))"
    using assms(2,5) j window_slot by (auto simp: awake_def)
  then have "addressed C b j h"
    using assms(4) j linked_secrets(3) [OF assms(1-3)]
    by (simp add: addressed_def sent_to_def frame_addresses_def Let_def)
  then show ?thesis using assms(5,6) j by (simp add: hears_def awake_def)
qed

lemma linked_commit: "linked (commit_ok a) i b j = linked a i b j"
proof (cases "i < length (en_contacts a)")
  case True
  then show ?thesis by (simp add: linked_def nth_commit Let_def)
next
  case False
  have "en_contacts (commit_ok a) ! i = en_contacts a ! i"
    using False by (auto simp: commit_ok_def Let_def upd_contact_def split: option.split staged_commit.split)
  then show ?thesis by (simp add: linked_def)
qed

section \<open>Delivery\<close>

text \<open>An acknowledgement is always built, short of the end of the sequence numbers.\<close>

lemma build_ack_Some:
  assumes C: "aead_correct C" and tv: "en_time_valid e"
    and pr: "c_present (en_contacts e ! slot)" "slot < length (en_contacts e)"
    and room: "unat (c_tx_next (en_contacts e ! slot)) + 32 < 2 ^ 64"
  shows "fst (build_ack C e slot h pid) \<noteq> None"
proof -
  have "\<exists>op. ack_stage e slot = Some (stage_persist op e)"
    using room by (auto simp: ack_stage_def Let_def checked_add_def SEQ_RESERVE_BLOCK_def)
  then obtain e1 op where e1: "ack_stage e slot = Some e1" "e1 = stage_persist op e" by blast
  obtain key where key: "outgoing_key C e1 slot (Engine_epoch e) = Inr key"
    using pr by (simp add: e1(2) outgoing_key_eq)
  obtain len frm where "ack_frame C key (ack_header C e1 slot (Engine_epoch e)
      (c_tx_next (en_contacts e1 ! slot)) pid) h = Some (len, frm)"
    by (rule ack_frame_carries [OF C, of "ack_header C e1 slot (Engine_epoch e)
      (c_tx_next (en_contacts e1 ! slot)) pid" key h]) simp_all
  then show ?thesis using tv e1(1) key by (simp add: build_ack_def Let_def)
qed

lemma rx_data_accepted:
  assumes "position (\<lambda>x. x = h_epoch h) (c_win_epochs (en_contacts e ! slot)) = Some k"
    and "\<not> rx_seen (en_contacts e ! slot) (h_epoch h) (h_sequence h)"
    and "length text \<le> MAX_TEXT_LEN"
    and "rx_data C e slot k h text pid = ((kind, ack, ev), e')"
  shows "kind = Deliver (of_nat (slot + 1)) (of_nat (length text)) \<and>
    ev = Some (Received (of_nat (slot + 1)) (h_epoch h) (h_sequence h)
      (put_at 0 text (replicate MAX_TEXT_LEN 0)) (of_nat (length text)))"
    and "aead_correct C \<Longrightarrow> en_time_valid e \<Longrightarrow> c_present (en_contacts e ! slot) \<Longrightarrow>
      slot < length (en_contacts e) \<Longrightarrow> unat (c_tx_next (en_contacts e ! slot)) + 32 < 2 ^ 64 \<Longrightarrow> ack \<noteq> None"
proof -
  have "fst (ReplayWindow_accept (c_win_data (en_contacts e ! slot) ! k) (h_sequence h)) = Accepted"
    using assms(1,2) by (simp add: accept_Accepted rx_seen_def)
  moreover obtain v w where a: "ReplayWindow_accept (c_win_data (en_contacts e ! slot) ! k) (h_sequence h) = (v, w)"
    by fastforce
  ultimately have v: "v = Accepted" by simp
  show "kind = Deliver (of_nat (slot + 1)) (of_nat (length text)) \<and>
    ev = Some (Received (of_nat (slot + 1)) (h_epoch h) (h_sequence h)
      (put_at 0 text (replicate MAX_TEXT_LEN 0)) (of_nat (length text)))"
    using assms(4) by (auto simp: rx_data_def Let_def split_def a v)
  let ?e = "stage_persist StRxAccept (upd_contact slot (\<lambda>c. c\<lparr> c_win_data := (c_win_data c)[k := w] \<rparr>) e)"
  have "ack = fst (build_ack C ?e slot h pid)"
    using assms(4) by (auto simp: rx_data_def Let_def split_def a v)
  then show "ack \<noteq> None" if "aead_correct C" "en_time_valid e" "c_present (en_contacts e ! slot)"
      "slot < length (en_contacts e)" "unat (c_tx_next (en_contacts e ! slot)) + 32 < 2 ^ 64"
    using build_ack_Some [of C ?e slot h pid] that by (simp add: nth_upd_contact)
qed

lemma rx_seen_same: "same_link c d \<Longrightarrow> rx_seen d = rx_seen c"
  by (intro ext) (simp add: rx_seen_def same_linkD [of c d] split: option.split)

lemma data_reaches:
  assumes s: "settled C b" and hr: "hears C b j h" and car: "carries C key frame h (BODY_DATA # text)"
    and key: "incoming_key C b j (h_epoch h) = Inr key" and "data_body_ok text"
    and h: "h_version h = VERSION_SECURE" "h_flags h = FLAG_WANT_ACK"
    and nb: "\<not> c_blocked (en_contacts b ! j)" and new: "\<not> rx_seen (en_contacts b ! j) (h_epoch h) (h_sequence h)"
  obtains ack b' where "on_frame C b frame now pid =
    ((Deliver (of_nat (j + 1)) (of_nat (length text)), ack,
      Some (Received (of_nat (j + 1)) (h_epoch h) (h_sequence h)
        (put_at 0 text (replicate MAX_TEXT_LEN 0)) (of_nat (length text)))), b')"
    and "aead_correct C \<Longrightarrow> unat (c_tx_next (en_contacts b ! j)) + 32 < 2 ^ 64 \<Longrightarrow> ack \<noteq> None"
proof -
  have len: "length (en_contacts b) = MAX_CONTACTS" using s by (rule settled_length)
  have "validate_body (h_flags h) (BODY_DATA # text) = Inr ()"
    using assms by (simp add: validate_body_Inr)
  from on_frame_hit [OF len hr car key h(1) this, of now pid] obtain b' k where q: "quiet b b'"
    and k: "position (\<lambda>x. x = h_epoch h) (c_win_epochs (en_contacts b ! j)) = Some k"
    and o: "on_frame C b frame now pid = rx_data C b' j k h text pid"
    using nb by (auto simp: BODY_DATA_def)
  have j: "j < length (en_contacts b)" using hr len by (simp add: hears_def)
  note sl = quiet_nth [OF q j]
  obtain kind ack ev b2 where r: "rx_data C b' j k h text pid = ((kind, ack, ev), b2)"
    by (metis prod.exhaust)
  have "length text \<le> MAX_TEXT_LEN" using assms by (simp add: data_body_ok_def)
  then have "length text \<le> MAX_TEXT_LEN" .
  note acc = rx_data_accepted [OF _ _ this r]
  have pr: "c_present (en_contacts b ! j)" using hr by (simp add: hears_def addressed_def Let_def)
  show thesis
  proof (rule that [of ack b2])
    show "on_frame C b frame now pid = ((Deliver (of_nat (j + 1)) (of_nat (length text)), ack,
      Some (Received (of_nat (j + 1)) (h_epoch h) (h_sequence h)
        (put_at 0 text (replicate MAX_TEXT_LEN 0)) (of_nat (length text)))), b2)"
      using acc(1) k new same_linkD(15) [OF sl] rx_seen_same [OF sl] o r by simp
    show "ack \<noteq> None" if "aead_correct C" "unat (c_tx_next (en_contacts b ! j)) + 32 < 2 ^ 64"
      using acc(2) that k new same_linkD [OF sl] rx_seen_same [OF sl] quietD(1,5) [OF q] hr pr j
      by (simp add: hears_def)
  qed
qed

section \<open>The acknowledgement comes back\<close>

lemma build_ack_carries:
  assumes C: "aead_correct C" and pr: "c_present (en_contacts e ! slot)" "slot < length (en_contacts e)"
    and a: "build_ack C e slot data_h pid = (Some g, e')"
  obtains key where "of_contact_id g = Some (of_nat (slot + 1))"
    and "outgoing_key C e slot (Engine_epoch e) = Inr key"
    and "carries C key (OutgoingFrame_as_slice g)
      (ack_header C e slot (Engine_epoch e) (c_tx_next (en_contacts e ! slot)) pid)
      (ack_body (h_epoch data_h) (h_sequence data_h) (h_packet_id data_h))"
proof (cases rule: build_ack_cases [of C e slot data_h pid])
  case none
  with a show ?thesis by simp
next
  case (stuck e1)
  with a show ?thesis by simp
next
  case (sent e1 key len frm)
  have e1: "\<exists>op. e1 = stage_persist op e"
    using sent(2) by (auto simp: ack_stage_def Let_def split: if_splits option.splits)
  then have fv: "frame_view e1 slot = frame_view e slot" "length (en_contacts e1) = length (en_contacts e)"
    and tx: "c_tx_next (en_contacts e1 ! slot) = c_tx_next (en_contacts e ! slot)"
    by (auto simp: frame_view_def)
  let ?h = "ack_header C e slot (Engine_epoch e) (c_tx_next (en_contacts e ! slot)) pid"
  have "ack_frame C key ?h data_h = Some (len, frm)"
    using sent(4) frame_view_cong(2) [OF fv] tx by simp
  moreover obtain len' frm' where "ack_frame C key ?h data_h = Some (len', frm')"
    "carries C key (bslice 0 len' frm') ?h (ack_body (h_epoch data_h) (h_sequence data_h) (h_packet_id data_h))"
    using ack_frame_carries [OF C, of ?h key data_h] by auto
  moreover have "g = \<lparr> of_len = len, of_frame = frm, of_contact_id = Some (of_nat (slot + 1)),
      of_is_ack = True, of_is_retry_echo = False \<rparr>"
    using a sent(5) by simp
  ultimately show ?thesis
    using sent(3) frame_view_cong(3) [OF fv] by (intro that [of key]) (auto simp: OutgoingFrame_as_slice_def)
qed

lemma rx_data_ack:
  assumes "slot < length (en_contacts e)" and "rx_data C e slot k h text pid = ((kind, ack, ev), e')" and "ack \<noteq> None"
  obtains e1 e2 where "build_ack C e1 slot h pid = (ack, e2)" and "frame_view e1 slot = frame_view e slot"
    and "length (en_contacts e1) = length (en_contacts e)" and "Engine_epoch e1 = Engine_epoch e"
    and "c_tx_next (en_contacts e1 ! slot) = c_tx_next (en_contacts e ! slot)"
proof -
  obtain v w where a: "ReplayWindow_accept (c_win_data (en_contacts e ! slot) ! k) (h_sequence h) = (v, w)" by fastforce
  let ?u = "upd_contact slot (\<lambda>c. c\<lparr> c_win_data := (c_win_data c)[k := w] \<rparr>) e"
  have u: "frame_view ?u slot = frame_view e slot" "c_tx_next (en_contacts ?u ! slot) = c_tx_next (en_contacts e ! slot)"
    using assms(1) by (simp_all add: frame_view_def nth_upd_contact Let_def)
  have b: "frame_view (bump_replay_drops ?u) slot = frame_view ?u slot"
    "Engine_epoch (bump_replay_drops ?u) = Engine_epoch ?u"
    by (simp_all add: bump_replay_drops_def frame_view_def Engine_epoch_def)
  have st: "frame_view (stage_persist op x) slot = frame_view x slot" for op x by (simp add: frame_view_def)
  show thesis
  proof (cases v)
    case Accepted
    with assms(2) a u st show thesis
      by (intro that [of "stage_persist StRxAccept ?u" "snd (build_ack C (stage_persist StRxAccept ?u) slot h pid)"])
        (auto simp: rx_data_def Let_def split_def)
  next
    case Duplicate
    with assms(2) a u st b show thesis
      by (intro that [of "stage_persist StNone (bump_replay_drops ?u)"
            "snd (build_ack C (stage_persist StNone (bump_replay_drops ?u)) slot h pid)"])
        (auto simp: rx_data_def Let_def split_def bump_replay_drops_def)
  next
    case Stale
    with assms(2,3) a show thesis by (simp add: rx_data_def Let_def)
  qed
qed

lemma data_reaches_ack:
  assumes C: "aead_correct C" and s: "settled C b" and hr: "hears C b j h"
    and car: "carries C key frame h (BODY_DATA # text)"
    and key: "incoming_key C b j (h_epoch h) = Inr key" and "data_body_ok text"
    and h: "h_version h = VERSION_SECURE" "h_flags h = FLAG_WANT_ACK"
    and o: "on_frame C b frame now pid = ((kind, Some g, ev), b2)"
  obtains key' where "of_contact_id g = Some (of_nat (j + 1))"
    and "outgoing_key C b j (Engine_epoch b) = Inr key'"
    and "carries C key' (OutgoingFrame_as_slice g)
      (ack_header C b j (Engine_epoch b) (c_tx_next (en_contacts b ! j)) pid)
      (ack_body (h_epoch h) (h_sequence h) (h_packet_id h))"
proof -
  have len: "length (en_contacts b) = MAX_CONTACTS" using s by (rule settled_length)
  have "validate_body (h_flags h) (BODY_DATA # text) = Inr ()"
    using assms by (simp add: validate_body_Inr)
  from on_frame_hit [OF len hr car key h(1) this, of now pid] obtain b' k where q: "quiet b b'"
    and f: "on_frame C b frame now pid =
      (if c_blocked (en_contacts b ! j) then ((Ignore, None, None), b')
       else if (BODY_DATA # text) ! 0 = BODY_DATA then rx_data C b' j k h (tl (BODY_DATA # text)) pid
       else rx_ack b' j h ((BODY_DATA # text) @ drop (length (BODY_DATA # text)) (replicate (1 + MAX_TEXT_LEN) 0)))"
    by blast
  from f o have r: "rx_data C b' j k h text pid = ((kind, Some g, ev), b2)"
    by (simp split: if_splits)
  have j: "j < length (en_contacts b)" and pr: "c_present (en_contacts b ! j)"
    using hr len by (auto simp: hears_def addressed_def Let_def)
  have j': "j < length (en_contacts b')" using quietD(1) [OF q] j by simp
  from rx_data_ack [OF j' r] obtain e1 e2 where e: "build_ack C e1 j h pid = (Some g, e2)"
    "frame_view e1 j = frame_view b' j" "length (en_contacts e1) = length (en_contacts b')"
    "Engine_epoch e1 = Engine_epoch b'" "c_tx_next (en_contacts e1 ! j) = c_tx_next (en_contacts b' ! j)"
    by auto
  have fv: "frame_view e1 j = frame_view b j" "length (en_contacts e1) = length (en_contacts b)"
    using e frame_view_quiet [OF q j] quietD(1) [OF q] by simp_all
  have pr': "c_present (en_contacts e1 ! j)" using fv(1) pr by (simp add: frame_view_def Let_def)
  have j1: "j < length (en_contacts e1)" using j fv(2) by simp
  have same: "Engine_epoch e1 = Engine_epoch b" "c_tx_next (en_contacts e1 ! j) = c_tx_next (en_contacts b ! j)"
    using e(4,5) quietD(6) [OF q] same_linkD(9) [OF quiet_nth [OF q j]] by simp_all
  from build_ack_carries [OF C pr' j1 e(1)] obtain key' where
    "of_contact_id g = Some (of_nat (j + 1))" "outgoing_key C e1 j (Engine_epoch e1) = Inr key'"
    "carries C key' (OutgoingFrame_as_slice g)
      (ack_header C e1 j (Engine_epoch e1) (c_tx_next (en_contacts e1 ! j)) pid)
      (ack_body (h_epoch h) (h_sequence h) (h_packet_id h))" by blast
  then show thesis
    using that [of key'] frame_view_cong(2,3) [OF fv] by (simp add: same)
qed

text \<open>An acknowledgement that refers to the send in progress completes it.\<close>

lemma ack_reaches:
  assumes s: "settled C a" and hr: "hears C a i h" and nb: "\<not> c_blocked (en_contacts a ! i)"
    and car: "carries C key frame h (ack_body ep sq pid)"
    and key: "incoming_key C a i (h_epoch h) = Inr key"
    and h: "h_version h = VERSION_SECURE" "h_flags h = 0"
    and ps: "en_pending_send a = Some ps" "ps_contact_id ps = of_nat (i + 1)" "ps_epoch ps = ep"
      "ps_sequence ps = sq" "ps_packet_id ps = pid"
    and k: "position (\<lambda>x. x = h_epoch h) (c_win_epochs (en_contacts a ! i)) = Some k"
    and new: "\<not> rw_seen (c_win_ack (en_contacts a ! i) ! k) (h_sequence h)"
  shows "fst (on_frame C a frame now apid) =
    (Ack (of_nat (i + 1)), None, Some (SendAcked (of_nat (i + 1)) ep sq pid))"
proof -
  have len: "length (en_contacts a) = MAX_CONTACTS" using s by (rule settled_length)
  have "validate_body (h_flags h) (ack_body ep sq pid) = Inr ()"
    using h by (simp add: validate_body_Inr) (simp add: ack_body_def)
  moreover have "ack_body ep sq pid ! 0 \<noteq> BODY_DATA" by (simp add: consts_defs)
  ultimately obtain a' where q: "quiet a a'" and o: "on_frame C a frame now apid =
      rx_ack a' i h (ack_body ep sq pid @ drop 17 (replicate (1 + MAX_TEXT_LEN) 0))"
    using on_frame_hit [OF len hr car key h(1), of now apid] nb by (metis length_ack_body)
  have i: "i < length (en_contacts a)" using hr len by (simp add: hears_def)
  note sl = same_linkD [OF quiet_nth [OF q i]]
  let ?pt = "ack_body ep sq pid @ drop 17 (replicate (1 + MAX_TEXT_LEN) 0)"
  have f: "bslice 1 5 ?pt = bslice 1 5 (ack_body ep sq pid)" "bslice 5 13 ?pt = bslice 5 13 (ack_body ep sq pid)"
    "bslice 13 17 ?pt = bslice 13 17 (ack_body ep sq pid)"
    by (simp_all add: bslice_def)
  have "fst (ReplayWindow_accept (c_win_ack (en_contacts a ! i) ! k) (h_sequence h)) = Accepted"
    using new by (simp add: accept_Accepted)
  then show ?thesis
    unfolding o rx_ack_def f ack_body_fields using k ps sl quietD(9) [OF q]
    by (simp add: Let_def split_def)
qed

lemma used_one_same [simp]:
  "en_provisioned (used_one slot ep e) = en_provisioned e" "en_fault (used_one slot ep e) = en_fault e"
  "en_time_valid (used_one slot ep e) = en_time_valid e" "en_uid (used_one slot ep e) = en_uid e"
  "Engine_epoch (used_one slot ep e) = Engine_epoch e"
  "length (en_contacts (used_one slot ep e)) = length (en_contacts e)"
  by (simp_all add: used_one_def upd_contact_def Engine_epoch_def)

text \<open>The sender after its frame has been emitted and the state saved.\<close>

lemma after_emit:
  assumes s: "settled C a" and C: "aead_correct C" and b: "send_begin a cid text pid = (Inr ps, a1)"
    and em: "send_emit C (commit_ok a1) = (Inr f, a2)" and i: "i = unat cid - 1"
  shows "settled C (commit_ok a2)" and "linked (commit_ok a2) i b j = linked a i b j"
    and "awake (commit_ok a2) ep = awake a ep" and "en_pending_send (commit_ok a2) = Some ps"
    and "c_blocked (en_contacts (commit_ok a2) ! i) = False" and "cid = of_nat (i + 1)"
    and "c_win_epochs (en_contacts (commit_ok a2) ! i) = c_win_epochs (en_contacts a ! i)"
    and "c_win_ack (en_contacts (commit_ok a2) ! i) = c_win_ack (en_contacts a ! i)"
proof -
  obtain slot where slot: "slot_of a cid = Inr slot" and nb: "\<not> c_blocked (en_contacts a ! slot)"
    and a2: "a2 = stage_persist StNone (used_one slot (Engine_epoch a) (refresh_aliases C slot (commit_ok a1)))"
    by (rule begin_emit [OF s C b]) (use em in auto)
  obtain op where a1: "a1 = (stage_persist op a)\<lparr> en_pending_text := put_at 0 text (en_pending_text a),
      en_pending_text_len := of_nat (length text), en_pending_send := Some ps \<rparr>"
    by (rule send_begin_Inr [OF b])
  have sl: "slot = i" "slot < MAX_CONTACTS" "c_present (en_contacts a ! slot)"
    using slot slot_of_less by (auto simp: slot_of_Inr i)
  show "cid = of_nat (i + 1)"
    using slot by (auto simp: slot_of_Inr i)
  have len: "length (en_contacts a) = MAX_CONTACTS" using s by (rule settled_length)
  have d1: "en_persist_dirty a1" by (simp add: a1)
  have "op_ok C a1" using send_begin_ok [OF s, of cid "text" pid] by (simp add: b)
  with d1 have s1: "settled C (commit_ok a1)"
    by (intro commit_settled) (auto simp: op_ok_def settled_def)
  have "op_ok C a2" using send_emit_ok [OF s1] by (simp add: em)
  then show "settled C (commit_ok a2)"
    by (intro commit_settled) (auto simp: op_ok_def settled_def a2)
  let ?e = "commit_ok a1"
  have q: "quiet ?e (refresh_aliases C slot ?e)" by (rule quiet_refresh)
  have l1: "length (en_contacts a1) = MAX_CONTACTS" using len by (simp add: a1)
  have c1: "en_contacts ?e ! slot = (en_contacts a ! slot)\<lparr> c_tx_reserved := eff_reserved a1 slot \<rparr>"
    using nth_commit [of slot a1] sl l1 by (simp add: a1)
  have "same_link (en_contacts ?e ! slot) (en_contacts (refresh_aliases C slot ?e) ! slot)"
    using quiet_nth [OF q] l1 sl by simp
  then obtain u v where c2: "en_contacts (refresh_aliases C slot ?e) ! slot =
      (en_contacts a ! slot)\<lparr> c_tx_reserved := eff_reserved a1 slot, c_aliases := u, c_cached_epoch := v \<rparr>"
    unfolding same_link_def c1 by blast
  have l2: "length (en_contacts (refresh_aliases C slot ?e)) = MAX_CONTACTS" using l1 by simp
  have "en_contacts a2 ! slot = (en_contacts a ! slot)\<lparr> c_tx_reserved := eff_reserved a1 slot,
      c_aliases := u, c_cached_epoch := v, c_tx_next := c_tx_next (en_contacts a ! slot) + 1,
      c_tx_epoch_max := max (c_tx_epoch_max (en_contacts a ! slot)) (Engine_epoch a) \<rparr>"
    using sl(2) l2 by (simp add: a2 used_one_def nth_upd_contact c2)
  moreover have "slot < length (en_contacts a2)" using sl(2) l2 by (simp add: a2)
  ultimately obtain x y z where c3: "en_contacts (commit_ok a2) ! i = (en_contacts a ! i)\<lparr> c_aliases := u,
      c_cached_epoch := v, c_tx_next := x, c_tx_epoch_max := y, c_tx_reserved := z \<rparr>"
    unfolding sl(1) by (intro that) (simp add: nth_commit)
  have id: "en_uid (commit_ok a2) = en_uid a" "en_provisioned (commit_ok a2) = en_provisioned a"
    "en_fault (commit_ok a2) = en_fault a" "en_time_valid (commit_ok a2) = en_time_valid a"
    "Engine_epoch (commit_ok a2) = Engine_epoch a" "en_pending_send (commit_ok a2) = Some ps"
    unfolding a2 by (simp_all add: a1) (simp add: Engine_epoch_def)
  show "linked (commit_ok a2) i b j = linked a i b j" by (simp add: linked_def Let_def c3 id [simplified])
  show "awake (commit_ok a2) ep = awake a ep" by (simp add: awake_def id [simplified])
  show "en_pending_send (commit_ok a2) = Some ps" by (fact id(6))
  show "c_blocked (en_contacts (commit_ok a2) ! i) = False" using nb sl(1) by (simp add: c3)
  show "c_win_epochs (en_contacts (commit_ok a2) ! i) = c_win_epochs (en_contacts a ! i)"
    and "c_win_ack (en_contacts (commit_ok a2) ! i) = c_win_ack (en_contacts a ! i)"
    by (simp_all add: c3)
qed

section \<open>Frames nobody can open\<close>

definition nobody_opens :: "crypto \<Rightarrow> engine \<Rightarrow> bytes \<Rightarrow> bool" where
  "nobody_opens C e frame \<longleftrightarrow>
     (\<forall>h body slot key. decode_frame frame = Inr (h, body) \<longrightarrow> slot < MAX_CONTACTS \<longrightarrow>
        incoming_key C e slot (h_epoch h) = Inr key \<longrightarrow>
        k_open C key (nonce (h_epoch h) (h_sequence h)) (frame_aad h (of_nat (length body)))
          (take (length body - 16) body) (drop (length body - 16) body) = None)"

text \<open>At most the relay cache, cached aliases and the failure counter differ.\<close>

definition unaffected :: "engine \<Rightarrow> engine \<Rightarrow> bool" where
  "unaffected e e' \<longleftrightarrow>
     (\<exists>e1 cache fails. quiet e e1 \<and> e' = e1\<lparr> en_relay_cache := cache, en_auth_failures := fails \<rparr>)"

lemma unaffectedI:
  assumes "quiet e e1"
  shows "unaffected e e1" and "unaffected e (e1\<lparr> en_relay_cache := c \<rparr>)"
    and "unaffected e (e1\<lparr> en_auth_failures := n, en_relay_cache := c \<rparr>)"
proof -
  have "e1 = e1\<lparr> en_relay_cache := en_relay_cache e1, en_auth_failures := en_auth_failures e1 \<rparr>"
    "e1\<lparr> en_relay_cache := c \<rparr> = e1\<lparr> en_relay_cache := c, en_auth_failures := en_auth_failures e1 \<rparr>"
    "e1\<lparr> en_auth_failures := n, en_relay_cache := c \<rparr> = e1\<lparr> en_relay_cache := c, en_auth_failures := n \<rparr>"
    by (cases e1; simp)+
  then show "unaffected e e1" "unaffected e (e1\<lparr> en_relay_cache := c \<rparr>)"
    "unaffected e (e1\<lparr> en_auth_failures := n, en_relay_cache := c \<rparr>)"
    using assms unfolding unaffected_def by blast+
qed

lemma decrypt_refused:
  assumes "k_open C key n12 aad (take (length ct - 16) ct) (drop (length ct - 16) ct) = None"
  shows "\<exists>x out'. decrypt_data C key n12 aad ct out = (Inl x, out')"
  using assms by (auto simp: decrypt_data_def Let_def TAG_LEN_def put_at_0)

lemma refused_slot:
  assumes "slot < length (en_contacts e)"
    and "\<And>key. incoming_key C e slot (h_epoch h) = Inr key \<Longrightarrow>
      k_open C key (nonce (h_epoch h) (h_sequence h)) (frame_aad h (of_nat (length body)))
        (take (length body - 16) body) (drop (length body - 16) body) = None"
  shows "\<exists>out e'. on_frame_slot C e h body pid slot = (out, e') \<and> (out = SkipSlot \<or> out = AuthFailed) \<and> quiet e e'"
proof (cases "addressed C e slot h")
  case False
  then show ?thesis using skip_slot [OF False assms(1), of body pid] by auto
next
  case True
  then have pr: "c_present (en_contacts e ! slot)" "h_epoch h \<in> set (c_win_epochs (en_contacts e ! slot))"
    by (auto simp: addressed_def Let_def)
  then obtain k where k: "position (\<lambda>x. x = h_epoch h) (c_win_epochs (en_contacts e ! slot)) = Some k"
    using position_None [of "\<lambda>x. x = h_epoch h" "c_win_epochs (en_contacts e ! slot)"] by auto
  have q: "quiet e (refresh_aliases C slot e)" by (rule quiet_refresh)
  have key: "incoming_key C (refresh_aliases C slot e) slot (h_epoch h) = incoming_key C e slot (h_epoch h)"
    using keys_quiet(1) [OF q assms(1)] .
  obtain key where ik: "incoming_key C e slot (h_epoch h) = Inr key"
    using assms(1) pr by (simp add: incoming_key_eq)
  from decrypt_refused [OF assms(2) [OF ik]] obtain x out' where
    "decrypt_data C key (nonce (h_epoch h) (h_sequence h)) (frame_aad h (of_nat (length body))) body
      (replicate (1 + MAX_TEXT_LEN) 0) = (Inl x, out')" by blast
  then have "on_frame_slot C e h body pid slot =
      (if be32 (h_dst h) \<noteq> derive_address C (c_addr_secret (en_contacts (refresh_aliases C slot e) ! slot))
            (en_uid e) (h_epoch h) \<or>
          be32 (h_src h) \<noteq> derive_address C (c_addr_secret (en_contacts (refresh_aliases C slot e) ! slot))
            (c_peer_identity (en_contacts (refresh_aliases C slot e) ! slot)) (h_epoch h)
       then SkipSlot else AuthFailed, refresh_aliases C slot e)"
    unfolding on_frame_slot_def using pr k key ik by (simp add: Let_def)
  with q show ?thesis by auto
qed

lemma refused_slots:
  assumes "\<And>slot key. slot \<in> set slots \<Longrightarrow> incoming_key C e slot (h_epoch h) = Inr key \<Longrightarrow>
      k_open C key (nonce (h_epoch h) (h_sequence h)) (frame_aad h (of_nat (length body)))
        (take (length body - 16) body) (drop (length body - 16) body) = None"
    and "\<And>slot. slot \<in> set slots \<Longrightarrow> slot < length (en_contacts e)"
  shows "\<exists>failed' e'. on_frame_slots C h body pid slots failed e = ((None, failed'), e') \<and> quiet e e'"
  using assms
proof (induction slots arbitrary: failed e)
  case (Cons slot slots)
  have "\<exists>out e1. on_frame_slot C e h body pid slot = (out, e1) \<and> (out = SkipSlot \<or> out = AuthFailed) \<and> quiet e e1"
    using Cons.prems by (intro refused_slot) auto
  then obtain out e1 where o: "on_frame_slot C e h body pid slot = (out, e1)"
    "out = SkipSlot \<or> out = AuthFailed" "quiet e e1" by blast
  have "\<exists>failed' e'. on_frame_slots C h body pid slots f e1 = ((None, failed'), e') \<and> quiet e1 e'" for f
    using Cons.prems quietD(1) [OF o(3)] keys_quiet(1) [OF o(3)] by (intro Cons.IH) auto
  then show ?case using o quiet_trans [OF o(3)] by (auto split: slot_outcome.split) metis+
qed simp

section \<open>Which contacts a result names\<close>

fun kind_contact :: "incoming_kind \<Rightarrow> u8 set" where
  "kind_contact (Deliver c n) = {c}"
| "kind_contact (ReAck c) = {c}"
| "kind_contact (Ack c) = {c}"
| "kind_contact Forward = {}"
| "kind_contact Ignore = {}"

fun event_contact :: "node_event \<Rightarrow> u8 set" where
  "event_contact (Received c ep sq tb n) = {c}"
| "event_contact (SendAcked c ep sq p) = {c}"

definition named_contacts :: "rx_result \<Rightarrow> u8 set" where
  "named_contacts r = (case r of (kind, out, ev) \<Rightarrow> kind_contact kind \<union>
     (case out of Some f \<Rightarrow> set_option (of_contact_id f) | None \<Rightarrow> {}) \<union>
     (case ev of Some x \<Rightarrow> event_contact x | None \<Rightarrow> {}))"

lemma build_ack_names:
  "fst (build_ack C e slot h pid) = Some g \<Longrightarrow> of_contact_id g = Some (of_nat (slot + 1))"
  by (cases rule: build_ack_cases [of C e slot h pid]) auto

lemma rx_names:
  "named_contacts (fst (rx_data C e slot k h t pid)) \<subseteq> {of_nat (slot + 1)}"
  "named_contacts (fst (rx_ack e slot h t)) \<subseteq> {of_nat (slot + 1)}"
proof -
  show "named_contacts (fst (rx_data C e slot k h t pid)) \<subseteq> {of_nat (slot + 1)}"
    using build_ack_names [where slot = slot and C = C and h = h and pid = pid]
    by (auto simp: rx_data_def Let_def split_def named_contacts_def split: verdict.split option.split)
  show "named_contacts (fst (rx_ack e slot h t)) \<subseteq> {of_nat (slot + 1)}"
    by (auto simp: rx_ack_def Let_def split_def named_contacts_def split: option.split)
qed

definition answering :: "engine \<Rightarrow> u8 set" where
  "answering e = {of_nat (i + 1) |i. i < MAX_CONTACTS \<and> c_present (en_contacts e ! i) \<and>
     \<not> c_blocked (en_contacts e ! i)}"

lemma answering_quiet: "quiet e e' \<Longrightarrow> length (en_contacts e) = MAX_CONTACTS \<Longrightarrow> answering e' = answering e"
  unfolding answering_def using same_linkD(1,2) [OF quiet_nth] by fastforce

lemma slot_names:
  assumes "slot < MAX_CONTACTS" and "length (en_contacts e) = MAX_CONTACTS"
  shows "case on_frame_slot C e h body pid slot of
    (Return r, e') \<Rightarrow> named_contacts r \<subseteq> answering e | (_, e') \<Rightarrow> quiet e e'"
proof (cases "c_present (en_contacts e ! slot)")
  case False
  then show ?thesis by (simp add: on_frame_slot_def)
next
  case pr: True
  let ?r = "refresh_aliases C slot e"
  have q: "quiet e ?r" by (rule quiet_refresh)
  have b: "c_blocked (en_contacts ?r ! slot) = c_blocked (en_contacts e ! slot)"
    using same_linkD(2) [OF quiet_nth [OF q]] assms by simp
  have ans: "of_nat (slot + 1) \<in> answering e" if "\<not> c_blocked (en_contacts e ! slot)"
    using that pr assms(1) by (auto simp: answering_def)
  have "named_contacts (fst (rx_data C ?r slot k h t pid)) \<subseteq> answering e"
    "named_contacts (fst (rx_ack ?r slot h t)) \<subseteq> answering e"
    if "\<not> c_blocked (en_contacts e ! slot)" for k t
    using rx_names ans [OF that] by blast+
  then show ?thesis
    using q b by (auto simp: on_frame_slot_def Let_def split_def named_contacts_def
        split: option.split sum.split prod.split)
qed

lemma slots_names:
  assumes "set slots \<subseteq> {..<MAX_CONTACTS}" and "length (en_contacts e) = MAX_CONTACTS"
  shows "case on_frame_slots C h body pid slots failed e of
    ((Some r, _), e') \<Rightarrow> named_contacts r \<subseteq> answering e | ((None, _), e') \<Rightarrow> True"
  using assms
proof (induction slots arbitrary: failed e)
  case (Cons slot slots)
  obtain out e1 where o: "on_frame_slot C e h body pid slot = (out, e1)" by fastforce
  note this_slot = slot_names [of slot e C h body pid] 
  show ?case
  proof (cases "\<exists>r. out = Return r")
    case True
    then show ?thesis using this_slot Cons.prems o by auto
  next
    case False
    then have q: "quiet e e1" using this_slot Cons.prems o by (auto split: slot_outcome.splits)
    then have "answering e1 = answering e" "length (en_contacts e1) = MAX_CONTACTS"
      using answering_quiet quietD(1) Cons.prems(2) by auto
    moreover have "on_frame_slots C h body pid (slot # slots) failed e =
        on_frame_slots C h body pid slots (failed \<or> out = AuthFailed) e1"
      using False by (cases out) (auto simp: o)
    moreover have "case on_frame_slots C h body pid slots (failed \<or> out = AuthFailed) e1 of
        ((Some r, _), e') \<Rightarrow> named_contacts r \<subseteq> answering e1 | ((None, _), e') \<Rightarrow> True"
      using Cons.prems(1) calculation(2) by (intro Cons.IH) auto
    ultimately show ?thesis by (simp only:)
  qed
qed simp

lemma transit_names: "named_contacts (fst (transit C e f h now)) = {}"
  "snd (snd (fst (transit C e f h now))) = None"
  by (auto simp: transit_def Let_def named_contacts_def split: prod.split observe.split sum.split)

end
