(* ===== verification/Engine_Air.thy ===== *)
theory Engine_Air
  imports Engine_Wire
begin

text \<open>
  Two engines over the air: a message that one accepts is emitted, delivered by the other with
  the same text, acknowledged, and the acknowledgement matches the send; frames nobody can open
  and frames of blocked contacts come to nothing.
\<close>

section \<open>Two demonstration nodes\<close>

text \<open>A pair of paired engines, for the witnesses: contact 1 of each is the other.\<close>

definition demo_node :: "bytes \<Rightarrow> bytes \<Rightarrow> u8 \<Rightarrow> engine" where
  "demo_node own peer role =
     (let e = (Engine_new True)\<lparr> en_provisioned := True, en_uid := own, en_time_valid := True,
        en_unix_seconds := 18000 \<rparr>
      in e\<lparr> en_contacts := (en_contacts e)[0 := activated demo_crypto e (replicate 32 3) peer
        (replicate 32 4) role] \<rparr>)"

abbreviation demo_a :: engine where
  "demo_a \<equiv> demo_node (replicate 8 1) (replicate 8 2) ROLE_L"

abbreviation demo_b :: engine where
  "demo_b \<equiv> demo_node (replicate 8 2) (replicate 8 1) ROLE_R"

lemma demo_hour: "epoch_of_unix 18000 = Some 5"
  by (simp add: epoch_of_unix_Some)

lemma demo_epoch [simp]: "Engine_epoch (demo_node own peer role) = 5"
  using demo_hour by (simp add: demo_node_def Let_def Engine_epoch_def)

lemma demo_contacts:
  "en_contacts (demo_node own peer role) =
     (replicate MAX_CONTACTS Contact_empty)[0 := activated demo_crypto (demo_node own peer role)
       (replicate 32 3) peer (replicate 32 4) role]"
  by (simp add: demo_node_def Let_def Engine_new_def activated_def Engine_epoch_def)

lemma demo_fields [simp]:
  "en_provisioned (demo_node own peer role)" "en_uid (demo_node own peer role) = own"
  "en_time_valid (demo_node own peer role)" "\<not> en_fault (demo_node own peer role)"
  "en_staged (demo_node own peer role) = None" "\<not> en_persist_dirty (demo_node own peer role)"
  "en_pending_send (demo_node own peer role) = None" "en_pending (demo_node own peer role) = None"
  "length (en_contacts (demo_node own peer role)) = MAX_CONTACTS"
  "en_contacts (demo_node own peer role) ! 0 = activated demo_crypto (demo_node own peer role)
       (replicate 32 3) peer (replicate 32 4) role"
  by (simp_all add: demo_contacts) (simp_all add: demo_node_def Engine_new_def MAX_CONTACTS_def)

lemma demo_contact_fields [simp]:
  "c_tx_reserved (activated C e k i r ro) = 0" "c_win_epochs (activated C e k i r ro) = AnchorHours_slots (Engine_epoch e)"
  "c_win_data (activated C e k i r ro) = replicate 3 ReplayWindow_new"
  "c_win_ack (activated C e k i r ro) = replicate 3 ReplayWindow_new"
  by (simp_all add: activated_def Contact_empty_def)

lemma demo_settled:
  assumes "length own = 8" and "length peer = 8" and "role \<le> 1"
  shows "settled demo_crypto (demo_node own peer role)"
proof -
  let ?e = "demo_node own peer role" and ?c = "activated demo_crypto (demo_node own peer role)
       (replicate 32 3) peer (replicate 32 4) role"
  have ci: "contact_inv demo_crypto ?c" using assms by (intro activated_inv) simp_all
  have nth: "en_contacts ?e ! i = (if i = 0 then ?c else Contact_empty)" if "i < MAX_CONTACTS" for i
    using that by (simp add: demo_contacts)
  have set: "set (en_contacts ?e) \<subseteq> {?c, Contact_empty}"
    unfolding demo_contacts by (rule order_trans [OF set_update_subset_insert]) auto
  have "contacts_ok demo_crypto ?e"
    using set ci by (auto simp: contacts_ok_def list_all_iff)
  moreover have "sizes_ok ?e"
    using core_inv_def [of demo_crypto "Engine_new True"] Engine_new_inv [of demo_crypto True] assms
    by (simp add: sizes_ok_def demo_node_def Let_def)
  moreover have "en_persisted_tx_epoch ?e = 0" "en_unix_seconds ?e = 18000"
    by (simp_all add: demo_node_def Let_def Engine_new_def)
  then have "clock_ok ?e" using set demo_hour by (auto simp: clock_ok_def)
  moreover have "reserve_ok ?e" by (auto simp: reserve_ok_def nth eff_reserved_def)
  moreover have "pending_ok ?e" "send_ok ?e" by (simp_all add: pending_ok_def send_ok_def)
  ultimately show ?thesis by (simp add: settled_def core_inv_def)
qed

lemma demo_a_settled: "settled demo_crypto demo_a" and demo_b_settled: "settled demo_crypto demo_b"
  by (intro demo_settled; simp add: ROLE_L_def ROLE_R_def)+

abbreviation demo_ps :: pending_send where
  "demo_ps \<equiv> \<lparr> ps_contact_id = 1, ps_epoch = 5, ps_sequence = 0, ps_packet_id = 7 \<rparr>"

lemma demo_begin: "send_begin demo_a 1 [72] 7 = (Inr demo_ps, snd (send_begin demo_a 1 [72] 7))"
proof -
  have "send_begin_check demo_a 1 [72] = Inr (0, StTxReserve 0 32)"
    unfolding send_begin_check_Inr
    by (simp add: check_usable_def slot_of_Inr data_body_ok_def consts_defs checked_add_def
        MAX_CONTACTS_def)
  then show ?thesis by (simp add: send_begin_def Let_def)
qed

lemma demo_linked: "linked demo_a 0 demo_b 0"
  by (simp add: linked_def Let_def ROLE_L_def ROLE_R_def MAX_CONTACTS_def)

lemma demo_awake: "awake (demo_node own peer role) 5"
  by (simp add: awake_def in_accept_window_def)

lemma demo_unseen: "\<not> rx_seen (en_contacts (demo_node own peer role) ! 0) 5 sq"
  by (simp add: rx_seen_def slots_shape saturating_sub_def saturating_add_def)

text \<open>How sent bytes can arrive: as they are, or as a relay forwards them.\<close>

definition arrives_as :: "bytes \<Rightarrow> bytes \<Rightarrow> bool" where
  "arrives_as sent frame \<longleftrightarrow>
     frame = sent \<or> (\<exists>out n out'. prepare_forward sent out = (Inr n, out') \<and> frame = take n out')"

section \<open>End to end\<close>

lemma message_delivered:
  assumes "aead_correct C" and "settled C a" and "settled C b"
    and "send_begin a cid text pid = (Inr ps, a1)"
    and "linked a (unat cid - 1) b j" and "awake b (ps_epoch ps)"
    and "\<forall>k < j. \<not> addressed C b k (data_header C a (unat cid - 1) ps)"
    and "\<not> c_blocked (en_contacts b ! j)"
    and "\<not> rx_seen (en_contacts b ! j) (ps_epoch ps) (ps_sequence ps)"
  shows "\<exists>f a2. send_emit C (commit_ok a1) = (Inr f, a2) \<and>
    (\<forall>frame. arrives_as (OutgoingFrame_as_slice f) frame \<longrightarrow>
      (\<exists>ack b' tb. on_frame C b frame now apid =
        ((Deliver (of_nat (j + 1)) (of_nat (length text)), ack,
          Some (Received (of_nat (j + 1)) (ps_epoch ps) (ps_sequence ps) tb (of_nat (length text)))), b') \<and>
        take (length text) tb = text \<and>
        (unat (c_tx_next (en_contacts b ! j)) + 32 < 2 ^ 64 \<longrightarrow> ack \<noteq> None)))"
proof -
  let ?h = "data_header C a (unat cid - 1) ps"
  from begin_emit [OF assms(2,1,4)] obtain f a2 slot key where slot: "slot_of a cid = Inr slot"
    and ps: "ps_epoch ps = Engine_epoch a" and em: "send_emit C (commit_ok a1) = (Inr f, a2)"
    and key: "outgoing_key C a slot (Engine_epoch a) = Inr key"
    and car: "carries C key (OutgoingFrame_as_slice f) (data_header C a slot ps) (BODY_DATA # text)"
    and ok: "data_body_ok text"
    by (metis pending_send.select_convs(2))
  have i: "slot = unat cid - 1" using slot by (simp add: slot_of_Inr)
  have core: "core_inv C a" "core_inv C b" using assms(2,3) by (simp_all add: settled_def)
  have hr: "hears C b j ?h"
    using linked_hears [OF core assms(5), of ?h] assms(6,7) by simp
  have ik: "incoming_key C b j (ps_epoch ps) = Inr key"
    using key ps i linked_key [OF core assms(5), of "ps_epoch ps"] by simp
  have "\<exists>ack b' tb. on_frame C b frame now apid =
      ((Deliver (of_nat (j + 1)) (of_nat (length text)), ack,
        Some (Received (of_nat (j + 1)) (ps_epoch ps) (ps_sequence ps) tb (of_nat (length text)))), b') \<and>
      take (length text) tb = text \<and> (unat (c_tx_next (en_contacts b ! j)) + 32 < 2 ^ 64 \<longrightarrow> ack \<noteq> None)"
    if ar: "arrives_as (OutgoingFrame_as_slice f) frame" for frame
  proof -
    obtain h where h: "h = ?h \<or> h = ?h\<lparr> h_hops := 0 \<rparr>" "carries C key frame h (BODY_DATA # text)"
      using ar car i carries_forwarded [OF car] by (auto simp: arrives_as_def)
    then have f: "hears C b j h" "h_version h = VERSION_SECURE" "h_flags h = FLAG_WANT_ACK"
      "h_epoch h = ps_epoch ps" "h_sequence h = ps_sequence ps"
      using hr by auto
    from data_reaches [OF assms(3) f(1) h(2) _ ok f(2,3) assms(8), of now apid] ik assms(9) f(4,5)
    obtain ack b' where "on_frame C b frame now apid =
      ((Deliver (of_nat (j + 1)) (of_nat (length text)), ack,
        Some (Received (of_nat (j + 1)) (ps_epoch ps) (ps_sequence ps)
          (put_at 0 text (replicate MAX_TEXT_LEN 0)) (of_nat (length text)))), b')"
      "unat (c_tx_next (en_contacts b ! j)) + 32 < 2 ^ 64 \<Longrightarrow> ack \<noteq> None"
      using assms(1) by auto
    then show ?thesis by (intro exI [of _ ack] exI [of _ b'] exI conjI) (auto simp: put_at_0)
  qed
  with em show ?thesis by blast
qed

section \<open>Properties\<close>

text \<open>Once a send has been accepted and its snapshot saved, a frame is always emitted, and it
  carries the text: there is no later reason to refuse.\<close>

theorem accepted_send_emits:
  assumes "settled C e" and "aead_correct C" and "send_begin e cid text pid = (Inr ps, e1)"
  shows "\<exists>f e2 key. send_emit C (commit_ok e1) = (Inr f, e2) \<and> of_contact_id f = Some cid \<and>
    outgoing_key C e (unat cid - 1) (Engine_epoch e) = Inr key \<and>
    carries C key (OutgoingFrame_as_slice f) (data_header C e (unat cid - 1) ps) (BODY_DATA # text)"
  by (rule begin_emit [OF assms]) (auto simp: slot_of_Inr)

lemma accepted_send_emits_witness:
  "\<exists>f e2 key. send_emit demo_crypto (commit_ok (snd (send_begin demo_a 1 [72] 7))) = (Inr f, e2) \<and>
    of_contact_id f = Some 1 \<and>
    outgoing_key demo_crypto demo_a (unat (1 :: u8) - 1) (Engine_epoch demo_a) = Inr key \<and>
    carries demo_crypto key (OutgoingFrame_as_slice f)
      (data_header demo_crypto demo_a (unat (1 :: u8) - 1) demo_ps) (BODY_DATA # [72])"
  by (rule accepted_send_emits [OF demo_a_settled demo_aead_correct demo_begin])

text \<open>C20: End to end: a message one node sends to a contact is delivered with the same text,
  epoch and sequence number by the node at the other end of the link, whether its frame arrives
  directly or after a relay has spent its hop; provided the receiver is up, the sender's hour is in
  its window, the contact is not blocked, the message was not received before, and no earlier
  contact has the same pair of addresses. Unless the receiver is within 32 of its last sequence
  number the delivery comes with an acknowledgement.\<close>

theorem message_reaches_the_peer:
  assumes "aead_correct C" and "settled C a" and "settled C b"
    and "send_begin a cid text pid = (Inr ps, a1)"
    and "linked a (unat cid - 1) b j" and "awake b (ps_epoch ps)"
    and "\<forall>k < j. \<not> addressed C b k (data_header C a (unat cid - 1) ps)"
    and "\<not> c_blocked (en_contacts b ! j)"
    and "\<not> rx_seen (en_contacts b ! j) (ps_epoch ps) (ps_sequence ps)"
  shows "\<exists>f a2. send_emit C (commit_ok a1) = (Inr f, a2) \<and>
    (\<forall>frame. arrives_as (OutgoingFrame_as_slice f) frame \<longrightarrow>
      (\<exists>ack b' tb. on_frame C b frame now apid =
        ((Deliver (of_nat (j + 1)) (of_nat (length text)), ack,
          Some (Received (of_nat (j + 1)) (ps_epoch ps) (ps_sequence ps) tb (of_nat (length text)))), b') \<and>
        take (length text) tb = text \<and>
        (unat (c_tx_next (en_contacts b ! j)) + 32 < 2 ^ 64 \<longrightarrow> ack \<noteq> None)))"
  by (rule message_delivered [OF assms])

lemma message_reaches_the_peer_witness:
  "\<exists>f a2. send_emit demo_crypto (commit_ok (snd (send_begin demo_a 1 [72] 7))) = (Inr f, a2) \<and>
    (\<forall>frame. arrives_as (OutgoingFrame_as_slice f) frame \<longrightarrow>
      (\<exists>ack b' tb. on_frame demo_crypto demo_b frame 0 9 =
        ((Deliver (of_nat (0 + 1)) (of_nat (length [72 :: u8])), ack,
          Some (Received (of_nat (0 + 1)) (ps_epoch demo_ps) (ps_sequence demo_ps) tb
            (of_nat (length [72 :: u8])))), b') \<and>
        take (length [72 :: u8]) tb = [72] \<and>
        (unat (c_tx_next (en_contacts demo_b ! 0)) + 32 < 2 ^ 64 \<longrightarrow> ack \<noteq> None)))"
  by (rule message_reaches_the_peer [OF demo_aead_correct demo_a_settled demo_b_settled demo_begin])
    (simp_all add: demo_linked demo_awake demo_unseen [simplified])

text \<open>C21: The acknowledgement closes the loop: when the receiver of a message answers with an ACK,
  that frame, directly or through a relay, makes the sender report exactly the message it sent as
  acknowledged; provided the sender is up, has saved its state, hears the ACK's hour, has not
  blocked the contact and has not taken this ACK's number before.\<close>

theorem acknowledgement_matches_the_send:
  assumes "aead_correct C" and "settled C a" and "settled C b"
    and "send_begin a cid text pid = (Inr ps, a1)" and "send_emit C (commit_ok a1) = (Inr f, a2)"
    and "linked a (unat cid - 1) b j" and "awake b (ps_epoch ps)"
    and "\<forall>k < j. \<not> addressed C b k (data_header C a (unat cid - 1) ps)"
    and "arrives_as (OutgoingFrame_as_slice f) frame"
    and "on_frame C b frame now apid = ((kind, Some g, ev), b2)"
    and "awake a (Engine_epoch b)" and "a3 = commit_ok a2"
    and "\<forall>k < unat cid - 1. \<not> addressed C a3 k
      (ack_header C b j (Engine_epoch b) (c_tx_next (en_contacts b ! j)) apid)"
    and "position (\<lambda>x. x = Engine_epoch b) (c_win_epochs (en_contacts a ! (unat cid - 1))) = Some m"
    and "\<not> rw_seen (c_win_ack (en_contacts a ! (unat cid - 1)) ! m) (c_tx_next (en_contacts b ! j))"
    and "arrives_as (OutgoingFrame_as_slice g) back"
  shows "fst (on_frame C a3 back now' apid') =
    (Ack cid, None, Some (SendAcked cid (ps_epoch ps) (ps_sequence ps) pid))"
proof -
  let ?i = "unat cid - 1" let ?h = "data_header C a ?i ps"
  let ?k = "ack_header C b j (Engine_epoch b) (c_tx_next (en_contacts b ! j)) apid"
  from begin_emit [OF assms(2,1,4)] obtain slot key where slot: "slot_of a cid = Inr slot"
    and ps: "ps = \<lparr> ps_contact_id = cid, ps_epoch = Engine_epoch a,
      ps_sequence = c_tx_next (en_contacts a ! slot), ps_packet_id = pid \<rparr>"
    and key: "outgoing_key C a slot (Engine_epoch a) = Inr key"
    and car: "carries C key (OutgoingFrame_as_slice f) (data_header C a slot ps) (BODY_DATA # text)"
    and ok: "data_body_ok text"
    using assms(5) by (metis Pair_inject sum.inject(2))
  have i: "slot = ?i" using slot by (simp add: slot_of_Inr)
  have ae: "settled C a3" "linked a3 ?i b j" "awake a3 (Engine_epoch b)" "en_pending_send a3 = Some ps"
    "\<not> c_blocked (en_contacts a3 ! ?i)" "cid = of_nat (?i + 1)"
    "c_win_epochs (en_contacts a3 ! ?i) = c_win_epochs (en_contacts a ! ?i)"
    "c_win_ack (en_contacts a3 ! ?i) = c_win_ack (en_contacts a ! ?i)"
    using after_emit [OF assms(2,1,4,5) refl] assms(6,11) unfolding assms(12) by blast+
  have core: "core_inv C a" "core_inv C b" "core_inv C a3"
    using assms(2,3) ae(1) by (simp_all add: settled_def)
  have hr: "hears C b j ?h"
    using linked_hears [OF core(1,2) assms(6), of ?h] assms(7,8) by simp
  have ik: "incoming_key C b j (ps_epoch ps) = Inr key"
    using key ps i linked_key [OF core(1,2) assms(6), of "ps_epoch ps"] by simp
  obtain h where h: "h = ?h \<or> h = ?h\<lparr> h_hops := 0 \<rparr>" "carries C key frame h (BODY_DATA # text)"
    using assms(9) car i carries_forwarded [OF car] by (auto simp: arrives_as_def)
  then have f: "hears C b j h" "h_version h = VERSION_SECURE" "h_flags h = FLAG_WANT_ACK"
    "h_epoch h = ps_epoch ps" "h_sequence h = ps_sequence ps" "h_packet_id h = pid"
    using hr ps by auto
  from data_reaches_ack [OF assms(1,3) f(1) h(2) _ ok f(2,3) assms(10)] ik f(4-6)
  obtain key' where ok': "outgoing_key C b j (Engine_epoch b) = Inr key'"
    and car': "carries C key' (OutgoingFrame_as_slice g) ?k (ack_body (ps_epoch ps) (ps_sequence ps) pid)"
    by auto
  note rl = linked_sym [OF ae(2)]
  have hr': "hears C a3 ?i ?k"
    using linked_hears [OF core(2,3) rl, of ?k] ae(3) assms(13) by simp
  have ik': "incoming_key C a3 ?i (Engine_epoch b) = Inr key'"
    using ok' linked_key [OF core(2,3) rl, of "Engine_epoch b"] by simp
  obtain h' where h': "h' = ?k \<or> h' = ?k\<lparr> h_hops := 0 \<rparr>"
    "carries C key' back h' (ack_body (ps_epoch ps) (ps_sequence ps) pid)"
    using assms(16) car' carries_forwarded [OF car'] by (auto simp: arrives_as_def)
  then have f': "hears C a3 ?i h'" "h_version h' = VERSION_SECURE" "h_flags h' = 0"
    "h_epoch h' = Engine_epoch b" "h_sequence h' = c_tx_next (en_contacts b ! j)"
    using hr' by auto
  have "fst (on_frame C a3 back now' apid') = (Ack (of_nat (?i + 1)), None,
      Some (SendAcked (of_nat (?i + 1)) (ps_epoch ps) (ps_sequence ps) pid))"
    using ps ae(6) assms(14,15) ik' f'
    by (intro ack_reaches [where k = m, OF ae(1) f'(1) ae(5) h'(2) _ f'(2,3) ae(4)]) (simp_all add: ae(7,8) [simplified])
  then show ?thesis using ae(6) by simp
qed

text \<open>The demonstration nodes exchange a message and its acknowledgement.\<close>

lemma demo_exchange:
  obtains f a2 kind g ev b2 where
    "send_emit demo_crypto (commit_ok (snd (send_begin demo_a 1 [72] 7))) = (Inr f, a2)"
    and "on_frame demo_crypto demo_b (OutgoingFrame_as_slice f) 0 9 = ((kind, Some g, ev), b2)"
proof -
  let ?h = "data_header demo_crypto demo_a 0 demo_ps"
  from begin_emit [OF demo_a_settled demo_aead_correct demo_begin] obtain f a2 slot key where
    slot: "slot_of demo_a 1 = Inr slot"
    and em: "send_emit demo_crypto (commit_ok (snd (send_begin demo_a 1 [72] 7))) = (Inr f, a2)"
    and key: "outgoing_key demo_crypto demo_a slot (Engine_epoch demo_a) = Inr key"
    and car: "carries demo_crypto key (OutgoingFrame_as_slice f)
      (data_header demo_crypto demo_a slot demo_ps) (BODY_DATA # [72])"
    and ok: "data_body_ok [72]"
    by metis
  have i: "slot = 0" using slot by (simp add: slot_of_Inr)
  have core: "core_inv demo_crypto demo_a" "core_inv demo_crypto demo_b"
    using demo_a_settled demo_b_settled by (simp_all add: settled_def)
  have hr: "hears demo_crypto demo_b 0 ?h"
    using linked_hears [OF core demo_linked, of ?h] demo_awake by simp
  have ik: "incoming_key demo_crypto demo_b 0 (h_epoch ?h) = Inr key"
    using key i linked_key [OF core demo_linked, of 5] by simp
  have "\<not> c_blocked (en_contacts demo_b ! 0)"
    "\<not> rx_seen (en_contacts demo_b ! 0) (h_epoch ?h) (h_sequence ?h)"
    "unat (c_tx_next (en_contacts demo_b ! 0)) + 32 < 2 ^ 64"
    using demo_unseen by simp_all
  with data_reaches [OF demo_b_settled hr car [unfolded i] ik ok] demo_aead_correct obtain ack b' where
    "on_frame demo_crypto demo_b (OutgoingFrame_as_slice f) 0 9 =
      ((Deliver (of_nat (0 + 1)) (of_nat (length [72 :: u8])), ack,
      Some (Received (of_nat (0 + 1)) (h_epoch ?h) (h_sequence ?h)
        (put_at 0 [72] (replicate MAX_TEXT_LEN 0)) (of_nat (length [72 :: u8])))), b')" "ack \<noteq> None"
    by (metis data_header_simps(1,3))
  with em show thesis using that by auto
qed

lemma acknowledgement_matches_the_send_witness:
  "\<exists>f a2 g. fst (on_frame demo_crypto (commit_ok a2) (OutgoingFrame_as_slice g) 0 0) =
     (Ack 1, None, Some (SendAcked 1 (ps_epoch demo_ps) (ps_sequence demo_ps) 7)) \<and>
     send_emit demo_crypto (commit_ok (snd (send_begin demo_a 1 [72] 7))) = (Inr f, a2)"
proof -
  obtain f a2 kind g ev b2 where
    em: "send_emit demo_crypto (commit_ok (snd (send_begin demo_a 1 [72] 7))) = (Inr f, a2)"
    and rx: "on_frame demo_crypto demo_b (OutgoingFrame_as_slice f) 0 9 = ((kind, Some g, ev), b2)"
    by (rule demo_exchange)
  have "position (\<lambda>x. x = Engine_epoch demo_b) (c_win_epochs (en_contacts demo_a ! (unat (1 :: u8) - 1))) = Some 1"
    by (simp add: slots_shape saturating_sub_def saturating_add_def)
  then have "fst (on_frame demo_crypto (commit_ok a2) (OutgoingFrame_as_slice g) 0 0) =
     (Ack 1, None, Some (SendAcked 1 (ps_epoch demo_ps) (ps_sequence demo_ps) 7))"
    by (intro acknowledgement_matches_the_send [where j = 0 and m = 1, OF demo_aead_correct demo_a_settled demo_b_settled
          demo_begin em _ _ _ _ rx])
      (simp_all add: demo_linked demo_awake arrives_as_def)
  with em show ?thesis by blast
qed


text \<open>C23: A retry is the same frame: after a frame has been emitted and the state saved, the retry
  echo is byte for byte the emitted frame, so a repeated transmission adds no new ciphertext under
  the nonce.\<close>

theorem retry_echo_repeats_the_frame:
  assumes "settled C e" and "send_emit C e = (Inr f, e')"
  shows "send_retry_echo C (commit_ok e') = Inr (f\<lparr> of_is_retry_echo := True \<rparr>)"
proof -
  have un: "\<not> en_persist_dirty e" and len: "length (en_contacts e) = MAX_CONTACTS"
    using assms(1) settled_length by (auto simp: settled_def)
  from assms(2) obtain ps slot key where chk: "send_emit_check C e = Inr (ps, slot, key)"
    by (auto simp: send_emit_def split: if_splits sum.splits)
  let ?r = "refresh_aliases C slot e"
  from assms(2) chk obtain n frm where df: "data_frame C ?r slot ps key = Inr (n, frm)"
    by (auto simp: send_emit_def Let_def split: if_splits sum.splits)
  note k = chk [unfolded send_emit_check_Inr]
  have sl: "slot < MAX_CONTACTS" "c_present (en_contacts e ! slot)"
    using k slot_of_less by (auto simp: slot_of_Inr)
  have f: "f = \<lparr> of_len = n, of_frame = frm, of_contact_id = Some (ps_contact_id ps),
      of_is_ack = False, of_is_retry_echo = False \<rparr>"
    "e' = stage_persist StNone (used_one slot (ps_epoch ps) ?r)"
    using assms(2) send_emit_eq [OF un chk df] sl len by simp_all
  have q: "quiet e ?r" by (rule quiet_refresh)
  note r = same_linkD [OF quiet_nth [OF q], of slot] quietD [OF q]
  have fv: "frame_view (commit_ok e') slot = frame_view ?r slot"
    "length (en_contacts (commit_ok e')) = length (en_contacts ?r)"
  proof -
    have "frame_view (used_one slot (ps_epoch ps) ?r) slot = frame_view ?r slot"
      using sl len by (simp add: frame_view_def Let_def used_one_def nth_upd_contact)
    then have "frame_view e' slot = frame_view ?r slot" by (simp add: f(2) frame_view_def)
    then show "frame_view (commit_ok e') slot = frame_view ?r slot" by simp
  qed (simp add: f(2))
  have ev: "frame_view (commit_ok e') slot = frame_view e slot"
    "length (en_contacts (commit_ok e')) = length (en_contacts e)"
    using fv frame_view_quiet [OF q] sl len by simp_all
  have "data_frame C (commit_ok e') slot ps key = data_frame C ?r slot ps key"
    unfolding data_frame_def frame_view_cong(1) [OF fv] by (simp add: f) (simp add: used_one_def upd_contact_def)
  moreover have "outgoing_key C (commit_ok e') slot (ps_epoch ps) = Inr key"
    using frame_view_cong(3) [OF ev] k by simp
  moreover have "c_present (en_contacts (commit_ok e') ! slot)"
    using ev(1) sl by (simp add: frame_view_def Let_def)
  then have "slot_of (commit_ok e') (ps_contact_id ps) = Inr slot"
    using k by (simp add: slot_of_Inr)
  moreover have "en_pending_send (commit_ok e') = Some ps" using k by (simp add: f)
  ultimately show ?thesis using df by (simp add: send_retry_echo_def f(1))
qed

lemma retry_echo_repeats_the_frame_witness:
  "\<exists>f e'. send_emit demo_crypto (commit_ok (snd (send_begin demo_a 1 [72] 7))) = (Inr f, e') \<and>
    send_retry_echo demo_crypto (commit_ok e') = Inr (f\<lparr> of_is_retry_echo := True \<rparr>)"
proof -
  let ?a = "snd (send_begin demo_a 1 [72] 7)"
  obtain f e' where em: "send_emit demo_crypto (commit_ok ?a) = (Inr f, e')"
    using demo_exchange by blast
  have "en_persist_dirty ?a" using demo_begin by (auto simp: send_begin_def Let_def split: sum.splits prod.splits)
  then have "settled demo_crypto (commit_ok ?a)"
    using send_begin_ok [OF demo_a_settled, of 1 "[72]" 7]
    by (intro commit_settled) (auto simp: op_ok_def settled_def)
  from retry_echo_repeats_the_frame [OF this em] em show ?thesis by blast
qed

text \<open>C24: A forged frame changes nothing that matters: when no contact's key opens it, nothing is
  reported, acknowledged or staged for saving, and no contact, window, sequence number, send in
  progress or clock changes; only the relay cache, cached aliases and a failure counter may.\<close>

theorem forged_frames_change_nothing:
  assumes "settled C e" and "nobody_opens C e frame"
  shows "case on_frame C e frame now pid of ((kind, out, ev), e') \<Rightarrow>
    named_contacts (kind, out, ev) = {} \<and> ev = None \<and> unaffected e e'"
proof -
  let ?ok = "\<lambda>r. named_contacts (fst r) = {} \<and> snd (snd (fst r)) = None \<and> unaffected e (snd r)"
  have tr: "?ok (transit C e1 frame h now)" if "\<And>c. unaffected e (e1\<lparr> en_relay_cache := c \<rparr>)" for e1 h
    using that transit_names [of C e1 frame h now] by (simp add: transit_state)
  have "?ok (on_frame C e frame now pid)"
  proof (cases "decode_frame frame")
    case (Inl x)
    then show ?thesis using unaffectedI(1) [of e e] by (simp add: on_frame_def named_contacts_def)
  next
    case (Inr hb)
    obtain h body where hb: "hb = (h, body)" by fastforce
    have "length (en_contacts e) = MAX_CONTACTS" using assms(1) by (rule settled_length)
    then have "\<exists>failed' e'. on_frame_slots C h body pid [0..<MAX_CONTACTS] False e = ((None, failed'), e') \<and> quiet e e'"
      using assms(2) Inr hb by (intro refused_slots) (auto simp: nobody_opens_def)
    then obtain failed e1 where slots: "on_frame_slots C h body pid [0..<MAX_CONTACTS] False e = ((None, failed), e1)"
      and q: "quiet e e1" by blast
    have "?ok (transit C (if failed then e1\<lparr> en_auth_failures := saturating_add (en_auth_failures e1) 1 \<rparr> else e1)
        frame h now)"
      using unaffectedI [OF q] by (intro tr) simp
    moreover have "?ok (transit C e frame h now)" using unaffectedI [of e e] by (intro tr) simp
    ultimately show ?thesis
      using unaffectedI(1) [of e e]
      by (simp add: on_frame_def Inr hb Let_def slots named_contacts_def [of "(Ignore, None, None)"])
  qed
  then show ?thesis by (simp add: split_def)
qed

lemma demo_open: "t \<noteq> demo_pad 16 (rev a) \<Longrightarrow> k_open demo_crypto key n a c t = None"
  by (simp add: demo_crypto_def)

lemma forged_frames_change_nothing_witness:
  "\<exists>h. decode_frame (frame_bytes h (replicate 33 0)) = Inr (h, replicate 33 0) \<and> addressed demo_crypto demo_b 0 h \<and>
    (case on_frame demo_crypto demo_b (frame_bytes h (replicate 33 0)) 0 9 of ((kind, out, ev), e') \<Rightarrow>
      named_contacts (kind, out, ev) = {} \<and> ev = None \<and> unaffected demo_b e')"
proof -
  let ?h = "data_header demo_crypto demo_a 0 demo_ps"
  have core: "core_inv demo_crypto demo_a" "core_inv demo_crypto demo_b"
    using demo_a_settled demo_b_settled by (simp_all add: settled_def)
  have "addressed demo_crypto demo_b 0 ?h"
    using linked_hears [OF core demo_linked, of ?h] demo_awake by (simp add: hears_def)
  moreover have dec: "decode_frame (frame_bytes ?h (replicate 33 0)) = Inr (?h, replicate 33 0)"
    by (intro decode_frame_bytes) (simp add: frame_ok_def consts_defs)
  moreover have "nobody_opens demo_crypto demo_b (frame_bytes ?h (replicate 33 0))"
  proof -
    have "demo_pad 16 (rev (frame_aad ?h 33)) ! 0 = 33"
      by (simp add: demo_pad_def frame_aad_eq)
    then have "replicate 16 0 \<noteq> demo_pad 16 (rev (frame_aad ?h 33))"
      by (intro notI) (drule arg_cong [where f = "\<lambda>xs. xs ! 0"], simp)
    then have "k_open demo_crypto key n (frame_aad ?h 33) c (replicate 16 0) = None" for key n c
      by (simp add: demo_open)
    then show ?thesis by (simp add: nobody_opens_def dec)
  qed
  ultimately show ?thesis
    by (intro exI [of _ ?h] conjI forged_frames_change_nothing [OF demo_b_settled])
qed

text \<open>C25: Only present, unblocked contacts are heard and answered: whatever frame arrives, the
  result names (as deliverer, acknowledger, addressee of an ACK or subject of an event) no other
  contact.\<close>

theorem only_unblocked_contacts_answer:
  assumes "settled C e"
  shows "named_contacts (fst (on_frame C e frame now pid)) \<subseteq>
    {of_nat (i + 1) |i. i < MAX_CONTACTS \<and> c_present (en_contacts e ! i) \<and> \<not> c_blocked (en_contacts e ! i)}"
proof -
  have len: "length (en_contacts e) = MAX_CONTACTS" using assms by (rule settled_length)
  have "set [0..<MAX_CONTACTS] \<subseteq> {..<MAX_CONTACTS}" by auto
  note slots = slots_names [OF this len, of C]
  have "named_contacts (fst (on_frame C e frame now pid)) \<subseteq> answering e"
  proof (cases "decode_frame frame")
    case (Inl x)
    then show ?thesis by (simp add: on_frame_def named_contacts_def)
  next
    case (Inr hb)
    obtain h body where hb: "hb = (h, body)" by fastforce
    show ?thesis
      using slots [of h body pid False] transit_names(1)
      by (auto simp: on_frame_def Inr hb Let_def named_contacts_def [of "(Ignore, None, None)"]
          split: prod.splits option.splits)
  qed
  then show ?thesis by (simp add: answering_def)
qed

lemma only_unblocked_contacts_answer_witness:
  "\<forall>frame. named_contacts (fst (on_frame demo_crypto demo_b frame 0 9)) \<subseteq>
    {of_nat (i + 1) |i. i < MAX_CONTACTS \<and> c_present (en_contacts demo_b ! i) \<and> \<not> c_blocked (en_contacts demo_b ! i)}"
  by (intro allI only_unblocked_contacts_answer [OF demo_b_settled])

end
