(* ===== verification/Engine_Handshake.thy ===== *)
theory Engine_Handshake
  imports Engine_Wire "HOL-Library.Monad_Syntax"
begin

text \<open>
  Two engines in one pairing ceremony: the operations of \<open>Engine_Pair\<close> run on both sides, each
  record carried to the other. Both derive the same transcript and root and take opposite roles,
  and the ceremony ends with the two contacts linked.
\<close>

section \<open>What two offers determine\<close>

definition transcript_of :: "crypto \<Rightarrow> offer \<Rightarrow> offer \<Rightarrow> bytes" where
  "transcript_of C x y =
     (let (l, r) = order_offers (offer_payload_bytes x) (offer_payload_bytes y) in transcript_t C l r)"

definition meeting_root :: "crypto \<Rightarrow> bytes \<Rightarrow> offer \<Rightarrow> offer \<Rightarrow> bytes" where
  "meeting_root C s x y = derive_root C (k_x25519 C s (o_eph_pub y)) (transcript_of C x y)"

definition setup_key :: "crypto \<Rightarrow> bytes \<Rightarrow> u8 \<Rightarrow> bytes" where
  "setup_key C root role = derive_label C root (if role = ROLE_L then LABEL_SETUP_LR else LABEL_SETUP_RL)"

lemma transcript_of_swap:
  "offer_ok x \<Longrightarrow> offer_ok y \<Longrightarrow> o_ed_pub x \<noteq> o_ed_pub y \<Longrightarrow> transcript_of C y x = transcript_of C x y"
  using order_offers_swap [of "offer_payload_bytes x" "offer_payload_bytes y"]
    offer_payload_ed [of x] offer_payload_ed [of y]
  by (simp add: transcript_of_def)

lemma length_transcript_of: "hash_lengths C \<Longrightarrow> length (transcript_of C x y) = 32"
  by (simp add: transcript_of_def transcript_t_def split: prod.split)

section \<open>An attempt that has both offers\<close>

definition attempt :: "crypto \<Rightarrow> engine \<Rightarrow> pending_pair \<Rightarrow> bytes \<Rightarrow> offer \<Rightarrow> offer \<Rightarrow> bool" where
  "attempt C e p s x y \<longleftrightarrow>
     en_pending e = Some p \<and> check_usable e = Inr () \<and> require_radio_off e = Inr () \<and>
     en_uid_set e \<and> length (en_uid e) = 8 \<and> o_ed_pub x = k_ed_public C (en_sign_priv e) \<and>
     offer_ok x \<and> offer_ok y \<and> o_ed_pub x \<noteq> o_ed_pub y \<and>
     pp_own_eph_priv p = s \<and> pp_peer_offer p = Some (offer_payload_bytes y) \<and>
     pp_transcript p = Some (transcript_of C x y) \<and>
     pp_own_role p = role_for (o_ed_pub x) (o_ed_pub y) \<and> pp_slot p < MAX_CONTACTS \<and>
     \<not> is_expired (pp_start_mono_s p) (en_mono_s e) \<and> k_x25519 C s (o_eph_pub y) \<noteq> replicate 32 0"

text \<open>The records of the attempt may be filled in without disturbing it.\<close>

lemma attempt_records:
  assumes "attempt C e p s x y"
  shows "attempt C (e\<lparr> en_pending := Some (p\<lparr> pp_own_proof := r \<rparr>) \<rparr>) (p\<lparr> pp_own_proof := r \<rparr>) s x y"
    and "attempt C (e\<lparr> en_pending := Some (p\<lparr> pp_own_confirm := r \<rparr>) \<rparr>) (p\<lparr> pp_own_confirm := r \<rparr>) s x y"
    and "attempt C (e\<lparr> en_pending := Some (p\<lparr> pp_peer_proof := r, pp_peer_identity := i \<rparr>) \<rparr>)
           (p\<lparr> pp_peer_proof := r, pp_peer_identity := i \<rparr>) s x y"
  using assms by (auto simp: attempt_def check_usable_def require_radio_off_def split: if_splits)

lemma attempt_keys:
  assumes "attempt C e p s x y"
  shows "pair_root C e (transcript_of C x y) = Inr (meeting_root C s x y)"
    and "setup_keys C e (transcript_of C x y) role =
      Inr (setup_key C (meeting_root C s x y) ROLE_L, setup_key C (meeting_root C s x y) ROLE_R)"
  using assms
  by (simp_all add: attempt_def pair_root_def setup_keys_def decode_offer_payload_bytes Let_def
      meeting_root_def setup_key_def ROLE_L_def ROLE_R_def)

lemma attempt_open:
  "attempt C e p s x y \<Longrightarrow>
   rbind (check_usable e) (\<lambda>_. rbind (require_radio_off e) (\<lambda>_. open_attempt e)) =
     Inr (p, transcript_of C x y, role_for (o_ed_pub x) (o_ed_pub y))"
  by (simp add: attempt_def open_attempt_def)

section \<open>Proofs\<close>

text \<open>A proof record that seals \<open>uid\<close> for the other side and is signed with \<open>priv\<close>.\<close>

definition proof_made ::
  "crypto \<Rightarrow> bytes \<Rightarrow> bytes \<Rightarrow> bytes \<Rightarrow> bytes \<Rightarrow> u8 \<Rightarrow> proof_record \<Rightarrow> bool" where
  "proof_made C priv uid root t role pf \<longleftrightarrow>
     proof_ok pf \<and> pf_t pf = t \<and> pf_role pf = role \<and>
     pf_sig pf = k_ed_sign C priv (proof_message t role (pf_ct pf)) \<and>
     decrypt_data C (setup_key C root role) (replicate 12 0) (proof_aad t role) (pf_ct pf)
       (replicate 8 0) = (Inr 8, uid)"

lemma role_key: "(if role = ROLE_L then setup_key C root ROLE_L else setup_key C root ROLE_R) =
    setup_key C root role"
  by (simp add: setup_key_def ROLE_L_def ROLE_R_def)

lemma own_proof_made:
  assumes C: "crypto_sizes C" "aead_correct C" and a: "attempt C e p s x y"
  obtains pf where
    "proof_made C (en_sign_priv e) (en_uid e) (meeting_root C s x y) (transcript_of C x y)
       (role_for (o_ed_pub x) (o_ed_pub y)) pf"
    and "own_proof_record C e (transcript_of C x y) (role_for (o_ed_pub x) (o_ed_pub y)) =
       Inr (proof_bytes pf)"
proof -
  let ?t = "transcript_of C x y" and ?role = "role_for (o_ed_pub x) (o_ed_pub y)"
    and ?root = "meeting_root C s x y"
  have uid: "length (en_uid e) = 8" "en_uid_set e" using a by (simp_all add: attempt_def)
  then have "length (en_uid e) \<le> 255" by simp
  then obtain c where c: "length c = length (en_uid e) + 16"
    and enc: "\<And>out. length (en_uid e) + 16 \<le> length out \<Longrightarrow>
      encrypt_data C (setup_key C ?root ?role) (replicate 12 0) (proof_aad ?t ?role) (en_uid e) out =
        (Inr (length (en_uid e) + 16), c @ drop (length (en_uid e) + 16) out)"
    and dec: "\<And>out. length (en_uid e) \<le> length out \<Longrightarrow>
      decrypt_data C (setup_key C ?root ?role) (replicate 12 0) (proof_aad ?t ?role) c out =
        (Inr (length (en_uid e)), en_uid e @ drop (length (en_uid e)) out)"
    by (rule decrypt_encrypt [OF C(2)]) blast
  define pf where "pf = \<lparr> pf_t = ?t, pf_role = ?role, pf_ct = c,
    pf_sig = k_ed_sign C (en_sign_priv e) (proof_message ?t ?role c) \<rparr>"
  have ok: "proof_ok pf"
    using C c uid role_for_cases [of "o_ed_pub x" "o_ed_pub y"]
    by (simp add: pf_def proof_ok_def length_transcript_of crypto_sizesD)
  show thesis
  proof (rule that)
    show "proof_made C (en_sign_priv e) (en_uid e) ?root ?t ?role pf"
      using ok dec uid by (simp add: proof_made_def) (simp add: pf_def)
    have "encrypt_data C (setup_key C ?root ?role) (replicate 12 0) (proof_aad ?t ?role) (en_uid e)
        (replicate PROOF_CT_LEN 0) = (Inr 24, c)"
      using enc [of "replicate PROOF_CT_LEN 0"] uid by (simp add: PROOF_CT_LEN_def)
    moreover have "encode_proof pf (replicate PROOF_RECORD_LEN 0) = (Inr 122, proof_bytes pf)"
      using encode_proof_ok [OF ok] by (simp add: PROOF_RECORD_LEN_def)
    ultimately show "own_proof_record C e ?t ?role = Inr (proof_bytes pf)"
      using uid by (simp add: own_proof_record_def attempt_keys [OF a] Let_def role_key pf_def)
  qed
qed

lemma pair_proof_made:
  assumes "crypto_sizes C" "aead_correct C" and a: "attempt C e p s x y" and "pp_own_proof p = None"
  obtains pf where
    "proof_made C (en_sign_priv e) (en_uid e) (meeting_root C s x y) (transcript_of C x y)
       (role_for (o_ed_pub x) (o_ed_pub y)) pf"
    and "pair_proof C e = (Inr (proof_bytes pf),
       e\<lparr> en_pending := Some (p\<lparr> pp_own_proof := Some (proof_bytes pf) \<rparr>) \<rparr>)"
  by (rule own_proof_made [OF assms(1-3)]) (simp add: that pair_proof_def attempt_open [OF a] assms(4))

lemma proof_bytes_head [simp]: "proof_bytes pf \<noteq> []" "proof_bytes pf ! 0 = RECORD_PROOF"
  by (simp_all add: proof_bytes_def)

lemma decode_proof_bytes: "proof_ok pf \<Longrightarrow> decode_proof (proof_bytes pf) = Inr pf"
  using pc.dec_enc [of pf] by (cases "decode_proof (proof_bytes pf)") simp_all

lemma import_proof_made:
  assumes "sign_correct C" and a: "attempt C e p s x y"
    and pf: "proof_made C priv uid (meeting_root C s x y) (transcript_of C x y) role pf"
    and role: "role \<noteq> role_for (o_ed_pub x) (o_ed_pub y)" and "k_ed_public C priv = o_ed_pub y"
  shows "pair_import_sas C e (proof_bytes pf) rep sas =
    (Inr \<lparr> po_step = NeedConfirm, po_fingerprint = transcript_fingerprint (transcript_of C x y),
           po_contact_id = None \<rparr>,
     e\<lparr> en_pending := Some (p\<lparr> pp_peer_proof := Some (proof_bytes pf), pp_peer_identity := Some uid \<rparr>) \<rparr>)"
proof -
  have p: "en_pending e = Some p" "pp_transcript p = Some (transcript_of C x y)"
    "pp_own_role p = role_for (o_ed_pub x) (o_ed_pub y)" "pp_peer_offer p = Some (offer_payload_bytes y)"
    "offer_ok y" "\<not> is_expired (pp_start_mono_s p) (en_mono_s e)"
    "check_usable e = Inr ()" "require_radio_off e = Inr ()"
    using a by (simp_all add: attempt_def)
  have f: "pf_t pf = transcript_of C x y" "pf_role pf = role" "proof_ok pf"
    "pf_sig pf = k_ed_sign C priv (proof_message (transcript_of C x y) role (pf_ct pf))"
    using pf by (simp_all add: proof_made_def)
  have op: "open_peer_identity C e (transcript_of C x y) (pp_own_role p) role (pf_ct pf) = Inr uid"
    using pf by (simp add: open_peer_identity_def attempt_keys [OF a] Let_def role_key proof_made_def)
  have sg: "k_ed_key_ok C (o_ed_pub y)" "k_ed_verify C (o_ed_pub y) m (k_ed_sign C priv m)" for m
    using assms(1) unfolding sign_correct_def assms(5) [symmetric] by blast+
  have "import_proof_check C e (proof_bytes pf) = Inr (p, transcript_of C x y, uid)"
    using role p f sg op
    by (simp add: import_proof_check_def decode_proof_bytes decode_offer_payload_bytes Let_def)
  then show ?thesis
    using p by (simp add: pair_import_sas_def import_proof_def consts_defs)
qed

section \<open>Confirmations\<close>

text \<open>The confirmation that the side of role \<open>role\<close> makes over its own and the other's proof.\<close>

definition confirm_made :: "crypto \<Rightarrow> bytes \<Rightarrow> bytes \<Rightarrow> u8 \<Rightarrow> bytes \<Rightarrow> bytes \<Rightarrow> confirmation" where
  "confirm_made C root t role own peer =
     \<lparr> cf_t = t, cf_role = role, cf_mac = confirm_mac C root t role (proofs_digest C role own peer) \<rparr>"

text \<open>Both sides digest the proofs in the same order.\<close>

lemma proofs_digest_swap:
  "(role = ROLE_L) \<noteq> (role' = ROLE_L) \<Longrightarrow> proofs_digest C role' peer own = proofs_digest C role own peer"
  by (auto simp: proofs_digest_def)

lemma confirm_made_fields [simp]:
  "cf_t (confirm_made C root t role own peer) = t" "cf_role (confirm_made C root t role own peer) = role"
  "cf_mac (confirm_made C root t role own peer) =
    confirm_mac C root t role (proofs_digest C role own peer)"
  by (simp_all add: confirm_made_def)

lemma confirm_made_ok:
  "crypto_sizes C \<Longrightarrow> role \<in> {ROLE_L, ROLE_R} \<Longrightarrow>
   confirmation_ok (confirm_made C root (transcript_of C x y) role own peer)"
  by (simp add: confirmation_ok_def confirm_mac_def length_transcript_of crypto_sizesD(1))

lemma confirmation_bytes_head [simp]:
  "confirmation_bytes c \<noteq> []" "confirmation_bytes c ! 0 = RECORD_CONFIRM"
  by (simp_all add: confirmation_bytes_def)

lemma decode_confirmation_bytes: "confirmation_ok c \<Longrightarrow> decode_confirmation (confirmation_bytes c) = Inr c"
  using cc.dec_enc [of c] by (cases "decode_confirmation (confirmation_bytes c)") simp_all

lemma pair_confirm_made:
  assumes C: "crypto_sizes C" and a: "attempt C e p s x y" and "pp_own_confirm p = None"
    and "pp_own_proof p = Some own" and "pp_peer_proof p = Some peer"
  defines "rec \<equiv> confirmation_bytes (confirm_made C (meeting_root C s x y) (transcript_of C x y)
    (role_for (o_ed_pub x) (o_ed_pub y)) own peer)"
  shows "pair_confirm C e = (Inr rec, e\<lparr> en_pending := Some (p\<lparr> pp_own_confirm := Some rec \<rparr>) \<rparr>)"
proof -
  have "encode_confirmation (confirm_made C (meeting_root C s x y) (transcript_of C x y)
      (role_for (o_ed_pub x) (o_ed_pub y)) own peer) (replicate CONFIRM_RECORD_LEN 0) = (Inr 66, rec)"
    unfolding rec_def
    by (subst encode_confirmation_ok [OF confirm_made_ok [OF C role_for_cases]])
      (simp_all add: CONFIRM_RECORD_LEN_def)
  then have "own_confirm_record C e p (transcript_of C x y) (role_for (o_ed_pub x) (o_ed_pub y)) = Inr rec"
    using assms(4,5) by (simp add: own_confirm_record_def attempt_keys [OF a] Let_def confirm_made_def)
  then show ?thesis
    using assms(3-5) by (simp add: pair_confirm_def attempt_open [OF a])
qed

lemma import_confirm_made:
  assumes C: "crypto_sizes C" and a: "attempt C e p s x y"
    and role: "role \<in> {ROLE_L, ROLE_R}" "role \<noteq> role_for (o_ed_pub x) (o_ed_pub y)"
    and own: "pp_own_proof p = Some own" and peer: "pp_peer_proof p = Some (proof_bytes pf)"
    and id: "pp_peer_identity p = Some uid"
    and pf: "proof_made C priv uid (meeting_root C s x y) (transcript_of C x y) role pf"
  shows "pair_import_sas C e (confirmation_bytes (confirm_made C (meeting_root C s x y)
      (transcript_of C x y) role (proof_bytes pf) own)) rep True =
    (Inr \<lparr> po_step = Active, po_fingerprint = transcript_fingerprint (transcript_of C x y),
           po_contact_id = Some (of_nat (pp_slot p + 1)) \<rparr>,
     stage_persist (StPairActivate (pp_slot p)) (upd_contact (pp_slot p)
       (\<lambda>_. activated C e (o_ed_pub y) uid (meeting_root C s x y)
         (role_for (o_ed_pub x) (o_ed_pub y))) e))"
proof -
  let ?t = "transcript_of C x y" and ?r = "role_for (o_ed_pub x) (o_ed_pub y)"
    and ?root = "meeting_root C s x y"
  have p: "en_pending e = Some p" "pp_transcript p = Some ?t" "pp_own_role p = ?r"
    "pp_peer_offer p = Some (offer_payload_bytes y)" "offer_ok y" "pp_slot p < MAX_CONTACTS"
    "\<not> is_expired (pp_start_mono_s p) (en_mono_s e)"
    "check_usable e = Inr ()" "require_radio_off e = Inr ()"
    using a by (simp_all add: attempt_def)
  have "(?r = ROLE_L) \<noteq> (role = ROLE_L)"
    using role role_for_cases [of "o_ed_pub x" "o_ed_pub y"] by auto
  then have dg: "proofs_digest C ?r own (proof_bytes pf) = proofs_digest C role (proof_bytes pf) own"
    by (intro proofs_digest_swap) auto
  have op: "open_peer_identity C e ?t ?r role (pf_ct pf) = Inr uid"
    using pf by (simp add: open_peer_identity_def attempt_keys [OF a] Let_def role_key proof_made_def)
  have "import_confirm_check C e (confirmation_bytes (confirm_made C ?root ?t role (proof_bytes pf) own)) =
      Inr (p, ?t, o_ed_pub y, uid, ?root)"
    using role p own peer id op pf
    by (simp add: import_confirm_check_def decode_confirmation_bytes [OF confirm_made_ok [OF C role(1)]]
        attempt_keys(1) [OF a] dg decode_proof_bytes decode_offer_payload_bytes
        proof_made_def Let_def)
  then show ?thesis
    using p by (simp add: pair_import_sas_def import_confirm_def consts_defs
        activate_contact_eq [OF p(6)])
qed

section \<open>Offers\<close>

definition own_offer :: "crypto \<Rightarrow> engine \<Rightarrow> bytes \<Rightarrow> bytes \<Rightarrow> offer" where
  "own_offer C e s ch =
     \<lparr> o_ed_pub = k_ed_public C (en_sign_priv e), o_eph_pub = k_x_public C s, o_challenge = ch \<rparr>"

text \<open>An engine that can start a ceremony with the peer whose signing key is \<open>ed\<close>, using the
  ephemeral secret \<open>s\<close> and the challenge \<open>ch\<close>.\<close>

definition can_pair :: "crypto \<Rightarrow> engine \<Rightarrow> bytes \<Rightarrow> bytes \<Rightarrow> nat \<Rightarrow> bytes \<Rightarrow> bool" where
  "can_pair C e s ch slot ed \<longleftrightarrow>
     settled C e \<and> \<not> en_fault e \<and> en_provisioned e \<and> \<not> en_radio_on e \<and> en_sign_set e \<and> en_uid_set e \<and>
     en_pending e = None \<and> free_slot e = Some slot \<and>
     length (k_x_public C s) = 32 \<and> k_x_public C s \<noteq> replicate 32 0 \<and> length ch = 32 \<and>
     ed \<noteq> k_ed_public C (en_sign_priv e) \<and>
     (\<forall>c \<in> set (en_contacts e). c_present c \<longrightarrow> c_ed_peer c \<noteq> ed)"

definition offered :: "crypto \<Rightarrow> engine \<Rightarrow> bytes \<Rightarrow> bytes \<Rightarrow> nat \<Rightarrow> pending_pair" where
  "offered C e s ch slot =
     \<lparr> pp_own_offer = offer_payload_bytes (own_offer C e s ch), pp_own_eph_priv = s,
       pp_peer_offer = None, pp_peer_identity = None, pp_transcript = None, pp_own_role = ROLE_L,
       pp_own_proof = None, pp_peer_proof = None, pp_own_confirm = None,
       pp_start_mono_s = en_mono_s e, pp_slot = slot, pp_replace = False \<rparr>"

definition paired :: "crypto \<Rightarrow> offer \<Rightarrow> offer \<Rightarrow> pending_pair \<Rightarrow> pending_pair" where
  "paired C x y p = p\<lparr> pp_peer_offer := Some (offer_payload_bytes y),
     pp_transcript := Some (transcript_of C x y),
     pp_own_role := role_for (o_ed_pub x) (o_ed_pub y) \<rparr>"

lemma own_offer_ok: "crypto_sizes C \<Longrightarrow> can_pair C e s ch slot ed \<Longrightarrow> offer_ok (own_offer C e s ch)"
  by (simp add: own_offer_def offer_ok_def can_pair_def crypto_sizesD)

lemma offer_record_of_bytes:
  "offer_ok x \<Longrightarrow> offer_record_of (offer_payload_bytes x) = offer_bytes x"
  by (simp add: offer_record_of_def offer_bytes_def put_at_def length_offer_payload consts_defs)

lemma decode_offer_bytes: "offer_ok x \<Longrightarrow> decode_offer_record (offer_bytes x) = Inr x"
  using oc.dec_enc [of x] by (cases "decode_offer_record (offer_bytes x)") simp_all

lemma pair_offer_made:
  assumes C: "crypto_sizes C" and c: "can_pair C e s ch slot ed"
  shows "pair_offer C e s (k_x_public C s) ch =
    (Inr (offer_bytes (own_offer C e s ch)), e\<lparr> en_pending := Some (offered C e s ch slot) \<rparr>)"
proof -
  have x: "offer_ok (own_offer C e s ch)" using own_offer_ok [OF C c] .
  have "pair_offer_payload C e (k_x_public C s) ch = Inr (offer_payload_bytes (own_offer C e s ch), slot)"
    using c encode_offer_payload_new [OF x]
    by (simp add: pair_offer_payload_def can_pair_def ed_pubkey_def own_offer_def Let_def)
  then show ?thesis
    using c offer_record_of_bytes [OF x]
    by (simp add: pair_offer_def pair_offer_fresh_def can_pair_def check_usable_def require_radio_off_def
        offered_def)
qed

lemma import_offer_check_made:
  assumes "en_pending e = Some p" and x: "offer_ok x" and y: "offer_ok y"
    and "pp_own_offer p = offer_payload_bytes x" and "o_ed_pub x \<noteq> o_ed_pub y"
    and "\<forall>c \<in> set (en_contacts e). c_present c \<longrightarrow> c_ed_peer c \<noteq> o_ed_pub y"
    and "free_slot e = Some slot"
  shows "import_offer_check C e (offer_bytes y) False =
    Inr ((paired C x y p)\<lparr> pp_slot := slot, pp_replace := False \<rparr>, transcript_of C x y)"
proof -
  have ed: "bslice 1 33 (offer_payload_bytes x) = o_ed_pub x" "bslice 1 33 (offer_payload_bytes y) = o_ed_pub y"
    using x y by (simp_all only: offer_payload_ed)
  have tr: "transcript_of C x y = (if o_ed_pub x \<le> o_ed_pub y
      then transcript_t C (offer_payload_bytes x) (offer_payload_bytes y)
      else transcript_t C (offer_payload_bytes y) (offer_payload_bytes x))"
    unfolding transcript_of_def order_offers_def ed by simp
  have nd: "\<not> (\<exists>c \<in> set (en_contacts e). c_present c \<and> c_ed_peer c = o_ed_pub y)"
    using assms(6) by blast
  show ?thesis
    unfolding import_offer_check_def decode_offer_bytes [OF y] assms(1,4,7) map_err.simps ok_or.simps
      rbind.simps decode_offer_payload_bytes [OF x] encode_offer_payload_new [OF y] nd Let_def ed
    by (simp add: check_not_self_def assms(5) nd paired_def tr ed [unfolded One_nat_def]
        del: rbind_Inr map_err_Inr ok_or_Inr)
qed

lemma import_offer_made:
  assumes C: "crypto_sizes C" and c: "can_pair C e s ch slot (o_ed_pub y)" and y: "offer_ok y"
  defines "p \<equiv> paired C (own_offer C e s ch) y (offered C e s ch slot)"
  shows "pair_import_sas C (e\<lparr> en_pending := Some (offered C e s ch slot) \<rparr>) (offer_bytes y) False sas =
    (Inr \<lparr> po_step = NeedProof,
           po_fingerprint = transcript_fingerprint (transcript_of C (own_offer C e s ch) y),
           po_contact_id = None \<rparr>, e\<lparr> en_pending := Some p \<rparr>)"
proof -
  let ?x = "own_offer C e s ch" and ?q = "offered C e s ch slot"
  have "import_offer_check C (e\<lparr> en_pending := Some ?q \<rparr>) (offer_bytes y) False =
      Inr ((paired C ?x y ?q)\<lparr> pp_slot := slot, pp_replace := False \<rparr>, transcript_of C ?x y)"
    using c own_offer_ok [OF C c] y
    by (intro import_offer_check_made) (auto simp: offered_def can_pair_def own_offer_def free_slot_def)
  moreover have "(paired C ?x y ?q)\<lparr> pp_slot := slot, pp_replace := False \<rparr> = p"
    by (simp add: p_def paired_def offered_def)
  ultimately show ?thesis
    using c by (simp add: pair_import_sas_def import_offer_def can_pair_def check_usable_def
        require_radio_off_def offer_bytes_def is_expired_def consts_defs saturating_sub_def offered_def)
qed

section \<open>The ceremony\<close>

definition completed :: "'a eresult \<times> engine \<Rightarrow> ('a \<times> engine) option" where
  "completed r = (case r of (Inl _, _) \<Rightarrow> None | (Inr x, e) \<Rightarrow> Some (x, e))"

lemma completed_Inr [simp]: "completed (Inr x, e) = Some (x, e)"
  by (simp add: completed_def)

text \<open>The order in which the operators carry the records between two nodes: offers, proofs,
  confirmations, and on the last import the word of the operators that the fingerprints agree.
  Any refusal ends the ceremony. The result is the fingerprint and the last answer of each side,
  and the two engines once what they staged is saved.\<close>

definition ceremony ::
  "crypto \<Rightarrow> engine \<Rightarrow> bytes \<Rightarrow> bytes \<Rightarrow> engine \<Rightarrow> bytes \<Rightarrow> bytes \<Rightarrow>
   ((bytes \<times> pair_import_outcome \<times> engine) \<times> (bytes \<times> pair_import_outcome \<times> engine)) option" where
  "ceremony C a sa ca b sb cb = do {
     (offer_a, a) \<leftarrow> completed (pair_offer C a sa (k_x_public C sa) ca);
     (offer_b, b) \<leftarrow> completed (pair_offer C b sb (k_x_public C sb) cb);
     (shown_a, a) \<leftarrow> completed (pair_import_sas C a offer_b False False);
     (shown_b, b) \<leftarrow> completed (pair_import_sas C b offer_a False False);
     (proof_a, a) \<leftarrow> completed (pair_proof C a);
     (proof_b, b) \<leftarrow> completed (pair_proof C b);
     (_, a) \<leftarrow> completed (pair_import_sas C a proof_b False False);
     (_, b) \<leftarrow> completed (pair_import_sas C b proof_a False False);
     (confirm_a, a) \<leftarrow> completed (pair_confirm C a);
     (confirm_b, b) \<leftarrow> completed (pair_confirm C b);
     (end_a, a) \<leftarrow> completed (pair_import_sas C a confirm_b False True);
     (end_b, b) \<leftarrow> completed (pair_import_sas C b confirm_a False True);
     Some ((po_fingerprint shown_a, end_a, commit_ok a), (po_fingerprint shown_b, end_b, commit_ok b))
   }"

lemma attempt_paired:
  assumes "crypto_sizes C" and "can_pair C e s ch slot (o_ed_pub y)" and "offer_ok y"
    and "k_x25519 C s (o_eph_pub y) \<noteq> replicate 32 0"
  defines "p \<equiv> paired C (own_offer C e s ch) y (offered C e s ch slot)"
  shows "attempt C (e\<lparr> en_pending := Some p \<rparr>) p s (own_offer C e s ch) y"
proof -
  have "slot < MAX_CONTACTS" "length (en_uid e) = 8"
    using assms(2) free_slot_Some [of C e slot]
    by (auto simp: can_pair_def settled_def core_inv_def sizes_ok_def)
  then show ?thesis
    using assms(2-4) own_offer_ok [OF assms(1,2)]
    by (auto simp: attempt_def can_pair_def check_usable_def require_radio_off_def p_def paired_def
        offered_def is_expired_def PAIRING_EXPIRY_SECS_def saturating_sub_def own_offer_def)
qed

lemma meeting_root_swap:
  assumes "dh_commutes C" and "offer_ok x" and "offer_ok y" and "o_ed_pub x \<noteq> o_ed_pub y"
    and "o_eph_pub x = k_x_public C s" and "o_eph_pub y = k_x_public C s'"
  shows "meeting_root C s' y x = meeting_root C s x y"
  using assms transcript_of_swap [OF assms(2-4)] by (simp add: meeting_root_def dh_commutes_def)

text \<open>A ceremony does not touch the clock, the identity or a send in progress.\<close>

definition unmoved :: "engine \<Rightarrow> engine \<Rightarrow> bool" where
  "unmoved e e' \<longleftrightarrow> en_uid e' = en_uid e \<and> en_time_valid e' = en_time_valid e \<and>
     en_unix_seconds e' = en_unix_seconds e \<and> en_fault e' = en_fault e \<and>
     en_provisioned e' = en_provisioned e \<and> en_pending_send e' = en_pending_send e"

lemma commit_activation [simp]:
  "en_contacts (commit_ok (stage_persist (StPairActivate i) e)) = en_contacts e"
  "unmoved e0 (commit_ok (stage_persist (StPairActivate i) (upd_contact k f (e\<lparr> en_pending := p \<rparr>)))) = unmoved e0 e"
  by (simp_all add: commit_ok_def stage_persist_def Let_def unmoved_def split: prod.split)

lemma unmoved_refl [simp]: "unmoved e e"
  by (simp add: unmoved_def)

lemma unmoved_epoch: "unmoved e e' \<Longrightarrow> Engine_epoch e' = Engine_epoch e"
  by (simp add: unmoved_def Engine_epoch_def)

text \<open>What one side does once both proofs exist: the state after each step, and the contact it
  ends with.\<close>

lemma side_completes:
  fixes pf :: proof_record
  assumes C: "crypto_sizes C" "sign_correct C" and a: "attempt C (e\<lparr> en_pending := Some p \<rparr>) p s x y"
    and fresh: "pp_own_confirm p = None"
    and peer: "proof_made C priv uid (meeting_root C s x y) (transcript_of C x y) role pf'"
    and role: "role \<in> {ROLE_L, ROLE_R}" "role \<noteq> role_for (o_ed_pub x) (o_ed_pub y)"
    and priv: "k_ed_public C priv = o_ed_pub y"
  defines "own \<equiv> p\<lparr> pp_own_proof := Some (proof_bytes pf) \<rparr>"
  defines "both \<equiv> own\<lparr> pp_peer_proof := Some (proof_bytes pf'), pp_peer_identity := Some uid \<rparr>"
  defines "conf \<equiv> \<lambda>r pf pf'. confirmation_bytes (confirm_made C (meeting_root C s x y) (transcript_of C x y) r
    (proof_bytes pf) (proof_bytes pf'))"
  defines "rec \<equiv> conf (role_for (o_ed_pub x) (o_ed_pub y)) pf pf'"
  defines "fin \<equiv> both\<lparr> pp_own_confirm := Some rec \<rparr>"
  shows "pair_import_sas C (e\<lparr> en_pending := Some own \<rparr>) (proof_bytes pf') rep sas =
      (Inr \<lparr> po_step = NeedConfirm, po_fingerprint = transcript_fingerprint (transcript_of C x y),
             po_contact_id = None \<rparr>, e\<lparr> en_pending := Some both \<rparr>)"
    and "pair_confirm C (e\<lparr> en_pending := Some both \<rparr>) = (Inr rec, e\<lparr> en_pending := Some fin \<rparr>)"
    and "pair_import_sas C (e\<lparr> en_pending := Some fin \<rparr>) (conf role pf' pf) rep True =
      (Inr \<lparr> po_step = Active, po_fingerprint = transcript_fingerprint (transcript_of C x y),
             po_contact_id = Some (of_nat (pp_slot p + 1)) \<rparr>,
       stage_persist (StPairActivate (pp_slot p)) (upd_contact (pp_slot p)
         (\<lambda>_. activated C e (o_ed_pub y) uid (meeting_root C s x y)
           (role_for (o_ed_pub x) (o_ed_pub y))) (e\<lparr> en_pending := Some fin \<rparr>)))"
proof -
  have a1: "attempt C (e\<lparr> en_pending := Some own \<rparr>) own s x y"
    using attempt_records(1) [OF a] by (simp add: own_def)
  have a2: "attempt C (e\<lparr> en_pending := Some both \<rparr>) both s x y"
    using attempt_records(3) [OF a1] by (simp add: both_def)
  have a3: "attempt C (e\<lparr> en_pending := Some fin \<rparr>) fin s x y"
    using attempt_records(2) [OF a2] by (simp add: fin_def)
  show "pair_import_sas C (e\<lparr> en_pending := Some own \<rparr>) (proof_bytes pf') rep sas =
      (Inr \<lparr> po_step = NeedConfirm, po_fingerprint = transcript_fingerprint (transcript_of C x y),
             po_contact_id = None \<rparr>, e\<lparr> en_pending := Some both \<rparr>)"
    using import_proof_made [OF C(2) a1 peer role(2) priv, of rep sas] by (simp add: both_def)
  show "pair_confirm C (e\<lparr> en_pending := Some both \<rparr>) = (Inr rec, e\<lparr> en_pending := Some fin \<rparr>)"
    using pair_confirm_made [OF C(1) a2, of "proof_bytes pf" "proof_bytes pf'"] fresh
    by (simp add: fin_def rec_def conf_def) (simp add: both_def own_def)
  have "activated C (e\<lparr> en_pending := q \<rparr>) = activated C e" for q
    by (intro ext) (simp add: activated_def Engine_epoch_def)
  then show "pair_import_sas C (e\<lparr> en_pending := Some fin \<rparr>) (conf role pf' pf) rep True =
      (Inr \<lparr> po_step = Active, po_fingerprint = transcript_fingerprint (transcript_of C x y),
             po_contact_id = Some (of_nat (pp_slot p + 1)) \<rparr>,
       stage_persist (StPairActivate (pp_slot p)) (upd_contact (pp_slot p)
         (\<lambda>_. activated C e (o_ed_pub y) uid (meeting_root C s x y)
           (role_for (o_ed_pub x) (o_ed_pub y))) (e\<lparr> en_pending := Some fin \<rparr>)))"
    using import_confirm_made [OF C(1) a3 role, of "proof_bytes pf" pf' uid priv rep] peer
    by (simp add: conf_def) (simp add: fin_def both_def own_def)
qed

text \<open>The whole ceremony, step by step.\<close>

lemma ceremony_completes:
  assumes C: "crypto_sizes C" "aead_correct C" "sign_correct C" "dh_commutes C"
    and a: "can_pair C a sa ca i (k_ed_public C (en_sign_priv b))"
    and b: "can_pair C b sb cb j (k_ed_public C (en_sign_priv a))"
    and dh: "k_x25519 C sa (k_x_public C sb) \<noteq> replicate 32 0"
  defines "x \<equiv> own_offer C a sa ca"
  defines "y \<equiv> own_offer C b sb cb"
  defines "fp \<equiv> transcript_fingerprint (transcript_of C x y)"
  obtains a' b' where
    "ceremony C a sa ca b sb cb =
      Some ((fp, \<lparr> po_step = Active, po_fingerprint = fp, po_contact_id = Some (of_nat (i + 1)) \<rparr>, a'),
            (fp, \<lparr> po_step = Active, po_fingerprint = fp, po_contact_id = Some (of_nat (j + 1)) \<rparr>, b'))"
    and "en_contacts a' = (en_contacts a)[i := activated C a (o_ed_pub y) (en_uid b) (meeting_root C sa x y)
           (role_for (o_ed_pub x) (o_ed_pub y))]"
    and "en_contacts b' = (en_contacts b)[j := activated C b (o_ed_pub x) (en_uid a) (meeting_root C sa x y)
           (role_for (o_ed_pub y) (o_ed_pub x))]"
    and "unmoved a a'" and "unmoved b b'"
proof -
  have ea: "o_ed_pub x = k_ed_public C (en_sign_priv a)" "o_eph_pub x = k_x_public C sa"
    and eb: "o_ed_pub y = k_ed_public C (en_sign_priv b)" "o_eph_pub y = k_x_public C sb"
    by (simp_all add: x_def y_def own_offer_def)
  have ok: "offer_ok x" "offer_ok y"
    using own_offer_ok [OF C(1) a] own_offer_ok [OF C(1) b] by (simp_all add: x_def y_def)
  have ne: "o_ed_pub x \<noteq> o_ed_pub y" using a by (auto simp: can_pair_def ea eb)
  have tr: "transcript_of C y x = transcript_of C x y" by (rule transcript_of_swap [OF ok ne])
  have rt: "meeting_root C sb y x = meeting_root C sa x y"
    by (rule meeting_root_swap [OF C(4) ok ne ea(2) eb(2)])
  define p where "p = paired C x y (offered C a sa ca i)"
  define q where "q = paired C y x (offered C b sb cb j)"
  have dh': "k_x25519 C sb (k_x_public C sa) \<noteq> replicate 32 0"
    using dh C(4) by (simp add: dh_commutes_def)
  have ata: "attempt C (a\<lparr> en_pending := Some p \<rparr>) p sa x y"
    using attempt_paired [OF C(1), of a sa ca i y] a ok(2) dh by (simp add: p_def x_def eb)
  have atb: "attempt C (b\<lparr> en_pending := Some q \<rparr>) q sb y x"
    using attempt_paired [OF C(1), of b sb cb j x] b ok(1) dh' by (simp add: q_def y_def ea)
  obtain pa where pa: "proof_made C (en_sign_priv a) (en_uid a) (meeting_root C sa x y)
       (transcript_of C x y) (role_for (o_ed_pub x) (o_ed_pub y)) pa"
    and fa: "pair_proof C (a\<lparr> en_pending := Some p \<rparr>) = (Inr (proof_bytes pa),
       a\<lparr> en_pending := Some (p\<lparr> pp_own_proof := Some (proof_bytes pa) \<rparr>) \<rparr>)"
    using pair_proof_made [OF C(1,2) ata] by (auto simp: p_def paired_def offered_def)
  obtain pb where pb: "proof_made C (en_sign_priv b) (en_uid b) (meeting_root C sb y x)
       (transcript_of C y x) (role_for (o_ed_pub y) (o_ed_pub x)) pb"
    and fb: "pair_proof C (b\<lparr> en_pending := Some q \<rparr>) = (Inr (proof_bytes pb),
       b\<lparr> en_pending := Some (q\<lparr> pp_own_proof := Some (proof_bytes pb) \<rparr>) \<rparr>)"
    using pair_proof_made [OF C(1,2) atb] by (auto simp: q_def paired_def offered_def)
  have nr: "role_for (o_ed_pub y) (o_ed_pub x) \<noteq> role_for (o_ed_pub x) (o_ed_pub y)"
    using ne by (auto simp: role_for_def ROLE_L_def ROLE_R_def)
  have none: "pp_own_confirm p = None" "pp_own_confirm q = None" "pp_slot p = i" "pp_slot q = j"
    by (simp_all add: p_def q_def paired_def offered_def)
  note A = side_completes [OF C(1,3) ata none(1) pb [unfolded tr rt] role_for_cases nr eb(1) [symmetric],
      where pf = pa, simplified none tr rt]
  note B = side_completes [OF C(1,3) atb none(2) pa [folded tr rt] role_for_cases nr [symmetric] ea(1) [symmetric],
      where pf = pb, simplified none tr rt]
  note O = pair_offer_made [OF C(1) a] pair_offer_made [OF C(1) b]
  have I: "pair_import_sas C (a\<lparr> en_pending := Some (offered C a sa ca i) \<rparr>) (offer_bytes y) False False =
      (Inr \<lparr> po_step = NeedProof, po_fingerprint = fp, po_contact_id = None \<rparr>, a\<lparr> en_pending := Some p \<rparr>)"
    "pair_import_sas C (b\<lparr> en_pending := Some (offered C b sb cb j) \<rparr>) (offer_bytes x) False False =
      (Inr \<lparr> po_step = NeedProof, po_fingerprint = fp, po_contact_id = None \<rparr>, b\<lparr> en_pending := Some q \<rparr>)"
    using import_offer_made [OF C(1), of a sa ca i y False] import_offer_made [OF C(1), of b sb cb j x False]
      a b ok ea eb tr
    by (simp_all add: x_def [symmetric] y_def [symmetric] p_def q_def fp_def)
  have "\<exists>a' b'. ceremony C a sa ca b sb cb =
      Some ((fp, \<lparr> po_step = Active, po_fingerprint = fp, po_contact_id = Some (of_nat (i + 1)) \<rparr>, a'),
            (fp, \<lparr> po_step = Active, po_fingerprint = fp, po_contact_id = Some (of_nat (j + 1)) \<rparr>, b')) \<and>
    en_contacts a' = (en_contacts a)[i := activated C a (o_ed_pub y) (en_uid b) (meeting_root C sa x y)
           (role_for (o_ed_pub x) (o_ed_pub y))] \<and>
    en_contacts b' = (en_contacts b)[j := activated C b (o_ed_pub x) (en_uid a) (meeting_root C sa x y)
           (role_for (o_ed_pub y) (o_ed_pub x))] \<and> unmoved a a' \<and> unmoved b b'"
    by (simp only: ceremony_def O x_def [symmetric] y_def [symmetric] completed_Inr bind.simps
        prod.case I fa fb A B pair_import_outcome.select_convs fp_def [symmetric])
      (simp, simp add: upd_contact_def)
  then show thesis using that by blast
qed

section \<open>Every state on the way is settled\<close>

lemma completed_eq_Some [simp]: "completed r = Some (x, e) \<longleftrightarrow> r = (Inr x, e)"
  by (auto simp: completed_def split: prod.split sum.split)

lemma import_step_settled:
  assumes "settled C e" and "pair_import_sas C e record rep sas = (Inr out, e')" and "po_step out \<noteq> Active"
  shows "settled C e'"
  using assms settled_pending import_offer_ok [OF assms(1), of "record" rep] import_proof_ok [OF assms(1), of "record"]
  by (auto simp: pair_import_sas_def import_confirm_def split: sum.splits if_splits prod.splits)

lemma import_step_unconfirmed:
  assumes "settled C e" and "pair_import_sas C e record rep False = (Inr out, e')"
  shows "settled C e'"
proof (rule import_step_settled [OF assms])
  show "po_step out \<noteq> Active"
    using assms(2) by (auto simp: pair_import_sas_def import_offer_def import_proof_def
        split: sum.splits if_splits prod.splits)
qed

text \<open>The last import on the first node starts from a settled engine.\<close>

lemma ceremony_last_import:
  assumes C: "crypto_sizes C" and "settled C a" and "length (k_x_public C sa) = 32" and "length ca = 32"
    and cer: "ceremony C a sa ca b sb cb = Some ((f, out, a'), r)"
  obtains e rec e' where "settled C e" and "pair_import_sas C e rec False True = (Inr out, e')"
    and "a' = commit_ok e'"
proof -
  from cer obtain oa a1 ob b1 sh a2 pf a3 pf' b3 x a4 cf a5 cf' a6
    where "pair_offer C a sa (k_x_public C sa) ca = (Inr oa, a1)"
      and "pair_import_sas C a1 ob False False = (Inr sh, a2)" and "pair_proof C a2 = (Inr pf, a3)"
      and "pair_import_sas C a3 pf' False False = (Inr x, a4)" and "pair_confirm C a4 = (Inr cf, a5)"
      and last: "pair_import_sas C a5 cf' False True = (Inr out, a6)" "a' = commit_ok a6"
    by (simp add: ceremony_def bind_eq_Some_conv split_paired_Ex) blast
  moreover from this have "settled C a1" using pair_offer_ok [OF C assms(2-4), of sa] by simp
  ultimately have "settled C a2" by (blast intro: import_step_unconfirmed)
  then have "settled C a3" using \<open>pair_proof C a2 = _\<close> pair_proof_ok [of C a2] by simp
  then have "settled C a4" using \<open>pair_import_sas C a3 _ _ _ = _\<close> by (blast intro: import_step_unconfirmed)
  then have "settled C a5" using \<open>pair_confirm C a4 = _\<close> pair_confirm_ok [of C a4] by simp
  from that [OF this last] show thesis .
qed

lemma paired_settled:
  assumes "crypto_sizes C" and "can_pair C e s ch slot (o_ed_pub y)" and "offer_ok y"
  shows "settled C (e\<lparr> en_pending := Some (paired C (own_offer C e s ch) y (offered C e s ch slot)) \<rparr>)"
proof -
  have s: "settled C e" and l: "length (k_x_public C s) = 32" "length ch = 32"
    using assms(2) by (simp_all add: can_pair_def)
  have "settled C (e\<lparr> en_pending := Some (offered C e s ch slot) \<rparr>)"
    using pair_offer_ok [OF assms(1) s l, of s] pair_offer_made [OF assms(1,2)] by simp
  from import_step_settled [OF this import_offer_made [OF assms, of True]] show ?thesis by simp
qed

text \<open>What an offer import leaves of the attempt.\<close>

lemma import_step_NeedProof:
  assumes "pair_import_sas C e record rep sas = (Inr out, e')" and "po_step out = NeedProof"
    and "en_pending e = Some p"
  obtains q t where "import_offer_check C e record rep = Inr (q, t)" and "e' = e\<lparr> en_pending := Some q \<rparr>"
    and "check_usable e = Inr ()" and "require_radio_off e = Inr ()"
    and "\<not> is_expired (pp_start_mono_s p) (en_mono_s e)"
  using assms
  by (auto simp: pair_import_sas_def import_offer_def import_proof_def import_confirm_def
      split: sum.splits if_splits prod.splits)

section \<open>Two nodes to pair\<close>

text \<open>For the witnesses: new nodes with an identity and a signing key, saved.\<close>

definition new_node :: "u8 \<Rightarrow> engine" where
  "new_node k = commit_ok (snd (provision
     (commit_ok (set_identity (Engine_new True) (replicate 8 k))) 1 (replicate 32 k)))"

lemma settled_new: "settled C (Engine_new b)"
  using Engine_new_inv [of C b] by (simp add: settled_def) (simp add: Engine_new_def)

lemma committed_settled: "op_ok C e \<Longrightarrow> en_persist_dirty e \<Longrightarrow> settled C (commit_ok e)"
  by (intro commit_settled) (auto simp: op_ok_def settled_def)

lemma new_node_state:
  "settled C (new_node k) \<and> \<not> en_fault (new_node k) \<and> en_provisioned (new_node k) \<and>
   \<not> en_radio_on (new_node k) \<and> en_sign_set (new_node k) \<and> en_uid_set (new_node k) \<and>
   en_pending (new_node k) = None \<and> en_contacts (new_node k) = replicate MAX_CONTACTS Contact_empty \<and>
   en_sign_priv (new_node k) = replicate 32 k \<and> en_uid (new_node k) = replicate 8 k"
proof -
  let ?i = "set_identity (Engine_new True) (replicate 8 k)"
  let ?p = "snd (provision (commit_ok ?i) 1 (replicate 32 k))"
  have i: "en_persist_dirty ?i" "\<not> en_fault (commit_ok ?i)" "\<not> en_provisioned (commit_ok ?i)"
    "en_contacts (commit_ok ?i) = replicate MAX_CONTACTS Contact_empty" "en_uid (commit_ok ?i) = replicate 8 k"
    "en_uid_set (commit_ok ?i)" "\<not> en_radio_on (commit_ok ?i)" "en_pending (commit_ok ?i) = None"
    by (simp_all add: set_identity_def stage_persist_def commit_ok_def Engine_new_def Let_def split: prod.split)
  have si: "settled C (commit_ok ?i)"
    by (intro committed_settled set_identity_ok settled_new i) simp
  have p: "en_persist_dirty ?p"
    using i by (simp add: provision_def stage_persist_def Let_def split: prod.split)
  have "settled C (new_node k)"
    unfolding new_node_def using provision_ok [OF si] p by (intro committed_settled) simp_all
  moreover have "en_contacts (new_node k) = en_contacts (commit_ok ?i)" "\<not> en_fault (new_node k)"
    "en_provisioned (new_node k)" "\<not> en_radio_on (new_node k)" "en_sign_set (new_node k)"
    "en_uid_set (new_node k)" "en_pending (new_node k) = None"
    "en_sign_priv (new_node k) = replicate 32 k" "en_uid (new_node k) = replicate 8 k"
    using i by (simp_all add: new_node_def provision_def stage_persist_def commit_ok_def Let_def split: prod.split)
  ultimately show ?thesis using i by simp
qed

lemma free_slot_new: "free_slot (new_node k) = Some 0"
proof -
  have "replicate MAX_CONTACTS Contact_empty = Contact_empty # replicate 15 Contact_empty"
    by (simp add: MAX_CONTACTS_def numeral_eq_Suc)
  then show ?thesis using new_node_state [of undefined k] by (simp add: free_slot_def)
qed

lemma new_nodes_can_pair:
  assumes "k \<noteq> l" and "s \<noteq> 0"
  shows "can_pair demo_crypto (new_node k) (replicate 32 s) (replicate 32 7) 0
    (k_ed_public demo_crypto (en_sign_priv (new_node l)))"
proof -
  have "demo_pad 32 (replicate 32 k) = replicate 32 k" for k
    by (simp add: demo_pad_def)
  with assms show ?thesis
    using new_node_state [of demo_crypto k] new_node_state [of demo_crypto l] free_slot_new [of k]
    by (simp add: can_pair_def demo_crypto_def)
qed

lemma demo_meeting: "k_x25519 demo_crypto (replicate 32 5) (k_x_public demo_crypto (replicate 32 6)) \<noteq> replicate 32 0"
  by (simp add: demo_crypto_def demo_pad_def)

lemma demo_activation:
  obtains e rec out e' where "settled demo_crypto e"
    and "pair_import_sas demo_crypto e rec False True = (Inr out, e')" and "po_step out = Active"
proof -
  have l: "length (k_x_public demo_crypto (replicate 32 5)) = 32" by (simp add: demo_crypto_def)
  have s: "settled demo_crypto (new_node 1)" using new_node_state by blast
  have p: "can_pair demo_crypto (new_node 1) (replicate 32 5) (replicate 32 7) 0
      (k_ed_public demo_crypto (en_sign_priv (new_node 2)))"
    "can_pair demo_crypto (new_node 2) (replicate 32 6) (replicate 32 7) 0
      (k_ed_public demo_crypto (en_sign_priv (new_node 1)))"
    by (rule new_nodes_can_pair; simp)+
  obtain f out a' r where "ceremony demo_crypto (new_node 1) (replicate 32 5) (replicate 32 7)
      (new_node 2) (replicate 32 6) (replicate 32 7) = Some ((f, out, a'), r)" and "po_step out = Active"
    by (rule ceremony_completes [OF demo_crypto_sizes demo_aead_correct demo_sign_correct
          demo_dh_commutes p demo_meeting]) fastforce
  with ceremony_last_import [OF demo_crypto_sizes s l] show thesis
    by (metis length_replicate that)
qed

text \<open>An attempt that has exported a proof, and another peer's offer.\<close>

definition demo_proof :: proof_record where
  "demo_proof = \<lparr> pf_t = replicate 32 9, pf_role = ROLE_L, pf_ct = replicate 24 0, pf_sig = replicate 64 0 \<rparr>"

abbreviation demo_x :: offer where
  "demo_x \<equiv> own_offer demo_crypto (new_node 1) (replicate 32 5) (replicate 32 7)"

abbreviation demo_y :: offer where
  "demo_y \<equiv> own_offer demo_crypto (new_node 2) (replicate 32 6) (replicate 32 7)"

definition demo_exported :: pending_pair where
  "demo_exported = (offered demo_crypto (new_node 1) (replicate 32 5) (replicate 32 7) 0)
     \<lparr> pp_own_proof := Some (proof_bytes demo_proof) \<rparr>"

lemma demo_offers: "offer_ok demo_x" "offer_ok demo_y" "o_ed_pub demo_x \<noteq> o_ed_pub demo_y"
proof -
  note p = new_nodes_can_pair [of 1 2 5] new_nodes_can_pair [of 2 1 6]
  show "offer_ok demo_x" "offer_ok demo_y" using p by (auto intro: own_offer_ok [OF demo_crypto_sizes])
  show "o_ed_pub demo_x \<noteq> o_ed_pub demo_y" using p(1) by (auto simp: can_pair_def own_offer_def)
qed

lemma demo_transcript:
  "o_challenge x = replicate 32 7 \<Longrightarrow> o_challenge y = replicate 32 7 \<Longrightarrow>
   transcript_of demo_crypto x y = replicate 32 7"
  by (auto simp: transcript_of_def order_offers_def transcript_t_def demo_crypto_def demo_pad_def
      offer_payload_bytes_def)

lemma demo_second_offer:
  "pair_import_sas demo_crypto ((new_node 1)\<lparr> en_pending := Some demo_exported \<rparr>) (offer_bytes demo_y) False False =
    (Inr \<lparr> po_step = NeedProof, po_fingerprint = transcript_fingerprint (transcript_of demo_crypto demo_x demo_y),
           po_contact_id = None \<rparr>,
     (new_node 1)\<lparr> en_pending := Some ((paired demo_crypto demo_x demo_y demo_exported)
        \<lparr> pp_slot := 0, pp_replace := False \<rparr>) \<rparr>)"
proof -
  note n = new_node_state [of demo_crypto 1]
  have "import_offer_check demo_crypto ((new_node 1)\<lparr> en_pending := Some demo_exported \<rparr>) (offer_bytes demo_y) False =
      Inr ((paired demo_crypto demo_x demo_y demo_exported)\<lparr> pp_slot := 0, pp_replace := False \<rparr>,
        transcript_of demo_crypto demo_x demo_y)"
    using n demo_offers free_slot_new [of 1]
    by (intro import_offer_check_made) (auto simp: demo_exported_def offered_def free_slot_def)
  then show ?thesis
    using n by (simp add: pair_import_sas_def import_offer_def check_usable_def require_radio_off_def
        offer_bytes_def is_expired_def consts_defs saturating_sub_def demo_exported_def offered_def)
qed

section \<open>Properties\<close>

text \<open>C26: A pairing ceremony between two nodes that may pair runs to its end: every export and
  import succeeds, both nodes show the same fingerprint and report an active contact, and once
  the activations are saved each node holds the other as an unblocked contact under the other's
  signing key and identity, with one shared root and opposite directions.\<close>

theorem ceremony_links_the_nodes:
  assumes "crypto_sizes C" and "aead_correct C" and "sign_correct C" and "dh_commutes C"
    and "can_pair C a sa ca i (k_ed_public C (en_sign_priv b))"
    and "can_pair C b sb cb j (k_ed_public C (en_sign_priv a))"
    and "k_x25519 C sa (k_x_public C sb) \<noteq> replicate 32 0"
  shows "\<exists>fp a' b'. ceremony C a sa ca b sb cb =
      Some ((fp, \<lparr> po_step = Active, po_fingerprint = fp, po_contact_id = Some (of_nat (i + 1)) \<rparr>, a'),
            (fp, \<lparr> po_step = Active, po_fingerprint = fp, po_contact_id = Some (of_nat (j + 1)) \<rparr>, b')) \<and>
    linked a' i b' j \<and>
    c_ed_peer (en_contacts a' ! i) = k_ed_public C (en_sign_priv b) \<and> \<not> c_blocked (en_contacts a' ! i) \<and>
    c_ed_peer (en_contacts b' ! j) = k_ed_public C (en_sign_priv a) \<and> \<not> c_blocked (en_contacts b' ! j)"
proof -
  have ij: "i < MAX_CONTACTS" "j < MAX_CONTACTS" "length (en_contacts a) = MAX_CONTACTS"
    "length (en_contacts b) = MAX_CONTACTS"
    using assms(5,6) free_slot_Some [of C] by (auto simp: can_pair_def settled_def core_inv_def contacts_ok_def)
  have ne: "k_ed_public C (en_sign_priv b) \<noteq> k_ed_public C (en_sign_priv a)"
    using assms(5) by (simp add: can_pair_def)
  then have "(role_for (k_ed_public C (en_sign_priv a)) (k_ed_public C (en_sign_priv b)) = ROLE_L) \<noteq>
      (role_for (k_ed_public C (en_sign_priv b)) (k_ed_public C (en_sign_priv a)) = ROLE_L)"
    by (auto simp: role_for_def ROLE_L_def ROLE_R_def)
  then have l: "linked a' i b' j \<and> c_ed_peer (en_contacts a' ! i) = k_ed_public C (en_sign_priv b) \<and>
      \<not> c_blocked (en_contacts a' ! i) \<and> c_ed_peer (en_contacts b' ! j) = k_ed_public C (en_sign_priv a) \<and>
      \<not> c_blocked (en_contacts b' ! j)"
    if "en_contacts a' = (en_contacts a)[i := activated C a (o_ed_pub (own_offer C b sb cb)) (en_uid b) r
          (role_for (o_ed_pub (own_offer C a sa ca)) (o_ed_pub (own_offer C b sb cb)))]"
      and "en_contacts b' = (en_contacts b)[j := activated C b (o_ed_pub (own_offer C a sa ca)) (en_uid a) r
          (role_for (o_ed_pub (own_offer C b sb cb)) (o_ed_pub (own_offer C a sa ca)))]"
      and "unmoved a a'" and "unmoved b b'" for a' b' r
    using ij that(3,4) by (simp add: linked_def that(1,2) own_offer_def unmoved_def)
  show ?thesis
    by (rule ceremony_completes [OF assms], rule exI, rule exI, rule exI, rule conjI, assumption,
        rule l; assumption)
qed

lemma ceremony_links_the_nodes_witness:
  "\<exists>fp a' b'. ceremony demo_crypto (new_node 1) (replicate 32 5) (replicate 32 7)
        (new_node 2) (replicate 32 6) (replicate 32 7) =
      Some ((fp, \<lparr> po_step = Active, po_fingerprint = fp, po_contact_id = Some (of_nat (0 + 1)) \<rparr>, a'),
            (fp, \<lparr> po_step = Active, po_fingerprint = fp, po_contact_id = Some (of_nat (0 + 1)) \<rparr>, b')) \<and>
    linked a' 0 b' 0 \<and>
    c_ed_peer (en_contacts a' ! 0) = k_ed_public demo_crypto (en_sign_priv (new_node 2)) \<and>
    \<not> c_blocked (en_contacts a' ! 0) \<and>
    c_ed_peer (en_contacts b' ! 0) = k_ed_public demo_crypto (en_sign_priv (new_node 1)) \<and>
    \<not> c_blocked (en_contacts b' ! 0)"
  by (intro ceremony_links_the_nodes demo_crypto_sizes demo_aead_correct demo_sign_correct
      demo_dh_commutes new_nodes_can_pair demo_meeting) simp_all

text \<open>C27: A contact is activated only when the operators have compared the fingerprints, the
  peer's confirmation authenticates both proofs under the root of this transcript, and the
  identity in the peer's proof opens under this transcript's key to the one seen at its import;
  it then fills a slot that was free, with the key of the peer's offer, and no other contact
  changes.\<close>

theorem activation_is_authenticated:
  assumes "settled C e" and "pair_import_sas C e record replace sas = (Inr out, e')"
    and "po_step out = Active"
  shows "sas \<and> (\<exists>p t root conf own peer pr uid po.
    en_pending e = Some p \<and> pp_transcript p = Some t \<and> po_fingerprint out = transcript_fingerprint t \<and>
    pp_own_proof p = Some own \<and> pp_peer_proof p = Some peer \<and> pp_peer_identity p = Some uid \<and>
    decode_confirmation record = Inr conf \<and> cf_t conf = t \<and> cf_role conf \<noteq> pp_own_role p \<and>
    pair_root C e t = Inr root \<and>
    cf_mac conf = confirm_mac C root t (cf_role conf) (proofs_digest C (pp_own_role p) own peer) \<and>
    decode_proof peer = Inr pr \<and>
    open_peer_identity C e t (pp_own_role p) (cf_role conf) (pf_ct pr) = Inr uid \<and>
    decode_offer_payload (the (pp_peer_offer p)) = Inr po \<and>
    pp_slot p < MAX_CONTACTS \<and> \<not> c_present (en_contacts e ! pp_slot p) \<and>
    en_contacts e' =
      (en_contacts e)[pp_slot p := activated C e (o_ed_pub po) uid root (pp_own_role p)])"
proof -
  have ic: "import_confirm C e record = (Inr out, e') \<and> sas"
    using assms(2,3)
    by (auto simp: pair_import_sas_def import_offer_def import_proof_def consts_defs
        split: sum.splits if_splits prod.splits)
  then obtain p t ed i r where ch: "import_confirm_check C e record = Inr (p, t, ed, i, r)"
    by (auto simp: import_confirm_def split: sum.splits)
  from import_confirm_check_Inr [OF ch] obtain conf own peer pr po where c:
    "decode_confirmation record = Inr conf" "en_pending e = Some p" "pp_transcript p = Some t"
    "cf_t conf = t" "cf_role conf \<noteq> pp_own_role p" "pp_own_proof p = Some own" "pp_peer_proof p = Some peer"
    "pair_root C e t = Inr r"
    "cf_mac conf = confirm_mac C r t (cf_role conf) (proofs_digest C (pp_own_role p) own peer)"
    "pp_peer_identity p = Some i" "decode_proof peer = Inr pr"
    "open_peer_identity C e t (pp_own_role p) (cf_role conf) (pf_ct pr) = Inr i"
    "decode_offer_payload (the (pp_peer_offer p)) = Inr po" "ed = o_ed_pub po" by metis
  have sl: "pp_slot p < MAX_CONTACTS" "\<not> c_present (en_contacts e ! pp_slot p)"
    using settled_pendingD [OF assms(1) c(2)] assms(1) by (auto simp: pending_inv_def settled_def)
  have "en_contacts (stage_persist st x) = en_contacts x" for st x
    by (simp add: stage_persist_def Let_def split: prod.split)
  then have "en_contacts e' = (en_contacts e)[pp_slot p := activated C e ed i r (pp_own_role p)] \<and>
      po_fingerprint out = transcript_fingerprint t"
    using ic by (auto simp: import_confirm_def ch activate_contact_eq [OF sl(1)] upd_contact_def)
  with ic c sl show ?thesis by blast
qed

lemma activation_is_authenticated_witness:
  "\<exists>(e :: engine) record (out :: pair_import_outcome) (e' :: engine). po_step out = Active \<and> True \<and> (\<exists>p t root conf own peer pr uid po.
    en_pending e = Some p \<and> pp_transcript p = Some t \<and> po_fingerprint out = transcript_fingerprint t \<and>
    pp_own_proof p = Some own \<and> pp_peer_proof p = Some peer \<and> pp_peer_identity p = Some uid \<and>
    decode_confirmation record = Inr conf \<and> cf_t conf = t \<and> cf_role conf \<noteq> pp_own_role p \<and>
    pair_root demo_crypto e t = Inr root \<and>
    cf_mac conf = confirm_mac demo_crypto root t (cf_role conf)
      (proofs_digest demo_crypto (pp_own_role p) own peer) \<and>
    decode_proof peer = Inr pr \<and>
    open_peer_identity demo_crypto e t (pp_own_role p) (cf_role conf) (pf_ct pr) = Inr uid \<and>
    decode_offer_payload (the (pp_peer_offer p)) = Inr po \<and>
    pp_slot p < MAX_CONTACTS \<and> \<not> c_present (en_contacts e ! pp_slot p) \<and>
    en_contacts e' = (en_contacts e)[pp_slot p :=
      activated demo_crypto e (o_ed_pub po) uid root (pp_own_role p)])"
proof -
  obtain e r out e' where act: "settled demo_crypto e"
    "pair_import_sas demo_crypto e r False True = (Inr out, e')" "po_step out = Active"
    by (rule demo_activation)
  show ?thesis
    by (rule exI, rule exI, rule exI, rule exI, rule conjI [OF act(3) activation_is_authenticated [OF act]])
qed

text \<open>A pairing step that is refused leaves the engine exactly as it was, whichever step it is
  and whatever record it was given.\<close>

theorem refused_pairing_steps_change_nothing:
  "(is_ok (fst (pair_offer C e s pub ch)) \<or> snd (pair_offer C e s pub ch) = e) \<and>
   (is_ok (fst (pair_import_sas C e record rep sas)) \<or> snd (pair_import_sas C e record rep sas) = e) \<and>
   (is_ok (fst (pair_proof C e)) \<or> snd (pair_proof C e) = e) \<and>
   (is_ok (fst (pair_confirm C e)) \<or> snd (pair_confirm C e) = e)"
proof -
  have "is_ok (fst (import_confirm C e record)) \<or> snd (import_confirm C e record) = e"
    by (auto simp: import_confirm_def activate_contact_def Let_def split: sum.split)
  moreover have "is_ok (fst (import_offer C e record rep)) \<or> snd (import_offer C e record rep) = e"
    by (auto simp: import_offer_def split: sum.split)
  moreover have "is_ok (fst (import_proof C e record)) \<or> snd (import_proof C e record) = e"
    by (auto simp: import_proof_def split: sum.split)
  ultimately have "is_ok (fst (pair_import_sas C e record rep sas)) \<or> snd (pair_import_sas C e record rep sas) = e"
    by (simp add: pair_import_sas_def split: sum.split)
  moreover have "is_ok (fst (pair_offer_fresh C e s pub ch)) \<or> snd (pair_offer_fresh C e s pub ch) = e"
    by (simp add: pair_offer_fresh_def split: sum.split prod.split)
  then have "is_ok (fst (pair_offer C e s pub ch)) \<or> snd (pair_offer C e s pub ch) = e"
    by (simp add: pair_offer_def split: sum.split option.split)
  moreover have "is_ok (fst (pair_proof C e)) \<or> snd (pair_proof C e) = e"
    by (simp add: pair_proof_def split: sum.split prod.split option.split)
  moreover have "is_ok (fst (pair_confirm C e)) \<or> snd (pair_confirm C e) = e"
    by (simp add: pair_confirm_def split: sum.split prod.split option.split)
  ultimately show ?thesis by simp
qed

text \<open>C28: Importing a second offer keeps the proof exported for the first: the next export returns
  that old record, bound to the old transcript, and the new peer refuses it.\<close>

theorem second_offer_keeps_the_old_proof:
  assumes "en_pending e = Some p" and "pp_own_proof p = Some rec"
    and "pair_import_sas C e record rep sas = (Inr out, e')" and "po_step out = NeedProof"
    and "pp_transcript (the (en_pending e')) = Some t" and "bslice 1 33 rec \<noteq> t"
    and "en_pending peer = Some q" and "pp_transcript q = Some t"
  shows "pair_proof C e' = (Inr rec, e') \<and> import_proof C peer rec = (Inl BadRequest, peer)"
proof
  from import_step_NeedProof [OF assms(3,4,1)] obtain r u where ch: "import_offer_check C e record rep = Inr (r, u)"
    and e': "e' = e\<lparr> en_pending := Some r \<rparr>" and ok: "check_usable e = Inr ()" "require_radio_off e = Inr ()"
      "\<not> is_expired (pp_start_mono_s p) (en_mono_s e)" .
  from import_offer_check_Inr [OF ch] assms(1,2) have r: "pp_own_proof r = Some rec" "pp_transcript r = Some u"
    "pp_start_mono_s r = pp_start_mono_s p"
    by (metis option.inject pending_pair.select_convs(7,5,10) pending_pair.surjective pending_pair.update_convs(3,5,6,11,12))+
  have "check_usable e' = Inr ()" "require_radio_off e' = Inr ()"
    using ok by (auto simp: e' check_usable_def require_radio_off_def split: if_splits)
  then show "pair_proof C e' = (Inr rec, e')"
    using r ok by (simp add: pair_proof_def open_attempt_def e')
next
  show "import_proof C peer rec = (Inl BadRequest, peer)"
  proof (cases "decode_proof rec")
    case (Inl err)
    then show ?thesis by (simp add: import_proof_def import_proof_check_def)
  next
    case (Inr pf)
    then have "pf_t pf = bslice 1 33 rec"
      by (auto simp: decode_proof_def T_LEN_def Let_def split: if_splits)
    with assms(6-8) Inr show ?thesis by (simp add: import_proof_def import_proof_check_def Let_def)
  qed
qed

lemma second_offer_keeps_the_old_proof_witness:
  defines "e' \<equiv> (new_node 1)\<lparr> en_pending := Some ((paired demo_crypto demo_x demo_y demo_exported)
        \<lparr> pp_slot := 0, pp_replace := False \<rparr>) \<rparr>"
  shows "pair_proof demo_crypto e' = (Inr (proof_bytes demo_proof), e') \<and>
    import_proof demo_crypto e' (proof_bytes demo_proof) = (Inl BadRequest, e')"
proof -
  have t: "transcript_of demo_crypto demo_x demo_y = replicate 32 7"
    by (rule demo_transcript) (simp_all add: own_offer_def)
  have "bslice 1 33 (proof_bytes demo_proof) = replicate 32 9"
    by (simp add: proof_bytes_def demo_proof_def bslice_def)
  moreover have "(replicate 32 9 :: bytes) \<noteq> replicate 32 7" by simp
  ultimately have b: "bslice 1 33 (proof_bytes demo_proof) \<noteq> replicate 32 7" by simp
  show ?thesis
    unfolding e'_def
  proof (rule second_offer_keeps_the_old_proof [where p = demo_exported and
        q = "(paired demo_crypto demo_x demo_y demo_exported)\<lparr> pp_slot := 0, pp_replace := False \<rparr>",
        OF _ _ demo_second_offer])
    show "bslice 1 33 (proof_bytes demo_proof) \<noteq> replicate 32 7" by (rule b)
  qed (simp_all add: demo_exported_def paired_def offered_def t)
qed

end
