(* ===== verification/Node_System.thy ===== *)
theory Node_System
  imports Engine_Evolve
begin

text \<open>
  A node over its whole life: operations of the engine, each followed by the save of what it
  staged (\<open>Runtime::commit\<close> in \<open>firmware/src/runtime.rs\<close>, \<open>commit_staged\<close> in
  \<open>firmware/src/main.rs\<close>), saves that fail, and restarts from flash. Frames and events leave
  the node only after the save. Ghost lists record the sequence number under which each frame
  was sealed and each message that was delivered.
\<close>

section \<open>Operations\<close>

datatype node_op =
    OpMono u64
  | OpRadioAvailable bool
  | OpIdentity bytes
  | OpProvision u8 bytes
  | OpRadio bool
  | OpArm
  | OpConsumeArm
  | OpTime u64 bool
  | OpAdvance u64
  | OpDelete u8
  | OpBlock u8 bool
  | OpPairOffer bytes bytes bytes
  | OpPairCancel
  | OpPairImport bytes bool bool
  | OpPairProof
  | OpPairConfirm
  | OpSendBegin u8 bytes u32
  | OpSendEmit
  | OpRetryEcho
  | OpSendComplete bool
  | OpFrame bytes u64 u32
  | OpNoteOrigin bytes u64

type_synonym node_output = "outgoing_frame option \<times> node_event option"

fun run_op :: "crypto \<Rightarrow> node_op \<Rightarrow> engine \<Rightarrow> node_output \<times> engine" where
  "run_op C (OpMono t) e = ((None, None), set_mono_s e t)"
| "run_op C (OpRadioAvailable b) e = ((None, None), set_radio_available e b)"
| "run_op C (OpIdentity uid) e = ((None, None), set_identity e uid)"
| "run_op C (OpProvision l k) e = ((None, None), snd (provision e l k))"
| "run_op C (OpRadio b) e = ((None, None), snd (set_radio e b))"
| "run_op C OpArm e = ((None, None), snd (arm_next_boot e))"
| "run_op C OpConsumeArm e = ((None, None), snd (consume_boot_arm e))"
| "run_op C (OpTime t b) e = ((None, None), snd (set_time_confirmed e t b))"
| "run_op C (OpAdvance t) e = ((None, None), snd (advance_time e t))"
| "run_op C (OpDelete cid) e = ((None, None), snd (delete_contact e cid))"
| "run_op C (OpBlock cid b) e = ((None, None), snd (set_blocked e cid b))"
| "run_op C (OpPairOffer a b c) e = ((None, None), snd (pair_offer C e a b c))"
| "run_op C OpPairCancel e = ((None, None), pair_cancel e)"
| "run_op C (OpPairImport r rep sas) e = ((None, None), snd (pair_import_sas C e r rep sas))"
| "run_op C OpPairProof e = ((None, None), snd (pair_proof C e))"
| "run_op C OpPairConfirm e = ((None, None), snd (pair_confirm C e))"
| "run_op C (OpSendBegin cid t pid) e = ((None, None), snd (send_begin e cid t pid))"
| "run_op C OpSendEmit e =
     (case send_emit C e of
        (Inr f, e) \<Rightarrow> ((Some f, None), e) | (Inl _, e) \<Rightarrow> ((None, None), e))"
| "run_op C OpRetryEcho e =
     (case send_retry_echo C e of
        Inr f \<Rightarrow> ((Some f, None), e) | Inl _ \<Rightarrow> ((None, None), e))"
| "run_op C (OpSendComplete b) e = ((None, None), send_complete e b)"
| "run_op C (OpFrame f now pid) e =
     (case on_frame C e f now pid of ((_, ack, ev), e) \<Rightarrow> ((ack, ev), e))"
| "run_op C (OpNoteOrigin f now) e = ((None, None), note_origin C e f now)"

text \<open>Arguments that are arrays in the code have their length; the identity is set at boot,
  before anything can have failed.\<close>

fun op_valid :: "engine \<Rightarrow> node_op \<Rightarrow> bool" where
  "op_valid e (OpIdentity uid) \<longleftrightarrow> length uid = 8 \<and> \<not> en_fault e"
| "op_valid e (OpProvision l k) \<longleftrightarrow> length k = 32"
| "op_valid e (OpPairOffer a b c) \<longleftrightarrow> length b = 32 \<and> length c = 32"
| "op_valid e _ \<longleftrightarrow> True"

section \<open>Operations on a settled engine\<close>

text \<open>Every operation keeps the invariant.\<close>

lemma run_op_ok:
  assumes C: "crypto_sizes C" and s: "settled C e" and v: "op_valid e op"
  shows "op_ok C (snd (run_op C op e))"
proof (cases op)
  case (OpSendEmit)
  then show ?thesis using send_emit_ok [OF s] by (auto split: prod.split sum.split)
next
  case (OpFrame f now pid)
  then show ?thesis using on_frame_ok [OF s, of f now pid] by (auto split: prod.split)
qed (use C s v in \<open>auto simp: settled_op_ok set_mono_s_ok set_radio_available_ok set_identity_ok
    provision_ok set_radio_ok arm_next_boot_ok consume_boot_arm_ok set_time_confirmed_ok
    advance_time_ok delete_contact_ok set_blocked_ok pair_offer_ok pair_cancel_ok pair_import_sas_ok
    pair_proof_ok pair_confirm_ok send_begin_ok send_complete_ok note_origin_ok split: sum.split\<close>)

text \<open>What comes out of an operation, and how it leaves the contacts.\<close>

definition output_ok :: "engine \<Rightarrow> node_output \<Rightarrow> engine \<Rightarrow> bool" where
  "output_ok e out e' \<longleftrightarrow>
     (\<forall>f. fst out = Some f \<longrightarrow> \<not> of_is_retry_echo f \<longrightarrow> of_contact_id f \<noteq> None \<longrightarrow>
        stays e e' \<and> sealed e f e') \<and>
     (\<forall>ev. snd out = Some ev \<longrightarrow> stays e e' \<and> delivers e ev e')"

lemma keeps_advance_time:
  assumes s: "settled C e"
  shows "keeps e (snd (advance_time e now))"
proof -
  have "settled C (e\<lparr> en_mono_s := now \<rparr>)" using s by (simp add: settled_def)
  then have "keeps (e\<lparr> en_mono_s := now \<rparr>) (snd (set_time_confirmed (e\<lparr> en_mono_s := now \<rparr>) t b))" for t b
    by (rule keeps_set_time)
  then have "keeps e (snd (set_time (e\<lparr> en_mono_s := now \<rparr>) t))" for t
    by (simp add: keeps_def set_time_def)
  then show ?thesis
    by (auto simp: advance_time_def Let_def split_def keeps_def split: option.split sum.splits prod.splits)
qed

lemma evolves_import_confirm:
  assumes s: "settled C e"
  shows "evolves e (snd (import_confirm C e record))"
proof (cases "import_confirm_check C e record")
  case (Inl err)
  then show ?thesis by (simp add: import_confirm_def keeps_evolves)
next
  case (Inr r5)
  obtain p t ed i r where r5: "r5 = (p, t, ed, i, r)" by (cases r5) auto
  have p: "en_pending e = Some p"
    using import_confirm_check_Inr [OF Inr [unfolded r5]] by metis
  then have sl: "pp_slot p < MAX_CONTACTS" "\<not> c_present (en_contacts e ! pp_slot p)"
    using settled_pendingD [OF s p] s by (auto simp: pending_inv_def settled_def)
  show ?thesis
    using sl settled_length [OF s]
    by (auto simp: import_confirm_def Inr r5 activate_contact_eq evolves_def nth_upd_contact
        intro!: exI [of _ "pp_slot p"])
qed

lemma contacts_only:
  "en_contacts e' = en_contacts e \<Longrightarrow> evolves e e'"
  by (simp add: keeps_contacts keeps_evolves)

lemma pair_contacts:
  "en_contacts (snd (pair_offer C e a b c)) = en_contacts e"
  "en_contacts (snd (pair_proof C e)) = en_contacts e"
  "en_contacts (snd (pair_confirm C e)) = en_contacts e"
  "en_contacts (snd (import_offer C e r rep)) = en_contacts e"
  "en_contacts (snd (import_proof C e r)) = en_contacts e"
  "en_contacts (pair_cancel e) = en_contacts e"
  by (auto simp: pair_offer_def pair_offer_fresh_def pair_proof_def pair_confirm_def import_offer_def
      import_proof_def pair_cancel_def split: sum.split option.split prod.split)

lemma evolves_pair_import:
  "settled C e \<Longrightarrow> evolves e (snd (pair_import_sas C e r rep sas))"
  by (auto simp: pair_import_sas_def contacts_only pair_contacts evolves_import_confirm split: sum.split)

lemma setting_contacts:
  "en_contacts (set_mono_s e t) = en_contacts e" "en_contacts (set_radio_available e b) = en_contacts e"
  "en_contacts (set_identity e uid) = en_contacts e" "en_contacts (snd (provision e l k)) = en_contacts e"
  "en_contacts (snd (set_radio e b)) = en_contacts e" "en_contacts (snd (arm_next_boot e)) = en_contacts e"
  "en_contacts (snd (consume_boot_arm e)) = en_contacts e" "en_contacts (snd (send_begin e cid t' pid)) = en_contacts e"
  "en_contacts (send_complete e b) = en_contacts e" "en_contacts (note_origin C e f now) = en_contacts e"
  by (auto simp: set_mono_s_def set_radio_available_def set_identity_def provision_def set_radio_def
      arm_next_boot_def consume_boot_arm_def send_begin_def send_complete_def note_origin_def Let_def
      split: sum.split prod.split option.split)

lemma run_op_evolves:
  assumes s: "settled C e"
  shows "evolves e (snd (run_op C op e)) \<and> output_ok e (fst (run_op C op e)) (snd (run_op C op e))"
proof (cases op)
  case OpSendEmit
  show ?thesis
  proof (cases "fst (send_emit C e)")
    case (Inl err)
    then have "stays e (snd (send_emit C e))"
      using stays_refresh [OF settled_length [OF s]]
      by (auto simp: send_emit_def Let_def split: sum.splits prod.splits if_splits)
    with Inl show ?thesis
      by (cases "send_emit C e") (simp add: OpSendEmit output_ok_def stays_keeps keeps_evolves)
  next
    case (Inr f)
    obtain e' where e': "send_emit C e = (Inr f, e')" using Inr by (cases "send_emit C e") auto
    with send_emit_sealed [OF s e'] show ?thesis
      by (simp add: OpSendEmit output_ok_def stays_keeps keeps_evolves)
  qed
next
  case OpRetryEcho
  have "f = Inr x \<Longrightarrow> f = send_retry_echo C e \<Longrightarrow> of_is_retry_echo x" for f x
    by (auto simp: send_retry_echo_def)
  then show ?thesis
    by (auto simp: OpRetryEcho output_ok_def contacts_only split: sum.split)
next
  case (OpFrame f now pid)
  obtain k a ev e' where o: "on_frame C e f now pid = ((k, a, ev), e')"
    by (metis prod.exhaust)
  with on_frame_result [OF s, of f now pid] have "result_ok e (k, a, ev) e'" by simp
  with o show ?thesis
    by (auto simp: OpFrame output_ok_def result_ok_def stays_keeps keeps_evolves)
qed (use s in \<open>auto simp: output_ok_def contacts_only setting_contacts pair_contacts evolves_pair_import
    keeps_set_time keeps_advance_time keeps_delete keeps_set_blocked keeps_evolves\<close>)

section \<open>Operations after a fault\<close>

text \<open>A faulted engine seals nothing, delivers nothing, stages nothing and leaves its contacts
  alone, whatever it is asked.\<close>

lemma faulted_usable: "en_fault e \<Longrightarrow> check_usable e = Inl StorageFault"
  by (simp add: check_usable_def)

lemma faulted_frames:
  "faulted e \<Longrightarrow> send_emit C e = (Inl BadRequest, e) \<and> send_retry_echo C e = Inl BadRequest"
  by (simp add: faulted_def send_emit_def send_emit_check_def send_retry_echo_def)

lemma on_frame_faulted:
  "en_fault e \<Longrightarrow> on_frame C e f now pid = ((Ignore, None, None), e) \<or>
    (\<exists>h. on_frame C e f now pid = transit C e f h now)"
proof (cases "decode_frame f")
  case (Inr hb)
  obtain h b where "hb = (h, b)" by fastforce
  with Inr show "en_fault e \<Longrightarrow> ?thesis"
    by (cases "h_version h = VERSION_SECURE \<and> \<not> h_hops h > 1") (auto simp: on_frame_def)
qed (simp add: on_frame_def)

lemma run_op_faulted:
  assumes f: "faulted e" and v: "op_valid e op"
  shows "faulted (snd (run_op C op e)) \<and> snd (fst (run_op C op e)) = None \<and>
    (\<forall>x. fst (fst (run_op C op e)) = Some x \<longrightarrow> of_contact_id x = None) \<and>
    en_contacts (snd (run_op C op e)) = en_contacts e"
proof -
  have fa: "en_fault e" using f by (simp add: faulted_def)
  note u = faulted_usable [OF fa]
  have tr: "faulted (snd (transit C e fr h now))" for fr h now
    using f by (simp add: transit_state faulted_def)
  have fwd: "snd (snd (fst (transit C e fr h now))) = None \<and>
      (\<forall>x. fst (snd (fst (transit C e fr h now))) = Some x \<longrightarrow> of_contact_id x = None)" for fr h now
    by (auto simp: transit_def Let_def split: prod.split observe.split sum.split)
  show ?thesis
  proof (cases op)
    case (OpFrame fr now pid)
    from on_frame_faulted [OF fa, of C fr now pid] show ?thesis
    proof (elim disjE exE)
      fix h assume "on_frame C e fr now pid = transit C e fr h now"
      then show ?thesis
        using tr [of fr h now] fwd [of fr h now] transit_state [of C e fr h now]
        by (cases "transit C e fr h now") (auto simp: OpFrame split: prod.split)
    qed (use f in \<open>simp add: OpFrame\<close>)
  qed (use f fa u v faulted_frames [OF f, of C] in \<open>auto simp: set_mono_s_def set_radio_available_def
      provision_def set_radio_def arm_next_boot_def consume_boot_arm_def set_time_confirmed_def
      advance_time_def delete_contact_def set_blocked_def pair_offer_def pair_cancel_def
      pair_import_sas_def pair_proof_def pair_confirm_def send_begin_def send_begin_check_def
      send_complete_def note_origin_def faulted_def Let_def split: sum.split option.split\<close>)
qed

section \<open>The node\<close>

record node =
  nd_engine :: engine
  nd_flash :: "bytes option"
  nd_roots :: "bytes set"
  nd_sealed :: "(bytes \<times> u64) list"
  nd_delivered :: "(bytes \<times> u32 \<times> u64) list"

text \<open>A restart: a new engine, restored from the stored record when there is one.\<close>

definition boot :: "crypto \<Rightarrow> bool \<Rightarrow> bytes option \<Rightarrow> engine" where
  "boot C av fl =
     (case fl of None \<Rightarrow> Engine_new av | Some b \<Rightarrow> snd (restore C (Engine_new av) b))"

definition node_start :: "crypto \<Rightarrow> bool \<Rightarrow> node" where
  "node_start C av =
     \<lparr> nd_engine = boot C av None, nd_flash = None, nd_roots = {}, nd_sealed = [],
       nd_delivered = [] \<rparr>"

text \<open>The roots of the contacts, and the ghost entries of what an operation put out.\<close>

definition root_of :: "engine \<Rightarrow> u8 \<Rightarrow> bytes" where
  "root_of e cid = c_root (en_contacts e ! (unat cid - 1))"

definition roots_of :: "engine \<Rightarrow> bytes set" where
  "roots_of e = {c_root (en_contacts e ! i) | i. i < MAX_CONTACTS \<and> c_present (en_contacts e ! i)}"

definition sealed_entries :: "engine \<Rightarrow> outgoing_frame option \<Rightarrow> (bytes \<times> u64) list" where
  "sealed_entries e f =
     (case f of
        Some x \<Rightarrow>
          (case of_contact_id x of
             Some cid \<Rightarrow> if of_is_retry_echo x then [] else [(root_of e cid, frame_seq x)]
           | None \<Rightarrow> [])
      | None \<Rightarrow> [])"

definition delivered_entries :: "engine \<Rightarrow> node_event option \<Rightarrow> (bytes \<times> u32 \<times> u64) list" where
  "delivered_entries e ev =
     (case ev of
        Some (Received cid ep sq _ _) \<Rightarrow> [(root_of e cid, ep, sq)]
      | _ \<Rightarrow> [])"

text \<open>A contact that appears has a root no contact of this node ever had: the ephemeral keys and
  challenges of a pairing are drawn afresh.\<close>

definition fresh_roots :: "node \<Rightarrow> engine \<Rightarrow> bool" where
  "fresh_roots s e' \<longleftrightarrow>
     (\<forall>i < MAX_CONTACTS. c_present (en_contacts e' ! i) \<longrightarrow>
        \<not> c_present (en_contacts (nd_engine s) ! i) \<longrightarrow> c_root (en_contacts e' ! i) \<notin> nd_roots s)"

datatype node_label = Done node_op | SaveFailed node_op | Restart bool

text \<open>What was staged is saved before the outputs are released. A save that fails has written
  nothing or everything; the engine drops what it staged and is marked faulted, and the outputs
  are withheld. Power may be lost at any time.\<close>

inductive node_step :: "crypto \<Rightarrow> node \<Rightarrow> node_label \<Rightarrow> node \<Rightarrow> bool" for C where
  step_done:
    "run_op C op (nd_engine s) = ((f, ev), e') \<Longrightarrow> op_valid (nd_engine s) op \<Longrightarrow>
     fresh_roots s e' \<Longrightarrow>
     node_step C s (Done op)
       \<lparr> nd_engine = (if en_persist_dirty e' then commit_ok e' else e'),
         nd_flash = (case pending_persist e' of Some b \<Rightarrow> Some b | None \<Rightarrow> nd_flash s),
         nd_roots = nd_roots s \<union> roots_of e',
         nd_sealed = sealed_entries e' f @ nd_sealed s,
         nd_delivered = delivered_entries e' ev @ nd_delivered s \<rparr>"
| step_save_failed:
    "run_op C op (nd_engine s) = ((f, ev), e') \<Longrightarrow> op_valid (nd_engine s) op \<Longrightarrow>
     fresh_roots s e' \<Longrightarrow> pending_persist e' = Some b \<Longrightarrow> fl \<in> {nd_flash s, Some b} \<Longrightarrow>
     node_step C s (SaveFailed op)
       (s\<lparr> nd_engine := mark_fault (discard_staged e'), nd_flash := fl,
           nd_roots := nd_roots s \<union> roots_of e' \<rparr>)"
| step_restart:
    "node_step C s (Restart av) (s\<lparr> nd_engine := boot C av (nd_flash s) \<rparr>)"

inductive_cases node_step_cases: "node_step C s l t"

section \<open>The invariant of the node\<close>

text \<open>Against the ghost lists: every number that was sealed is behind the next one of its contact,
  every message delivered will not be taken again, and no two contacts share a root.\<close>

definition good :: "bytes set \<Rightarrow> (bytes \<times> u64) set \<Rightarrow> (bytes \<times> u32 \<times> u64) set \<Rightarrow> engine \<Rightarrow> bool" where
  "good R S D e \<longleftrightarrow>
     (\<forall>i < MAX_CONTACTS. c_present (en_contacts e ! i) \<longrightarrow>
        c_root (en_contacts e ! i) \<in> R \<and>
        (\<forall>sq. (c_root (en_contacts e ! i), sq) \<in> S \<longrightarrow> sq < c_tx_next (en_contacts e ! i)) \<and>
        (\<forall>ep sq. (c_root (en_contacts e ! i), ep, sq) \<in> D \<longrightarrow> rx_seen (en_contacts e ! i) ep sq)) \<and>
     (\<forall>i < MAX_CONTACTS. \<forall>j < MAX_CONTACTS.
        c_present (en_contacts e ! i) \<longrightarrow> c_present (en_contacts e ! j) \<longrightarrow>
        c_root (en_contacts e ! i) = c_root (en_contacts e ! j) \<longrightarrow> i = j)"

definition logs_ok :: "node \<Rightarrow> bool" where
  "logs_ok s \<longleftrightarrow>
     fst ` set (nd_sealed s) \<subseteq> nd_roots s \<and> fst ` set (nd_delivered s) \<subseteq> nd_roots s \<and>
     distinct (nd_sealed s) \<and> distinct (nd_delivered s)"

abbreviation node_good :: "node \<Rightarrow> engine \<Rightarrow> bool" where
  "node_good s \<equiv> good (nd_roots s) (set (nd_sealed s)) (set (nd_delivered s))"

definition node_inv :: "crypto \<Rightarrow> node \<Rightarrow> bool" where
  "node_inv C s \<longleftrightarrow>
     (settled C (nd_engine s) \<and> node_good s (nd_engine s) \<or> faulted (nd_engine s)) \<and>
     (\<forall>av. settled C (boot C av (nd_flash s)) \<and> node_good s (boot C av (nd_flash s))) \<and>
     logs_ok s \<and> (\<forall>b. nd_flash s = Some b \<longrightarrow> is_ok (decode_view b))"

lemma good_more_roots: "good R S D e \<Longrightarrow> R \<subseteq> R' \<Longrightarrow> good R' S D e"
  by (auto simp: good_def)

lemma goodI:
  assumes "\<And>i. i < MAX_CONTACTS \<Longrightarrow> c_present (en_contacts e ! i) \<Longrightarrow> c_root (en_contacts e ! i) \<in> R"
    and "\<And>i sq. i < MAX_CONTACTS \<Longrightarrow> c_present (en_contacts e ! i) \<Longrightarrow>
      (c_root (en_contacts e ! i), sq) \<in> S \<Longrightarrow> sq < c_tx_next (en_contacts e ! i)"
    and "\<And>i ep sq. i < MAX_CONTACTS \<Longrightarrow> c_present (en_contacts e ! i) \<Longrightarrow>
      (c_root (en_contacts e ! i), ep, sq) \<in> D \<Longrightarrow> rx_seen (en_contacts e ! i) ep sq"
    and "\<And>i j. i < MAX_CONTACTS \<Longrightarrow> j < MAX_CONTACTS \<Longrightarrow> c_present (en_contacts e ! i) \<Longrightarrow>
      c_present (en_contacts e ! j) \<Longrightarrow> c_root (en_contacts e ! i) = c_root (en_contacts e ! j) \<Longrightarrow> i = j"
  shows "good R S D e"
  unfolding good_def using assms by blast

lemma goodD:
  assumes "good R S D e" and "i < MAX_CONTACTS" and "c_present (en_contacts e ! i)"
  shows "c_root (en_contacts e ! i) \<in> R"
    and "(c_root (en_contacts e ! i), sq) \<in> S \<Longrightarrow> sq < c_tx_next (en_contacts e ! i)"
    and "(c_root (en_contacts e ! i), ep, sq) \<in> D \<Longrightarrow> rx_seen (en_contacts e ! i) ep sq"
    and "j < MAX_CONTACTS \<Longrightarrow> c_present (en_contacts e ! j) \<Longrightarrow>
      c_root (en_contacts e ! i) = c_root (en_contacts e ! j) \<Longrightarrow> i = j"
  using assms unfolding good_def by blast+

lemma followsD:
  assumes "follows c d"
  shows "c_root d = c_root c" and "sq < c_tx_next c \<Longrightarrow> sq < c_tx_next d"
    and "rx_seen c ep sq \<Longrightarrow> rx_seen d ep sq"
  using assms by (auto simp: follows_def)

lemma good_cong:
  assumes "\<And>i. i < MAX_CONTACTS \<Longrightarrow> c_present (en_contacts e' ! i) \<Longrightarrow> c_present (en_contacts e ! i) \<and>
      follows (en_contacts e ! i) (en_contacts e' ! i)"
    and g: "good R S D e"
  shows "good R S D e'"
proof (rule goodI)
  fix i assume i: "i < MAX_CONTACTS" "c_present (en_contacts e' ! i)"
  note k = assms(1) [OF i, THEN conjunct1] assms(1) [OF i, THEN conjunct2]
  note f = followsD [OF k(2)]
  note g = goodD [OF g i(1) k(1)]
  show "c_root (en_contacts e' ! i) \<in> R" using g(1) by (simp add: f(1))
  show "sq < c_tx_next (en_contacts e' ! i)" if "(c_root (en_contacts e' ! i), sq) \<in> S" for sq
    using that f(1,2) g(2) by simp
  show "rx_seen (en_contacts e' ! i) ep sq" if "(c_root (en_contacts e' ! i), ep, sq) \<in> D" for ep sq
    using that f(1,3) g(3) by simp
  show "i = j" if "j < MAX_CONTACTS" "c_present (en_contacts e' ! j)"
    "c_root (en_contacts e' ! i) = c_root (en_contacts e' ! j)" for j
    using that f(1) g(4) assms(1) [OF that(1,2)] by (auto simp: follows_def)
qed

lemma good_keeps: "keeps e e' \<Longrightarrow> good R S D e \<Longrightarrow> good R S D e'"
  by (rule good_cong) (simp_all add: keeps_def)

text \<open>A contact with a root no list mentions may appear.\<close>

lemma good_evolves:
  assumes g: "good R S D e" and ev: "evolves e e'"
    and fresh: "\<And>i. i < MAX_CONTACTS \<Longrightarrow> c_present (en_contacts e' ! i) \<Longrightarrow>
      \<not> c_present (en_contacts e ! i) \<Longrightarrow> c_root (en_contacts e' ! i) \<notin> R"
    and logs: "fst ` S \<subseteq> R" "fst ` D \<subseteq> R"
  shows "good (R \<union> roots_of e') S D e'"
proof (rule goodI)
  obtain k where k: "\<And>i. i < MAX_CONTACTS \<Longrightarrow> c_present (en_contacts e' ! i) \<Longrightarrow>
      if c_present (en_contacts e ! i) then follows (en_contacts e ! i) (en_contacts e' ! i) else i = k"
    using ev by (auto simp: evolves_def)
  have not_in: "(r, sq) \<notin> S" "(r, ep, sq) \<notin> D" if "r \<notin> R" for r sq ep
    using logs that by force+
  fix i assume i: "i < MAX_CONTACTS" "c_present (en_contacts e' ! i)"
  show "c_root (en_contacts e' ! i) \<in> R \<union> roots_of e'" using i by (auto simp: roots_of_def)
  have f: "follows (en_contacts e ! i) (en_contacts e' ! i)" if "c_present (en_contacts e ! i)"
    using k [OF i] that by simp
  show "sq < c_tx_next (en_contacts e' ! i)" if "(c_root (en_contacts e' ! i), sq) \<in> S" for sq
  proof (cases "c_present (en_contacts e ! i)")
    case True
    then show ?thesis using that followsD(1,2) [OF f [OF True]] goodD(2) [OF g i(1) True] by simp
  qed (use fresh [OF i] not_in that in blast)
  show "rx_seen (en_contacts e' ! i) ep sq" if "(c_root (en_contacts e' ! i), ep, sq) \<in> D" for ep sq
  proof (cases "c_present (en_contacts e ! i)")
    case True
    then show ?thesis using that followsD(1,3) [OF f [OF True]] goodD(3) [OF g i(1) True] by simp
  qed (use fresh [OF i] not_in that in blast)
  fix j assume j: "j < MAX_CONTACTS" "c_present (en_contacts e' ! j)"
    and eq: "c_root (en_contacts e' ! i) = c_root (en_contacts e' ! j)"
  have fj: "follows (en_contacts e ! j) (en_contacts e' ! j)" if "c_present (en_contacts e ! j)"
    using k [OF j] that by simp
  show "i = j"
  proof (cases "c_present (en_contacts e ! i)")
    case True
    note ri = followsD(1) [OF f [OF True]] goodD(1) [OF g i(1) True]
    show ?thesis
    proof (cases "c_present (en_contacts e ! j)")
      case pj: True
      show ?thesis
        using goodD(4) [OF g i(1) True j(1) pj] eq ri followsD(1) [OF fj [OF pj]] by simp
    qed (use fresh [OF j] eq ri in simp)
  next
    case new: False
    show ?thesis
    proof (cases "c_present (en_contacts e ! j)")
      case pj: True
      show ?thesis
        using fresh [OF i new] eq goodD(1) [OF g j(1) pj] followsD(1) [OF fj [OF pj]] by simp
    qed (use k [OF i] k [OF j] new in simp)
  qed
qed

lemma root_of_slot [simp]:
  "i < MAX_CONTACTS \<Longrightarrow> root_of e (of_nat (i + 1)) = c_root (en_contacts e ! i)"
  "i < MAX_CONTACTS \<Longrightarrow> root_of e (1 + of_nat i) = c_root (en_contacts e ! i)"
  using unat_of_nat_u8 [of "i + 1"] by (simp_all add: root_of_def MAX_CONTACTS_def)

text \<open>The number under which a frame was sealed is new, and behind the next one afterwards.\<close>

lemma good_seal:
  assumes g: "good R S D e" and g': "good R S D e'" and st: "stays e e'" and se: "sealed e f e'"
    and cid: "of_contact_id f = Some cid"
  shows "(root_of e' cid, frame_seq f) \<notin> S" and "root_of e' cid \<in> R"
    and "good R (insert (root_of e' cid, frame_seq f) S) D e'"
proof -
  obtain i where i: "i < MAX_CONTACTS" "cid = of_nat (i + 1)" and pr: "c_present (en_contacts e ! i)"
    "c_present (en_contacts e' ! i)"
    and sq: "frame_seq f = c_tx_next (en_contacts e ! i)" "frame_seq f < c_tx_next (en_contacts e' ! i)"
    using se cid unfolding sealed_def by blast
  have r: "c_root (en_contacts e' ! i) = c_root (en_contacts e ! i)"
    using st i(1) by (simp add: stays_def follows_def)
  have ro: "root_of e' cid = c_root (en_contacts e' ! i)" using i by simp
  show "(root_of e' cid, frame_seq f) \<notin> S"
    using goodD(2) [OF g i(1) pr(1), of "frame_seq f"] sq(1) by (auto simp: ro r)
  show "root_of e' cid \<in> R" using goodD(1) [OF g' i(1) pr(2)] by (simp add: ro)
  show "good R (insert (root_of e' cid, frame_seq f) S) D e'"
  proof (rule goodI)
    fix j sq' assume j: "j < MAX_CONTACTS" "c_present (en_contacts e' ! j)"
      and "(c_root (en_contacts e' ! j), sq') \<in> insert (root_of e' cid, frame_seq f) S"
    then show "sq' < c_tx_next (en_contacts e' ! j)"
      using goodD(2) [OF g' j] goodD(4) [OF g' j i(1) pr(2)] sq(2) by (auto simp: ro)
  qed (use goodD [OF g'] in blast)+
qed

lemma good_deliver:
  assumes g: "good R S0 D e" and g': "good R S D e'" and st: "stays e e'"
    and de: "delivers e (Received cid ep sq t n) e'"
  shows "(root_of e' cid, ep, sq) \<notin> D" and "root_of e' cid \<in> R"
    and "good R S (insert (root_of e' cid, ep, sq) D) e'"
proof -
  obtain i where i: "i < MAX_CONTACTS" "cid = of_nat (i + 1)" and pr: "c_present (en_contacts e ! i)"
    "c_present (en_contacts e' ! i)"
    and sn: "\<not> rx_seen (en_contacts e ! i) ep sq" "rx_seen (en_contacts e' ! i) ep sq"
    using de unfolding delivers_def by blast
  have r: "c_root (en_contacts e' ! i) = c_root (en_contacts e ! i)"
    using st i(1) by (simp add: stays_def follows_def)
  have ro: "root_of e' cid = c_root (en_contacts e' ! i)" using i by simp
  show "(root_of e' cid, ep, sq) \<notin> D"
    using goodD(3) [OF g i(1) pr(1)] sn(1) by (auto simp: ro r)
  show "root_of e' cid \<in> R" using goodD(1) [OF g' i(1) pr(2)] by (simp add: ro)
  show "good R S (insert (root_of e' cid, ep, sq) D) e'"
  proof (rule goodI)
    fix j ep' sq' assume j: "j < MAX_CONTACTS" "c_present (en_contacts e' ! j)"
      and "(c_root (en_contacts e' ! j), ep', sq') \<in> insert (root_of e' cid, ep, sq) D"
    then show "rx_seen (en_contacts e' ! j) ep' sq'"
      using goodD(3) [OF g' j] goodD(4) [OF g' j i(1) pr(2)] sn(2) by (auto simp: ro)
  qed (use goodD [OF g'] in blast)+
qed

lemma keeps_restarted:
  assumes "core_inv C e"
  shows "keeps e (restarted e0 e)"
proof -
  have "rx_seen (rebooted c r) = rx_seen c" if "c_present c" for c r
    using that by (simp add: rx_seen_def fun_eq_iff split: option.split)
  then show ?thesis
    using reserve_le [OF assms] by (auto simp: keeps_def follows_def)
qed

lemma keeps_commit: "length (en_contacts e) = MAX_CONTACTS \<Longrightarrow> keeps e (commit_ok e)"
  by (auto simp: commit_ok_def Let_def keeps_def nth_upd_contact
      split: option.split staged_commit.split intro: follows_same)

lemma boot_snapshot:
  assumes "staged_ok C e" and "pending_persist e = Some b"
  shows "boot C av (Some b) = restarted (Engine_new av) e"
  using assms restore_snapshot [of C e "Engine_new av"] by (simp add: staged_ok_def boot_def)

lemma boot_good:
  assumes "staged_ok C e" and "pending_persist e = Some b" and "good R S D e"
  shows "settled C (boot C av (Some b)) \<and> good R S D (boot C av (Some b))"
proof -
  have c: "core_inv C e" using assms(1) by (simp add: staged_ok_def)
  show ?thesis
    using restarted_settled [OF c Engine_new_inv] good_keeps [OF keeps_restarted [OF c] assms(3)]
    by (simp add: boot_snapshot [OF assms(1,2)])
qed

lemma snapshot_decodes: "staged_ok C e \<Longrightarrow> pending_persist e = Some b \<Longrightarrow> is_ok (decode_view b)"
  by (auto simp: staged_ok_def decode_view_bytes view_wf_core)

section \<open>Every step keeps the invariant\<close>

lemma logs_okD:
  "logs_ok s \<Longrightarrow> fst ` set (nd_sealed s) \<subseteq> nd_roots s" "logs_ok s \<Longrightarrow> fst ` set (nd_delivered s) \<subseteq> nd_roots s"
  by (simp_all add: logs_ok_def)

text \<open>An operation on a settled engine: the state it leads to against the lists with its outputs
  added.\<close>

lemma run_op_good:
  assumes s: "settled C e" and g: "good R (set S) (set D) e"
    and run: "run_op C op e = ((f, ev), e')"
    and fresh: "\<And>i. i < MAX_CONTACTS \<Longrightarrow> c_present (en_contacts e' ! i) \<Longrightarrow>
      \<not> c_present (en_contacts e ! i) \<Longrightarrow> c_root (en_contacts e' ! i) \<notin> R"
    and logs: "fst ` set S \<subseteq> R" "fst ` set D \<subseteq> R" and dist: "distinct S" "distinct D"
    and S': "S' = sealed_entries e' f @ S" and D': "D' = delivered_entries e' ev @ D"
    and R': "R' = R \<union> roots_of e'"
  shows "good R' (set S) (set D) e'" and "good R' (set S') (set D') e'"
    and "fst ` set S' \<subseteq> R'" and "fst ` set D' \<subseteq> R'" and "distinct S'" and "distinct D'"
    and "S' \<noteq> S \<or> D' \<noteq> D \<Longrightarrow> en_persist_dirty e'"
proof -
  from run_op_evolves [OF s, of op] have ev: "evolves e e'" and out: "output_ok e (f, ev) e'"
    by (simp_all add: run)
  show g': "good R' (set S) (set D) e'"
    unfolding R' using g ev fresh logs by (rule good_evolves)
  have gR: "good R' (set S) (set D) e" using g by (rule good_more_roots) (simp add: R')
  have S_cases: "S' = S \<or> (\<exists>x cid. f = Some x \<and> of_contact_id x = Some cid \<and> stays e e' \<and> sealed e x e' \<and>
      S' = (root_of e' cid, frame_seq x) # S)"
    using out by (auto simp: S' sealed_entries_def output_ok_def split: option.split)
  have D_cases: "D' = D \<or> (\<exists>cid ep sq t n. ev = Some (Received cid ep sq t n) \<and> stays e e' \<and> delivers e (Received cid ep sq t n) e' \<and>
      D' = (root_of e' cid, ep, sq) # D)"
    using out by (cases ev) (auto simp: D' delivered_entries_def output_ok_def split: node_event.split)
  have S1: "good R' (set S') (set D) e' \<and> fst ` set S' \<subseteq> R' \<and> distinct S' \<and> (S' \<noteq> S \<longrightarrow> en_persist_dirty e')"
    using S_cases
  proof (elim disjE exE conjE)
    fix x cid assume "of_contact_id x = Some cid" "stays e e'" "sealed e x e'"
      and "S' = (root_of e' cid, frame_seq x) # S"
    moreover note good_seal [OF gR g' this(2,3,1)]
    moreover have "en_persist_dirty e'" using calculation(1,3) by (simp add: sealed_def)
    ultimately show ?thesis using logs dist by (auto simp: R')
  qed (use g' logs dist in \<open>auto simp: R'\<close>)
  have D1: "good R' (set S') (set D') e' \<and> fst ` set D' \<subseteq> R' \<and> distinct D' \<and> (D' \<noteq> D \<longrightarrow> en_persist_dirty e')"
    using D_cases
  proof (elim disjE exE conjE)
    fix cid ep sq t n assume st: "stays e e'" and de: "delivers e (Received cid ep sq t n) e'"
      and "D' = (root_of e' cid, ep, sq) # D"
    moreover note good_deliver [OF gR _ st de, of "set S'"]
    moreover have "en_persist_dirty e'" using de by (simp add: delivers_def)
    ultimately show ?thesis using S1 logs dist by (auto simp: R')
  qed (use S1 logs dist in \<open>auto simp: R'\<close>)
  show "good R' (set S') (set D') e'" "fst ` set S' \<subseteq> R'" "distinct S'"
    "fst ` set D' \<subseteq> R'" "distinct D'" "S' \<noteq> S \<or> D' \<noteq> D \<Longrightarrow> en_persist_dirty e'"
    using S1 D1 by blast+
qed

text \<open>A faulted engine puts nothing into the lists.\<close>

lemma faulted_entries:
  assumes "faulted e" and "op_valid e op" and "run_op C op e = ((f, ev), e')"
  shows "sealed_entries e' f = []" and "delivered_entries e' ev = []" and "faulted e'"
    and "pending_persist e' = None"
  using run_op_faulted [OF assms(1,2), of C]
  by (auto simp: assms(3) sealed_entries_def delivered_entries_def faulted_def pending_persist_def
      split: option.split)

lemma node_step_inv:
  assumes C: "crypto_sizes C" and inv: "node_inv C s" and step: "node_step C s l t"
  shows "node_inv C t"
  using step
proof (cases rule: node_step.cases)
  case (step_done op f ev e')
  note bo = inv [unfolded node_inv_def, THEN conjunct2, THEN conjunct1, rule_format]
  have logs: "logs_ok s" and dec: "\<forall>b. nd_flash s = Some b \<longrightarrow> is_ok (decode_view b)"
    using inv by (simp_all add: node_inv_def)
  show ?thesis
  proof (cases "faulted (nd_engine s)")
    case True
    note f = faulted_entries [OF True step_done(4,3)]
    have "node_good t (boot C av (nd_flash s))" for av
      using bo [of av] f by (auto simp: step_done(2) intro: good_more_roots)
    moreover have "\<not> en_persist_dirty e'" using f(3) by (simp add: faulted_def)
    ultimately show ?thesis
      using bo f logs dec by (auto simp: node_inv_def step_done(2) logs_ok_def)
  next
    case False
    then have s: "settled C (nd_engine s)" and g: "node_good s (nd_engine s)"
      using inv by (auto simp: node_inv_def)
    have fresh: "c_root (en_contacts e' ! i) \<notin> nd_roots s"
      if "i < MAX_CONTACTS" "c_present (en_contacts e' ! i)" "\<not> c_present (en_contacts (nd_engine s) ! i)" for i
      using step_done(5) that by (simp add: fresh_roots_def)
    have d: "distinct (nd_sealed s)" "distinct (nd_delivered s)" using logs by (simp_all add: logs_ok_def)
    note r = run_op_good [OF s g step_done(3) fresh logs_okD [OF logs] d refl refl refl]
    have ok: "op_ok C e'" using run_op_ok [OF C s step_done(4)] by (simp add: step_done(3))
    have lt: "logs_ok t" using r(3-6) by (simp add: logs_ok_def step_done(2))
    show ?thesis
    proof (cases "en_persist_dirty e'")
      case True
      then have st: "staged_ok C e'" using ok by (auto simp: op_ok_def settled_def)
      then have len: "length (en_contacts e') = MAX_CONTACTS"
        by (simp add: staged_ok_def core_inv_def contacts_ok_def)
      obtain b where b: "pending_persist e' = Some b" using True by (simp add: pending_persist_def)
      have gt: "node_good t e'" using r(2) by (simp add: step_done(2))
      show ?thesis
        using lt boot_good [OF st b gt] snapshot_decodes [OF st b] commit_settled [OF st] good_keeps [OF keeps_commit [OF len] gt]
        by (simp add: node_inv_def step_done(2) True b)
    next
      case False
      then have "settled C e'" using ok by (auto simp: op_ok_def staged_ok_def)
      moreover have same: "nd_sealed t = nd_sealed s" "nd_delivered t = nd_delivered s"
        using r(7) False by (auto simp: step_done(2))
      moreover have "node_good t e'" using r(2) by (simp add: step_done(2))
      moreover have "node_good t (boot C av (nd_flash s))" for av
        using bo [of av] by (auto simp: same) (auto simp: step_done(2) intro: good_more_roots)
      moreover have "pending_persist e' = None" using False by (simp add: pending_persist_def)
      ultimately show ?thesis
        using lt bo dec False by (simp add: node_inv_def) (simp add: step_done(2))
    qed
  qed
next
  case (step_save_failed op f ev e' b fl)
  note bo = inv [unfolded node_inv_def, THEN conjunct2, THEN conjunct1, rule_format]
  have logs: "logs_ok s" and dec: "\<forall>b. nd_flash s = Some b \<longrightarrow> is_ok (decode_view b)"
    using inv by (simp_all add: node_inv_def)
  have dirty: "en_persist_dirty e'" using step_save_failed(6) by (auto simp: pending_persist_def split: if_splits)
  have nf: "\<not> faulted (nd_engine s)"
  proof
    assume "faulted (nd_engine s)"
    from faulted_entries(4) [OF this step_save_failed(4,3)] step_save_failed(6) show False by simp
  qed
  then have s: "settled C (nd_engine s)" and g: "node_good s (nd_engine s)"
    using inv by (auto simp: node_inv_def)
  have fresh: "c_root (en_contacts e' ! i) \<notin> nd_roots s"
    if "i < MAX_CONTACTS" "c_present (en_contacts e' ! i)" "\<not> c_present (en_contacts (nd_engine s) ! i)" for i
    using step_save_failed(5) that by (simp add: fresh_roots_def)
  have d: "distinct (nd_sealed s)" "distinct (nd_delivered s)" using logs by (simp_all add: logs_ok_def)
  note r = run_op_good [OF s g step_save_failed(3) fresh logs_okD [OF logs] d refl refl refl]
  have st: "staged_ok C e'"
    using run_op_ok [OF C s step_save_failed(4)] dirty
    by (auto simp: step_save_failed(3) op_ok_def settled_def)
  have "settled C (boot C av fl) \<and> node_good t (boot C av fl)" for av
  proof (cases "fl = nd_flash s")
    case True
    then show ?thesis using bo [of av] by (auto simp: step_save_failed(2) intro: good_more_roots)
  next
    case False
    then have "fl = Some b" using step_save_failed(7) by simp
    with boot_good [OF st step_save_failed(6) r(1)] show ?thesis by (simp add: step_save_failed(2))
  qed
  moreover have "logs_ok t" using logs by (auto simp: logs_ok_def step_save_failed(2))
  moreover have "is_ok (decode_view x)" if "fl = Some x" for x
    using that dec snapshot_decodes [OF st step_save_failed(6)] step_save_failed(7) by auto
  ultimately show ?thesis
    using faulted_mark by (simp add: node_inv_def step_save_failed(2))
next
  case (step_restart av)
  with inv show ?thesis by (auto simp: node_inv_def logs_ok_def)
qed

lemma node_start_inv: "node_inv C (node_start C av)"
proof -
  have "settled C (Engine_new b)" for b
    using Engine_new_inv [of C b] by (simp add: settled_def) (simp add: Engine_new_def)
  moreover have "good R S D (Engine_new b)" for R S D b
    by (rule goodI) (simp_all add: Engine_new_def)
  ultimately show ?thesis by (simp add: node_inv_def node_start_def boot_def logs_ok_def)
qed

text \<open>The node is a transition system with this invariant.\<close>

interpretation nd: transition_system "node_step C" "\<lambda>s. crypto_sizes C \<longrightarrow> node_inv C s" for C
  by unfold_locales (blast intro: node_step_inv)

abbreviation node_run :: "crypto \<Rightarrow> node \<Rightarrow> node_label list \<Rightarrow> node \<Rightarrow> bool" where
  "node_run C \<equiv> transition_system.exec (node_step C)"

lemma node_run_inv:
  "crypto_sizes C \<Longrightarrow> node_run C (node_start C av) ls t \<Longrightarrow> node_inv C t"
  using nd.exec_inv [of C "node_start C av" ls t] node_start_inv by blast

end
