(* ===== verification/Node_Life.thy ===== *)
theory Node_Life
  imports Node_System Engine_Air Engine_Handshake
begin

text \<open>
  The properties of a node over its whole life (\<open>Node_System\<close>), with a life that exercises them:
  a node that is provisioned, told the time, paired, and that then sends a message or receives
  one.
\<close>

section \<open>Walking a run\<close>

text \<open>The engine and the ghost lists of a node.\<close>

definition stands :: "node \<Rightarrow> engine \<Rightarrow> (bytes \<times> u64) list \<Rightarrow> (bytes \<times> u32 \<times> u64) list \<Rightarrow> bool" where
  "stands s e S D \<longleftrightarrow> nd_engine s = e \<and> nd_sealed s = S \<and> nd_delivered s = D"

text \<open>One operation and its save, when no contact appears or no contact was ever there.\<close>

lemma walk:
  assumes "node_run C s0 ls s" and "stands s e S D" and "run_op C op e = ((f, ev), e')" and "op_valid e op"
    and "nd_roots s = {} \<or> (\<forall>i < MAX_CONTACTS. c_present (en_contacts e' ! i) \<longrightarrow> c_present (en_contacts e ! i))"
  obtains t where "node_run C s0 (ls @ [Done op]) t"
    and "stands t (if en_persist_dirty e' then commit_ok e' else e')
           (sealed_entries e' f @ S) (delivered_entries e' ev @ D)"
    and "nd_roots t = nd_roots s \<union> roots_of e'"
proof -
  have "fresh_roots s e'" using assms(2,5) by (auto simp: fresh_roots_def stands_def)
  then have "node_step C s (Done op)
       \<lparr> nd_engine = (if en_persist_dirty e' then commit_ok e' else e'),
         nd_flash = (case pending_persist e' of Some b \<Rightarrow> Some b | None \<Rightarrow> nd_flash s),
         nd_roots = nd_roots s \<union> roots_of e',
         nd_sealed = sealed_entries e' f @ nd_sealed s,
         nd_delivered = delivered_entries e' ev @ nd_delivered s \<rparr>"
    using assms(2-4) by (intro step_done) (simp_all add: stands_def)
  from that [OF nd.exec_snoc [OF assms(1) this]] show thesis
    using assms(2) by (simp add: stands_def)
qed

lemma no_roots: "en_contacts e = replicate MAX_CONTACTS Contact_empty \<Longrightarrow> roots_of e = {}"
  by (auto simp: roots_of_def)

text \<open>A silent operation on a node without contacts.\<close>

lemma walk_empty:
  assumes "node_run C s0 ls s" and "stands s e [] []" and "nd_roots s = {}"
    and "run_op C op e = ((None, None), e')" and "op_valid e op"
    and "en_contacts e' = replicate MAX_CONTACTS Contact_empty"
  obtains t where "node_run C s0 (ls @ [Done op]) t"
    and "stands t (if en_persist_dirty e' then commit_ok e' else e') [] []" and "nd_roots t = {}"
proof -
  obtain t where "node_run C s0 (ls @ [Done op]) t"
    "stands t (if en_persist_dirty e' then commit_ok e' else e')
       (sealed_entries e' None @ []) (delivered_entries e' None @ [])" "nd_roots t = nd_roots s \<union> roots_of e'"
    by (rule walk [OF assms(1,2,4,5)]) (use assms(3) in auto)
  then show thesis
    using that assms(3) no_roots [OF assms(6)] by (simp add: sealed_entries_def delivered_entries_def)
qed

section \<open>A node up to its pairing\<close>

lemma new_node_settled: "settled C (commit_ok (set_identity (Engine_new True) (replicate 8 k)))"
  by (intro committed_settled set_identity_ok settled_new)
    (simp_all add: set_identity_def stage_persist_def Engine_new_def Let_def split: prod.split)

text \<open>A provisioned node that has been told the time.\<close>

definition timed_node :: "u8 \<Rightarrow> engine" where
  "timed_node k = commit_ok (snd (set_time_confirmed (new_node k) 18000 False))"

lemma new_node_time:
  "set_time_confirmed (new_node k) 18000 False =
    (Inr 5, stage_persist (StTime 18000) ((new_node k)\<lparr> en_contacts := replicate MAX_CONTACTS Contact_empty,
       en_unix_seconds := 18000, en_time_valid := True, en_utc_mono_s := en_mono_s (new_node k) \<rparr>))"
proof -
  note n = new_node_state [of demo_crypto k]
  have "en_persisted_tx_epoch (new_node k) = 0" "\<not> en_time_valid (new_node k)"
    by (simp_all add: new_node_def provision_def set_identity_def stage_persist_def commit_ok_def Let_def
        Engine_new_def split: prod.split)
  moreover have "time_floor (new_node k) \<le> 5"
    using n calculation(1) by (simp add: time_floor_le)
  moreover have "advanced_all (replicate MAX_CONTACTS Contact_empty) 5 = replicate MAX_CONTACTS Contact_empty"
    by (simp add: advanced_all_def)
  ultimately show ?thesis using n demo_hour by (simp add: set_time_confirmed_eq)
qed

lemma timed_node_state:
  "settled C (timed_node k) \<and> \<not> en_fault (timed_node k) \<and> en_provisioned (timed_node k) \<and>
   \<not> en_radio_on (timed_node k) \<and> en_sign_set (timed_node k) \<and> en_uid_set (timed_node k) \<and>
   en_pending (timed_node k) = None \<and> en_contacts (timed_node k) = replicate MAX_CONTACTS Contact_empty \<and>
   en_sign_priv (timed_node k) = replicate 32 k \<and> en_uid (timed_node k) = replicate 8 k \<and>
   en_time_valid (timed_node k) \<and> en_unix_seconds (timed_node k) = 18000 \<and>
   en_pending_send (timed_node k) = None"
proof -
  note n = new_node_state [of C k]
  have "settled C (timed_node k)"
    unfolding timed_node_def using n set_time_confirmed_ok [of C "new_node k" 18000 False]
    by (intro committed_settled) (simp_all add: new_node_time stage_persist_def Let_def split: prod.split)
  moreover have "en_pending_send (new_node k) = None"
    by (simp add: new_node_def provision_def set_identity_def stage_persist_def commit_ok_def Let_def
        Engine_new_def split: prod.split)
  ultimately show ?thesis
    using n by (simp add: timed_node_def new_node_time commit_ok_def stage_persist_def Let_def split: prod.split)
qed

lemma timed_nodes_can_pair:
  assumes "k \<noteq> l" and "s \<noteq> 0"
  shows "can_pair demo_crypto (timed_node k) (replicate 32 s) (replicate 32 7) 0
    (k_ed_public demo_crypto (en_sign_priv (timed_node l)))"
  using new_nodes_can_pair [OF assms] new_node_state [of demo_crypto k] new_node_state [of demo_crypto l]
    timed_node_state [of demo_crypto k] timed_node_state [of demo_crypto l]
  by (simp add: can_pair_def free_slot_def)

text \<open>Its life so far, as steps of a node.\<close>

lemma timed_node_walk:
  obtains ls t where "node_run demo_crypto (node_start demo_crypto True) ls t"
    and "stands t (timed_node k) [] []" and "nd_roots t = {}"
proof -
  let ?i = "set_identity (Engine_new True) (replicate 8 k)"
  let ?p = "snd (provision (commit_ok ?i) 1 (replicate 32 k))"
  let ?t = "snd (set_time_confirmed (new_node k) 18000 False)"
  note facts = set_identity_def provision_def stage_persist_def commit_ok_def Engine_new_def Let_def
  have d: "en_persist_dirty ?i" "en_persist_dirty ?p" "en_persist_dirty ?t"
    "en_contacts ?i = replicate MAX_CONTACTS Contact_empty" "en_contacts ?p = replicate MAX_CONTACTS Contact_empty"
    by (simp_all add: facts new_node_time split: prod.split)
  have t: "en_contacts ?t = replicate MAX_CONTACTS Contact_empty"
    by (simp add: new_node_time stage_persist_def Let_def split: prod.split)
  have "stands (node_start demo_crypto True) (Engine_new True) [] []" "nd_roots (node_start demo_crypto True) = {}"
    by (simp_all add: stands_def node_start_def boot_def)
  then obtain s1 where 1: "node_run demo_crypto (node_start demo_crypto True) [Done (OpIdentity (replicate 8 k))] s1"
    "stands s1 (commit_ok ?i) [] []" "nd_roots s1 = {}"
    by (rule walk_empty [OF nd.exec_Nil, where op = "OpIdentity (replicate 8 k)" and e' = "?i"])
      (use d in \<open>auto simp: Engine_new_def\<close>)
  obtain s2 ls where 2: "node_run demo_crypto (node_start demo_crypto True) ls s2"
    "stands s2 (new_node k) [] []" "nd_roots s2 = {}"
    by (rule walk_empty [OF 1, where op = "OpProvision 1 (replicate 32 k)" and e' = "?p"])
      (use d in \<open>auto simp: new_node_def\<close>)
  obtain s3 where "node_run demo_crypto (node_start demo_crypto True) (ls @ [Done (OpTime 18000 False)]) s3"
    "stands s3 (timed_node k) [] []" "nd_roots s3 = {}"
    by (rule walk_empty [OF 2, where op = "OpTime 18000 False" and e' = "?t"])
      (use d t in \<open>auto simp: timed_node_def\<close>)
  then show thesis by (rule that)
qed

lemma import_unconfirmed_contacts:
  "en_contacts (snd (pair_import_sas C e r rep False)) = en_contacts e"
  by (simp add: pair_import_sas_def pair_contacts split: sum.split)

lemma settled_clean: "settled C e \<Longrightarrow> \<not> en_persist_dirty e"
  by (simp add: settled_def)

lemma ceremony_walk:
  assumes C: "crypto_sizes C" and "settled C a" and l: "length (k_x_public C sa) = 32" "length ca = 32"
    and run: "node_run C s0 ls s" "stands s a [] []" "nd_roots s = {}"
    and none: "en_contacts a = replicate MAX_CONTACTS Contact_empty"
    and cer: "ceremony C a sa ca b sb cb = Some ((f, out, a'), r)" and "po_step out = Active"
  obtains ls' t where "node_run C s0 ls' t" and "stands t a' [] []"
proof -
  from cer obtain oa a1 ob b1 sh a2 pf a3 pf' b3 x a4 cf a5 cf' a6
    where 1: "pair_offer C a sa (k_x_public C sa) ca = (Inr oa, a1)"
      and 2: "pair_import_sas C a1 ob False False = (Inr sh, a2)" and 3: "pair_proof C a2 = (Inr pf, a3)"
      and 4: "pair_import_sas C a3 pf' False False = (Inr x, a4)" and 5: "pair_confirm C a4 = (Inr cf, a5)"
      and 6: "pair_import_sas C a5 cf' False True = (Inr out, a6)" "a' = commit_ok a6"
    by (simp add: ceremony_def bind_eq_Some_conv split_paired_Ex) blast
  have s1: "settled C a1" using pair_offer_ok [OF C assms(2) l, of sa] 1 by simp
  have s2: "settled C a2" by (rule import_step_unconfirmed [OF s1 2])
  have s3: "settled C a3" using 3 pair_proof_ok [OF s2] by simp
  have s4: "settled C a4" by (rule import_step_unconfirmed [OF s3 4])
  have s5: "settled C a5" using 5 pair_confirm_ok [OF s4] by simp
  have n1: "en_contacts a1 = replicate MAX_CONTACTS Contact_empty"
    using 1 pair_contacts(1) [of C a sa "k_x_public C sa" ca] none by simp
  have n2: "en_contacts a2 = replicate MAX_CONTACTS Contact_empty"
    using 2 import_unconfirmed_contacts [of C a1 ob False] n1 by simp
  have n3: "en_contacts a3 = replicate MAX_CONTACTS Contact_empty" using 3 pair_contacts(2) [of C a2] n2 by simp
  have n4: "en_contacts a4 = replicate MAX_CONTACTS Contact_empty"
    using 4 import_unconfirmed_contacts [of C a3 pf' False] n3 by simp
  have n5: "en_contacts a5 = replicate MAX_CONTACTS Contact_empty" using 5 pair_contacts(3) [of C a4] n4 by simp
  have d6: "en_persist_dirty a6"
    using 6(1) assms(10)
    by (auto simp: pair_import_sas_def import_offer_def import_proof_def import_confirm_def stage_persist_def
        Let_def split: sum.splits if_splits prod.splits)
  obtain l1 t1 where t1: "node_run C s0 l1 t1" "stands t1 a1 [] []" "nd_roots t1 = {}"
    by (rule walk_empty [OF run, where op = "OpPairOffer sa (k_x_public C sa) ca" and e' = a1])
      (use 1 l n1 settled_clean [OF s1] in auto)
  obtain l2 t2 where t2: "node_run C s0 l2 t2" "stands t2 a2 [] []" "nd_roots t2 = {}"
    by (rule walk_empty [OF t1, where op = "OpPairImport ob False False" and e' = a2])
      (use 2 n2 settled_clean [OF s2] in auto)
  obtain l3 t3 where t3: "node_run C s0 l3 t3" "stands t3 a3 [] []" "nd_roots t3 = {}"
    by (rule walk_empty [OF t2, where op = OpPairProof and e' = a3])
      (use 3 n3 settled_clean [OF s3] in auto)
  obtain l4 t4 where t4: "node_run C s0 l4 t4" "stands t4 a4 [] []" "nd_roots t4 = {}"
    by (rule walk_empty [OF t3, where op = "OpPairImport pf' False False" and e' = a4])
      (use 4 n4 settled_clean [OF s4] in auto)
  obtain l5 t5 where t5: "node_run C s0 l5 t5" "stands t5 a5 [] []" "nd_roots t5 = {}"
    by (rule walk_empty [OF t4, where op = OpPairConfirm and e' = a5])
      (use 5 n5 settled_clean [OF s5] in auto)
  obtain t6 where "node_run C s0 (l5 @ [Done (OpPairImport cf' False True)]) t6" "stands t6 a' [] []"
    by (rule walk [OF t5(1,2), where op = "OpPairImport cf' False True" and e' = a6 and f = None and ev = None])
      (use 6 t5(3) d6 in \<open>auto simp: sealed_entries_def delivered_entries_def\<close>)
  then show thesis by (rule that)
qed

section \<open>A paired node sends\<close>

text \<open>Contact 1 can be sent to, with sequence number \<open>n\<close> under root \<open>r\<close>.\<close>

definition ready :: "crypto \<Rightarrow> engine \<Rightarrow> u64 \<Rightarrow> bytes \<Rightarrow> bool" where
  "ready C e n r \<longleftrightarrow> settled C e \<and> check_usable e = Inr () \<and> en_time_valid e \<and> en_pending_send e = None \<and>
     (let c = en_contacts e ! 0 in c_present c \<and> \<not> c_blocked c \<and> c_tx_epoch_max c \<le> Engine_epoch e \<and>
        c_tx_next c = n \<and> c_root c = r)"

lemma ready_begin:
  assumes r: "ready C e n r" and "unat n + 32 < 2 ^ 64"
  obtains ps e' where "send_begin e 1 [72] 7 = (Inr ps, e')" and "en_contacts e' = en_contacts e"
    and "en_persist_dirty e'"
proof -
  have "\<exists>op. send_begin_check e 1 [72] = Inr (0, op)"
    using r assms(2)
    by (auto simp: send_begin_check_Inr ready_def Let_def slot_of_Inr data_body_ok_def consts_defs
        MAX_CONTACTS_def checked_add_Some unat_of_nat)
  then obtain op where "send_begin_check e 1 [72] = Inr (0, op)" by blast
  then have "\<exists>ps e'. send_begin e 1 [72] 7 = (Inr ps, e') \<and> en_contacts e' = en_contacts e \<and> en_persist_dirty e'"
    by (simp add: send_begin_def Let_def stage_persist_def split: prod.split)
  then show thesis using that by blast
qed

lemma first_contact: "i < MAX_CONTACTS \<Longrightarrow> (of_nat (i + 1) :: u8) = 1 \<Longrightarrow> i = 0"
proof -
  assume i: "i < MAX_CONTACTS" and w: "(of_nat (i + 1) :: u8) = 1"
  have "unat (of_nat (i + 1) :: u8) = i + 1"
    using i by (simp only: unat_of_nat) (simp add: take_bit_nat_eq_self MAX_CONTACTS_def)
  with w show "i = 0" by simp
qed

lemma commit_seconds: "en_unix_seconds (commit_ok e) = en_unix_seconds e"
  by (simp add: commit_ok_def Let_def split: option.split staged_commit.split)

lemma send_walk:
  assumes C: "crypto_sizes C" "aead_correct C" and r: "ready C e n r" and n: "unat n + 32 < 2 ^ 64"
    and run: "node_run C s0 ls s" "stands s e S D"
  obtains ls' t e' where "node_run C s0 ls' t" and "stands t e' ((r, n) # S) D" and "ready C e' (n + 1) r"
proof -
  have s: "settled C e" using r by (simp add: ready_def)
  have len: "length (en_contacts e) = MAX_CONTACTS" by (rule settled_length [OF s])
  obtain ps e1 where b: "send_begin e 1 [72] 7 = (Inr ps, e1)" and c1: "en_contacts e1 = en_contacts e"
    and d1: "en_persist_dirty e1" by (rule ready_begin [OF r n])
  from begin_emit [OF s C(2) b] obtain f e2 slot where sl: "slot_of e 1 = Inr slot"
    and ps: "ps_contact_id ps = 1" "ps_epoch ps = Engine_epoch e" and em: "send_emit C (commit_ok e1) = (Inr f, e2)"
    and f: "of_contact_id f = Some 1"
    and q: "quiet (commit_ok e1) (refresh_aliases C slot (commit_ok e1))"
    and e2: "e2 = stage_persist StNone (used_one slot (Engine_epoch e) (refresh_aliases C slot (commit_ok e1)))"
    by (metis pending_send.select_convs(1,2))
  have slot: "slot = 0" using sl by (simp add: slot_of_Inr)
  have s1: "settled C (commit_ok e1)"
    using send_begin_ok [OF s, of 1 "[72]" 7] b d1 by (intro committed_settled) simp_all
  from send_emit_sealed [OF s1 em] have st: "stays (commit_ok e1) e2" and se: "sealed (commit_ok e1) f e2"
    by simp_all
  obtain t1 l1 where t1: "node_run C s0 l1 t1" "stands t1 (commit_ok e1) S D"
    by (rule walk [OF run, where op = "OpSendBegin 1 [72] 7" and e' = e1 and f = None and ev = None])
      (use b c1 d1 in \<open>auto simp: sealed_entries_def delivered_entries_def\<close>)
  have d2: "en_persist_dirty e2" using se f by (auto simp: sealed_def)
  have nr: "\<not> of_is_retry_echo f"
    using em by (auto simp: send_emit_def Let_def split: sum.splits if_splits prod.splits)
  have c0: "en_contacts (commit_ok e1) ! 0 = (en_contacts e ! 0)\<lparr> c_tx_reserved := eff_reserved e1 0 \<rparr>"
    using nth_commit [of 0 e1] len c1 by (simp add: MAX_CONTACTS_def)
  let ?r = "refresh_aliases C slot (commit_ok e1)"
  have sq: "same_link (en_contacts (commit_ok e1) ! 0) (en_contacts ?r ! 0)"
    using quiet_nth [OF q, of 0] len c1 by (simp add: MAX_CONTACTS_def)
  have e20: "en_contacts e2 ! 0 = (en_contacts ?r ! 0)\<lparr> c_tx_next := c_tx_next (en_contacts ?r ! 0) + 1,
      c_tx_epoch_max := max (c_tx_epoch_max (en_contacts ?r ! 0)) (Engine_epoch e) \<rparr>"
    using len c1 by (simp add: e2 slot used_one_def nth_upd_contact MAX_CONTACTS_def)
  have sf: "sealed_entries e2 (Some f) = [(r, n)]"
  proof -
    have "root_of e2 1 = r"
      using same_linkD(4) [OF sq] r by (simp add: root_of_def e20 c0 ready_def Let_def)
    moreover have "frame_seq f = n"
      using se f c0 r by (auto simp: sealed_def ready_def Let_def dest!: first_contact [OF _ sym])
    ultimately show ?thesis by (simp add: sealed_entries_def f nr)
  qed
  obtain t2 l2 where t2: "node_run C s0 l2 t2" "stands t2 (commit_ok e2) ((r, n) # S) D"
    by (rule walk [OF t1, where op = OpSendEmit and e' = e2 and f = "Some f" and ev = None])
      (use em d2 st sf in \<open>auto simp: delivered_entries_def stays_def\<close>)
  let ?e = "send_complete (commit_ok e2) True"
  have s2: "settled C (commit_ok e2)"
    using send_emit_ok [OF s1] em d2 by (intro committed_settled) simp_all
  have s3: "settled C ?e" by (rule send_complete_ok [OF s2])
  obtain t3 l3 where t3: "node_run C s0 l3 t3" "stands t3 ?e ((r, n) # S) D"
    by (rule walk [OF t2, where op = "OpSendComplete True" and e' = ?e and f = None and ev = None])
      (use settled_clean [OF s3] in \<open>auto simp: sealed_entries_def delivered_entries_def send_complete_def\<close>)
  have fld: "en_fault e2 = en_fault e" "en_provisioned e2 = en_provisioned e" "en_time_valid e2 = en_time_valid e"
    "en_unix_seconds e2 = en_unix_seconds e" "en_staged e2 = Some StNone"
    using b
    by (auto simp: e2 used_one_def commit_seconds send_begin_def Let_def split: sum.splits prod.splits)
  have c2: "en_contacts ?e = en_contacts e2"
    using fld by (simp add: send_complete_def commit_ok_def Let_def)
  have "check_usable ?e = check_usable e" "Engine_epoch ?e = Engine_epoch e" "en_time_valid ?e = en_time_valid e"
    using fld by (simp_all add: send_complete_def check_usable_def Engine_epoch_def commit_seconds)
  moreover have "en_pending_send ?e = None" by (simp add: send_complete_def)
  moreover have "c_present (en_contacts e2 ! 0) \<and> \<not> c_blocked (en_contacts e2 ! 0) \<and>
      c_tx_epoch_max (en_contacts e2 ! 0) \<le> Engine_epoch e \<and> c_tx_next (en_contacts e2 ! 0) = n + 1 \<and>
      c_root (en_contacts e2 ! 0) = r"
    using r same_linkD(1,2,4,9,11) [OF sq] by (simp add: e20 c0 ready_def Let_def)
  ultimately have "ready C ?e (n + 1) r"
    using r s3 by (simp add: ready_def Let_def c2)
  with t3 show thesis by (rule that)
qed

section \<open>A pair of nodes\<close>

lemma ceremony_settled:
  assumes C: "crypto_sizes C" and a: "settled C a" "length (k_x_public C sa) = 32" "length ca = 32"
    and b: "settled C b" "length (k_x_public C sb) = 32" "length cb = 32"
    and cer: "ceremony C a sa ca b sb cb = Some ((f, out, a'), (g, out', b'))"
    and act: "po_step out = Active" "po_step out' = Active"
  shows "settled C a'" and "settled C b'"
proof -
  have last: "settled C (commit_ok e')" if "settled C e" "pair_import_sas C e r False True = (Inr o1, e')"
    "po_step o1 = Active" for e r o1 e'
  proof (rule committed_settled)
    show "op_ok C e'" using pair_import_sas_ok [OF C that(1), of r False True] that(2) by simp
    show "en_persist_dirty e'"
      using that(2,3) by (auto simp: pair_import_sas_def import_offer_def import_proof_def import_confirm_def
          stage_persist_def Let_def split: sum.splits if_splits prod.splits)
  qed
  from cer obtain oa a1 ob b1 sh a2 sh' b2 pf a3 pf' b3 x a4 x' b4 cf a5 cf' b5 a6 b6
    where A: "pair_offer C a sa (k_x_public C sa) ca = (Inr oa, a1)" "pair_import_sas C a1 ob False False = (Inr sh, a2)"
      "pair_proof C a2 = (Inr pf, a3)" "pair_import_sas C a3 pf' False False = (Inr x, a4)"
      "pair_confirm C a4 = (Inr cf, a5)" "pair_import_sas C a5 cf' False True = (Inr out, a6)" "a' = commit_ok a6"
    and B: "pair_offer C b sb (k_x_public C sb) cb = (Inr ob, b1)" "pair_import_sas C b1 oa False False = (Inr sh', b2)"
      "pair_proof C b2 = (Inr pf', b3)" "pair_import_sas C b3 pf False False = (Inr x', b4)"
      "pair_confirm C b4 = (Inr cf', b5)" "pair_import_sas C b5 cf False True = (Inr out', b6)" "b' = commit_ok b6"
    by (auto simp: ceremony_def bind_eq_Some_conv)
  have side: "settled C e5" if "settled C e" "length (k_x_public C s) = 32" "length c = 32"
    "pair_offer C e s (k_x_public C s) c = (Inr o1, e1)" "pair_import_sas C e1 r1 False False = (Inr o2, e2)"
    "pair_proof C e2 = (Inr o3, e3)" "pair_import_sas C e3 r2 False False = (Inr o4, e4)"
    "pair_confirm C e4 = (Inr o5, e5)" for e s c o1 e1 r1 o2 e2 o3 e3 r2 o4 e4 o5 e5
  proof -
    have "settled C e1" using pair_offer_ok [OF C that(1-3), of s] that(4) by simp
    from import_step_unconfirmed [OF this that(5)] have "settled C e3" using pair_proof_ok [of C e2] that(6) by simp
    from import_step_unconfirmed [OF this that(7)] show ?thesis using pair_confirm_ok [of C e4] that(8) by simp
  qed
  show "settled C a'" using last [OF side [OF a A(1-5)] A(6) act(1)] by (simp add: A(7))
  show "settled C b'" using last [OF side [OF b B(1-5)] B(6) act(2)] by (simp add: B(7))
qed

lemma activated_unseen: "\<not> rx_seen (activated C e k i r ro) (Engine_epoch e) sq"
  by (simp add: rx_seen_def slots_shape)

text \<open>The life of a node up to its first contact, and the engine at the other end.\<close>

lemma paired_life:
  obtains ls t a b root where "node_run demo_crypto (node_start demo_crypto True) ls t" and "stands t a [] []"
    and "ready demo_crypto a 0 root" and "ready demo_crypto b 0 root" and "linked a 0 b 0"
    and "Engine_epoch a = 5" and "Engine_epoch b = 5"
    and "\<forall>sq. \<not> rx_seen (en_contacts a ! 0) 5 sq"
proof -
  let ?a = "timed_node 1" and ?b = "timed_node 2" and ?s = "replicate 32 5" and ?s' = "replicate 32 6"
    and ?c = "replicate 32 7"
  note ta = timed_node_state [of demo_crypto 1] and tb = timed_node_state [of demo_crypto 2]
  have l: "length (k_x_public demo_crypto k) = 32" for k by (simp add: demo_crypto_def)
  have pa: "can_pair demo_crypto ?a ?s ?c 0 (k_ed_public demo_crypto (en_sign_priv ?b))"
    and pb: "can_pair demo_crypto ?b ?s' ?c 0 (k_ed_public demo_crypto (en_sign_priv ?a))"
    by (rule timed_nodes_can_pair; simp)+
  let ?x = "own_offer demo_crypto ?a ?s ?c" and ?y = "own_offer demo_crypto ?b ?s' ?c"
  let ?root = "meeting_root demo_crypto ?s ?x ?y"
  let ?r = "role_for (o_ed_pub ?x) (o_ed_pub ?y)" and ?r' = "role_for (o_ed_pub ?y) (o_ed_pub ?x)"
  obtain f out a g out' b where cer: "ceremony demo_crypto ?a ?s ?c ?b ?s' ?c = Some ((f, out, a), (g, out', b))"
    and act: "po_step out = Active" "po_step out' = Active"
    and ca: "en_contacts a = (en_contacts ?a)[0 := activated demo_crypto ?a (o_ed_pub ?y) (en_uid ?b) ?root ?r]"
    and cb: "en_contacts b = (en_contacts ?b)[0 := activated demo_crypto ?b (o_ed_pub ?x) (en_uid ?a) ?root ?r']"
    and ua: "unmoved ?a a" and ub: "unmoved ?b b"
    by (rule ceremony_completes [OF demo_crypto_sizes demo_aead_correct demo_sign_correct
          demo_dh_commutes pa pb demo_meeting]) fastforce
  have "settled demo_crypto ?a" "settled demo_crypto ?b" using ta tb by simp_all
  note s = ceremony_settled [OF demo_crypto_sizes this(1) l length_replicate this(2) l length_replicate cer act]
  obtain ls t where run: "node_run demo_crypto (node_start demo_crypto True) ls t" "stands t ?a [] []" "nd_roots t = {}"
    by (rule timed_node_walk)
  obtain ls' t' where run': "node_run demo_crypto (node_start demo_crypto True) ls' t'" "stands t' a [] []"
    by (rule ceremony_walk [OF demo_crypto_sizes _ l length_replicate run _ cer act(1)]) (use ta in auto)
  have ep: "Engine_epoch ?a = 5" "Engine_epoch ?b = 5"
    using ta tb demo_hour by (simp_all add: Engine_epoch_def)
  have c0: "en_contacts a ! 0 = activated demo_crypto ?a (o_ed_pub ?y) (en_uid ?b) ?root ?r"
    "en_contacts b ! 0 = activated demo_crypto ?b (o_ed_pub ?x) (en_uid ?a) ?root ?r'"
    using ta tb by (simp_all add: ca cb MAX_CONTACTS_def)
  have ne: "(?r = ROLE_L) \<noteq> (?r' = ROLE_L)"
    using pa by (auto simp: can_pair_def own_offer_def role_for_def ROLE_L_def ROLE_R_def)
  show thesis
  proof (rule that [OF run'])
    show "ready demo_crypto a 0 ?root" "ready demo_crypto b 0 ?root"
      using ta tb ua ub s ep c0 unmoved_epoch [OF ua] unmoved_epoch [OF ub]
      by (simp_all add: ready_def unmoved_def check_usable_def Let_def)
    show "linked a 0 b 0"
      using c0 ne ua ub by (simp add: linked_def Let_def unmoved_def MAX_CONTACTS_def)
    show "Engine_epoch a = 5" "Engine_epoch b = 5" using ep ua ub by (simp_all add: unmoved_epoch)
    show "\<forall>sq. \<not> rx_seen (en_contacts a ! 0) 5 sq"
      using activated_unseen [of demo_crypto ?a] ep by (simp add: c0)
  qed
qed

section \<open>Lives for the witnesses\<close>

lemma life_with_a_save:
  obtains ls t b where "node_run demo_crypto (node_start demo_crypto True) ls t" and "nd_flash t = Some b"
proof -
  let ?s = "node_start demo_crypto True" and ?op = "OpIdentity (replicate 8 1)"
  let ?e = "set_identity (Engine_new True) (replicate 8 1)"
  obtain e' where d: "e' = ?e" by simp
  have e': "run_op demo_crypto ?op (nd_engine ?s) = ((None, None), e')"
    by (simp add: d node_start_def boot_def)
  have c: "en_contacts e' = replicate MAX_CONTACTS Contact_empty" and "en_persist_dirty e'"
    by (simp_all add: d set_identity_def stage_persist_def Engine_new_def Let_def split: prod.split)
  then obtain b where b: "pending_persist e' = Some b" by (simp add: pending_persist_def)
  have "fresh_roots ?s e'" by (simp add: fresh_roots_def c)
  then have "node_step demo_crypto ?s (Done ?op)
       \<lparr> nd_engine = (if en_persist_dirty e' then commit_ok e' else e'),
         nd_flash = (case pending_persist e' of Some b \<Rightarrow> Some b | None \<Rightarrow> nd_flash ?s),
         nd_roots = nd_roots ?s \<union> roots_of e', nd_sealed = sealed_entries e' None @ nd_sealed ?s,
         nd_delivered = delivered_entries e' None @ nd_delivered ?s \<rparr>"
    using e' by (intro step_done) (simp_all add: node_start_def boot_def Engine_new_def)
  from that [OF nd.exec_snoc [OF nd.exec_Nil this]] show thesis by (simp add: b)
qed

lemma life_with_two_sends:
  obtains ls t root where "node_run demo_crypto (node_start demo_crypto True) ls t"
    and "nd_sealed t = [(root, 1), (root, 0)]"
proof -
  obtain ls t a b root where r: "node_run demo_crypto (node_start demo_crypto True) ls t" "stands t a [] []"
    "ready demo_crypto a 0 root" by (rule paired_life)
  obtain l1 t1 a1 where r1: "node_run demo_crypto (node_start demo_crypto True) l1 t1"
    "stands t1 a1 [(root, 0)] []" "ready demo_crypto a1 (0 + 1) root"
    by (rule send_walk [OF demo_crypto_sizes demo_aead_correct r(3) _ r(1,2)]) simp
  obtain l2 t2 a2 where r2: "node_run demo_crypto (node_start demo_crypto True) l2 t2"
    "stands t2 a2 [(root, 0 + 1), (root, 0)] []"
    by (rule send_walk [OF demo_crypto_sizes demo_aead_correct r1(3) _ r1(1,2)]) simp
  from that [OF r2(1)] r2(2) show thesis by (simp add: stands_def)
qed

lemma life_with_a_delivery:
  obtains ls t root where "node_run demo_crypto (node_start demo_crypto True) ls t"
    and "nd_delivered t = [(root, 5, 0)]"
proof -
  obtain ls t a b root where run: "node_run demo_crypto (node_start demo_crypto True) ls t" "stands t a [] []"
    and a: "ready demo_crypto a 0 root" and b: "ready demo_crypto b 0 root" and l: "linked a 0 b 0"
    and ep: "Engine_epoch a = 5" "Engine_epoch b = 5" and un: "\<forall>sq. \<not> rx_seen (en_contacts a ! 0) 5 sq"
    by (rule paired_life)
  have sa: "settled demo_crypto a" and sb: "settled demo_crypto b" using a b by (simp_all add: ready_def)
  obtain ps b1 where sd: "send_begin b 1 [72] 7 = (Inr ps, b1)" by (rule ready_begin [OF b]) simp
  then have ps: "ps_epoch ps = 5" "ps_sequence ps = 0"
    using b ep by (auto simp: send_begin_def send_begin_check_Inr slot_of_Inr ready_def Let_def split: sum.splits)
  have aw: "awake a (ps_epoch ps)"
    using a ep ps by (simp add: awake_def ready_def check_usable_def in_accept_window_def split: if_splits)
  have "\<exists>f b2. send_emit demo_crypto (commit_ok b1) = (Inr f, b2) \<and>
    (\<forall>frame. arrives_as (OutgoingFrame_as_slice f) frame \<longrightarrow>
      (\<exists>ack a' tb. on_frame demo_crypto a frame 0 9 =
        ((Deliver (of_nat (0 + 1)) (of_nat (length [72 :: u8])), ack,
          Some (Received (of_nat (0 + 1)) (ps_epoch ps) (ps_sequence ps) tb (of_nat (length [72 :: u8])))), a') \<and>
        take (length [72 :: u8]) tb = [72] \<and>
        (unat (c_tx_next (en_contacts a ! 0)) + 32 < 2 ^ 64 \<longrightarrow> ack \<noteq> None)))"
    using linked_sym [OF l] un a ps
    by (intro message_delivered [OF demo_aead_correct sb sa sd _ aw]) (simp_all add: ready_def Let_def)
  then obtain f ack a' tb where o: "on_frame demo_crypto a (OutgoingFrame_as_slice f) 0 9 =
      ((Deliver 1 1, ack, Some (Received 1 5 0 tb 1)), a')"
    by (auto simp: ps arrives_as_def)
  from on_frame_result [OF sa, of "OutgoingFrame_as_slice f" 0 9] have r: "result_ok a (Deliver 1 1, ack, Some (Received 1 5 0 tb 1)) a'"
    by (simp add: o)
  obtain t' ls' where "node_run demo_crypto (node_start demo_crypto True) ls' t'"
    "stands t' (if en_persist_dirty a' then commit_ok a' else a') (sealed_entries a' ack @ [])
       (delivered_entries a' (Some (Received 1 5 0 tb 1)) @ [])"
    by (rule walk [OF run, where op = "OpFrame (OutgoingFrame_as_slice f) 0 9" and e' = a' and f = ack
          and ev = "Some (Received 1 5 0 tb 1)"]) (use o r in \<open>auto simp: result_ok_def stays_def\<close>)
  from that [OF this(1)] this(2) show thesis by (simp add: stands_def delivered_entries_def)
qed

section \<open>Properties\<close>



text \<open>C2: A message, named by the pair root, epoch and sequence number of its frame, is delivered
  at most once in the whole life of the node, across restarts, failed saves and time changes.\<close>

theorem delivered_at_most_once:
  assumes "crypto_sizes C" and "node_run C (node_start C av) ls t"
  shows "distinct (nd_delivered t)"
  using node_run_inv [OF assms] by (simp add: node_inv_def logs_ok_def)

lemma delivered_at_most_once_witness:
  "\<exists>ls t root. node_run demo_crypto (node_start demo_crypto True) ls t \<and>
     nd_delivered t = [(root, 5, 0)] \<and> distinct (nd_delivered t)"
proof -
  obtain ls t root where "node_run demo_crypto (node_start demo_crypto True) ls t"
    "nd_delivered t = [(root, 5, 0)]" by (rule life_with_a_delivery)
  with delivered_at_most_once [OF demo_crypto_sizes this(1)] show ?thesis by blast
qed

text \<open>C3: Whatever happened before, what flash holds decodes, and the engine restored from it
  satisfies the whole invariant with nothing staged: a snapshot the node wrote never bricks it.\<close>

theorem flash_always_restores:
  assumes "crypto_sizes C" and "node_run C (node_start C av) ls t"
  shows "settled C (boot C av' (nd_flash t)) \<and>
    (\<forall>b. nd_flash t = Some b \<longrightarrow> fst (restore C (Engine_new av') b) = Inr ())"
proof -
  have "is_ok (decode_view b)" if "nd_flash t = Some b" for b
    using node_run_inv [OF assms] that by (simp add: node_inv_def)
  then have "fst (restore C (Engine_new av') b) = Inr ()" if "nd_flash t = Some b" for b
    using that by (cases "decode_view b") (auto simp: restore_def)
  with node_run_inv [OF assms] show ?thesis by (simp add: node_inv_def)
qed

lemma flash_always_restores_witness:
  "\<exists>ls t b. node_run demo_crypto (node_start demo_crypto True) ls t \<and> nd_flash t = Some b \<and>
     settled demo_crypto (boot demo_crypto False (nd_flash t)) \<and>
     fst (restore demo_crypto (Engine_new False) b) = Inr ()"
proof -
  obtain ls t b where l: "node_run demo_crypto (node_start demo_crypto True) ls t" "nd_flash t = Some b"
    by (rule life_with_a_save)
  with flash_always_restores [OF demo_crypto_sizes l(1), of False] show ?thesis by blast
qed

text \<open>C4: Every operation keeps the invariant of the engine: from a state with nothing staged it
  leads to one that, once the staged snapshot has been saved, is such a state again.\<close>

theorem operations_keep_the_invariant:
  assumes "crypto_sizes C" and "settled C e" and "op_valid e op"
  shows "let e' = snd (run_op C op e) in
    settled C (if en_persist_dirty e' then commit_ok e' else e')"
  using run_op_ok [OF assms] commit_settled [of C "snd (run_op C op e)"]
  by (auto simp: Let_def op_ok_def settled_def staged_ok_def)

lemma operations_keep_the_invariant_witness:
  "let e' = snd (run_op demo_crypto (OpProvision 2 (replicate 32 5)) (Engine_new True)) in
    settled demo_crypto (if en_persist_dirty e' then commit_ok e' else e')"
proof -
  have "settled demo_crypto (Engine_new True)"
    using node_start_inv [of demo_crypto True] faulted_def
    by (auto simp: node_inv_def node_start_def boot_def)
  then show ?thesis by (rule operations_keep_the_invariant [OF demo_crypto_sizes]) simp
qed

text \<open>C5: After a save has failed the engine is silent until it restarts: no operation seals or
  repeats a frame of its own, reports an event, stages anything or touches a contact; it only
  still forwards frames of others.\<close>

theorem faulted_engine_is_silent:
  assumes "faulted e" and "op_valid e op"
  shows "let ((f, ev), e') = run_op C op e in
    faulted e' \<and> ev = None \<and> (case f of None \<Rightarrow> True | Some x \<Rightarrow> of_contact_id x = None) \<and>
    en_contacts e' = en_contacts e"
  using run_op_faulted [OF assms, of C] by (auto split: option.split)

lemma faulted_engine_is_silent_witness:
  "let ((f, ev), e') = run_op demo_crypto OpSendEmit (mark_fault (discard_staged (Engine_new True))) in
    faulted e' \<and> ev = None \<and> (case f of None \<Rightarrow> True | Some x \<Rightarrow> of_contact_id x = None) \<and>
    en_contacts e' = en_contacts (mark_fault (discard_staged (Engine_new True)))"
  by (rule faulted_engine_is_silent [OF faulted_mark]) simp

end
