(* ===== verification/Usb_Json.thy ===== *)
theory Usb_Json
  imports Security Pairing
begin

text \<open>
  The reply writer of \<open>firmware/src/usb.rs\<close>: \<open>JsonWriter\<close> appends to a fixed buffer and every
  method returns \<open>Option<()>\<close>, so that a reply that does not fit stops at the first write that
  fails. A method is a function that returns whether it succeeded with the writer afterwards; a
  chain of \<open>?\<close> is \<open>w_all\<close>. The specification side is a JSON value type with its text, and
  \<open>emits\<close>: a step that appends exactly a given text or fails.
\<close>

section \<open>The writer\<close>

text \<open>The \<open>first\<close> flag of the object under construction, a local of each caller that is passed by
  reference, is kept beside the buffer; \<open>new_object\<close> is its declaration.\<close>

record json_writer =
  jw_buf :: bytes
  jw_len :: nat
  jw_first :: bool

type_synonym wstep = "json_writer \<Rightarrow> bool \<times> json_writer"

definition JsonWriter_new :: "bytes \<Rightarrow> json_writer" where
  "JsonWriter_new buf = \<lparr> jw_buf = buf, jw_len = 0, jw_first = True \<rparr>"

definition jraw :: "bytes \<Rightarrow> wstep" where
  "jraw bs w =
     (let e = jw_len w + length bs in
      if e \<le> length (jw_buf w)
      then (True, w\<lparr> jw_buf := put_at (jw_len w) bs (jw_buf w), jw_len := e \<rparr>)
      else (False, w))"

primrec w_all :: "wstep list \<Rightarrow> wstep" where
  "w_all [] w = (True, w)"
| "w_all (s # ss) w = (case s w of (True, w) \<Rightarrow> w_all ss w | (False, w) \<Rightarrow> (False, w))"

text \<open>\<open>num\<close>: the digits fill a 20-byte scratch buffer from its end.\<close>

function num_loop :: "nat \<Rightarrow> nat \<Rightarrow> bytes \<Rightarrow> nat \<times> bytes" where
  "num_loop n i tmp =
     (if n = 0 then (i, tmp)
      else num_loop (n div 10) (i - 1) (tmp[i - 1 := 0x30 + of_nat (n mod 10)]))"
  by pat_completeness auto
termination by (relation "measure (\<lambda>(n, _). n)") auto

declare num_loop.simps [simp del]

definition jnum :: "u64 \<Rightarrow> wstep" where
  "jnum v w =
     (let tmp = replicate 20 0;
          (i, tmp) = (if v = 0 then (19, tmp[19 := 0x30]) else num_loop (unat v) 20 tmp)
      in jraw (drop i tmp) w)"

definition new_object :: wstep where
  "new_object w = (True, w\<lparr> jw_first := True \<rparr>)"

definition jcomma :: wstep where
  "jcomma w =
     (case (if jw_first w then (True, w) else jraw [0x2C] w) of
        (True, w) \<Rightarrow> (True, w\<lparr> jw_first := False \<rparr>)
      | (False, w) \<Rightarrow> (False, w))"

definition jkey :: "string \<Rightarrow> wstep" where
  "jkey name = w_all [jcomma, jraw [0x22], jraw (ascii name), jraw [0x22, 0x3A]]"

definition num_field :: "string \<Rightarrow> u64 \<Rightarrow> wstep" where
  "num_field name v = w_all [jkey name, jnum v]"

definition bool_field :: "string \<Rightarrow> bool \<Rightarrow> wstep" where
  "bool_field name v = w_all [jkey name, jraw (ascii (if v then ''true'' else ''false''))]"

definition lit_field :: "string \<Rightarrow> bytes \<Rightarrow> wstep" where
  "lit_field name v = w_all [jkey name, jraw [0x22], jraw v, jraw [0x22]]"

text \<open>One turn of the loop of \<open>quoted_escaped\<close>: what is written for the byte at the front, and the
  bytes left; \<open>None\<close> when a sequence announced by its first byte runs past the end.\<close>

definition escape_one :: "u8 \<Rightarrow> bytes \<Rightarrow> (bytes list \<times> bytes) option" where
  "escape_one b rest =
     (if b = 0x22 then Some ([[0x5C, 0x22]], rest)
      else if b = 0x5C then Some ([[0x5C, 0x5C]], rest)
      else if b = 0x0A then Some ([[0x5C, 0x6E]], rest)
      else if b = 0x0D then Some ([[0x5C, 0x72]], rest)
      else if b = 0x09 then Some ([[0x5C, 0x74]], rest)
      else if b = 0x08 then Some ([[0x5C, 0x62]], rest)
      else if b = 0x0C then Some ([[0x5C, 0x66]], rest)
      else if 0x20 \<le> b \<and> b \<le> 0x7E then Some ([[b]], rest)
      else if 0xC2 \<le> b \<and> b \<le> 0xF4 then
        (let len = (if b \<ge> 0xF0 then 4 else if b \<ge> 0xE0 then 3 else 2) in
         if len \<le> Suc (length rest)
         then Some ([b # take (len - 1) rest], drop (len - 1) rest) else None)
      else Some ([[0x5C, 0x75, 0x30, 0x30],
                  [HEX_DIGITS ! unat (drop_bit 4 b), HEX_DIGITS ! unat (b AND 0x0F)]], rest))"

lemma escape_one_shorter: "escape_one b rest = Some (ws, rest') \<Longrightarrow> length rest' \<le> length rest"
  by (auto simp: escape_one_def Let_def split: if_splits)

function escape_loop :: "bytes \<Rightarrow> wstep" where
  "escape_loop [] w = (True, w)"
| "escape_loop (b # rest) w =
     (case escape_one b rest of
        None \<Rightarrow> (False, w)
      | Some (ws, rest') \<Rightarrow>
          (case w_all (map jraw ws) w of
             (True, w) \<Rightarrow> escape_loop rest' w
           | (False, w) \<Rightarrow> (False, w)))"
  by pat_completeness auto
termination
  by (relation "measure (\<lambda>(bs, _). length bs)") (auto dest: escape_one_shorter simp: less_Suc_eq_le)

definition quoted_escaped :: "bytes \<Rightarrow> wstep" where
  "quoted_escaped bs = w_all [jraw [0x22], escape_loop bs, jraw [0x22]]"

section \<open>JSON values and their text\<close>

text \<open>What a reply says, apart from how it is written. A string is its UTF-8 bytes.\<close>

datatype json =
    JNum nat
  | JBool bool
  | JStr bytes
  | JArr "json list"
  | JObj "(string \<times> json) list"

text \<open>Decimal digits, most significant first.\<close>

fun digits :: "nat \<Rightarrow> bytes" where
  "digits n = (if n < 10 then [0x30 + of_nat n] else digits (n div 10) @ [0x30 + of_nat (n mod 10)])"

declare digits.simps [simp del]

definition escape_byte :: "u8 \<Rightarrow> bytes" where
  "escape_byte b =
     (if b = 0x22 then [0x5C, 0x22]
      else if b = 0x5C then [0x5C, 0x5C]
      else if b = 0x0A then [0x5C, 0x6E]
      else if b = 0x0D then [0x5C, 0x72]
      else if b = 0x09 then [0x5C, 0x74]
      else if b = 0x08 then [0x5C, 0x62]
      else if b = 0x0C then [0x5C, 0x66]
      else if b < 0x20 \<or> b = 0x7F then [0x5C, 0x75, 0x30, 0x30] @ hex_pair b
      else [b])"

definition json_string :: "bytes \<Rightarrow> bytes" where
  "json_string s = [0x22] @ concat (map escape_byte s) @ [0x22]"

fun joined :: "bytes list \<Rightarrow> bytes" where
  "joined [] = []"
| "joined [x] = x"
| "joined (x # y # xs) = x @ [0x2C] @ joined (y # xs)"

fun json_text :: "json \<Rightarrow> bytes" where
  "json_text (JNum n) = digits n"
| "json_text (JBool b) = ascii (if b then ''true'' else ''false'')"
| "json_text (JStr s) = json_string s"
| "json_text (JArr vs) = [0x5B] @ joined (map json_text vs) @ [0x5D]"
| "json_text (JObj fs) =
     [0x7B] @ joined (map (\<lambda>(k, v). json_string (ascii k) @ [0x3A] @ json_text v) fs) @ [0x7D]"

text \<open>Text that is its own JSON spelling.\<close>

definition plain_text :: "bytes \<Rightarrow> bool" where
  "plain_text s \<longleftrightarrow> (\<forall>b \<in> set s. 0x20 \<le> b \<and> b \<noteq> 0x22 \<and> b \<noteq> 0x5C \<and> b \<noteq> 0x7F)"

lemma plain_text_simps [simp]:
  "plain_text []"
  "plain_text (b # s) \<longleftrightarrow> 0x20 \<le> b \<and> b \<noteq> 0x22 \<and> b \<noteq> 0x5C \<and> b \<noteq> 0x7F \<and> plain_text s"
  "plain_text (s @ t) \<longleftrightarrow> plain_text s \<and> plain_text t"
  by (auto simp: plain_text_def)

lemma escape_plain_byte:
  "0x20 \<le> b \<Longrightarrow> b \<noteq> 0x22 \<Longrightarrow> b \<noteq> 0x5C \<Longrightarrow> b \<noteq> 0x7F \<Longrightarrow> escape_byte b = [b]"
  by (auto simp: escape_byte_def)

lemma json_string_plain: "plain_text s \<Longrightarrow> json_string s = [0x22] @ s @ [0x22]"
  by (simp add: json_string_def, induction s) (simp_all add: escape_plain_byte)

lemma ascii_simps [simp]:
  "ascii [] = []" "ascii (c # s) = of_char c # ascii s" "ascii (s @ t) = ascii s @ ascii t"
  by (simp_all add: ascii_def)

section \<open>Steps that append a text\<close>

definition emits :: "wstep \<Rightarrow> bool \<Rightarrow> bytes \<Rightarrow> bool \<Rightarrow> bool" where
  "emits s f bs g \<longleftrightarrow>
     (\<forall>w. jw_first w = f \<longrightarrow> jw_len w \<le> length (jw_buf w) \<longrightarrow>
        (if jw_len w + length bs \<le> length (jw_buf w)
         then s w = (True, \<lparr> jw_buf = put_at (jw_len w) bs (jw_buf w),
                             jw_len = jw_len w + length bs, jw_first = g \<rparr>)
         else \<not> fst (s w) \<and> length (jw_buf (snd (s w))) = length (jw_buf w)))"

lemma emits_eq: "emits s f bs g \<Longrightarrow> bs = cs \<Longrightarrow> emits s f cs g"
  by simp

lemma put_at_append: "i \<le> length out \<Longrightarrow> put_at (i + length b) c (put_at i b out) = put_at i (b @ c) out"
  by (simp add: put_at_def ac_simps)

lemma emits_skip: "emits (w_all []) f [] f"
  by (auto simp: emits_def put_at_def)

lemma emits_seq:
  assumes s: "emits s f bs g" and t: "emits (w_all ss) g cs h"
  shows "emits (w_all (s # ss)) f (bs @ cs) h"
  unfolding emits_def
proof (intro allI impI)
  fix w :: json_writer assume f: "jw_first w = f" and l: "jw_len w \<le> length (jw_buf w)"
  show "if jw_len w + length (bs @ cs) \<le> length (jw_buf w)
        then w_all (s # ss) w = (True, \<lparr> jw_buf = put_at (jw_len w) (bs @ cs) (jw_buf w),
                             jw_len = jw_len w + length (bs @ cs), jw_first = h \<rparr>)
        else \<not> fst (w_all (s # ss) w) \<and> length (jw_buf (snd (w_all (s # ss) w))) = length (jw_buf w)"
  proof (cases "jw_len w + length bs \<le> length (jw_buf w)")
    case True
    then have w: "s w = (True, \<lparr> jw_buf = put_at (jw_len w) bs (jw_buf w),
        jw_len = jw_len w + length bs, jw_first = g \<rparr>)" (is "_ = (True, ?w)")
      using s f l by (simp add: emits_def)
    show ?thesis using t True unfolding emits_def
      by (auto dest!: spec [of _ ?w] simp: w put_at_append)
  next
    case False
    then have "\<not> fst (s w) \<and> length (jw_buf (snd (s w))) = length (jw_buf w)"
      using s f l unfolding emits_def by presburger
    with False show ?thesis by (cases "s w") auto
  qed
qed

lemma emits_raw: "emits (jraw bs) f bs f"
  by (auto simp: emits_def jraw_def Let_def)

lemma emits_one: "emits s f bs g \<Longrightarrow> emits (w_all [s]) f bs g"
  using emits_seq [OF _ emits_skip] by fastforce

lemma emits_new_object: "emits new_object f [] True"
  by (auto simp: emits_def new_object_def put_at_def)

lemma emits_comma: "emits jcomma f (if f then [] else [0x2C]) False"
  by (auto simp: emits_def jcomma_def put_at_def jraw_def Let_def)

text \<open>The digit loop writes the decimal text of the number in front of what is there.\<close>

lemma digits_zero: "digits 0 = [0x30]"
  by (simp add: digits.simps)

lemma digits_small: "n < 10 \<Longrightarrow> digits n = [0x30 + of_nat n]"
  by (simp add: digits.simps)

lemma digits_big: "10 \<le> n \<Longrightarrow> digits n = digits (n div 10) @ [0x30 + of_nat (n mod 10)]"
  by (subst digits.simps) simp

lemma length_digits: "n < 10 ^ Suc k \<Longrightarrow> length (digits n) \<le> Suc k"
proof (induction k arbitrary: n)
  case 0
  then show ?case by (simp add: digits_small)
next
  case (Suc k)
  then show ?case
    by (cases "n < 10") (auto simp: digits_small digits_big not_less intro!: Suc.IH)
qed

lemma num_loop_digits:
  "0 < n \<Longrightarrow> length (digits n) \<le> i \<Longrightarrow> i \<le> length tmp \<Longrightarrow>
   num_loop n i tmp = (i - length (digits n), put_at (i - length (digits n)) (digits n) tmp)"
proof (induction n i tmp rule: num_loop.induct)
  case (1 n i tmp)
  show ?case
  proof (cases "n < 10")
    case True
    with 1(2-) show ?thesis
      by (simp add: num_loop.simps [of n] num_loop.simps [of 0] digits_small put_at_def upd_conv_take_nth_drop)
  next
    case False
    define m where "m = length (digits (n div 10))"
    have l: "length (digits n) = Suc m" using False by (simp add: digits_big m_def)
    have "num_loop n i tmp = num_loop (n div 10) (i - 1) (tmp[i - 1 := 0x30 + of_nat (n mod 10)])"
      using False by (simp add: num_loop.simps [of n])
    also have "\<dots> = (i - Suc m, put_at (i - Suc m) (digits (n div 10))
        (tmp[i - 1 := 0x30 + of_nat (n mod 10)]))"
      using 1 False l by (simp add: m_def)
    also have "put_at (i - Suc m) (digits (n div 10)) (tmp[i - 1 := 0x30 + of_nat (n mod 10)]) =
        put_at (i - Suc m) (digits n) tmp"
      using False 1(3,4) l
      by (auto simp: digits_big put_at_def m_def [symmetric] upd_conv_take_nth_drop min_def Suc_diff_Suc)
    finally show ?thesis by (simp add: l)
  qed
qed

lemma digits_u64: "length (digits (unat (v :: u64))) \<le> 20"
  using length_digits [of "unat v" 19] unat_u64_less [of v] by simp

lemma emits_num: "emits (jnum v) f (digits (unat v)) f"
proof -
  have "jnum v w = jraw (digits (unat v)) w" for w
  proof (cases "v = 0")
    case True
    then show ?thesis
      by (simp add: jnum_def digits_zero drop_Cons_numeral nth_Cons_numeral numeral_eq_Suc)
  next
    case False
    then have "num_loop (unat v) 20 (replicate 20 0) =
        (20 - length (digits (unat v)), put_at (20 - length (digits (unat v))) (digits (unat v)) (replicate 20 0))"
      using digits_u64 by (intro num_loop_digits) (auto simp: unat_gt_0)
    with False show ?thesis
      using digits_u64 [of v] by (simp add: jnum_def put_at_def)
  qed
  then have "jnum v = jraw (digits (unat v))" by (rule ext)
  then show ?thesis by (simp add: emits_raw)
qed

text \<open>Fields.\<close>

abbreviation field_text :: "bool \<Rightarrow> string \<Rightarrow> bytes \<Rightarrow> bytes" where
  "field_text f name v \<equiv> (if f then [] else [0x2C]) @ [0x22] @ ascii name @ [0x22, 0x3A] @ v"

lemma emits_key: "emits (jkey name) f (field_text f name []) False"
  unfolding jkey_def by (rule emits_eq, (rule emits_seq emits_comma emits_raw emits_skip)+) simp

lemma emits_num_field: "emits (num_field name v) f (field_text f name (digits (unat v))) False"
  unfolding num_field_def by (rule emits_eq, (rule emits_seq emits_key emits_num emits_skip)+) simp

lemma emits_bool_field:
  "emits (bool_field name v) f (field_text f name (ascii (if v then ''true'' else ''false''))) False"
  unfolding bool_field_def by (rule emits_eq, (rule emits_seq emits_key emits_raw emits_skip)+) simp

lemma emits_lit_field: "emits (lit_field name v) f (field_text f name ([0x22] @ v @ [0x22])) False"
  unfolding lit_field_def by (rule emits_eq, (rule emits_seq emits_key emits_raw emits_skip)+) simp

text \<open>Escaped text: on well-formed UTF-8 the loop writes every byte as \<open>escape_byte\<close> spells it.\<close>

lemma w_all_append: "w_all (ss @ ts) = w_all (ss @ [w_all ts])"
proof
  fix w show "w_all (ss @ ts) w = w_all (ss @ [w_all ts]) w"
    by (induction ss arbitrary: w) (auto split: prod.split bool.split)
qed

declare escape_loop.simps(2) [simp del]

lemma emits_raws: "emits (w_all ts) f cs f \<Longrightarrow> emits (w_all (map jraw ws @ ts)) f (concat ws @ cs) f"
proof (induction ws)
  case (Cons b ws)
  then have "emits (w_all (jraw b # map jraw ws @ ts)) f (b @ concat ws @ cs) f"
    by (intro emits_seq [OF emits_raw]) simp
  then show ?case by (simp del: w_all.simps)
qed simp

lemma escape_loop_turn:
  "escape_one b rest = Some (ws, rest') \<Longrightarrow>
   escape_loop (b # rest) = w_all (map jraw ws @ [escape_loop rest'])"
proof
  fix w assume "escape_one b rest = Some (ws, rest')"
  moreover have "w_all (map jraw ws @ [escape_loop rest']) w =
      (case w_all (map jraw ws) w of (True, w) \<Rightarrow> escape_loop rest' w | (False, w) \<Rightarrow> (False, w))"
    by (induction ws arbitrary: w) (auto split: prod.split bool.split)
  ultimately show "escape_loop (b # rest) w = w_all (map jraw ws @ [escape_loop rest']) w"
    by (simp add: escape_loop.simps)
qed

lemma emits_escape_turn:
  assumes "escape_one b rest = Some (ws, rest')" and "emits (escape_loop rest') f cs f"
  shows "emits (escape_loop (b # rest)) f (concat ws @ cs) f"
  unfolding escape_loop_turn [OF assms(1)] by (intro emits_raws emits_one assms(2))

lemma escape_one_ascii: "b < 0x80 \<Longrightarrow> \<exists>ws. escape_one b rest = Some (ws, rest) \<and> concat ws = escape_byte b"
proof -
  assume b: "b < 0x80"
  then have "\<not> 0xC2 \<le> b" and "0x20 \<le> b \<and> b \<le> 0x7E \<longleftrightarrow> \<not> (b < 0x20 \<or> b = 0x7F)"
    by (auto simp: word_order_unat not_le not_less)
  then show ?thesis
    by (simp add: escape_one_def escape_byte_def hex_pair_def)
qed

lemma escape_high: "0x80 \<le> b \<Longrightarrow> escape_byte b = [b]"
  by (rule escape_plain_byte) (auto simp: word_order_unat)

lemma escape_one_lead:
  assumes b: "0xC2 \<le> b" "b \<le> 0xF4" and n: "n = (if b \<ge> 0xF0 then 3 else if b \<ge> 0xE0 then 2 else 1)"
    and c: "length cs = n"
  shows "escape_one b (cs @ rest) = Some ([b # cs], rest)"
proof -
  have "b \<noteq> 0x22" "b \<noteq> 0x5C" "b \<noteq> 0x0A" "b \<noteq> 0x0D" "b \<noteq> 0x09" "b \<noteq> 0x08" "b \<noteq> 0x0C"
    "\<not> (0x20 \<le> b \<and> b \<le> 0x7E)"
    using b by (auto simp: word_order_unat)
  then show ?thesis using b c n
    by (simp only: escape_one_def Let_def if_False if_True) (auto split: if_splits)
qed

text \<open>How well-formed UTF-8 begins: an ASCII byte, or a first byte and its continuation bytes.\<close>

definition lead_len :: "u8 \<Rightarrow> nat" where
  "lead_len b = (if b \<ge> 0xF0 then 3 else if b \<ge> 0xE0 then 2 else 1)"

lemma utf8_cont_high: "utf8_cont b \<Longrightarrow> 0x80 \<le> b"
  by (simp add: utf8_cont_def)

lemma utf8_second_high: "utf8_second a b \<Longrightarrow> 0x80 \<le> b"
  by (auto simp: utf8_second_def utf8_cont_def word_order_unat split: if_splits)

lemma utf8_sequence:
  assumes v: "utf8_valid (a # as)" and h: "\<not> a < 0x80"
  obtains cs bs where "as = cs @ bs" "0xC2 \<le> a" "a \<le> 0xF4" "length cs = lead_len a"
    "\<forall>c \<in> set cs. 0x80 \<le> c" "utf8_valid bs"
proof -
  consider "0xC2 \<le> a \<and> a \<le> 0xDF" | "\<not> (0xC2 \<le> a \<and> a \<le> 0xDF)" "0xE0 \<le> a \<and> a \<le> 0xEF"
    | "\<not> (0xC2 \<le> a \<and> a \<le> 0xDF)" "\<not> (0xE0 \<le> a \<and> a \<le> 0xEF)" "0xF0 \<le> a \<and> a \<le> 0xF4"
    using v h by (simp only: utf8_valid.simps if_False split: if_splits) blast+
  then show thesis
  proof cases
    case 1
    with v h obtain b bs where "as = b # bs" "utf8_cont b" "utf8_valid bs"
      by (auto split: list.splits)
    with 1 show thesis
      by (intro that [of "[b]" bs]) (auto dest: utf8_cont_high simp: lead_len_def word_order_unat)
  next
    case 2
    with v h obtain b c bs where "as = b # c # bs" "utf8_second a b" "utf8_cont c" "utf8_valid bs"
      by (simp split: list.splits)
    with 2 show thesis
      by (intro that [of "[b, c]" bs])
        (auto dest: utf8_cont_high utf8_second_high simp: lead_len_def word_order_unat)
  next
    case 3
    with v h obtain b c d bs where "as = b # c # d # bs" "utf8_second a b" "utf8_cont c" "utf8_cont d"
        "utf8_valid bs"
      by (simp split: list.splits)
    with 3 show thesis
      by (intro that [of "[b, c, d]" bs])
        (auto dest: utf8_cont_high utf8_second_high simp: lead_len_def word_order_unat)
  qed
qed

lemma emits_escape_loop: "utf8_valid s \<Longrightarrow> emits (escape_loop s) f (concat (map escape_byte s)) f"
proof (induction s rule: length_induct)
  case (1 s)
  show ?case
  proof (cases s)
    case Nil
    then show ?thesis by (auto simp: emits_def put_at_def)
  next
    case (Cons a as)
    show ?thesis
    proof (cases "a < 0x80")
      case True
      obtain ws where ws: "escape_one a as = Some (ws, as)" "concat ws = escape_byte a"
        using escape_one_ascii [OF True] by blast
      have "emits (escape_loop as) f (concat (map escape_byte as)) f"
        using 1 True Cons by simp
      from emits_escape_turn [OF ws(1) this] ws(2) show ?thesis by (simp add: Cons)
    next
      case False
      obtain cs bs where d: "as = cs @ bs" "0xC2 \<le> a" "a \<le> 0xF4" "length cs = lead_len a"
          "\<forall>c \<in> set cs. 0x80 \<le> c" "utf8_valid bs"
        using utf8_sequence [OF "1.prems" [unfolded Cons] False] by metis
      have "emits (escape_loop bs) f (concat (map escape_byte bs)) f"
        using 1 d(1,6) Cons by simp
      moreover have "concat (map escape_byte cs) = cs"
        using d(5) by (induction cs) (simp_all add: escape_high)
      moreover have "0x80 \<le> a" using False by simp
      ultimately show ?thesis
        using emits_escape_turn [OF escape_one_lead [OF d(2,3) refl d(4) [unfolded lead_len_def]]]
        by (simp add: Cons d(1) escape_high)
    qed
  qed
qed

lemma emits_quoted: "utf8_valid s \<Longrightarrow> emits (quoted_escaped s) f (json_string s) f"
  unfolding quoted_escaped_def json_string_def
  by (rule emits_eq, (rule emits_seq emits_raw emits_skip emits_escape_loop | assumption)+) simp

section \<open>Reading JSON back\<close>

text \<open>\<open>char::encode_utf8\<close>.\<close>

definition encode_utf8 :: "u32 \<Rightarrow> bytes" where
  "encode_utf8 c =
     (if c < 0x80 then [ucast c]
      else if c < 0x800 then [0xC0 OR ucast (drop_bit 6 c), 0x80 OR ucast (c AND 0x3F)]
      else if c < 0x10000 then
        [0xE0 OR ucast (drop_bit 12 c), 0x80 OR ucast (drop_bit 6 c AND 0x3F), 0x80 OR ucast (c AND 0x3F)]
      else
        [0xF0 OR ucast (drop_bit 18 c), 0x80 OR ucast (drop_bit 12 c AND 0x3F),
         0x80 OR ucast (drop_bit 6 c AND 0x3F), 0x80 OR ucast (c AND 0x3F)])"

text \<open>A reader of the RFC 8259 text forms that replies use (strings with every escape, whole
  numbers, booleans, arrays, objects, no white space): the host's side of the contract. Fuel
  bounds the nesting and the lengths of arrays and objects; the length of the text is enough.\<close>

definition hex_value :: "u8 \<Rightarrow> u32 option" where
  "hex_value b =
     (if 0x30 \<le> b \<and> b \<le> 0x39 then Some (ucast (b - 0x30))
      else if 0x61 \<le> b \<and> b \<le> 0x66 then Some (ucast (b - 0x57))
      else if 0x41 \<le> b \<and> b \<le> 0x46 then Some (ucast (b - 0x37))
      else None)"

definition read_hex4 :: "u8 \<Rightarrow> u8 \<Rightarrow> u8 \<Rightarrow> u8 \<Rightarrow> u32 option" where
  "read_hex4 a b c d =
     (case (hex_value a, hex_value b, hex_value c, hex_value d) of
        (Some a, Some b, Some c, Some d) \<Rightarrow>
          let v = 4096 * a + 256 * b + 16 * c + d in
          if 0xD800 \<le> v \<and> v \<le> 0xDFFF then None else Some v
      | _ \<Rightarrow> None)"

definition simple_escape :: "u8 \<Rightarrow> u8 option" where
  "simple_escape c =
     (if c = 0x22 \<or> c = 0x5C \<or> c = 0x2F then Some c
      else if c = 0x62 then Some 0x08 else if c = 0x66 then Some 0x0C
      else if c = 0x6E then Some 0x0A else if c = 0x72 then Some 0x0D
      else if c = 0x74 then Some 0x09 else None)"

fun read_string :: "bytes \<Rightarrow> (bytes \<times> bytes) option" where
  "read_string [] = None"
| "read_string (b # bs) =
     (if b = 0x22 then Some ([], bs)
      else if b = 0x5C then
        (case bs of
           c # cs \<Rightarrow>
             if c = 0x75 then
               (case cs of
                  h1 # h2 # h3 # h4 # ds \<Rightarrow>
                    (case read_hex4 h1 h2 h3 h4 of
                       Some v \<Rightarrow> map_option (\<lambda>(s, r). (encode_utf8 v @ s, r)) (read_string ds)
                     | None \<Rightarrow> None)
                | _ \<Rightarrow> None)
             else
               (case simple_escape c of
                  Some x \<Rightarrow> map_option (\<lambda>(s, r). (x # s, r)) (read_string cs)
                | None \<Rightarrow> None)
         | [] \<Rightarrow> None)
      else if b < 0x20 then None
      else map_option (\<lambda>(s, r). (b # s, r)) (read_string bs))"

definition is_digit :: "u8 \<Rightarrow> bool" where
  "is_digit b \<longleftrightarrow> 0x30 \<le> b \<and> b \<le> 0x39"

definition number_of :: "bytes \<Rightarrow> nat" where
  "number_of ds = foldl (\<lambda>n d. 10 * n + unat (d - 0x30)) 0 ds"

definition read_number :: "bytes \<Rightarrow> (json \<times> bytes) option" where
  "read_number bs =
     (let ds = takeWhile is_digit bs in
      if ds = [] then None else Some (JNum (number_of ds), dropWhile is_digit bs))"

definition read_word :: "bytes \<Rightarrow> json \<Rightarrow> bytes \<Rightarrow> (json \<times> bytes) option" where
  "read_word word v bs =
     (if take (length word) bs = word then Some (v, drop (length word) bs) else None)"

fun read_value :: "nat \<Rightarrow> bytes \<Rightarrow> (json \<times> bytes) option"
  and read_elements :: "nat \<Rightarrow> bytes \<Rightarrow> (json list \<times> bytes) option"
  and read_members :: "nat \<Rightarrow> bytes \<Rightarrow> ((string \<times> json) list \<times> bytes) option" where
  "read_value 0 bs = None"
| "read_value (Suc n) [] = None"
| "read_value (Suc n) (b # bs) =
     (if b = 0x22 then map_option (\<lambda>(s, r). (JStr s, r)) (read_string bs)
      else if b = 0x5B then
        (if take 1 bs = [0x5D] then Some (JArr [], drop 1 bs)
         else map_option (\<lambda>(vs, r). (JArr vs, r)) (read_elements n bs))
      else if b = 0x7B then
        (if take 1 bs = [0x7D] then Some (JObj [], drop 1 bs)
         else map_option (\<lambda>(fs, r). (JObj fs, r)) (read_members n bs))
      else if b = 0x74 then read_word (ascii ''true'') (JBool True) (b # bs)
      else if b = 0x66 then read_word (ascii ''false'') (JBool False) (b # bs)
      else read_number (b # bs))"
| "read_elements 0 bs = None"
| "read_elements (Suc n) bs =
     (case read_value n bs of
        Some (v, c # cs) \<Rightarrow>
          if c = 0x5D then Some ([v], cs)
          else if c = 0x2C then map_option (\<lambda>(vs, r). (v # vs, r)) (read_elements n cs)
          else None
      | _ \<Rightarrow> None)"
| "read_members 0 bs = None"
| "read_members (Suc n) bs =
     (if take 1 bs \<noteq> [0x22] then None
      else
        (case read_string (drop 1 bs) of
           Some (k, c # cs) \<Rightarrow>
             if c \<noteq> 0x3A then None
             else
               (case read_value n cs of
                  Some (v, d # ds) \<Rightarrow>
                    if d = 0x7D then Some ([(map (\<lambda>b. char_of (unat b)) k, v)], ds)
                    else if d = 0x2C then
                      map_option (\<lambda>(fs, r). ((map (\<lambda>b. char_of (unat b)) k, v) # fs, r)) (read_members n ds)
                    else None
                | _ \<Rightarrow> None)
         | _ \<Rightarrow> None))"

definition read_line :: "bytes \<Rightarrow> json option" where
  "read_line bs = (case read_value (length bs) bs of Some (v, []) \<Rightarrow> Some v | _ \<Rightarrow> None)"

subsection \<open>The reader gives back the value written\<close>

lemma read_hex_pair:
  "b < 0x80 \<Longrightarrow> read_hex4 0x30 0x30 (HEX_DIGITS ! unat (drop_bit 4 b)) (HEX_DIGITS ! unat (b AND 0x0F)) = Some (ucast b)"
  "b < 0x80 \<Longrightarrow> encode_utf8 (ucast b) = [b]"
proof -
  have a: "list_all (\<lambda>k. let b = of_nat k :: u8 in
      read_hex4 0x30 0x30 (HEX_DIGITS ! unat (drop_bit 4 b)) (HEX_DIGITS ! unat (b AND 0x0F)) = Some (ucast b) \<and>
      encode_utf8 (ucast b) = [b]) [0..<128]"
    by code_simp
  assume "b < 0x80"
  then have "unat b \<in> set [0..<128]" by (simp add: word_order_unat)
  with a have "let b = of_nat (unat b) :: u8 in
      read_hex4 0x30 0x30 (HEX_DIGITS ! unat (drop_bit 4 b)) (HEX_DIGITS ! unat (b AND 0x0F)) = Some (ucast b) \<and>
      encode_utf8 (ucast b) = [b]"
    by (simp only: list_all_iff)
  then show "read_hex4 0x30 0x30 (HEX_DIGITS ! unat (drop_bit 4 b)) (HEX_DIGITS ! unat (b AND 0x0F)) = Some (ucast b)"
    "encode_utf8 (ucast b) = [b]"
    by (simp_all add: Let_def)
qed

lemma read_string_step: "read_string (escape_byte b @ r) = map_option (\<lambda>(s, t). (b # s, t)) (read_string r)"
proof -
  have "b < 0x80" if "b < 0x20 \<or> b = 0x7F" using that by (auto simp: word_order_unat)
  then show ?thesis
    by (auto simp: escape_byte_def hex_pair_def read_hex_pair simple_escape_def option.map_comp o_def split_def)
qed

lemma read_json_string: "read_string (concat (map escape_byte s) @ 0x22 # r) = Some (s, r)"
  by (induction s) (simp_all add: read_string_step)

definition no_digit_next :: "bytes \<Rightarrow> bool" where
  "no_digit_next r \<longleftrightarrow> (case r of [] \<Rightarrow> True | b # _ \<Rightarrow> \<not> is_digit b)"

lemma digit_byte: "m < 10 \<Longrightarrow> is_digit (0x30 + of_nat m) \<and> unat ((0x30 + of_nat m) - 0x30 :: u8) = m"
proof -
  assume m: "m < 10"
  then have "unat (0x30 + of_nat m :: u8) = 48 + m"
    by (simp add: unat_word_ariths unat_of_nat)
  with m show ?thesis by (simp add: is_digit_def word_order_unat unat_of_nat)
qed

lemma digits_facts:
  "digits n \<noteq> [] \<and> (\<forall>d \<in> set (digits n). is_digit d) \<and> number_of (digits n) = n"
proof (induction n rule: digits.induct)
  case (1 n)
  show ?case
  proof (cases "n < 10")
    case True
    then show ?thesis using digit_byte [of n] by (simp add: digits_small number_of_def)
  next
    case False
    with 1 show ?thesis using digit_byte [of "n mod 10"]
      by (auto simp: digits_big number_of_def)
  qed
qed

lemma read_digits: "no_digit_next r \<Longrightarrow> read_number (digits n @ r) = Some (JNum n, r)"
proof -
  assume "no_digit_next r"
  then have "takeWhile is_digit r = []" "dropWhile is_digit r = r"
    by (auto simp: no_digit_next_def split: list.splits)
  then show ?thesis
    using digits_facts [of n] by (simp add: read_number_def Let_def takeWhile_append2 dropWhile_append2)
qed

lemma digits_first: "\<exists>d ds. digits n = d # ds \<and> is_digit d"
  using digits_facts [of n] by (cases "digits n") auto

lemma text_nonempty: "0 < length (json_text v)"
  using digits_facts by (cases v) (auto simp: json_string_def)

lemma joined_Cons: "joined (x # xs) = x @ (if xs = [] then [] else [0x2C] @ joined xs)"
  by (cases xs) auto

lemma ascii_back: "map (\<lambda>b. char_of (unat b)) (ascii k) = k"
proof (induction k)
  case (Cons c k)
  have "unat (of_char c :: u8) = of_char c"
    using of_char_mod_256 [of c, where ?'a = nat]
    by (simp flip: of_nat_of_char [of c, where ?'a = u8] add: unat_of_nat)
  with Cons show ?case by simp
qed simp

lemma read_elements_text:
  assumes "\<And>v n r. v \<in> set vs \<Longrightarrow> length (json_text v) \<le> n \<Longrightarrow> no_digit_next r \<Longrightarrow>
      read_value n (json_text v @ r) = Some (v, r)"
    and "vs \<noteq> []" and "length (joined (map json_text vs)) < n"
  shows "read_elements n (joined (map json_text vs) @ 0x5D # r) = Some (vs, r)"
  using assms
proof (induction vs arbitrary: n)
  case Nil
  then show ?case by simp
next
  case (Cons v vs)
  then obtain m where n: "n = Suc m" by (cases n) auto
  have l: "length (json_text v) \<le> m" using Cons.prems(3) by (simp add: n joined_Cons)
  show ?case
  proof (cases "vs = []")
    case True
    then show ?thesis using Cons.prems(1) [of v m "0x5D # r"] l
      by (simp add: n no_digit_next_def is_digit_def)
  next
    case False
    then have "read_elements m (joined (map json_text vs) @ 0x5D # r) = Some (vs, r)"
      using Cons.prems by (intro Cons.IH) (auto simp: n joined_Cons)
    with False show ?thesis
      using Cons.prems(1) [of v m "0x2C # joined (map json_text vs) @ 0x5D # r"] l
      by (simp add: n joined_Cons no_digit_next_def is_digit_def)
  qed
qed

abbreviation member_text :: "string \<times> json \<Rightarrow> bytes" where
  "member_text kv \<equiv> (case kv of (k, v) \<Rightarrow> json_string (ascii k) @ [0x3A] @ json_text v)"

lemma read_members_text:
  assumes "\<And>k v n r. (k, v) \<in> set fs \<Longrightarrow> length (json_text v) \<le> n \<Longrightarrow> no_digit_next r \<Longrightarrow>
      read_value n (json_text v @ r) = Some (v, r)"
    and "fs \<noteq> []" and "length (joined (map member_text fs)) < n"
  shows "read_members n (joined (map member_text fs) @ 0x7D # r) = Some (fs, r)"
  using assms
proof (induction fs arbitrary: n)
  case Nil
  then show ?case by simp
next
  case (Cons kv fs)
  obtain k v where kv: "kv = (k, v)" by (cases kv)
  from Cons.prems obtain m where n: "n = Suc m" by (cases n) auto
  have l: "length (json_text v) \<le> m" using Cons.prems(3) by (simp add: n joined_Cons kv)
  note s = read_json_string [of "ascii k", simplified]
  show ?case
  proof (cases "fs = []")
    case True
    then show ?thesis using Cons.prems(1) [of k v m "0x7D # r"] l
      by (simp add: n kv no_digit_next_def is_digit_def json_string_def s ascii_back)
  next
    case False
    then have "read_members m (joined (map member_text fs) @ 0x7D # r) = Some (fs, r)"
      using Cons.prems by (intro Cons.IH) (auto simp: n joined_Cons)
    with False show ?thesis
      using Cons.prems(1) [of k v m "0x2C # joined (map member_text fs) @ 0x7D # r"] l
      by (simp add: n kv joined_Cons no_digit_next_def is_digit_def json_string_def s ascii_back)
  qed
qed

lemma text_opens: "take 1 (json_text v @ r) \<noteq> [0x5D]"
proof (cases v)
  case (JNum n)
  obtain d ds where "digits n = d # ds" "is_digit d" using digits_first by blast
  then show ?thesis by (auto simp: JNum is_digit_def)
qed (auto simp: json_string_def)

lemma read_value_text:
  "length (json_text v) \<le> n \<Longrightarrow> no_digit_next r \<Longrightarrow> read_value n (json_text v @ r) = Some (v, r)"
proof (induction v arbitrary: n r rule: json_text.induct)
  case (1 k)
  obtain d ds where d: "digits k = d # ds" "is_digit d" using digits_first by blast
  from 1 d obtain m where "n = Suc m" by (cases n) auto
  moreover from d(2) have "d \<noteq> 0x22" "d \<noteq> 0x5B" "d \<noteq> 0x7B" "d \<noteq> 0x74" "d \<noteq> 0x66"
    by (auto simp: is_digit_def)
  ultimately show ?case using read_digits [OF 1(2), of k] d(1) by simp
next
  case (2 b)
  then obtain m where "n = Suc m" by (cases n) (auto split: if_splits)
  then show ?case by (simp add: read_word_def)
next
  case (3 s)
  then obtain m where "n = Suc m" by (cases n) (auto simp: json_string_def)
  then show ?case by (simp add: json_string_def read_json_string)
next
  case (4 vs)
  then obtain m where m: "n = Suc m" by (cases n) auto
  show ?case
  proof (cases vs)
    case Nil
    then show ?thesis by (simp add: m)
  next
    case (Cons v us)
    have "read_elements m (joined (map json_text vs) @ 0x5D # r) = Some (vs, r)"
      using 4 m Cons by (intro read_elements_text) auto
    moreover have "take 1 (joined (map json_text vs) @ 0x5D # r) \<noteq> [0x5D]"
      using text_opens [of v] by (simp add: Cons joined_Cons)
    ultimately show ?thesis by (simp add: m)
  qed
next
  case (5 fs)
  then obtain m where m: "n = Suc m" by (cases n) auto
  show ?case
  proof (cases fs)
    case Nil
    then show ?thesis by (simp add: m)
  next
    case (Cons kv gs)
    have "read_members m (joined (map member_text fs) @ 0x7D # r) = Some (fs, r)"
      using 5 m Cons by (intro read_members_text) (fastforce, auto)
    moreover have "take 1 (joined (map member_text fs) @ 0x7D # r) \<noteq> [0x7D]"
      by (cases kv) (simp add: Cons joined_Cons json_string_def)
    ultimately show ?thesis by (simp add: m)
  qed
qed

theorem read_line_text: "read_line (json_text v) = Some v"
  using read_value_text [of v "length (json_text v)" "[]"] by (simp add: read_line_def no_digit_next_def)

text \<open>A reply is one line: its text has no control character.\<close>

lemma escape_byte_printable: "c \<in> set (escape_byte b) \<Longrightarrow> 0x20 \<le> c"
proof -
  have "\<forall>c \<in> set HEX_DIGITS. 0x20 \<le> c" "length HEX_DIGITS = 16" by (simp_all add: HEX_DIGITS_def)
  moreover have "unat (drop_bit 4 b) < 16"
    using unat_u8_less [of b] by (simp add: drop_bit_eq_div unat_div)
  moreover have "unat (b AND 0x0F) < 16"
    using word_and_le1 [of b "0x0F"] by (simp add: word_order_unat)
  ultimately have "\<forall>c \<in> set (hex_pair b). 0x20 \<le> c" by (auto simp: hex_pair_def)
  then show "c \<in> set (escape_byte b) \<Longrightarrow> 0x20 \<le> c"
    by (auto simp: escape_byte_def not_less split: if_splits)
qed

lemma digits_printable: "c \<in> set (digits n) \<Longrightarrow> 0x20 \<le> c"
  using digits_facts [of n] by (auto simp: is_digit_def word_order_unat)

lemma joined_set: "c \<in> set (joined xs) \<Longrightarrow> c = 0x2C \<or> (\<exists>x \<in> set xs. c \<in> set x)"
  by (induction xs rule: joined.induct) auto

lemma json_string_printable: "c \<in> set (json_string s) \<Longrightarrow> 0x20 \<le> c"
  by (auto simp: json_string_def dest: escape_byte_printable)

lemma json_text_printable: "c \<in> set (json_text v) \<Longrightarrow> 0x20 \<le> c"
proof (induction v arbitrary: c rule: json_text.induct)
  case (5 fs)
  then show ?case by (fastforce dest!: joined_set dest: json_string_printable)
qed (auto dest!: joined_set dest: json_string_printable digits_printable split: if_splits)

end
