(* ===== verification/Usb_Line.thy ===== *)
theory Usb_Line
  imports Usb_Json
begin

text \<open>
  The byte-fed line assembler of \<open>firmware/src/usb.rs\<close> (\<open>LineBuffer\<close>): commands end in a line
  feed, carriage returns are dropped, and a line of more than 1024 bytes is discarded through its
  line feed and reported.
\<close>

definition MAX_LINE_LEN :: nat where "MAX_LINE_LEN = 1024"
definition LF :: u8 where "LF = 0x0A"
definition CR :: u8 where "CR = 0x0D"

record line_buffer =
  lb_buf :: bytes
  lb_len :: nat
  lb_discarding :: bool

datatype line_event = Line bytes | TooLong

definition LineBuffer_new :: line_buffer where
  "LineBuffer_new = \<lparr> lb_buf = replicate MAX_LINE_LEN 0, lb_len = 0, lb_discarding = False \<rparr>"

definition LineBuffer_push :: "line_buffer \<Rightarrow> u8 \<Rightarrow> line_event option \<times> line_buffer" where
  "LineBuffer_push l b =
     (if lb_discarding l then
        (if b = LF then (Some TooLong, l\<lparr> lb_discarding := False \<rparr>) else (None, l))
      else if b = LF then (Some (Line (bslice 0 (lb_len l) (lb_buf l))), l\<lparr> lb_len := 0 \<rparr>)
      else if b = CR then (None, l)
      else if MAX_LINE_LEN \<le> lb_len l then (None, l\<lparr> lb_discarding := True, lb_len := 0 \<rparr>)
      else (None, l\<lparr> lb_buf := (lb_buf l)[lb_len l := b], lb_len := lb_len l + 1 \<rparr>))"

text \<open>A stream of bytes, and the events it completes.\<close>

primrec line_feed :: "line_buffer \<Rightarrow> bytes \<Rightarrow> line_event list \<times> line_buffer" where
  "line_feed l [] = ([], l)"
| "line_feed l (b # bs) =
     (let (ev, l) = LineBuffer_push l b; (evs, l) = line_feed l bs
      in (case ev of Some e \<Rightarrow> e # evs | None \<Rightarrow> evs, l))"

text \<open>The contract: the stream cut at its line feeds; the last piece is not yet a line.\<close>

primrec complete_lines :: "bytes \<Rightarrow> bytes \<Rightarrow> bytes list" where
  "complete_lines cur [] = []"
| "complete_lines cur (b # bs) =
     (if b = LF then cur # complete_lines [] bs else complete_lines (cur @ [b]) bs)"

definition command_of :: "bytes \<Rightarrow> line_event" where
  "command_of line =
     (let c = filter (\<lambda>b. b \<noteq> CR) line in if length c \<le> MAX_LINE_LEN then Line c else TooLong)"

text \<open>The buffer holds the current piece, or the piece has grown too long.\<close>

definition holds :: "line_buffer \<Rightarrow> bytes \<Rightarrow> bool" where
  "holds l cur \<longleftrightarrow>
     (let c = filter (\<lambda>b. b \<noteq> CR) cur in
      length (lb_buf l) = MAX_LINE_LEN \<and>
      (if lb_discarding l then MAX_LINE_LEN < length c \<and> lb_len l = 0
       else lb_len l = length c \<and> length c \<le> MAX_LINE_LEN \<and> take (lb_len l) (lb_buf l) = c))"

lemma holds_new: "holds LineBuffer_new []"
  by (simp add: holds_def LineBuffer_new_def)

lemma push_line:
  "holds l cur \<Longrightarrow> fst (LineBuffer_push l LF) = Some (command_of cur) \<and>
   holds (snd (LineBuffer_push l LF)) []"
  by (auto simp: holds_def LineBuffer_push_def command_of_def Let_def bslice_def)

lemma push_byte:
  assumes h: "holds l cur" and b: "b \<noteq> LF"
  shows "fst (LineBuffer_push l b) = None \<and> holds (snd (LineBuffer_push l b)) (cur @ [b])"
proof (cases "lb_discarding l \<or> b = CR \<or> MAX_LINE_LEN \<le> lb_len l")
  case True
  with h b show ?thesis by (auto simp: holds_def LineBuffer_push_def Let_def)
next
  case False
  with h b show ?thesis
    by (auto simp: holds_def LineBuffer_push_def Let_def take_Suc_conv_app_nth)
qed

lemma feed_lines: "holds l cur \<Longrightarrow> fst (line_feed l bs) = map command_of (complete_lines cur bs)"
proof (induction bs arbitrary: l cur)
  case (Cons b bs)
  show ?case
  proof (cases "b = LF")
    case True
    with push_line [OF Cons.prems] Cons.IH show ?thesis
      by (cases "LineBuffer_push l LF") (auto simp: split_def Let_def)
  next
    case False
    with push_byte [OF Cons.prems False] Cons.IH show ?thesis
      by (cases "LineBuffer_push l b") (auto simp: split_def Let_def)
  qed
qed simp

text \<open>C10: Whatever bytes arrive from a fresh line buffer, the events are exactly the pieces between
  line feeds, in order: each without its carriage returns, or reported too long when more than 1024
  bytes remain; nothing of an overlong line reaches the next one.\<close>

theorem line_framing: "fst (line_feed LineBuffer_new bs) = map command_of (complete_lines [] bs)"
  by (rule feed_lines [OF holds_new])

text \<open>Feeding a stream in pieces is feeding it whole.\<close>

lemma line_feed_append:
  "line_feed l (as @ bs) =
     (let (evs, l) = line_feed l as; (evs', l) = line_feed l bs in (evs @ evs', l))"
  by (induction as arbitrary: l) (auto simp: split_def Let_def split: option.split)

end
