(* ===== verification/Usb_State.thy ===== *)
theory Usb_State
  imports Usb_Line Settings Transport Engine_State
begin

text \<open>
  The data of the USB command protocol, \<open>firmware/src/usb.rs\<close>: counters, requests, the USB-side
  state, and the replies, each rendered into a caller's buffer. The radio image and the
  radio-free image are the two values of the parameter \<open>radio\<close>. The JSON parser
  (\<open>serde_json_core\<close>) is a third-party crate: a parameter that turns a line into a request and an
  escaped string into its fragments.
\<close>

section \<open>Counters and health\<close>

record counters =
  ct_tx_attempts :: u32
  ct_tx_ok :: u32
  ct_rx_ok :: u32
  ct_rx_crc_bad :: u32
  ct_auth_fail :: u32
  ct_replay_drop :: u32
  ct_forwards :: u32

definition Counters_default :: counters where
  "Counters_default = \<lparr> ct_tx_attempts = 0, ct_tx_ok = 0, ct_rx_ok = 0, ct_rx_crc_bad = 0,
     ct_auth_fail = 0, ct_replay_drop = 0, ct_forwards = 0 \<rparr>"

datatype tx_done_summary = TdSuccess | TdBusy | TdCancelled | TdRadio

definition report_tx_done :: "counters \<Rightarrow> tx_done_summary \<Rightarrow> counters" where
  "report_tx_done k result =
     (if result = TdSuccess then k\<lparr> ct_tx_ok := saturating_add (ct_tx_ok k) 1 \<rparr> else k)"

definition report_rx_frame :: "counters \<Rightarrow> counters" where
  "report_rx_frame k = k\<lparr> ct_rx_ok := saturating_add (ct_rx_ok k) 1 \<rparr>"

definition report_rx_crc :: "counters \<Rightarrow> counters" where
  "report_rx_crc k = k\<lparr> ct_rx_crc_bad := saturating_add (ct_rx_crc_bad k) 1 \<rparr>"

definition report_tx_attempted :: "counters \<Rightarrow> counters" where
  "report_tx_attempted k = k\<lparr> ct_tx_attempts := saturating_add (ct_tx_attempts k) 1 \<rparr>"

definition report_forward :: "counters \<Rightarrow> counters" where
  "report_forward k = k\<lparr> ct_forwards := saturating_add (ct_forwards k) 1 \<rparr>"

definition mirror_reception :: "counters \<Rightarrow> engine \<Rightarrow> counters" where
  "mirror_reception k e =
     k\<lparr> ct_auth_fail := en_auth_failures e, ct_replay_drop := en_replay_drops e \<rparr>"

text \<open>From \<open>firmware/src/storage.rs\<close>.\<close>

datatype store_health = HealthUnprovisioned | HealthReady | HealthFault

definition LABEL_A :: u8 where "LABEL_A = 1"
definition LABEL_B :: u8 where "LABEL_B = 2"
definition LABEL_C :: u8 where "LABEL_C = 3"

definition label_from_str :: "bytes \<Rightarrow> u8 option" where
  "label_from_str s =
     (if s = ascii ''A'' then Some LABEL_A else if s = ascii ''B'' then Some LABEL_B
      else if s = ascii ''C'' then Some LABEL_C else None)"

definition label_to_str :: "u8 \<Rightarrow> bytes" where
  "label_to_str label =
     (if label = LABEL_A then ascii ''A'' else if label = LABEL_B then ascii ''B''
      else if label = LABEL_C then ascii ''C'' else [])"

section \<open>Requests, replies owed, state\<close>

datatype outcome =
    Inline nat
  | NeedsCommit nat
  | NeedsTrng
  | NeedsSendPrep
  | NeedsPingPrep
  | NeedsRebootBootsel
  | Silent

text \<open>An \<open>EscapedStr\<close> is the bytes between the quotes, escapes still in place.\<close>

record request =
  rq_id :: u64
  rq_op :: bytes
  rq_label :: "bytes option"
  rq_unix_seconds :: "u64 option"
  rq_enabled :: "bool option"
  rq_count :: "u8 option"
  rq_contact_id :: "u8 option"
  rq_text :: "bytes option"
  rq_record_b64 :: "bytes option"
  rq_replace :: "bool option"
  rq_key :: "bytes option"
  rq_value :: "int option"
  rq_ssid :: "bytes option"
  rq_pass :: "bytes option"
  rq_confirm :: "bool option"
  rq_sas_match :: "bool option"

text \<open>A fragment of an escaped string: text as it stands, or one decoded character; the parser
  yields \<open>None\<close> for a malformed escape.\<close>

datatype fragment = NotEscaped bytes | Escaped u32

record json_core =
  jc_parse :: "bytes \<Rightarrow> nat \<Rightarrow> request option"
  jc_fragments :: "bytes \<Rightarrow> fragment option list"

datatype pending_op =
    PoProvision u64 u8
  | PoPairOffer u64
  | PoSendPrep u64 u8
  | PoPingPrep u64 u8
  | PoRebootBootsel u64

datatype staged_reply =
    SrStatus u64
  | SrSimple u64 bytes
  | SrBlock u64 u8 bool
  | SrRadioSet u64 bool
  | SrSettingsSet u64 bytes u32 bool
  | SrWifiSet u64
  | SrWifiForget u64

record usb_state =
  us_engine :: engine
  us_health :: store_health
  us_counters :: counters
  us_pkt_next :: u32
  us_radio_version :: "u8 option"
  us_staged :: "(bytes \<times> nat) option"
  us_staged_reply :: "staged_reply option"
  us_pending_op :: "pending_op option"
  us_reply_id :: u64
  us_settings :: settings
  us_settings_tx_pending :: bool
  us_staged_wifi :: "(bytes \<times> u8 \<times> bytes \<times> u8) option"
  us_wifi_configured :: bool
  us_wifi_ssid_len :: u8
  us_send_text :: bytes
  us_send_len :: u8
  us_ping_count :: u8

definition UsbState_new :: "engine \<Rightarrow> store_health \<Rightarrow> usb_state" where
  "UsbState_new e h = \<lparr>
     us_engine = e, us_health = h, us_counters = Counters_default, us_pkt_next = 0x243F6A88,
     us_radio_version = None, us_staged = None, us_staged_reply = None, us_pending_op = None,
     us_reply_id = 0, us_settings = Settings_default, us_settings_tx_pending = False,
     us_staged_wifi = None, us_wifi_configured = False, us_wifi_ssid_len = 0,
     us_send_text = replicate 160 0, us_send_len = 0, us_ping_count = 0 \<rparr>"

definition next_packet_id :: "usb_state \<Rightarrow> u32 \<Rightarrow> u32 \<times> usb_state" where
  "next_packet_id s trng =
     (let x = us_pkt_next s OR 1;
          x = x XOR trng;
          x = x XOR push_bit 13 x;
          x = x XOR drop_bit 17 x;
          x = x XOR push_bit 5 x;
          x = (if x = 0 then 1 else x)
      in (x, s\<lparr> us_pkt_next := x \<rparr>))"

definition stash_send :: "usb_state \<Rightarrow> u8 \<Rightarrow> bytes \<Rightarrow> unit eresult \<times> usb_state" where
  "stash_send s contact_id text =
     (if contact_id < 1 \<or> MAX_CONTACTS < unat contact_id then (Inl BadRequest, s)
      else if text = [] \<or> length (us_send_text s) < length text then (Inl BadRequest, s)
      else (Inr (), s\<lparr> us_send_text := put_at 0 text (us_send_text s),
                       us_send_len := of_nat (length text) \<rparr>))"

text \<open>Decoding an escaped string into a buffer: the decoded length, or \<open>None\<close> when it does not fit
  or is malformed; the buffer keeps what was written.\<close>

fun unescape_loop :: "fragment option list \<Rightarrow> nat \<Rightarrow> bytes \<Rightarrow> nat option \<times> bytes" where
  "unescape_loop [] pos out = (Some pos, out)"
| "unescape_loop (None # fs) pos out = (None, out)"
| "unescape_loop (Some frag # fs) pos out =
     (let b = (case frag of NotEscaped part \<Rightarrow> part | Escaped c \<Rightarrow> encode_utf8 c);
          e = pos + length b in
      if e \<le> length out then unescape_loop fs e (put_at pos b out) else (None, out))"

definition unescape_into :: "json_core \<Rightarrow> bytes \<Rightarrow> bytes \<Rightarrow> nat option \<times> bytes" where
  "unescape_into J s out = unescape_loop (jc_fragments J s) 0 out"

section \<open>Replies\<close>

text \<open>A reply is rendered by a chain of writer calls; one that does not fit is not sent.\<close>

definition jw_finish :: "wstep list \<Rightarrow> bytes \<Rightarrow> outcome \<times> bytes" where
  "jw_finish steps out =
     (let (ok, w) = w_all steps (JsonWriter_new out)
      in (if ok then Inline (jw_len w) else Silent, jw_buf w))"

definition reply_err :: "u64 \<Rightarrow> string \<Rightarrow> bytes \<Rightarrow> outcome \<times> bytes" where
  "reply_err rid code out =
     jw_finish
       [jraw (ascii ''{\"id\":''), jnum rid, jraw (ascii '',\"ok\":false,\"error\":\"''),
        jraw (ascii code), jraw (ascii ''\"}'')] out"

fun engine_err :: "engine_error \<Rightarrow> string" where
  "engine_err BadRequest = ''BAD_REQUEST''"
| "engine_err Unprovisioned = ''UNPROVISIONED''"
| "engine_err StorageFault = ''STORAGE_FAULT''"
| "engine_err TimeUnset = ''TIME_UNSET''"
| "engine_err ETimeRollback = ''TIME_ROLLBACK''"
| "engine_err TimeJumpNeedsConfirm = ''TIME_JUMP_NEEDS_CONFIRM''"
| "engine_err Busy = ''BUSY''"
| "engine_err ContactBlocked = ''CONTACT_BLOCKED''"
| "engine_err RadioMustBeOff = ''RADIO_MUST_BE_OFF''"
| "engine_err RadioUnavailable = ''RADIO_UNAVAILABLE''"
| "engine_err UnknownOp = ''UNKNOWN_OP''"
| "engine_err PairingAbsent = ''BAD_REQUEST''"
| "engine_err PairingExpired = ''BAD_REQUEST''"
| "engine_err NoSlot = ''BAD_REQUEST''"
| "engine_err SasMismatch = ''SAS_MISMATCH''"

definition BOARD :: bytes where "BOARD = ascii ''pico2w''"
definition FIRMWARE_VERSION :: bytes where "FIRMWARE_VERSION = ascii ''0.1.0''"
definition TX_POWER_DBM :: u32 where "TX_POWER_DBM = 2"
definition RF_PROFILE :: bytes where
  "RF_PROFILE = ascii ''915000000/SF7/BW500/CR4-5/pre8/CRC/sync12''"

definition image_name :: "bool \<Rightarrow> bytes" where
  "image_name radio = (if radio then ascii ''radio-secure'' else ascii ''radio-free'')"

definition reply_status :: "bool \<Rightarrow> usb_state \<Rightarrow> u64 \<Rightarrow> bytes \<Rightarrow> outcome \<times> bytes" where
  "reply_status radio s rid out =
     (let e = us_engine s; k = us_counters s in
      jw_finish
        ([jraw (ascii ''{\"id\":''), jnum rid, jraw (ascii '',\"ok\":true,\"result\":{''), new_object,
          lit_field ''board'' BOARD, lit_field ''firmware_version'' FIRMWARE_VERSION,
          lit_field ''image'' (image_name radio), bool_field ''provisioned'' (Engine_provisioned e),
          lit_field ''label'' (label_to_str (en_label e)),
          bool_field ''radio_enabled'' (en_radio_on e),
          bool_field ''radio_available'' (en_radio_available e),
          lit_field ''hardware''
            (if en_radio_available e then ascii ''sx1276'' else ascii ''unavailable'')] @
         (case us_radio_version s of
            Some v \<Rightarrow> [num_field ''radio_version'' (ucast v)] | None \<Rightarrow> []) @
         [bool_field ''armed_next_boot'' (Engine_armed_next_boot e),
          num_field ''tx_power_dbm'' (ucast TX_POWER_DBM), lit_field ''rf_profile'' RF_PROFILE,
          bool_field ''time_valid'' (Engine_time_valid e),
          num_field ''epoch'' (ucast (Engine_epoch e)),
          jraw (ascii '',\"contacts\":{\"count\":''), jnum (ucast (present_count e)),
          jraw (ascii '',\"blocked\":''), jnum (ucast (blocked_count e)), jraw (ascii ''}''),
          jraw (ascii '',\"counters\":{''), new_object,
          num_field ''tx_attempts'' (ucast (ct_tx_attempts k)),
          num_field ''tx_ok'' (ucast (ct_tx_ok k)), num_field ''rx_ok'' (ucast (ct_rx_ok k)),
          num_field ''rx_crc_bad'' (ucast (ct_rx_crc_bad k)),
          num_field ''auth_fail'' (ucast (ct_auth_fail k)),
          num_field ''replay_drop'' (ucast (ct_replay_drop k)),
          num_field ''forwards'' (ucast (ct_forwards k)), jraw (ascii ''}}}'')]) out)"

definition contact_steps :: "crypto \<Rightarrow> engine \<Rightarrow> nat \<Rightarrow> wstep list" where
  "contact_steps C e i =
     (let cid = of_nat (i + 1) :: u8 in
      (if 0 < i then [jraw (ascii '','')] else []) @
      [jraw (ascii ''{\"contact_id\":''), jnum (ucast cid), jraw (ascii '',\"present\":''),
       jraw (ascii (if contact_present e cid then ''true'' else ''false'')),
       jraw (ascii '',\"blocked\":''),
       jraw (ascii (if contact_blocked e cid then ''true'' else ''false'')),
       jraw (ascii '',\"fingerprint\":\"'')] @
      (case contact_fingerprint C e cid of
         Some fp \<Rightarrow>
           map (\<lambda>b. jraw [HEX_DIGITS ! unat (drop_bit 4 b), HEX_DIGITS ! unat (b AND 0x0F)]) (take 8 fp)
       | None \<Rightarrow> []) @
      [jraw (ascii ''\"}'')])"

definition reply_contacts :: "crypto \<Rightarrow> usb_state \<Rightarrow> u64 \<Rightarrow> bytes \<Rightarrow> outcome \<times> bytes" where
  "reply_contacts C s rid out =
     jw_finish
       ([jraw (ascii ''{\"id\":''), jnum rid, jraw (ascii '',\"ok\":true,\"result\":{\"contacts\":['')] @
        concat (map (contact_steps C (us_engine s)) [0..<MAX_CONTACTS]) @
        [jraw (ascii '']}}'')]) out"

definition reply_time_status :: "usb_state \<Rightarrow> u64 \<Rightarrow> bytes \<Rightarrow> outcome \<times> bytes" where
  "reply_time_status s rid out =
     (let e = us_engine s in
      jw_finish
        [jraw (ascii ''{\"id\":''), jnum rid, jraw (ascii '',\"ok\":true,\"result\":{''), new_object,
         bool_field ''time_valid'' (Engine_time_valid e),
         num_field ''unix_seconds'' (en_unix_seconds e),
         num_field ''epoch'' (ucast (Engine_epoch e)), jraw (ascii ''}}'')] out)"

definition reply_ok_simple :: "u64 \<Rightarrow> string \<Rightarrow> bytes \<Rightarrow> outcome \<times> bytes" where
  "reply_ok_simple rid body out =
     jw_finish
       [jraw (ascii ''{\"id\":''), jnum rid, jraw (ascii '',\"ok\":true,\"result\":''),
        jraw (ascii body), jraw (ascii ''}'')] out"

text \<open>\<open>reply_record\<close>: the transport text without its prefix, from a 256-byte scratch buffer.\<close>

definition reply_record :: "u64 \<Rightarrow> bytes \<Rightarrow> bytes \<Rightarrow> outcome \<times> bytes" where
  "reply_record rid rec out =
     (let need = b64_encoded_len (length rec);
          (r, tmp) = transport_encode rec (replicate 256 0)
      in jw_finish
        ([jraw (ascii ''{\"id\":''), jnum rid,
          jraw (ascii '',\"ok\":true,\"result\":{\"record_b64\":\"LMESH1:'')] @
         (if res_ok r \<noteq> None \<and> 7 + need \<le> 256 then [jraw (bslice 7 (7 + need) tmp)]
          else [\<lambda>w. (False, w)]) @
         [jraw (ascii ''\"}}'')]) out)"

definition reply_received ::
  "u8 \<Rightarrow> u32 \<Rightarrow> u64 \<Rightarrow> bytes \<Rightarrow> bytes \<Rightarrow> nat option \<times> bytes" where
  "reply_received contact_id ep sq text out =
     (let (ok, w) = w_all
        ([jraw (ascii ''{\"event\":\"received\",\"contact_id\":''), jnum (ucast contact_id),
          jraw (ascii '',\"epoch\":''), jnum (ucast ep), jraw (ascii '',\"sequence\":''), jnum sq,
          jraw (ascii '',\"text\":'')] @
         (if utf8_valid text then [quoted_escaped text, jraw (ascii ''}'')]
          else [\<lambda>w. (False, w)])) (JsonWriter_new out)
      in (if ok then Some (jw_len w) else None, jw_buf w))"

definition reply_line_too_long :: "bytes \<Rightarrow> nat option \<times> bytes" where
  "reply_line_too_long out =
     (let (ok, w) = w_all
        [jraw (ascii ''{\"id\":0,\"ok\":false,\"error\":\"LINE_TOO_LONG\"}'')] (JsonWriter_new out)
      in (if ok then Some (jw_len w) else None, jw_buf w))"

end
