(* ===== verification/Usb_Replies.thy ===== *)
theory Usb_Replies
  imports Usb_State
begin

text \<open>
  What the replies say: each is the text of one JSON object. The left side of every lemma is the
  chain of writer calls of the code, the right side the value a host reads.
\<close>

definition says :: "wstep list \<Rightarrow> json \<Rightarrow> bool" where
  "says steps v \<longleftrightarrow> (\<exists>g. emits (w_all steps) True (json_text v) g)"

definition rendered :: "json \<Rightarrow> bytes \<Rightarrow> outcome \<times> bytes \<Rightarrow> bool" where
  "rendered v out r \<longleftrightarrow>
     length (snd r) = length out \<and>
     (if length (json_text v) \<le> length out
      then fst r = Inline (length (json_text v)) \<and> take (length (json_text v)) (snd r) = json_text v
      else fst r = Silent)"

lemma finish_says: "says steps v \<Longrightarrow> rendered v out (jw_finish steps out)"
proof -
  assume "says steps v"
  then obtain g where "emits (w_all steps) True (json_text v) g" by (auto simp: says_def)
  then show ?thesis
    unfolding emits_def rendered_def jw_finish_def
    by (auto dest!: spec [of _ "JsonWriter_new out"] simp: JsonWriter_new_def put_at_0 split: prod.splits if_splits)
qed

lemmas emits_steps = emits_seq emits_raw emits_skip emits_new_object emits_num emits_num_field
  emits_bool_field emits_lit_field

lemmas text_simps = json_string_plain escape_plain_byte joined_Cons

definition error_reply :: "u64 \<Rightarrow> string \<Rightarrow> json" where
  "error_reply rid code =
     JObj [(''id'', JNum (unat rid)), (''ok'', JBool False), (''error'', JStr (ascii code))]"

definition ok_reply :: "u64 \<Rightarrow> json \<Rightarrow> json" where
  "ok_reply rid body =
     JObj [(''id'', JNum (unat rid)), (''ok'', JBool True), (''result'', body)]"

lemma saysI: "emits (w_all steps) True bs g \<Longrightarrow> bs = json_text v \<Longrightarrow> says steps v"
  by (auto simp: says_def)

lemma unat_up [simp]: "unat (ucast (x :: u32) :: u64) = unat x" "unat (ucast (y :: u8) :: u64) = unat y"
  using unat_u32_less [of x] unat_u8_less [of y] by (simp_all add: unsigned_ucast_eq take_bit_nat_eq_self)

lemma reply_err_says:
  assumes "plain_text (ascii code)"
  shows "rendered (error_reply rid code) out (reply_err rid code out)"
  unfolding reply_err_def error_reply_def
  by (rule finish_says, rule saysI, (rule emits_steps)+) (simp add: text_simps assms)

lemma reply_time_status_says:
  "rendered (ok_reply rid (JObj [(''time_valid'', JBool (Engine_time_valid (us_engine s))),
      (''unix_seconds'', JNum (unat (en_unix_seconds (us_engine s)))),
      (''epoch'', JNum (unat (Engine_epoch (us_engine s))))])) out (reply_time_status s rid out)"
  unfolding reply_time_status_def Let_def ok_reply_def
  by (rule finish_says, rule saysI, (rule emits_steps)+) (simp add: text_simps)

lemma emits_append:
  "emits (w_all ss) f bs g \<Longrightarrow> emits (w_all ts) g cs h \<Longrightarrow> emits (w_all (ss @ ts)) f (bs @ cs) h"
proof -
  assume s: "emits (w_all ss) f bs g" and t: "emits (w_all ts) g cs h"
  have "w_all (ss @ ts) w = w_all [w_all ss, w_all ts] w" for w
    by (induction ss arbitrary: w) (auto split: prod.split bool.split)
  then have "w_all (ss @ ts) = w_all [w_all ss, w_all ts]" by (rule ext)
  with emits_seq [OF s emits_one [OF t]] show ?thesis by (simp del: w_all.simps)
qed

lemma reply_ok_simple_says:
  assumes "ascii body = json_text v"
  shows "rendered (ok_reply rid v) out (reply_ok_simple rid body out)"
  unfolding reply_ok_simple_def ok_reply_def
  by (rule finish_says, rule saysI, (rule emits_steps)+) (simp add: text_simps assms)

subsection \<open>The status reply\<close>

definition counters_value :: "counters \<Rightarrow> json" where
  "counters_value k = JObj
     [(''tx_attempts'', JNum (unat (ct_tx_attempts k))), (''tx_ok'', JNum (unat (ct_tx_ok k))),
      (''rx_ok'', JNum (unat (ct_rx_ok k))), (''rx_crc_bad'', JNum (unat (ct_rx_crc_bad k))),
      (''auth_fail'', JNum (unat (ct_auth_fail k))), (''replay_drop'', JNum (unat (ct_replay_drop k))),
      (''forwards'', JNum (unat (ct_forwards k)))]"

definition status_value :: "bool \<Rightarrow> usb_state \<Rightarrow> json" where
  "status_value radio s =
     (let e = us_engine s in JObj (
        [(''board'', JStr BOARD), (''firmware_version'', JStr FIRMWARE_VERSION),
         (''image'', JStr (image_name radio)), (''provisioned'', JBool (Engine_provisioned e)),
         (''label'', JStr (label_to_str (en_label e))), (''radio_enabled'', JBool (en_radio_on e)),
         (''radio_available'', JBool (en_radio_available e)),
         (''hardware'', JStr (ascii (if en_radio_available e then ''sx1276'' else ''unavailable'')))] @
        (case us_radio_version s of Some v \<Rightarrow> [(''radio_version'', JNum (unat v))] | None \<Rightarrow> []) @
        [(''armed_next_boot'', JBool (Engine_armed_next_boot e)),
         (''tx_power_dbm'', JNum (unat TX_POWER_DBM)), (''rf_profile'', JStr RF_PROFILE),
         (''time_valid'', JBool (Engine_time_valid e)), (''epoch'', JNum (unat (Engine_epoch e))),
         (''contacts'', JObj [(''count'', JNum (unat (present_count e))),
                              (''blocked'', JNum (unat (blocked_count e)))]),
         (''counters'', counters_value (us_counters s))]))"

lemma plain_label: "plain_text (label_to_str l)"
  by (simp add: label_to_str_def)

lemma plain_image: "plain_text (image_name radio)"
  by (simp add: image_name_def)

lemma reply_status_says: "rendered (ok_reply rid (status_value radio s)) out (reply_status radio s rid out)"
proof (cases "us_radio_version s")
  case None
  show ?thesis
    unfolding reply_status_def Let_def ok_reply_def None option.case append_Nil append_Cons
    by (rule finish_says, rule saysI, (rule emits_steps)+)
      (simp add: text_simps status_value_def counters_value_def Let_def None plain_label plain_image
        BOARD_def FIRMWARE_VERSION_def RF_PROFILE_def)
next
  case (Some v)
  show ?thesis
    unfolding reply_status_def Let_def ok_reply_def Some option.case append_Nil append_Cons
    by (rule finish_says, rule saysI, (rule emits_steps)+)
      (simp add: text_simps status_value_def counters_value_def Let_def Some plain_label plain_image
        BOARD_def FIRMWARE_VERSION_def RF_PROFILE_def)
qed

subsection \<open>The contact list\<close>

definition contact_value :: "crypto \<Rightarrow> engine \<Rightarrow> nat \<Rightarrow> json" where
  "contact_value C e i =
     (let cid = of_nat (i + 1) :: u8 in JObj
        [(''contact_id'', JNum (i + 1)), (''present'', JBool (contact_present e cid)),
         (''blocked'', JBool (contact_blocked e cid)),
         (''fingerprint'', JStr (case contact_fingerprint C e cid of
            Some fp \<Rightarrow> concat (map hex_pair (take 8 fp)) | None \<Rightarrow> []))])"

lemma plain_hex: "plain_text (concat (map hex_pair bs))"
proof -
  have "\<forall>b \<in> set HEX_DIGITS. 0x20 \<le> b \<and> b \<noteq> 0x22 \<and> b \<noteq> 0x5C \<and> b \<noteq> 0x7F" "length HEX_DIGITS = 16"
    by (simp_all add: HEX_DIGITS_def)
  moreover have "unat (drop_bit 4 b) < 16" for b :: u8
    using unat_u8_less [of b] by (simp add: drop_bit_eq_div unat_div)
  moreover have "unat (b AND 0x0F) < 16" for b :: u8
    using word_and_le1 [of b "0x0F"] by (simp add: word_order_unat)
  ultimately have "plain_text (hex_pair b)" for b by (simp add: hex_pair_def)
  then show ?thesis by (induction bs) simp_all
qed

lemma emits_hex: "emits (w_all (map (\<lambda>b. jraw [HEX_DIGITS ! unat (drop_bit 4 b), HEX_DIGITS ! unat (b AND 0x0F)]) bs))
    f (concat (map hex_pair bs)) f"
  using emits_raws [of "[]" f "[]" "map hex_pair bs"] emits_skip
  by (simp add: hex_pair_def comp_def del: w_all.simps)

lemma emits_contact:
  assumes i: "i < MAX_CONTACTS"
  shows "emits (w_all (contact_steps C e i)) f
    ((if i = 0 then [] else [0x2C]) @ json_text (contact_value C e i)) f"
proof -
  have n: "unat (of_nat (i + 1) :: u8) = i + 1"
    using i by (simp add: unat_word_ariths unat_of_nat MAX_CONTACTS_def)
  have c: "emits (w_all (if 0 < i then [jraw (ascii '','')] else [])) f (if i = 0 then [] else [0x2C]) f"
    using emits_one [OF emits_raw] emits_skip by (simp del: w_all.simps)
  have h: "emits (w_all (case contact_fingerprint C e cid of
         Some fp \<Rightarrow> map (\<lambda>b. jraw [HEX_DIGITS ! unat (drop_bit 4 b), HEX_DIGITS ! unat (b AND 0x0F)]) (take 8 fp)
       | None \<Rightarrow> [])) f (case contact_fingerprint C e cid of
            Some fp \<Rightarrow> concat (map hex_pair (take 8 fp)) | None \<Rightarrow> []) f" for cid
    by (cases "contact_fingerprint C e cid") (simp_all add: emits_hex emits_skip del: w_all.simps)
  have p: "plain_text (case contact_fingerprint C e cid of
            Some fp \<Rightarrow> concat (map hex_pair (take 8 fp)) | None \<Rightarrow> [])" for cid
    by (simp add: plain_hex split: option.split)
  show ?thesis
    unfolding contact_steps_def Let_def
    by (rule emits_eq, rule emits_append [OF c], rule emits_append, (rule emits_steps)+,
        rule emits_append [OF h], (rule emits_steps)+)
      (simp add: text_simps contact_value_def Let_def n [simplified] p)
qed

lemma joined_snoc: "joined (xs @ [x]) = joined xs @ (if xs = [] then [] else [0x2C]) @ x"
  by (induction xs) (auto simp: joined_Cons)

lemma emits_contacts:
  "n \<le> MAX_CONTACTS \<Longrightarrow> emits (w_all (concat (map (contact_steps C e) [0..<n]))) f
     (joined (map (json_text \<circ> contact_value C e) [0..<n])) f"
proof (induction n)
  case 0
  then show ?case by (simp add: emits_skip del: w_all.simps)
next
  case (Suc n)
  from emits_append [OF Suc.IH emits_contact [of n C e]] Suc.prems show ?case
    by (simp add: joined_snoc del: w_all.simps)
qed

definition contacts_value :: "crypto \<Rightarrow> engine \<Rightarrow> json" where
  "contacts_value C e = JObj [(''contacts'', JArr (map (contact_value C e) [0..<MAX_CONTACTS]))]"

lemma reply_contacts_says:
  "rendered (ok_reply rid (contacts_value C (us_engine s))) out (reply_contacts C s rid out)"
proof -
  show ?thesis
    unfolding reply_contacts_def
    by (rule finish_says, rule saysI, rule emits_append, (rule emits_steps)+, rule emits_append,
        rule emits_contacts [OF order_refl], (rule emits_steps)+)
      (simp add: text_simps ok_reply_def contacts_value_def)
qed

end
