(* ===== verification/Usb_Dispatch.thy ===== *)
theory Usb_Dispatch
  imports Usb_Replies Engine_Pair
begin

text \<open>
  The command dispatcher of \<open>firmware/src/usb.rs\<close>: one function per command, from the parsed
  request to what the owner of the loop must do next, and the functions that finish a command
  after key bytes are drawn or a save is durable. A handler takes the USB state, the request and
  the reply buffer and returns all of it changed. \<open>radio\<close> selects the image, \<open>J\<close> is the JSON
  parser, \<open>C\<close> the cryptographic crates.
\<close>

type_synonym handled = "outcome \<times> usb_state \<times> bytes"

text \<open>A reply that leaves the state as it is.\<close>

definition answered :: "usb_state \<Rightarrow> outcome \<times> bytes \<Rightarrow> handled" where
  "answered s r = (fst r, s, snd r)"

text \<open>A decoded buffer as a string, and \<open>stage_for_commit\<close>: the engine's snapshot is copied for the
  storage owner. (The copy is of \<open>PERSIST_LEN\<close> bytes: the length of every snapshot.)\<close>

definition str_of :: "bytes \<Rightarrow> string" where
  "str_of b = map (\<lambda>x. char_of (unat x)) b"

definition stage_for_commit :: "usb_state \<Rightarrow> usb_state" where
  "stage_for_commit s =
     (case pending_persist (us_engine s) of
        Some b \<Rightarrow> s\<lparr> us_staged := Some (put_at 0 b (replicate PERSIST_LEN 0), length b) \<rparr>
      | None \<Rightarrow> s)"

definition stage_settings_for_commit :: "usb_state \<Rightarrow> bytes option" where
  "stage_settings_for_commit s = Some (Settings_encode (us_settings s))"

section \<open>Provisioning, time, contacts, radio\<close>

definition op_provision :: "json_core \<Rightarrow> usb_state \<Rightarrow> request \<Rightarrow> bytes \<Rightarrow> handled" where
  "op_provision J s req out =
     (if Engine_provisioned (us_engine s)
      then answered s (reply_err (rq_id req) ''ALREADY_PROVISIONED'' out)
      else
        case rq_label req of
          None \<Rightarrow> answered s (reply_err (rq_id req) ''BAD_REQUEST'' out)
        | Some raw \<Rightarrow>
            (case unescape_into J raw (replicate 8 0) of
               (None, lb) \<Rightarrow> answered s (reply_err (rq_id req) ''BAD_REQUEST'' out)
             | (Some n, lb) \<Rightarrow>
                 let l = bslice 0 n lb;
                     label = (if l = ascii ''A'' then Some LABEL_A
                              else if l = ascii ''B'' then Some LABEL_B
                              else if l = ascii ''C'' then Some LABEL_C else None) in
                 (case label of
                    None \<Rightarrow> answered s (reply_err (rq_id req) ''BAD_REQUEST'' out)
                  | Some label \<Rightarrow>
                      (NeedsTrng, s\<lparr> us_pending_op := Some (PoProvision (rq_id req) label) \<rparr>, out))))"

definition complete_provision :: "usb_state \<Rightarrow> u64 \<Rightarrow> u8 \<Rightarrow> bytes \<Rightarrow> bytes \<Rightarrow> handled" where
  "complete_provision s rid label key out =
     (case provision (us_engine s) label key of
        (Inr _, e) \<Rightarrow>
          let s = stage_for_commit (s\<lparr> us_engine := e \<rparr>) in
          answered s (jw_finish
            [jraw (ascii ''{\"id\":''), jnum rid, jraw (ascii '',\"ok\":true,\"result\":{''),
             new_object, bool_field ''provisioned'' True, lit_field ''label'' (label_to_str label),
             jraw (ascii ''}}'')] out)
      | (Inl err, e) \<Rightarrow> answered (s\<lparr> us_engine := e \<rparr>) (reply_err rid (engine_err err) out))"

definition op_time_set :: "usb_state \<Rightarrow> request \<Rightarrow> bytes \<Rightarrow> handled" where
  "op_time_set s req out =
     (case rq_unix_seconds req of
        None \<Rightarrow> answered s (reply_err (rq_id req) ''BAD_REQUEST'' out)
      | Some secs \<Rightarrow>
          let confirmed = (rq_confirm req = Some True) in
          (case set_time_confirmed (us_engine s) secs confirmed of
             (Inr _, e) \<Rightarrow>
               let s = stage_for_commit (s\<lparr> us_engine := e \<rparr>) in
               (NeedsCommit 0, s\<lparr> us_staged_reply := Some (SrStatus (rq_id req)) \<rparr>, out)
           | (Inl err, e) \<Rightarrow>
               answered (s\<lparr> us_engine := e \<rparr>) (reply_err (rq_id req) (engine_err err) out)))"

definition op_block :: "usb_state \<Rightarrow> request \<Rightarrow> bool \<Rightarrow> bytes \<Rightarrow> handled" where
  "op_block s req blocked out =
     (case rq_contact_id req of
        None \<Rightarrow> answered s (reply_err (rq_id req) ''BAD_REQUEST'' out)
      | Some contact_id \<Rightarrow>
          (case set_blocked (us_engine s) contact_id blocked of
             (Inr _, e) \<Rightarrow>
               let s = stage_for_commit (s\<lparr> us_engine := e \<rparr>) in
               (NeedsCommit 0,
                s\<lparr> us_staged_reply := Some (SrBlock (rq_id req) contact_id blocked) \<rparr>, out)
           | (Inl err, e) \<Rightarrow>
               answered (s\<lparr> us_engine := e \<rparr>) (reply_err (rq_id req) (engine_err err) out)))"

definition op_delete :: "usb_state \<Rightarrow> request \<Rightarrow> bytes \<Rightarrow> handled" where
  "op_delete s req out =
     (case rq_contact_id req of
        None \<Rightarrow> answered s (reply_err (rq_id req) ''BAD_REQUEST'' out)
      | Some contact_id \<Rightarrow>
          (case delete_contact (us_engine s) contact_id of
             (Inr _, e) \<Rightarrow>
               let s = stage_for_commit (s\<lparr> us_engine := e \<rparr>) in
               (NeedsCommit 0,
                s\<lparr> us_staged_reply := Some (SrSimple (rq_id req) (ascii ''{\"deleted\":true}'')) \<rparr>, out)
           | (Inl err, e) \<Rightarrow>
               answered (s\<lparr> us_engine := e \<rparr>) (reply_err (rq_id req) (engine_err err) out)))"

definition storage_failure :: "usb_state \<Rightarrow> bytes \<Rightarrow> handled" where
  "storage_failure s out =
     (let s = s\<lparr> us_staged_reply := None \<rparr> in
      answered s (reply_err (us_reply_id s) ''STORAGE_FAULT'' out))"

definition op_radio_set :: "bool \<Rightarrow> usb_state \<Rightarrow> request \<Rightarrow> bytes \<Rightarrow> handled" where
  "op_radio_set radio s req out =
     (case rq_enabled req of
        None \<Rightarrow> answered s (reply_err (rq_id req) ''BAD_REQUEST'' out)
      | Some enabled \<Rightarrow>
          if \<not> radio \<and> enabled then answered s (reply_err (rq_id req) ''RADIO_UNAVAILABLE'' out)
          else
            (case set_radio (us_engine s) enabled of
               (Inr _, e) \<Rightarrow>
                 let s = stage_for_commit (s\<lparr> us_engine := e \<rparr>) in
                 (NeedsCommit 0, s\<lparr> us_staged_reply := Some (SrRadioSet (rq_id req) enabled) \<rparr>, out)
             | (Inl err, e) \<Rightarrow>
                 answered (s\<lparr> us_engine := e \<rparr>) (reply_err (rq_id req) (engine_err err) out)))"

definition op_arm :: "usb_state \<Rightarrow> request \<Rightarrow> bytes \<Rightarrow> handled" where
  "op_arm s req out =
     (case arm_next_boot (us_engine s) of
        (Inr _, e) \<Rightarrow>
          let s = stage_for_commit (s\<lparr> us_engine := e \<rparr>) in
          answered s (reply_ok_simple (rq_id req) ''{\"armed_next_boot\":true}'' out)
      | (Inl err, e) \<Rightarrow>
          answered (s\<lparr> us_engine := e \<rparr>) (reply_err (rq_id req) (engine_err err) out))"

section \<open>Settings\<close>

fun settings_steps :: "usb_state \<Rightarrow> bytes option \<Rightarrow> bool \<Rightarrow> key_meta list \<Rightarrow> wstep list" where
  "settings_steps s flt first [] = []"
| "settings_steps s flt first (m # ms) =
     (if (case flt of Some f \<Rightarrow> f \<noteq> ascii (km_key m) | None \<Rightarrow> False) then settings_steps s flt first ms
      else
        let val = (case Settings_value (us_settings s) (km_key m) of Some v \<Rightarrow> v | None \<Rightarrow> km_min m);
            applied = (\<not> (km_rf m \<and> km_key m = ''tx_power'' \<and> us_settings_tx_pending s)) in
        (if first then [] else [jraw (ascii '','')]) @
        [new_object, jraw (ascii ''{''), lit_field ''key'' (ascii (km_key m)),
         num_field ''value'' (ucast val), num_field ''min'' (ucast (km_min m)),
         num_field ''max'' (ucast (km_max m)), bool_field ''readonly'' (km_readonly m),
         bool_field ''applied'' applied, jraw (ascii ''}'')] @
        settings_steps s flt False ms)"

definition op_settings_get :: "json_core \<Rightarrow> usb_state \<Rightarrow> request \<Rightarrow> bytes \<Rightarrow> handled" where
  "op_settings_get J s req out =
     (let bad = answered s (reply_err (rq_id req) ''BAD_REQUEST'' out);
          list = (\<lambda>flt. answered s (jw_finish
            ([jraw (ascii ''{\"id\":''), jnum (rq_id req),
              jraw (ascii '',\"ok\":true,\"result\":{\"settings\":['')] @
             settings_steps s flt True KEYS @ [jraw (ascii '']}}'')]) out)) in
      case rq_key req of
        None \<Rightarrow> list None
      | Some k \<Rightarrow>
          (case unescape_into J k (replicate 32 0) of
             (None, _) \<Rightarrow> bad
           | (Some n, keybuf) \<Rightarrow>
               let f = bslice 0 n keybuf in
               if Settings_meta (if utf8_valid f then str_of f else []) = None then bad
               else list (Some f)))"

definition op_settings_set :: "json_core \<Rightarrow> usb_state \<Rightarrow> request \<Rightarrow> bytes \<Rightarrow> handled" where
  "op_settings_set J s req out =
     (let bad = answered s (reply_err (rq_id req) ''BAD_REQUEST'' out) in
      case (rq_key req, rq_value req) of
        (Some raw, Some val) \<Rightarrow>
          (case unescape_into J raw (replicate 32 0) of
             (None, _) \<Rightarrow> bad
           | (Some n, keybuf) \<Rightarrow>
               if \<not> utf8_valid (bslice 0 n keybuf) then bad
               else
                 let key = str_of (bslice 0 n keybuf) in
                 if Settings_meta key = None then bad
                 else
                   (case Settings_set (us_settings s) key val of
                      (Inl _, _) \<Rightarrow> bad
                    | (Inr was_clamped, changed) \<Rightarrow>
                        let s = s\<lparr> us_settings := changed \<rparr>;
                            s = (if key = ''tx_power'' \<and> en_radio_on (us_engine s)
                                 then s\<lparr> us_settings_tx_pending := True \<rparr> else s);
                            ks = (if length key \<le> 24 then ascii key else []);
                            got = (case Settings_value (us_settings s) key of Some v \<Rightarrow> v | None \<Rightarrow> 0) in
                        (NeedsCommit 0,
                         s\<lparr> us_staged_reply := Some (SrSettingsSet (rq_id req) ks got was_clamped) \<rparr>, out)))
      | _ \<Rightarrow> bad)"

section \<open>Wi-Fi and reboot\<close>

definition op_wifi_status :: "usb_state \<Rightarrow> request \<Rightarrow> bytes \<Rightarrow> handled" where
  "op_wifi_status s req out =
     (let (ssid_len, configured) =
            (case us_staged_wifi s of
               Some (_, sl, _, _) \<Rightarrow> (ucast sl :: u64, True)
             | None \<Rightarrow> (ucast (us_wifi_ssid_len s), us_wifi_configured s))
      in answered s (jw_finish
           [jraw (ascii ''{\"id\":''), jnum (rq_id req), jraw (ascii '',\"ok\":true,\"result\":{''),
            new_object, bool_field ''configured'' (configured \<or> us_staged_wifi s \<noteq> None),
            num_field ''ssid_len'' ssid_len, jraw (ascii ''}}'')] out))"

definition op_wifi_set :: "json_core \<Rightarrow> usb_state \<Rightarrow> request \<Rightarrow> bytes \<Rightarrow> handled" where
  "op_wifi_set J s req out =
     (let bad = answered s (reply_err (rq_id req) ''BAD_REQUEST'' out) in
      case (rq_ssid req, rq_pass req) of
        (Some raw_ssid, Some raw_pass) \<Rightarrow>
          (case unescape_into J raw_ssid (replicate 32 0) of
             (None, _) \<Rightarrow> bad
           | (Some sn, ssid) \<Rightarrow>
               if \<not> (1 \<le> sn \<and> sn \<le> 32) then bad
               else
                 (case unescape_into J raw_pass (replicate 63 0) of
                    (None, _) \<Rightarrow> bad
                  | (Some pn, pass) \<Rightarrow>
                      if \<not> pn \<le> 63 then bad
                      else if \<not> utf8_valid (bslice 0 sn ssid) \<or> \<not> utf8_valid (bslice 0 pn pass) then bad
                      else
                        let sb = put_at 0 (bslice 0 sn ssid) (replicate 32 0);
                            pb = put_at 0 (bslice 0 pn pass) (replicate 63 0) in
                        (NeedsCommit 0,
                         s\<lparr> us_staged_wifi := Some (sb, of_nat sn, pb, of_nat pn),
                            us_staged_reply := Some (SrWifiSet (rq_id req)) \<rparr>, out)))
      | _ \<Rightarrow> bad)"

definition op_wifi_forget :: "usb_state \<Rightarrow> request \<Rightarrow> bytes \<Rightarrow> handled" where
  "op_wifi_forget s req out =
     (NeedsCommit 0,
      s\<lparr> us_staged_wifi := None, us_staged_reply := Some (SrWifiForget (rq_id req)) \<rparr>, out)"

definition op_reboot_bootsel :: "usb_state \<Rightarrow> request \<Rightarrow> bytes \<Rightarrow> handled" where
  "op_reboot_bootsel s req out =
     (if rq_confirm req \<noteq> Some True then answered s (reply_err (rq_id req) ''BAD_REQUEST'' out)
      else (NeedsRebootBootsel, s\<lparr> us_pending_op := Some (PoRebootBootsel (rq_id req)) \<rparr>, out))"

definition reply_rebooting :: "usb_state \<Rightarrow> bytes \<Rightarrow> nat option \<times> bytes" where
  "reply_rebooting s out =
     (case us_pending_op s of
        Some (PoRebootBootsel rid) \<Rightarrow>
          (case reply_ok_simple rid ''{\"rebooting\":true}'' out of
             (Inline n, out) \<Rightarrow> (Some n, out) | (_, out) \<Rightarrow> (None, out))
      | _ \<Rightarrow> (None, out))"

section \<open>Send and ping\<close>

text \<open>The checks that \<open>op_send\<close> and \<open>op_send_radio_free\<close> share: the contact, then the text.\<close>

definition send_request :: "json_core \<Rightarrow> usb_state \<Rightarrow> request \<Rightarrow> string + u8 \<times> bytes" where
  "send_request J s req =
     (case rq_contact_id req of
        None \<Rightarrow> Inl ''BAD_REQUEST''
      | Some cid \<Rightarrow>
          if \<not> (1 \<le> cid \<and> unat cid \<le> MAX_CONTACTS) then Inl ''BAD_REQUEST''
          else if contact_blocked (us_engine s) cid then Inl ''CONTACT_BLOCKED''
          else
            case rq_text req of
              None \<Rightarrow> Inl ''BAD_REQUEST''
            | Some raw \<Rightarrow>
                (case unescape_into J raw (replicate 160 0) of
                   (None, _) \<Rightarrow> Inl ''BAD_REQUEST''
                 | (Some n, text) \<Rightarrow>
                     if \<not> (1 \<le> n \<and> n \<le> 160) then Inl ''BAD_REQUEST''
                     else if \<not> utf8_valid (bslice 0 n text) then Inl ''BAD_REQUEST''
                     else Inr (cid, bslice 0 n text)))"

definition op_send :: "json_core \<Rightarrow> usb_state \<Rightarrow> request \<Rightarrow> bytes \<Rightarrow> handled" where
  "op_send J s req out =
     (case send_request J s req of
        Inl code \<Rightarrow> answered s (reply_err (rq_id req) code out)
      | Inr (cid, text) \<Rightarrow>
          if \<not> en_radio_on (us_engine s)
          then answered s (reply_err (rq_id req) ''RADIO_UNAVAILABLE'' out)
          else
            (case stash_send s cid text of
               (Inl _, s) \<Rightarrow> answered s (reply_err (rq_id req) ''BAD_REQUEST'' out)
             | (Inr _, s) \<Rightarrow>
                 (NeedsSendPrep, s\<lparr> us_pending_op := Some (PoSendPrep (rq_id req) cid) \<rparr>, out)))"

definition op_send_radio_free :: "json_core \<Rightarrow> usb_state \<Rightarrow> request \<Rightarrow> bytes \<Rightarrow> handled" where
  "op_send_radio_free J s req out =
     (case send_request J s req of
        Inl code \<Rightarrow> answered s (reply_err (rq_id req) code out)
      | Inr _ \<Rightarrow> answered s (reply_err (rq_id req) ''RADIO_UNAVAILABLE'' out))"

definition op_ping :: "usb_state \<Rightarrow> request \<Rightarrow> bytes \<Rightarrow> handled" where
  "op_ping s req out =
     (case rq_count req of
        None \<Rightarrow> answered s (reply_err (rq_id req) ''BAD_REQUEST'' out)
      | Some c \<Rightarrow>
          if 1 \<le> c \<and> c \<le> 3
          then (NeedsPingPrep,
                s\<lparr> us_ping_count := c, us_pending_op := Some (PoPingPrep (rq_id req) c) \<rparr>, out)
          else answered s (reply_err (rq_id req) ''BAD_REQUEST'' out))"

definition reply_unexpected_prep :: "usb_state \<Rightarrow> bytes \<Rightarrow> handled" where
  "reply_unexpected_prep s out =
     (let s = s\<lparr> us_pending_op := None, us_send_len := 0, us_ping_count := 0 \<rparr> in
      answered s (reply_err (us_reply_id s) ''RADIO_UNAVAILABLE'' out))"

section \<open>Pairing\<close>

definition op_pair_offer :: "usb_state \<Rightarrow> request \<Rightarrow> bytes \<Rightarrow> handled" where
  "op_pair_offer s req out =
     (NeedsTrng, s\<lparr> us_pending_op := Some (PoPairOffer (rq_id req)) \<rparr>, out)"

text \<open>What the three functions that hand out a record do with the engine's answer.\<close>

definition record_answer ::
  "usb_state \<Rightarrow> u64 \<Rightarrow> bytes eresult \<times> engine \<Rightarrow> bytes \<Rightarrow> handled" where
  "record_answer s rid r out =
     (case r of
        (Inr rec, e) \<Rightarrow>
          let s = stage_for_commit (s\<lparr> us_engine := e \<rparr>) in answered s (reply_record rid rec out)
      | (Inl err, e) \<Rightarrow> answered (s\<lparr> us_engine := e \<rparr>) (reply_err rid (engine_err err) out))"

definition complete_pair_offer ::
  "crypto \<Rightarrow> usb_state \<Rightarrow> u64 \<Rightarrow> bytes \<Rightarrow> bytes \<Rightarrow> bytes \<Rightarrow> bytes \<Rightarrow> handled" where
  "complete_pair_offer C s rid eph_priv eph_pub challenge out =
     record_answer s rid (pair_offer C (us_engine s) eph_priv eph_pub challenge) out"

definition op_pair_proof :: "crypto \<Rightarrow> usb_state \<Rightarrow> request \<Rightarrow> bytes \<Rightarrow> handled" where
  "op_pair_proof C s req out = record_answer s (rq_id req) (pair_proof C (us_engine s)) out"

definition op_pair_confirm :: "crypto \<Rightarrow> usb_state \<Rightarrow> request \<Rightarrow> bytes \<Rightarrow> handled" where
  "op_pair_confirm C s req out = record_answer s (rq_id req) (pair_confirm C (us_engine s)) out"

definition op_pair_import ::
  "crypto \<Rightarrow> json_core \<Rightarrow> usb_state \<Rightarrow> request \<Rightarrow> bytes \<Rightarrow> handled" where
  "op_pair_import C J s req out =
     (let bad = answered s (reply_err (rq_id req) ''BAD_REQUEST'' out) in
      case rq_record_b64 req of
        None \<Rightarrow> bad
      | Some raw \<Rightarrow>
          (case unescape_into J raw (replicate 256 0) of
             (None, _) \<Rightarrow> bad
           | (Some rn, rb) \<Rightarrow>
               let replace = (rq_replace req = Some True) in
               (case decode_transport (bslice 0 rn rb) (replicate 160 0) of
                  (Inl _, _) \<Rightarrow> bad
                | (Inr rec_len, bin) \<Rightarrow>
                    let sas_match = (rq_sas_match req = Some True) in
                    (case pair_import_sas C (us_engine s) (bslice 0 rec_len bin) replace sas_match of
                       (Inr outc, e) \<Rightarrow>
                         let s = stage_for_commit (s\<lparr> us_engine := e \<rparr>) in
                         answered s (jw_finish
                           ([jraw (ascii ''{\"id\":''), jnum (rq_id req),
                             jraw (ascii '',\"ok\":true,\"result\":{\"fingerprint\":\"''),
                             jraw (po_fingerprint outc), jraw (ascii ''\"'')] @
                            (case po_contact_id outc of
                               Some c \<Rightarrow> [jraw (ascii '',\"contact_id\":''), jnum (ucast c)]
                             | None \<Rightarrow> []) @
                            [jraw (ascii ''}}'')]) out)
                     | (Inl err, e) \<Rightarrow>
                         answered (s\<lparr> us_engine := e \<rparr>)
                           (reply_err (rq_id req) (engine_err err) out)))))"

section \<open>Dispatch\<close>

definition dispatch :: "crypto \<Rightarrow> json_core \<Rightarrow> bool \<Rightarrow> usb_state \<Rightarrow> request \<Rightarrow> bytes \<Rightarrow> handled" where
  "dispatch C J radio s req out =
     (let op = rq_op req; rid = rq_id req in
      if us_health s = HealthFault then
        if op = ascii ''status'' then answered s (reply_status radio s rid out)
        else answered s (reply_err rid ''STORAGE_FAULT'' out)
      else if op = ascii ''status'' then answered s (reply_status radio s rid out)
      else if op = ascii ''contacts'' then answered s (reply_contacts C s rid out)
      else if op = ascii ''provision'' then op_provision J s req out
      else if op = ascii ''time_set'' then op_time_set s req out
      else if op = ascii ''time_status'' then answered s (reply_time_status s rid out)
      else if op = ascii ''radio_set'' then op_radio_set radio s req out
      else if op = ascii ''radio_arm_next_boot'' then op_arm s req out
      else if op = ascii ''ping'' then
        (if radio then op_ping s req out else answered s (reply_err rid ''RADIO_UNAVAILABLE'' out))
      else if op = ascii ''send'' then
        (if radio then op_send J s req out else op_send_radio_free J s req out)
      else if op = ascii ''block'' then op_block s req True out
      else if op = ascii ''unblock'' then op_block s req False out
      else if op = ascii ''contact_delete'' then op_delete s req out
      else if op = ascii ''pair_offer'' then op_pair_offer s req out
      else if op = ascii ''pair_proof'' then op_pair_proof C s req out
      else if op = ascii ''pair_confirm'' then op_pair_confirm C s req out
      else if op = ascii ''pair_import'' then op_pair_import C J s req out
      else if op = ascii ''settings_get'' then op_settings_get J s req out
      else if op = ascii ''settings_set'' then op_settings_set J s req out
      else if op = ascii ''wifi_status'' then op_wifi_status s req out
      else if op = ascii ''wifi_set'' then op_wifi_set J s req out
      else if op = ascii ''wifi_forget'' then op_wifi_forget s req out
      else if op = ascii ''reboot_bootsel'' then op_reboot_bootsel s req out
      else answered s (reply_err rid ''UNKNOWN_OP'' out))"

definition dispatch_line ::
  "crypto \<Rightarrow> json_core \<Rightarrow> bool \<Rightarrow> usb_state \<Rightarrow> bytes \<Rightarrow> nat \<Rightarrow> bytes \<Rightarrow> handled" where
  "dispatch_line C J radio s line scratch_len out =
     (if line = [] then (Silent, s, out)
      else
        case jc_parse J line scratch_len of
          None \<Rightarrow> answered s (reply_err 0 ''BAD_REQUEST'' out)
        | Some req \<Rightarrow> dispatch C J radio (s\<lparr> us_reply_id := rq_id req \<rparr>) req out)"

definition pump_byte ::
  "crypto \<Rightarrow> json_core \<Rightarrow> bool \<Rightarrow> usb_state \<Rightarrow> line_buffer \<Rightarrow> u8 \<Rightarrow> bytes \<Rightarrow> nat \<Rightarrow>
   outcome option \<times> usb_state \<times> line_buffer \<times> bytes" where
  "pump_byte C J radio s lines b out scratch_len =
     (case LineBuffer_push lines b of
        (None, lines) \<Rightarrow> (None, s, lines, out)
      | (Some (Line line), lines) \<Rightarrow>
          (case dispatch_line C J radio s line scratch_len out of
             (oc, s, out) \<Rightarrow> (Some oc, s, lines, out))
      | (Some TooLong, lines) \<Rightarrow>
          (case reply_line_too_long out of
             (Some len, out) \<Rightarrow> (Some (Inline len), s, lines, out)
           | (None, out) \<Rightarrow> (Some Silent, s, lines, out)))"

section \<open>The reply owed after a save\<close>

text \<open>\<open>heapless::String::push_str\<close>: a push beyond the capacity is dropped whole.\<close>

definition hpush :: "nat \<Rightarrow> bytes \<Rightarrow> bytes \<Rightarrow> bytes" where
  "hpush cap s t = (if length s + length t \<le> cap then s @ t else s)"

definition as_option :: "outcome \<times> bytes \<Rightarrow> nat option \<times> bytes" where
  "as_option r = (case r of (Inline n, out) \<Rightarrow> (Some n, out) | (_, out) \<Rightarrow> (None, out))"

definition simple_text :: "u64 \<Rightarrow> bytes \<Rightarrow> bytes" where
  "simple_text rid body =
     hpush 160 (hpush 160 (hpush 160 (hpush 160 (hpush 160 [] (ascii ''{\"id\":'')) (digits (unat rid)))
       (ascii '',\"ok\":true,\"result\":'')) body) (ascii ''}'')"

definition commit_reply ::
  "bool \<Rightarrow> usb_state \<Rightarrow> bytes \<Rightarrow> nat option \<times> usb_state \<times> bytes" where
  "commit_reply radio s out =
     (let owed = us_staged_reply s;
          s = s\<lparr> us_staged_reply := None \<rparr>;
          answer = (\<lambda>s r. (case as_option r of (n, out) \<Rightarrow> (n, s, out))) in
      case owed of
        None \<Rightarrow> (None, s, out)
      | Some (SrStatus rid) \<Rightarrow> answer s (reply_status radio s rid out)
      | Some (SrSimple rid body) \<Rightarrow>
          let b = simple_text rid body in
          if length b \<le> length out then (Some (length b), s, put_at 0 b out) else (None, s, out)
      | Some (SrBlock rid _ blocked) \<Rightarrow>
          answer s (reply_ok_simple rid
            (if blocked then ''{\"blocked\":true}'' else ''{\"blocked\":false}'') out)
      | Some (SrRadioSet rid enabled) \<Rightarrow>
          answer s (reply_ok_simple rid
            (if enabled then ''{\"radio_enabled\":true}'' else ''{\"radio_enabled\":false}'') out)
      | Some (SrSettingsSet rid key val was_clamped) \<Rightarrow>
          answer s (jw_finish
            [jraw (ascii ''{\"id\":''), jnum rid, jraw (ascii '',\"ok\":true,\"result\":{''),
             new_object, lit_field ''key'' key, num_field ''value'' (ucast val),
             bool_field ''clamped'' was_clamped, jraw (ascii ''}}'')] out)
      | Some (SrWifiSet rid) \<Rightarrow>
          let ssid_len = (case us_staged_wifi s of
                            Some (_, sl, _, _) \<Rightarrow> ucast sl
                          | None \<Rightarrow> ucast (us_wifi_ssid_len s)) :: u64;
              s = s\<lparr> us_staged_wifi := None, us_wifi_configured := True,
                      us_wifi_ssid_len := ucast ssid_len \<rparr> in
          answer s (jw_finish
            [jraw (ascii ''{\"id\":''), jnum rid, jraw (ascii '',\"ok\":true,\"result\":{''),
             new_object, bool_field ''configured'' True, num_field ''ssid_len'' ssid_len,
             jraw (ascii ''}}'')] out)
      | Some (SrWifiForget rid) \<Rightarrow>
          let s = s\<lparr> us_staged_wifi := None, us_wifi_configured := False, us_wifi_ssid_len := 0 \<rparr> in
          answer s (reply_ok_simple rid ''{\"configured\":false}'' out))"

end
