(* ===== verification/Usb_Laws.thy ===== *)
theory Usb_Laws
  imports Usb_Dispatch Node_System
begin

text \<open>
  What the command dispatcher guarantees: every request is answered under its own id by one line
  of JSON that fits the reply buffer, or leaves exactly one answer owed; and the engine moves by
  at most the one operation the request names.
\<close>

section \<open>Replies fit their buffer\<close>

definition REPLY_LEN :: nat where "REPLY_LEN = 4096"

text \<open>An upper bound of a value's text when its numbers have at most 20 digits.\<close>

fun small_numbers :: "json \<Rightarrow> bool" where
  "small_numbers (JNum n) \<longleftrightarrow> n < 10 ^ 20"
| "small_numbers (JBool b) \<longleftrightarrow> True"
| "small_numbers (JStr s) \<longleftrightarrow> True"
| "small_numbers (JArr vs) \<longleftrightarrow> list_all small_numbers vs"
| "small_numbers (JObj fs) \<longleftrightarrow> list_all (\<lambda>(k, v). small_numbers v) fs"

fun text_bound :: "json \<Rightarrow> nat" where
  "text_bound (JNum n) = 20"
| "text_bound (JBool b) = 5"
| "text_bound (JStr s) = length (json_string s)"
| "text_bound (JArr vs) = 2 + sum_list (map (\<lambda>v. text_bound v + 1) vs)"
| "text_bound (JObj fs) =
     2 + sum_list (map (\<lambda>(k, v). length (json_string (ascii k)) + 2 + text_bound v) fs)"

lemma length_joined: "length (joined xs) \<le> sum_list (map (\<lambda>x. length x + 1) xs)"
  by (induction xs) (auto simp: joined_Cons)

lemma text_within_bound: "small_numbers v \<Longrightarrow> length (json_text v) \<le> text_bound v"
proof (induction v rule: json_text.induct)
  case (1 n)
  then show ?case using length_digits [of n 19] by simp
next
  case (4 vs)
  have "sum_list (map (\<lambda>v. length (json_text v) + 1) vs) \<le> sum_list (map (\<lambda>v. text_bound v + 1) vs)"
    using 4 by (intro sum_list_mono) (auto simp: list_all_iff)
  with length_joined [of "map json_text vs"] show ?case by (simp add: comp_def)
next
  case (5 fs)
  have "sum_list (map (\<lambda>f. length (member_text f) + 1) fs)
      \<le> sum_list (map (\<lambda>(k, v). length (json_string (ascii k)) + 2 + text_bound v) fs)"
    using 5 by (intro sum_list_mono) (auto simp: list_all_iff)
  with length_joined [of "map member_text fs"] show ?case by (simp add: comp_def)
qed simp_all

lemma small_words [simp]:
  "unat (a :: u8) < 100000000000000000000" "unat (b :: u32) < 100000000000000000000"
  "unat (c :: u64) < 100000000000000000000"
  using unat_u8_less [of a] unat_u32_less [of b] unat_u64_less [of c] by simp_all

text \<open>A reply to the request \<open>rid\<close>.\<close>

definition error_codes :: "string set" where
  "error_codes = {''BUSY'', ''CONTACT_BLOCKED'', ''TIME_UNSET'', ''TIME_ROLLBACK'',
     ''TIME_JUMP_NEEDS_CONFIRM'', ''STORAGE_FAULT'', ''RADIO_MUST_BE_OFF'', ''RADIO_UNAVAILABLE'',
     ''BAD_REQUEST'', ''UNKNOWN_OP'', ''UNPROVISIONED'', ''ALREADY_PROVISIONED'', ''SAS_MISMATCH'', ''LINE_TOO_LONG''}"

definition is_reply :: "u64 \<Rightarrow> json \<Rightarrow> bool" where
  "is_reply rid v \<longleftrightarrow>
     (\<exists>code \<in> error_codes. v = error_reply rid code) \<or> (\<exists>body. v = ok_reply rid body)"

definition replies :: "u64 \<Rightarrow> nat \<Rightarrow> bytes \<Rightarrow> bool" where
  "replies rid n out \<longleftrightarrow>
     n \<le> length out \<and> length out = REPLY_LEN \<and> (\<exists>v. is_reply rid v \<and> take n out = json_text v)"

lemma engine_err_code: "engine_err e \<in> error_codes"
  by (cases e) (simp_all add: error_codes_def)

lemma plain_code: "code \<in> error_codes \<Longrightarrow> plain_text (ascii code) \<and> length code \<le> 30"
  by (auto simp: error_codes_def)

lemma length_ascii [simp]: "length (ascii s) = length s"
  by (simp add: ascii_def)

lemma rendered_fits:
  assumes "rendered v out r" and "length (json_text v) \<le> length out"
  shows "fst r = Inline (length (json_text v)) \<and> take (length (json_text v)) (snd r) = json_text v \<and>
    length (snd r) = length out"
  using assms by (simp add: rendered_def)

lemma rendered_replies:
  assumes r: "rendered v out r" and v: "is_reply rid v" "small_numbers v" "text_bound v \<le> REPLY_LEN"
    and l: "length out = REPLY_LEN"
  shows "\<exists>n. fst r = Inline n \<and> replies rid n (snd r)"
proof -
  have "length (json_text v) \<le> length out" using text_within_bound [OF v(2)] v(3) l by simp
  with rendered_fits [OF r this] v(1) l show ?thesis by (auto simp: replies_def)
qed

lemma reply_err_replies:
  assumes "code \<in> error_codes" and "length out = REPLY_LEN"
  shows "\<exists>n. fst (reply_err rid code out) = Inline n \<and> replies rid n (snd (reply_err rid code out))"
  using plain_code [OF assms(1)] assms
  by (intro rendered_replies [OF reply_err_says])
    (auto simp: is_reply_def error_reply_def text_simps REPLY_LEN_def)

lemma label_short: "length (label_to_str l) \<le> 1"
  by (simp add: label_to_str_def)

lemma image_short: "length (image_name radio) \<le> 12"
  by (simp add: image_name_def)

lemma status_replies:
  "length out = REPLY_LEN \<Longrightarrow>
   \<exists>n. fst (reply_status radio s rid out) = Inline n \<and> replies rid n (snd (reply_status radio s rid out))"
  using label_short [of "en_label (us_engine s)"] image_short [of radio]
  by (intro rendered_replies [OF reply_status_says])
    (auto simp: is_reply_def ok_reply_def status_value_def counters_value_def text_simps REPLY_LEN_def
       plain_label plain_image BOARD_def FIRMWARE_VERSION_def RF_PROFILE_def Let_def TX_POWER_DBM_def
       split: option.split)

lemma time_replies:
  "length out = REPLY_LEN \<Longrightarrow>
   \<exists>n. fst (reply_time_status s rid out) = Inline n \<and> replies rid n (snd (reply_time_status s rid out))"
  by (intro rendered_replies [OF reply_time_status_says])
    (auto simp: is_reply_def ok_reply_def text_simps REPLY_LEN_def)

lemma contact_value_bound: "text_bound (contact_value C e i) \<le> 150"
proof -
  have "length (concat (map hex_pair xs)) = 2 * length xs" for xs
    by (induction xs) (simp_all add: hex_pair_def)
  then show ?thesis
    by (auto simp: contact_value_def Let_def text_simps plain_hex split: option.split)
qed

lemma contacts_replies:
  "length out = REPLY_LEN \<Longrightarrow>
   \<exists>n. fst (reply_contacts C s rid out) = Inline n \<and> replies rid n (snd (reply_contacts C s rid out))"
proof (rule rendered_replies [OF reply_contacts_says])
  show "is_reply rid (ok_reply rid (contacts_value C (us_engine s)))" by (auto simp: is_reply_def)
  show "small_numbers (ok_reply rid (contacts_value C (us_engine s)))"
    by (simp add: ok_reply_def contacts_value_def list_all_iff contact_value_def Let_def MAX_CONTACTS_def)
  have "sum_list (map (\<lambda>i. text_bound (contact_value C (us_engine s) i) + 1) [0..<16]) \<le>
      sum_list (map (\<lambda>i. 151) [0..<16])"
    by (rule sum_list_mono) (simp add: contact_value_bound)
  then show "text_bound (ok_reply rid (contacts_value C (us_engine s))) \<le> REPLY_LEN"
    by (simp add: ok_reply_def contacts_value_def text_simps REPLY_LEN_def MAX_CONTACTS_def comp_def
        sum_list_triv)
qed

lemma simple_replies:
  assumes "ascii body = json_text v" and "small_numbers v" and "text_bound v \<le> 1000" and "length out = REPLY_LEN"
  shows "\<exists>n. fst (reply_ok_simple rid body out) = Inline n \<and> replies rid n (snd (reply_ok_simple rid body out))"
  using assms by (intro rendered_replies [OF reply_ok_simple_says])
    (auto simp: is_reply_def ok_reply_def text_simps REPLY_LEN_def)

text \<open>A pairing record travels as its transport text.\<close>

lemma plain_b64: "plain_text (b64_chars rec)"
proof -
  have a: "\<forall>b \<in> set B64_ALPHABET. 0x20 \<le> b \<and> b \<noteq> 0x22 \<and> b \<noteq> 0x5C \<and> b \<noteq> 0x7F" "length B64_ALPHABET = 64"
    by (simp_all add: B64_ALPHABET_def)
  have "unat (w AND 63) < 64" for w :: u32
    using and63_less [of w] by (simp add: word_order_unat)
  then have "plain_text (enc3 x y z)" for x y z
    using a by (simp add: enc3_def Let_def)
  moreover have "plain_text (take n (enc3 x y z))" for n x y z
    using calculation [of x y z] by (auto simp: plain_text_def dest: in_set_takeD)
  ultimately show ?thesis by (induction rec rule: b64_chars.induct) auto
qed

lemma record_replies:
  assumes r: "rec \<noteq> []" "length rec \<le> 186" and l: "length out = REPLY_LEN"
  shows "\<exists>n. fst (reply_record rid rec out) = Inline n \<and> replies rid n (snd (reply_record rid rec out))"
proof -
  have len: "length (b64_chars rec) = b64_encoded_len (length rec)" "b64_encoded_len (length rec) \<le> 248"
    using r by (simp_all add: length_b64_chars b64_encoded_len_def)
  have t: "transport_encode rec (replicate 256 0) =
      (Inr (length (transport_text rec)), transport_text rec @ drop (length (transport_text rec)) (replicate 256 0))"
    using r len by (simp add: transport_encode_eq transport_text_def)
  have "rendered (ok_reply rid (JObj [(''record_b64'', JStr (transport_text rec))])) out
      (reply_record rid rec out)"
    unfolding reply_record_def Let_def t ok_reply_def
    using len by (simp del: ascii_simps)
      (rule finish_says, rule saysI, (rule emits_steps)+,
       simp add: text_simps transport_text_def TRANSPORT_PREFIX_def plain_b64 bslice_def)
  then show ?thesis
    using len l by (rule_tac rendered_replies)
      (auto simp: is_reply_def ok_reply_def text_simps REPLY_LEN_def transport_text_def plain_b64
        TRANSPORT_PREFIX_def)
qed

text \<open>The settings list.\<close>

definition setting_value :: "usb_state \<Rightarrow> key_meta \<Rightarrow> json" where
  "setting_value s m = JObj
     [(''key'', JStr (ascii (km_key m))),
      (''value'', JNum (unat (case Settings_value (us_settings s) (km_key m) of Some v \<Rightarrow> v | None \<Rightarrow> km_min m))),
      (''min'', JNum (unat (km_min m))), (''max'', JNum (unat (km_max m))),
      (''readonly'', JBool (km_readonly m)),
      (''applied'', JBool (\<not> (km_rf m \<and> km_key m = ''tx_power'' \<and> us_settings_tx_pending s)))]"

definition listed :: "bytes option \<Rightarrow> key_meta list \<Rightarrow> key_meta list" where
  "listed flt ms = filter (\<lambda>m. case flt of Some f \<Rightarrow> f = ascii (km_key m) | None \<Rightarrow> True) ms"

lemma listed_Cons: "listed flt (m # ms) =
    (if (case flt of Some f \<Rightarrow> f \<noteq> ascii (km_key m) | None \<Rightarrow> False) then listed flt ms else m # listed flt ms)"
  by (simp add: listed_def split: option.split)

lemma emits_settings:
  "\<forall>m \<in> set ms. plain_text (ascii (km_key m)) \<Longrightarrow>
   \<exists>g. emits (w_all (settings_steps s flt first ms)) f
     ((if first \<or> listed flt ms = [] then [] else [0x2C]) @ joined (map (json_text \<circ> setting_value s) (listed flt ms))) g"
proof (induction ms arbitrary: first f)
  case Nil
  then show ?case by (auto simp: listed_def intro: emits_skip simp del: w_all.simps)
next
  case (Cons m ms)
  then have p: "plain_text (ascii (km_key m))" by simp
  show ?case
  proof (cases "case flt of Some f \<Rightarrow> f \<noteq> ascii (km_key m) | None \<Rightarrow> False")
    case True
    then have "settings_steps s flt first (m # ms) = settings_steps s flt first ms" by simp
    with True Cons show ?thesis by (simp add: listed_Cons del: settings_steps.simps w_all.simps)
  next
    case False
    from Cons.prems have "\<forall>m \<in> set ms. plain_text (ascii (km_key m))" by simp
    from Cons.IH [OF this, of False False] obtain g where g: "emits (w_all (settings_steps s flt False ms)) False
        ((if False \<or> listed flt ms = [] then [] else [0x2C]) @ joined (map (json_text \<circ> setting_value s) (listed flt ms))) g"
      by blast
    have c: "emits (w_all (if first then [] else [jraw (ascii '','')])) f (if first then [] else [0x2C]) f"
      using emits_one [OF emits_raw] emits_skip by (simp del: w_all.simps)
    have eq: "listed flt (m # ms) = m # listed flt ms"
      by (simp only: listed_Cons if_not_P [OF False])
    have v: "emits (w_all [new_object, jraw (ascii ''{''), lit_field ''key'' (ascii (km_key m)),
         num_field ''value'' (ucast (case Settings_value (us_settings s) (km_key m) of
           Some v \<Rightarrow> v | None \<Rightarrow> km_min m)), num_field ''min'' (ucast (km_min m)),
         num_field ''max'' (ucast (km_max m)), bool_field ''readonly'' (km_readonly m),
         bool_field ''applied'' (\<not> (km_rf m \<and> km_key m = ''tx_power'' \<and> us_settings_tx_pending s)),
         jraw (ascii ''}'')]) f (json_text (setting_value s m)) False" for f
      by (rule emits_eq, (rule emits_steps)+) (simp add: setting_value_def text_simps p)
    have "emits (w_all (settings_steps s flt first (m # ms))) f
        ((if first then [] else [0x2C]) @ json_text (setting_value s m) @
         ((if False \<or> listed flt ms = [] then [] else [0x2C]) @
          joined (map (json_text \<circ> setting_value s) (listed flt ms)))) g"
      unfolding settings_steps.simps if_not_P [OF False] Let_def
      by (rule emits_append [OF c emits_append [OF v g]])
    moreover have "(if first then [] else [0x2C]) @ json_text (setting_value s m) @
         ((if False \<or> listed flt ms = [] then [] else [0x2C]) @
          joined (map (json_text \<circ> setting_value s) (listed flt ms))) =
       (if first \<or> listed flt (m # ms) = [] then [] else [0x2C]) @
         joined (map (json_text \<circ> setting_value s) (listed flt (m # ms)))"
      by (simp add: eq joined_Cons)
    ultimately show ?thesis by metis
  qed
qed

lemma KEYS_plain: "m \<in> set KEYS \<Longrightarrow> plain_text (ascii (km_key m)) \<and> length (km_key m) \<le> 12"
  by (auto simp: KEYS_def)

lemma settings_replies:
  assumes l: "length out = REPLY_LEN"
  shows "\<exists>n. fst (jw_finish ([jraw (ascii ''{\"id\":''), jnum rid,
      jraw (ascii '',\"ok\":true,\"result\":{\"settings\":['')] @
      settings_steps s flt True KEYS @ [jraw (ascii '']}}'')]) out) = Inline n \<and>
    replies rid n (snd (jw_finish ([jraw (ascii ''{\"id\":''), jnum rid,
      jraw (ascii '',\"ok\":true,\"result\":{\"settings\":['')] @
      settings_steps s flt True KEYS @ [jraw (ascii '']}}'')]) out))"
    (is "\<exists>n. fst (jw_finish ?st out) = Inline n \<and> _")
proof -
  let ?v = "ok_reply rid (JObj [(''settings'', JArr (map (setting_value s) (listed flt KEYS)))])"
  obtain g where g: "emits (w_all (settings_steps s flt True KEYS)) True
     (joined (map (json_text \<circ> setting_value s) (listed flt KEYS))) g"
    using emits_settings [of KEYS s flt True True] KEYS_plain by auto
  have "says ?st ?v"
    by (rule saysI, rule emits_append, (rule emits_steps)+, rule emits_append, rule g, (rule emits_steps)+)
      (simp add: text_simps ok_reply_def)
  then have "rendered ?v out (jw_finish ?st out)" by (rule finish_says)
  then show ?thesis
  proof (rule rendered_replies)
    show "is_reply rid ?v" by (auto simp: is_reply_def)
    show "small_numbers ?v" by (simp add: ok_reply_def list_all_iff setting_value_def)
    have "text_bound (setting_value s m) + 1 \<le> 200" if "m \<in> set (listed flt KEYS)" for m
      using that KEYS_plain [of m] by (simp add: listed_def setting_value_def text_simps)
    then have "sum_list (map (\<lambda>m. text_bound (setting_value s m) + 1) (listed flt KEYS))
        \<le> sum_list (map (\<lambda>m. 200) (listed flt KEYS))"
      by (intro sum_list_mono) simp
    moreover have "length (listed flt KEYS) \<le> 7"
      using length_filter_le [of _ KEYS] by (simp add: listed_def KEYS_def)
    ultimately show "text_bound ?v \<le> REPLY_LEN"
      by (simp add: ok_reply_def text_simps REPLY_LEN_def comp_def sum_list_triv)
  qed (rule l)
qed

section \<open>Every request is answered\<close>

text \<open>A reply owed after a save, or an operation parked until random bytes are drawn, remembers the
  request it belongs to.\<close>

fun owed_id :: "staged_reply \<Rightarrow> u64" where
  "owed_id (SrStatus r) = r"
| "owed_id (SrSimple r _) = r"
| "owed_id (SrBlock r _ _) = r"
| "owed_id (SrRadioSet r _) = r"
| "owed_id (SrSettingsSet r _ _ _) = r"
| "owed_id (SrWifiSet r) = r"
| "owed_id (SrWifiForget r) = r"

fun owed_ok :: "staged_reply \<Rightarrow> bool" where
  "owed_ok (SrSimple _ b) \<longleftrightarrow> b = ascii ''{\"deleted\":true}''"
| "owed_ok (SrSettingsSet _ k _ _) \<longleftrightarrow> plain_text k \<and> length k \<le> 24"
| "owed_ok _ \<longleftrightarrow> True"

definition answers :: "u64 \<Rightarrow> handled \<Rightarrow> bool" where
  "answers rid h \<longleftrightarrow>
     (case h of (oc, s, out) \<Rightarrow> length out = REPLY_LEN \<and>
       (case oc of
          Inline n \<Rightarrow> replies rid n out
        | NeedsCommit _ \<Rightarrow>
            (\<exists>r. us_staged_reply s = Some r \<and> owed_id r = rid \<and> owed_ok r)
        | NeedsTrng \<Rightarrow>
            (\<exists>l. us_pending_op s = Some (PoProvision rid l)) \<or> us_pending_op s = Some (PoPairOffer rid)
        | NeedsSendPrep \<Rightarrow> (\<exists>c. us_pending_op s = Some (PoSendPrep rid c))
        | NeedsPingPrep \<Rightarrow> (\<exists>c. us_pending_op s = Some (PoPingPrep rid c))
        | NeedsRebootBootsel \<Rightarrow> us_pending_op s = Some (PoRebootBootsel rid)
        | Silent \<Rightarrow> False))"

lemma codes_in [simp]:
  "''BUSY'' \<in> error_codes" "''CONTACT_BLOCKED'' \<in> error_codes" "''STORAGE_FAULT'' \<in> error_codes"
  "''RADIO_UNAVAILABLE'' \<in> error_codes" "''BAD_REQUEST'' \<in> error_codes" "''UNKNOWN_OP'' \<in> error_codes"
  "''ALREADY_PROVISIONED'' \<in> error_codes" "''LINE_TOO_LONG'' \<in> error_codes"
  by (simp_all add: error_codes_def)

declare engine_err_code [simp]

lemma answers_with:
  "\<exists>n. fst r = Inline n \<and> replies rid n (snd r) \<Longrightarrow> answers rid (answered s r)"
  by (auto simp: answers_def answered_def replies_def)

lemma answers_err [simp]:
  "code \<in> error_codes \<Longrightarrow> length out = REPLY_LEN \<Longrightarrow> answers rid (answered s (reply_err rid code out))"
  by (rule answers_with, rule reply_err_replies)

lemma answers_owed [simp]:
  "answers rid (NeedsCommit k, s, out) \<longleftrightarrow>
     length out = REPLY_LEN \<and> (\<exists>r. us_staged_reply s = Some r \<and> owed_id r = rid \<and> owed_ok r)"
  by (simp add: answers_def)

text \<open>The record functions return arrays of a fixed length.\<close>

definition record_sizes :: "crypto \<Rightarrow> engine \<Rightarrow> bool" where
  "record_sizes C e \<longleftrightarrow>
     (\<forall>r. fst (pair_proof C e) = Inr r \<longrightarrow> length r = PROOF_RECORD_LEN) \<and>
     (\<forall>r. fst (pair_confirm C e) = Inr r \<longrightarrow> length r = CONFIRM_RECORD_LEN) \<and>
     (\<forall>k x c r. length x = 32 \<longrightarrow> length c = 32 \<longrightarrow> fst (pair_offer C e k x c) = Inr r \<longrightarrow>
        length r = OFFER_RECORD_LEN)"

lemma record_answer_answers:
  assumes "\<And>r. fst a = Inr r \<Longrightarrow> r \<noteq> [] \<and> length r \<le> 186" and "length out = REPLY_LEN"
  shows "answers rid (record_answer s rid a out)"
proof (cases a)
  case (Pair r e)
  show ?thesis
  proof (cases r)
    case (Inr rec)
    then show ?thesis
      using assms record_replies [of rec out rid] by (auto simp: record_answer_def Pair Let_def intro: answers_with)
  qed (use assms in \<open>simp add: record_answer_def Pair\<close>)
qed

lemma answers_ok:
  assumes e: "emits (w_all st) True bs g" and t: "bs = json_text (ok_reply rid v)"
    and v: "small_numbers v" "text_bound v \<le> 4000" and l: "length out = REPLY_LEN"
  shows "answers rid (answered s (jw_finish st out))"
proof (rule answers_with, rule rendered_replies)
  show "rendered (ok_reply rid v) out (jw_finish st out)"
    using e t by (intro finish_says saysI)
qed (use v l in \<open>auto simp: is_reply_def ok_reply_def text_simps REPLY_LEN_def\<close>)

lemma complete_provision_answers:
  assumes l: "length out = REPLY_LEN"
  shows "answers rid (complete_provision s rid label key out)"
proof (cases "provision (us_engine s) label key")
  case (Pair r e)
  show ?thesis
  proof (cases r)
    case (Inr u)
    let ?v = "JObj [(''provisioned'', JBool True), (''label'', JStr (label_to_str label))]"
    show ?thesis
      unfolding complete_provision_def Pair Inr prod.case sum.case Let_def
      by (rule answers_ok [where v = ?v], (rule emits_steps)+)
        (use label_short [of label] l in \<open>simp_all add: text_simps ok_reply_def plain_label\<close>)
  qed (simp add: complete_provision_def Pair l)
qed

lemma wifi_status_answers:
  assumes l: "length out = REPLY_LEN"
  shows "answers (rq_id req) (op_wifi_status s req out)"
proof -
  obtain k b where kb: "(case us_staged_wifi s of
               Some (_, sl, _, _) \<Rightarrow> (ucast sl :: u64, True)
             | None \<Rightarrow> (ucast (us_wifi_ssid_len s), us_wifi_configured s)) = (k, b)"
    by (metis surj_pair)
  let ?v = "JObj [(''configured'', JBool (b \<or> us_staged_wifi s \<noteq> None)), (''ssid_len'', JNum (unat k))]"
  show ?thesis
    unfolding op_wifi_status_def kb Let_def prod.case
    by (rule answers_ok [where v = ?v], (rule emits_steps)+) (use l in \<open>simp_all add: text_simps ok_reply_def\<close>)
qed

lemma fingerprint_text: "plain_text (transcript_fingerprint t) \<and> length (transcript_fingerprint t) = 16"
proof -
  have h: "\<forall>b \<in> set HEX_DIGITS. 0x20 \<le> b \<and> b \<noteq> 0x22 \<and> b \<noteq> 0x5C \<and> b \<noteq> 0x7F" "length HEX_DIGITS = 16"
    by (simp_all add: HEX_DIGITS_def)
  have "unat (drop_bit 4 b) < 16" for b :: u8
    using unat_u8_less [of b] by (simp add: drop_bit_eq_div unat_div)
  moreover have "unat (b AND 0x0F) < 16" for b :: u8
    using word_and_le1 [of b "0x0F"] by (simp add: word_order_unat)
  ultimately show ?thesis
    using h by (simp add: transcript_fingerprint_def upt_rec_numeral numeral_eq_Suc)
qed

lemma import_fingerprint:
  "fst (pair_import_sas C e r rep sas) = Inr outc \<Longrightarrow> \<exists>t. po_fingerprint outc = transcript_fingerprint t"
  by (auto simp: pair_import_sas_def import_offer_def import_proof_def import_confirm_def Let_def
      split: sum.splits if_splits prod.splits)

lemma import_reply:
  assumes f: "plain_text f" "length f = 16" and l: "length out = REPLY_LEN"
  shows "answers rid (answered s (jw_finish ([jraw (ascii ''{\"id\":''), jnum rid,
      jraw (ascii '',\"ok\":true,\"result\":{\"fingerprint\":\"''), jraw f, jraw (ascii ''\"'')] @
      (case cid of Some c \<Rightarrow> [jraw (ascii '',\"contact_id\":''), jnum (ucast (c :: u8))] | None \<Rightarrow> []) @
      [jraw (ascii ''}}'')]) out))"
proof (cases cid)
  case None
  let ?v = "JObj [(''fingerprint'', JStr f)]"
  show ?thesis
    unfolding None option.case append_Nil append_Cons
    by (rule answers_ok [where v = ?v], (rule emits_steps)+) (use f l in \<open>simp_all add: text_simps ok_reply_def\<close>)
next
  case (Some c)
  let ?v = "JObj [(''fingerprint'', JStr f), (''contact_id'', JNum (unat c))]"
  show ?thesis
    unfolding Some option.case append_Nil append_Cons
    by (rule answers_ok [where v = ?v], (rule emits_steps)+) (use f l in \<open>simp_all add: text_simps ok_reply_def\<close>)
qed

lemma import_answers:
  assumes l: "length out = REPLY_LEN"
  shows "answers (rq_id req) (op_pair_import C J s req out)"
proof -
  have ok: "answers (rq_id req) (case pair_import_sas C e rec rep sas of
       (Inr outc, e) \<Rightarrow>
         let s = stage_for_commit (s\<lparr> us_engine := e \<rparr>) in
         answered s (jw_finish
           ([jraw (ascii ''{\"id\":''), jnum (rq_id req),
             jraw (ascii '',\"ok\":true,\"result\":{\"fingerprint\":\"''),
             jraw (po_fingerprint outc), jraw (ascii ''\"'')] @
            (case po_contact_id outc of
               Some c \<Rightarrow> [jraw (ascii '',\"contact_id\":''), jnum (ucast c)]
             | None \<Rightarrow> []) @
            [jraw (ascii ''}}'')]) out)
     | (Inl err, e) \<Rightarrow> answered (s\<lparr> us_engine := e \<rparr>) (reply_err (rq_id req) (engine_err err) out))"
    for e rec rep sas
  proof (cases "pair_import_sas C e rec rep sas")
    case (Pair r e')
    show ?thesis
    proof (cases r)
      case (Inr outc)
      then obtain t where "po_fingerprint outc = transcript_fingerprint t"
        using import_fingerprint [of C e rec rep sas outc] Pair by auto
      then have "plain_text (po_fingerprint outc)" "length (po_fingerprint outc) = 16"
        using fingerprint_text [of t] by simp_all
      from import_reply [OF this l] show ?thesis by (simp add: Pair Inr Let_def)
    qed (simp add: Pair l)
  qed
  show ?thesis
    unfolding op_pair_import_def Let_def
    by (auto simp: l ok [unfolded Let_def] split: option.split prod.split sum.split)
qed

lemma settings_get_answers:
  "length out = REPLY_LEN \<Longrightarrow> answers (rq_id req) (op_settings_get J s req out)"
  unfolding op_settings_get_def Let_def
  by (simp add: answers_with [OF settings_replies] del: ascii_simps append.simps
      split: option.split prod.split)

lemma Settings_set_key: "fst (Settings_set st key val) = Inr b \<Longrightarrow> key \<in> km_key ` set KEYS"
proof -
  assume "fst (Settings_set st key val) = Inr b"
  then obtain m where "find (\<lambda>m. km_key m = key) KEYS = Some m"
    by (auto simp: Settings_set_def Settings_meta_def split: option.splits)
  then show ?thesis by (auto simp: find_Some_iff)
qed

lemma settings_set_answers:
  assumes l: "length out = REPLY_LEN"
  shows "answers (rq_id req) (op_settings_set J s req out)"
proof -
  have p: "plain_text (ascii key) \<and> length (ascii key) \<le> 24" if "Settings_set st key val = (Inr b, st')" for st key val b st'
  proof -
    have "key \<in> km_key ` set KEYS" using that Settings_set_key [of st key val b] by simp
    then show ?thesis using KEYS_plain by fastforce
  qed
  show ?thesis
    unfolding op_settings_set_def Let_def
    by (auto simp: l p split: option.split prod.split sum.split)
qed

lemma send_request_code: "send_request J s req = Inl code \<Longrightarrow> code \<in> error_codes"
  by (auto simp: send_request_def split: option.splits if_splits prod.splits)

lemma parked_answers [simp]:
  "answers rid (NeedsTrng, s\<lparr> us_pending_op := Some (PoProvision rid l) \<rparr>, out) \<longleftrightarrow> length out = REPLY_LEN"
  "answers rid (NeedsTrng, s\<lparr> us_pending_op := Some (PoPairOffer rid) \<rparr>, out) \<longleftrightarrow> length out = REPLY_LEN"
  "answers rid (NeedsSendPrep, s\<lparr> us_pending_op := Some (PoSendPrep rid c) \<rparr>, out) \<longleftrightarrow> length out = REPLY_LEN"
  "answers rid (NeedsPingPrep, s\<lparr> us_ping_count := n, us_pending_op := Some (PoPingPrep rid c) \<rparr>, out) \<longleftrightarrow> length out = REPLY_LEN"
  "answers rid (NeedsRebootBootsel, s\<lparr> us_pending_op := Some (PoRebootBootsel rid) \<rparr>, out) \<longleftrightarrow> length out = REPLY_LEN"
  by (simp_all add: answers_def)

lemma plain_answers:
  assumes l: "length out = REPLY_LEN"
  shows "answers (rq_id req) (op_provision J s req out)"
    and "answers (rq_id req) (op_time_set s req out)"
    and "answers (rq_id req) (op_block s req b out)"
    and "answers (rq_id req) (op_delete s req out)"
    and "answers (rq_id req) (op_radio_set radio s req out)"
    and "answers (rq_id req) (op_wifi_set J s req out)"
    and "answers (rq_id req) (op_wifi_forget s req out)"
    and "answers (rq_id req) (op_reboot_bootsel s req out)"
    and "answers (rq_id req) (op_send J s req out)"
    and "answers (rq_id req) (op_send_radio_free J s req out)"
    and "answers (rq_id req) (op_ping s req out)"
    and "answers (rq_id req) (op_pair_offer s req out)"
  using send_request_code
  by (auto simp: op_provision_def op_time_set_def op_block_def op_delete_def op_radio_set_def
      op_wifi_set_def op_wifi_forget_def op_reboot_bootsel_def op_send_def op_send_radio_free_def
      op_ping_def op_pair_offer_def Let_def l split: option.split prod.split sum.split)

lemma arm_answers: "length out = REPLY_LEN \<Longrightarrow> answers (rq_id req) (op_arm s req out)"
  by (auto simp: op_arm_def Let_def split: prod.split sum.split
      intro!: answers_with simple_replies [where v = "JObj [(''armed_next_boot'', JBool True)]"]
      simp: text_simps)

lemma record_ops_answer:
  assumes "record_sizes C (us_engine s)" and "length out = REPLY_LEN"
  shows "answers (rq_id req) (op_pair_proof C s req out)"
    and "answers (rq_id req) (op_pair_confirm C s req out)"
  using assms
  by (auto simp: op_pair_proof_def op_pair_confirm_def record_sizes_def PROOF_RECORD_LEN_def
      CONFIRM_RECORD_LEN_def intro!: record_answer_answers)

lemma dispatch_answers:
  assumes r: "record_sizes C (us_engine s)" and l: "length out = REPLY_LEN"
  shows "answers (rq_id req) (dispatch C J radio s req out)"
  unfolding dispatch_def Let_def
  using plain_answers [OF l] record_ops_answer [OF r l] import_answers [OF l] settings_get_answers [OF l]
    settings_set_answers [OF l] wifi_status_answers [OF l] arm_answers [OF l]
    answers_with [OF status_replies [OF l]] answers_with [OF contacts_replies [OF l]]
    answers_with [OF time_replies [OF l]]
  by (simp del: answers_owed add: l)

section \<open>The owed reply\<close>

lemma as_option_replies:
  "\<exists>n. fst r = Inline n \<and> replies rid n (snd r) \<Longrightarrow> \<exists>n. as_option r = (Some n, snd r) \<and> replies rid n (snd r)"
  by (cases r) (auto simp: as_option_def)

lemma ok_inline:
  assumes "emits (w_all st) True bs g" and "bs = json_text (ok_reply rid v)"
    and "small_numbers v" "text_bound v \<le> 4000" and "length out = REPLY_LEN"
  shows "\<exists>n. fst (jw_finish st out) = Inline n \<and> replies rid n (snd (jw_finish st out))"
proof (rule rendered_replies)
  show "rendered (ok_reply rid v) out (jw_finish st out)"
    using assms(1,2) by (intro finish_says saysI)
qed (use assms in \<open>auto simp: is_reply_def ok_reply_def text_simps REPLY_LEN_def\<close>)

lemma simple_text_deleted:
  "simple_text rid (ascii ''{\"deleted\":true}'') = json_text (ok_reply rid (JObj [(''deleted'', JBool True)]))"
  using digits_u64 [of rid] by (simp add: simple_text_def hpush_def ok_reply_def text_simps)

lemma deleted_reply:
  assumes "length out = REPLY_LEN"
  shows "\<exists>n. length (simple_text rid (ascii ''{\"deleted\":true}'')) = n \<and> n \<le> length out \<and>
    replies rid n (put_at 0 (simple_text rid (ascii ''{\"deleted\":true}'')) out)"
proof -
  let ?t = "json_text (ok_reply rid (JObj [(''deleted'', JBool True)]))"
  have "length ?t \<le> length out"
    using text_within_bound [of "ok_reply rid (JObj [(''deleted'', JBool True)])"] assms
    by (simp add: ok_reply_def text_simps REPLY_LEN_def)
  moreover have "is_reply rid (ok_reply rid (JObj [(''deleted'', JBool True)]))"
    by (auto simp: is_reply_def)
  ultimately show ?thesis
    using assms unfolding simple_text_deleted by (auto simp: replies_def put_at_0)
qed

lemma commit_reply_replies:
  assumes r: "us_staged_reply s = Some r" "owed_ok r" and l: "length out = REPLY_LEN"
  shows "\<exists>n s' out'. commit_reply radio s out = (Some n, s', out') \<and> replies (owed_id r) n out' \<and>
    us_staged_reply s' = None \<and> us_engine s' = us_engine s \<and> us_health s' = us_health s"
proof -
  have *: "\<exists>n s' out'. (case as_option a of (n, out) \<Rightarrow> (n, t, out)) = (Some n, s', out') \<and>
      replies rid n out' \<and> us_staged_reply s' = None \<and> us_engine s' = us_engine s \<and> us_health s' = us_health s"
    if "\<exists>n. fst a = Inline n \<and> replies rid n (snd a)" "us_staged_reply t = None"
      "us_engine t = us_engine s" "us_health t = us_health s" for a rid t
    using as_option_replies [OF that(1)] that(2-) by auto
  show ?thesis
  proof (cases r)
    case (SrStatus rid)
    show ?thesis unfolding commit_reply_def r(1) SrStatus Let_def option.case staged_reply.case owed_id.simps
      by (rule *) (simp_all add: status_replies [OF l])
  next
    case (SrSimple rid body)
    with r deleted_reply [OF l, of rid] show ?thesis
      by (auto simp: commit_reply_def Let_def simp del: ascii_simps)
  next
    case (SrBlock rid cid b)
    let ?v = "JObj [(''blocked'', JBool b)]"
    show ?thesis unfolding commit_reply_def r(1) SrBlock Let_def option.case staged_reply.case owed_id.simps
      by (rule *, rule simple_replies [where v = ?v]) (simp_all add: text_simps l)
  next
    case (SrRadioSet rid b)
    let ?v = "JObj [(''radio_enabled'', JBool b)]"
    show ?thesis unfolding commit_reply_def r(1) SrRadioSet Let_def option.case staged_reply.case owed_id.simps
      by (rule *, rule simple_replies [where v = ?v]) (simp_all add: text_simps l)
  next
    case (SrSettingsSet rid key val c)
    let ?v = "JObj [(''key'', JStr key), (''value'', JNum (unat val)), (''clamped'', JBool c)]"
    show ?thesis unfolding commit_reply_def r(1) SrSettingsSet Let_def option.case staged_reply.case owed_id.simps
      by (rule *, rule ok_inline [where v = ?v], (rule emits_steps)+)
        (use r(2) SrSettingsSet l in \<open>simp_all add: text_simps ok_reply_def\<close>)
  next
    case (SrWifiSet rid)
    let ?k = "(case us_staged_wifi s of Some (_, sl, _, _) \<Rightarrow> ucast sl
                 | None \<Rightarrow> ucast (us_wifi_ssid_len (s\<lparr> us_staged_reply := None \<rparr>))) :: u64"
    let ?v = "JObj [(''configured'', JBool True), (''ssid_len'', JNum (unat ?k))]"
    show ?thesis unfolding commit_reply_def r(1) SrWifiSet Let_def option.case staged_reply.case owed_id.simps
      by (rule *, rule ok_inline [where v = ?v], (rule emits_steps)+)
        (use l in \<open>simp_all add: text_simps ok_reply_def\<close>)
  next
    case (SrWifiForget rid)
    let ?v = "JObj [(''configured'', JBool False)]"
    show ?thesis unfolding commit_reply_def r(1) SrWifiForget Let_def option.case staged_reply.case owed_id.simps
      by (rule *, rule simple_replies [where v = ?v]) (simp_all add: text_simps l)
  qed
qed

end
