(* ===== verification/Usb_Refine.thy ===== *)
theory Usb_Refine
  imports Usb_Laws
begin

text \<open>
  Commands against the engine: a request stands for at most one operation of the engine, dispatch
  performs exactly that operation, and the snapshot the operation staged is the one handed to the
  storage owner.
\<close>

section \<open>The operation a request stands for\<close>

definition asked_import :: "json_core \<Rightarrow> request \<Rightarrow> node_op option" where
  "asked_import J req =
     (case rq_record_b64 req of
        None \<Rightarrow> None
      | Some raw \<Rightarrow>
          (case unescape_into J raw (replicate 256 0) of
             (None, _) \<Rightarrow> None
           | (Some n, rb) \<Rightarrow>
               (case decode_transport (bslice 0 n rb) (replicate 160 0) of
                  (Inl _, _) \<Rightarrow> None
                | (Inr len, bin) \<Rightarrow>
                    Some (OpPairImport (bslice 0 len bin) (rq_replace req = Some True)
                            (rq_sas_match req = Some True)))))"

definition asked :: "json_core \<Rightarrow> bool \<Rightarrow> usb_state \<Rightarrow> request \<Rightarrow> node_op option" where
  "asked J radio s req =
     (let op = rq_op req in
      if us_health s = HealthFault then None
      else if op = ascii ''time_set'' then
        map_option (\<lambda>t. OpTime t (rq_confirm req = Some True)) (rq_unix_seconds req)
      else if op = ascii ''radio_set'' then
        (case rq_enabled req of
           Some b \<Rightarrow> if b \<and> \<not> radio then None else Some (OpRadio b) | None \<Rightarrow> None)
      else if op = ascii ''radio_arm_next_boot'' then Some OpArm
      else if op = ascii ''block'' then map_option (\<lambda>c. OpBlock c True) (rq_contact_id req)
      else if op = ascii ''unblock'' then map_option (\<lambda>c. OpBlock c False) (rq_contact_id req)
      else if op = ascii ''contact_delete'' then map_option OpDelete (rq_contact_id req)
      else if op = ascii ''pair_proof'' then Some OpPairProof
      else if op = ascii ''pair_confirm'' then Some OpPairConfirm
      else if op = ascii ''pair_import'' then asked_import J req
      else None)"

abbreviation state_of :: "handled \<Rightarrow> usb_state" where
  "state_of h \<equiv> fst (snd h)"

lemma stage_engine [simp]:
  "us_engine (stage_for_commit s) = us_engine s" "us_health (stage_for_commit s) = us_health s"
  "us_staged_reply (stage_for_commit s) = us_staged_reply s"
  "us_pending_op (stage_for_commit s) = us_pending_op s"
  "us_reply_id (stage_for_commit s) = us_reply_id s"
  by (simp_all add: stage_for_commit_def split: option.split)

lemma answered_state [simp]: "state_of (answered s r) = s"
  by (simp add: answered_def)

section \<open>What a handler does to the engine and to the staged snapshot\<close>

text \<open>The handler ran an engine operation that led to \<open>e\<close> and staged its snapshot when the operation
  succeeded.\<close>

definition ran :: "usb_state \<Rightarrow> bool \<Rightarrow> engine \<Rightarrow> usb_state \<Rightarrow> bool" where
  "ran s ok e s' \<longleftrightarrow>
     us_engine s' = e \<and> us_health s' = us_health s \<and>
     us_staged s' = (if ok then us_staged (stage_for_commit (s\<lparr> us_engine := e \<rparr>)) else us_staged s)"

definition ran_result :: "usb_state \<Rightarrow> ('e + 'a) \<times> engine \<Rightarrow> usb_state \<Rightarrow> bool" where
  "ran_result s r s' \<longleftrightarrow> ran s (is_ok (fst r)) (snd r) s'"

definition untouched :: "usb_state \<Rightarrow> usb_state \<Rightarrow> bool" where
  "untouched s s' \<longleftrightarrow>
     us_engine s' = us_engine s \<and> us_health s' = us_health s \<and> us_staged s' = us_staged s"

lemma untouched_refl [simp]: "untouched s s"
  by (simp add: untouched_def)

lemma ran_ops:
  "op_time_set s req out = h \<Longrightarrow> rq_unix_seconds req = Some t \<Longrightarrow>
     ran_result s (set_time_confirmed (us_engine s) t (rq_confirm req = Some True)) (state_of h)"
  "op_block s req b out = h \<Longrightarrow> rq_contact_id req = Some c \<Longrightarrow>
     ran_result s (set_blocked (us_engine s) c b) (state_of h)"
  "op_delete s req out = h \<Longrightarrow> rq_contact_id req = Some c \<Longrightarrow>
     ran_result s (delete_contact (us_engine s) c) (state_of h)"
  "op_radio_set radio s req out = h \<Longrightarrow> rq_enabled req = Some v \<Longrightarrow> \<not> (v \<and> \<not> radio) \<Longrightarrow>
     ran_result s (set_radio (us_engine s) v) (state_of h)"
  "op_arm s req out = h \<Longrightarrow> ran_result s (arm_next_boot (us_engine s)) (state_of h)"
  "record_answer s rid a out = h \<Longrightarrow> ran_result s a (state_of h)"
  "complete_provision s rid label key out = h \<Longrightarrow> ran_result s (provision (us_engine s) label key) (state_of h)"
  by (auto simp: op_time_set_def op_block_def op_delete_def op_radio_set_def op_arm_def
      record_answer_def complete_provision_def ran_result_def ran_def Let_def stage_for_commit_def answered_def
      split: prod.splits sum.splits option.splits)

lemma untouched_ops:
  "rq_unix_seconds req = None \<Longrightarrow> untouched s (state_of (op_time_set s req out))"
  "rq_contact_id req = None \<Longrightarrow> untouched s (state_of (op_block s req b out))"
  "rq_contact_id req = None \<Longrightarrow> untouched s (state_of (op_delete s req out))"
  "rq_enabled req = None \<or> (\<exists>v. rq_enabled req = Some v \<and> v \<and> \<not> radio) \<Longrightarrow>
     untouched s (state_of (op_radio_set radio s req out))"
  "untouched s (state_of (op_provision J s req out))"
  "untouched s (state_of (op_wifi_set J s req out))"
  "untouched s (state_of (op_wifi_forget s req out))"
  "untouched s (state_of (op_wifi_status s req out))"
  "untouched s (state_of (op_reboot_bootsel s req out))"
  "untouched s (state_of (op_send_radio_free J s req out))"
  "untouched s (state_of (op_ping s req out))"
  "untouched s (state_of (op_pair_offer s req out))"
  "untouched s (state_of (op_settings_get J s req out))"
  "untouched s (state_of (op_settings_set J s req out))"
  by (auto simp: op_time_set_def op_block_def op_delete_def op_radio_set_def op_provision_def
      op_wifi_set_def op_wifi_forget_def op_wifi_status_def op_reboot_bootsel_def
      op_send_radio_free_def op_ping_def op_pair_offer_def op_settings_get_def op_settings_set_def
      Let_def untouched_def answered_def split: prod.splits sum.splits option.splits)

lemma untouched_send: "untouched s (state_of (op_send J s req out))"
  by (auto simp: op_send_def stash_send_def untouched_def answered_def split: sum.splits prod.splits)

lemma asked_import_op: "asked_import J req = Some op \<Longrightarrow> \<exists>r rep sas. op = OpPairImport r rep sas"
  by (auto simp: asked_import_def Let_def split: option.splits prod.splits sum.splits)

lemma import_ran:
  assumes a: "asked_import J req = Some (OpPairImport r rep sas)"
  shows "ran_result s (pair_import_sas C (us_engine s) r rep sas) (state_of (op_pair_import C J s req out))"
proof -
  from a obtain raw n rb len bin where
    "rq_record_b64 req = Some raw" "unescape_into J raw (replicate 256 0) = (Some n, rb)"
    "decode_transport (bslice 0 n rb) (replicate 160 0) = (Inr len, bin)"
    "r = bslice 0 len bin" "rep = (rq_replace req = Some True)" "sas = (rq_sas_match req = Some True)"
    by (auto simp: asked_import_def Let_def split: option.splits prod.splits sum.splits)
  then show ?thesis
    by (cases "pair_import_sas C (us_engine s) r rep sas"; cases "fst (pair_import_sas C (us_engine s) r rep sas)")
      (simp_all add: op_pair_import_def Let_def ran_result_def ran_def stage_for_commit_def
        split: option.split)
qed

lemma import_untouched:
  assumes a: "asked_import J req = None"
  shows "untouched s (state_of (op_pair_import C J s req out))"
proof (cases "rq_record_b64 req")
  case (Some raw)
  show ?thesis
  proof (cases "unescape_into J raw (replicate 256 0)")
    case (Pair k rb)
    with Some a show ?thesis
      by (cases k) (auto simp: asked_import_def op_pair_import_def Let_def split: prod.splits sum.splits)
  qed
qed (simp add: op_pair_import_def Let_def)

text \<open>One operation of the engine, or none. An operation that fails stages nothing.\<close>

definition performs :: "crypto \<Rightarrow> node_op option \<Rightarrow> usb_state \<Rightarrow> usb_state \<Rightarrow> bool" where
  "performs C opt s s' \<longleftrightarrow>
     (case opt of
        None \<Rightarrow> untouched s s'
      | Some op \<Rightarrow>
          (\<exists>ok. ran s ok (snd (run_op C op (us_engine s))) s' \<and>
             (\<not> ok \<longrightarrow> en_persist_dirty (us_engine s') = en_persist_dirty (us_engine s))))"

lemma failed_not_staged:
  "set_time_confirmed e t b = (Inl x1, e1) \<Longrightarrow> en_persist_dirty e1 = en_persist_dirty e"
  "set_blocked e c b = (Inl x2, e2) \<Longrightarrow> en_persist_dirty e2 = en_persist_dirty e"
  "delete_contact e c = (Inl x3, e3) \<Longrightarrow> en_persist_dirty e3 = en_persist_dirty e"
  "set_radio e b = (Inl x4, e4) \<Longrightarrow> en_persist_dirty e4 = en_persist_dirty e"
  "arm_next_boot e = (Inl x5, e5) \<Longrightarrow> en_persist_dirty e5 = en_persist_dirty e"
  "provision e l k = (Inl x6, e6) \<Longrightarrow> en_persist_dirty e6 = en_persist_dirty e"
  "pair_offer C e a c' d = (Inl x7, e7) \<Longrightarrow> en_persist_dirty e7 = en_persist_dirty e"
  "pair_proof C e = (Inl x8, e8) \<Longrightarrow> en_persist_dirty e8 = en_persist_dirty e"
  "pair_confirm C e = (Inl x9, e9) \<Longrightarrow> en_persist_dirty e9 = en_persist_dirty e"
  by (auto simp: set_time_confirmed_eq set_blocked_def delete_contact_def set_radio_def arm_next_boot_def
      provision_def pair_offer_def pair_offer_fresh_def pair_proof_def pair_confirm_def Let_def
      split: option.splits sum.splits if_splits prod.splits)

lemma failed_import_not_staged:
  "pair_import_sas C e r rep sas = (Inl x, e') \<Longrightarrow> en_persist_dirty e' = en_persist_dirty e"
  by (auto simp: pair_import_sas_def import_offer_def import_proof_def import_confirm_def
      activate_contact_def upd_contact_def Let_def split: sum.splits if_splits prod.splits)

lemma performsI:
  assumes "ran_result s r s'" and "snd (run_op C op (us_engine s)) = snd r"
    and "\<And>x e. r = (Inl x, e) \<Longrightarrow> en_persist_dirty e = en_persist_dirty (us_engine s)"
  shows "performs C (Some op) s s'"
  using assms by (cases r; cases "fst r") (auto simp: performs_def ran_result_def ran_def)

lemma untouched_if:
  "(c \<Longrightarrow> untouched s (state_of x)) \<Longrightarrow> (\<not> c \<Longrightarrow> untouched s (state_of y)) \<Longrightarrow>
   untouched s (state_of (if c then x else y))"
  by simp

lemma dispatch_performs:
  "performs C (asked J radio s req) s (state_of (dispatch C J radio s req out))"
proof -
  have none: "performs C None s s'" if "untouched s s'" for s'
    using that by (simp add: performs_def)
  have time: "performs C (map_option (\<lambda>t. OpTime t (rq_confirm req = Some True)) (rq_unix_seconds req)) s
      (state_of (op_time_set s req out))"
    by (cases "rq_unix_seconds req")
      (auto intro!: none untouched_ops performsI [OF ran_ops(1) [OF refl]] simp: failed_not_staged)
  have block: "performs C (map_option (\<lambda>c. OpBlock c b) (rq_contact_id req)) s (state_of (op_block s req b out))" for b
    by (cases "rq_contact_id req")
      (auto intro!: none untouched_ops performsI [OF ran_ops(2) [OF refl]] simp: failed_not_staged)
  have delete: "performs C (map_option OpDelete (rq_contact_id req)) s (state_of (op_delete s req out))"
    by (cases "rq_contact_id req")
      (auto intro!: none untouched_ops performsI [OF ran_ops(3) [OF refl]] simp: failed_not_staged)
  have on: "performs C (case rq_enabled req of
      Some b \<Rightarrow> if b \<and> \<not> radio then None else Some (OpRadio b) | None \<Rightarrow> None) s
      (state_of (op_radio_set radio s req out))"
    by (cases "rq_enabled req")
      (auto intro!: none untouched_ops performsI [OF ran_ops(4) [OF refl]] simp: failed_not_staged)
  have arm: "performs C (Some OpArm) s (state_of (op_arm s req out))"
    by (rule performsI [OF ran_ops(5) [OF refl]]) (simp_all add: failed_not_staged)
  have proof_: "performs C (Some OpPairProof) s (state_of (op_pair_proof C s req out))"
    unfolding op_pair_proof_def by (rule performsI [OF ran_ops(6) [OF refl]]) (simp_all add: failed_not_staged)
  have confirm: "performs C (Some OpPairConfirm) s (state_of (op_pair_confirm C s req out))"
    unfolding op_pair_confirm_def by (rule performsI [OF ran_ops(6) [OF refl]]) (simp_all add: failed_not_staged)
  have imp: "performs C (asked_import J req) s (state_of (op_pair_import C J s req out))"
  proof (cases "asked_import J req")
    case None
    then show ?thesis by (simp add: none import_untouched)
  next
    case (Some op)
    then obtain r rep sas where op: "op = OpPairImport r rep sas" using asked_import_op by blast
    show ?thesis
      unfolding Some op by (rule performsI [OF import_ran [OF Some [unfolded op]]])
        (simp_all add: failed_import_not_staged)
  qed
  let ?A = "ascii ` {''time_set'', ''radio_set'', ''radio_arm_next_boot'', ''block'', ''unblock''}"
  let ?B = "ascii ` {''contact_delete'', ''pair_proof'', ''pair_confirm'', ''pair_import''}"
  show ?thesis
  proof (cases "us_health s = HealthFault \<or> rq_op req \<notin> ?A \<union> ?B")
    case True
    have "untouched s (state_of (dispatch C J radio s req out))"
      unfolding dispatch_def Let_def
      by (intro untouched_if) (use True in \<open>simp_all add: untouched_ops untouched_send del: ascii_simps\<close>)
    moreover have "asked J radio s req = None"
      using True by (elim disjE) (simp_all add: asked_def Let_def del: ascii_simps)
    ultimately show ?thesis by (simp add: none)
  next
    case False
    then have h: "us_health s \<noteq> HealthFault" and "rq_op req \<in> ?A \<or> rq_op req \<in> ?B"
      by (simp_all only: de_Morgan_disj de_Morgan_conj not_not Un_iff not_False_eq_True)
    from this(2) show ?thesis
    proof
      assume "rq_op req \<in> ?A"
      then show ?thesis
        by (elim imageE insertE emptyE) (simp_all add: h asked_def dispatch_def Let_def time block on arm)
    next
      assume "rq_op req \<in> ?B"
      then show ?thesis
        by (elim imageE insertE emptyE) (simp_all add: h asked_def dispatch_def Let_def delete proof_ confirm imp)
    qed
  qed
qed

end
