(* ===== verification/Usb_Event.thy ===== *)
theory Usb_Event
  imports Usb_Laws
begin

text \<open>
  The event line for a received message (\<open>reply_received\<close> of \<open>firmware/src/usb.rs\<close>): the text comes
  from the other node and may hold any character, quotes, newlines and control characters included.
\<close>

definition received_value :: "u8 \<Rightarrow> u32 \<Rightarrow> u64 \<Rightarrow> bytes \<Rightarrow> json" where
  "received_value cid ep sq text =
     JObj [(''event'', JStr (ascii ''received'')), (''contact_id'', JNum (unat cid)),
       (''epoch'', JNum (unat ep)), (''sequence'', JNum (unat sq)), (''text'', JStr text)]"

lemma escape_byte_length: "length (escape_byte b) \<le> 6"
  by (simp add: escape_byte_def hex_pair_def)

lemma json_string_length: "length (json_string s) \<le> 6 * length s + 2"
proof -
  have "length (concat (map escape_byte s)) \<le> 6 * length s"
  proof (induction s)
    case (Cons b s)
    then show ?case using escape_byte_length [of b] by simp
  qed simp
  then show ?thesis by (simp add: json_string_def)
qed

lemma received_steps:
  assumes "utf8_valid text"
  shows "says ([jraw (ascii ''{\"event\":\"received\",\"contact_id\":''), jnum (ucast cid),
          jraw (ascii '',\"epoch\":''), jnum (ucast ep), jraw (ascii '',\"sequence\":''), jnum sq,
          jraw (ascii '',\"text\":'')] @ [quoted_escaped text, jraw (ascii ''}'')]) (received_value cid ep sq text)"
  unfolding append.simps
  by (rule saysI, (rule emits_steps emits_quoted [OF assms])+) (simp add: received_value_def text_simps)

lemma failing_end: "\<not> fst (w_all (st @ [\<lambda>w. (False, w)]) w)"
  by (induction st arbitrary: w) (auto split: prod.split bool.split)

text \<open>C9: A received message reaches the host unchanged. For any text the radio protocol allows, the
  event line has no line feed in it, and reading it back as JSON gives the contact, epoch, sequence
  and exactly the bytes of the text, whatever characters they are; a text that is not UTF-8 is
  never sent.\<close>

theorem received_event_reads_back:
  assumes "length text \<le> MAX_TEXT_LEN" and "1100 \<le> length out"
  shows "case reply_received cid ep sq text out of
      (Some n, out') \<Rightarrow> utf8_valid text \<and> LF \<notin> set (take n out') \<and>
        read_line (take n out') = Some (received_value cid ep sq text)
    | (None, out') \<Rightarrow> \<not> utf8_valid text"
proof (cases "utf8_valid text")
  case True
  let ?v = "received_value cid ep sq text"
  let ?st = "[jraw (ascii ''{\"event\":\"received\",\"contact_id\":''), jnum (ucast cid),
          jraw (ascii '',\"epoch\":''), jnum (ucast ep), jraw (ascii '',\"sequence\":''), jnum sq,
          jraw (ascii '',\"text\":'')] @ [quoted_escaped text, jraw (ascii ''}'')]"
  have "text_bound ?v \<le> 1100"
    using json_string_length [of "text"] assms(1) by (simp add: received_value_def text_simps MAX_TEXT_LEN_def)
  moreover have "small_numbers ?v" by (simp add: received_value_def)
  ultimately have l: "length (json_text ?v) \<le> length out" using text_within_bound [of ?v] assms(2) by simp
  obtain n out' where r: "jw_finish ?st out = (Inline n, out')" "take n out' = json_text ?v"
    using rendered_fits [OF finish_says [OF received_steps [OF True]] l]
    by (cases "jw_finish ?st out") auto
  have "reply_received cid ep sq text out = (Some n, out')"
    using r(1) True by (simp add: reply_received_def jw_finish_def Let_def split: prod.splits if_splits)
  moreover have "LF \<notin> set (json_text ?v)" using json_text_printable [of LF ?v] by (auto simp: LF_def)
  ultimately show ?thesis using True r(2) by (simp add: read_line_text)
next
  case False
  then show ?thesis
    using failing_end [of "[jraw (ascii ''{\"event\":\"received\",\"contact_id\":''), jnum (ucast cid),
          jraw (ascii '',\"epoch\":''), jnum (ucast ep), jraw (ascii '',\"sequence\":''), jnum sq,
          jraw (ascii '',\"text\":'')]" "JsonWriter_new out"]
    by (auto simp: reply_received_def Let_def simp del: ascii_simps append.simps w_all.simps split: prod.split)
qed

lemma received_event_reads_back_witness:
  "case reply_received 3 70000 9 [0x22, 0x0A, 0xC3, 0xA9, 0x07] (replicate 1100 0) of
      (Some n, out') \<Rightarrow> utf8_valid [0x22, 0x0A, 0xC3, 0xA9, 0x07] \<and> LF \<notin> set (take n out') \<and>
        read_line (take n out') = Some (received_value 3 70000 9 [0x22, 0x0A, 0xC3, 0xA9, 0x07])
    | (None, out') \<Rightarrow> \<not> utf8_valid [0x22, 0x0A, 0xC3, 0xA9, 0x07]"
  by (rule received_event_reads_back) (simp_all add: MAX_TEXT_LEN_def)

end
