(* ===== verification/Wifi_Cred.thy ===== *)
theory Wifi_Cred
  imports Security
begin

text \<open>
  The stored Wi-Fi credential, \<open>firmware/src/wifi.rs\<close>: a fixed 102-byte record, strict in what it
  accepts. The rest of that file drives the CYW43 chip and a TCP socket.
\<close>

record wifi_cred =
  wc_ssid_len :: u8
  wc_pass_len :: u8
  wc_ssid :: bytes
  wc_pass :: bytes

definition WIFI_MAGIC :: bytes where "WIFI_MAGIC = ascii ''WSET''"
definition WIFI_VERSION :: u8 where "WIFI_VERSION = 1"
definition WIFI_LEN :: nat where "WIFI_LEN = 102"

definition WifiCred_empty :: wifi_cred where
  "WifiCred_empty = \<lparr> wc_ssid_len = 0, wc_pass_len = 0, wc_ssid = replicate 32 0,
     wc_pass = replicate 63 0 \<rparr>"

definition WifiCred_from_slices :: "bytes \<Rightarrow> bytes \<Rightarrow> wifi_cred option" where
  "WifiCred_from_slices ssid pass =
     (if ssid = [] \<or> 32 < length ssid \<or> 63 < length pass then None
      else Some (WifiCred_empty\<lparr>
        wc_ssid_len := of_nat (length ssid), wc_pass_len := of_nat (length pass),
        wc_ssid := put_at 0 ssid (replicate 32 0), wc_pass := put_at 0 pass (replicate 63 0) \<rparr>))"

definition WifiCred_encode :: "wifi_cred \<Rightarrow> bytes" where
  "WifiCred_encode c =
     (let out = replicate WIFI_LEN 0;
          out = put_at 0 WIFI_MAGIC out;
          out = out[4 := WIFI_VERSION];
          out = out[5 := wc_ssid_len c];
          out = out[6 := wc_pass_len c];
          out = put_at 7 (wc_ssid c) out
      in put_at 39 (wc_pass c) out)"

definition WifiCred_decode :: "bytes \<Rightarrow> wifi_cred option" where
  "WifiCred_decode b =
     (if length b \<noteq> WIFI_LEN \<or> bslice 0 4 b \<noteq> WIFI_MAGIC \<or> b ! 4 \<noteq> WIFI_VERSION then None
      else
        let ssid_len = unat (b ! 5); pass_len = unat (b ! 6) in
        if ssid_len = 0 \<or> 32 < ssid_len \<or> 63 < pass_len then None
        else
          let c = WifiCred_empty\<lparr> wc_ssid_len := of_nat ssid_len, wc_pass_len := of_nat pass_len,
                    wc_ssid := bslice 7 39 b, wc_pass := bslice 39 102 b \<rparr> in
          if list_ex (\<lambda>x. x \<noteq> 0) (drop ssid_len (wc_ssid c)) \<or>
             list_ex (\<lambda>x. x \<noteq> 0) (drop pass_len (wc_pass c))
          then None else Some c)"

section \<open>The record is canonical\<close>

text \<open>A credential that can be stored: lengths in range and nothing after them.\<close>

definition cred_ok :: "wifi_cred \<Rightarrow> bool" where
  "cred_ok c \<longleftrightarrow>
     0 < unat (wc_ssid_len c) \<and> unat (wc_ssid_len c) \<le> 32 \<and> unat (wc_pass_len c) \<le> 63 \<and>
     length (wc_ssid c) = 32 \<and> length (wc_pass c) = 63 \<and>
     (\<forall>x \<in> set (drop (unat (wc_ssid_len c)) (wc_ssid c)). x = 0) \<and>
     (\<forall>x \<in> set (drop (unat (wc_pass_len c)) (wc_pass c)). x = 0)"

lemma encode_bytes:
  assumes "length (wc_ssid c) = 32" and "length (wc_pass c) = 63"
  shows "WifiCred_encode c =
    WIFI_MAGIC @ [WIFI_VERSION, wc_ssid_len c, wc_pass_len c] @ wc_ssid c @ wc_pass c"
  using assms
  by (simp add: WifiCred_encode_def WIFI_LEN_def WIFI_MAGIC_def ascii_def put_at_def numeral_eq_Suc Let_def)

lemma decode_encode: "cred_ok c \<Longrightarrow> WifiCred_decode (WifiCred_encode c) = Some c"
proof -
  assume ok: "cred_ok c"
  then have l: "length (wc_ssid c) = 32" "length (wc_pass c) = 63" by (simp_all add: cred_ok_def)
  have m: "length WIFI_MAGIC = 4" by (simp add: WIFI_MAGIC_def ascii_def)
  have s: "bslice 7 39 (WifiCred_encode c) = wc_ssid c" "bslice 39 102 (WifiCred_encode c) = wc_pass c"
    "bslice 0 4 (WifiCred_encode c) = WIFI_MAGIC"
    using l m by (simp_all add: encode_bytes bslice_def)
  have n: "WifiCred_encode c ! 4 = WIFI_VERSION" "WifiCred_encode c ! 5 = wc_ssid_len c"
    "WifiCred_encode c ! 6 = wc_pass_len c" "length (WifiCred_encode c) = WIFI_LEN"
    using l m by (simp_all add: encode_bytes nth_append WIFI_LEN_def)
  have z: "\<not> list_ex (\<lambda>x. x \<noteq> 0) (drop (unat (wc_ssid_len c)) (wc_ssid c))"
    "\<not> list_ex (\<lambda>x. x \<noteq> 0) (drop (unat (wc_pass_len c)) (wc_pass c))"
    using ok by (auto simp: cred_ok_def list_ex_iff)
  show ?thesis
    using ok z by (simp add: WifiCred_decode_def s n Let_def cred_ok_def WifiCred_empty_def)
qed

lemma decode_sound: "WifiCred_decode b = Some c \<Longrightarrow> cred_ok c \<and> WifiCred_encode c = b"
proof -
  assume d: "WifiCred_decode b = Some c"
  then have len: "length b = 102" and mg: "bslice 0 4 b = WIFI_MAGIC" and v: "b ! 4 = WIFI_VERSION"
    and c: "c = WifiCred_empty\<lparr> wc_ssid_len := b ! 5, wc_pass_len := b ! 6,
              wc_ssid := bslice 7 39 b, wc_pass := bslice 39 102 b \<rparr>"
    and ok: "cred_ok c"
    by (auto simp: WifiCred_decode_def WIFI_LEN_def Let_def cred_ok_def list_ex_iff WifiCred_empty_def
        split: if_splits)
  have "WifiCred_encode c = bslice 0 4 b @ [b ! 4, b ! 5, b ! 6] @ bslice 7 39 b @ bslice 39 102 b"
    using ok by (subst encode_bytes) (simp_all add: cred_ok_def c mg v WifiCred_empty_def)
  also have "[b ! 4, b ! 5, b ! 6] = bslice 4 7 b"
  proof -
    have "[b ! 4, b ! 5, b ! 6] = [b ! 4] @ [b ! 5] @ [b ! 6]" by simp
    also have "\<dots> = bslice 4 5 b @ bslice 5 6 b @ bslice 6 7 b"
      using len bslice_single [of 4 b] bslice_single [of 5 b] bslice_single [of 6 b] by simp
    finally show ?thesis by (simp add: bslice_glue)
  qed
  also have "bslice 0 4 b @ bslice 4 7 b @ bslice 7 39 b @ bslice 39 102 b = b"
    using bslice_all [of b] len by (simp add: bslice_glue)
  finally show ?thesis using ok by simp
qed

interpretation wifi: strict_codec WifiCred_encode WifiCred_decode cred_ok
  by unfold_locales (simp_all add: decode_encode decode_sound)

lemma from_slices_ok: "WifiCred_from_slices ssid pass = Some c \<Longrightarrow> cred_ok c"
proof -
  assume f: "WifiCred_from_slices ssid pass = Some c"
  then have l: "ssid \<noteq> []" "length ssid \<le> 32" "length pass \<le> 63"
    by (auto simp: WifiCred_from_slices_def split: if_splits)
  then have "unat (of_nat (length ssid) :: u8) = length ssid" "unat (of_nat (length pass) :: u8) = length pass"
    by (simp_all add: unat_of_nat)
  with f l show ?thesis
    by (auto simp: WifiCred_from_slices_def cred_ok_def WifiCred_empty_def put_at_def)
qed

text \<open>C11: The stored Wi-Fi record is canonical. A 102-byte record is read as a credential exactly when
  it is the encoding of that credential, and what can be stored is exactly a network name of 1 to
  32 bytes and a passphrase of at most 63 with nothing after either: no stale secret bytes hide
  behind the lengths, and the zeroed record of a forgotten network is read as none.\<close>

theorem wifi_record_canonical:
  "(WifiCred_decode b = Some c \<longleftrightarrow>
      (\<exists>ssid pass. WifiCred_from_slices ssid pass = Some c) \<and> b = WifiCred_encode c) \<and>
   WifiCred_decode (WifiCred_encode WifiCred_empty) = None"
proof -
  have "cred_ok c \<longleftrightarrow> (\<exists>ssid pass. WifiCred_from_slices ssid pass = Some c)"
  proof
    assume ok: "cred_ok c"
    let ?n = "unat (wc_ssid_len c)" and ?m = "unat (wc_pass_len c)"
    have tail: "drop k xs = replicate (length xs - k) 0" if "\<forall>x \<in> set (drop k xs). x = 0" for k and xs :: bytes
      using that by (simp add: replicate_eqI)
    have "drop ?n (wc_ssid c) = replicate (32 - ?n) 0" "drop ?m (wc_pass c) = replicate (63 - ?m) 0"
      using ok tail [of ?n "wc_ssid c"] tail [of ?m "wc_pass c"] by (simp_all add: cred_ok_def)
    then have "put_at 0 (take ?n (wc_ssid c)) (replicate 32 0) = wc_ssid c"
      "put_at 0 (take ?m (wc_pass c)) (replicate 63 0) = wc_pass c"
      using ok by (simp_all add: put_at_def cred_ok_def) (metis append_take_drop_id)+
    then have "WifiCred_from_slices (take ?n (wc_ssid c)) (take ?m (wc_pass c)) = Some c"
      using ok by (auto simp: WifiCred_from_slices_def cred_ok_def WifiCred_empty_def)
    then show "\<exists>ssid pass. WifiCred_from_slices ssid pass = Some c" by blast
  qed (auto dest: from_slices_ok)
  moreover have "WifiCred_decode (WifiCred_encode WifiCred_empty) = None"
  proof (rule ccontr)
    assume "WifiCred_decode (WifiCred_encode WifiCred_empty) \<noteq> None"
    then obtain c where "cred_ok c" "WifiCred_encode c = WifiCred_encode WifiCred_empty"
      using decode_sound by blast
    then show False
      by (simp add: cred_ok_def encode_bytes WifiCred_empty_def)
  qed
  ultimately show ?thesis by (auto simp: wifi.dec_Some_iff)
qed

end
