(* ===== verification/Led.thy ===== *)
theory Led
  imports Mesh_Prelude
begin

text \<open>
  The blink codes of \<open>firmware/src/led.rs\<close>: the pattern table and the loop that drives one pattern.
  The GPIO writes and the delays are recorded as a trace.
\<close>

datatype led_event = LedBoot | LedPairing | LedTx | LedRx | LedFault

record blink =
  bl_on_ms :: u64
  bl_off_ms :: u64
  bl_count :: u8

fun led_pattern :: "led_event \<Rightarrow> blink" where
  "led_pattern LedBoot = \<lparr> bl_on_ms = 200, bl_off_ms = 200, bl_count = 3 \<rparr>"
| "led_pattern LedPairing = \<lparr> bl_on_ms = 80, bl_off_ms = 80, bl_count = 8 \<rparr>"
| "led_pattern LedTx = \<lparr> bl_on_ms = 100, bl_off_ms = 100, bl_count = 1 \<rparr>"
| "led_pattern LedRx = \<lparr> bl_on_ms = 100, bl_off_ms = 100, bl_count = 2 \<rparr>"
| "led_pattern LedFault = \<lparr> bl_on_ms = 60, bl_off_ms = 60, bl_count = 5 \<rparr>"

datatype led_step = SetGpio bool | Wait u64

function led_signal :: "blink \<Rightarrow> u8 \<Rightarrow> led_step list" where
  "led_signal b i =
     (if i < bl_count b
      then [SetGpio True, Wait (bl_on_ms b), SetGpio False, Wait (bl_off_ms b)] @ led_signal b (i + 1)
      else [])"
  by pat_completeness auto
termination
proof (relation "measure (\<lambda>(b, i). unat (bl_count b) - unat i)")
  fix b :: blink and i :: u8 assume "i < bl_count b"
  then show "((b, i + 1), b, i) \<in> measure (\<lambda>(b, i). unat (bl_count b) - unat i)"
    using unat_u8_less [of "bl_count b"]
    by (simp add: word_order_unat unat_word_ariths unat_plus_fits)
qed simp

declare led_signal.simps [simp del]

text \<open>The light is on exactly \<open>count\<close> times and off at the end.\<close>

lemma led_signal_eq:
  "led_signal b i = concat (replicate (unat (bl_count b) - unat i)
     [SetGpio True, Wait (bl_on_ms b), SetGpio False, Wait (bl_off_ms b)])"
proof (induction b i rule: led_signal.induct)
  case (1 b i)
  show ?case
  proof (cases "i < bl_count b")
    case True
    then have "unat (i + 1) = unat i + 1" and "unat (bl_count b) - unat i = Suc (unat (bl_count b) - (unat i + 1))"
      using unat_u8_less [of "bl_count b"] by (simp_all add: word_order_unat unat_word_ariths)
    with 1 [OF True] show ?thesis by (subst led_signal.simps) (simp add: True)
  next
    case False
    then show ?thesis by (subst led_signal.simps) (simp add: word_order_unat)
  qed
qed

text \<open>Five events, five distinct flash counts: an observer can tell them apart.\<close>

lemma led_patterns_distinct:
  "bl_count (led_pattern a) = bl_count (led_pattern b) \<Longrightarrow> a = b"
  by (cases a; cases b) simp_all

end
