(* ===== verification/Usb_Main.thy ===== *)
theory Usb_Main
  imports Usb_Refine Wifi_Cred
begin

text \<open>
  The storage owner of \<open>firmware/src/storage.rs\<close> and the main program of \<open>firmware/src/main.rs\<close> in
  the radio-free image: boot from the three stored records, then the loop that feeds each received
  byte to the line buffer, completes the command, commits what it staged and only then sends the
  reply. The flash map (\<open>sequential_storage\<close>) is a third-party crate: a map from its three keys to
  bytes, whose reads and writes may fail.
\<close>

section \<open>The storage owner\<close>

datatype storage_req =
    ReqLoad
  | ReqCommit bytes nat
  | ReqCommitSettings bytes
  | ReqCommitWifi bytes

datatype storage_resp =
    RespEmpty
  | RespLoaded bytes
  | RespSettingsLoaded bytes
  | RespWifiLoaded bytes
  | RespCommitted bool
  | RespFault

record flash =
  fl_node :: "bytes option"
  fl_settings :: "bytes option"
  fl_wifi :: "bytes option"

text \<open>What the crate does on this request: \<open>fetch_item\<close> fails or not for each key; \<open>store_item\<close>
  succeeds, or reports an error after the item has landed or not.\<close>

record flash_luck =
  fk_node :: bool
  fk_settings :: bool
  fk_wifi :: bool
  fk_store :: bool
  fk_landed :: bool

definition fetch_item :: "bool \<Rightarrow> bytes option \<Rightarrow> unit + bytes option" where
  "fetch_item ok v = (if ok then Inr v else Inl ())"

definition padded :: "nat \<Rightarrow> bytes \<Rightarrow> bytes" where
  "padded n v = put_at 0 (take n v) (replicate n 0)"

definition storage_service :: "flash_luck \<Rightarrow> storage_req \<Rightarrow> flash \<Rightarrow> storage_resp list \<times> flash" where
  "storage_service k req fl =
     (case req of
        ReqLoad \<Rightarrow>
          ([case fetch_item (fk_node k) (fl_node fl) of
              Inr (Some v) \<Rightarrow>
                if length v \<noteq> PERSIST_LEN \<and> length v \<noteq> PERSIST_V2_LEN then RespFault
                else (case migrate_to_v3 v of Inr b \<Rightarrow> RespLoaded b | Inl _ \<Rightarrow> RespFault)
            | Inr None \<Rightarrow> RespEmpty
            | Inl _ \<Rightarrow> RespFault,
            case fetch_item (fk_settings k) (fl_settings fl) of
              Inr (Some v) \<Rightarrow> RespSettingsLoaded (padded 13 v)
            | _ \<Rightarrow> RespSettingsLoaded (replicate 13 0),
            case fetch_item (fk_wifi k) (fl_wifi fl) of
              Inr (Some v) \<Rightarrow> RespWifiLoaded (padded 102 v)
            | _ \<Rightarrow> RespWifiLoaded (replicate 102 0)], fl)
      | ReqCommit b len \<Rightarrow>
          if len \<noteq> PERSIST_LEN then ([RespCommitted False], fl)
          else ([RespCommitted (fk_store k)],
                if fk_store k \<or> fk_landed k then fl\<lparr> fl_node := Some b \<rparr> else fl)
      | ReqCommitSettings b \<Rightarrow>
          ([RespCommitted (fk_store k)],
           if fk_store k \<or> fk_landed k then fl\<lparr> fl_settings := Some b \<rparr> else fl)
      | ReqCommitWifi b \<Rightarrow>
          ([RespCommitted (fk_store k)],
           if fk_store k \<or> fk_landed k then fl\<lparr> fl_wifi := Some b \<rparr> else fl))"

text \<open>When the region given to the crate is refused, the owner never serves: it offers one fault
  before each request it takes. So one \<open>Load\<close> is met by two faults.\<close>

definition refused_service :: "nat \<Rightarrow> storage_resp list" where
  "refused_service requests = replicate (Suc requests) RespFault"

section \<open>Boot\<close>

text \<open>The three receive loops of \<open>main\<close>; running out of responses is waiting for ever, \<open>None\<close>.\<close>

fun recv_node :: "crypto \<Rightarrow> engine \<Rightarrow> storage_resp list \<Rightarrow> ((engine \<times> store_health) \<times> storage_resp list) option"
where
  "recv_node C e [] = None"
| "recv_node C e (r # rs) =
     (case r of
        RespLoaded b \<Rightarrow>
          (case restore C e b of
             (Inr _, e) \<Rightarrow> Some ((e, HealthReady), rs) | (Inl _, e) \<Rightarrow> Some ((e, HealthFault), rs))
      | RespEmpty \<Rightarrow> Some ((e, HealthUnprovisioned), rs)
      | RespFault \<Rightarrow> Some ((e, HealthFault), rs)
      | _ \<Rightarrow> recv_node C e rs)"

fun recv_settings :: "storage_resp list \<Rightarrow> (settings \<times> storage_resp list) option" where
  "recv_settings [] = None"
| "recv_settings (r # rs) =
     (case r of
        RespSettingsLoaded b \<Rightarrow>
          Some (case Settings_decode b of Some st \<Rightarrow> st | None \<Rightarrow> Settings_default, rs)
      | RespFault \<Rightarrow> Some (Settings_default, rs)
      | _ \<Rightarrow> recv_settings rs)"

fun recv_wifi :: "bool \<Rightarrow> storage_resp list \<Rightarrow> (wifi_cred option \<times> storage_resp list) option" where
  "recv_wifi radio [] = None"
| "recv_wifi radio (r # rs) =
     (case r of
        RespWifiLoaded b \<Rightarrow> Some (if radio then WifiCred_decode b else None, rs)
      | RespFault \<Rightarrow> Some (None, rs)
      | _ \<Rightarrow> recv_wifi radio rs)"

text \<open>\<open>radio_version\<close> and \<open>available\<close> are what the radio's initialisation found (radio image).\<close>

definition main_boot ::
  "crypto \<Rightarrow> bool \<Rightarrow> bytes \<Rightarrow> u8 option \<Rightarrow> bool \<Rightarrow> storage_resp list \<Rightarrow> usb_state option" where
  "main_boot C radio uid radio_version available rs =
     (case recv_node C (Engine_new False) rs of
        None \<Rightarrow> None
      | Some ((e, health), rs) \<Rightarrow>
          (case recv_settings rs of
             None \<Rightarrow> None
           | Some (boot_settings, rs) \<Rightarrow>
               (case recv_wifi radio rs of
                  None \<Rightarrow> None
                | Some (boot_wifi, rs) \<Rightarrow>
                    let e = set_identity e uid;
                        e = (if radio then set_radio_available e available else e);
                        s = UsbState_new e health
                    in Some (s\<lparr>
                         us_settings := boot_settings,
                         us_wifi_configured := (boot_wifi \<noteq> None),
                         us_wifi_ssid_len := (case boot_wifi of Some c \<Rightarrow> wc_ssid_len c | None \<Rightarrow> 0),
                         us_radio_version := (if radio then radio_version else None) \<rparr>))))"

section \<open>Committing\<close>

fun await_commit :: "storage_resp list \<Rightarrow> bool option" where
  "await_commit [] = None"
| "await_commit (r # rs) =
     (case r of RespCommitted ok \<Rightarrow> Some ok | RespFault \<Rightarrow> Some False | _ \<Rightarrow> await_commit rs)"

text \<open>One request to the owner and the wait for its answer.\<close>

definition commit_with :: "flash_luck \<Rightarrow> storage_req \<Rightarrow> flash \<Rightarrow> bool \<times> flash" where
  "commit_with k req fl =
     (let (rs, fl) = storage_service k req fl in (await_commit rs = Some True, fl))"

text \<open>The Wi-Fi record is written out by hand in this image, which has no \<open>wifi\<close> module.\<close>

definition wifi_bytes :: "(bytes \<times> u8 \<times> bytes \<times> u8) option \<Rightarrow> bytes" where
  "wifi_bytes w =
     (case w of
        Some (ssid, sl, pass, pl) \<Rightarrow>
          let out = replicate 102 0;
              out = put_at 0 (ascii ''WSET'') out;
              out = out[4 := 1];
              out = out[5 := sl];
              out = out[6 := pl];
              out = put_at 7 ssid out
          in put_at 39 pass out
      | None \<Rightarrow> (put_at 0 (ascii ''WSET'') (replicate 102 0))[4 := 1])"

definition commit_staged :: "flash_luck \<Rightarrow> usb_state \<Rightarrow> flash \<Rightarrow> bool \<times> usb_state \<times> flash" where
  "commit_staged k s fl =
     (case us_staged s of
        Some (b, len) \<Rightarrow>
          let s = s\<lparr> us_staged := None \<rparr>;
              (ok, fl) = commit_with k (ReqCommit b len) fl in
          if ok then (True, s\<lparr> us_engine := commit_ok (us_engine s) \<rparr>, fl)
          else (False, s\<lparr> us_engine := mark_fault (discard_staged (us_engine s)),
                          us_health := HealthFault \<rparr>, fl)
      | None \<Rightarrow>
          (case us_staged_reply s of
             Some (SrSettingsSet _ _ _ _) \<Rightarrow>
               let (ok, fl) = commit_with k (ReqCommitSettings (Settings_encode (us_settings s))) fl in
               if ok then (True, s, fl)
               else (False, s\<lparr> us_settings := Settings_default, us_settings_tx_pending := False \<rparr>, fl)
           | Some (SrWifiSet _) \<Rightarrow>
               let (ok, fl) = commit_with k (ReqCommitWifi (wifi_bytes (us_staged_wifi s))) fl in
               if ok then
                 (True, s\<lparr> us_wifi_configured := True,
                           us_wifi_ssid_len := (case us_staged_wifi s of Some (_, sl, _, _) \<Rightarrow> sl | None \<Rightarrow> 0),
                           us_staged_wifi := None \<rparr>, fl)
               else (False, s\<lparr> us_staged_wifi := None, us_staged_reply := None \<rparr>, fl)
           | Some (SrWifiForget _) \<Rightarrow>
               let (ok, fl) = commit_with k (ReqCommitWifi (wifi_bytes (us_staged_wifi s))) fl in
               if ok then
                 (True, s\<lparr> us_wifi_configured := False, us_wifi_ssid_len := 0,
                           us_staged_wifi := None \<rparr>, fl)
               else (False, s\<lparr> us_staged_wifi := None, us_staged_reply := None \<rparr>, fl)
           | _ \<Rightarrow> (True, s, fl)))"

section \<open>The loop\<close>

text \<open>What the outside gives the loop with one byte: the clock, random bytes, the flash's behaviour.\<close>

record moment =
  mo_now :: u64
  mo_key :: bytes
  mo_eph_priv :: bytes
  mo_challenge :: bytes
  mo_luck :: flash_luck

definition complete_parked :: "crypto \<Rightarrow> moment \<Rightarrow> usb_state \<Rightarrow> bytes \<Rightarrow> handled" where
  "complete_parked C m s out =
     (let parked = us_pending_op s; s = s\<lparr> us_pending_op := None \<rparr> in
      case parked of
        Some (PoProvision rid label) \<Rightarrow> complete_provision s rid label (mo_key m) out
      | Some (PoPairOffer rid) \<Rightarrow>
          complete_pair_offer C s rid (mo_eph_priv m) (k_x_public C (mo_eph_priv m)) (mo_challenge m) out
      | Some (PoSendPrep _ _) \<Rightarrow> reply_unexpected_prep s out
      | Some (PoPingPrep _ _) \<Rightarrow> reply_unexpected_prep s out
      | Some (PoRebootBootsel _) \<Rightarrow> (NeedsRebootBootsel, s, out)
      | None \<Rightarrow> (Silent, s, out))"

text \<open>From the outcome of a line to the bytes sent; the last component says that the board
  restarts into its boot loader.\<close>

definition finish_line ::
  "crypto \<Rightarrow> moment \<Rightarrow> handled \<Rightarrow> flash \<Rightarrow> bytes option \<times> usb_state \<times> bytes \<times> flash \<times> bool" where
  "finish_line C m h fl =
     (let (oc, s, out) = h;
          (oc, s, out) = (if oc = NeedsTrng then complete_parked C m s out else (oc, s, out));
          (ok, s, fl) = commit_staged (mo_luck m) s fl;
          (oc, s, out) = (if ok then (oc, s, out) else storage_failure s out);
          (len, s, out) =
            (case oc of
               Inline n \<Rightarrow> (Some n, s, out)
             | NeedsCommit _ \<Rightarrow> commit_reply False s out
             | NeedsRebootBootsel \<Rightarrow> (case reply_rebooting s out of (len, out) \<Rightarrow> (len, s, out))
             | _ \<Rightarrow> (None, s, out));
          reply = map_option (\<lambda>n. take n out) len
      in (case us_pending_op s of
            Some (PoRebootBootsel _) \<Rightarrow> (reply, s\<lparr> us_pending_op := None \<rparr>, out, fl, True)
          | _ \<Rightarrow> (reply, s, out, fl, False)))"

record board =
  bd_usb :: usb_state
  bd_lines :: line_buffer
  bd_out :: bytes
  bd_flash :: flash

definition PARSE_SCRATCH_LEN :: nat where "PARSE_SCRATCH_LEN = 256"

definition serve_byte ::
  "crypto \<Rightarrow> json_core \<Rightarrow> board \<Rightarrow> moment \<Rightarrow> u8 \<Rightarrow> bytes option \<times> board \<times> bool" where
  "serve_byte C J bd m b =
     (let s = bd_usb bd;
          s = s\<lparr> us_engine := set_mono_s (us_engine s) (mo_now m) \<rparr> in
      case pump_byte C J False s (bd_lines bd) b (bd_out bd) PARSE_SCRATCH_LEN of
        (None, s, lines, out) \<Rightarrow> (None, bd\<lparr> bd_usb := s, bd_lines := lines, bd_out := out \<rparr>, False)
      | (Some oc, s, lines, out) \<Rightarrow>
          (case finish_line C m (oc, s, out) (bd_flash bd) of
             (reply, s, out, fl, reboot) \<Rightarrow>
               (reply, \<lparr> bd_usb = s, bd_lines = lines, bd_out = out, bd_flash = fl \<rparr>, reboot)))"

end
