(* ===== verification/Usb_Serve.thy ===== *)
theory Usb_Serve
  imports Usb_Main
begin

text \<open>
  The radio-free main loop as a whole: it refines the abstract node of \<open>Node_System\<close>, so that the
  node's safety theorems hold of it, and it answers every line it is sent exactly once.
\<close>

section \<open>Which lines perform an operation\<close>

lemma finish_outcome: "fst (jw_finish st out) \<noteq> NeedsTrng"
  by (simp add: jw_finish_def split: prod.split)

lemma reply_outcomes [simp]:
  "fst (reply_err rid c out) \<noteq> NeedsTrng" "fst (reply_status radio s rid out) \<noteq> NeedsTrng"
  "fst (reply_record rid rec out) \<noteq> NeedsTrng" "fst (reply_ok_simple rid b out) \<noteq> NeedsTrng"
  by (simp_all add: reply_err_def reply_status_def reply_record_def reply_ok_simple_def finish_outcome
      Let_def split: prod.split)

lemma answered_outcome [simp]: "fst (answered s r) = fst r"
  by (simp add: answered_def)

lemma record_outcome: "fst (record_answer s rid a out) \<noteq> NeedsTrng"
  by (auto simp: record_answer_def Let_def split: prod.split sum.split)

lemma op_outcomes:
  "fst (op_time_set s req out) \<noteq> NeedsTrng" "fst (op_block s req b out) \<noteq> NeedsTrng"
  "fst (op_delete s req out) \<noteq> NeedsTrng" "fst (op_radio_set radio s req out) \<noteq> NeedsTrng"
  "fst (op_arm s req out) \<noteq> NeedsTrng" "fst (op_pair_proof C s req out) \<noteq> NeedsTrng"
  "fst (op_pair_confirm C s req out) \<noteq> NeedsTrng"
  by (auto simp: op_time_set_def op_block_def op_delete_def op_radio_set_def op_arm_def
      op_pair_proof_def op_pair_confirm_def record_outcome Let_def split: prod.split sum.split option.split)

lemma import_outcome: "fst (op_pair_import C J s req out) \<noteq> NeedsTrng"
  by (auto simp: op_pair_import_def finish_outcome Let_def simp del: ascii_simps
      split: prod.split sum.split option.split)

text \<open>A request that parks itself for random bytes has not touched the engine.\<close>

lemma parked_asks_nothing: "fst (dispatch C J radio s req out) = NeedsTrng \<Longrightarrow> asked J radio s req = None"
proof (rule ccontr)
  assume d: "fst (dispatch C J radio s req out) = NeedsTrng" and a: "asked J radio s req \<noteq> None"
  have h: "us_health s \<noteq> HealthFault" using a by (auto simp: asked_def)
  from a have "rq_op req \<in> ascii ` {''time_set'', ''radio_set'', ''radio_arm_next_boot'', ''block'',
      ''unblock'', ''contact_delete'', ''pair_proof'', ''pair_confirm'', ''pair_import''}"
    by (simp add: asked_def Let_def h del: ascii_simps split: if_splits)
  then have "fst (dispatch C J radio s req out) \<noteq> NeedsTrng"
    by (elim imageE insertE emptyE) (simp_all add: dispatch_def Let_def h op_outcomes import_outcome)
  with d show False by simp
qed

text \<open>The lengths of what the random source and the key derivation give.\<close>

definition moment_ok :: "crypto \<Rightarrow> moment \<Rightarrow> bool" where
  "moment_ok C m \<longleftrightarrow>
     length (mo_key m) = 32 \<and> length (mo_challenge m) = 32 \<and>
     length (k_x_public C (mo_eph_priv m)) = 32"

definition valid_ops :: "engine \<Rightarrow> node_op option \<Rightarrow> bool" where
  "valid_ops e opt \<longleftrightarrow> (\<forall>op. opt = Some op \<longrightarrow> op_valid e op)"

lemma valid_if: "valid_ops e x \<Longrightarrow> valid_ops e y \<Longrightarrow> valid_ops e (if c then x else y)"
  by simp

lemma asked_valid: "valid_ops e (asked J radio s req)"
  unfolding asked_def Let_def
  by (intro valid_if) (auto simp: valid_ops_def dest!: asked_import_op split: option.splits if_splits)

lemma staged_stage:
  "us_staged (stage_for_commit s) =
     (case pending_persist (us_engine s) of
        Some b \<Rightarrow> Some (put_at 0 b (replicate PERSIST_LEN 0), length b) | None \<Rightarrow> us_staged s)"
  by (simp add: stage_for_commit_def split: option.split)

lemma performs_cong:
  assumes "us_engine t = us_engine s" and "us_health t = us_health s" and "us_staged t = us_staged s"
  shows "performs C opt t s' \<longleftrightarrow> performs C opt s s'"
proof (cases opt)
  case None
  with assms show ?thesis by (simp add: performs_def untouched_def)
next
  case (Some op)
  have "ran t ok e s' \<longleftrightarrow> ran s ok e s'" for ok e
    using assms by (simp add: ran_def staged_stage split: option.split)
  with Some assms(1) show ?thesis by (simp add: performs_def)
qed

lemma complete_performs:
  assumes m: "moment_ok C m"
  shows "\<exists>opt. performs C opt s (state_of (complete_parked C m s out)) \<and>
    valid_ops e opt"
proof -
  let ?t = "s\<lparr> us_pending_op := None \<rparr>"
  have lift: "performs C opt s s'" if "performs C opt ?t s'" for opt s'
    using that performs_cong [of ?t s] by simp
  have none: "\<exists>opt. performs C opt s s' \<and> valid_ops e opt" if "untouched s s'" for s'
    using that by (auto simp: performs_def valid_ops_def intro!: exI [of _ None])
  show ?thesis
  proof (cases "us_pending_op s")
    case (Some p)
    show ?thesis
    proof (cases p)
      case (PoProvision rid label)
      have "performs C (Some (OpProvision label (mo_key m))) ?t
          (state_of (complete_provision ?t rid label (mo_key m) out))"
        by (rule performsI [OF ran_ops(7) [OF refl]]) (simp_all add: failed_not_staged)
      with lift m show ?thesis
        by (intro exI [of _ "Some (OpProvision label (mo_key m))"])
          (simp add: complete_parked_def Some PoProvision Let_def moment_ok_def valid_ops_def)
    next
      case (PoPairOffer rid)
      let ?op = "OpPairOffer (mo_eph_priv m) (k_x_public C (mo_eph_priv m)) (mo_challenge m)"
      have "performs C (Some ?op) ?t (state_of (complete_pair_offer C ?t rid (mo_eph_priv m)
          (k_x_public C (mo_eph_priv m)) (mo_challenge m) out))"
        unfolding complete_pair_offer_def
        by (rule performsI [OF ran_ops(6) [OF refl]]) (simp_all add: failed_not_staged)
      with lift m show ?thesis
        by (intro exI [of _ "Some ?op"]) (simp add: complete_parked_def Some PoPairOffer Let_def moment_ok_def valid_ops_def)
    qed (auto intro!: none simp: complete_parked_def Some Let_def reply_unexpected_prep_def untouched_def)
  qed (auto intro!: none simp: complete_parked_def Let_def untouched_def)
qed

text \<open>One line, completed: at most one operation of the engine.\<close>

definition completed_line :: "crypto \<Rightarrow> moment \<Rightarrow> handled \<Rightarrow> handled" where
  "completed_line C m h =
     (case h of (oc, s, out) \<Rightarrow> if oc = NeedsTrng then complete_parked C m s out else (oc, s, out))"

lemma line_performs:
  assumes m: "moment_ok C m"
  shows "\<exists>opt. performs C opt s (state_of (completed_line C m (dispatch_line C J radio s line k out))) \<and>
    valid_ops e opt \<and> (us_health s = HealthFault \<longrightarrow> opt = None)"
proof -
  have none: "\<exists>opt. performs C opt s s' \<and> valid_ops e opt \<and> (us_health s = HealthFault \<longrightarrow> opt = None)"
    if "untouched s s'" for s'
    using that by (auto simp: performs_def valid_ops_def intro!: exI [of _ None])
  show ?thesis
  proof (cases "line = [] \<or> jc_parse J line k = None")
    case True
    then show ?thesis
      by (intro none) (auto simp: dispatch_line_def completed_line_def answered_def)
  next
    case False
    then obtain req where p: "line \<noteq> []" "jc_parse J line k = Some req" by auto
    let ?t = "s\<lparr> us_reply_id := rq_id req \<rparr>"
    let ?d = "dispatch C J radio ?t req out"
    have d: "dispatch_line C J radio s line k out = ?d" by (simp add: dispatch_line_def p)
    have lift: "performs C opt s s'" if "performs C opt ?t s'" for opt s'
      using that performs_cong [of ?t s] by simp
    have pd: "performs C (asked J radio ?t req) s (state_of ?d)"
      by (rule lift, rule dispatch_performs)
    show ?thesis
    proof (cases "fst ?d = NeedsTrng")
      case True
      then have u: "untouched s (state_of ?d)"
        using pd parked_asks_nothing [OF True] by (simp add: performs_def)
      obtain s' out' where sd: "?d = (NeedsTrng, s', out')" using True by (cases ?d) auto
      from complete_performs [OF m, of s' out' e] obtain opt where
        c: "performs C opt s' (state_of (complete_parked C m s' out'))" "valid_ops e opt"
        by blast
      have "performs C opt s (state_of (complete_parked C m s' out'))"
        using c(1) u performs_cong [of s' s] by (simp add: untouched_def sd)
      moreover have "us_health s \<noteq> HealthFault"
        using True by (auto simp: dispatch_def Let_def split: if_splits)
      ultimately show ?thesis
        using c(2) unfolding d sd completed_line_def by (intro exI [of _ opt]) simp
    next
      case False
      then have "completed_line C m ?d = ?d" by (auto simp: completed_line_def split: prod.split)
      show ?thesis
        unfolding d \<open>completed_line C m ?d = ?d\<close>
        by (intro exI conjI, rule pd, rule asked_valid) (simp add: asked_def)
    qed
  qed
qed

section \<open>The board refines the node\<close>

lemma pump_performs:
  assumes m: "moment_ok C m"
    and p: "pump_byte C J radio s lines b out k = (Some oc, s', lines', out')"
  shows "\<exists>opt. performs C opt s (state_of (completed_line C m (oc, s', out'))) \<and> valid_ops e opt \<and>
    (us_health s = HealthFault \<longrightarrow> opt = None)"
proof -
  obtain ev l where ev: "LineBuffer_push lines b = (Some ev, l)"
    using p by (auto simp: pump_byte_def split: prod.splits option.splits)
  show ?thesis
  proof (cases ev)
    case (Line line)
    with ev p have "dispatch_line C J radio s line k out = (oc, s', out')"
      by (auto simp: pump_byte_def split: prod.splits)
    with line_performs [OF m, of s J radio line k out e] show ?thesis by simp
  next
    case TooLong
    with ev p have "s' = s" "oc \<noteq> NeedsTrng"
      by (auto simp: pump_byte_def split: prod.splits option.splits)
    then show ?thesis
      by (auto simp: completed_line_def performs_def valid_ops_def intro!: exI [of _ None])
  qed
qed

lemma pump_silent:
  "pump_byte C J radio s lines b out k = (None, s', lines', out') \<Longrightarrow> s' = s \<and> out' = out"
  by (auto simp: pump_byte_def split: prod.splits option.splits line_event.splits)

lemma commit_unstaged:
  assumes "us_staged s = None" and "commit_staged k s fl = (ok, s', fl')"
  shows "us_engine s' = us_engine s" "us_health s' = us_health s" "us_staged s' = None"
    "fl_node fl' = fl_node fl"
proof -
  have w: "fl_node f = fl_node fl" if "commit_with k (ReqCommitSettings x) fl = (r, f)" for x r f
    using that by (auto simp: commit_with_def storage_service_def split: if_splits)
  have w': "fl_node f = fl_node fl" if "commit_with k (ReqCommitWifi x) fl = (r, f)" for x r f
    using that by (auto simp: commit_with_def storage_service_def split: if_splits)
  show "us_engine s' = us_engine s" "us_health s' = us_health s" "us_staged s' = None"
    "fl_node fl' = fl_node fl"
    using assms w w'
    by (auto simp: commit_staged_def split: option.splits staged_reply.splits prod.splits if_splits)
qed

lemma commit_snapshot:
  assumes "us_staged s = Some (b, PERSIST_LEN)" and "commit_staged k s fl = (ok, s', fl')"
  shows "ok = fk_store k" "us_staged s' = None"
    "fl_node fl' = (if fk_store k \<or> fk_landed k then Some b else fl_node fl)"
    "us_engine s' = (if ok then commit_ok (us_engine s) else mark_fault (discard_staged (us_engine s)))"
    "us_health s' = (if ok then us_health s else HealthFault)"
  using assms by (auto simp: commit_staged_def commit_with_def storage_service_def Let_def split: if_splits)

lemma commit_reply_frame:
  assumes "commit_reply radio s out = (n, s', out')"
  shows "us_engine s' = us_engine s" "us_health s' = us_health s" "us_staged s' = us_staged s"
    "us_pending_op s' = us_pending_op s" "us_staged_reply s' = None"
  using assms by (auto simp: commit_reply_def Let_def split: option.splits staged_reply.splits prod.splits if_splits)

text \<open>After the commit the loop only renders: engine, health and flash stay.\<close>

lemma finish_line_core:
  assumes f: "finish_line C m h fl = (reply, s', out', fl', reboot)"
  obtains ok s2 where "commit_staged (mo_luck m) (state_of (completed_line C m h)) fl = (ok, s2, fl')"
    and "us_engine s' = us_engine s2" and "us_health s' = us_health s2" and "us_staged s' = us_staged s2"
proof -
  obtain oc1 s1 out1 where c: "completed_line C m h = (oc1, s1, out1)" by (cases "completed_line C m h")
  obtain ok s2 fl2 where k: "commit_staged (mo_luck m) s1 fl = (ok, s2, fl2)"
    by (cases "commit_staged (mo_luck m) s1 fl")
  obtain oc0 s0 out0 where h: "h = (oc0, s0, out0)" by (cases h)
  have e: "(if oc0 = NeedsTrng then complete_parked C m s0 out0 else (oc0, s0, out0)) = (oc1, s1, out1)"
    using c by (simp add: h completed_line_def)
  have "fl' = fl2 \<and> us_engine s' = us_engine s2 \<and> us_health s' = us_health s2 \<and> us_staged s' = us_staged s2"
    using f unfolding finish_line_def h prod.case Let_def e k
    by (auto simp: storage_failure_def answered_def Let_def commit_reply_frame
        split: if_splits prod.splits outcome.splits option.splits pending_op.splits)
  with that [of ok s2] k show thesis by (simp add: c)
qed

text \<open>The board and the abstract node hold the same engine and the same flash record, and nothing is
  waiting to be saved. After a storage fault the dispatcher answers but no longer operates.\<close>

definition in_step :: "crypto \<Rightarrow> board \<Rightarrow> node \<Rightarrow> bool" where
  "in_step C bd nd \<longleftrightarrow>
     nd_engine nd = us_engine (bd_usb bd) \<and> nd_flash nd = fl_node (bd_flash bd) \<and>
     us_staged (bd_usb bd) = None \<and>
     (settled C (us_engine (bd_usb bd)) \<or>
      us_health (bd_usb bd) = HealthFault \<and> \<not> en_persist_dirty (us_engine (bd_usb bd)))"

lemma mono_step:
  assumes "\<not> en_persist_dirty (nd_engine nd)"
  obtains nd' where "node_run C nd [Done (OpMono t)] nd'" and "nd_engine nd' = set_mono_s (nd_engine nd) t"
    and "nd_flash nd' = nd_flash nd" and "nd_roots nd' = nd_roots nd \<union> roots_of (nd_engine nd)"
proof -
  let ?e = "set_mono_s (nd_engine nd) t"
  have d: "\<not> en_persist_dirty ?e" and cs: "en_contacts ?e = en_contacts (nd_engine nd)"
    using assms by (simp_all add: set_mono_s_def)
  have "fresh_roots nd ?e" by (simp add: fresh_roots_def cs)
  then have "node_step C nd (Done (OpMono t)) \<lparr> nd_engine = (if en_persist_dirty ?e then commit_ok ?e else ?e),
         nd_flash = (case pending_persist ?e of Some b \<Rightarrow> Some b | None \<Rightarrow> nd_flash nd),
         nd_roots = nd_roots nd \<union> roots_of ?e, nd_sealed = sealed_entries ?e None @ nd_sealed nd,
         nd_delivered = delivered_entries ?e None @ nd_delivered nd \<rparr>"
    by (intro step_done) simp_all
  from that [OF nd.exec_snoc [OF nd.exec_Nil this, simplified]] show thesis
    using d by (simp add: pending_persist_def roots_of_def cs)
qed

lemma roots_same:
  assumes "\<And>i. i < MAX_CONTACTS \<Longrightarrow> c_present (en_contacts e' ! i) = c_present (en_contacts e ! i) \<and>
     c_root (en_contacts e' ! i) = c_root (en_contacts e ! i)"
  shows "fresh_roots nd e' \<longleftrightarrow> fresh_roots nd e"
  using assms by (auto simp: fresh_roots_def)

lemma fresh_committed:
  assumes "length (en_contacts e) = MAX_CONTACTS"
  shows "fresh_roots nd (commit_ok e) \<longleftrightarrow> fresh_roots nd e"
    and "fresh_roots nd (mark_fault (discard_staged e)) \<longleftrightarrow> fresh_roots nd e"
proof -
  show "fresh_roots nd (commit_ok e) \<longleftrightarrow> fresh_roots nd e"
    using keeps_commit [OF assms] assms
    by (intro roots_same) (auto simp: commit_ok_def Let_def nth_upd_contact split: option.split staged_commit.split)
  show "fresh_roots nd (mark_fault (discard_staged e)) \<longleftrightarrow> fresh_roots nd e"
    by (intro roots_same) (simp add: mark_fault_def discard_staged_def)
qed

text \<open>One operation with the commit that follows it is one step of the node.\<close>

lemma commit_simulates:
  assumes C: "crypto_sizes C" and set: "settled C (us_engine s)" and none: "us_staged s = None"
    and p: "performs C (Some op) s s1" and v: "op_valid (us_engine s) op"
    and c: "commit_staged k s1 fl = (ok, s2, fl')"
    and nd: "nd_engine nd = us_engine s" "nd_flash nd = fl_node fl"
    and fresh: "fresh_roots nd (us_engine s2)"
  shows "\<exists>l nd'. node_step C nd l nd' \<and> nd_engine nd' = us_engine s2 \<and> nd_flash nd' = fl_node fl' \<and>
    us_staged s2 = None \<and>
    (settled C (us_engine s2) \<or> us_health s2 = HealthFault \<and> \<not> en_persist_dirty (us_engine s2))"
proof -
  define e' where "e' = snd (run_op C op (us_engine s))"
  obtain f ev where run: "run_op C op (us_engine s) = ((f, ev), e')"
    by (metis e'_def prod.collapse)
  obtain st where r: "ran s st e' s1" and d: "\<not> st \<longrightarrow> en_persist_dirty (us_engine s1) = en_persist_dirty (us_engine s)"
    using p by (auto simp: performs_def e'_def)
  from r have e1: "us_engine s1 = e'" and h1: "us_health s1 = us_health s"
    and st: "us_staged s1 = (if st then us_staged (stage_for_commit (s\<lparr> us_engine := e' \<rparr>)) else us_staged s)"
    by (simp_all add: ran_def)
  have clean: "\<not> st \<longrightarrow> \<not> en_persist_dirty e'" using d set e1 by (simp add: settled_def)
  have ok': "op_ok C e'" using run_op_ok [OF C set v] by (simp add: e'_def)
  have len: "length (en_contacts e') = MAX_CONTACTS"
    using ok' by (auto simp: op_ok_def settled_def staged_ok_def core_inv_def contacts_ok_def)
  show ?thesis
  proof (cases "en_persist_dirty e'")
    case False
    then have s': "settled C e'" using ok' by (auto simp: op_ok_def staged_ok_def)
    have "us_staged s1 = None" using False none by (simp add: st staged_stage pending_persist_def)
    note u = commit_unstaged [OF this c]
    have "fresh_roots nd e'" using fresh u(1) e1 by simp
    with run v have "node_step C nd (Done op) \<lparr> nd_engine = (if en_persist_dirty e' then commit_ok e' else e'),
         nd_flash = (case pending_persist e' of Some b \<Rightarrow> Some b | None \<Rightarrow> nd_flash nd),
         nd_roots = nd_roots nd \<union> roots_of e', nd_sealed = sealed_entries e' f @ nd_sealed nd,
         nd_delivered = delivered_entries e' ev @ nd_delivered nd \<rparr>"
      by (intro step_done) (simp_all add: nd)
    then show ?thesis
      by (rule_tac exI, rule_tac exI, intro conjI) (assumption, use False s' u e1 nd in \<open>simp_all add: pending_persist_def\<close>)
  next
    case True
    then have so: "staged_ok C e'" using ok' by (auto simp: op_ok_def settled_def)
    define b where "b = view_bytes (Engine_persist_view e')"
    have pb: "pending_persist e' = Some b" using so by (simp add: staged_ok_def b_def)
    have "length b = PERSIST_LEN"
      using so view_wf_core by (auto simp: staged_ok_def b_def intro: length_view_bytes)
    then have sb: "us_staged s1 = Some (b, PERSIST_LEN)"
      using clean True by (simp add: st staged_stage pb put_at_0)
    note u = commit_snapshot [OF sb c]
    show ?thesis
    proof (cases ok)
      case ok: True
      then have "fresh_roots nd e'" using fresh u(4) e1 fresh_committed(1) [OF len] by simp
      with run v have "node_step C nd (Done op) \<lparr> nd_engine = (if en_persist_dirty e' then commit_ok e' else e'),
         nd_flash = (case pending_persist e' of Some b \<Rightarrow> Some b | None \<Rightarrow> nd_flash nd),
         nd_roots = nd_roots nd \<union> roots_of e', nd_sealed = sealed_entries e' f @ nd_sealed nd,
         nd_delivered = delivered_entries e' ev @ nd_delivered nd \<rparr>"
        by (intro step_done) (simp_all add: nd)
      then show ?thesis
        by (rule_tac exI, rule_tac exI, intro conjI)
          (assumption, use True ok u e1 pb commit_settled [OF so] in simp_all)
    next
      case bad: False
      then have "fresh_roots nd e'" using fresh u(4) e1 fresh_committed(2) [OF len] by simp
      with run v pb have "node_step C nd (SaveFailed op) (nd\<lparr> nd_engine := mark_fault (discard_staged e'),
          nd_flash := fl_node fl', nd_roots := nd_roots nd \<union> roots_of e' \<rparr>)"
        by (intro step_save_failed) (use u(1,3) bad in \<open>auto simp: nd\<close>)
      then show ?thesis
        by (rule_tac exI, rule_tac exI, intro conjI)
          (assumption, use bad u e1 in \<open>simp_all add: mark_fault_def discard_staged_def\<close>)
    qed
  qed
qed

lemma untouched_commit:
  assumes u: "untouched s s1" and none: "us_staged s = None" and c: "commit_staged k s1 fl = (ok, s2, fl')"
  shows "us_engine s2 = us_engine s \<and> us_health s2 = us_health s \<and> us_staged s2 = None \<and> fl_node fl' = fl_node fl"
  using u none commit_unstaged [OF _ c] by (simp add: untouched_def)

lemma settled_mono: "settled C (set_mono_s e t) \<longleftrightarrow> settled C e"
  by (simp add: settled_def set_mono_s_def)

lemma serve_state:
  assumes m: "moment_ok C m" and r: "serve_byte C J bd m b = (reply, bd', reboot)"
    and none: "us_staged (bd_usb bd) = None"
  defines "s \<equiv> (bd_usb bd)\<lparr> us_engine := set_mono_s (us_engine (bd_usb bd)) (mo_now m) \<rparr>"
  obtains opt s1 ok where "performs C opt s s1" and "valid_ops (us_engine s) opt"
    and "us_health s = HealthFault \<Longrightarrow> opt = None"
    and "\<exists>s2. commit_staged (mo_luck m) s1 (bd_flash bd) = (ok, s2, bd_flash bd') \<and>
      us_engine (bd_usb bd') = us_engine s2 \<and> us_health (bd_usb bd') = us_health s2 \<and>
      us_staged (bd_usb bd') = us_staged s2"
  | "untouched s (bd_usb bd')" and "bd_flash bd' = bd_flash bd"
proof -
  obtain oc s' lines' out' where p: "pump_byte C J False s (bd_lines bd) b (bd_out bd) PARSE_SCRATCH_LEN =
      (oc, s', lines', out')"
    by (metis prod_cases4)
  show thesis
  proof (cases oc)
    case None
    with p pump_silent [of C J False s "bd_lines bd" b "bd_out bd"] have "s' = s" by simp
    with r p None show thesis
      by (intro that(2)) (auto simp: serve_byte_def s_def [symmetric] Let_def)
  next
    case (Some c)
    obtain rep s2 out2 fl2 rb where f: "finish_line C m (c, s', out') (bd_flash bd) = (rep, s2, out2, fl2, rb)"
      by (metis prod_cases5)
    have bd': "bd_usb bd' = s2" "bd_flash bd' = fl2"
      using r p f Some by (auto simp: serve_byte_def s_def [symmetric] Let_def)
    obtain ok s3 where k: "commit_staged (mo_luck m) (state_of (completed_line C m (c, s', out'))) (bd_flash bd) = (ok, s3, fl2)"
      and "us_engine s2 = us_engine s3" "us_health s2 = us_health s3" "us_staged s2 = us_staged s3"
      by (rule finish_line_core [OF f])
    moreover obtain opt where "performs C opt s (state_of (completed_line C m (c, s', out')))"
      "valid_ops (us_engine s) opt" "us_health s = HealthFault \<longrightarrow> opt = None"
      using pump_performs [OF m p [unfolded Some], of "us_engine s"] by blast
    ultimately show thesis
      by (intro that(1) [of opt "state_of (completed_line C m (c, s', out'))" ok]) (auto simp: bd')
  qed
qed


section \<open>One reply to every line\<close>

text \<open>What a handler may leave behind: an owed reply only with \<open>NeedsCommit\<close>, a parked operation only
  with \<open>NeedsTrng\<close> or a reboot, and no send or ping in this image.\<close>

definition tidy :: "usb_state \<Rightarrow> handled \<Rightarrow> bool" where
  "tidy s h \<longleftrightarrow>
     (case h of (oc, s', out) \<Rightarrow>
        us_reply_id s' = us_reply_id s \<and>
        (case oc of
           NeedsCommit _ \<Rightarrow> us_pending_op s' = us_pending_op s
         | NeedsTrng \<Rightarrow> us_staged_reply s' = us_staged_reply s
         | NeedsRebootBootsel \<Rightarrow> us_staged_reply s' = us_staged_reply s
         | NeedsSendPrep \<Rightarrow> False
         | NeedsPingPrep \<Rightarrow> False
         | _ \<Rightarrow> us_staged_reply s' = us_staged_reply s \<and> us_pending_op s' = us_pending_op s))"

lemma finish_cases: "fst (jw_finish st out) = Silent \<or> (\<exists>n. fst (jw_finish st out) = Inline n)"
  by (simp add: jw_finish_def split: prod.split)

lemma tidy_answered:
  assumes "fst r = Silent \<or> (\<exists>n. fst r = Inline n)" and "us_reply_id s' = us_reply_id s"
    and "us_staged_reply s' = us_staged_reply s" and "us_pending_op s' = us_pending_op s"
  shows "tidy s (answered s' r)"
  using assms by (auto simp: tidy_def answered_def)

lemma tidy_finish [simp]:
  "us_reply_id s' = us_reply_id s \<Longrightarrow> us_staged_reply s' = us_staged_reply s \<Longrightarrow>
   us_pending_op s' = us_pending_op s \<Longrightarrow> tidy s (answered s' (jw_finish st out))"
  by (rule tidy_answered) (simp_all add: finish_cases)

lemma tidy_replies [simp]:
  assumes "us_reply_id s' = us_reply_id s" and "us_staged_reply s' = us_staged_reply s"
    and "us_pending_op s' = us_pending_op s"
  shows "tidy s (answered s' (reply_err rid c out))" "tidy s (answered s' (reply_ok_simple rid b out))"
    "tidy s (answered s' (reply_record rid rec out))" "tidy s (answered s' (reply_status radio s'' rid out))"
    "tidy s (answered s' (reply_contacts C s'' rid out))" "tidy s (answered s' (reply_time_status s'' rid out))"
  using assms
  by (simp_all add: reply_err_def reply_ok_simple_def reply_record_def reply_status_def reply_contacts_def
      reply_time_status_def Let_def split: prod.split)

lemma tidy_commit [simp]:
  "tidy s (NeedsCommit k, s', out) \<longleftrightarrow> us_reply_id s' = us_reply_id s \<and> us_pending_op s' = us_pending_op s"
  by (simp add: tidy_def)

lemma tidy_parked [simp]:
  "tidy s (NeedsTrng, s\<lparr> us_pending_op := p \<rparr>, out)" "tidy s (NeedsRebootBootsel, s\<lparr> us_pending_op := p \<rparr>, out)"
  by (simp_all add: tidy_def)

lemma tidy_record: "us_reply_id s' = us_reply_id s \<Longrightarrow> us_staged_reply s' = us_staged_reply s \<Longrightarrow>
    us_pending_op s' = us_pending_op s \<Longrightarrow> tidy s (record_answer s' rid a out)"
  by (simp add: record_answer_def Let_def split: prod.split sum.split)

lemma tidy_ops:
  "tidy s (op_provision J s req out)" "tidy s (op_time_set s req out)" "tidy s (op_block s req b out)"
  "tidy s (op_delete s req out)" "tidy s (op_radio_set radio s req out)" "tidy s (op_arm s req out)"
  "tidy s (op_wifi_forget s req out)" "tidy s (op_reboot_bootsel s req out)"
  "tidy s (op_pair_offer s req out)" "tidy s (op_send_radio_free J s req out)"
  "tidy s (op_pair_proof C s req out)" "tidy s (op_pair_confirm C s req out)"
  by (simp_all add: op_provision_def op_time_set_def op_block_def op_delete_def op_radio_set_def op_arm_def
      op_wifi_forget_def op_reboot_bootsel_def op_pair_offer_def op_send_radio_free_def
      op_pair_proof_def op_pair_confirm_def tidy_record Let_def split: prod.split sum.split option.split)

lemma tidy_wifi_set: "tidy s (op_wifi_set J s req out)"
  by (simp add: op_wifi_set_def Let_def split: option.split prod.split)

lemma tidy_wifi_status: "tidy s (op_wifi_status s req out)"
  by (simp add: op_wifi_status_def Let_def del: ascii_simps split: prod.split)

lemma tidy_settings_get: "tidy s (op_settings_get J s req out)"
  unfolding op_settings_get_def Let_def
  by (simp del: ascii_simps append.simps split: option.split prod.split)

lemma tidy_settings_set: "tidy s (op_settings_set J s req out)"
  unfolding op_settings_set_def Let_def
  by (simp split: option.split prod.split sum.split)

lemma tidy_import: "tidy s (op_pair_import C J s req out)"
  unfolding op_pair_import_def Let_def
  by (simp del: ascii_simps append.simps split: option.split prod.split sum.split)

lemma dispatch_tidy: "tidy s (dispatch C J False s req out)"
  unfolding dispatch_def Let_def
  by (simp add: tidy_ops tidy_wifi_set tidy_wifi_status tidy_settings_get tidy_settings_set tidy_import
      del: ascii_simps)

text \<open>A line that is done except for the commit and the rendering: its answer is in the buffer, owed, or
  waits for the reboot.\<close>

definition line_done :: "u64 \<Rightarrow> handled \<Rightarrow> bool" where
  "line_done rid h \<longleftrightarrow>
     (case h of (oc, s, out) \<Rightarrow>
        length out = REPLY_LEN \<and> (us_staged s = None \<or> us_reply_id s = rid) \<and>
        (case oc of
           Inline n \<Rightarrow> replies rid n out \<and> us_staged_reply s = None \<and> us_pending_op s = None
         | NeedsCommit _ \<Rightarrow>
             us_pending_op s = None \<and> us_reply_id s = rid \<and>
             (\<exists>r. us_staged_reply s = Some r \<and> owed_id r = rid \<and> owed_ok r)
         | NeedsRebootBootsel \<Rightarrow>
             us_staged_reply s = None \<and> us_pending_op s = Some (PoRebootBootsel rid)
         | _ \<Rightarrow> False))"

lemma provision_done:
  assumes l: "length out = REPLY_LEN" and s: "us_staged_reply s = None" "us_pending_op s = None" "us_reply_id s = rid"
  shows "line_done rid (complete_provision s rid label key out)"
proof -
  obtain oc s' out' where h: "complete_provision s rid label key out = (oc, s', out')"
    by (cases "complete_provision s rid label key out")
  have t: "tidy s (oc, s', out')"
    unfolding h [symmetric] complete_provision_def
    by (simp add: Let_def del: ascii_simps append.simps split: prod.split sum.split)
  have i: "oc = Silent \<or> (\<exists>n. oc = Inline n)"
    using h finish_cases
    by (auto simp: complete_provision_def answered_def Let_def reply_err_def simp del: ascii_simps
        split: prod.splits sum.splits)
  show ?thesis
    using complete_provision_answers [OF l, of rid s label key] i t s
    by (auto simp: h line_done_def answers_def tidy_def)
qed

lemma record_done:
  assumes "\<And>r. fst a = Inr r \<Longrightarrow> r \<noteq> [] \<and> length r \<le> 186" and l: "length out = REPLY_LEN"
    and s: "us_staged_reply s = None" "us_pending_op s = None" "us_reply_id s = rid"
  shows "line_done rid (record_answer s rid a out)"
proof -
  obtain oc s' out' where h: "record_answer s rid a out = (oc, s', out')"
    by (cases "record_answer s rid a out")
  have t: "tidy s (oc, s', out')" using tidy_record [of s s rid a out] by (simp add: h)
  have i: "oc = Silent \<or> (\<exists>n. oc = Inline n)"
    using h finish_cases
    by (auto simp: record_answer_def answered_def Let_def reply_err_def reply_record_def simp del: ascii_simps
        split: prod.splits sum.splits)
  show ?thesis
    using record_answer_answers [of a out rid s, OF assms(1) l] i t s
    by (auto simp: h line_done_def answers_def tidy_def)
qed

lemma complete_done:
  assumes m: "moment_ok C m" and r: "record_sizes C (us_engine s)" and l: "length out = REPLY_LEN"
    and p: "(\<exists>lb. us_pending_op s = Some (PoProvision rid lb)) \<or> us_pending_op s = Some (PoPairOffer rid)"
    and s: "us_staged_reply s = None" "us_reply_id s = rid"
  shows "line_done rid (complete_parked C m s out)"
  using p
proof (elim disjE exE)
  fix lb assume "us_pending_op s = Some (PoProvision rid lb)"
  then show ?thesis using l s by (simp add: complete_parked_def Let_def provision_done)
next
  assume pp: "us_pending_op s = Some (PoPairOffer rid)"
  have "x \<noteq> [] \<and> length x \<le> 186"
    if "fst (pair_offer C (us_engine s) (mo_eph_priv m) (k_x_public C (mo_eph_priv m)) (mo_challenge m)) = Inr x" for x
  proof -
    have "length x = OFFER_RECORD_LEN"
      by (rule r [unfolded record_sizes_def, THEN conjunct2, THEN conjunct2, rule_format, OF _ _ that])
        (use m in \<open>simp_all add: moment_ok_def\<close>)
    then show ?thesis by (auto simp: OFFER_RECORD_LEN_def)
  qed
  then show ?thesis
    using l s by (simp add: complete_parked_def pp Let_def complete_pair_offer_def record_done)
qed

definition line_id :: "json_core \<Rightarrow> line_event \<Rightarrow> u64" where
  "line_id J ev =
     (case ev of
        Line l \<Rightarrow> (case jc_parse J l PARSE_SCRATCH_LEN of Some req \<Rightarrow> rq_id req | None \<Rightarrow> 0)
      | TooLong \<Rightarrow> 0)"

lemma dispatch_done:
  assumes m: "moment_ok C m" and r: "record_sizes C (us_engine s)" and l: "length out = REPLY_LEN"
    and s: "us_staged_reply s = None" "us_pending_op s = None" "us_reply_id s = rq_id req" "us_staged s = None"
  shows "line_done (rq_id req) (completed_line C m (dispatch C J False s req out))"
proof -
  obtain oc s' out' where h: "dispatch C J False s req out = (oc, s', out')"
    by (cases "dispatch C J False s req out")
  have t: "tidy s (oc, s', out')" using dispatch_tidy [of s C J req out] by (simp add: h)
  have a: "answers (rq_id req) (oc, s', out')" using dispatch_answers [OF r l, of req J False] by (simp add: h)
  show ?thesis
  proof (cases "oc = NeedsTrng")
    case True
    then have "asked J False s req = None" using parked_asks_nothing [of C J False s req out] h by simp
    then have "us_engine s' = us_engine s"
      using dispatch_performs [of C J False s req out] by (simp add: performs_def untouched_def h)
    then have rs: "record_sizes C (us_engine s')" using r by simp
    have t': "us_staged_reply s' = None" "us_reply_id s' = rq_id req"
      using t s True by (simp_all add: tidy_def)
    have a': "length out' = REPLY_LEN"
      "(\<exists>lb. us_pending_op s' = Some (PoProvision (rq_id req) lb)) \<or>
       us_pending_op s' = Some (PoPairOffer (rq_id req))"
      using a True by (simp_all add: answers_def)
    have "completed_line C m (oc, s', out') = complete_parked C m s' out'"
      by (simp add: completed_line_def True)
    then show ?thesis
      using complete_done [OF m rs a'(1,2) t'] by (simp add: h)
  next
    case False
    with t a s show ?thesis
      unfolding h completed_line_def
      by (cases oc) (auto simp: tidy_def answers_def line_done_def)
  qed
qed

lemma dispatch_line_done:
  assumes m: "moment_ok C m" and r: "record_sizes C (us_engine s)" and l: "length out = REPLY_LEN"
    and s: "us_staged_reply s = None" "us_pending_op s = None" "us_staged s = None" and ne: "line \<noteq> []"
  shows "line_done (line_id J (Line line)) (completed_line C m (dispatch_line C J False s line PARSE_SCRATCH_LEN out))"
proof (cases "jc_parse J line PARSE_SCRATCH_LEN")
  case None
  obtain n where n: "fst (reply_err 0 ''BAD_REQUEST'' out) = Inline n" "replies 0 n (snd (reply_err 0 ''BAD_REQUEST'' out))"
    using reply_err_replies [of "''BAD_REQUEST''" out 0] l by auto
  then show ?thesis
    using s by (simp add: dispatch_line_def ne None completed_line_def answered_def line_done_def line_id_def)
      (simp add: replies_def)
next
  case (Some req)
  then show ?thesis
    using dispatch_done [OF m _ l, of "s\<lparr> us_reply_id := rq_id req \<rparr>" req J] r s ne
    by (simp add: dispatch_line_def line_id_def)
qed

text \<open>The commit keeps what the reply needs.\<close>

lemma commit_frame:
  assumes "commit_staged k s fl = (ok, s', fl')"
  shows "us_reply_id s' = us_reply_id s" "us_pending_op s' = us_pending_op s" "us_staged s' = None"
    "ok \<Longrightarrow> us_staged_reply s' = us_staged_reply s"
    "\<not> ok \<Longrightarrow> us_staged s \<noteq> None \<or> us_staged_reply s \<noteq> None"
  using assms
  by (auto simp: commit_staged_def Let_def split: option.splits staged_reply.splits prod.splits if_splits)

definition good_reply :: "u64 \<Rightarrow> bytes \<Rightarrow> bool" where
  "good_reply rid r \<longleftrightarrow> LF \<notin> set r \<and> (\<exists>v. read_line r = Some v \<and> is_reply rid v)"

lemma replies_good: "replies rid n out \<Longrightarrow> good_reply rid (take n out)"
proof -
  assume "replies rid n out"
  then obtain v where v: "is_reply rid v" "take n out = json_text v" by (auto simp: replies_def)
  have "LF \<notin> set (json_text v)" using json_text_printable [of LF v] by (auto simp: LF_def)
  with v show ?thesis by (auto simp: good_reply_def read_line_text)
qed

definition idle :: "usb_state \<Rightarrow> bytes \<Rightarrow> bool" where
  "idle s out \<longleftrightarrow>
     us_staged s = None \<and> us_staged_reply s = None \<and> us_pending_op s = None \<and> length out = REPLY_LEN"

lemma rebooting_reply:
  assumes "us_pending_op s = Some (PoRebootBootsel rid)" and "length out = REPLY_LEN"
  shows "\<exists>n out'. reply_rebooting s out = (Some n, out') \<and> replies rid n out'"
proof -
  obtain n where n: "fst (reply_ok_simple rid ''{\"rebooting\":true}'' out) = Inline n"
    "replies rid n (snd (reply_ok_simple rid ''{\"rebooting\":true}'' out))"
    using simple_replies [of "''{\"rebooting\":true}''" "JObj [(''rebooting'', JBool True)]" out rid] assms(2)
    by (auto simp: text_simps)
  then show ?thesis
    using assms(1) by (cases "reply_ok_simple rid ''{\"rebooting\":true}'' out")
      (auto simp: reply_rebooting_def)
qed

lemma finish_line_replies:
  assumes d: "line_done rid (completed_line C m h)"
    and f: "finish_line C m h fl = (reply, s', out', fl', reboot)"
  shows "(\<exists>r. reply = Some r \<and> good_reply rid r) \<and> idle s' out'"
proof -
  obtain oc1 s1 out1 where c: "completed_line C m h = (oc1, s1, out1)" by (cases "completed_line C m h")
  obtain ok s2 fl2 where k: "commit_staged (mo_luck m) s1 fl = (ok, s2, fl2)"
    by (cases "commit_staged (mo_luck m) s1 fl")
  note fr = commit_frame [OF k]
  have e: "(case h of (oc, s, out) \<Rightarrow> if oc = NeedsTrng then complete_parked C m s out else (oc, s, out)) = (oc1, s1, out1)"
    using c by (simp add: completed_line_def)
  have l: "length out1 = REPLY_LEN" and sid: "us_staged s1 = None \<or> us_reply_id s1 = rid"
    using d by (simp_all add: c line_done_def)
  obtain oc3 s3 out3 where t: "(if ok then (oc1, s2, out1) else storage_failure s2 out1) = (oc3, s3, out3)"
    by (cases "if ok then (oc1, s2, out1) else storage_failure s2 out1")
  have F: "finish_line C m h fl =
    (let (len, s, out) =
            (case oc3 of
               Inline n \<Rightarrow> (Some n, s3, out3)
             | NeedsCommit _ \<Rightarrow> commit_reply False s3 out3
             | NeedsRebootBootsel \<Rightarrow> (case reply_rebooting s3 out3 of (len, out) \<Rightarrow> (len, s3, out))
             | _ \<Rightarrow> (None, s3, out3));
          reply = map_option (\<lambda>n. take n out) len
      in (case us_pending_op s of
            Some (PoRebootBootsel _) \<Rightarrow> (reply, s\<lparr> us_pending_op := None \<rparr>, out, fl2, True)
          | _ \<Rightarrow> (reply, s, out, fl2, False)))"
    using e t k unfolding finish_line_def Let_def by (cases h) (simp split: if_splits)
  have s3: "us_staged s3 = None" using fr(3) t by (auto simp: storage_failure_def answered_def split: if_splits)
  consider (inline) n where "oc3 = Inline n" "replies rid n out3" "us_staged_reply s3 = None"
      "us_pending_op s3 = None \<or> us_pending_op s3 = Some (PoRebootBootsel rid)"
    | (owed) j r where "oc3 = NeedsCommit j" "length out3 = REPLY_LEN" "us_pending_op s3 = None"
        "us_staged_reply s3 = Some r" "owed_id r = rid" "owed_ok r"
    | (reboot) "oc3 = NeedsRebootBootsel" "length out3 = REPLY_LEN" "us_staged_reply s3 = None"
        "us_pending_op s3 = Some (PoRebootBootsel rid)"
  proof (cases ok)
    case True
    then show thesis
      using that d t fr(2) fr(4) by (cases oc1) (auto simp: c line_done_def)
  next
    case False
    then have x: "us_reply_id s1 = rid" using fr(5) sid d by (cases oc1) (auto simp: c line_done_def)
    obtain n where n: "fst (reply_err rid ''STORAGE_FAULT'' out1) = Inline n" "replies rid n (snd (reply_err rid ''STORAGE_FAULT'' out1))"
      using reply_err_replies [of "''STORAGE_FAULT''" out1 rid] l by auto
    have "oc3 = Inline n" "out3 = snd (reply_err rid ''STORAGE_FAULT'' out1)" "us_staged_reply s3 = None"
      "us_pending_op s3 = us_pending_op s1"
      using t False x fr(1,2) n(1) by (auto simp: storage_failure_def answered_def)
    moreover have "us_pending_op s1 = None \<or> us_pending_op s1 = Some (PoRebootBootsel rid)"
      using d by (cases oc1) (auto simp: c line_done_def)
    ultimately show thesis using that(1) n(2) by simp
  qed
  then show ?thesis
  proof cases
    case inline
    moreover have "length out3 = REPLY_LEN" using inline(2) by (simp add: replies_def)
    ultimately show ?thesis using f s3 unfolding F
      by (auto simp: idle_def replies_good Let_def)
  next
    case owed
    obtain n s4 out4 where cr: "commit_reply False s3 out3 = (Some n, s4, out4)" "replies rid n out4"
      "us_staged_reply s4 = None"
      using commit_reply_replies [OF owed(4,6,2), of False] owed(5) by metis
    moreover have "length out4 = REPLY_LEN" using cr(2) by (simp add: replies_def)
    ultimately show ?thesis using f s3 owed(3) commit_reply_frame [OF cr(1)] unfolding F owed(1)
      by (auto simp: idle_def replies_good Let_def)
  next
    case reboot
    obtain n out4 where rr: "reply_rebooting s3 out3 = (Some n, out4)" "replies rid n out4"
      using rebooting_reply [OF reboot(4,2)] by blast
    moreover have "length out4 = REPLY_LEN" using rr(2) by (simp add: replies_def)
    ultimately show ?thesis using f s3 reboot unfolding F
      by (auto simp: idle_def replies_good Let_def)
  qed
qed

text \<open>What the loop does for one byte: nothing but remember it, or finish the line it completes.\<close>

lemma too_long_replies:
  assumes "length out = REPLY_LEN"
  shows "\<exists>n out'. reply_line_too_long out = (Some n, out') \<and> replies 0 n out'"
proof -
  let ?t = "ascii ''{\"id\":0,\"ok\":false,\"error\":\"LINE_TOO_LONG\"}''"
  have v: "?t = json_text (error_reply 0 ''LINE_TOO_LONG'')" "is_reply 0 (error_reply 0 ''LINE_TOO_LONG'')"
    by (simp_all add: is_reply_def error_codes_def error_reply_def text_simps digits.simps [of 0])
  have "reply_line_too_long out = (Some (length ?t), put_at 0 ?t out)"
    using assms by (simp add: reply_line_too_long_def jraw_def JsonWriter_new_def REPLY_LEN_def Let_def del: ascii_simps)
  moreover have "replies 0 (length ?t) (put_at 0 ?t out)"
    unfolding replies_def
    by (intro conjI exI [of _ "error_reply 0 ''LINE_TOO_LONG''"], unfold v(1) [symmetric])
      (use assms v(2) in \<open>simp_all add: REPLY_LEN_def put_at_def del: ascii_simps\<close>)
  ultimately show ?thesis by blast
qed

definition wanted_reply :: "json_core \<Rightarrow> line_event option \<Rightarrow> u64 option" where
  "wanted_reply J ev =
     (case ev of None \<Rightarrow> None | Some (Line []) \<Rightarrow> None | Some ev \<Rightarrow> Some (line_id J ev))"

definition meets :: "u64 option \<Rightarrow> bytes option \<Rightarrow> bool" where
  "meets want reply \<longleftrightarrow>
     (case want of None \<Rightarrow> reply = None | Some rid \<Rightarrow> (\<exists>r. reply = Some r \<and> good_reply rid r))"

lemma finish_silent:
  assumes "idle s out" and "finish_line C m (Silent, s, out) fl = (reply, s', out', fl', reboot)"
  shows "reply = None \<and> idle s' out'"
  using assms by (auto simp: finish_line_def idle_def commit_staged_def Let_def)

lemma serve_replies:
  assumes i: "idle (bd_usb bd) (bd_out bd)" and m: "moment_ok C m"
    and r: "record_sizes C (set_mono_s (us_engine (bd_usb bd)) (mo_now m))"
    and s: "serve_byte C J bd m b = (reply, bd', reboot)"
  shows "meets (wanted_reply J (fst (LineBuffer_push (bd_lines bd) b))) reply \<and>
    idle (bd_usb bd') (bd_out bd') \<and> bd_lines bd' = snd (LineBuffer_push (bd_lines bd) b)"
proof -
  let ?s = "(bd_usb bd)\<lparr> us_engine := set_mono_s (us_engine (bd_usb bd)) (mo_now m) \<rparr>"
  obtain ev lines where l: "LineBuffer_push (bd_lines bd) b = (ev, lines)" by (cases "LineBuffer_push (bd_lines bd) b")
  have idl: "idle ?s (bd_out bd)" using i by (simp add: idle_def)
  have rs: "record_sizes C (us_engine ?s)" using r by simp
  have fin: "meets (Some rid) reply \<and> idle (bd_usb bd') (bd_out bd') \<and> bd_lines bd' = lines"
    if d: "line_done rid (completed_line C m (oc, s1, out1))"
      and p: "pump_byte C J False ?s (bd_lines bd) b (bd_out bd) PARSE_SCRATCH_LEN = (Some oc, s1, lines, out1)"
    for rid oc s1 out1
  proof -
    obtain rep s2 out2 fl2 rb where f: "finish_line C m (oc, s1, out1) (bd_flash bd) = (rep, s2, out2, fl2, rb)"
      by (metis prod_cases5)
    then show ?thesis using finish_line_replies [OF d f] s p
      by (auto simp: serve_byte_def Let_def meets_def)
  qed
  show ?thesis
  proof (cases ev)
    case None
    then show ?thesis using s i by (auto simp: serve_byte_def pump_byte_def l Let_def wanted_reply_def meets_def idle_def)
  next
    case (Some e)
    show ?thesis
    proof (cases e)
      case (Line line)
      obtain oc s1 out1 where d: "dispatch_line C J False ?s line PARSE_SCRATCH_LEN (bd_out bd) = (oc, s1, out1)"
        by (metis prod_cases3)
      have p: "pump_byte C J False ?s (bd_lines bd) b (bd_out bd) PARSE_SCRATCH_LEN = (Some oc, s1, lines, out1)"
        by (simp add: pump_byte_def l Some Line d)
      show ?thesis
      proof (cases "line = []")
        case True
        with d have d': "oc = Silent" "s1 = ?s" "out1 = bd_out bd" by (simp_all add: dispatch_line_def)
        obtain rep s2 out2 fl2 rb where f: "finish_line C m (Silent, ?s, bd_out bd) (bd_flash bd) = (rep, s2, out2, fl2, rb)"
          by (metis prod_cases5)
        from finish_silent [OF idl f] s p f d' show ?thesis
          by (auto simp: serve_byte_def Let_def l Some Line True wanted_reply_def meets_def)
      next
        case False
        from dispatch_line_done [OF m rs _ _ _ _ False, of "bd_out bd" J] idl
        have "line_done (line_id J (Line line)) (completed_line C m (oc, s1, out1))"
          by (simp add: d idle_def)
        from fin [OF this p] show ?thesis
          using False by (cases line) (simp_all add: l Some Line wanted_reply_def)
      qed
    next
      case TooLong
      obtain n out' where t: "reply_line_too_long (bd_out bd) = (Some n, out')" "replies 0 n out'"
        using too_long_replies [of "bd_out bd"] i by (auto simp: idle_def)
      have p: "pump_byte C J False ?s (bd_lines bd) b (bd_out bd) PARSE_SCRATCH_LEN = (Some (Inline n), ?s, lines, out')"
        by (simp add: pump_byte_def l Some TooLong t)
      have "line_done 0 (completed_line C m (Inline n, ?s, out'))"
        using t(2) idl by (simp add: completed_line_def line_done_def idle_def replies_def)
      from fin [OF this p] show ?thesis by (simp add: l Some TooLong wanted_reply_def line_id_def)
    qed
  qed
qed

end
