(* ===== verification/Usb_Stream.thy ===== *)
theory Usb_Stream
  imports Usb_Serve Engine_Handshake
begin

text \<open>
  The radio-free main loop over a whole stream of bytes: every command line that completes is
  answered once, in order, under its own id. The state invariant that carries this: the records
  kept in an open pairing attempt have their array lengths.
\<close>

section \<open>The arrays of an open attempt\<close>

definition attempt_typed :: "engine \<Rightarrow> bool" where
  "attempt_typed e \<longleftrightarrow>
     (\<forall>p. en_pending e = Some p \<longrightarrow>
        length (pp_own_offer p) = OFFER_PAYLOAD_LEN \<and>
        (\<forall>t. pp_transcript p = Some t \<longrightarrow> length t = T_LEN) \<and>
        (\<forall>r. pp_own_proof p = Some r \<longrightarrow> length r = PROOF_RECORD_LEN) \<and>
        (\<forall>r. pp_own_confirm p = Some r \<longrightarrow> length r = CONFIRM_RECORD_LEN))"

lemma attempt_typed_cong: "en_pending e' = en_pending e \<or> en_pending e' = None \<Longrightarrow> attempt_typed e \<Longrightarrow> attempt_typed e'"
  by (auto simp: attempt_typed_def)

lemma sealed_length:
  assumes "aead_lengths C" and "encrypt_data C k n a p out = (Inr m, ct)"
  shows "length ct = length out"
  using assms
  by (auto simp: encrypt_data_def aead_lengths_def TAG_LEN_def Let_def split: if_splits option.splits)

lemma encoded_proof_length:
  assumes "encode_proof p (replicate PROOF_RECORD_LEN 0) = (Inr n, rec)"
    and "length (pf_t p) = T_LEN" and "length (pf_ct p) = PROOF_CT_LEN" and "length (pf_sig p) = 64"
  shows "length rec = PROOF_RECORD_LEN"
  using assms by (auto simp: encode_proof_def Let_def consts_defs split: if_splits)

lemma encoded_confirmation_length:
  assumes "encode_confirmation c (replicate CONFIRM_RECORD_LEN 0) = (Inr n, rec)"
    and "length (cf_t c) = T_LEN" and "length (cf_mac c) = 32"
  shows "length rec = CONFIRM_RECORD_LEN"
  using assms by (auto simp: encode_confirmation_def Let_def consts_defs split: if_splits)

lemma own_proof_length:
  assumes C: "crypto_sizes C" and t: "length t = T_LEN" and r: "own_proof_record C e t role = Inr r"
  shows "length r = PROOF_RECORD_LEN"
proof -
  obtain a b where k: "setup_keys C e t role = Inr (a, b)" using r by (auto simp: own_proof_record_def)
  obtain x ct where c: "encrypt_data C (if role = ROLE_L then a else b) (replicate 12 0) (proof_aad t role) (en_uid e)
      (replicate PROOF_CT_LEN 0) = (x, ct)" by fastforce
  obtain n where x: "x = Inr n" using r by (cases x) (simp_all add: own_proof_record_def k c Let_def split: if_splits)
  let ?p = "\<lparr> pf_t = t, pf_role = role, pf_ct = ct, pf_sig = k_ed_sign C (en_sign_priv e) (proof_message t role ct) \<rparr>"
  obtain y rec where p: "encode_proof ?p (replicate PROOF_RECORD_LEN 0) = (y, rec)" by fastforce
  obtain n' where y: "y = Inr n'" and rec: "r = rec"
    using r by (cases y) (simp_all add: own_proof_record_def k c x p Let_def split: if_splits)
  have "length ct = PROOF_CT_LEN" using C sealed_length [OF _ c [unfolded x]] by (simp add: crypto_sizes_def)
  with p y rec t C encoded_proof_length [of ?p n' rec] show ?thesis by (simp add: crypto_sizes_def)
qed

lemma own_confirm_length:
  assumes C: "crypto_sizes C" and t: "length t = T_LEN" and r: "own_confirm_record C e p t role = Inr r"
  shows "length r = CONFIRM_RECORD_LEN"
proof -
  obtain own peer root where k: "pp_own_proof p = Some own" "pp_peer_proof p = Some peer" "pair_root C e t = Inr root"
    using r by (auto simp: own_confirm_record_def Let_def)
  let ?c = "\<lparr> cf_t = t, cf_role = role, cf_mac = confirm_mac C root t role (proofs_digest C role own peer) \<rparr>"
  obtain y rec where enc: "encode_confirmation ?c (replicate CONFIRM_RECORD_LEN 0) = (y, rec)"
    by (cases "encode_confirmation ?c (replicate CONFIRM_RECORD_LEN 0)")
  have "own_confirm_record C e p t role = (case y of Inl _ \<Rightarrow> Inl BadRequest | Inr _ \<Rightarrow> Inr rec)"
    by (simp only: own_confirm_record_def k ok_or.simps rbind.simps Let_def enc) (simp split: sum.split)
  with r obtain n' where y: "y = Inr n'" and rec: "r = rec" by (cases y) auto
  have "length (cf_mac ?c) = 32"
    using C unfolding crypto_sizes_def hash_lengths_def confirm_mac_def confirmation.select_convs by blast
  from encoded_confirmation_length [OF enc [unfolded y] _ this] t show ?thesis by (simp add: rec)
qed

lemma offer_record_length: "length payload = OFFER_PAYLOAD_LEN \<Longrightarrow> length (offer_record_of payload) = OFFER_RECORD_LEN"
  by (simp add: offer_record_of_def consts_defs)

lemma fresh_payload_length:
  assumes "crypto_sizes C" and "length x = 32" and "length c = 32" and "pair_offer_payload C e x c = Inr (payload, slot)"
  shows "length payload = OFFER_PAYLOAD_LEN"
  using assms
  by (auto simp: pair_offer_payload_def ed_pubkey_def encode_offer_payload_def crypto_sizes_def consts_defs Let_def
      split: if_splits prod.splits sum.splits)

lemma open_attempt_typed:
  "attempt_typed e \<Longrightarrow> open_attempt e = Inr (p, t, role) \<Longrightarrow> length t = T_LEN"
  by (auto simp: open_attempt_def attempt_typed_def split: if_splits)

section \<open>Every operation keeps them\<close>

lemma op_pending:
  "en_pending (set_mono_s e t) = en_pending e" "en_pending (set_radio_available e b) = en_pending e"
  "en_pending (set_identity e uid) = en_pending e" "en_pending (snd (provision e l k)) = en_pending e"
  "en_pending (snd (set_radio e b)) = en_pending e" "en_pending (snd (arm_next_boot e)) = en_pending e"
  "en_pending (snd (consume_boot_arm e)) = en_pending e" "en_pending (snd (send_begin e cid t' pid)) = en_pending e"
  "en_pending (send_complete e b) = en_pending e" "en_pending (note_origin C e f now) = en_pending e"
  by (auto simp: set_mono_s_def set_radio_available_def set_identity_def provision_def set_radio_def
      arm_next_boot_def consume_boot_arm_def send_begin_def send_complete_def note_origin_def Let_def
      split: sum.split prod.split option.split)

lemma contact_op_pending:
  "en_pending (snd (set_time_confirmed e t b)) = en_pending e"
  "en_pending (snd (delete_contact e cid)) = en_pending e"
  "en_pending (snd (set_blocked e cid b)) = en_pending e"
  by (auto simp: set_time_confirmed_def delete_contact_def set_blocked_def Let_def
      split: sum.split prod.split option.split)

lemma advance_pending: "en_pending (snd (advance_time e now)) = en_pending e"
proof -
  have "en_pending e2 = en_pending e1" if "set_time e1 t = (r, e2)" for e1 e2 t r
    using contact_op_pending(1) [of e1 t False] that by (simp add: set_time_def)
  then show ?thesis
    by (auto simp: advance_time_def Let_def split: sum.split prod.split option.split)
qed

lemma pair_typed:
  assumes C: "crypto_sizes C" and a: "attempt_typed e"
  shows "attempt_typed (snd (pair_proof C e))" "attempt_typed (snd (pair_confirm C e))"
    "length y = 32 \<Longrightarrow> length z = 32 \<Longrightarrow> attempt_typed (snd (pair_offer C e x y z))"
    "attempt_typed (pair_cancel e)"
    "attempt_typed (snd (pair_import_sas C e rec replace sas))"
proof -
  show "attempt_typed (snd (pair_proof C e))"
  proof (cases "open_attempt e")
    case (Inr x)
    obtain p t role where x: "x = (p, t, role)" by (cases x)
    have p: "en_pending e = Some p" using Inr by (auto simp: x open_attempt_def split: if_splits)
    show ?thesis using a p own_proof_length [OF C open_attempt_typed [OF a Inr [unfolded x]]]
      by (auto simp: pair_proof_def Inr x attempt_typed_def rbind_Inl split: sum.split option.split)
  qed (use a in \<open>auto simp: pair_proof_def split: sum.split\<close>)
  show "attempt_typed (snd (pair_confirm C e))"
  proof (cases "open_attempt e")
    case (Inr x)
    obtain p t role where x: "x = (p, t, role)" by (cases x)
    have p: "en_pending e = Some p" using Inr by (auto simp: x open_attempt_def split: if_splits)
    show ?thesis using a p own_confirm_length [OF C open_attempt_typed [OF a Inr [unfolded x]]]
      by (auto simp: pair_confirm_def Inr x attempt_typed_def split: sum.split option.split)
  qed (use a in \<open>auto simp: pair_confirm_def split: sum.split\<close>)
  show "attempt_typed (snd (pair_offer C e x y z))" if "length y = 32" "length z = 32"
    using a fresh_payload_length [OF C that] by (auto simp: pair_offer_def pair_offer_fresh_def attempt_typed_def split: sum.split option.split prod.split)
  show "attempt_typed (pair_cancel e)" by (simp add: attempt_typed_def pair_cancel_def)
  have "attempt_typed (snd (import_offer C e rec replace))"
  proof (cases "import_offer_check C e rec replace")
    case (Inr x)
    obtain q t where x: "x = (q, t)" by (cases x)
    obtain p and own o1 :: offer where p: "en_pending e = Some p"
      and tr: "\<exists>l r. t = transcript_t C l r"
      and q: "q = p\<lparr> pp_peer_offer := Some (offer_payload_bytes o1), pp_transcript := Some t,
                pp_own_role := role_for (o_ed_pub own) (o_ed_pub o1), pp_slot := pp_slot q, pp_replace := replace \<rparr>"
    proof (rule import_offer_check_Inr [OF Inr [unfolded x]])
      fix p and own o1 :: offer
      assume a: "en_pending e = Some p"
        "t = (if o_ed_pub own \<le> o_ed_pub o1 then transcript_t C (pp_own_offer p) (offer_payload_bytes o1)
          else transcript_t C (offer_payload_bytes o1) (pp_own_offer p))"
        "q = p\<lparr> pp_peer_offer := Some (offer_payload_bytes o1), pp_transcript := Some t,
          pp_own_role := role_for (o_ed_pub own) (o_ed_pub o1), pp_slot := pp_slot q, pp_replace := replace \<rparr>"
      have "\<exists>l r. t = transcript_t C l r" by (cases "o_ed_pub own \<le> o_ed_pub o1") (use a(2) in auto)
      from that [OF a(1) this a(3)] show thesis .
    qed
    have "length t = T_LEN" using tr C unfolding transcript_t_def crypto_sizes_def hash_lengths_def T_LEN_def by blast
    then have "attempt_typed (e\<lparr> en_pending := Some q \<rparr>)" using a p by (subst q) (simp add: attempt_typed_def)
    then show ?thesis by (simp add: import_offer_def Inr x)
  qed (use a in \<open>simp add: import_offer_def\<close>)
  moreover have "attempt_typed (snd (import_proof C e rec))"
    using a by (auto simp: import_proof_def import_proof_check_def attempt_typed_def Let_def split: sum.split prod.split if_splits)
  moreover have "attempt_typed (snd (import_confirm C e rec))"
    using a by (auto simp: import_confirm_def attempt_typed_def activate_contact_def Let_def split: sum.split prod.split)
  ultimately show "attempt_typed (snd (pair_import_sas C e rec replace sas))"
    using a by (auto simp: pair_import_sas_def split: sum.split)
qed

lemma ack_pending: "build_ack C e slot h pid = (ack, e') \<Longrightarrow> en_pending e' = en_pending e"
  by (auto simp: build_ack_def ack_stage_def Let_def split: if_splits option.splits sum.splits prod.splits)

lemma transit_pending: "en_pending (snd (transit C e frame h now)) = en_pending e"
  by (simp add: transit_def Let_def split: prod.split observe.split sum.split)

lemma rx_pending:
  "en_pending (snd (rx_data C e slot w h text pid)) = en_pending e" "en_pending (snd (rx_ack e slot h pt)) = en_pending e"
  by (auto simp: rx_data_def rx_ack_def bump_replay_drops_def Let_def dest: ack_pending
      split: prod.split option.split verdict.split)

lemma slot_pending: "on_frame_slot C e h body pid slot = (r, e') \<Longrightarrow> en_pending e' = en_pending e"
  unfolding on_frame_slot_def Let_def
  by (auto split: if_splits option.splits sum.splits prod.splits
      dest!: arg_cong [where f = "\<lambda>x. en_pending (snd x)"] simp: rx_pending)

lemma slots_pending: "on_frame_slots C h body pid slots failed e = (r, e') \<Longrightarrow> en_pending e' = en_pending e"
proof (induction slots arbitrary: failed e)
  case (Cons a slots)
  then show ?case by (auto split: prod.splits slot_outcome.splits dest!: slot_pending)
qed simp

lemma frame_pending: "en_pending (snd (on_frame C e frame now pid)) = en_pending e"
  by (auto simp: on_frame_def Let_def transit_pending split: sum.split prod.split option.split dest!: slots_pending)

lemma emit_pending: "en_pending (snd (send_emit C e)) = en_pending e"
  by (auto simp: send_emit_def Let_def split: sum.split prod.split)

lemma run_op_typed:
  assumes "crypto_sizes C" and "attempt_typed e" and "op_valid e op"
  shows "attempt_typed (snd (run_op C op e))"
proof -
  have k: "attempt_typed e'" if "en_pending e' = en_pending e" for e'
    using attempt_typed_cong that assms(2) by blast
  show ?thesis
  proof (cases op)
    case OpSendEmit
    then show ?thesis using emit_pending [of C e] by (auto intro!: k split: prod.split sum.split)
  next
    case (OpFrame f now pid)
    then show ?thesis using frame_pending [of C e f now pid] by (auto intro!: k split: prod.split)
  qed (use assms in \<open>simp_all add: pair_typed k op_pending contact_op_pending advance_pending split: sum.split\<close>)
qed

lemma mono_typed: "attempt_typed (set_mono_s e t) \<longleftrightarrow> attempt_typed e"
  by (simp add: attempt_typed_def set_mono_s_def)

lemma commit_typed:
  assumes "commit_staged k s fl = (ok, s2, fl')" and "attempt_typed (us_engine s)"
  shows "attempt_typed (us_engine s2)"
proof -
  have "us_engine s2 \<in> {us_engine s, commit_ok (us_engine s), mark_fault (discard_staged (us_engine s))}"
    using assms by (auto simp: commit_staged_def Let_def split: option.splits staged_reply.splits prod.splits if_splits)
  moreover have "attempt_typed (commit_ok (us_engine s))"
    by (rule attempt_typed_cong [OF _ assms(2)]) (auto simp: commit_ok_def Let_def split: option.split staged_commit.split)
  moreover have "attempt_typed (mark_fault (discard_staged (us_engine s)))"
    by (rule attempt_typed_cong [OF _ assms(2)]) (simp add: mark_fault_def discard_staged_def)
  ultimately show ?thesis using assms(2) by auto
qed

lemma typed_records:
  assumes C: "crypto_sizes C" and a: "attempt_typed e"
  shows "record_sizes C e"
  unfolding record_sizes_def
proof (intro conjI allI impI)
  fix r assume "fst (pair_proof C e) = Inr r"
  then show "length r = PROOF_RECORD_LEN"
    using a own_proof_length [OF C open_attempt_typed [OF a]]
    by (auto simp: pair_proof_def attempt_typed_def open_attempt_def split: sum.splits option.splits if_splits)
next
  fix r assume "fst (pair_confirm C e) = Inr r"
  then show "length r = CONFIRM_RECORD_LEN"
    using a own_confirm_length [OF C open_attempt_typed [OF a]]
    by (auto simp: pair_confirm_def attempt_typed_def open_attempt_def split: sum.splits option.splits if_splits)
next
  fix k x c r assume l: "length x = 32" "length c = 32" and r: "fst (pair_offer C e k x c) = Inr r"
  have f: "length r = OFFER_RECORD_LEN" if "fst (pair_offer_fresh C e k x c) = Inr r" for r
    using that fresh_payload_length [OF C l] offer_record_length
    by (auto simp: pair_offer_fresh_def split: sum.splits)
  show "length r = OFFER_RECORD_LEN"
    using r f a offer_record_length
    by (auto simp: pair_offer_def attempt_typed_def split: sum.splits option.splits if_splits)
qed

section \<open>The board between two bytes\<close>

text \<open>Nothing half done, and every stored record has its length.\<close>

definition serving :: "board \<Rightarrow> bool" where
  "serving bd \<longleftrightarrow> idle (bd_usb bd) (bd_out bd) \<and> attempt_typed (us_engine (bd_usb bd))"

lemma serving_records:
  "crypto_sizes C \<Longrightarrow> serving bd \<Longrightarrow> record_sizes C (set_mono_s (us_engine (bd_usb bd)) t)"
  by (rule typed_records) (simp_all add: serving_def mono_typed)

lemma serve_keeps:
  assumes C: "crypto_sizes C" and m: "moment_ok C m" and sv: "serving bd"
    and b: "serve_byte C J bd m x = (reply, bd', reboot)"
  shows "serving bd'"
proof -
  define s where "s = (bd_usb bd)\<lparr> us_engine := set_mono_s (us_engine (bd_usb bd)) (mo_now m) \<rparr>"
  have i: "idle (bd_usb bd) (bd_out bd)" using sv by (simp add: serving_def)
  then have none: "us_staged (bd_usb bd) = None" by (simp add: idle_def)
  have ty: "attempt_typed (us_engine s)" using sv by (simp add: serving_def s_def mono_typed)
  have "attempt_typed (us_engine (bd_usb bd'))"
  proof (rule serve_state [OF m b none, folded s_def])
    fix opt s1 ok
    assume p: "performs C opt s s1" "valid_ops (us_engine s) opt"
      and c: "\<exists>s2. commit_staged (mo_luck m) s1 (bd_flash bd) = (ok, s2, bd_flash bd') \<and>
        us_engine (bd_usb bd') = us_engine s2 \<and> us_health (bd_usb bd') = us_health s2 \<and>
        us_staged (bd_usb bd') = us_staged s2"
    have "attempt_typed (us_engine s1)"
      using p ty run_op_typed [OF C ty]
      by (cases opt) (auto simp: performs_def untouched_def ran_def valid_ops_def)
    with c commit_typed show ?thesis by auto
  qed (use ty in \<open>simp add: untouched_def\<close>)
  with serve_replies [OF i m serving_records [OF C sv] b] show ?thesis by (simp add: serving_def)
qed

section \<open>A stream of bytes\<close>

text \<open>The loop until its input ends or the board restarts: the replies in order, and whether it
  restarted.\<close>

primrec serve_stream ::
  "crypto \<Rightarrow> json_core \<Rightarrow> board \<Rightarrow> (moment \<times> u8) list \<Rightarrow> bytes list \<times> board \<times> bool" where
  "serve_stream C J bd [] = ([], bd, False)"
| "serve_stream C J bd (x # xs) =
     (let (reply, bd, reboot) = serve_byte C J bd (fst x) (snd x);
          first = (case reply of Some r \<Rightarrow> [r] | None \<Rightarrow> []) in
      if reboot then (first, bd, True)
      else let (rs, bd, reboot) = serve_stream C J bd xs in (first @ rs, bd, reboot))"

definition wanted :: "json_core \<Rightarrow> line_event list \<Rightarrow> u64 list" where
  "wanted J evs = map (line_id J) (filter (\<lambda>ev. ev \<noteq> Line []) evs)"

lemma wanted_Cons: "wanted J (ev # evs) = (case wanted_reply J (Some ev) of None \<Rightarrow> [] | Some rid \<Rightarrow> [rid]) @ wanted J evs"
  by (auto simp: wanted_def wanted_reply_def split: line_event.split list.split)

lemma stream_replies:
  assumes C: "crypto_sizes C" and "serving bd" and "\<And>m b. (m, b) \<in> set xs \<Longrightarrow> moment_ok C m"
    and "serve_stream C J bd xs = (rs, bd', reboot)"
  shows "list_all2 good_reply (take (length rs) (wanted J (fst (line_feed (bd_lines bd) (map snd xs))))) rs \<and>
    (\<not> reboot \<longrightarrow> length rs = length (wanted J (fst (line_feed (bd_lines bd) (map snd xs))))) \<and> serving bd'"
  using assms(2-)
proof (induction xs arbitrary: bd rs)
  case (Cons x xs)
  obtain m b where x: "x = (m, b)" by (cases x)
  obtain reply bd1 rb where s: "serve_byte C J bd m b = (reply, bd1, rb)" by (metis prod_cases3)
  obtain ev l where l: "LineBuffer_push (bd_lines bd) b = (ev, l)" by (cases "LineBuffer_push (bd_lines bd) b")
  have m: "moment_ok C m" using Cons.prems(2) x by auto
  have i: "idle (bd_usb bd) (bd_out bd)" using Cons.prems(1) by (simp add: serving_def)
  have r: "meets (wanted_reply J ev) reply" "bd_lines bd1 = l"
    using serve_replies [OF i m serving_records [OF C Cons.prems(1)] s] l by simp_all
  have sv: "serving bd1" by (rule serve_keeps [OF C m Cons.prems(1) s])
  define evs where "evs = fst (line_feed l (map snd xs))"
  have evs: "fst (line_feed (bd_lines bd) (map snd (x # xs))) = (case ev of Some e \<Rightarrow> e # evs | None \<Rightarrow> evs)"
    by (cases ev) (simp_all add: x l evs_def split_def Let_def)
  define first where "first = (case reply of Some r \<Rightarrow> [r] | None \<Rightarrow> [])"
  define ids where "ids = (case wanted_reply J ev of None \<Rightarrow> [] | Some rid \<Rightarrow> [rid])"
  have w: "wanted J (fst (line_feed (bd_lines bd) (map snd (x # xs)))) = ids @ wanted J evs"
    unfolding evs ids_def by (cases ev) (simp_all add: wanted_Cons wanted_reply_def)
  have f: "list_all2 good_reply ids first"
    using r(1) by (auto simp: meets_def ids_def first_def split: option.splits)
  then have lf: "length first = length ids" by (simp add: list_all2_lengthD)
  show ?case
  proof (cases rb)
    case True
    then have "rs = first" "reboot" "bd' = bd1" using Cons.prems(3) by (simp_all add: x s first_def Let_def)
    then show ?thesis unfolding w using f lf sv by simp
  next
    case False
    obtain rs1 bd2 rb2 where t: "serve_stream C J bd1 xs = (rs1, bd2, rb2)" by (metis prod_cases3)
    have e: "rs = first @ rs1" "bd2 = bd'" "rb2 = reboot"
      using Cons.prems(3) False by (simp_all add: x s t first_def Let_def)
    have "\<And>m b. (m, b) \<in> set xs \<Longrightarrow> moment_ok C m" using Cons.prems(2) by auto
    from Cons.IH [OF sv this t [unfolded e]]
    show ?thesis unfolding w e(1) using f lf by (auto simp: r(2) evs_def intro: list_all2_appendI)
  qed
qed (simp add: wanted_def)

section \<open>From power on\<close>

definition board_of :: "usb_state \<Rightarrow> flash \<Rightarrow> board" where
  "board_of s fl = \<lparr> bd_usb = s, bd_lines = LineBuffer_new, bd_out = replicate REPLY_LEN 0, bd_flash = fl \<rparr>"

text \<open>Whatever is in the flash and whichever reads fail, the boot reaches the loop, with nothing
  half done.\<close>

lemma restore_typed: "attempt_typed e \<Longrightarrow> attempt_typed (snd (restore C e b))"
  by (auto simp: restore_def attempt_typed_def split: sum.split)

lemma recv_node_typed:
  assumes "attempt_typed e" and "r = RespFault \<or> r = RespEmpty \<or> (\<exists>b. r = RespLoaded b)"
  shows "\<exists>e' h. recv_node C e (r # rs) = Some ((e', h), rs) \<and> attempt_typed e'"
  using assms(2)
proof (elim disjE exE)
  fix b assume r: "r = RespLoaded b"
  then show ?thesis using restore_typed [OF assms(1), of C b]
    by (cases "restore C e b"; cases "fst (restore C e b)") auto
qed (use assms(1) in auto)

lemma load_responses:
  "\<exists>r0 b1 b2. fst (storage_service k ReqLoad fl) = [r0, RespSettingsLoaded b1, RespWifiLoaded b2] \<and>
     (r0 = RespFault \<or> r0 = RespEmpty \<or> (\<exists>b. r0 = RespLoaded b))"
  by (simp add: storage_service_def split: sum.split option.split)

lemma boot_serves:
  "\<exists>s. main_boot C False uid v av (fst (storage_service k ReqLoad fl)) = Some s \<and> serving (board_of s fl)"
proof -
  let ?rs = "fst (storage_service k ReqLoad fl)"
  obtain r0 b1 b2 where rs: "?rs = [r0, RespSettingsLoaded b1, RespWifiLoaded b2]"
    and r0: "r0 = RespFault \<or> r0 = RespEmpty \<or> (\<exists>b. r0 = RespLoaded b)"
    using load_responses [of k fl] by blast
  have "attempt_typed (Engine_new False)" by (simp add: attempt_typed_def Engine_new_def)
  from recv_node_typed [OF this r0] obtain e h where
    n: "recv_node C (Engine_new False) ?rs = Some ((e, h), [RespSettingsLoaded b1, RespWifiLoaded b2])" and e: "attempt_typed e"
    unfolding rs by blast
  have "attempt_typed (set_identity e uid)" using attempt_typed_cong op_pending(3) e by blast
  then show ?thesis unfolding main_boot_def n
    by (simp add: Let_def serving_def idle_def board_of_def UsbState_new_def del: recv_node.simps)
qed


text \<open>C8: The board keeps its type. The boot reaches the loop, and after every stream of bytes nothing is
  half done: no snapshot waits for the storage, no reply is owed, no operation is parked, the reply
  buffer has the size of a record, and a pairing attempt holds its offer, transcript, proof and
  confirmation at exactly their lengths, so none of the copies into fixed arrays can panic.\<close>

theorem board_stays_typed:
  assumes "crypto_sizes C" and "\<forall>x \<in> set xs. moment_ok C (fst x)"
  shows "\<exists>s rs bd reboot.
    main_boot C False uid v av (fst (storage_service k ReqLoad fl)) = Some s \<and>
    serve_stream C J (board_of s fl) xs = (rs, bd, reboot) \<and>
    us_staged (bd_usb bd) = None \<and> us_staged_reply (bd_usb bd) = None \<and> us_pending_op (bd_usb bd) = None \<and>
    length (bd_out bd) = REPLY_LEN \<and>
    (\<forall>p. en_pending (us_engine (bd_usb bd)) = Some p \<longrightarrow>
       length (pp_own_offer p) = OFFER_PAYLOAD_LEN \<and>
       (\<forall>t. pp_transcript p = Some t \<longrightarrow> length t = T_LEN) \<and>
       (\<forall>r. pp_own_proof p = Some r \<longrightarrow> length r = PROOF_RECORD_LEN) \<and>
       (\<forall>r. pp_own_confirm p = Some r \<longrightarrow> length r = CONFIRM_RECORD_LEN))"
proof -
  obtain s where s: "main_boot C False uid v av (fst (storage_service k ReqLoad fl)) = Some s" "serving (board_of s fl)"
    using boot_serves by blast
  obtain rs bd reboot where t: "serve_stream C J (board_of s fl) xs = (rs, bd, reboot)" by (metis prod_cases3)
  have "\<And>m b. (m, b) \<in> set xs \<Longrightarrow> moment_ok C m" using assms(2) by fastforce
  with stream_replies [OF assms(1) s(2) _ t] have "serving bd" by blast
  with s(1) t show ?thesis by (auto simp: serving_def idle_def attempt_typed_def)
qed

text \<open>Two command lines, the second not even text, and one byte of a third.\<close>

definition no_parser :: json_core where
  "no_parser = \<lparr> jc_parse = (\<lambda>line k. None), jc_fragments = (\<lambda>line. []) \<rparr>"

definition calm :: moment where
  "calm = \<lparr> mo_now = 1, mo_key = replicate 32 0, mo_eph_priv = replicate 32 1,
     mo_challenge = replicate 32 0,
     mo_luck = \<lparr> fk_node = True, fk_settings = True, fk_wifi = True, fk_store = True, fk_landed = True \<rparr> \<rparr>"

definition blank_flash :: flash where
  "blank_flash = \<lparr> fl_node = None, fl_settings = None, fl_wifi = None \<rparr>"

lemma calm_ok: "moment_ok demo_crypto calm"
  by (simp add: moment_ok_def calm_def demo_crypto_def)


lemma board_stays_typed_witness:
  "\<exists>s rs bd reboot.
    main_boot demo_crypto False (replicate 8 7) None False (fst (storage_service (mo_luck calm) ReqLoad blank_flash)) = Some s \<and>
    serve_stream demo_crypto no_parser (board_of s blank_flash) [(calm, 0x41)] = (rs, bd, reboot) \<and> length (bd_out bd) = REPLY_LEN"
  using board_stays_typed [OF demo_crypto_sizes, of "[(calm, 0x41)]" "replicate 8 7" None False "mo_luck calm" blank_flash no_parser]
    calm_ok by auto

text \<open>The board of a blank device and the node at its start are in step, and stay so.\<close>

abbreviation blank_board :: board where
  "blank_board \<equiv> board_of (UsbState_new (Engine_new False) HealthUnprovisioned) blank_flash"

lemma blank_in_step: "in_step demo_crypto blank_board (node_start demo_crypto False)"
  using settled_new [of demo_crypto False]
  by (simp add: in_step_def board_of_def node_start_def boot_def blank_flash_def UsbState_new_def)

lemma blank_byte:
  "\<exists>r bd'. serve_byte demo_crypto no_parser blank_board calm 0x41 = (r, bd', False) \<and>
    en_contacts (us_engine (bd_usb bd')) = replicate MAX_CONTACTS Contact_empty"
  by (simp add: serve_byte_def pump_byte_def board_of_def LineBuffer_push_def LineBuffer_new_def LF_def CR_def
      MAX_LINE_LEN_def UsbState_new_def set_mono_s_def Engine_new_def Let_def)


end
