(* ===== verification/Radio_Policy.thy ===== *)
theory Radio_Policy
  imports Persist
begin

text \<open>
  The transmit gate of \<open>firmware/src/radio.rs\<close>: the policy cell the runtime writes and the radio
  task reads, and the tokens that authorise a transmission. Specification: a token is good exactly
  while the radio has stayed on, and its contact unblocked, ever since it was minted.
\<close>

unbundle bit_operations_syntax

section \<open>The policy cell\<close>

record tx_token =
  tk_all :: u32
  tk_contact_gen :: u32
  tk_contact :: "u8 option"

record policy =
  pl_enabled :: bool
  pl_blocked_mask :: u32
  pl_all_gen :: u32
  pl_contact_gen :: "u32 list"

definition POLICY_STATE :: policy where
  "POLICY_STATE = \<lparr> pl_enabled = False, pl_blocked_mask = 0, pl_all_gen = 0,
     pl_contact_gen = replicate MAX_CONTACTS 0 \<rparr>"

definition contact_idx :: "u8 \<Rightarrow> nat option" where
  "contact_idx contact =
     (if contact \<ge> 1 \<and> unat contact \<le> MAX_CONTACTS then Some (unat (contact - 1)) else None)"

definition tx_token :: "policy \<Rightarrow> u8 option \<Rightarrow> tx_token" where
  "tx_token p contact_id =
     \<lparr> tk_all = pl_all_gen p,
       tk_contact_gen =
         (case contact_id of
            Some c \<Rightarrow> (case contact_idx c of Some i \<Rightarrow> pl_contact_gen p ! i | None \<Rightarrow> 0)
          | None \<Rightarrow> 0),
       tk_contact = contact_id \<rparr>"

text \<open>The loop over the block bits, and the whole critical section.\<close>

function bump_loop :: "u32 \<Rightarrow> u32 \<Rightarrow> nat \<Rightarrow> u32 list \<Rightarrow> u32 list" where
  "bump_loop old new i gens =
     (if i < MAX_CONTACTS then
        bump_loop old new (i + 1)
          (if drop_bit i old AND 1 \<noteq> drop_bit i new AND 1 then gens[i := gens ! i + 1] else gens)
      else gens)"
  by pat_completeness auto
termination by (relation "measure (\<lambda>(_, _, i, _). MAX_CONTACTS - i)") auto

declare bump_loop.simps [simp del]

definition set_policy :: "policy \<Rightarrow> bool \<Rightarrow> u32 \<Rightarrow> policy" where
  "set_policy p enabled m =
     (let p = (if pl_enabled p \<noteq> enabled then p\<lparr> pl_all_gen := pl_all_gen p + 1 \<rparr> else p);
          p = p\<lparr> pl_contact_gen := bump_loop (pl_blocked_mask p) m 0 (pl_contact_gen p) \<rparr>
      in p\<lparr> pl_enabled := enabled, pl_blocked_mask := m \<rparr>)"

definition token_valid :: "policy \<Rightarrow> u8 option \<Rightarrow> tx_token \<Rightarrow> bool" where
  "token_valid p contact token =
     (if \<not> pl_enabled p then False
      else if tk_all token \<noteq> pl_all_gen p then False
      else if tk_contact token \<noteq> contact then False
      else
        case contact of
          None \<Rightarrow> True
        | Some c \<Rightarrow>
            (case contact_idx c of
               None \<Rightarrow> False
             | Some i \<Rightarrow>
                 if drop_bit i (pl_blocked_mask p) AND 1 = 1 then False
                 else if tk_contact_gen token \<noteq> pl_contact_gen p ! i then False
                 else True))"

section \<open>Generations count the changes\<close>

lemma bit_of_shift: "drop_bit i (m :: u32) AND 1 = 1 \<longleftrightarrow> bit m i"
  by (simp add: and_one_eq bit_iff_odd_drop_bit odd_iff_mod_2_eq_one)

lemma shift_differs: "drop_bit i (m :: u32) AND 1 \<noteq> drop_bit i n AND 1 \<longleftrightarrow> bit m i \<noteq> bit n i"
  by (auto simp: and_one_eq bit_iff_odd_drop_bit odd_iff_mod_2_eq_one even_iff_mod_2_eq_zero)

lemma length_bump [simp]: "length (bump_loop old new i gens) = length gens"
proof (induction old new i gens rule: bump_loop.induct)
  case (1 old new i gens)
  then show ?case by (subst bump_loop.simps) simp
qed

lemma nth_bump:
  "j < length gens \<Longrightarrow> j < MAX_CONTACTS \<Longrightarrow>
   bump_loop old new i gens ! j = gens ! j + (if i \<le> j \<and> bit old j \<noteq> bit new j then 1 else 0)"
proof (induction old new i gens rule: bump_loop.induct)
  case (1 old new i gens)
  show ?case
  proof (cases "i = j")
    case True
    with 1 show ?thesis by (subst bump_loop.simps) (auto simp: shift_differs nth_list_update)
  next
    case False
    then have "Suc i \<le> j \<longleftrightarrow> i \<le> j" by auto
    with 1 False show ?thesis by (subst bump_loop.simps) (auto simp: shift_differs nth_list_update)
  qed
qed

lemma contact_idx_lt: "contact_idx c = Some i \<Longrightarrow> i < MAX_CONTACTS"
  by (auto simp: contact_idx_def MAX_CONTACTS_def word_le_nat_alt unat_sub split: if_splits)

lemma set_policy_simps [simp]:
  "pl_enabled (set_policy p en m) = en" "pl_blocked_mask (set_policy p en m) = m"
  "pl_all_gen (set_policy p en m) = pl_all_gen p + (if pl_enabled p \<noteq> en then 1 else 0)"
  "length (pl_contact_gen (set_policy p en m)) = length (pl_contact_gen p)"
  by (simp_all add: set_policy_def Let_def)

lemma set_policy_gen:
  "length (pl_contact_gen p) = MAX_CONTACTS \<Longrightarrow> i < MAX_CONTACTS \<Longrightarrow>
   pl_contact_gen (set_policy p en m) ! i =
     pl_contact_gen p ! i + (if bit (pl_blocked_mask p) i \<noteq> bit m i then 1 else 0)"
  by (simp add: set_policy_def Let_def nth_bump)

text \<open>A history of policy writes, and the number of changes of one observable in it.\<close>

primrec write_all_policies :: "policy \<Rightarrow> (bool \<times> u32) list \<Rightarrow> policy list" where
  "write_all_policies p [] = [p]"
| "write_all_policies p (w # ws) = p # write_all_policies (set_policy p (fst w) (snd w)) ws"

fun changes :: "bool list \<Rightarrow> nat" where
  "changes (a # b # xs) = (if a \<noteq> b then 1 else 0) + changes (b # xs)"
| "changes _ = 0"

lemma policies_ne [simp]: "write_all_policies p ws \<noteq> []"
  by (cases ws) simp_all

lemma hd_policies [simp]: "hd (write_all_policies p ws) = p"
  by (cases ws) simp_all

lemma length_policies [simp]: "length (write_all_policies p ws) = Suc (length ws)"
  by (induction ws arbitrary: p) simp_all

lemma changes_bound: "changes xs \<le> length xs - 1"
  by (induction xs rule: changes.induct) auto

lemma changes_zero: "changes xs = 0 \<longleftrightarrow> (\<forall>x \<in> set xs. x = hd xs)"
  by (induction xs rule: changes.induct) auto

lemma changes_Cons: "changes (x # xs) = (if xs \<noteq> [] \<and> x \<noteq> hd xs then 1 else 0) + changes xs"
  by (cases xs) simp_all

lemma all_gen_counts:
  "pl_all_gen (last (write_all_policies p ws)) =
     pl_all_gen p + of_nat (changes (map pl_enabled (write_all_policies p ws)))"
  by (induction ws arbitrary: p) (simp_all add: changes_Cons hd_map)

lemma contact_gen_counts:
  assumes "length (pl_contact_gen p) = MAX_CONTACTS" and "i < MAX_CONTACTS"
  shows "pl_contact_gen (last (write_all_policies p ws)) ! i =
     pl_contact_gen p ! i + of_nat (changes (map (\<lambda>q. bit (pl_blocked_mask q) i) (write_all_policies p ws)))"
  using assms(1)
  by (induction ws arbitrary: p) (simp_all add: changes_Cons hd_map set_policy_gen assms(2))

lemma few_changes:
  assumes "length ws < 2 ^ 32"
  shows "of_nat (changes (map f (write_all_policies p ws))) = (0 :: u32) \<longleftrightarrow>
    (\<forall>q \<in> set (write_all_policies p ws). f q = f p)"
proof -
  have "changes (map f (write_all_policies p ws)) < 2 ^ 32"
    using changes_bound [of "map f (write_all_policies p ws)"] assms by simp
  then have "of_nat (changes (map f (write_all_policies p ws))) = (0 :: u32) \<longleftrightarrow>
      changes (map f (write_all_policies p ws)) = 0"
    using word_of_nat_eq_0_iff [where 'a = 32, of "changes (map f (write_all_policies p ws))"]
    by (auto dest!: dvd_imp_le)
  also have "\<dots> \<longleftrightarrow> (\<forall>q \<in> set (write_all_policies p ws). f q = f p)"
    by (simp add: changes_zero hd_map)
  finally show ?thesis .
qed

text \<open>C14: A transmit token is good exactly as long as it should be. After any number of policy
  writes (fewer than 2 to the 32) since it was minted, the gate accepts it if and only if at every
  moment since then the radio was enabled and, for a contact's token, that contact was a valid one
  and unblocked. So switching the radio off or blocking the contact revokes it for good: switching
  on or unblocking again does not bring it back; and nothing else ever revokes it.\<close>

theorem token_good_while_allowed:
  assumes "length ws < 2 ^ 32" and "length (pl_contact_gen p) = MAX_CONTACTS"
  shows "token_valid (last (write_all_policies p ws)) contact (tx_token p contact) \<longleftrightarrow>
    (\<forall>q \<in> set (write_all_policies p ws). pl_enabled q \<and>
       (case contact of
          None \<Rightarrow> True
        | Some c \<Rightarrow> (case contact_idx c of None \<Rightarrow> False | Some i \<Rightarrow> \<not> bit (pl_blocked_mask q) i)))"
proof -
  let ?qs = "write_all_policies p ws" and ?q = "last (write_all_policies p ws)"
  have q: "?q \<in> set ?qs" "p \<in> set ?qs" using policies_ne [of p ws] hd_policies [of p ws] by (metis last_in_set, metis hd_in_set)
  have all: "pl_enabled ?q \<and> tk_all (tx_token p contact) = pl_all_gen ?q \<longleftrightarrow> (\<forall>q \<in> set ?qs. pl_enabled q)"
  proof -
    have g: "tk_all (tx_token p contact) = pl_all_gen p" by (simp add: tx_token_def)
    have "tk_all (tx_token p contact) = pl_all_gen ?q \<longleftrightarrow> (\<forall>q \<in> set ?qs. pl_enabled q = pl_enabled p)"
      unfolding g all_gen_counts add_cancel_right_right by (rule few_changes [OF assms(1)])
    with q show ?thesis by blast
  qed
  show ?thesis
  proof (cases contact)
    case None
    then show ?thesis using all by (auto simp: token_valid_def) (simp_all add: tx_token_def)
  next
    case c: (Some c)
    show ?thesis
    proof (cases "contact_idx c")
      case None
      then show ?thesis using q by (auto simp: token_valid_def c)
    next
      case (Some i)
      note i = contact_idx_lt [OF Some]
      have gen: "\<not> bit (pl_blocked_mask ?q) i \<and> tk_contact_gen (tx_token p contact) = pl_contact_gen ?q ! i \<longleftrightarrow>
          (\<forall>q \<in> set ?qs. \<not> bit (pl_blocked_mask q) i)"
      proof -
        have g: "tk_contact_gen (tx_token p contact) = pl_contact_gen p ! i"
          by (simp add: tx_token_def Some c)
        have "tk_contact_gen (tx_token p contact) = pl_contact_gen ?q ! i \<longleftrightarrow>
            (\<forall>q \<in> set ?qs. bit (pl_blocked_mask q) i = bit (pl_blocked_mask p) i)"
          unfolding g contact_gen_counts [OF assms(2) i] add_cancel_right_right
          by (rule few_changes [OF assms(1)])
        with q show ?thesis by blast
      qed
      show ?thesis
        using all gen by (auto simp: token_valid_def Some c bit_of_shift) (simp_all add: tx_token_def)
    qed
  qed
qed

lemma token_good_while_allowed_witness:
  "token_valid (last (write_all_policies (set_policy POLICY_STATE True 0) [(True, 2)])) (Some 1)
     (tx_token (set_policy POLICY_STATE True 0) (Some 1)) \<and>
   \<not> token_valid (last (write_all_policies (set_policy POLICY_STATE True 0) [(True, 1), (True, 0)])) (Some 1)
     (tx_token (set_policy POLICY_STATE True 0) (Some 1))"
proof -
  have "length (pl_contact_gen (set_policy POLICY_STATE True 0)) = MAX_CONTACTS" by (simp add: POLICY_STATE_def)
  from token_good_while_allowed [OF _ this, of "[(True, 2)]" "Some 1"]
    token_good_while_allowed [OF _ this, of "[(True, 1), (True, 0)]" "Some 1"]
  show ?thesis by (simp add: contact_idx_def MAX_CONTACTS_def bit_1_iff)
qed

end
