(* ===== verification/Radio_Task.thy ===== *)
theory Radio_Task
  imports Radio_Policy
begin

text \<open>
  The radio task of \<open>firmware/src/radio.rs\<close>: bring-up, the one transmit path, the channel probe,
  reception and the command loop. The chip driver (\<open>lora_phy\<close>), the timers and the scheduler are
  third-party: the record \<open>air\<close> answers each call from everything that has happened before it, and
  the trace, newest action first, records every call of the driver, every read of the policy cell,
  every pause and every event sent.
\<close>

section \<open>Commands, events, constants\<close>

definition TX_POWER_DBM :: int where "TX_POWER_DBM = 2"
definition RADIO_BUF_LEN :: nat where "RADIO_BUF_LEN = 255"
definition RF_FREQ_HZ :: u32 where "RF_FREQ_HZ = 915000000"
definition RF_PREAMBLE_SYMBOLS :: u16 where "RF_PREAMBLE_SYMBOLS = 8"
definition SYNC_WORD_16 :: u16 where "SYNC_WORD_16 = 0x1424"
definition SX1276_VERSION :: u8 where "SX1276_VERSION = 0x12"
definition CAD_MAX_ATTEMPTS :: u8 where "CAD_MAX_ATTEMPTS = 5"
definition CAD_BACKOFF_CAP_MS :: u64 where "CAD_BACKOFF_CAP_MS = 800"
definition CAD_PROBE_JITTER_MS :: u64 where "CAD_PROBE_JITTER_MS = 50"
definition CAD_IRQ_TIMEOUT_MS :: u64 where "CAD_IRQ_TIMEOUT_MS = 500"
definition TX_IRQ_TIMEOUT_MS :: u64 where "TX_IRQ_TIMEOUT_MS = 2500"
definition RX_ERROR_DELAY_MS :: u64 where "RX_ERROR_DELAY_MS = 10"
definition FAULT_DELAY_MS :: u64 where "FAULT_DELAY_MS = 100"

record air_frame =
  af_len :: u8
  af_bytes :: bytes

datatype radio_cmd =
    RcSetEnabled u64 bool
  | RcBarrier u64
  | RcTx u64 air_frame u64 "u8 option" tx_token
  | RcCadProbe u64

datatype tx_fault = ChannelBusy | TfRadio | TfCancelled

datatype radio_evt =
    ReControlDone u64 bool
  | ReTxDone u64 "tx_fault + unit" bool
  | ReCadDone u64 "tx_fault + bool"
  | ReRxFrame air_frame
  | ReRxCrcError
  | ReFault

datatype bringup_error = NoChip u8 | WrongChip u8 | BusError

datatype rx_err = RxErrCrc | RxErrFault

definition classify_version :: "u8 \<Rightarrow> bringup_error + unit" where
  "classify_version b =
     (if b = SX1276_VERSION then Inr ()
      else if b = 0x00 \<or> b = 0xFF then Inl (NoChip b) else Inl (WrongChip b))"

section \<open>The driver, the clock and the policy cell\<close>

datatype radio_mode = RmSleep | RmStandby | RmReceive | RmCad | RmTransmit

datatype act =
    Reset | EnsureReady radio_mode | SetStandby | SetSleep | InitLora u16
  | SetPower int bool | SetIrqParams radio_mode | CalibrateImage u32
  | CreateModulation | CreatePacket u16 u8 | SetModulation | SetPacket | SetChannel u32
  | SetPayload bytes | DoTx | DoCad | DoRx
  | AwaitIrq "u64 option" | ProcessIrq radio_mode | GetPayload
  | ReadGate | Pause u64 | Send radio_evt | TrySend radio_evt

datatype irq_flags = FlagsError | FlagsNone | FlagsOther | FlagsDone

datatype race = IrqWins bool | CmdWins

record air =
  ai_ok :: "act list \<Rightarrow> bool"
  ai_irq :: "act list \<Rightarrow> bool"
  ai_flags :: "act list \<Rightarrow> irq_flags"
  ai_detected :: "act list \<Rightarrow> bool"
  ai_payload :: "act list \<Rightarrow> (u8 \<times> bytes) option"
  ai_policy :: "act list \<Rightarrow> policy"
  ai_race :: "act list \<Rightarrow> race"

record radio =
  rd_mode :: radio_mode
  rd_cold_start :: bool
  rd_calibrate_image :: bool
  rd_sync_word :: u16
  rd_enabled :: bool
  rd_rx_buf :: bytes

type_synonym rstate = "radio \<times> act list"
type_synonym rstep = "rstate \<Rightarrow> bool \<times> rstate"

text \<open>A chain of \<open>?\<close>: it stops at the first call that fails.\<close>

primrec steps :: "rstep list \<Rightarrow> rstep" where
  "steps [] s = (True, s)"
| "steps (p # ps) s = (case p s of (True, s) \<Rightarrow> steps ps s | (False, s) \<Rightarrow> (False, s))"

definition call :: "air \<Rightarrow> act \<Rightarrow> rstep" where
  "call A a = (\<lambda>(r, t). (ai_ok A (a # t), r, a # t))"

definition call_by :: "air \<Rightarrow> (radio \<Rightarrow> act) \<Rightarrow> rstep" where
  "call_by A f = (\<lambda>(r, t). call A (f r) (r, t))"

definition modify :: "(radio \<Rightarrow> radio) \<Rightarrow> rstep" where
  "modify f = (\<lambda>(r, t). (True, f r, t))"

definition set_mode :: "radio_mode \<Rightarrow> rstep" where
  "set_mode m = modify (\<lambda>r. r\<lparr> rd_mode := m \<rparr>)"

definition only_if :: "(radio \<Rightarrow> bool) \<Rightarrow> rstep list \<Rightarrow> rstep" where
  "only_if c ps = (\<lambda>(r, t). if c r then steps ps (r, t) else (True, r, t))"

text \<open>A call whose result is thrown away (\<open>let _ = \<dots>\<close>), and a read of the policy cell.\<close>

definition ignore :: "rstep \<Rightarrow> rstate \<Rightarrow> rstate" where
  "ignore p s = snd (p s)"

definition log_act :: "act \<Rightarrow> rstate \<Rightarrow> rstate" where
  "log_act a = (\<lambda>(r, t). (r, a # t))"

definition policy_enabled :: "air \<Rightarrow> rstate \<Rightarrow> bool \<times> rstate" where
  "policy_enabled A = (\<lambda>(r, t). (pl_enabled (ai_policy A (ReadGate # t)), r, ReadGate # t))"

definition check_token :: "air \<Rightarrow> u8 option \<Rightarrow> tx_token \<Rightarrow> rstate \<Rightarrow> bool \<times> rstate" where
  "check_token A contact token =
     (\<lambda>(r, t). (token_valid (ai_policy A (ReadGate # t)) contact token, r, ReadGate # t))"

section \<open>Preparing the modem\<close>

definition do_cold_start :: "air \<Rightarrow> rstep list" where
  "do_cold_start A =
     [call_by A (\<lambda>r. InitLora (rd_sync_word r)), call A (SetPower 0 False),
      call_by A (\<lambda>r. SetIrqParams (rd_mode r)),
      modify (\<lambda>r. r\<lparr> rd_cold_start := False, rd_calibrate_image := True \<rparr>)]"

definition prepare_modem :: "air \<Rightarrow> rstep list" where
  "prepare_modem A =
     [call_by A (\<lambda>r. EnsureReady (rd_mode r)),
      only_if (\<lambda>r. rd_mode r \<noteq> RmStandby) [call A SetStandby, set_mode RmStandby],
      only_if rd_cold_start (do_cold_start A),
      only_if rd_calibrate_image
        [call A (CalibrateImage RF_FREQ_HZ), modify (\<lambda>r. r\<lparr> rd_calibrate_image := False \<rparr>)]]"

text \<open>\<open>init\<close>: up to three reads of the version register, then the driver's start. The reads are
  given as their results (\<open>None\<close>: the bus failed); \<open>wired\<close> says whether the bus device and the
  interface variant could be constructed.\<close>

fun read_versions :: "nat \<Rightarrow> u8 option list \<Rightarrow> u8 option \<Rightarrow> unit + u8 option" where
  "read_versions 0 rs seen = Inr seen"
| "read_versions (Suc n) (Some b # rs) seen =
     (if b = SX1276_VERSION then Inr (Some b) else read_versions n rs (Some b))"
| "read_versions (Suc n) (None # rs) seen = Inl ()"
| "read_versions (Suc n) [] seen = Inl ()"

definition init_radio ::
  "air \<Rightarrow> bool \<Rightarrow> u8 option list \<Rightarrow> u8 option \<times> (bringup_error + rstate)" where
  "init_radio A wired rs =
     (case read_versions 3 rs None of
        Inl _ \<Rightarrow> (None, Inl BusError)
      | Inr raw \<Rightarrow>
          let observed = (case raw of Some b \<Rightarrow> b | None \<Rightarrow> 0xFF) in
          (case classify_version observed of
             Inl e \<Rightarrow> (raw, Inl e)
           | Inr _ \<Rightarrow>
               if \<not> wired then (raw, Inl BusError)
               else
               let r = \<lparr> rd_mode = RmStandby, rd_cold_start = True, rd_calibrate_image = True,
                         rd_sync_word = SYNC_WORD_16, rd_enabled = False,
                         rd_rx_buf = replicate RADIO_BUF_LEN 0 \<rparr> in
               (case steps ([call A Reset, call A (EnsureReady RmSleep), call A SetStandby,
                             set_mode RmStandby] @ do_cold_start A) (r, []) of
                  (True, s) \<Rightarrow> (raw, Inr s)
                | (False, s) \<Rightarrow> (raw, Inl BusError))))"

section \<open>Listening before talking\<close>

text \<open>\<open>cad_once\<close>: \<open>Inr False\<close> is a clear channel.\<close>

definition cad_once :: "air \<Rightarrow> rstate \<Rightarrow> (tx_fault + bool) \<times> rstate" where
  "cad_once A s =
     (case steps (prepare_modem A @
             [call A SetModulation, call A (SetChannel RF_FREQ_HZ), set_mode RmCad,
              call_by A (\<lambda>r. SetIrqParams (rd_mode r)), call A DoCad]) s of
        (False, s) \<Rightarrow> (Inl TfRadio, s)
      | (True, s) \<Rightarrow>
          (let (r, t) = log_act (AwaitIrq (Some CAD_IRQ_TIMEOUT_MS)) s in
           if \<not> ai_irq A t
           then (Inl TfRadio, snd (set_mode RmStandby (ignore (call A SetStandby) (r, t))))
           else
             let (r, t) = log_act (ProcessIrq (rd_mode r)) (r, t);
                 detected = ai_detected A t in
             if ai_flags A t = FlagsDone then
               (case call A SetStandby (r, t) of
                  (False, s) \<Rightarrow> (Inl TfRadio, s)
                | (True, s) \<Rightarrow> (Inr detected, snd (set_mode RmStandby s)))
             else
               let s = ignore (call_by A (\<lambda>r. EnsureReady (rd_mode r))) (r, t);
                   s = ignore (call A SetStandby) s
               in (Inl TfRadio, snd (set_mode RmStandby s))))"

text \<open>\<open>!self.enabled || !token_valid(\<dots>)\<close>.\<close>

definition gate_closed :: "air \<Rightarrow> u8 option \<Rightarrow> tx_token \<Rightarrow> rstate \<Rightarrow> bool \<times> rstate" where
  "gate_closed A contact token =
     (\<lambda>(r, t). if \<not> rd_enabled r then (True, r, t)
       else case check_token A contact token (r, t) of (ok, s) \<Rightarrow> (\<not> ok, s))"

definition next_backoff :: "u64 \<Rightarrow> u64" where
  "next_backoff backoff = min (backoff * 2) CAD_BACKOFF_CAP_MS"

definition clamp_ms :: "u64 \<Rightarrow> u64" where
  "clamp_ms j = min (max j 20) 100"

text \<open>The attempts of \<open>do_tx\<close>: \<open>Inr ()\<close> goes on to the last gate check.\<close>

primrec cad_loop ::
  "air \<Rightarrow> u8 option \<Rightarrow> tx_token \<Rightarrow> nat list \<Rightarrow> u64 \<Rightarrow> rstate \<Rightarrow> (tx_fault + unit) \<times> rstate" where
  "cad_loop A contact token [] backoff s = (Inr (), s)"
| "cad_loop A contact token (attempt # rest) backoff s =
     (case gate_closed A contact token s of
        (True, s) \<Rightarrow> (Inl TfCancelled, s)
      | (False, s) \<Rightarrow>
          (case cad_once A s of
             (Inr False, s) \<Rightarrow> (Inr (), s)
           | (Inr True, s) \<Rightarrow>
               if attempt + 1 \<ge> unat CAD_MAX_ATTEMPTS then (Inl ChannelBusy, s)
               else cad_loop A contact token rest (next_backoff backoff) (log_act (Pause backoff) s)
           | (Inl e, s) \<Rightarrow> (Inl e, s)))"

section \<open>Transmitting\<close>

definition tx_prepare :: "air \<Rightarrow> bytes \<Rightarrow> rstep list" where
  "tx_prepare A payload =
     prepare_modem A @
     [call A SetModulation, call A (SetPower TX_POWER_DBM True),
      call_by A (\<lambda>r. EnsureReady (rd_mode r)),
      only_if (\<lambda>r. rd_mode r \<noteq> RmStandby) [call A SetStandby, set_mode RmStandby],
      call A (CreatePacket RF_PREAMBLE_SYMBOLS (of_nat (length payload))),
      call A SetPacket, call A (SetChannel RF_FREQ_HZ), call A (SetPayload payload),
      set_mode RmTransmit, call_by A (\<lambda>r. SetIrqParams (rd_mode r))]"

text \<open>The wait for the end of the transmission. The loop goes on while the chip raises interrupts
  that are not the end: \<open>None\<close> is a run cut off after \<open>fuel\<close> of them.\<close>

primrec tx_wait_loop :: "air \<Rightarrow> nat \<Rightarrow> rstate \<Rightarrow> (tx_fault + unit) option \<times> rstate" where
  "tx_wait_loop A 0 s = (None, s)"
| "tx_wait_loop A (Suc fuel) s =
     (let (r, t) = log_act (AwaitIrq (Some TX_IRQ_TIMEOUT_MS)) s in
      if \<not> ai_irq A t
      then (Some (Inl TfRadio), snd (set_mode RmStandby (ignore (call A SetStandby) (r, t))))
      else
        let (r, t) = log_act (ProcessIrq (rd_mode r)) (r, t) in
        (case ai_flags A t of
           FlagsDone \<Rightarrow> (Some (Inr ()), snd (set_mode RmStandby (r, t)))
         | FlagsError \<Rightarrow>
             let s = ignore (call_by A (\<lambda>r. EnsureReady (rd_mode r))) (r, t);
                 s = ignore (call A SetStandby) s
             in (Some (Inl TfRadio), snd (set_mode RmStandby s))
         | _ \<Rightarrow> tx_wait_loop A fuel (r, t)))"

definition tx_wait :: "air \<Rightarrow> nat \<Rightarrow> rstate \<Rightarrow> (tx_fault + unit) option \<times> rstate" where
  "tx_wait A fuel s =
     (case call A DoTx s of
        (False, s) \<Rightarrow> (Some (Inl TfRadio), s)
      | (True, s) \<Rightarrow> tx_wait_loop A fuel s)"

definition do_tx ::
  "air \<Rightarrow> nat \<Rightarrow> air_frame \<Rightarrow> u64 \<Rightarrow> u8 option \<Rightarrow> tx_token \<Rightarrow> rstate \<Rightarrow>
   ((tx_fault + unit) \<times> bool) option \<times> rstate" where
  "do_tx A fuel frame jitter_ms contact token s =
     (case gate_closed A contact token s of
        (True, s) \<Rightarrow> (Some (Inl TfCancelled, False), s)
      | (False, s) \<Rightarrow>
          let n = unat (af_len frame) in
          if n = 0 \<or> n > RADIO_BUF_LEN then (Some (Inl TfCancelled, False), s)
          else
            (case call A CreateModulation s of
               (False, s) \<Rightarrow> (Some (Inl TfRadio, False), s)
             | (True, s) \<Rightarrow>
                 (case cad_loop A contact token [0..<unat CAD_MAX_ATTEMPTS] (clamp_ms jitter_ms) s of
                    (Inl e, s) \<Rightarrow> (Some (Inl e, False), s)
                  | (Inr _, s) \<Rightarrow>
                      (case gate_closed A contact token s of
                         (True, s) \<Rightarrow> (Some (Inl TfCancelled, False), s)
                       | (False, s) \<Rightarrow>
                           (case steps (tx_prepare A (take n (af_bytes frame))) s of
                              (False, s) \<Rightarrow>
                                (Some (Inl TfRadio, False),
                                 snd (set_mode RmStandby (ignore (call A SetStandby) s)))
                            | (True, s) \<Rightarrow>
                                (case tx_wait A fuel s of
                                   (None, s) \<Rightarrow> (None, s)
                                 | (Some (Inr _), s) \<Rightarrow> (Some (Inr (), True), s)
                                 | (Some (Inl e), s) \<Rightarrow> (Some (Inl e, True), s)))))))"

section \<open>Probing, receiving, commands\<close>

text \<open>\<open>!self.enabled || !policy_enabled()\<close>.\<close>

definition radio_off :: "air \<Rightarrow> rstate \<Rightarrow> bool \<times> rstate" where
  "radio_off A =
     (\<lambda>(r, t). if \<not> rd_enabled r then (True, r, t)
       else case policy_enabled A (r, t) of (on, s) \<Rightarrow> (\<not> on, s))"

primrec probe_loop :: "air \<Rightarrow> nat list \<Rightarrow> u64 \<Rightarrow> rstate \<Rightarrow> (tx_fault + bool) \<times> rstate" where
  "probe_loop A [] backoff s = (Inr False, s)"
| "probe_loop A (attempt # rest) backoff s =
     (case radio_off A s of
        (True, s) \<Rightarrow> (Inl TfCancelled, s)
      | (False, s) \<Rightarrow>
          (case cad_once A s of
             (Inr False, s) \<Rightarrow> (Inr True, s)
           | (Inr True, s) \<Rightarrow>
               if attempt + 1 \<ge> unat CAD_MAX_ATTEMPTS then (Inr False, s)
               else probe_loop A rest (next_backoff backoff) (log_act (Pause backoff) s)
           | (Inl e, s) \<Rightarrow> (Inl e, s)))"

definition do_cad_probe :: "air \<Rightarrow> rstate \<Rightarrow> (tx_fault + bool) \<times> rstate" where
  "do_cad_probe A s =
     (case radio_off A s of
        (True, s) \<Rightarrow> (Inl TfCancelled, s)
      | (False, s) \<Rightarrow>
          (case call A CreateModulation s of
             (False, s) \<Rightarrow> (Inl TfRadio, s)
           | (True, s) \<Rightarrow>
               probe_loop A [0..<unat CAD_MAX_ATTEMPTS] (clamp_ms CAD_PROBE_JITTER_MS) s))"

definition enter_rx :: "air \<Rightarrow> rstep list" where
  "enter_rx A =
     [call A CreateModulation] @ prepare_modem A @
     [call A (CreatePacket RF_PREAMBLE_SYMBOLS (of_nat RADIO_BUF_LEN)),
      call A SetModulation, call A SetPacket, call A (SetChannel RF_FREQ_HZ), set_mode RmReceive,
      call_by A (\<lambda>r. SetIrqParams (rd_mode r)), call A DoRx]"

definition finish_rx :: "air \<Rightarrow> rstate \<Rightarrow> (rx_err + air_frame option) \<times> rstate" where
  "finish_rx A s =
     (let (r, t) = log_act (ProcessIrq (rd_mode (fst s))) s in
      if ai_flags A t = FlagsError then (Inl RxErrCrc, r, t)
      else if ai_flags A t \<noteq> FlagsDone then (Inr None, r, t)
      else
        (case steps [call A CreateModulation,
                     call A (CreatePacket RF_PREAMBLE_SYMBOLS (of_nat RADIO_BUF_LEN))] (r, t) of
           (False, s) \<Rightarrow> (Inl RxErrFault, s)
         | (True, s) \<Rightarrow>
             (let (r, t) = log_act GetPayload s in
              case ai_payload A t of
                None \<Rightarrow> (Inl RxErrCrc, r, t)
              | Some (len, b) \<Rightarrow>
                  let n = unat len;
                      r = r\<lparr> rd_rx_buf := put_at 0 (take RADIO_BUF_LEN b) (rd_rx_buf r) \<rparr> in
                  if n = 0 \<or> n > RADIO_BUF_LEN then (Inl RxErrCrc, r, t)
                  else (Inr (Some \<lparr> af_len = of_nat n,
                          af_bytes = put_at 0 (take n (rd_rx_buf r)) (replicate RADIO_BUF_LEN 0) \<rparr>),
                        r, t))))"

text \<open>The result says whether the command was finished (a transmission may be cut off by \<open>fuel\<close>).\<close>

definition handle_cmd :: "air \<Rightarrow> nat \<Rightarrow> radio_cmd \<Rightarrow> rstep" where
  "handle_cmd A fuel cmd = (\<lambda>(r, t).
     (case cmd of
        RcSetEnabled rid on \<Rightarrow>
          let r = r\<lparr> rd_enabled := on \<rparr> in
          if on then (True, log_act (Send (ReControlDone rid True)) (r, t))
          else
            (case call A SetSleep (r, t) of
               (True, s) \<Rightarrow> (True, log_act (Send (ReControlDone rid True)) (snd (set_mode RmSleep s)))
             | (False, s) \<Rightarrow>
                 (True, log_act (Send (ReControlDone rid False))
                   (log_act (TrySend ReFault) (snd (set_mode RmStandby s)))))
      | RcBarrier rid \<Rightarrow> (True, log_act (Send (ReControlDone rid True)) (r, t))
      | RcTx rid frame jitter_ms contact token \<Rightarrow>
          (case do_tx A fuel frame jitter_ms contact token (r, t) of
             (None, s) \<Rightarrow> (False, s)
           | (Some (result, attempted), s) \<Rightarrow> (True, log_act (Send (ReTxDone rid result attempted)) s))
      | RcCadProbe rid \<Rightarrow>
          (case do_cad_probe A (r, t) of
             (result, s) \<Rightarrow> (True, log_act (Send (ReCadDone rid result)) s))))"

text \<open>One turn of \<open>run\<close> with the queued commands: the commands left, and whether the loop goes on
  (it stops when it waits for a command and none is queued, or in a cut-off transmission).\<close>

definition take_cmd ::
  "air \<Rightarrow> nat \<Rightarrow> radio_cmd list \<Rightarrow> rstate \<Rightarrow> bool \<times> radio_cmd list \<times> rstate" where
  "take_cmd A fuel cmds s =
     (case cmds of
        [] \<Rightarrow> (False, [], s)
      | cmd # cmds \<Rightarrow> (case handle_cmd A fuel cmd s of (go, s) \<Rightarrow> (go, cmds, s)))"

definition run_turn ::
  "air \<Rightarrow> nat \<Rightarrow> radio_cmd list \<Rightarrow> rstate \<Rightarrow> bool \<times> radio_cmd list \<times> rstate" where
  "run_turn A fuel cmds s =
     (case radio_off A s of
        (True, s) \<Rightarrow> take_cmd A fuel cmds s
      | (False, s) \<Rightarrow>
          (case only_if (\<lambda>r. rd_mode r \<noteq> RmReceive) (enter_rx A) s of
             (False, s) \<Rightarrow>
               (True, cmds, log_act (Pause FAULT_DELAY_MS) (log_act (TrySend ReFault) s))
           | (True, s) \<Rightarrow>
               (let (r, t) = log_act (AwaitIrq None) s in
                case ai_race A t of
                  CmdWins \<Rightarrow> take_cmd A fuel cmds (r, t)
                | IrqWins False \<Rightarrow>
                    (True, cmds, log_act (Pause RX_ERROR_DELAY_MS) (log_act (TrySend ReRxCrcError) (r, t)))
                | IrqWins True \<Rightarrow>
                    (case finish_rx A (r, t) of
                       (Inr (Some frame), s) \<Rightarrow> (True, cmds, log_act (TrySend (ReRxFrame frame)) s)
                     | (Inr None, s) \<Rightarrow> (True, cmds, s)
                     | (Inl RxErrCrc, s) \<Rightarrow>
                         (True, cmds, log_act (Pause RX_ERROR_DELAY_MS) (log_act (TrySend ReRxCrcError) s))
                     | (Inl RxErrFault, s) \<Rightarrow>
                         (True, cmds, log_act (Pause FAULT_DELAY_MS) (log_act (TrySend ReFault) s))))))"

primrec run_radio ::
  "air \<Rightarrow> nat \<Rightarrow> nat \<Rightarrow> radio_cmd list \<Rightarrow> rstate \<Rightarrow> bool \<times> radio_cmd list \<times> rstate" where
  "run_radio A fuel 0 cmds s = (True, cmds, s)"
| "run_radio A fuel (Suc turns) cmds s =
     (case run_turn A fuel cmds s of
        (True, cmds, s) \<Rightarrow> run_radio A fuel turns cmds s
      | (False, cmds, s) \<Rightarrow> (False, cmds, s))"

end
