(* ===== verification/Radio_Laws.thy ===== *)
theory Radio_Laws
  imports Radio_Task
begin

text \<open>
  What the trace of the radio task shows: every transmission was authorised, at the lowest power
  and on a channel just found clear, and every command is answered once.
\<close>

section \<open>How a trace grows\<close>

definition extends :: "(act \<Rightarrow> bool) \<Rightarrow> act list \<Rightarrow> act list \<Rightarrow> bool" where
  "extends Q t t' \<longleftrightarrow> (\<exists>new. t' = new @ t \<and> list_all Q new)"

lemma ext_refl [simp, intro]: "extends Q t t"
  by (auto simp: extends_def intro: exI [of _ "[]"])

lemma ext_Cons [intro]: "Q a \<Longrightarrow> extends Q t t' \<Longrightarrow> extends Q t (a # t')"
  by (auto simp: extends_def intro: exI [of _ "a # new" for new])

lemma ext_trans: "extends Q t t' \<Longrightarrow> extends Q t' t'' \<Longrightarrow> extends Q t t''"
  by (auto simp: extends_def)

lemma ext_mono: "extends Q t t' \<Longrightarrow> (\<And>a. Q a \<Longrightarrow> Q' a) \<Longrightarrow> extends Q' t t'"
  by (auto simp: extends_def list_all_iff)

definition adds :: "(act \<Rightarrow> bool) \<Rightarrow> (rstate \<Rightarrow> 'x \<times> rstate) \<Rightarrow> bool" where
  "adds Q f \<longleftrightarrow> (\<forall>s. extends Q (snd s) (snd (snd (f s))))"

lemma addsD: "adds Q f \<Longrightarrow> f s = (x, s') \<Longrightarrow> extends Q (snd s) (snd s')"
  by (metis adds_def snd_conv)

lemma adds_call [simp, intro]: "Q a \<Longrightarrow> adds Q (call A a)"
  by (auto simp: adds_def call_def)

lemma adds_call_by [simp, intro]: "(\<And>r. Q (f r)) \<Longrightarrow> adds Q (call_by A f)"
  by (auto simp: adds_def call_def call_by_def)

lemma adds_modify [simp, intro]: "adds Q (modify f)" "adds Q (set_mode m)"
  by (auto simp: adds_def modify_def set_mode_def)

lemma adds_steps [intro]: "list_all (adds Q) ps \<Longrightarrow> adds Q (steps ps)"
proof (induction ps)
  case (Cons p ps)
  then have p: "adds Q p" and ps: "adds Q (steps ps)" by simp_all
  show ?case unfolding adds_def
  proof
    fix s
    obtain b s' where s: "p s = (b, s')" by (cases "p s")
    have 1: "extends Q (snd s) (snd s')" using addsD [OF p s] .
    have 2: "extends Q (snd s') (snd (snd (steps ps s')))" using ps [unfolded adds_def] by blast
    show "extends Q (snd s) (snd (snd (steps (p # ps) s)))"
      using 1 ext_trans [OF 1 2] by (simp add: s split: bool.split)
  qed
qed (simp add: adds_def)

lemma adds_only_if [intro]: "list_all (adds Q) ps \<Longrightarrow> adds Q (only_if c ps)"
  using adds_steps [of Q ps] by (auto simp: adds_def only_if_def)

lemma steps_append:
  "steps (ps @ qs) s = (case steps ps s of (True, s) \<Rightarrow> steps qs s | (False, s) \<Rightarrow> (False, s))"
  by (induction ps arbitrary: s) (auto split: prod.split bool.split)

section \<open>What the newest actions say\<close>

fun power_of :: "act list \<Rightarrow> int option" where
  "power_of [] = None"
| "power_of (SetPower p b # t) = Some p"
| "power_of (_ # t) = power_of t"

fun loaded :: "act list \<Rightarrow> bytes option" where
  "loaded [] = None"
| "loaded (SetPayload b # t) = Some b"
| "loaded (_ # t) = loaded t"

fun gate_of :: "air \<Rightarrow> act list \<Rightarrow> policy option" where
  "gate_of A [] = None"
| "gate_of A (ReadGate # t) = Some (ai_policy A (ReadGate # t))"
| "gate_of A (_ # t) = gate_of A t"

text \<open>The newest interrupt the driver classified: its flags and whether activity was detected.\<close>

fun heard :: "air \<Rightarrow> act list \<Rightarrow> (irq_flags \<times> bool) option" where
  "heard A [] = None"
| "heard A (ProcessIrq m # t) =
     (if m = RmCad then Some (ai_flags A (ProcessIrq m # t), ai_detected A (ProcessIrq m # t)) else None)"
| "heard A (_ # t) = heard A t"

definition no_power :: "act \<Rightarrow> bool" where "no_power a \<longleftrightarrow> (\<forall>p b. a \<noteq> SetPower p b)"
definition no_load :: "act \<Rightarrow> bool" where "no_load a \<longleftrightarrow> (\<forall>b. a \<noteq> SetPayload b)"
definition no_irq :: "act \<Rightarrow> bool" where "no_irq a \<longleftrightarrow> (\<forall>m. a \<noteq> ProcessIrq m)"

lemma ext_same:
  assumes "extends Q t t'" and "\<And>a u. Q a \<Longrightarrow> f (a # u) = f u"
  shows "f t' = f t"
proof -
  have "list_all Q new \<Longrightarrow> f (new @ t) = f t" for new
    by (induction new) (simp_all add: assms(2))
  with assms(1) show ?thesis by (auto simp: extends_def)
qed

lemma quiet_acts:
  "no_power a \<Longrightarrow> power_of (a # t) = power_of t" "no_load a \<Longrightarrow> loaded (a # t) = loaded t"
  "a \<noteq> ReadGate \<Longrightarrow> gate_of A (a # t) = gate_of A t" "no_irq a \<Longrightarrow> heard A (a # t) = heard A t"
  by (cases a; auto simp: no_power_def no_load_def no_irq_def)+

section \<open>Transmissions\<close>

text \<open>A transmission may start when the newest power setting is the lowest, the payload is that of a
  queued transmit command whose token the newest gate reading accepts, and the newest classified
  interrupt is a finished channel check that found nothing.\<close>

definition authorised :: "air \<Rightarrow> radio_cmd list \<Rightarrow> act list \<Rightarrow> bool" where
  "authorised A cmds t \<longleftrightarrow>
     power_of t = Some TX_POWER_DBM \<and> heard A t = Some (FlagsDone, False) \<and>
     (\<exists>rid frame j contact token p. RcTx rid frame j contact token \<in> set cmds \<and>
        gate_of A t = Some p \<and> token_valid p contact token \<and>
        loaded t = Some (take (unat (af_len frame)) (af_bytes frame)))"

primrec tx_safe :: "air \<Rightarrow> radio_cmd list \<Rightarrow> act list \<Rightarrow> bool" where
  "tx_safe A cmds [] \<longleftrightarrow> True"
| "tx_safe A cmds (a # t) \<longleftrightarrow> (a = DoTx \<longrightarrow> authorised A cmds t) \<and> tx_safe A cmds t"

lemma safe_ext: "extends Q t t' \<Longrightarrow> (\<And>a. Q a \<Longrightarrow> a \<noteq> DoTx) \<Longrightarrow> tx_safe A cmds t' = tx_safe A cmds t"
  by (rule ext_same [of Q]) auto

text \<open>What the parts may do.\<close>

definition modem_act :: "act \<Rightarrow> bool" where
  "modem_act a \<longleftrightarrow> a \<noteq> DoTx \<and> a \<noteq> ReadGate \<and> no_irq a \<and> no_load a \<and> (\<forall>e. a \<noteq> Send e)"

definition listen_act :: "act \<Rightarrow> bool" where
  "listen_act a \<longleftrightarrow> a \<noteq> DoTx \<and> no_load a \<and> (\<forall>e. a \<noteq> Send e)"

lemma modem_acts [simp]:
  "modem_act (EnsureReady m)" "modem_act SetStandby" "modem_act (InitLora w)" "modem_act (SetPower p b)"
  "modem_act (SetIrqParams m)" "modem_act (CalibrateImage f)" "modem_act CreateModulation"
  "modem_act (CreatePacket pre len)" "modem_act SetModulation" "modem_act SetPacket" "modem_act (SetChannel f)"
  "modem_act DoCad" "modem_act DoRx" "modem_act (AwaitIrq w')" "modem_act (Pause ms)" "modem_act SetSleep"
  "modem_act (TrySend e)" "modem_act GetPayload" "modem_act Reset"
  by (simp_all add: modem_act_def no_irq_def no_load_def)

lemma listen_acts [simp]: "listen_act ReadGate" "listen_act (ProcessIrq m)" "modem_act a \<Longrightarrow> listen_act a"
  by (simp_all add: listen_act_def modem_act_def no_load_def)

lemma adds_cold [simp]: "list_all (adds modem_act) (do_cold_start A)"
  by (simp add: do_cold_start_def adds_call adds_call_by adds_modify)

lemma adds_prepare [simp]: "list_all (adds modem_act) (prepare_modem A)"
  by (auto simp: prepare_modem_def)

lemma adds_enter_rx: "list_all (adds modem_act) (enter_rx A)"
  by (auto simp: enter_rx_def)

lemma call_by_eq: "call_by A f s = call A (f (fst s)) s"
  by (simp add: call_by_def call_def split: prod.split)

lemma ext_call: "call A a s = (b, s') \<Longrightarrow> snd s' = a # snd s"
  by (auto simp: call_def split: prod.splits)

lemma trace_simps [simp]:
  "snd (snd (call A a s)) = a # snd s" "snd (snd (set_mode m s)) = snd s" "snd (log_act a s) = a # snd s"
  "snd (ignore p s) = snd (snd (p s))" "snd (snd (call_by A f s)) = f (fst s) # snd s"
  by (simp_all add: call_def call_by_def set_mode_def modify_def log_act_def ignore_def split: prod.split)

lemma keeps_radio [simp]: "fst (snd (call A a s)) = fst s" "fst (log_act a s) = fst s"
  by (simp_all add: call_def log_act_def split: prod.split)

lemma mode_set [simp]: "rd_mode (fst (snd (set_mode m s))) = m" "fst (set_mode m s) = True"
  by (simp_all add: set_mode_def modify_def split: prod.split)

lemma log_act_eq: "log_act a s = (fst s, a # snd s)"
  by (simp add: log_act_def split: prod.split)

lemma call_eq: "call A a s = (ai_ok A (a # snd s), fst s, a # snd s)"
  by (simp add: call_def split: prod.split)

lemma cad_once_acts:
  assumes "cad_once A s = (x, s')"
  shows "extends listen_act (snd s) (snd s')" and "x = Inr False \<Longrightarrow> heard A (snd s') = Some (FlagsDone, False)"
proof -
  let ?ps = "prepare_modem A @ [call A SetModulation, call A (SetChannel RF_FREQ_HZ), set_mode RmCad,
      call_by A (\<lambda>r. SetIrqParams (rd_mode r)), call A DoCad]"
  obtain b s1 where s1: "steps ?ps s = (b, s1)" by (cases "steps ?ps s")
  have "adds modem_act (steps ?ps)" by (intro adds_steps) auto
  from ext_mono [OF addsD [OF this s1]] have e1: "extends listen_act (snd s) (snd s1)" by simp
  have m: "rd_mode (fst s1) = RmCad" if b
    using s1 that by (auto simp: steps_append call_by_eq split: prod.splits bool.splits dest!: arg_cong [where f = "\<lambda>x. fst (snd x)"])
  have "extends listen_act (snd s) (snd s') \<and> (x = Inr False \<longrightarrow> heard A (snd s') = Some (FlagsDone, False))"
  proof (cases b)
    case False
    then show ?thesis using assms s1 e1 by (auto simp: cad_once_def)
  next
    case True
    then show ?thesis using assms e1 m s1
      by (auto simp: cad_once_def log_act_eq Let_def call_eq set_mode_def modify_def ignore_def call_by_eq
          intro!: ext_Cons split: if_splits bool.splits)
  qed
  then show "extends listen_act (snd s) (snd s')" and "x = Inr False \<Longrightarrow> heard A (snd s') = Some (FlagsDone, False)"
    by simp_all
qed

lemma gate_closed_eq:
  "gate_closed A contact token s =
     (if \<not> rd_enabled (fst s) then (True, s)
      else (\<not> token_valid (ai_policy A (ReadGate # snd s)) contact token, fst s, ReadGate # snd s))"
  by (simp add: gate_closed_def check_token_def split: prod.split)

lemma cad_loop_acts:
  assumes "cad_loop A contact token attempts backoff s = (x, s')"
  shows "extends listen_act (snd s) (snd s')"
    and "attempts \<noteq> [] \<Longrightarrow> last attempts + 1 \<ge> unat CAD_MAX_ATTEMPTS \<Longrightarrow> x = Inr () \<Longrightarrow>
      heard A (snd s') = Some (FlagsDone, False)"
proof -
  have "extends listen_act (snd s) (snd s') \<and> (attempts \<noteq> [] \<longrightarrow> last attempts + 1 \<ge> unat CAD_MAX_ATTEMPTS \<longrightarrow>
      x = Inr () \<longrightarrow> heard A (snd s') = Some (FlagsDone, False))"
    using assms
  proof (induction attempts arbitrary: backoff s)
    case (Cons a rest)
    let ?g = "(fst s, ReadGate # snd s)"
    show ?case
    proof (cases "fst (gate_closed A contact token s)")
      case True
      then show ?thesis using Cons.prems by (auto simp: gate_closed_eq intro!: ext_Cons split: if_splits)
    next
      case False
      then have g: "gate_closed A contact token s = (False, ?g)" by (auto simp: gate_closed_eq split: if_splits)
      obtain y s1 where c: "cad_once A ?g = (y, s1)" by (cases "cad_once A ?g")
      have e: "extends listen_act (snd s) (snd s1)"
        using cad_once_acts(1) [OF c] ext_trans [OF ext_Cons [of listen_act ReadGate, OF _ ext_refl]] by simp
      have p: "extends listen_act (snd s) (Pause backoff # snd s1)" using e by (intro ext_Cons) simp_all
      show ?thesis
      proof (cases "y = Inr True \<and> a + 1 < unat CAD_MAX_ATTEMPTS")
        case True
        then have "cad_loop A contact token rest (next_backoff backoff) (log_act (Pause backoff) s1) = (x, s')"
          using Cons.prems g c by simp
        from Cons.IH [OF this] ext_trans [OF p] True show ?thesis by (cases "rest = []") auto
      next
        case False
        then show ?thesis using Cons.prems g c e cad_once_acts(2) [OF c] by (auto split: sum.splits bool.splits if_splits)
      qed
    qed
  qed simp
  then show "extends listen_act (snd s) (snd s')"
    and "attempts \<noteq> [] \<Longrightarrow> last attempts + 1 \<ge> unat CAD_MAX_ATTEMPTS \<Longrightarrow> x = Inr () \<Longrightarrow>
      heard A (snd s') = Some (FlagsDone, False)"
    by simp_all
qed

lemma tx_prepare_acts:
  assumes "steps (tx_prepare A p) s = (b, s')"
  shows "extends (\<lambda>a. modem_act a \<or> a = SetPayload p) (snd s) (snd s')"
    and "b \<Longrightarrow> power_of (snd s') = Some TX_POWER_DBM \<and> loaded (snd s') = Some p"
proof -
  obtain c s1 where s1: "steps (prepare_modem A) s = (c, s1)" by (cases "steps (prepare_modem A) s")
  have "adds modem_act (steps (prepare_modem A))" by (intro adds_steps) simp
  from ext_mono [OF addsD [OF this s1]]
  have e: "extends (\<lambda>a. modem_act a \<or> a = SetPayload p) (snd s) (snd s1)" by simp
  show "extends (\<lambda>a. modem_act a \<or> a = SetPayload p) (snd s) (snd s')"
    using assms e s1
    by (auto simp: tx_prepare_def steps_append call_eq call_by_eq set_mode_def modify_def only_if_def
        intro!: ext_Cons split: prod.splits bool.splits if_splits)
  show "b \<Longrightarrow> power_of (snd s') = Some TX_POWER_DBM \<and> loaded (snd s') = Some p"
    using assms s1
    by (auto simp: tx_prepare_def steps_append call_eq call_by_eq set_mode_def modify_def only_if_def
        split: prod.splits bool.splits if_splits)
qed

lemma tx_wait_loop_acts: "tx_wait_loop A fuel s = (x, s') \<Longrightarrow> extends listen_act (snd s) (snd s')"
proof (induction fuel arbitrary: s)
  case (Suc fuel)
  let ?s1 = "(fst s, ProcessIrq (rd_mode (fst s)) # AwaitIrq (Some TX_IRQ_TIMEOUT_MS) # snd s)"
  have e: "extends listen_act (snd s) (snd ?s1)" by (auto intro!: ext_Cons)
  show ?case
  proof (cases "tx_wait_loop A fuel ?s1 = (x, s')")
    case True
    from ext_trans [OF e Suc.IH [OF True]] show ?thesis .
  next
    case False
    then show ?thesis using Suc.prems
      by (auto simp: log_act_eq Let_def call_eq call_by_eq set_mode_def modify_def ignore_def
          intro!: ext_Cons split: if_splits irq_flags.splits)
  qed
qed auto

section \<open>The story: transmissions and answers\<close>

text \<open>What the rest of the node sees of a trace: the transmissions and the events that answer commands.\<close>

fun story :: "act list \<Rightarrow> act list" where
  "story [] = []"
| "story (DoTx # t) = DoTx # story t"
| "story (Send e # t) = Send e # story t"
| "story (_ # t) = story t"

definition hushed :: "act \<Rightarrow> bool" where
  "hushed a \<longleftrightarrow> a \<noteq> DoTx \<and> (\<forall>e. a \<noteq> Send e)"

lemma story_hushed: "hushed a \<Longrightarrow> story (a # t) = story t"
  by (cases a) (auto simp: hushed_def)

lemma hushed_acts: "modem_act a \<Longrightarrow> hushed a" "listen_act a \<Longrightarrow> hushed a" "hushed (SetPayload p)"
  "hushed (TrySend e)" "hushed (Pause ms)" "hushed (AwaitIrq w)" "hushed SetSleep" "hushed ReadGate" "hushed GetPayload"
  "hushed (ProcessIrq m)"
  by (simp_all add: hushed_def modem_act_def listen_act_def)

lemma hushed_keeps: "extends hushed t t' \<Longrightarrow> story t' = story t \<and> tx_safe A cmds t' = tx_safe A cmds t"
  using ext_same [of hushed t t' story] safe_ext [of hushed t t' A cmds] story_hushed by (auto simp: hushed_def)

lemma gate_closed_acts:
  assumes "gate_closed A contact token s = (c, s')"
  shows "extends hushed (snd s) (snd s')"
    and "\<not> c \<Longrightarrow> \<exists>p. gate_of A (snd s') = Some p \<and> token_valid p contact token"
    and "heard A (snd s') = heard A (snd s)"
  using assms by (auto simp: gate_closed_eq hushed_acts intro!: ext_Cons split: if_splits)

lemma tx_ready:
  assumes "cad_loop A contact token [0..<unat CAD_MAX_ATTEMPTS] b s = (Inr (), s3)"
    and "gate_closed A contact token s3 = (False, s4)"
    and "steps (tx_prepare A (take (unat (af_len frame)) (af_bytes frame))) s4 = (True, s5)"
    and "RcTx rid frame j contact token \<in> set cmds"
  shows "authorised A cmds (snd s5)"
proof -
  have h3: "heard A (snd s3) = Some (FlagsDone, False)"
    using cad_loop_acts(2) [OF assms(1)] by (simp add: CAD_MAX_ATTEMPTS_def)
  obtain p where g4: "gate_of A (snd s4) = Some p" "token_valid p contact token"
    using gate_closed_acts(2) [OF assms(2)] by auto
  note e = tx_prepare_acts(1) [OF assms(3)]
  have "heard A (snd s5) = heard A (snd s4)"
    by (rule ext_same [OF e]) (auto intro: quiet_acts simp: modem_act_def)
  moreover have "gate_of A (snd s5) = gate_of A (snd s4)"
    by (rule ext_same [OF e]) (auto intro: quiet_acts simp: modem_act_def)
  ultimately have "heard A (snd s5) = Some (FlagsDone, False)" "gate_of A (snd s5) = Some p"
    using h3 g4(1) gate_closed_acts(3) [OF assms(2)] by simp_all
  moreover have "power_of (snd s5) = Some TX_POWER_DBM"
    "loaded (snd s5) = Some (take (unat (af_len frame)) (af_bytes frame))"
    using tx_prepare_acts(2) [OF assms(3)] by simp_all
  ultimately show ?thesis unfolding authorised_def using g4(2) assms(4) by blast
qed

lemma tx_wait_acts: "tx_wait A fuel s = (x, s') \<Longrightarrow> extends hushed (DoTx # snd s) (snd s')"
  by (cases "ai_ok A (DoTx # snd s)")
     (auto simp: tx_wait_def call_eq dest!: tx_wait_loop_acts intro: ext_mono hushed_acts)

text \<open>One transmission: either nothing is sent and no attempt is reported, or exactly one transmission
  starts, authorised, and the attempt is reported.\<close>

lemma do_tx_keeps:
  assumes d: "do_tx A fuel frame j contact token s = (x, s')"
    and q: "RcTx rid frame j contact token \<in> set cmds"
    and safe: "tx_safe A cmds (snd s)"
  shows "tx_safe A cmds (snd s')"
    and "story (snd s') = (case x of None \<Rightarrow> [DoTx] | Some (res, att) \<Rightarrow> if att then [DoTx] else []) @ story (snd s)"
    and "x = Some (Inr (), att) \<Longrightarrow> att"
proof -
  let ?n = "unat (af_len frame)"
  obtain c1 s1 where g1: "gate_closed A contact token s = (c1, s1)" by (cases "gate_closed A contact token s")
  obtain b2 s2 where m2: "call A CreateModulation s1 = (b2, s2)" by (cases "call A CreateModulation s1")
  obtain y s3 where l3: "cad_loop A contact token [0..<unat CAD_MAX_ATTEMPTS] (clamp_ms j) s2 = (y, s3)"
    by (cases "cad_loop A contact token [0..<unat CAD_MAX_ATTEMPTS] (clamp_ms j) s2")
  obtain c4 s4 where g4: "gate_closed A contact token s3 = (c4, s4)" by (cases "gate_closed A contact token s3")
  obtain b5 s5 where p5: "steps (tx_prepare A (take ?n (af_bytes frame))) s4 = (b5, s5)"
    by (cases "steps (tx_prepare A (take ?n (af_bytes frame))) s4")
  have e1: "extends hushed (snd s) (snd s1)" using gate_closed_acts(1) [OF g1] .
  have e2: "extends hushed (snd s) (snd s2)"
    using e1 m2 by (auto simp: call_eq hushed_def intro!: ext_Cons)
  have e3: "extends hushed (snd s) (snd s3)"
    using ext_trans [OF e2 ext_mono [OF cad_loop_acts(1) [OF l3] hushed_acts(2)]] .
  have e4: "extends hushed (snd s) (snd s4)" using ext_trans [OF e3 gate_closed_acts(1) [OF g4]] .
  have e5: "extends hushed (snd s) (snd s5)"
    by (rule ext_trans [OF e4 ext_mono [OF tx_prepare_acts(1) [OF p5]]]) (auto intro: hushed_acts)
  have e6: "extends hushed (snd s) (SetStandby # snd s5)" using e5 by (auto simp: hushed_def)
  have "(\<exists>e. x = Some (Inl e, False)) \<and> extends hushed (snd s) (snd s') \<or>
      authorised A cmds (snd s5) \<and>
      (\<exists>y. tx_wait A fuel s5 = (y, s') \<and> x = map_option (\<lambda>r. (r, True)) y)"
  proof (cases "c1 \<or> ?n = 0 \<or> ?n > RADIO_BUF_LEN \<or> \<not> b2 \<or> (\<exists>e. y = Inl e) \<or> c4 \<or> \<not> b5")
    case True
    then show ?thesis using d g1 m2 l3 g4 p5 e1 e2 e3 e4 e6
      by (auto simp: do_tx_def Let_def split: if_splits bool.splits sum.splits)
  next
    case False
    then have "y = Inr ()" by (cases y) auto
    then show ?thesis using False d g1 m2 l3 g4 p5 tx_ready [OF _ _ _ q]
      by (auto simp: do_tx_def split: if_splits prod.splits option.splits sum.splits)
  qed
  then consider (quiet) e where "x = Some (Inl e, False)" "extends hushed (snd s) (snd s')"
    | (sent) y where "authorised A cmds (snd s5)" "tx_wait A fuel s5 = (y, s')" "x = map_option (\<lambda>r. (r, True)) y"
    by blast
  then have "tx_safe A cmds (snd s') \<and>
    story (snd s') = (case x of None \<Rightarrow> [DoTx] | Some (res, att) \<Rightarrow> if att then [DoTx] else []) @ story (snd s) \<and>
    (x = Some (Inr (), att) \<longrightarrow> att)"
  proof cases
    case quiet
    then show ?thesis using safe hushed_keeps [OF quiet(2), of A cmds] by simp
  next
    case sent
    show ?thesis
      using safe sent(1,3) hushed_keeps [OF e5, of A cmds] hushed_keeps [OF tx_wait_acts [OF sent(2)], of A cmds]
      by (cases y) auto
  qed
  then show "tx_safe A cmds (snd s')"
    and "story (snd s') = (case x of None \<Rightarrow> [DoTx] | Some (res, att) \<Rightarrow> if att then [DoTx] else []) @ story (snd s)"
    and "x = Some (Inr (), att) \<Longrightarrow> att"
    by simp_all
qed

text \<open>One command: its part of the story, newest first. A transmission that reports success was attempted;
  every other command sends its answer and transmits nothing.\<close>

fun answered :: "radio_cmd \<Rightarrow> act list \<Rightarrow> bool" where
  "answered (RcSetEnabled rid on) seg \<longleftrightarrow>
     seg = [Send (ReControlDone rid True)] \<or> \<not> on \<and> seg = [Send (ReControlDone rid False)]"
| "answered (RcBarrier rid) seg \<longleftrightarrow> seg = [Send (ReControlDone rid True)]"
| "answered (RcTx rid frame j contact token) seg \<longleftrightarrow>
     (\<exists>res. seg = [Send (ReTxDone rid res True), DoTx]) \<or>
     (\<exists>e. seg = [Send (ReTxDone rid (Inl e) False)])"
| "answered (RcCadProbe rid) seg \<longleftrightarrow> (\<exists>res. seg = [Send (ReCadDone rid res)])"

fun cut_off :: "radio_cmd \<Rightarrow> act list \<Rightarrow> bool" where
  "cut_off (RcTx rid frame j contact token) seg \<longleftrightarrow> seg = [DoTx]"
| "cut_off _ _ \<longleftrightarrow> False"

lemma radio_off_acts: "radio_off A s = (c, s') \<Longrightarrow> extends hushed (snd s) (snd s')"
  by (auto simp: radio_off_def policy_enabled_def hushed_acts intro!: ext_Cons split: if_splits prod.splits)

lemma probe_loop_acts: "probe_loop A attempts backoff s = (x, s') \<Longrightarrow> extends hushed (snd s) (snd s')"
proof (induction attempts arbitrary: backoff s)
  case (Cons a rest)
  obtain c s1 where o: "radio_off A s = (c, s1)" by (cases "radio_off A s")
  obtain y s2 where k: "cad_once A s1 = (y, s2)" by (cases "cad_once A s1")
  have e1: "extends hushed (snd s) (snd s1)" using radio_off_acts [OF o] .
  have e2: "extends hushed (snd s) (snd s2)"
    using ext_trans [OF e1 ext_mono [OF cad_once_acts(1) [OF k] hushed_acts(2)]] .
  have e3: "extends hushed (snd s) (Pause backoff # snd s2)" using e2 by (auto simp: hushed_acts)
  show ?case
    using Cons.prems o k e1 e2 Cons.IH [of "next_backoff backoff" "log_act (Pause backoff) s2"] ext_trans [OF e3]
    by (auto split: if_splits bool.splits sum.splits)
qed simp

lemma do_cad_probe_acts: "do_cad_probe A s = (x, s') \<Longrightarrow> extends hushed (snd s) (snd s')"
proof -
  assume p: "do_cad_probe A s = (x, s')"
  obtain c s1 where o: "radio_off A s = (c, s1)" by (cases "radio_off A s")
  obtain b s2 where m: "call A CreateModulation s1 = (b, s2)" by (cases "call A CreateModulation s1")
  have e1: "extends hushed (snd s) (snd s1)" using radio_off_acts [OF o] .
  have e2: "extends hushed (snd s) (snd s2)" using e1 m by (auto simp: call_eq hushed_acts intro!: ext_Cons)
  show ?thesis using p o m e1 e2 ext_trans [OF e2 probe_loop_acts]
    by (auto simp: do_cad_probe_def split: bool.splits)
qed

lemma handle_cmd_keeps:
  assumes h: "handle_cmd A fuel cmd s = (go, s')" and q: "cmd \<in> set cmds" and safe: "tx_safe A cmds (snd s)"
  shows "tx_safe A cmds (snd s') \<and>
    (\<exists>seg. story (snd s') = seg @ story (snd s) \<and> (if go then answered cmd seg else cut_off cmd seg))"
proof (cases cmd)
  case (RcSetEnabled rid on)
  then show ?thesis using h safe
    by (cases s) (auto simp: handle_cmd_def Let_def call_eq log_act_eq set_mode_def modify_def split: if_splits bool.splits)
next
  case (RcBarrier rid)
  then show ?thesis using h safe by (cases s) (auto simp: handle_cmd_def log_act_eq)
next
  case (RcTx rid frame j contact token)
  obtain x s1 where d: "do_tx A fuel frame j contact token s = (x, s1)" by (cases "do_tx A fuel frame j contact token s")
  have q': "RcTx rid frame j contact token \<in> set cmds" using q RcTx by simp
  note k = do_tx_keeps [OF d q' safe]
  show ?thesis
  proof (cases x)
    case None
    then show ?thesis using h RcTx d k by (cases s) (auto simp: handle_cmd_def)
  next
    case (Some p)
    then obtain res att where x: "x = Some (res, att)" by (cases p) auto
    then have "\<not> att \<Longrightarrow> \<exists>e. res = Inl e" using k(3) by (cases res) auto
    then show ?thesis using h RcTx d k x
      by (cases s) (auto simp: handle_cmd_def log_act_eq split: if_splits)
  qed
next
  case (RcCadProbe rid)
  obtain x s1 where d: "do_cad_probe A s = (x, s1)" by (cases "do_cad_probe A s")
  show ?thesis using h RcCadProbe d safe hushed_keeps [OF do_cad_probe_acts [OF d], of A cmds]
    by (cases s) (auto simp: handle_cmd_def log_act_eq)
qed

section \<open>The command loop\<close>

lemma finish_rx_acts: "finish_rx A s = (x, s') \<Longrightarrow> extends hushed (snd s) (snd s')"
  by (auto simp: finish_rx_def Let_def log_act_eq call_eq hushed_acts intro!: ext_Cons
      split: if_splits bool.splits option.splits prod.splits)

text \<open>A turn takes the next command and handles it, or takes none.\<close>

lemma run_turn_cases:
  assumes t: "run_turn A fuel cmds s = (go, rest, s')"
  obtains (idle) "rest = cmds" "go \<or> cmds = []" "extends hushed (snd s) (snd s')"
    | (cmd) c s1 where "cmds = c # rest" "extends hushed (snd s) (snd s1)" "handle_cmd A fuel c s1 = (go, s')"
proof -
  have take: thesis if "take_cmd A fuel cmds s1 = (go, rest, s')" "extends hushed (snd s) (snd s1)" for s1
  proof (cases cmds)
    case Nil
    then show thesis using that idle by (auto simp: take_cmd_def)
  next
    case (Cons c cs)
    then show thesis using that cmd [of c s1] by (auto simp: take_cmd_def split: prod.splits)
  qed
  obtain c1 s1 where o: "radio_off A s = (c1, s1)" by (cases "radio_off A s")
  have e1: "extends hushed (snd s) (snd s1)" using radio_off_acts [OF o] .
  obtain b s2 where l: "only_if (\<lambda>r. rd_mode r \<noteq> RmReceive) (enter_rx A) s1 = (b, s2)"
    by (cases "only_if (\<lambda>r. rd_mode r \<noteq> RmReceive) (enter_rx A) s1")
  have "adds modem_act (only_if (\<lambda>r. rd_mode r \<noteq> RmReceive) (enter_rx A))"
    by (intro adds_only_if adds_enter_rx)
  from ext_trans [OF e1 ext_mono [OF addsD [OF this l] hushed_acts(1)]]
  have e2: "extends hushed (snd s) (snd s2)" .
  let ?s3 = "(fst s2, AwaitIrq None # snd s2)"
  have e3: "extends hushed (snd s) (snd ?s3)" using e2 by (auto simp: hushed_acts)
  show thesis
  proof (cases "c1 \<or> b \<and> ai_race A (snd ?s3) = CmdWins")
    case True
    then show thesis using t o l take [OF _ e1] take [OF _ e3]
      by (cases c1) (auto simp: run_turn_def log_act_eq)
  next
    case False
    obtain x s4 where f: "finish_rx A ?s3 = (x, s4)" by (cases "finish_rx A ?s3")
    have e4: "extends hushed (snd s) (snd s4)" using ext_trans [OF e3 finish_rx_acts [OF f]] .
    have "rest = cmds \<and> go \<and> extends hushed (snd s) (snd s')"
      using False t o l f e2 e3 e4
      by (auto simp: run_turn_def log_act_eq hushed_acts intro!: ext_Cons
          split: bool.splits race.splits sum.splits option.splits rx_err.splits)
    then show thesis using idle by blast
  qed
qed

lemma run_radio_safe:
  assumes "run_radio A fuel turns cmds s = (go, rest, s')" "set cmds \<subseteq> set queue" "tx_safe A queue (snd s)"
  shows "tx_safe A queue (snd s')"
  using assms
proof (induction turns arbitrary: cmds s)
  case (Suc turns)
  obtain g r s1 where t: "run_turn A fuel cmds s = (g, r, s1)" by (cases "run_turn A fuel cmds s")
  have "tx_safe A queue (snd s1) \<and> set r \<subseteq> set queue"
    using t
  proof (cases rule: run_turn_cases)
    case idle
    then show ?thesis using Suc.prems hushed_keeps [OF idle(3), of A queue] by simp
  next
    case (cmd c s2)
    then show ?thesis using Suc.prems hushed_keeps [OF cmd(2), of A queue] handle_cmd_keeps [OF cmd(3), of queue] by auto
  qed
  then show ?case using Suc.prems(1) Suc.IH [of r s1] t by (cases g) auto
qed simp

lemma tx_safe_at: "tx_safe A cmds (later @ DoTx # before) \<Longrightarrow> authorised A cmds before"
  by (induction later) auto

text \<open>C12: Every transmission of the radio task is authorised. Whatever commands are queued, however the
  driver, the timers and the policy cell answer, and however long the task runs, at the moment the
  transmitter is started the newest power setting is the fixed TX_POWER_DBM, the newest classified
  interrupt was a finished channel check that found nothing, and the payload loaded is that of a
  queued transmit command whose token the newest reading of the policy cell accepts.\<close>

theorem every_transmission_is_authorised:
  assumes "run_radio A fuel turns cmds (r, []) = (go, rest, r', later @ DoTx # before)"
  shows "authorised A cmds before"
  using run_radio_safe [OF assms, of cmds] tx_safe_at [of A cmds later before] by simp

definition calm_air :: air where
  "calm_air = \<lparr> ai_ok = (\<lambda>_. True), ai_irq = (\<lambda>_. True), ai_flags = (\<lambda>_. FlagsDone), ai_detected = (\<lambda>_. False),
     ai_payload = (\<lambda>_. None), ai_policy = (\<lambda>_. set_policy POLICY_STATE True 0), ai_race = (\<lambda>_. CmdWins) \<rparr>"

definition two_bytes :: air_frame where "two_bytes = \<lparr> af_len = 2, af_bytes = [7, 9] @ replicate 253 0 \<rparr>"

definition ready_radio :: radio where
  "ready_radio = \<lparr> rd_mode = RmStandby, rd_cold_start = False, rd_calibrate_image = False,
     rd_sync_word = SYNC_WORD_16, rd_enabled = True, rd_rx_buf = [] \<rparr>"

definition open_token :: tx_token where "open_token = tx_token (set_policy POLICY_STATE True 0) None"

definition calm_before :: "act list" where
  "calm_before =
     [SetIrqParams RmTransmit, SetPayload [7, 9], SetChannel 915000000, SetPacket, CreatePacket 8 2,
      EnsureReady RmStandby, SetPower 2 True, SetModulation, EnsureReady RmStandby, ReadGate,
      SetStandby, ProcessIrq RmCad, AwaitIrq (Some 500), DoCad, SetIrqParams RmCad, SetChannel 915000000,
      SetModulation, SetStandby, EnsureReady RmReceive, ReadGate, CreateModulation, ReadGate,
      AwaitIrq None, ReadGate]"

lemma calm_run:
  "run_radio calm_air 1 1 [RcTx 4 two_bytes 30 None open_token] (ready_radio\<lparr> rd_mode := RmReceive \<rparr>, []) =
     (True, [], ready_radio, [Send (ReTxDone 4 (Inr ()) True), ProcessIrq RmTransmit, AwaitIrq (Some 2500)] @
       DoTx # calm_before)"
  by code_simp

theorem every_transmission_is_authorised_witness:
  "authorised calm_air [RcTx 4 two_bytes 30 None open_token] calm_before"
  by (rule every_transmission_is_authorised [OF calm_run])

lemma run_radio_story:
  assumes "run_radio A fuel turns cmds s = (go, rest, s')" "set cmds \<subseteq> set queue" "tx_safe A queue (snd s)"
  shows "\<exists>served segs.
    story (snd s') = concat (rev segs) @ story (snd s) \<and>
    (cmds = served @ rest \<and> list_all2 answered served segs \<and> (go \<or> rest = []) \<or>
     (\<exists>c seg segs'. cmds = served @ c # rest \<and> segs = segs' @ [seg] \<and> list_all2 answered served segs' \<and>
        cut_off c seg \<and> \<not> go))"
  using assms
proof (induction turns arbitrary: cmds s)
  case 0
  then show ?case by (intro exI [of _ "[]"]) simp
next
  case (Suc turns)
  obtain g r s1 where t: "run_turn A fuel cmds s = (g, r, s1)" by (cases "run_turn A fuel cmds s")
  from t show ?case
  proof (cases rule: run_turn_cases)
    case idle
    have e: "story (snd s1) = story (snd s)" "tx_safe A queue (snd s1)"
      using hushed_keeps [OF idle(3), of A queue] Suc.prems by simp_all
    show ?thesis
    proof (cases g)
      case True
      then show ?thesis using Suc.IH [of cmds s1] Suc.prems t idle(1) e by simp
    next
      case False
      then show ?thesis using Suc.prems t idle(1,2) e by (intro exI [of _ "[]"]) simp
    qed
  next
    case (cmd c s2)
    have e: "story (snd s2) = story (snd s)" "tx_safe A queue (snd s2)"
      using hushed_keeps [OF cmd(2), of A queue] Suc.prems by simp_all
    have c: "c \<in> set queue" "set r \<subseteq> set queue" using cmd(1) Suc.prems by auto
    obtain seg where seg: "story (snd s1) = seg @ story (snd s)" "if g then answered c seg else cut_off c seg"
      and safe: "tx_safe A queue (snd s1)"
      using handle_cmd_keeps [OF cmd(3) c(1) e(2)] e(1) by auto
    show ?thesis
    proof (cases g)
      case False
      then show ?thesis using Suc.prems t seg cmd(1)
        by (intro exI [of _ "[]"] exI [of _ "[seg]"]) auto
    next
      case True
      then have "run_radio A fuel turns r s1 = (go, rest, s')" using Suc.prems(1) t by simp
      from Suc.IH [OF this c(2) safe] obtain served segs where ih: "story (snd s') = concat (rev segs) @ story (snd s1)"
        "r = served @ rest \<and> list_all2 answered served segs \<and> (go \<or> rest = []) \<or>
         (\<exists>c seg segs'. r = served @ c # rest \<and> segs = segs' @ [seg] \<and> list_all2 answered served segs' \<and>
            cut_off c seg \<and> \<not> go)"
        by blast
      have a: "answered c seg" using seg(2) \<open>g\<close> by simp
      show ?thesis
      proof (intro exI conjI)
        show "story (snd s') = concat (rev (seg # segs)) @ story (snd s)" using ih(1) seg(1) by simp
        show "cmds = (c # served) @ rest \<and> list_all2 answered (c # served) (seg # segs) \<and> (go \<or> rest = []) \<or>
         (\<exists>c' seg' segs'. cmds = (c # served) @ c' # rest \<and> seg # segs = segs' @ [seg'] \<and>
            list_all2 answered (c # served) segs' \<and> cut_off c' seg' \<and> \<not> go)"
          using ih(2) cmd(1) a by (auto intro: exI [of _ "seg # x" for x])
      qed
    qed
  qed
qed

text \<open>C13: Every command is answered exactly once, in order. However the driver answers, when the task
  has run there is one segment of the story for each command it took: a barrier or a switch gets one
  completion with its number, a probe one result with its number, and a transmission one result with
  its number that says truly whether the transmitter was started (it was for every reported success,
  and then exactly once). Nothing else transmits or answers. The task stops only when it waits with no
  command queued, or inside a transmission whose end the chip has not signalled within the run.\<close>

theorem one_answer_per_command:
  "case run_radio A fuel turns cmds (r, []) of (go, rest, s') \<Rightarrow>
     \<exists>served segs.
       story (snd s') = concat (rev segs) \<and>
       (cmds = served @ rest \<and> list_all2 answered served segs \<and> (go \<or> rest = []) \<or>
        (\<exists>c seg segs'. cmds = served @ c # rest \<and> segs = segs' @ [seg] \<and>
           list_all2 answered served segs' \<and> cut_off c seg \<and> \<not> go))"
proof -
  obtain go rest s' where run: "run_radio A fuel turns cmds (r, []) = (go, rest, s')"
    by (cases "run_radio A fuel turns cmds (r, [])")
  show ?thesis using run_radio_story [OF run, of cmds] by (simp add: run)
qed

end
