(* ===== verification/Runtime.thy ===== *)
theory Runtime
  imports Usb_Main Radio_Task
begin

text \<open>
  The runtime of the radio image, \<open>firmware/src/runtime.rs\<close>: it owns the engine, commits every
  mutation before its effect is visible, feeds the radio task and answers the host. The clock, the
  random number generator, the storage task, the queues to the radio task and to the USB writer and
  the events that arrive while it waits belong to other tasks: the record \<open>host\<close> answers each access
  from the log of all accesses before it, newest first. A queue accepts an element or is full.
\<close>

section \<open>State\<close>

definition MAX_TX :: u8 where "MAX_TX = 3"
definition ACK_WAIT :: nat where "ACK_WAIT = 12000"
definition RELAY_DELAY_MIN_MS :: nat where "RELAY_DELAY_MIN_MS = 100"
definition RELAY_DELAY_MAX_MS :: nat where "RELAY_DELAY_MAX_MS = 300"
definition WAIT_CONTROL_MS :: nat where "WAIT_CONTROL_MS = 2000"

text \<open>Instants are milliseconds.\<close>

record in_flight =
  if_reply_id :: u64
  if_contact_id :: u8
  if_tx_count :: u8
  if_deadline :: nat
  if_cmd_id :: u64

record ping_in_flight =
  pg_reply_id :: u64
  pg_remaining :: u8
  pg_clear :: u8
  pg_cmd_id :: u64

record pending_forward =
  pf_frame :: air_frame
  pf_at :: nat
  pf_cmd_id :: "u64 option"

datatype rt_act =
    ReadClock
  | DrawWord
  | DrawBytes
  | Store storage_req
  | QueueCmd radio_cmd
  | SendOut bytes
  | AwaitEvents

record host =
  ho_now :: "rt_act list \<Rightarrow> nat"
  ho_word :: "rt_act list \<Rightarrow> u32"
  ho_bytes :: "rt_act list \<Rightarrow> bytes"
  ho_luck :: "rt_act list \<Rightarrow> flash_luck"
  ho_room :: "rt_act list \<Rightarrow> bool"
  ho_events :: "rt_act list \<Rightarrow> radio_evt list"

text \<open>The last four fields are outside of the \<open>Runtime\<close> struct: the flash behind the storage task, the
  policy cell, the credential offered to the Wi-Fi task, and the log.\<close>

record runtime =
  rt_usb :: usb_state
  rt_next_cmd :: u64
  rt_send :: "in_flight option"
  rt_ping :: "ping_in_flight option"
  rt_forward :: "pending_forward option"
  rt_scratch :: bytes
  rt_last_policy :: "(bool \<times> u32) option"
  rt_hw_present :: bool
  rt_flash :: flash
  rt_policy :: policy
  rt_wifi :: "wifi_cred option"
  rt_log :: "rt_act list"

definition Runtime_new :: "usb_state \<Rightarrow> flash \<Rightarrow> policy \<Rightarrow> runtime" where
  "Runtime_new usb fl p = \<lparr>
     rt_usb = usb, rt_next_cmd = 1, rt_send = None, rt_ping = None, rt_forward = None,
     rt_scratch = replicate 4096 0, rt_last_policy = None, rt_hw_present = False,
     rt_flash = fl, rt_policy = p, rt_wifi = None, rt_log = [] \<rparr>"

definition set_hw_present :: "runtime \<Rightarrow> bool \<Rightarrow> runtime" where
  "set_hw_present rt present = rt\<lparr> rt_hw_present := present \<rparr>"

abbreviation rt_engine :: "runtime \<Rightarrow> engine" where
  "rt_engine rt \<equiv> us_engine (rt_usb rt)"

definition with_engine :: "(engine \<Rightarrow> engine) \<Rightarrow> runtime \<Rightarrow> runtime" where
  "with_engine f rt = rt\<lparr> rt_usb := (rt_usb rt)\<lparr> us_engine := f (rt_engine rt) \<rparr> \<rparr>"

definition with_counters :: "(counters \<Rightarrow> counters) \<Rightarrow> runtime \<Rightarrow> runtime" where
  "with_counters f rt = rt\<lparr> rt_usb := (rt_usb rt)\<lparr> us_counters := f (us_counters (rt_usb rt)) \<rparr> \<rparr>"

text \<open>One access to another task.\<close>

definition note_act :: "rt_act \<Rightarrow> runtime \<Rightarrow> runtime" where
  "note_act a rt = rt\<lparr> rt_log := a # rt_log rt \<rparr>"

definition read_now :: "host \<Rightarrow> runtime \<Rightarrow> nat \<times> runtime" where
  "read_now H rt = (let rt = note_act ReadClock rt in (ho_now H (rt_log rt), rt))"

definition draw_word :: "host \<Rightarrow> runtime \<Rightarrow> u32 \<times> runtime" where
  "draw_word H rt = (let rt = note_act DrawWord rt in (ho_word H (rt_log rt), rt))"

definition draw_bytes :: "host \<Rightarrow> runtime \<Rightarrow> bytes \<times> runtime" where
  "draw_bytes H rt = (let rt = note_act DrawBytes rt in (ho_bytes H (rt_log rt), rt))"

definition try_cmd :: "host \<Rightarrow> radio_cmd \<Rightarrow> runtime \<Rightarrow> bool \<times> runtime" where
  "try_cmd H c rt = (let rt = note_act (QueueCmd c) rt in (ho_room H (rt_log rt), rt))"

definition alloc_cmd :: "runtime \<Rightarrow> u64 \<times> runtime" where
  "alloc_cmd rt = (rt_next_cmd rt, rt\<lparr> rt_next_cmd := max (rt_next_cmd rt + 1) 1 \<rparr>)"

section \<open>Replies\<close>

text \<open>A reply longer than a record is not sent; one that finds the queue full is dropped.\<close>

definition reply :: "bytes \<Rightarrow> runtime \<Rightarrow> runtime" where
  "reply b rt = (if length b > 4096 then rt else note_act (SendOut b) rt)"

definition reply_outcome :: "outcome \<Rightarrow> runtime \<Rightarrow> runtime" where
  "reply_outcome oc rt =
     (case oc of Inline len \<Rightarrow> reply (take len (rt_scratch rt)) rt | _ \<Rightarrow> rt)"

text \<open>\<open>push\<close> into a small buffer: what does not fit is left out.\<close>

definition tpush :: "nat \<Rightarrow> bytes \<Rightarrow> bytes \<Rightarrow> bytes" where
  "tpush cap s acc = (if length acc + length s \<le> cap then acc @ s else acc)"

function format_loop :: "nat \<Rightarrow> nat \<Rightarrow> bytes \<Rightarrow> nat \<times> bytes" where
  "format_loop v i out =
     (if v > 0 \<and> i > 0
      then format_loop (v div 10) (i - 1) (out[i - 1 := 0x30 + of_nat (v mod 10)])
      else (i, out))"
  by pat_completeness auto
termination by (relation "measure (\<lambda>(v, _, _). v)") auto

declare format_loop.simps [simp del]

definition format_u64 :: "u64 \<Rightarrow> bytes" where
  "format_u64 v =
     (if v = 0 then [0x30]
      else let (i, out) = format_loop (unat v) 20 (replicate 20 0) in drop i out)"

definition put_scratch :: "bytes \<Rightarrow> runtime \<Rightarrow> outcome \<times> runtime" where
  "put_scratch tmp rt = (Inline (length tmp), rt\<lparr> rt_scratch := put_at 0 tmp (rt_scratch rt) \<rparr>)"

definition render_err :: "u64 \<Rightarrow> string \<Rightarrow> runtime \<Rightarrow> outcome \<times> runtime" where
  "render_err rid code rt =
     put_scratch
       (tpush 64 (ascii ''\"}'') (tpush 64 (ascii code)
         (tpush 64 (ascii '',\"ok\":false,\"error\":\"'') (tpush 64 (format_u64 rid)
           (tpush 64 (ascii ''{\"id\":'') []))))) rt"

definition emit_err :: "u64 \<Rightarrow> string \<Rightarrow> runtime \<Rightarrow> runtime" where
  "emit_err rid code rt = (case render_err rid code rt of (oc, rt) \<Rightarrow> reply_outcome oc rt)"

definition emit_ping :: "u64 \<Rightarrow> u8 \<Rightarrow> u8 \<Rightarrow> runtime \<Rightarrow> runtime" where
  "emit_ping rid probes clear rt =
     (case put_scratch
        (tpush 96 (ascii ''}}'') (tpush 96 (format_u64 (ucast clear))
          (tpush 96 (ascii '',\"clear\":'') (tpush 96 (format_u64 (ucast probes))
            (tpush 96 (ascii '',\"ok\":true,\"result\":{\"probes\":'') (tpush 96 (format_u64 rid)
              (tpush 96 (ascii ''{\"id\":'') []))))))) rt of
        (oc, rt) \<Rightarrow> reply_outcome oc rt)"

definition emit_acknowledged :: "u64 \<Rightarrow> runtime \<Rightarrow> runtime" where
  "emit_acknowledged rid rt =
     (case put_scratch
        (tpush 64 (ascii '',\"ok\":true,\"result\":{\"status\":\"ACKNOWLEDGED\"}}'')
          (tpush 64 (format_u64 rid) (tpush 64 (ascii ''{\"id\":'') []))) rt of
        (oc, rt) \<Rightarrow> reply_outcome oc rt)"

definition emit_unconfirmed :: "u64 \<Rightarrow> runtime \<Rightarrow> runtime" where
  "emit_unconfirmed rid rt =
     (case put_scratch
        (tpush 64 (ascii '',\"ok\":true,\"result\":{\"status\":\"UNCONFIRMED\"}}'')
          (tpush 64 (format_u64 rid) (tpush 64 (ascii ''{\"id\":'') []))) rt of
        (oc, rt) \<Rightarrow> reply_outcome oc rt)"

definition emit_received :: "u8 \<Rightarrow> u32 \<Rightarrow> u64 \<Rightarrow> bytes \<Rightarrow> runtime \<Rightarrow> runtime" where
  "emit_received contact_id ep sq text rt =
     (case reply_received contact_id ep sq text (rt_scratch rt) of
        (Some len, out) \<Rightarrow> reply (take len out) (rt\<lparr> rt_scratch := out \<rparr>)
      | (None, out) \<Rightarrow> rt\<lparr> rt_scratch := out \<rparr>)"

text \<open>The reply owed after a save.\<close>

definition emit_owed :: "runtime \<Rightarrow> runtime" where
  "emit_owed rt =
     (case commit_reply True (rt_usb rt) (rt_scratch rt) of
        (Some len, s, out) \<Rightarrow> reply (take len out) (rt\<lparr> rt_usb := s, rt_scratch := out \<rparr>)
      | (None, s, out) \<Rightarrow> rt\<lparr> rt_usb := s, rt_scratch := out \<rparr>)"

fun engine_code :: "engine_error \<Rightarrow> string" where
  "engine_code BadRequest = ''BAD_REQUEST''"
| "engine_code Unprovisioned = ''UNPROVISIONED''"
| "engine_code StorageFault = ''STORAGE_FAULT''"
| "engine_code TimeUnset = ''TIME_UNSET''"
| "engine_code ETimeRollback = ''TIME_ROLLBACK''"
| "engine_code TimeJumpNeedsConfirm = ''TIME_JUMP_NEEDS_CONFIRM''"
| "engine_code Busy = ''BUSY''"
| "engine_code ContactBlocked = ''CONTACT_BLOCKED''"
| "engine_code RadioMustBeOff = ''RADIO_MUST_BE_OFF''"
| "engine_code RadioUnavailable = ''RADIO_UNAVAILABLE''"
| "engine_code UnknownOp = ''UNKNOWN_OP''"
| "engine_code PairingAbsent = ''BAD_REQUEST''"
| "engine_code PairingExpired = ''BAD_REQUEST''"
| "engine_code NoSlot = ''BAD_REQUEST''"
| "engine_code SasMismatch = ''SAS_MISMATCH''"

section \<open>The gate\<close>

primrec blocked_mask_loop :: "engine \<Rightarrow> nat list \<Rightarrow> u32 \<Rightarrow> u32" where
  "blocked_mask_loop e [] m = m"
| "blocked_mask_loop e (i # is) m =
     blocked_mask_loop e is (if contact_blocked e (of_nat i) then m OR push_bit (i - 1) 1 else m)"

definition blocked_mask :: "engine \<Rightarrow> u32" where
  "blocked_mask e = blocked_mask_loop e [1..<Suc MAX_CONTACTS] 0"

definition sync_policy :: "runtime \<Rightarrow> runtime" where
  "sync_policy rt =
     (let cur = (en_radio_on (rt_engine rt), blocked_mask (rt_engine rt)) in
      if rt_last_policy rt \<noteq> Some cur
      then rt\<lparr> rt_policy := set_policy (rt_policy rt) (fst cur) (snd cur), rt_last_policy := Some cur \<rparr>
      else rt)"

definition fail_radio_closed :: "host \<Rightarrow> runtime \<Rightarrow> runtime" where
  "fail_radio_closed H rt =
     (let m = blocked_mask (rt_engine rt);
          rt = rt\<lparr> rt_policy := set_policy (rt_policy rt) False m, rt_last_policy := Some (False, m) \<rparr>;
          (cmd, rt) = alloc_cmd rt;
          (_, rt) = try_cmd H (RcSetEnabled cmd False) rt;
          rt = (case rt_send rt of
                  Some sd \<Rightarrow>
                    emit_err (if_reply_id sd) ''STORAGE_FAULT''
                      (with_engine (\<lambda>e. send_complete e False) (rt\<lparr> rt_send := None \<rparr>))
                | None \<Rightarrow> rt)
      in rt\<lparr> rt_ping := None, rt_forward := None \<rparr>)"

section \<open>Committing\<close>

text \<open>The loop of \<open>commit\<close> skips every response but \<open>Committed\<close>; \<open>None\<close> is a wait without end.\<close>

fun await_committed :: "storage_resp list \<Rightarrow> bool option" where
  "await_committed [] = None"
| "await_committed (RespCommitted ok # rs) = Some ok"
| "await_committed (_ # rs) = await_committed rs"

text \<open>One request to the storage task, whose service answers each commit once.\<close>

definition store_with ::
  "host \<Rightarrow> (storage_resp list \<Rightarrow> bool option) \<Rightarrow> storage_req \<Rightarrow> runtime \<Rightarrow> bool \<times> runtime" where
  "store_with H await req rt =
     (let rt = note_act (Store req) rt;
          (rs, fl) = storage_service (ho_luck H (rt_log rt)) req (rt_flash rt)
      in (await rs = Some True, rt\<lparr> rt_flash := fl \<rparr>))"

lemma commit_is_answered:
  "await_committed (fst (storage_service k (ReqCommit b len) fl)) \<noteq> None"
  "await_commit (fst (storage_service k (ReqCommitSettings b) fl)) \<noteq> None"
  "await_commit (fst (storage_service k (ReqCommitWifi b) fl)) \<noteq> None"
  by (cases "len = PERSIST_LEN") (simp_all add: storage_service_def)

definition rt_commit :: "host \<Rightarrow> runtime \<Rightarrow> bool \<times> runtime" where
  "rt_commit H rt =
     (let rt = (if us_staged (rt_usb rt) = None then rt\<lparr> rt_usb := stage_for_commit (rt_usb rt) \<rparr> else rt) in
      case us_staged (rt_usb rt) of
        Some (b, len) \<Rightarrow>
          let rt = rt\<lparr> rt_usb := (rt_usb rt)\<lparr> us_staged := None \<rparr> \<rparr>;
              (ok, rt) = store_with H await_committed (ReqCommit b len) rt in
          if ok then (True, with_engine commit_ok rt)
          else
            let rt = with_engine (\<lambda>e. mark_fault (discard_staged e)) rt;
                rt = rt\<lparr> rt_usb := (rt_usb rt)\<lparr> us_health := HealthFault \<rparr> \<rparr>
            in (False, fail_radio_closed H rt)
      | None \<Rightarrow> (True, rt))"

definition commit_settings :: "host \<Rightarrow> runtime \<Rightarrow> bool \<times> runtime" where
  "commit_settings H rt =
     (let (ok, rt) = store_with H await_commit
                       (ReqCommitSettings (Settings_encode (us_settings (rt_usb rt)))) rt in
      if ok then (True, rt)
      else (False, rt\<lparr> rt_usb := (rt_usb rt)\<lparr> us_settings := Settings_default,
                                             us_settings_tx_pending := False \<rparr> \<rparr>))"

definition staged_cred :: "(bytes \<times> u8 \<times> bytes \<times> u8) \<Rightarrow> wifi_cred" where
  "staged_cred w = (case w of (ssid, sl, pass, pl) \<Rightarrow>
     \<lparr> wc_ssid_len = sl, wc_pass_len = pl, wc_ssid = ssid, wc_pass = pass \<rparr>)"

text \<open>The channel to the Wi-Fi task is drained before the new credential goes in.\<close>

definition commit_wifi :: "host \<Rightarrow> runtime \<Rightarrow> bool \<times> runtime" where
  "commit_wifi H rt =
     (let staged = us_staged_wifi (rt_usb rt);
          b = WifiCred_encode (case staged of Some w \<Rightarrow> staged_cred w | None \<Rightarrow> WifiCred_empty);
          (ok, rt) = store_with H await_commit (ReqCommitWifi b) rt in
      if \<not> ok then (False, rt)
      else
        let is_forget = (case us_staged_reply (rt_usb rt) of Some (SrWifiForget _) \<Rightarrow> True | _ \<Rightarrow> False);
            rt = (case staged of
                    Some w \<Rightarrow> if is_forget then rt else rt\<lparr> rt_wifi := Some (staged_cred w) \<rparr>
                  | None \<Rightarrow> rt);
            sl = (if is_forget then 0
                  else case staged of Some (_, sl, _, _) \<Rightarrow> sl | None \<Rightarrow> us_wifi_ssid_len (rt_usb rt))
        in (True, rt\<lparr> rt_usb := (rt_usb rt)\<lparr> us_wifi_ssid_len := sl, us_staged_wifi := None \<rparr> \<rparr>))"

definition rt_advance_time :: "host \<Rightarrow> runtime \<Rightarrow> runtime" where
  "rt_advance_time H rt =
     (let (now, rt) = read_now H rt;
          (r, e) = advance_time (rt_engine rt) (of_nat (now div 1000));
          rt = with_engine (\<lambda>_. e) rt in
      case r of
        Inl _ \<Rightarrow> fail_radio_closed H rt
      | Inr _ \<Rightarrow> if pending_persist e \<noteq> None then snd (rt_commit H rt) else rt)"

section \<open>Transmitting\<close>

definition air_from_outgoing :: "outgoing_frame \<Rightarrow> air_frame" where
  "air_from_outgoing f =
     (let len = of_nat (min (of_len f) RADIO_BUF_LEN) :: u8 in
      \<lparr> af_len = len,
        af_bytes = put_at 0 (take (unat len) (OutgoingFrame_as_slice f)) (replicate RADIO_BUF_LEN 0) \<rparr>)"

text \<open>A jitter, a synchronised gate, a token, a command number: the steps before every transmission.\<close>

definition draw_jitter :: "host \<Rightarrow> runtime \<Rightarrow> u64 \<times> runtime" where
  "draw_jitter H rt = (let (w, rt) = draw_word H rt in (ucast (w mod 81 + 20), rt))"

definition queue_frame ::
  "host \<Rightarrow> u8 option \<Rightarrow> u64 \<Rightarrow> air_frame \<Rightarrow> runtime \<Rightarrow> (u64 \<times> bool) \<times> runtime" where
  "queue_frame H contact jitter air rt =
     (let rt = sync_policy rt;
          token = tx_token (rt_policy rt) contact;
          (cmd_id, rt) = alloc_cmd rt;
          (ok, rt) = try_cmd H (RcTx cmd_id air jitter contact token) rt
      in ((cmd_id, ok), rt))"

definition queue_tx ::
  "host \<Rightarrow> u64 \<Rightarrow> u8 option \<Rightarrow> outgoing_frame \<Rightarrow> bool \<Rightarrow> runtime \<Rightarrow> runtime" where
  "queue_tx H reply_id contact f is_retry rt =
     (let (jitter, rt) = draw_jitter H rt;
          air = air_from_outgoing f;
          ((cmd_id, ok), rt) = queue_frame H contact jitter air rt in
      if ok then
        (if is_retry then rt
         else
           case contact of
             Some c \<Rightarrow>
               let (now, rt) = read_now H rt in
               rt\<lparr> rt_send := Some \<lparr> if_reply_id = reply_id, if_contact_id = c, if_tx_count = 1,
                                       if_deadline = now + ACK_WAIT, if_cmd_id = cmd_id \<rparr> \<rparr>
           | None \<Rightarrow>
               let (now, rt) = read_now H rt in
               with_counters report_forward
                 (rt\<lparr> rt_forward := Some \<lparr> pf_frame = air, pf_at = now, pf_cmd_id = Some cmd_id \<rparr> \<rparr>))
      else if contact \<noteq> None
      then emit_err reply_id ''BUSY'' (with_engine (\<lambda>e. send_complete e False) rt)
      else rt)"

definition clear_send_text :: "runtime \<Rightarrow> runtime" where
  "clear_send_text rt = rt\<lparr> rt_usb := (rt_usb rt)\<lparr> us_send_len := 0 \<rparr> \<rparr>"

definition drive_send_prep :: "crypto \<Rightarrow> host \<Rightarrow> runtime \<Rightarrow> outcome \<times> runtime" where
  "drive_send_prep C H rt =
     (let parked = us_pending_op (rt_usb rt);
          rt = rt\<lparr> rt_usb := (rt_usb rt)\<lparr> us_pending_op := None \<rparr> \<rparr> in
      case parked of
        Some (PoSendPrep rid contact) \<Rightarrow>
          if \<not> en_radio_on (rt_engine rt) then render_err rid ''RADIO_UNAVAILABLE'' (clear_send_text rt)
          else if rt_send rt \<noteq> None then render_err rid ''BUSY'' (clear_send_text rt)
          else
            let text = take (unat (us_send_len (rt_usb rt))) (us_send_text (rt_usb rt));
                (w, rt) = draw_word H rt;
                (packet_id, usb) = next_packet_id (rt_usb rt) w;
                rt = rt\<lparr> rt_usb := usb \<rparr>;
                (r, e) = send_begin (rt_engine rt) contact text packet_id;
                rt = with_engine (\<lambda>_. e) rt in
            (case r of
               Inl err \<Rightarrow> render_err rid (engine_code err) (clear_send_text rt)
             | Inr _ \<Rightarrow>
                 (case rt_commit H rt of
                    (False, rt) \<Rightarrow> render_err rid ''STORAGE_FAULT'' (clear_send_text rt)
                  | (True, rt) \<Rightarrow>
                      let (r, e) = send_emit C (rt_engine rt);
                          rt = with_engine (\<lambda>_. e) rt in
                      (case r of
                         Inl err \<Rightarrow>
                           render_err rid (engine_code err)
                             (clear_send_text (with_engine (\<lambda>e. send_complete e False) rt))
                       | Inr f \<Rightarrow>
                           (case rt_commit H rt of
                              (False, rt) \<Rightarrow> render_err rid ''STORAGE_FAULT'' (clear_send_text rt)
                            | (True, rt) \<Rightarrow>
                                (Silent, queue_tx H rid (Some contact) f False (clear_send_text rt))))))
      | _ \<Rightarrow> (Silent, rt))"

definition drive_ping_prep :: "host \<Rightarrow> runtime \<Rightarrow> outcome \<times> runtime" where
  "drive_ping_prep H rt =
     (let parked = us_pending_op (rt_usb rt);
          rt = rt\<lparr> rt_usb := (rt_usb rt)\<lparr> us_pending_op := None \<rparr> \<rparr> in
      case parked of
        Some (PoPingPrep rid count) \<Rightarrow>
          if rt_ping rt \<noteq> None then render_err rid ''BUSY'' rt
          else
            let (cmd_id, rt) = alloc_cmd rt;
                (ok, rt) = try_cmd H (RcCadProbe cmd_id) rt in
            if ok
            then (Silent, rt\<lparr> rt_ping := Some \<lparr> pg_reply_id = rid, pg_remaining = count, pg_clear = 0,
                                                   pg_cmd_id = cmd_id \<rparr> \<rparr>)
            else render_err rid ''BUSY'' rt
      | _ \<Rightarrow> (Silent, rt))"

definition drive_trng_op :: "crypto \<Rightarrow> host \<Rightarrow> runtime \<Rightarrow> outcome \<times> runtime" where
  "drive_trng_op C H rt =
     (let parked = us_pending_op (rt_usb rt);
          rt = rt\<lparr> rt_usb := (rt_usb rt)\<lparr> us_pending_op := None \<rparr> \<rparr> in
      case parked of
        Some (PoProvision rid label) \<Rightarrow>
          let (key, rt) = draw_bytes H rt in
          (case complete_provision (rt_usb rt) rid label key (rt_scratch rt) of
             (oc, s, out) \<Rightarrow> (oc, rt\<lparr> rt_usb := s, rt_scratch := out \<rparr>))
      | Some (PoPairOffer rid) \<Rightarrow>
          let (eph_priv, rt) = draw_bytes H rt;
              (challenge, rt) = draw_bytes H rt in
          (case complete_pair_offer C (rt_usb rt) rid eph_priv (k_x_public C eph_priv) challenge (rt_scratch rt) of
             (oc, s, out) \<Rightarrow> (oc, rt\<lparr> rt_usb := s, rt_scratch := out \<rparr>))
      | _ \<Rightarrow> (Silent, rt))"

section \<open>Radio events\<close>

definition on_tx_done :: "host \<Rightarrow> u64 \<Rightarrow> tx_fault + unit \<Rightarrow> bool \<Rightarrow> runtime \<Rightarrow> runtime" where
  "on_tx_done H rid result attempted rt =
     (let rt = (if attempted then with_counters report_tx_attempted rt else rt);
          summary = (case result of
                       Inr _ \<Rightarrow> TdSuccess | Inl ChannelBusy \<Rightarrow> TdBusy
                     | Inl TfCancelled \<Rightarrow> TdCancelled | Inl TfRadio \<Rightarrow> TdRadio);
          rt = with_counters (\<lambda>k. report_tx_done k summary) rt;
          forwards = (\<lambda>rt. case rt_forward rt of
                        Some fwd \<Rightarrow> if pf_cmd_id fwd = Some rid then rt\<lparr> rt_forward := None \<rparr> else rt
                      | None \<Rightarrow> rt) in
      case rt_send rt of
        Some sd \<Rightarrow>
          if if_cmd_id sd = rid then
            (case result of
               Inr _ \<Rightarrow>
                 let (now, rt) = read_now H rt in
                 rt\<lparr> rt_send := Some (sd\<lparr> if_deadline := now + ACK_WAIT, if_cmd_id := rid \<rparr>) \<rparr>
             | Inl fault \<Rightarrow>
                 let rt = with_engine (\<lambda>e. send_complete e False) (rt\<lparr> rt_send := None \<rparr>);
                     code = (case fault of
                               ChannelBusy \<Rightarrow> ''CHANNEL_BUSY''
                             | TfCancelled \<Rightarrow>
                                 if contact_blocked (rt_engine rt) (if_contact_id sd)
                                 then ''CONTACT_BLOCKED'' else ''BUSY''
                             | TfRadio \<Rightarrow> ''RADIO'')
                 in emit_err (if_reply_id sd) code rt)
          else forwards rt
      | None \<Rightarrow> forwards rt)"

text \<open>\<open>ping.remaining -= 1\<close> is a plain subtraction; the count of a ping is at least one.\<close>

definition on_cad_done :: "host \<Rightarrow> u64 \<Rightarrow> tx_fault + bool \<Rightarrow> runtime \<Rightarrow> runtime" where
  "on_cad_done H rid result rt =
     (case rt_ping rt of
        None \<Rightarrow> rt
      | Some ping \<Rightarrow>
          if pg_cmd_id ping \<noteq> rid then rt
          else
            let rt = rt\<lparr> rt_ping := None \<rparr> in
            (case result of
               Inr clear \<Rightarrow>
                 let ping = (if clear then ping\<lparr> pg_clear := pg_clear ping + 1 \<rparr> else ping);
                     ping = ping\<lparr> pg_remaining := pg_remaining ping - 1 \<rparr> in
                 if pg_remaining ping = 0 then
                   let rt = emit_ping (pg_reply_id ping) (us_ping_count (rt_usb rt)) (pg_clear ping) rt
                   in rt\<lparr> rt_usb := (rt_usb rt)\<lparr> us_ping_count := 0 \<rparr> \<rparr>
                 else
                   let (cmd_id, rt) = alloc_cmd rt;
                       (ok, rt) = try_cmd H (RcCadProbe cmd_id) rt in
                   if ok then rt\<lparr> rt_ping := Some (ping\<lparr> pg_cmd_id := cmd_id \<rparr>) \<rparr>
                   else emit_err (pg_reply_id ping) ''BUSY'' rt
             | Inl TfCancelled \<Rightarrow>
                 if en_radio_on (rt_engine rt) then emit_err (pg_reply_id ping) ''BUSY'' rt
                 else emit_err (pg_reply_id ping) ''RADIO_UNAVAILABLE'' rt
             | Inl _ \<Rightarrow> emit_err (pg_reply_id ping) ''RADIO'' rt))"

definition send_ack_frame :: "crypto \<Rightarrow> host \<Rightarrow> outgoing_frame \<Rightarrow> runtime \<Rightarrow> runtime" where
  "send_ack_frame C H ack rt =
     (let contact = of_contact_id ack;
          (jitter, rt) = draw_jitter H rt;
          rt = sync_policy rt;
          token = tx_token (rt_policy rt) contact;
          (cmd_id, rt) = alloc_cmd rt;
          air = air_from_outgoing ack;
          (now, rt) = read_now H rt;
          rt = with_engine (\<lambda>e. note_origin C e (OutgoingFrame_as_slice ack) (of_nat now)) rt
      in snd (try_cmd H (RcTx cmd_id air jitter contact token) rt))"

definition schedule_forward :: "host \<Rightarrow> outgoing_frame \<Rightarrow> runtime \<Rightarrow> runtime" where
  "schedule_forward H fwd rt =
     (let (w, rt) = draw_word H rt;
          jitter = RELAY_DELAY_MIN_MS + unat w mod (RELAY_DELAY_MAX_MS - RELAY_DELAY_MIN_MS + 1);
          air = air_from_outgoing fwd;
          (now, rt) = read_now H rt
      in with_counters report_forward
           (rt\<lparr> rt_forward := Some \<lparr> pf_frame = air, pf_at = now + jitter, pf_cmd_id = None \<rparr> \<rparr>))"

definition ack_if :: "crypto \<Rightarrow> host \<Rightarrow> outgoing_frame option \<Rightarrow> runtime \<Rightarrow> runtime" where
  "ack_if C H out rt = (case out of Some ack \<Rightarrow> send_ack_frame C H ack rt | None \<Rightarrow> rt)"

definition on_rx :: "crypto \<Rightarrow> host \<Rightarrow> air_frame \<Rightarrow> runtime \<Rightarrow> runtime" where
  "on_rx C H frame rt =
     (let (now, rt) = read_now H rt;
          b = take (unat (af_len frame)) (af_bytes frame);
          (ack_id, rt) = draw_word H rt;
          ((kind, out_ack, event), e) = on_frame C (rt_engine rt) b (of_nat now) ack_id;
          rt = with_engine (\<lambda>_. e) rt;
          rt = with_counters (\<lambda>k. mirror_reception k (rt_engine rt)) rt in
      case kind of
        Deliver _ _ \<Rightarrow>
          (case rt_commit H (with_counters report_rx_frame rt) of
             (False, rt) \<Rightarrow> rt
           | (True, rt) \<Rightarrow>
               let rt = ack_if C H out_ack rt in
               (case event of
                  Some (Received contact_id ep sq text text_len) \<Rightarrow>
                    emit_received contact_id ep sq (take (unat text_len) text) rt
                | _ \<Rightarrow> rt))
      | ReAck _ \<Rightarrow>
          (case rt_commit H rt of (False, rt) \<Rightarrow> rt | (True, rt) \<Rightarrow> ack_if C H out_ack rt)
      | Ack contact_id \<Rightarrow>
          (case rt_commit H rt of
             (False, rt) \<Rightarrow> rt
           | (True, rt) \<Rightarrow>
               (case rt_send rt of
                  Some sd \<Rightarrow>
                    if if_contact_id sd = contact_id
                    then emit_acknowledged (if_reply_id sd)
                           (with_engine (\<lambda>e. send_complete e True) (rt\<lparr> rt_send := None \<rparr>))
                    else rt
                | None \<Rightarrow> rt))
      | Forward \<Rightarrow> (case out_ack of Some fwd \<Rightarrow> schedule_forward H fwd rt | None \<Rightarrow> rt)
      | Ignore \<Rightarrow> if pending_persist (rt_engine rt) \<noteq> None then snd (rt_commit H rt) else rt)"

text \<open>The handler after the engine has judged the frame.\<close>

lemma on_rx_judged:
  assumes "read_now H rt = (now, rt1)" and "draw_word H rt1 = (w, rt2)"
    and "on_frame C (rt_engine rt2) (take (unat (af_len frame)) (af_bytes frame)) (of_nat now) w = ((kind, out, event), e)"
    and "rt3 = with_counters (\<lambda>k. mirror_reception k (rt_engine (with_engine (\<lambda>_. e) rt2))) (with_engine (\<lambda>_. e) rt2)"
  shows "on_rx C H frame rt =
     (case kind of
        Deliver _ _ \<Rightarrow>
          (case rt_commit H (with_counters report_rx_frame rt3) of
             (False, rt) \<Rightarrow> rt
           | (True, rt) \<Rightarrow>
               let rt = ack_if C H out rt in
               (case event of
                  Some (Received contact_id ep sq text text_len) \<Rightarrow>
                    emit_received contact_id ep sq (take (unat text_len) text) rt
                | _ \<Rightarrow> rt))
      | ReAck _ \<Rightarrow> (case rt_commit H rt3 of (False, rt) \<Rightarrow> rt | (True, rt) \<Rightarrow> ack_if C H out rt)
      | Ack contact_id \<Rightarrow>
          (case rt_commit H rt3 of
             (False, rt) \<Rightarrow> rt
           | (True, rt) \<Rightarrow>
               (case rt_send rt of
                  Some sd \<Rightarrow>
                    if if_contact_id sd = contact_id
                    then emit_acknowledged (if_reply_id sd)
                           (with_engine (\<lambda>e. send_complete e True) (rt\<lparr> rt_send := None \<rparr>))
                    else rt
                | None \<Rightarrow> rt))
      | Forward \<Rightarrow> (case out of Some fwd \<Rightarrow> schedule_forward H fwd rt3 | None \<Rightarrow> rt3)
      | Ignore \<Rightarrow> if pending_persist (rt_engine rt3) \<noteq> None then snd (rt_commit H rt3) else rt3)"
  using assms by (cases kind) (simp_all add: on_rx_def Let_def split: option.split)

fun on_radio_evt :: "crypto \<Rightarrow> host \<Rightarrow> radio_evt \<Rightarrow> runtime \<Rightarrow> runtime" where
  "on_radio_evt C H (ReControlDone _ _) rt = rt"
| "on_radio_evt C H (ReTxDone rid result attempted) rt = on_tx_done H rid result attempted rt"
| "on_radio_evt C H (ReCadDone rid result) rt = on_cad_done H rid result rt"
| "on_radio_evt C H (ReRxFrame frame) rt = on_rx C H frame rt"
| "on_radio_evt C H ReRxCrcError rt = with_counters report_rx_crc rt"
| "on_radio_evt C H ReFault rt = fail_radio_closed H rt"

section \<open>Deadlines\<close>

definition poll_send :: "crypto \<Rightarrow> host \<Rightarrow> runtime \<Rightarrow> runtime" where
  "poll_send C H rt =
     (case rt_send rt of
        None \<Rightarrow> rt
      | Some sd \<Rightarrow>
          let (now, rt) = read_now H rt in
          if now \<ge> if_deadline sd then
            (let rt = rt\<lparr> rt_send := None \<rparr> in
             if if_tx_count sd < MAX_TX then
               (case send_retry_echo C (rt_engine rt) of
                  Inr f \<Rightarrow>
                    let (jitter, rt) = draw_jitter H rt;
                        contact = Some (if_contact_id sd);
                        air = air_from_outgoing f;
                        ((cmd_id, ok), rt) = queue_frame H contact jitter air rt in
                    if ok then
                      let (now, rt) = read_now H rt in
                      rt\<lparr> rt_send := Some (sd\<lparr> if_tx_count := if_tx_count sd + 1,
                                                   if_deadline := now + ACK_WAIT, if_cmd_id := cmd_id \<rparr>) \<rparr>
                    else emit_err (if_reply_id sd) ''BUSY'' (with_engine (\<lambda>e. send_complete e False) rt)
                | Inl err \<Rightarrow>
                    emit_err (if_reply_id sd) (engine_code err) (with_engine (\<lambda>e. send_complete e False) rt))
             else emit_unconfirmed (if_reply_id sd) (with_engine (\<lambda>e. send_complete e False) rt))
          else rt)"

definition poll_forward :: "host \<Rightarrow> runtime \<Rightarrow> runtime" where
  "poll_forward H rt =
     (case rt_forward rt of
        None \<Rightarrow> rt
      | Some fwd \<Rightarrow>
          if pf_cmd_id fwd \<noteq> None then rt
          else
            let (now, rt) = read_now H rt in
            if now < pf_at fwd then rt
            else
              let (jitter, rt) = draw_jitter H rt;
                  ((cmd_id, ok), rt) = queue_frame H None jitter (pf_frame fwd) rt
              in if ok then rt\<lparr> rt_forward := Some (fwd\<lparr> pf_cmd_id := Some cmd_id \<rparr>) \<rparr> else rt)"

definition poll_timeouts :: "crypto \<Rightarrow> host \<Rightarrow> runtime \<Rightarrow> runtime" where
  "poll_timeouts C H rt = poll_forward H (poll_send C H rt)"

section \<open>Controls\<close>

text \<open>The events the wait receives before its time is over are given by the host.\<close>

primrec wait_loop :: "crypto \<Rightarrow> host \<Rightarrow> u64 \<Rightarrow> nat \<Rightarrow> radio_evt list \<Rightarrow> runtime \<Rightarrow> bool \<times> runtime" where
  "wait_loop C H want deadline [] rt = (False, rt)"
| "wait_loop C H want deadline (ev # evs) rt =
     (let (now, rt) = read_now H rt in
      if now \<ge> deadline then (False, rt)
      else
        case ev of
          ReControlDone rid ok \<Rightarrow>
            if rid = want then (ok, rt) else wait_loop C H want deadline evs (on_radio_evt C H ev rt)
        | _ \<Rightarrow> wait_loop C H want deadline evs (on_radio_evt C H ev rt))"

definition wait_control :: "crypto \<Rightarrow> host \<Rightarrow> u64 \<Rightarrow> runtime \<Rightarrow> bool \<times> runtime" where
  "wait_control C H want rt =
     (if \<not> rt_hw_present rt then (False, rt)
      else
        let (now, rt) = read_now H rt;
            rt = note_act AwaitEvents rt
        in wait_loop C H want (now + WAIT_CONTROL_MS) (ho_events H (rt_log rt)) rt)"

text \<open>Queue a barrier and wait for it: \<open>None\<close> when the queue is full.\<close>

definition barrier :: "crypto \<Rightarrow> host \<Rightarrow> runtime \<Rightarrow> bool option \<times> runtime" where
  "barrier C H rt =
     (let (b, rt) = alloc_cmd rt;
          (ok, rt) = try_cmd H (RcBarrier b) rt in
      if \<not> ok then (None, rt)
      else case wait_control C H b rt of (ok, rt) \<Rightarrow> (Some ok, rt))"

definition control_set_radio_already_staged ::
  "crypto \<Rightarrow> host \<Rightarrow> u64 \<Rightarrow> bool \<Rightarrow> runtime \<Rightarrow> runtime" where
  "control_set_radio_already_staged C H rid enabled rt =
     (case rt_commit H rt of
        (False, rt) \<Rightarrow> emit_err (us_reply_id (rt_usb rt)) ''STORAGE_FAULT'' rt
      | (True, rt) \<Rightarrow>
          let rt = (if enabled then rt\<lparr> rt_usb := (rt_usb rt)\<lparr> us_settings_tx_pending := False \<rparr> \<rparr> else rt);
              rt = sync_policy rt;
              drop_pending = (\<lambda>rt. if enabled then rt else rt\<lparr> rt_send := None, rt_forward := None \<rparr>) in
          if rt_hw_present rt then
            (let (cmd, rt) = alloc_cmd rt;
                 (ok, rt) = try_cmd H (RcSetEnabled cmd enabled) rt in
             if \<not> ok then emit_err rid ''BUSY'' rt
             else
               (case barrier C H rt of
                  (None, rt) \<Rightarrow> emit_err rid ''BUSY'' rt
                | (Some ok, rt) \<Rightarrow>
                    let rt = drop_pending rt in
                    if ok then emit_owed rt else emit_err rid ''BUSY'' rt))
          else emit_owed (drop_pending rt))"

definition control_set_blocked_already_staged :: "crypto \<Rightarrow> host \<Rightarrow> u64 \<Rightarrow> runtime \<Rightarrow> runtime" where
  "control_set_blocked_already_staged C H rid rt =
     (case rt_commit H rt of
        (False, rt) \<Rightarrow> emit_err (us_reply_id (rt_usb rt)) ''STORAGE_FAULT'' rt
      | (True, rt) \<Rightarrow>
          let rt = sync_policy rt in
          if rt_hw_present rt then
            (case barrier C H rt of
               (None, rt) \<Rightarrow> emit_err rid ''BUSY'' rt
             | (Some ok, rt) \<Rightarrow> if ok then emit_owed rt else emit_err rid ''BUSY'' rt)
          else emit_owed rt)"

text \<open>The arm of \<open>on_usb_outcome\<close> for a deleted contact: it drops the send in flight, whoever it is for.
  \<open>Inr\<close> goes on to the shared commit and the owed reply; \<open>Inl\<close> has answered.\<close>

definition delete_barrier :: "crypto \<Rightarrow> host \<Rightarrow> u64 \<Rightarrow> runtime \<Rightarrow> runtime + runtime" where
  "delete_barrier C H rid rt =
     (case rt_commit H rt of
        (False, rt) \<Rightarrow> Inl (emit_err (us_reply_id (rt_usb rt)) ''STORAGE_FAULT'' rt)
      | (True, rt) \<Rightarrow>
          let rt = sync_policy rt;
              rt = (case rt_send rt of
                      Some sd \<Rightarrow>
                        emit_err (if_reply_id sd) ''BUSY''
                          (with_engine (\<lambda>e. send_complete e False) (rt\<lparr> rt_send := None \<rparr>))
                    | None \<Rightarrow> rt) in
          if rt_hw_present rt then
            (case barrier C H rt of
               (None, rt) \<Rightarrow> Inl (emit_err rid ''BUSY'' rt)
             | (Some ok, rt) \<Rightarrow> if ok then Inr rt else Inl (emit_err rid ''STORAGE_FAULT'' rt))
          else Inr rt)"

definition or_fault :: "bool \<times> runtime \<Rightarrow> runtime + runtime" where
  "or_fault r =
     (case r of
        (True, rt) \<Rightarrow> Inr rt
      | (False, rt) \<Rightarrow> Inl (emit_err (us_reply_id (rt_usb rt)) ''STORAGE_FAULT'' rt))"

section \<open>Direct controls\<close>

text \<open>Entry points of the runtime that the USB dispatch does not use. The first two expect the snapshot
  to be staged for the storage task although only the engine has staged one.\<close>

definition control_set_radio :: "crypto \<Rightarrow> host \<Rightarrow> u64 \<Rightarrow> bool \<Rightarrow> runtime \<Rightarrow> runtime" where
  "control_set_radio C H rid enabled rt =
     (let (r, e) = set_radio (rt_engine rt) enabled;
          rt = with_engine (\<lambda>_. e) rt in
      case r of
        Inl _ \<Rightarrow> rt
      | Inr _ \<Rightarrow>
          if us_staged (rt_usb rt) = None then with_engine discard_staged rt
          else control_set_radio_already_staged C H rid enabled rt)"

definition apply_block_commit :: "crypto \<Rightarrow> host \<Rightarrow> u64 \<Rightarrow> block_outcome \<Rightarrow> runtime \<Rightarrow> runtime" where
  "apply_block_commit C H rid oc rt =
     (case oc of
        CancelledSend _ \<Rightarrow>
          let pending = rt_send rt in
          (case rt_commit H (rt\<lparr> rt_send := None \<rparr>) of
             (False, rt) \<Rightarrow> rt
           | (True, rt) \<Rightarrow>
               let rt = sync_policy rt;
                   cancelled = (\<lambda>rt. case pending of
                       Some sd \<Rightarrow> emit_err (if_reply_id sd) ''CONTACT_BLOCKED'' rt | None \<Rightarrow> rt) in
               if rt_hw_present rt then
                 (case barrier C H rt of
                    (None, rt) \<Rightarrow> emit_err rid ''BUSY'' rt
                  | (Some _, rt) \<Rightarrow> emit_owed (cancelled rt))
               else emit_owed (cancelled rt))
      | _ \<Rightarrow>
          (case rt_commit H rt of
             (False, rt) \<Rightarrow> rt
           | (True, rt) \<Rightarrow>
               let rt = sync_policy rt in
               if rt_hw_present rt then
                 (case barrier C H rt of
                    (None, rt) \<Rightarrow> emit_err rid ''BUSY'' rt
                  | (Some ok, rt) \<Rightarrow> if ok then emit_owed rt else emit_err rid ''STORAGE_FAULT'' rt)
               else emit_owed rt))"

definition control_set_blocked :: "crypto \<Rightarrow> host \<Rightarrow> u64 \<Rightarrow> u8 \<Rightarrow> bool \<Rightarrow> runtime \<Rightarrow> runtime" where
  "control_set_blocked C H rid contact_id blocked rt =
     (let (r, e) = set_blocked (rt_engine rt) contact_id blocked;
          rt = with_engine (\<lambda>_. e) rt in
      case r of
        Inl _ \<Rightarrow> rt
      | Inr oc \<Rightarrow>
          if us_staged (rt_usb rt) = None then with_engine discard_staged rt
          else apply_block_commit C H rid oc rt)"

section \<open>Commands of the host\<close>

definition finish_commit :: "crypto \<Rightarrow> host \<Rightarrow> runtime \<Rightarrow> runtime" where
  "finish_commit C H rt =
     (let go_on = (\<lambda>r. case rbind r (\<lambda>rt. or_fault (rt_commit H rt)) of
                        Inl rt \<Rightarrow> rt | Inr rt \<Rightarrow> emit_owed rt) in
      case us_staged_reply (rt_usb rt) of
        Some (SrRadioSet rid enabled) \<Rightarrow> control_set_radio_already_staged C H rid enabled rt
      | Some (SrBlock rid _ _) \<Rightarrow> control_set_blocked_already_staged C H rid rt
      | Some (SrSimple rid _) \<Rightarrow> go_on (delete_barrier C H rid rt)
      | Some (SrSettingsSet _ _ _ _) \<Rightarrow> go_on (or_fault (commit_settings H rt))
      | Some (SrWifiSet _) \<Rightarrow> go_on (or_fault (commit_wifi H rt))
      | Some (SrWifiForget _) \<Rightarrow> go_on (or_fault (commit_wifi H rt))
      | _ \<Rightarrow> go_on (Inr rt))"

definition on_usb_outcome :: "crypto \<Rightarrow> host \<Rightarrow> outcome \<Rightarrow> runtime \<Rightarrow> runtime" where
  "on_usb_outcome C H oc rt =
     (let (oc, rt) = (if oc = NeedsTrng then drive_trng_op C H rt else (oc, rt));
          (oc, rt) = (if oc = NeedsSendPrep then drive_send_prep C H rt else (oc, rt));
          (oc, rt) = (if oc = NeedsPingPrep then drive_ping_prep H rt else (oc, rt)) in
      case oc of
        NeedsCommit _ \<Rightarrow> finish_commit C H rt
      | Inline len \<Rightarrow> reply (take len (rt_scratch rt)) rt
      | NeedsRebootBootsel \<Rightarrow>
          let rt = rt\<lparr> rt_usb := (rt_usb rt)\<lparr>
                     us_pending_op := Some (PoRebootBootsel (us_reply_id (rt_usb rt))) \<rparr> \<rparr> in
          (case reply_rebooting (rt_usb rt) (rt_scratch rt) of
             (Some len, out) \<Rightarrow> reply (take len out) (rt\<lparr> rt_scratch := out \<rparr>)
           | (None, out) \<Rightarrow> rt\<lparr> rt_scratch := out \<rparr>)
      | _ \<Rightarrow> rt)"

definition rt_pump_byte :: "crypto \<Rightarrow> json_core \<Rightarrow> host \<Rightarrow> u8 \<Rightarrow> line_buffer \<times> runtime \<Rightarrow> line_buffer \<times> runtime" where
  "rt_pump_byte C J H b st =
     (let (lines, rt) = st in
      case pump_byte C J True (rt_usb rt) lines b (rt_scratch rt) PARSE_SCRATCH_LEN of
        (oc, s, lines, out) \<Rightarrow>
          let rt = rt\<lparr> rt_usb := s, rt_scratch := out \<rparr> in
          (case oc of Some oc \<Rightarrow> (lines, on_usb_outcome C H oc rt) | None \<Rightarrow> (lines, rt)))"

text \<open>The start of \<open>runtime_task\<close> after the boot of the radio image; the radio was found or not.\<close>

definition runtime_start ::
  "crypto \<Rightarrow> bytes \<Rightarrow> u8 option \<Rightarrow> bool \<Rightarrow> storage_resp list \<Rightarrow> flash \<Rightarrow> (line_buffer \<times> runtime) option" where
  "runtime_start C uid radio_version available rs fl =
     (case main_boot C True uid radio_version available rs of
        None \<Rightarrow> None
      | Some usb \<Rightarrow> Some (LineBuffer_new, set_hw_present (Runtime_new usb fl POLICY_STATE) available))"

text \<open>One turn of \<open>runtime_task\<close> with the bytes and events that are waiting; \<open>True\<close> says that the
  board restarts into its boot loader.\<close>

definition runtime_turn ::
  "crypto \<Rightarrow> json_core \<Rightarrow> host \<Rightarrow> bytes \<Rightarrow> radio_evt list \<Rightarrow> line_buffer \<times> runtime \<Rightarrow>
   bool \<times> line_buffer \<times> runtime" where
  "runtime_turn C J H bs evs st =
     (let (lines, rt) = st;
          (lines, rt) = fold (rt_pump_byte C J H) bs (lines, rt_advance_time H rt) in
      case us_pending_op (rt_usb rt) of
        Some (PoRebootBootsel _) \<Rightarrow> (True, lines, rt\<lparr> rt_usb := (rt_usb rt)\<lparr> us_pending_op := None \<rparr> \<rparr>)
      | _ \<Rightarrow> (False, lines, poll_timeouts C H (fold (on_radio_evt C H) evs rt)))"

end
