(* ===== verification/Runtime_Refine.thy ===== *)
theory Runtime_Refine
  imports Runtime Usb_Serve Engine_Handshake
begin

text \<open>
  The runtime of the radio image against the abstract node: every step of it is a run of the node.
\<close>

context transition_system
begin

lemma exec_append: "exec s ls t \<Longrightarrow> exec t ls' u \<Longrightarrow> exec s (ls @ ls') u"
  by (rotate_tac 1, induction rule: exec.induct) (auto simp flip: append_assoc intro: exec.intros)

end

section \<open>What a step leaves alone\<close>

text \<open>The part of the runtime the node sees: the engine, its record in flash, what is handed to the
  storage task, and the health.\<close>

definition core :: "runtime \<Rightarrow> engine \<times> bytes option \<times> (bytes \<times> nat) option \<times> store_health" where
  "core rt = (rt_engine rt, fl_node (rt_flash rt), us_staged (rt_usb rt), us_health (rt_usb rt))"

lemma core_updates [simp]:
  "core (rt\<lparr> rt_log := l \<rparr>) = core rt" "core (rt\<lparr> rt_next_cmd := n \<rparr>) = core rt"
  "core (rt\<lparr> rt_send := sd \<rparr>) = core rt" "core (rt\<lparr> rt_ping := pg \<rparr>) = core rt"
  "core (rt\<lparr> rt_forward := fw \<rparr>) = core rt" "core (rt\<lparr> rt_scratch := b \<rparr>) = core rt"
  "core (rt\<lparr> rt_last_policy := lp \<rparr>) = core rt" "core (rt\<lparr> rt_policy := p \<rparr>) = core rt"
  "core (rt\<lparr> rt_wifi := w \<rparr>) = core rt"
  by (simp_all add: core_def)

lemma core_parts [simp]:
  "core (note_act a rt) = core rt" "core (snd (read_now H rt)) = core rt" "core (snd (draw_word H rt)) = core rt"
  "core (snd (draw_bytes H rt)) = core rt" "core (snd (try_cmd H c rt)) = core rt" "core (snd (alloc_cmd rt)) = core rt"
  "core (reply b rt) = core rt" "core (reply_outcome oc rt) = core rt" "core (snd (put_scratch b rt)) = core rt"
  "core (with_counters f rt) = core rt" "core (sync_policy rt) = core rt" "core (snd (draw_jitter H rt)) = core rt"
  "core (clear_send_text rt) = core rt"
  by (simp_all add: note_act_def read_now_def draw_word_def draw_bytes_def try_cmd_def alloc_cmd_def Let_def
      reply_def reply_outcome_def put_scratch_def with_counters_def sync_policy_def draw_jitter_def clear_send_text_def
      split: outcome.split prod.split) (simp_all add: core_def)

lemma core_emits [simp]:
  "core (snd (render_err rid code rt)) = core rt" "core (emit_err rid code rt) = core rt"
  "core (emit_ping rid n c rt) = core rt" "core (emit_acknowledged rid rt) = core rt"
  "core (emit_unconfirmed rid rt) = core rt" "core (emit_received c ep sq t rt) = core rt"
  by (simp_all add: render_err_def emit_err_def emit_ping_def emit_acknowledged_def emit_unconfirmed_def
      emit_received_def put_scratch_def split: prod.split option.split)

lemma core_pairs:
  "alloc_cmd rt = (n, rt1) \<Longrightarrow> core rt1 = core rt" "try_cmd H c rt = (b, rt2) \<Longrightarrow> core rt2 = core rt"
  "read_now H rt = (t, rt3) \<Longrightarrow> core rt3 = core rt" "draw_word H rt = (w, rt4) \<Longrightarrow> core rt4 = core rt"
  "draw_jitter H rt = (j, rt5) \<Longrightarrow> core rt5 = core rt" "draw_bytes H rt = (bs, rt6) \<Longrightarrow> core rt6 = core rt"
  using core_parts by (metis snd_conv)+

lemma core_queue [simp]: "core (snd (queue_frame H contact j air rt)) = core rt"
  by (auto simp: queue_frame_def Let_def dest!: core_pairs split: prod.split)

lemma core_queue_pair: "queue_frame H contact j air rt = (r, rt1) \<Longrightarrow> core rt1 = core rt"
  using core_queue by (metis snd_conv)

lemma core_with_engine: "core (with_engine f rt) = (f (rt_engine rt), snd (core rt))"
  by (simp add: core_def with_engine_def)

lemma core_eqD:
  assumes "core rt' = core rt"
  shows "rt_engine rt' = rt_engine rt" "fl_node (rt_flash rt') = fl_node (rt_flash rt)"
    "us_staged (rt_usb rt') = us_staged (rt_usb rt)" "us_health (rt_usb rt') = us_health (rt_usb rt)"
  using assms by (simp_all add: core_def)

section \<open>The runtime and the node\<close>

text \<open>The runtime and the abstract node hold the same engine and the same flash record, and nothing is
  waiting to be saved.\<close>

definition in_sync :: "crypto \<Rightarrow> runtime \<Rightarrow> node \<Rightarrow> bool" where
  "in_sync C rt nd \<longleftrightarrow>
     nd_engine nd = rt_engine rt \<and> nd_flash nd = fl_node (rt_flash rt) \<and> us_staged (rt_usb rt) = None \<and>
     (settled C (rt_engine rt) \<or> us_health (rt_usb rt) = HealthFault \<and> faulted (rt_engine rt))"

lemma in_sync_core: "core rt' = core rt \<Longrightarrow> in_sync C rt' nd = in_sync C rt nd"
  by (auto simp: in_sync_def core_def)

text \<open>\<open>rt'\<close> is reached from \<open>rt\<close> in steps of the node.\<close>

definition follows_node :: "crypto \<Rightarrow> runtime \<Rightarrow> runtime \<Rightarrow> bool" where
  "follows_node C rt rt' \<longleftrightarrow>
     (\<forall>nd. in_sync C rt nd \<longrightarrow> (\<exists>ls nd'. node_run C nd ls nd' \<and> in_sync C rt' nd'))"

lemma follows_core: "core rt' = core rt \<Longrightarrow> follows_node C rt rt'"
  unfolding follows_node_def by (metis in_sync_core nd.exec_Nil)

lemma node_follows_refl [simp]: "follows_node C rt rt"
  by (rule follows_core) simp

lemma node_follows_trans: "follows_node C rt rt1 \<Longrightarrow> follows_node C rt1 rt2 \<Longrightarrow> follows_node C rt rt2"
  unfolding follows_node_def by (meson nd.exec_append)

lemma follows_after: "follows_node C rt rt1 \<Longrightarrow> core rt2 = core rt1 \<Longrightarrow> follows_node C rt rt2"
  using node_follows_trans follows_core by blast

lemma follows_before: "core rt1 = core rt \<Longrightarrow> follows_node C rt1 rt2 \<Longrightarrow> follows_node C rt rt2"
  using node_follows_trans follows_core by blast

text \<open>No contact appears.\<close>

definition no_new :: "engine \<Rightarrow> engine \<Rightarrow> bool" where
  "no_new e e' \<longleftrightarrow>
     (\<forall>i < MAX_CONTACTS. c_present (en_contacts e' ! i) \<longrightarrow> c_present (en_contacts e ! i))"

lemma no_new_fresh: "no_new (nd_engine nd) e' \<Longrightarrow> fresh_roots nd e'"
  by (simp add: no_new_def fresh_roots_def)

lemma keeps_no_new: "keeps e e' \<Longrightarrow> no_new e e'"
  by (simp add: keeps_def no_new_def)

lemma import_quiet:
  assumes s: "settled C e" and d: "\<not> en_persist_dirty (snd (pair_import_sas C e r rep sas))"
  shows "keeps e (snd (pair_import_sas C e r rep sas))"
proof -
  have "keeps e (snd (import_confirm C e r))" if n: "\<not> en_persist_dirty (snd (import_confirm C e r))"
  proof (cases "import_confirm_check C e r")
    case (Inr r5)
    obtain p t ed i rt where r5: "r5 = (p, t, ed, i, rt)" by (cases r5) auto
    have p: "en_pending e = Some p"
      using import_confirm_check_Inr [OF Inr [unfolded r5]] by metis
    then have "pp_slot p < MAX_CONTACTS"
      using settled_pendingD [OF s p] by (auto simp: pending_inv_def)
    with n show ?thesis
      by (auto simp: import_confirm_def Inr r5 activate_contact_eq stage_persist_def Let_def split: prod.splits)
  qed (simp add: import_confirm_def)
  with d show ?thesis
    by (auto simp: pair_import_sas_def pair_contacts keeps_contacts split: sum.splits if_splits)
qed

lemma run_op_no_new:
  assumes e: "settled C e \<or> faulted e" and v: "op_valid e op"
    and op: "\<And>r p t. op = OpPairImport r p t \<Longrightarrow> \<not> en_persist_dirty (snd (run_op C op e))"
  shows "no_new e (snd (run_op C op e))"
  using e
proof
  assume "faulted e"
  from run_op_faulted [OF this v, of C] show ?thesis by (simp add: no_new_def)
next
  assume s: "settled C e"
  have emit: "keeps e (snd (send_emit C e))"
  proof (cases "fst (send_emit C e)")
    case (Inl err)
    then have "stays e (snd (send_emit C e))"
      using stays_refresh [OF settled_length [OF s]]
      by (auto simp: send_emit_def Let_def split: sum.splits prod.splits if_splits)
    then show ?thesis by (rule stays_keeps)
  next
    case (Inr f)
    then show ?thesis
      using send_emit_sealed [OF s, of f "snd (send_emit C e)"] stays_keeps by (metis prod.collapse)
  qed
  have rx: "keeps e (snd (on_frame C e f n p))" for f n p
    using on_frame_result [OF s, of f n p] by (auto simp: result_ok_def stays_keeps split: prod.splits)
  have "keeps e (snd (run_op C op e))"
    using op s emit rx import_quiet [OF s]
    by (cases op) (auto simp: setting_contacts keeps_contacts pair_contacts keeps_set_time [OF s] keeps_delete [OF s]
        keeps_set_blocked [OF s] keeps_advance_time [OF s] split: prod.splits sum.splits, (metis snd_conv)+)
  then show ?thesis by (rule keeps_no_new)
qed

text \<open>An operation that stages nothing is one step.\<close>

lemma quiet_op:
  assumes C: "crypto_sizes C" and i: "in_sync C rt nd" and run: "run_op C op (rt_engine rt) = ((f, ev), e')"
    and v: "op_valid (rt_engine rt) op" and n: "fresh_roots nd e'" and d: "\<not> en_persist_dirty e'"
    and c: "core rt' = (e', snd (core rt))"
  shows "\<exists>ls nd'. node_run C nd ls nd' \<and> in_sync C rt' nd'"
proof -
  have e: "nd_engine nd = rt_engine rt" using i by (simp add: in_sync_def)
  define nd' where "nd' = \<lparr> nd_engine = (if en_persist_dirty e' then commit_ok e' else e'),
         nd_flash = (case pending_persist e' of Some b \<Rightarrow> Some b | None \<Rightarrow> nd_flash nd),
         nd_roots = nd_roots nd \<union> roots_of e', nd_sealed = sealed_entries e' f @ nd_sealed nd,
         nd_delivered = delivered_entries e' ev @ nd_delivered nd \<rparr>"
  have "node_step C nd (Done op) nd'"
    unfolding nd'_def using run v n by (intro step_done) (simp_all add: e)
  then have "node_run C nd [Done op] nd'" using nd.exec_snoc [OF nd.exec_Nil] by fastforce
  moreover have "settled C e' \<or> us_health (rt_usb rt) = HealthFault \<and> faulted e'"
    using i run_op_ok [OF C _ v] run_op_faulted [OF _ v, of C] d
    by (auto simp: in_sync_def run op_ok_def staged_ok_def)
  then have "in_sync C rt' nd'"
    using i c d by (auto simp: in_sync_def core_def nd'_def pending_persist_def)
  ultimately show ?thesis by blast
qed

lemma complete_follows:
  assumes C: "crypto_sizes C" and c: "core rt' = (send_complete (rt_engine rt) b, snd (core rt))"
  shows "follows_node C rt rt'"
  unfolding follows_node_def
proof (intro allI impI)
  fix nd assume i: "in_sync C rt nd"
  then have d: "\<not> en_persist_dirty (rt_engine rt)" by (auto simp: in_sync_def settled_def faulted_def)
  have "no_new (nd_engine nd) (send_complete (rt_engine rt) b)"
    using i by (simp add: in_sync_def no_new_def setting_contacts)
  then show "\<exists>ls nd'. node_run C nd ls nd' \<and> in_sync C rt' nd'"
    by (intro quiet_op [OF C i, of "OpSendComplete b"]) (use d c in \<open>auto simp: no_new_fresh send_complete_def\<close>)
qed

lemma fail_core:
  "core (fail_radio_closed H rt) = core rt \<or>
   core (fail_radio_closed H rt) = (send_complete (rt_engine rt) False, snd (core rt))"
proof -
  define rt1 where "rt1 = rt\<lparr> rt_policy := set_policy (rt_policy rt) False (blocked_mask (rt_engine rt)),
      rt_last_policy := Some (False, blocked_mask (rt_engine rt)) \<rparr>"
  obtain cmd rt2 where a: "alloc_cmd rt1 = (cmd, rt2)" by (cases "alloc_cmd rt1")
  obtain ok rt3 where t: "try_cmd H (RcSetEnabled cmd False) rt2 = (ok, rt3)"
    by (cases "try_cmd H (RcSetEnabled cmd False) rt2")
  have "core rt3 = core rt" using core_pairs(1) [OF a] core_pairs(2) [OF t] by (simp add: rt1_def)
  note c3 = this and e3 = core_eqD(1) [OF this]
  have "fail_radio_closed H rt =
      (case rt_send rt3 of
         Some sd \<Rightarrow> emit_err (if_reply_id sd) ''STORAGE_FAULT''
                      (with_engine (\<lambda>e. send_complete e False) (rt3\<lparr> rt_send := None \<rparr>))
       | None \<Rightarrow> rt3)\<lparr> rt_ping := None, rt_forward := None \<rparr>"
    using a t by (simp add: fail_radio_closed_def Let_def rt1_def)
  then show ?thesis
    using c3 e3 by (cases "rt_send rt3") (simp_all add: core_with_engine)
qed

lemma fail_follows: "crypto_sizes C \<Longrightarrow> follows_node C rt (fail_radio_closed H rt)"
  using fail_core [of H rt] complete_follows follows_core by metis

text \<open>An operation with the commit that follows it.\<close>

lemma commit_parts:
  assumes c: "rt_commit H rt = (ok, rt2)" and n: "us_staged (rt_usb rt) = None"
    and st: "us_staged (stage_for_commit (rt_usb rt)) = Some x"
  obtains k s2 fl' r where "commit_staged k (stage_for_commit (rt_usb rt)) (rt_flash rt) = (ok, s2, fl')"
    and "core r = (us_engine s2, fl_node fl', us_staged s2, us_health s2)"
    and "rt2 = (if ok then r else fail_radio_closed H r)"
proof -
  obtain b len where x: "x = (b, len)" by (cases x)
  define s1 where "s1 = stage_for_commit (rt_usb rt)"
  define rt1 where "rt1 = rt\<lparr> rt_usb := s1\<lparr> us_staged := None \<rparr> \<rparr>"
  define k where "k = ho_luck H (Store (ReqCommit b len) # rt_log rt)"
  obtain rs fl where svc: "storage_service k (ReqCommit b len) (rt_flash rt) = (rs, fl)"
    by (cases "storage_service k (ReqCommit b len) (rt_flash rt)")
  have w: "commit_with k (ReqCommit b len) (rt_flash rt) = (await_committed rs = Some True, fl)"
    using svc by (auto simp: commit_with_def storage_service_def split: if_splits)
  define r0 where "r0 = note_act (Store (ReqCommit b len)) rt1\<lparr> rt_flash := fl \<rparr>"
  have store: "store_with H await_committed (ReqCommit b len) rt1 = (await_committed rs = Some True, r0)"
    using svc by (simp add: store_with_def Let_def r0_def rt1_def k_def note_act_def)
  show thesis
  proof (cases "await_committed rs = Some True")
    case True
    show thesis
      by (rule that [of k "s1\<lparr> us_staged := None, us_engine := commit_ok (us_engine s1) \<rparr>" fl "with_engine commit_ok r0"])
        (use c n st w True store in \<open>auto simp add: rt_commit_def Let_def commit_staged_def x simp flip: s1_def rt1_def\<close>,
         auto simp: core_def with_engine_def r0_def rt1_def note_act_def)
  next
    case False
    define r where "r = with_engine (\<lambda>e. mark_fault (discard_staged e)) r0
        \<lparr> rt_usb := (rt_usb (with_engine (\<lambda>e. mark_fault (discard_staged e)) r0))\<lparr> us_health := HealthFault \<rparr> \<rparr>"
    show thesis
      by (rule that [of k "s1\<lparr> us_staged := None, us_engine := mark_fault (discard_staged (us_engine s1)),
            us_health := HealthFault \<rparr>" fl r])
        (use c n st w False store in \<open>auto simp add: rt_commit_def Let_def commit_staged_def x simp flip: s1_def rt1_def\<close>,
         auto simp: core_def with_engine_def r0_def rt1_def r_def note_act_def)
  qed
qed

lemma saved_op:
  assumes C: "crypto_sizes C" and i: "in_sync C rt nd" and run: "run_op C op (rt_engine rt) = ((f, ev), e')"
    and v: "op_valid (rt_engine rt) op" and n: "fresh_roots nd e'"
    and c: "core rt1 = (e', snd (core rt))" and k: "rt_commit H rt1 = (ok, rt2)"
  shows "\<exists>ls nd'. node_run C nd ls nd' \<and> in_sync C rt2 nd'"
proof -
  have none: "us_staged (rt_usb rt1) = None" and e1: "rt_engine rt1 = e'" and fl: "fl_node (rt_flash rt1) = nd_flash nd"
    and e: "nd_engine nd = rt_engine rt"
    using i c by (simp_all add: in_sync_def core_def)
  show ?thesis
  proof (cases "en_persist_dirty e'")
    case False
    then have "us_staged (stage_for_commit (rt_usb rt1)) = None"
      by (simp add: stage_for_commit_def pending_persist_def e1 none)
    then have "core rt2 = core rt1"
      using k none by (auto simp: rt_commit_def Let_def core_def stage_for_commit_def split: option.splits)
    then show ?thesis using quiet_op [OF C i run v n False, of rt2] c by simp
  next
    case True
    have set: "settled C (rt_engine rt)"
      using i run_op_faulted [OF _ v, of C] True by (auto simp: in_sync_def run faulted_def)
    have ok': "staged_ok C e'"
      using run_op_ok [OF C set v] True by (auto simp: run op_ok_def settled_def)
    then have len: "length (en_contacts e') = MAX_CONTACTS" by (simp add: staged_ok_def core_inv_def contacts_ok_def)
    obtain x where st: "us_staged (stage_for_commit (rt_usb rt1)) = Some x"
      using True by (auto simp: stage_for_commit_def pending_persist_def e1)
    obtain kk s2 fl' r where cs: "commit_staged kk (stage_for_commit (rt_usb rt1)) (rt_flash rt1) = (ok, s2, fl')"
      and cr: "core r = (us_engine s2, fl_node fl', us_staged s2, us_health s2)"
      and r: "rt2 = (if ok then r else fail_radio_closed H r)"
      using commit_parts [OF k none st] by metis
    define s where "s = (rt_usb rt1)\<lparr> us_engine := rt_engine rt \<rparr>"
    have p: "performs C (Some op) s (stage_for_commit (rt_usb rt1))"
      using none by (auto simp: performs_def ran_def s_def run e1 stage_for_commit_def pending_persist_def True
          intro!: exI [of _ True])
    obtain b where xb: "x = (b, PERSIST_LEN)"
    proof -
      define b where "b = view_bytes (Engine_persist_view e')"
      have pb: "pending_persist e' = Some b" using ok' by (simp add: staged_ok_def b_def)
      have "length b = PERSIST_LEN"
        using ok' view_wf_core by (auto simp: staged_ok_def b_def intro: length_view_bytes)
      then show thesis using that st by (auto simp: stage_for_commit_def e1 pb put_at_0)
    qed
    note u = commit_snapshot [OF st [unfolded xb] cs]
    have fr: "fresh_roots nd (us_engine s2)"
      using n fresh_committed [OF len, of nd] u(4) by (auto simp: e1)
    obtain l nd' where step: "node_step C nd l nd'" "nd_engine nd' = us_engine s2" "nd_flash nd' = fl_node fl'"
      "us_staged s2 = None" "settled C (us_engine s2) \<or> us_health s2 = HealthFault \<and> \<not> en_persist_dirty (us_engine s2)"
      using commit_simulates [OF C _ _ p _ cs _ _ fr] set v none e fl by (auto simp: s_def)
    have "settled C (us_engine s2) \<or> us_health s2 = HealthFault \<and> faulted (us_engine s2)"
      using commit_settled [OF ok'] u faulted_mark by (cases ok) (auto simp: e1)
    then have "in_sync C r nd'" using step cr by (simp add: in_sync_def core_def)
    moreover have "node_run C nd [l] nd'" using nd.exec_snoc [OF nd.exec_Nil step(1)] by simp
    ultimately show ?thesis
      using r fail_follows [OF C, of r H] nd.exec_append unfolding follows_node_def by (cases ok) (auto, blast)
  qed
qed

text \<open>The same for operations under which no contact appears.\<close>

lemma saved_follows:
  assumes C: "crypto_sizes C" and c: "core rt1 = (snd (run_op C op (rt_engine rt)), snd (core rt))"
    and k: "rt_commit H rt1 = (ok, rt2)" and v: "op_valid (rt_engine rt) op"
    and op: "\<And>r p t. op \<noteq> OpPairImport r p t"
  shows "follows_node C rt rt2"
  unfolding follows_node_def
proof (intro allI impI)
  fix nd assume i: "in_sync C rt nd"
  obtain f ev e' where run: "run_op C op (rt_engine rt) = ((f, ev), e')" by (metis prod.collapse)
  have "no_new (rt_engine rt) (snd (run_op C op (rt_engine rt)))"
    by (rule run_op_no_new [OF _ v, of C]) (use i op in \<open>auto simp: in_sync_def\<close>)
  then have "no_new (nd_engine nd) e'" using i by (simp add: in_sync_def run)
  then show "\<exists>ls nd'. node_run C nd ls nd' \<and> in_sync C rt2 nd'"
    using saved_op [OF C i run v _ _ k] c by (simp add: run no_new_fresh)
qed

lemma quiet_follows:
  assumes C: "crypto_sizes C" and c: "core rt1 = (snd (run_op C op (rt_engine rt)), snd (core rt))"
    and d: "settled C (rt_engine rt) \<Longrightarrow> \<not> en_persist_dirty (snd (run_op C op (rt_engine rt)))"
    and v: "op_valid (rt_engine rt) op"
  shows "follows_node C rt rt1"
  unfolding follows_node_def
proof (intro allI impI)
  fix nd assume i: "in_sync C rt nd"
  obtain f ev e' where run: "run_op C op (rt_engine rt) = ((f, ev), e')" by (metis prod.collapse)
  have dd: "\<not> en_persist_dirty (snd (run_op C op (rt_engine rt)))"
    using i d run_op_faulted [OF _ v, of C] by (auto simp: in_sync_def faulted_def)
  have "no_new (rt_engine rt) (snd (run_op C op (rt_engine rt)))"
    by (rule run_op_no_new [OF _ v, of C]) (use i dd in \<open>auto simp: in_sync_def\<close>)
  then have n: "no_new (nd_engine nd) e'" using i by (simp add: in_sync_def run)
  have "\<not> en_persist_dirty e'" using dd by (simp add: run)
  then show "\<exists>ls nd'. node_run C nd ls nd' \<and> in_sync C rt1 nd'"
    using quiet_op [OF C i run v no_new_fresh [OF n]] c by (simp add: run)
qed

section \<open>Every handler\<close>

lemma advance_failed: "advance_time e t = (Inl x, e') \<Longrightarrow> en_persist_dirty e' = en_persist_dirty e"
  by (auto simp: advance_time_def Let_def set_time_def dest: failed_not_staged(1)
      split: if_splits option.splits sum.splits prod.splits)

lemma advance_follows:
  assumes C: "crypto_sizes C"
  shows "follows_node C rt (rt_advance_time H rt)"
proof -
  obtain now rt1 where n: "read_now H rt = (now, rt1)" by (cases "read_now H rt")
  note c1 = core_pairs(3) [OF n] and e1 = core_eqD(1) [OF core_pairs(3) [OF n]]
  define op where "op = OpAdvance (of_nat (now div 1000))"
  obtain r e where a: "advance_time (rt_engine rt) (of_nat (now div 1000)) = (r, e)"
    by (cases "advance_time (rt_engine rt) (of_nat (now div 1000))")
  define rt2 where "rt2 = with_engine (\<lambda>_. e) rt1"
  have c2: "core rt2 = (snd (run_op C op (rt_engine rt)), snd (core rt))"
    by (simp add: rt2_def core_with_engine c1 op_def a)
  have s: "rt_advance_time H rt = (case r of Inl _ \<Rightarrow> fail_radio_closed H rt2
      | Inr _ \<Rightarrow> if pending_persist e \<noteq> None then snd (rt_commit H rt2) else rt2)"
    using n a e1 by (cases r) (simp_all add: rt_advance_time_def Let_def rt2_def)
  have q: "follows_node C rt rt2" if "settled C (rt_engine rt) \<Longrightarrow> \<not> en_persist_dirty e"
    by (rule quiet_follows [OF C c2]) (use that in \<open>auto simp: op_def a\<close>)
  show ?thesis
  proof (cases r)
    case (Inl x)
    have "follows_node C rt rt2" by (rule q) (use advance_failed a Inl in \<open>auto simp: settled_def\<close>)
    then show ?thesis using s Inl fail_follows [OF C] node_follows_trans by auto
  next
    case (Inr x)
    obtain ok rt3 where k: "rt_commit H rt2 = (ok, rt3)" by (cases "rt_commit H rt2")
    have "follows_node C rt rt3" by (rule saved_follows [OF C c2 k]) (auto simp: op_def)
    then show ?thesis using s Inr k q by (auto simp: pending_persist_def)
  qed
qed

lemma tx_done_follows:
  assumes C: "crypto_sizes C"
  shows "follows_node C rt (on_tx_done H rid result attempted rt)"
proof -
  define rt1 where "rt1 = with_counters (\<lambda>k. report_tx_done k (case result of
                       Inr _ \<Rightarrow> TdSuccess | Inl ChannelBusy \<Rightarrow> TdBusy
                     | Inl TfCancelled \<Rightarrow> TdCancelled | Inl TfRadio \<Rightarrow> TdRadio))
                   (if attempted then with_counters report_tx_attempted rt else rt)"
  have c1: "core rt1 = core rt" by (simp add: rt1_def)
  have "core (on_tx_done H rid result attempted rt) = core rt \<or>
    core (on_tx_done H rid result attempted rt) = (send_complete (rt_engine rt) False, snd (core rt))"
    unfolding on_tx_done_def Let_def rt1_def [symmetric]
    using c1 core_eqD(1) [OF c1]
    by (auto simp: core_with_engine split: option.split sum.split prod.split dest!: core_pairs(3))
  then show ?thesis using complete_follows [OF C] follows_core by metis
qed

lemma cad_done_core: "core (on_cad_done H rid result rt) = core rt"
proof -
  have k: "core (rt\<lparr> rt_usb := (rt_usb rt)\<lparr> us_ping_count := n \<rparr> \<rparr>) = core rt" for rt n by (simp add: core_def)
  show ?thesis
    by (auto simp: on_cad_done_def Let_def k dest!: core_pairs split: option.split sum.split tx_fault.split prod.split)
qed

lemma poll_send_follows:
  assumes C: "crypto_sizes C"
  shows "follows_node C rt (poll_send C H rt)"
proof -
  have "core (poll_send C H rt) = core rt \<or>
    core (poll_send C H rt) = (send_complete (rt_engine rt) False, snd (core rt))"
  proof (cases "rt_send rt")
    case (Some sd)
    obtain now rt1 where n: "read_now H rt = (now, rt1)" by (cases "read_now H rt")
    note c1 = core_pairs(3) [OF n]
    define rt2 where "rt2 = rt1\<lparr> rt_send := None \<rparr>"
    have c2: "core rt2 = core rt" "rt_engine rt2 = rt_engine rt" using c1 core_eqD(1) [OF c1] by (simp_all add: rt2_def)
    obtain j rt3 where d: "draw_jitter H rt2 = (j, rt3)" by (cases "draw_jitter H rt2")
    show ?thesis
    proof (cases "send_retry_echo C (rt_engine rt)")
      case (Inr f)
      obtain cmd ok rt4 where q: "queue_frame H (Some (if_contact_id sd)) j (air_from_outgoing f) rt3 = ((cmd, ok), rt4)"
        by (metis prod.collapse)
      have c4: "core rt4 = core rt" using core_queue_pair [OF q] core_pairs(5) [OF d] c2 by simp
      show ?thesis
        using Some n d q c1 c2 c4 Inr core_eqD(1) [OF c4]
        by (auto simp: poll_send_def Let_def core_with_engine simp flip: rt2_def split: prod.split dest: core_pairs(3))
    next
      case (Inl err)
      then show ?thesis using Some n c1 c2
        by (simp add: poll_send_def Let_def core_with_engine flip: rt2_def)
    qed
  qed (simp add: poll_send_def)
  then show ?thesis using complete_follows [OF C] follows_core by metis
qed

lemma poll_forward_core: "core (poll_forward H rt) = core rt"
  by (auto simp: poll_forward_def Let_def dest!: core_pairs core_queue_pair split: option.split prod.split)

text \<open>A frame to relay comes from the transit path, which stages nothing.\<close>

lemma rx_not_forward:
  "rx_data C e slot w h t pid = (r, e1) \<Longrightarrow> fst r \<noteq> Forward"
  "rx_ack e slot h pt = (r, e2) \<Longrightarrow> fst r \<noteq> Forward"
  by (auto simp: rx_data_def rx_ack_def Let_def split: prod.splits option.splits if_splits verdict.splits sum.splits)

lemma slot_not_forward:
  "on_frame_slot C e h b pid slot = (Return r, e') \<Longrightarrow> fst r \<noteq> Forward"
  by (auto simp: on_frame_slot_def Let_def split: if_splits option.splits sum.splits prod.splits dest!: rx_not_forward)

lemma slot_not_dirty:
  "on_frame_slot C e h b pid slot = (out, e') \<Longrightarrow> (\<forall>r. out \<noteq> Return r) \<Longrightarrow>
   en_persist_dirty e' = en_persist_dirty e"
  by (auto simp: on_frame_slot_def Let_def refresh_aliases_def upd_contact_def
      split: if_splits option.splits sum.splits prod.splits)

lemma slots_not_forward:
  "on_frame_slots C h b pid slots failed e = ((res, fl), e') \<Longrightarrow>
   (\<forall>r. res = Some r \<longrightarrow> fst r \<noteq> Forward) \<and> (res = None \<longrightarrow> en_persist_dirty e' = en_persist_dirty e)"
proof (induction slots arbitrary: failed e)
  case (Cons slot slots)
  obtain out e1 where o: "on_frame_slot C e h b pid slot = (out, e1)" by (cases "on_frame_slot C e h b pid slot")
  show ?case
    using Cons.prems Cons.IH [of _ e1] slot_not_forward [of C e h b pid slot _ e1] slot_not_dirty [OF o] o
    by (cases out) auto
qed simp

lemma forward_not_dirty:
  assumes "on_frame C e f now pid = ((Forward, a, ev), e')"
  shows "en_persist_dirty e' = en_persist_dirty e"
  using assms
  by (auto simp: on_frame_def Let_def transit_state split: sum.splits if_splits prod.splits option.splits
      dest!: slots_not_forward dest: arg_cong [where f = "\<lambda>x. en_persist_dirty (snd x)"])

lemma ack_follows:
  assumes C: "crypto_sizes C"
  shows "follows_node C rt (ack_if C H out rt)"
proof (cases out)
  case (Some ack)
  obtain j rt1 where j: "draw_jitter H rt = (j, rt1)" by (cases "draw_jitter H rt")
  obtain cmd rt2 where a: "alloc_cmd (sync_policy rt1) = (cmd, rt2)" by (cases "alloc_cmd (sync_policy rt1)")
  obtain now rt3 where n: "read_now H rt2 = (now, rt3)" by (cases "read_now H rt2")
  have c: "core rt3 = core rt" using core_pairs(5) [OF j] core_pairs(1) [OF a] core_pairs(3) [OF n] by simp
  define rt4 where "rt4 = with_engine (\<lambda>e. note_origin C e (OutgoingFrame_as_slice ack) (of_nat now)) rt3"
  have c4: "core rt4 = (snd (run_op C (OpNoteOrigin (OutgoingFrame_as_slice ack) (of_nat now)) (rt_engine rt)),
      snd (core rt))"
    using c core_eqD(1) [OF c] by (simp add: rt4_def core_with_engine)
  have "follows_node C rt rt4"
    by (rule quiet_follows [OF C c4]) (auto simp: settled_def note_origin_def split: sum.split prod.split option.split)
  then show ?thesis
    using j a n by (simp add: ack_if_def Some send_ack_frame_def Let_def follows_after flip: rt4_def)
qed (simp add: ack_if_def)

lemma emit_acked_core: "core (emit_acknowledged rid (with_engine f (rt\<lparr> rt_send := sd \<rparr>))) = (f (rt_engine rt), snd (core rt))"
  by (simp add: core_with_engine)

lemma rx_follows:
  assumes C: "crypto_sizes C"
  shows "follows_node C rt (on_rx C H frame rt)"
proof -
  obtain now rt1 where n: "read_now H rt = (now, rt1)" by (cases "read_now H rt")
  obtain w rt2 where d: "draw_word H rt1 = (w, rt2)" by (cases "draw_word H rt1")
  have c2: "core rt2 = core rt" using core_pairs(3) [OF n] core_pairs(4) [OF d] by simp
  define b where "b = take (unat (af_len frame)) (af_bytes frame)"
  define op where "op = OpFrame b (of_nat now) w"
  obtain kind out ev e where o: "on_frame C (rt_engine rt) b (of_nat now) w = ((kind, out, ev), e)"
    by (metis prod.exhaust)
  define rt3 where "rt3 = with_counters (\<lambda>k. mirror_reception k (rt_engine (with_engine (\<lambda>_. e) rt2))) (with_engine (\<lambda>_. e) rt2)"
  have c3: "core rt3 = (snd (run_op C op (rt_engine rt)), snd (core rt))"
    by (simp add: rt3_def core_with_engine c2 op_def o)
  have e3: "rt_engine rt3 = e" using c3 by (simp add: core_def op_def o)
  have saved: "follows_node C rt rt5" if "rt_commit H rt4 = (ok, rt5)" "core rt4 = core rt3" for rt4 ok rt5
    by (rule saved_follows [OF C _ that(1), of op]) (use that(2) c3 in \<open>auto simp: op_def\<close>)
  have quiet: "follows_node C rt rt4" if "\<not> en_persist_dirty e \<or> \<not> settled C (rt_engine rt)" "core rt4 = core rt3" for rt4
    by (rule quiet_follows [OF C, of rt4 op]) (use that c3 in \<open>auto simp: op_def o\<close>)
  have "on_frame C (rt_engine rt2) (take (unat (af_len frame)) (af_bytes frame)) (of_nat now) w = ((kind, out, ev), e)"
    using o core_eqD(1) [OF c2] by (simp add: b_def)
  note s = on_rx_judged [OF n d this rt3_def]
  show ?thesis
  proof (cases kind)
    case (Deliver x y)
    obtain ok rt4 where k: "rt_commit H (with_counters report_rx_frame rt3) = (ok, rt4)"
      by (cases "rt_commit H (with_counters report_rx_frame rt3)")
    have f4: "follows_node C rt rt4" by (rule saved [OF k]) simp
    have "follows_node C rt (ack_if C H out rt4)" using node_follows_trans [OF f4 ack_follows [OF C]] .
    then show ?thesis using s k f4 Deliver
      by (auto simp: Let_def intro: follows_after split: bool.split option.split node_event.split)
  next
    case (ReAck x)
    obtain ok rt4 where k: "rt_commit H rt3 = (ok, rt4)" by (cases "rt_commit H rt3")
    have f4: "follows_node C rt rt4" by (rule saved [OF k]) simp
    then show ?thesis using s k ReAck node_follows_trans [OF f4 ack_follows [OF C]] by (auto split: bool.split)
  next
    case (Ack x)
    obtain ok rt4 where k: "rt_commit H rt3 = (ok, rt4)" by (cases "rt_commit H rt3")
    have f4: "follows_node C rt rt4" by (rule saved [OF k]) simp
    have "follows_node C rt4 (emit_acknowledged rid (with_engine (\<lambda>e. send_complete e True) (rt4\<lparr> rt_send := sd \<rparr>)))" for rid sd
      by (rule complete_follows [OF C]) (simp add: core_with_engine)
    then show ?thesis using s k Ack f4 node_follows_trans [OF f4] by (auto split: bool.split option.split)
  next
    case Forward
    have f3: "follows_node C rt rt3"
      by (rule quiet) (use forward_not_dirty [of C "rt_engine rt" b "of_nat now" w out ev e] o Forward in \<open>auto simp: settled_def\<close>)
    have "core (schedule_forward H fwd rt3) = core rt3" for fwd
      by (auto simp: schedule_forward_def Let_def dest!: core_pairs split: prod.split)
    then show ?thesis using s Forward f3 by (auto intro: follows_after split: option.split)
  next
    case Ignore
    obtain ok rt4 where k: "rt_commit H rt3 = (ok, rt4)" by (cases "rt_commit H rt3")
    have f4: "follows_node C rt rt4" by (rule saved [OF k]) simp
    have "follows_node C rt rt3" if "pending_persist e = None"
      by (rule quiet) (use that in \<open>auto simp: pending_persist_def split: if_splits\<close>)
    then show ?thesis using s Ignore k f4 e3 by auto
  qed
qed

lemma event_follows: "crypto_sizes C \<Longrightarrow> follows_node C rt (on_radio_evt C H ev rt)"
  by (cases ev) (auto simp: tx_done_follows rx_follows fail_follows cad_done_core intro: follows_core)

lemma events_follow: "crypto_sizes C \<Longrightarrow> follows_node C rt (fold (on_radio_evt C H) evs rt)"
  by (induction evs arbitrary: rt) (auto intro: node_follows_trans [OF event_follows])

lemma core_usb [simp]:
  "core (rt\<lparr> rt_usb := (rt_usb rt)\<lparr> us_pending_op := po \<rparr> \<rparr>) = core rt"
  "core (rt\<lparr> rt_usb := (rt_usb rt)\<lparr> us_settings_tx_pending := tp \<rparr> \<rparr>) = core rt"
  by (simp_all add: core_def)

lemma core_packet_id: "next_packet_id (rt_usb rt) w = (pid, usb) \<Longrightarrow> core (rt\<lparr> rt_usb := usb \<rparr>) = core rt"
  by (auto simp: next_packet_id_def Let_def core_def)

lemma core_render: "render_err rid code rt = (oc, rt') \<Longrightarrow> core rt' = core rt"
  using core_emits(1) by (metis snd_conv)

lemma emit_refused_clean:
  "settled C e \<Longrightarrow> send_emit C e = (Inl err, e') \<Longrightarrow> \<not> en_persist_dirty e'"
  by (auto simp: send_emit_def settled_def Let_def refresh_aliases_def upd_contact_def
      split: if_splits sum.splits prod.splits)

lemma queue_tx_follows:
  assumes C: "crypto_sizes C"
  shows "follows_node C rt (queue_tx H rid contact f retry rt)"
proof -
  obtain j rt1 where j: "draw_jitter H rt = (j, rt1)" by (cases "draw_jitter H rt")
  obtain cmd ok rt2 where q: "queue_frame H contact j (air_from_outgoing f) rt1 = ((cmd, ok), rt2)" by (metis prod.collapse)
  have c: "core rt2 = core rt" using core_pairs(5) [OF j] core_queue_pair [OF q] by simp
  have "core (queue_tx H rid contact f retry rt) = core rt \<or>
    core (queue_tx H rid contact f retry rt) = (send_complete (rt_engine rt) False, snd (core rt))"
    using j q c core_eqD(1) [OF c]
    by (auto simp: queue_tx_def Let_def core_with_engine split: option.split prod.split dest!: core_pairs(3))
  then show ?thesis using complete_follows [OF C] follows_core by metis
qed

lemma send_prep_follows:
  assumes C: "crypto_sizes C" and d: "drive_send_prep C H rt = (oc, rt')"
  shows "follows_node C rt rt'"
proof -
  define rt0 where "rt0 = rt\<lparr> rt_usb := (rt_usb rt)\<lparr> us_pending_op := None \<rparr> \<rparr>"
  have c0: "core rt0 = core rt" by (simp add: rt0_def)
  show ?thesis
  proof (cases "\<exists>rid contact. us_pending_op (rt_usb rt) = Some (PoSendPrep rid contact) \<and>
      en_radio_on (rt_engine rt0) \<and> rt_send rt0 = None")
    case False
    then have "core rt' = core rt"
      using d c0 by (auto simp: drive_send_prep_def Let_def core_render simp flip: rt0_def
          split: option.splits pending_op.splits if_splits dest: core_render)
    then show ?thesis by (rule follows_core)
  next
    case True
    then obtain rid contact where po: "us_pending_op (rt_usb rt) = Some (PoSendPrep rid contact)"
      and ra: "en_radio_on (rt_engine rt0)" "rt_send rt0 = None" by blast
    define msg where "msg = take (unat (us_send_len (rt_usb rt0))) (us_send_text (rt_usb rt0))"
    obtain w rt1 where w: "draw_word H rt0 = (w, rt1)" by (cases "draw_word H rt0")
    obtain pid usb where pid: "next_packet_id (rt_usb rt1) w = (pid, usb)" by (cases "next_packet_id (rt_usb rt1) w")
    define rt2 where "rt2 = rt1\<lparr> rt_usb := usb \<rparr>"
    have c2: "core rt2 = core rt" using core_packet_id [OF pid] core_pairs(4) [OF w] c0 by (simp add: rt2_def)
    note e2 = core_eqD(1) [OF c2]
    obtain r e where b: "send_begin (rt_engine rt2) contact msg pid = (r, e)" by (cases "send_begin (rt_engine rt2) contact msg pid")
    define rt3 where "rt3 = with_engine (\<lambda>_. e) rt2"
    have c3: "core rt3 = (snd (run_op C (OpSendBegin contact msg pid) (rt_engine rt)), snd (core rt))"
      using b e2 by (simp add: rt3_def core_with_engine c2)
    have s: "(oc, rt') = (case r of
               Inl err \<Rightarrow> render_err rid (engine_code err) (clear_send_text rt3)
             | Inr _ \<Rightarrow>
                 (case rt_commit H rt3 of
                    (False, rt) \<Rightarrow> render_err rid ''STORAGE_FAULT'' (clear_send_text rt)
                  | (True, rt) \<Rightarrow>
                      let (r, e) = send_emit C (rt_engine rt);
                          rt = with_engine (\<lambda>_. e) rt in
                      (case r of
                         Inl err \<Rightarrow>
                           render_err rid (engine_code err)
                             (clear_send_text (with_engine (\<lambda>e. send_complete e False) rt))
                       | Inr f \<Rightarrow>
                           (case rt_commit H rt of
                              (False, rt) \<Rightarrow> render_err rid ''STORAGE_FAULT'' (clear_send_text rt)
                            | (True, rt) \<Rightarrow>
                                (Silent, queue_tx H rid (Some contact) f False (clear_send_text rt))))))"
      using d po ra w pid b unfolding rt0_def [symmetric] drive_send_prep_def Let_def
      by (cases r) (simp_all add: msg_def rt3_def rt2_def)
    show ?thesis
    proof (cases r)
      case (Inl err)
      then have "e = rt_engine rt2" using b by (auto simp: send_begin_def Let_def split: sum.splits prod.splits)
      then have "core rt3 = core rt" using c2 e2 by (simp add: rt3_def core_with_engine) (simp add: core_def)
      then show ?thesis using s Inl core_render [of rid "engine_code err" "clear_send_text rt3" oc rt']
        by (intro follows_core) simp
    next
      case (Inr x)
      obtain ok rt4 where k: "rt_commit H rt3 = (ok, rt4)" by (cases "rt_commit H rt3")
      have f4: "follows_node C rt rt4" by (rule saved_follows [OF C c3 k]) auto
      show ?thesis
      proof (cases ok)
        case False
        then show ?thesis using s Inr k core_render [of rid "''STORAGE_FAULT''" "clear_send_text rt4" oc rt']
          by (intro follows_after [OF f4]) simp
      next
        case True
        obtain r5 e5 where em: "send_emit C (rt_engine rt4) = (r5, e5)" by (cases "send_emit C (rt_engine rt4)")
        define rt5 where "rt5 = with_engine (\<lambda>_. e5) rt4"
        have c5: "core rt5 = (snd (run_op C OpSendEmit (rt_engine rt4)), snd (core rt4))"
          using em by (cases r5) (simp_all add: rt5_def core_with_engine)
        show ?thesis
        proof (cases r5)
          case (Inl err)
          have f5: "follows_node C rt4 rt5"
            by (rule quiet_follows [OF C c5]) (use emit_refused_clean em Inl in auto)
          define rt6 where "rt6 = with_engine (\<lambda>e. send_complete e False) rt5"
          have "follows_node C rt5 rt6" by (rule complete_follows [OF C]) (simp add: rt6_def core_with_engine)
          then have "follows_node C rt rt6" using f4 f5 node_follows_trans by blast
          moreover have "render_err rid (engine_code err) (clear_send_text rt6) = (oc, rt')"
            using s \<open>r = Inr x\<close> k True em Inl by (simp add: rt6_def rt5_def)
          ultimately show ?thesis using core_render follows_after core_parts(13) by metis
        next
          case (Inr f)
          obtain ok6 rt6 where k6: "rt_commit H rt5 = (ok6, rt6)" by (cases "rt_commit H rt5")
          have "follows_node C rt4 rt6" by (rule saved_follows [OF C c5 k6]) auto
          then have f6: "follows_node C rt rt6" using f4 node_follows_trans by blast
          show ?thesis
          proof (cases ok6)
            case False
            then show ?thesis
              using s \<open>r = Inr x\<close> k True em Inr k6 core_render [of rid "''STORAGE_FAULT''" "clear_send_text rt6" oc rt']
              by (intro follows_after [OF f6]) (simp add: rt5_def)
          next
            case True
            then have "rt' = queue_tx H rid (Some contact) f False (clear_send_text rt6)"
              using s \<open>r = Inr x\<close> k \<open>ok\<close> em Inr k6 by (simp add: rt5_def)
            then show ?thesis
              using node_follows_trans [OF follows_after [OF f6, of "clear_send_text rt6"] queue_tx_follows [OF C]] by simp
          qed
        qed
      qed
    qed
  qed
qed

section \<open>Controls and commands\<close>

lemma wait_follows:
  assumes C: "crypto_sizes C"
  shows "wait_loop C H want deadline evs rt = (ok, rt') \<Longrightarrow> follows_node C rt rt'"
proof (induction evs arbitrary: rt)
  case (Cons ev evs)
  obtain now rt1 where n: "read_now H rt = (now, rt1)" by (cases "read_now H rt")
  have f1: "follows_node C rt rt1" using core_pairs(3) [OF n] by (rule follows_core)
  have go: "follows_node C rt rt'" if "wait_loop C H want deadline evs (on_radio_evt C H ev rt1) = (ok, rt')"
    using node_follows_trans [OF node_follows_trans [OF f1 event_follows [OF C]] Cons.IH [OF that]] .
  show ?case using Cons.prems n f1 go by (auto simp: Let_def split: if_splits radio_evt.splits)
qed simp

lemma barrier_follows:
  assumes C: "crypto_sizes C" and b: "barrier C H rt = (r, rt')"
  shows "follows_node C rt rt'"
proof -
  obtain n rt1 where a: "alloc_cmd rt = (n, rt1)" by (cases "alloc_cmd rt")
  obtain ok rt2 where t: "try_cmd H (RcBarrier n) rt1 = (ok, rt2)" by (cases "try_cmd H (RcBarrier n) rt1")
  obtain now rt3 where w: "read_now H rt2 = (now, rt3)" by (cases "read_now H rt2")
  have c2: "core rt2 = core rt" using core_pairs(1) [OF a] core_pairs(2) [OF t] by simp
  have c3: "core (note_act AwaitEvents rt3) = core rt" using c2 core_pairs(3) [OF w] by simp
  show ?thesis
    using b a t w follows_core [OF c2] follows_before [OF c3 wait_follows [OF C]]
    by (auto simp: barrier_def wait_control_def Let_def split: if_splits prod.splits)
qed

lemma core_owed [simp]: "core (emit_owed rt) = core rt"
  using commit_reply_frame [of True "rt_usb rt" "rt_scratch rt"]
  by (auto simp: emit_owed_def split: prod.split option.split) (simp_all add: core_def)

lemma commit_idle:
  assumes "in_sync C rt nd" and "rt_commit H rt = (ok, rt')"
  shows "core rt' = core rt"
proof -
  have "us_staged (rt_usb rt) = None" "stage_for_commit (rt_usb rt) = rt_usb rt"
    using assms(1) by (auto simp: in_sync_def stage_for_commit_def pending_persist_def settled_def faulted_def)
  then show ?thesis using assms(2) by (simp add: rt_commit_def Let_def)
qed

lemma idle_follows: "rt_commit H rt = (ok, rt') \<Longrightarrow> follows_node C rt rt'"
  using commit_idle unfolding follows_node_def by (metis in_sync_core nd.exec_Nil)

lemma side_commits:
  "commit_settings H rt = (ok, rt1) \<Longrightarrow> core rt1 = core rt" "commit_wifi H rt = (ok, rt2) \<Longrightarrow> core rt2 = core rt"
  by (auto simp: commit_settings_def commit_wifi_def store_with_def note_act_def storage_service_def core_def Let_def
      split: if_splits prod.splits option.splits staged_reply.splits)

text \<open>A command that ran the operation \<open>opt\<close>, if any, and staged its snapshot; and the commit of it.\<close>

definition asked_for :: "crypto \<Rightarrow> node_op option \<Rightarrow> runtime \<Rightarrow> runtime \<Rightarrow> bool" where
  "asked_for C opt rt rt1 \<longleftrightarrow>
     performs C opt (rt_usb rt) (rt_usb rt1) \<and> fl_node (rt_flash rt1) = fl_node (rt_flash rt) \<and>
     valid_ops (rt_engine rt) opt"

lemma asked_core:
  assumes c: "core rt2 = core rt1"
  shows "asked_for C opt rt rt1 \<Longrightarrow> asked_for C opt rt rt2"
  unfolding asked_for_def performs_def ran_def untouched_def by (simp only: core_eqD [OF c])

lemma not_committed:
  assumes C: "crypto_sizes C" and a: "asked_for C opt rt rt1" and n: "us_staged (rt_usb rt1) = None"
  shows "follows_node C rt rt1"
  unfolding follows_node_def
proof (intro allI impI)
  fix nd assume i: "in_sync C rt nd"
  then have none: "us_staged (rt_usb rt) = None" and d: "\<not> en_persist_dirty (rt_engine rt)"
    by (auto simp: in_sync_def settled_def faulted_def)
  have "follows_node C rt rt1"
  proof (cases opt)
    case None
    then show ?thesis using a by (intro follows_core) (simp add: asked_for_def performs_def untouched_def core_def)
  next
    case (Some op)
    define e' where "e' = snd (run_op C op (rt_engine rt))"
    obtain ok where r: "ran (rt_usb rt) ok e' (rt_usb rt1)" "\<not> ok \<longrightarrow> \<not> en_persist_dirty (rt_engine rt1)"
      using a Some d by (auto simp: asked_for_def performs_def e'_def)
    have "\<not> en_persist_dirty e'"
      using r n by (cases ok) (auto simp: ran_def staged_stage pending_persist_def split: if_splits)
    moreover have "core rt1 = (e', snd (core rt))"
      using r(1) n none a by (simp add: ran_def core_def asked_for_def)
    ultimately show ?thesis
      using a Some by (intro quiet_follows [OF C, of rt1 op]) (auto simp: e'_def asked_for_def valid_ops_def)
  qed
  with i show "\<exists>ls nd'. node_run C nd ls nd' \<and> in_sync C rt1 nd'" by (simp add: follows_node_def)
qed

lemma committed:
  assumes C: "crypto_sizes C" and a: "asked_for C opt rt rt1" and imp: "\<And>r p t. opt \<noteq> Some (OpPairImport r p t)"
    and k: "rt_commit H rt1 = (ok, rt2)"
  shows "follows_node C rt rt2"
  unfolding follows_node_def
proof (intro allI impI)
  fix nd assume i: "in_sync C rt nd"
  then have none: "us_staged (rt_usb rt) = None" by (simp add: in_sync_def)
  have "follows_node C rt rt2"
  proof (cases "us_staged (rt_usb rt1)")
    case None
    from not_committed [OF C a None] have f: "follows_node C rt rt1" .
    from node_follows_trans [OF f idle_follows [OF k]] show ?thesis .
  next
    case st: (Some x)
    then obtain op where op: "opt = Some op"
      using a none by (cases opt) (auto simp: asked_for_def performs_def untouched_def)
    define e' where "e' = snd (run_op C op (rt_engine rt))"
    obtain o' where r: "ran (rt_usb rt) o' e' (rt_usb rt1)" using a op by (auto simp: asked_for_def performs_def e'_def)
    define rt1' where "rt1' = rt1\<lparr> rt_usb := (rt_usb rt1)\<lparr> us_staged := None \<rparr> \<rparr>"
    have c: "core rt1' = (e', snd (core rt))"
      using r none a by (simp add: ran_def core_def asked_for_def rt1'_def)
    have "us_staged (rt_usb rt1) = us_staged (stage_for_commit (rt_usb rt1'))"
      using r st none by (auto simp: ran_def staged_stage rt1'_def split: if_splits option.splits)
    then have "stage_for_commit (rt_usb rt1') = rt_usb rt1"
      by (auto simp: stage_for_commit_def rt1'_def split: option.splits)
    then have "rt_commit H rt1' = (ok, rt2)"
      using k st by (simp add: rt_commit_def rt1'_def)
    then show ?thesis
      by (rule saved_follows [OF C c [unfolded e'_def]]) (use a op imp in \<open>auto simp: asked_for_def valid_ops_def\<close>)
  qed
  with i show "\<exists>ls nd'. node_run C nd ls nd' \<and> in_sync C rt2 nd'" by (simp add: follows_node_def)
qed

lemma radio_control_follows:
  assumes C: "crypto_sizes C" and a: "asked_for C opt rt rt1" and imp: "\<And>r p t. opt \<noteq> Some (OpPairImport r p t)"
  shows "follows_node C rt (control_set_radio_already_staged C H rid enabled rt1)"
proof -
  obtain ok rt2 where k: "rt_commit H rt1 = (ok, rt2)" by (cases "rt_commit H rt1")
  note f2 = committed [OF C a imp k]
  define rt3 where "rt3 = sync_policy (if enabled then rt2\<lparr> rt_usb := (rt_usb rt2)\<lparr> us_settings_tx_pending := False \<rparr> \<rparr> else rt2)"
  have c3: "core rt3 = core rt2" by (simp add: rt3_def)
  obtain cmd rt4 where al: "alloc_cmd rt3 = (cmd, rt4)" by (cases "alloc_cmd rt3")
  obtain q rt5 where t: "try_cmd H (RcSetEnabled cmd enabled) rt4 = (q, rt5)" by (cases "try_cmd H (RcSetEnabled cmd enabled) rt4")
  have f5: "follows_node C rt rt5" using follows_after [OF f2, of rt5] c3 core_pairs(1) [OF al] core_pairs(2) [OF t] by simp
  obtain b rt6 where br: "barrier C H rt5 = (b, rt6)" by (cases "barrier C H rt5")
  have f6: "follows_node C rt rt6" using node_follows_trans [OF f5 barrier_follows [OF C br]] .
  define dp :: "runtime \<Rightarrow> runtime" where "dp = (\<lambda>rt. if enabled then rt else rt\<lparr> rt_send := None, rt_forward := None \<rparr>)"
  have dpc: "core (dp r) = core r" for r by (simp add: dp_def)
  have fin: "follows_node C rt r'" if "follows_node C rt r" "core r' = core r" for r r'
    using follows_after that by blast
  show ?thesis
  proof (cases ok)
    case False
    then show ?thesis using k fin [OF f2] by (simp add: control_set_radio_already_staged_def)
  next
    case True
    then have s: "control_set_radio_already_staged C H rid enabled rt1 =
      (if rt_hw_present rt3 then
         (if \<not> q then emit_err rid ''BUSY'' rt5
          else (case barrier C H rt5 of
                  (None, rt) \<Rightarrow> emit_err rid ''BUSY'' rt
                | (Some ok, rt) \<Rightarrow> if ok then emit_owed (dp rt) else emit_err rid ''BUSY'' (dp rt)))
       else emit_owed (dp rt3))"
      using k al t br by (cases b) (simp_all add: control_set_radio_already_staged_def Let_def rt3_def dp_def)
    have "follows_node C rt rt3" using fin [OF f2 c3] .
    then show ?thesis unfolding s using br f5 f6
      by (cases b) (auto simp: dpc intro: fin)
  qed
qed

lemma block_control_follows:
  assumes C: "crypto_sizes C" and a: "asked_for C opt rt rt1" and imp: "\<And>r p t. opt \<noteq> Some (OpPairImport r p t)"
  shows "follows_node C rt (control_set_blocked_already_staged C H rid rt1)"
proof -
  obtain ok rt2 where k: "rt_commit H rt1 = (ok, rt2)" by (cases "rt_commit H rt1")
  note f2 = committed [OF C a imp k]
  obtain b rt3 where br: "barrier C H (sync_policy rt2) = (b, rt3)" by (cases "barrier C H (sync_policy rt2)")
  have f3: "follows_node C rt rt3"
    using node_follows_trans [OF follows_after [OF f2] barrier_follows [OF C br]] by simp
  show ?thesis using k f2 f3 br
    by (cases b) (auto simp: control_set_blocked_already_staged_def Let_def intro: follows_after split: bool.split)
qed

lemma delete_follows:
  assumes C: "crypto_sizes C" and a: "asked_for C opt rt rt1" and imp: "\<And>r p t. opt \<noteq> Some (OpPairImport r p t)"
  shows "\<exists>rt2. follows_node C rt rt2 \<and> (delete_barrier C H rid rt1 = Inl rt2 \<or> delete_barrier C H rid rt1 = Inr rt2)"
proof -
  obtain ok rt2 where k: "rt_commit H rt1 = (ok, rt2)" by (cases "rt_commit H rt1")
  note f2 = committed [OF C a imp k]
  define rt3 where "rt3 = (case rt_send (sync_policy rt2) of
                      Some sd \<Rightarrow>
                        emit_err (if_reply_id sd) ''BUSY''
                          (with_engine (\<lambda>e. send_complete e False) ((sync_policy rt2)\<lparr> rt_send := None \<rparr>))
                    | None \<Rightarrow> sync_policy rt2)"
  have "core rt3 = core rt2 \<or> core rt3 = (send_complete (rt_engine rt2) False, snd (core rt2))"
    using core_eqD(1) [of "sync_policy rt2" rt2] by (auto simp: rt3_def core_with_engine split: option.split)
  then have f3: "follows_node C rt rt3"
    using node_follows_trans [OF f2] complete_follows [OF C] follows_core by metis
  obtain b rt4 where br: "barrier C H rt3 = (b, rt4)" by (cases "barrier C H rt3")
  have f4: "follows_node C rt rt4" using node_follows_trans [OF f3 barrier_follows [OF C br]] .
  have e: "follows_node C rt (emit_err x y r)" if "follows_node C rt r" for x y r
    using follows_after [OF that] by simp
  show ?thesis
  proof (cases ok)
    case False
    then show ?thesis using k f2 e by (auto simp: delete_barrier_def)
  next
    case True
    then have s: "delete_barrier C H rid rt1 =
      (if rt_hw_present rt3 then
            (case barrier C H rt3 of
               (None, rt) \<Rightarrow> Inl (emit_err rid ''BUSY'' rt)
             | (Some ok, rt) \<Rightarrow> if ok then Inr rt else Inl (emit_err rid ''STORAGE_FAULT'' rt))
          else Inr rt3)"
      using k by (simp add: delete_barrier_def Let_def rt3_def)
    show ?thesis unfolding s using br f3 f4 e by (cases b) (auto split: bool.split)
  qed
qed

lemma finish_follows:
  assumes C: "crypto_sizes C" and a: "asked_for C opt rt rt1" and imp: "\<And>r p t. opt \<noteq> Some (OpPairImport r p t)"
    and n: "us_staged (rt_usb (finish_commit C H rt1)) = None"
  shows "follows_node C rt (finish_commit C H rt1)"
proof -
  have go: "follows_node C rt (case or_fault (rt_commit H r) of Inl rt \<Rightarrow> rt | Inr rt \<Rightarrow> emit_owed rt)"
    if "\<And>ok r'. rt_commit H r = (ok, r') \<Longrightarrow> follows_node C rt r'" for r
  proof -
    obtain ok r' where k: "rt_commit H r = (ok, r')" by (cases "rt_commit H r")
    show ?thesis using that [OF k] k by (cases ok) (auto simp: or_fault_def intro: follows_after)
  qed
  have side: "follows_node C rt (case rbind (or_fault (ok, rt2)) (\<lambda>rt. or_fault (rt_commit H rt)) of
        Inl rt \<Rightarrow> rt | Inr rt \<Rightarrow> emit_owed rt)"
    if c: "core rt2 = core rt1" and z: "\<not> ok \<Longrightarrow> us_staged (rt_usb rt2) = None" for ok rt2
  proof (cases ok)
    case True
    then show ?thesis using go [of rt2] committed [OF C asked_core [OF c a] imp] by (simp add: or_fault_def)
  next
    case False
    have "follows_node C rt rt2" by (rule not_committed [OF C asked_core [OF c a] z [OF False]])
    then show ?thesis using False by (simp add: or_fault_def follows_after)
  qed
  have plain: "follows_node C rt (case rbind (Inr rt1) (\<lambda>rt. or_fault (rt_commit H rt)) of
        Inl rt \<Rightarrow> rt | Inr rt \<Rightarrow> emit_owed rt)"
    using go [of rt1] committed [OF C a imp] by simp
  have del: "follows_node C rt (case rbind (delete_barrier C H rid rt1) (\<lambda>rt. or_fault (rt_commit H rt)) of
        Inl rt \<Rightarrow> rt | Inr rt \<Rightarrow> emit_owed rt)" for rid
  proof -
    obtain rt2 where f: "follows_node C rt rt2" and "delete_barrier C H rid rt1 = Inl rt2 \<or> delete_barrier C H rid rt1 = Inr rt2"
      using delete_follows [OF C a imp] by blast
    then show ?thesis using go [of rt2] node_follows_trans [OF f idle_follows] by auto
  qed
  obtain ok2 rt2 where k2: "commit_settings H rt1 = (ok2, rt2)" by (cases "commit_settings H rt1")
  obtain ok3 rt3 where k3: "commit_wifi H rt1 = (ok3, rt3)" by (cases "commit_wifi H rt1")
  have staged_err: "us_staged (rt_usb (emit_err x y r)) = us_staged (rt_usb r)" for x y r
    by (rule core_eqD(3)) simp
  note fd = finish_commit_def [of C H rt1]
  show ?thesis
  proof (cases "us_staged_reply (rt_usb rt1)")
    case None
    then show ?thesis using plain by (simp add: fd Let_def)
  next
    case (Some sr)
    show ?thesis
    proof (cases sr)
      case (SrSettingsSet v w x y)
      have "\<not> ok2 \<Longrightarrow> us_staged (rt_usb rt2) = None"
        using n by (simp add: fd Some SrSettingsSet k2 or_fault_def staged_err)
      from side [OF side_commits(1) [OF k2] this] show ?thesis by (simp add: fd Some SrSettingsSet k2)
    next
      case (SrWifiSet v)
      have "\<not> ok3 \<Longrightarrow> us_staged (rt_usb rt3) = None"
        using n by (simp add: fd Some SrWifiSet k3 or_fault_def staged_err)
      from side [OF side_commits(2) [OF k3] this] show ?thesis by (simp add: fd Some SrWifiSet k3)
    next
      case (SrWifiForget v)
      have "\<not> ok3 \<Longrightarrow> us_staged (rt_usb rt3) = None"
        using n by (simp add: fd Some SrWifiForget k3 or_fault_def staged_err)
      from side [OF side_commits(2) [OF k3] this] show ?thesis by (simp add: fd Some SrWifiForget k3)
    qed (use plain del in \<open>simp_all add: fd Some radio_control_follows [OF C a imp] block_control_follows [OF C a imp]\<close>)
  qed
qed

text \<open>Which outcomes a request has. Only a request for no operation parks itself.\<close>

definition direct :: "outcome \<Rightarrow> bool" where
  "direct oc \<longleftrightarrow> oc = Silent \<or> (\<exists>n. oc = Inline n)"

definition settles :: "outcome \<Rightarrow> bool" where
  "settles oc \<longleftrightarrow> direct oc \<or> (\<exists>n. oc = NeedsCommit n)"

lemma direct_settles: "direct oc \<Longrightarrow> settles oc"
  by (simp add: settles_def)

lemma direct_finish [simp]: "direct (fst (jw_finish st out))"
  by (simp add: jw_finish_def direct_def split: prod.split)

lemma direct_replies [simp]:
  "direct (fst (reply_err rid c out))" "direct (fst (reply_record rid rec out))" "direct (fst (reply_ok_simple rid b out))"
  "direct (fst (answered s r)) \<longleftrightarrow> direct (fst r)"
  by (simp_all add: reply_err_def reply_record_def reply_ok_simple_def answered_def Let_def split: prod.split)

lemma direct_record [simp]: "direct (fst (record_answer s rid a out))"
  by (auto simp: record_answer_def Let_def split: prod.split sum.split)

lemma direct_import [simp]: "direct (fst (op_pair_import C J s req out))"
  using direct_finish unfolding direct_def
  by (auto simp: op_pair_import_def Let_def direct_def [symmetric] simp del: ascii_simps
      split: prod.split sum.split option.split)

lemma settles_ops:
  "settles (fst (op_time_set s req out))" "settles (fst (op_block s req b out))" "settles (fst (op_delete s req out))"
  "settles (fst (op_radio_set radio s req out))" "settles (fst (op_arm s req out))"
  "settles (fst (op_pair_proof C s req out))" "settles (fst (op_pair_confirm C s req out))"
  "settles (fst (op_pair_import C J s req out))"
  by (auto simp: op_time_set_def op_block_def op_delete_def op_radio_set_def op_arm_def op_pair_proof_def
      op_pair_confirm_def Let_def direct_settles split: prod.split sum.split option.split)
     (simp_all add: settles_def)

lemma direct_complete: "direct (fst (complete_provision s rid label key out))"
  "direct (fst (complete_pair_offer C s rid a b c out))"
  by (auto simp: complete_provision_def complete_pair_offer_def Let_def split: prod.split sum.split)

lemma asked_settles:
  assumes a: "asked J radio s req \<noteq> None"
  shows "settles (fst (dispatch C J radio s req out))"
    and "asked J radio s req = Some (OpPairImport r p t) \<Longrightarrow> direct (fst (dispatch C J radio s req out))"
proof -
  have h: "us_health s \<noteq> HealthFault" using a by (auto simp: asked_def)
  from a have "rq_op req \<in> ascii ` {''time_set'', ''radio_set'', ''radio_arm_next_boot'', ''block'',
      ''unblock'', ''contact_delete'', ''pair_proof'', ''pair_confirm'', ''pair_import''}"
    by (simp add: asked_def Let_def h del: ascii_simps split: if_splits)
  then show "settles (fst (dispatch C J radio s req out))"
    by (elim imageE insertE emptyE) (simp_all add: dispatch_def Let_def h settles_ops)
  show "direct (fst (dispatch C J radio s req out))" if "asked J radio s req = Some (OpPairImport r p t)"
  proof -
    have "rq_op req = ascii ''pair_import''"
      using that by (auto simp: asked_def Let_def h simp del: ascii_simps split: if_splits option.splits)
    then show ?thesis by (simp add: dispatch_def Let_def h)
  qed
qed

lemma pump_asks:
  assumes p: "pump_byte C J radio s lines b out k = (Some oc, s', lines', out')"
  obtains opt where "performs C opt s s'" and "valid_ops (us_engine s) opt" and "opt \<noteq> None \<Longrightarrow> settles oc"
    and "\<And>r p t. opt = Some (OpPairImport r p t) \<Longrightarrow> direct oc"
proof -
  note res = that
  have none: thesis if "untouched s s'"
    using that by (intro res [of None]) (simp_all add: performs_def valid_ops_def)
  obtain ev l where ev: "LineBuffer_push lines b = (Some ev, l)"
    using p by (auto simp: pump_byte_def split: prod.splits option.splits)
  show thesis
  proof (cases "\<exists>line req. ev = Line line \<and> line \<noteq> [] \<and> jc_parse J line k = Some req")
    case True
    then obtain line req where l: "ev = Line line" "line \<noteq> []" "jc_parse J line k = Some req" by blast
    let ?t = "s\<lparr> us_reply_id := rq_id req \<rparr>"
    have d: "dispatch C J radio ?t req out = (oc, s', out')"
      using p ev l by (auto simp: pump_byte_def dispatch_line_def split: prod.splits)
    have "performs C (asked J radio ?t req) ?t s'" using dispatch_performs [of C J radio ?t req out] by (simp add: d)
    then have "performs C (asked J radio ?t req) s s'" using performs_cong [of ?t s] by simp
    then show thesis
      using asked_settles [where J = J and radio = radio and s = ?t and req = req and C = C and out = out] asked_valid
      by (intro res) (simp_all add: d)
  next
    case False
    with p ev show thesis
      by (intro none) (cases ev; auto simp: pump_byte_def dispatch_line_def answered_def split: prod.splits option.splits if_splits)
  qed
qed

text \<open>The random source fills 32 bytes.\<close>

definition host_ok :: "crypto \<Rightarrow> host \<Rightarrow> bool" where
  "host_ok C H \<longleftrightarrow> (\<forall>l. length (ho_bytes H l) = 32 \<and> length (k_x_public C (ho_bytes H l)) = 32)"

lemma draw_bytes_ok:
  "draw_bytes H rt = (b, rt') \<Longrightarrow> host_ok C H \<Longrightarrow> length b = 32 \<and> length (k_x_public C b) = 32"
  by (auto simp: draw_bytes_def host_ok_def Let_def)

lemma core_usb_scratch: "core (rt\<lparr> rt_usb := s, rt_scratch := out \<rparr>) =
  (us_engine s, fl_node (rt_flash rt), us_staged s, us_health s)"
  by (simp add: core_def)

lemma trng_asks:
  assumes h: "host_ok C H" and d: "drive_trng_op C H rt = (oc, rt')"
  shows "\<exists>opt. asked_for C opt rt rt' \<and> direct oc"
proof -
  define rt0 where "rt0 = rt\<lparr> rt_usb := (rt_usb rt)\<lparr> us_pending_op := None \<rparr> \<rparr>"
  have c0: "core rt0 = core rt" by (simp add: rt0_def)
  have lift: "asked_for C (Some op) rt (r\<lparr> rt_usb := s', rt_scratch := o' \<rparr>)"
    if "core r = core rt" "performs C (Some op) (rt_usb r) s'" "op_valid (rt_engine rt) op" for r op s' o'
    using that performs_cong [of "rt_usb r" "rt_usb rt" C "Some op" s'] core_eqD [OF that(1)]
    by (simp add: asked_for_def valid_ops_def)
  have none: "\<exists>opt. asked_for C opt rt rt0"
    using core_eqD [OF c0] by (intro exI [of _ None]) (simp add: asked_for_def performs_def untouched_def valid_ops_def)
  show ?thesis
  proof (cases "us_pending_op (rt_usb rt)")
    case None
    then show ?thesis using d none by (auto simp: drive_trng_op_def Let_def direct_def simp flip: rt0_def)
  next
    case (Some po)
    show ?thesis
    proof (cases po)
      case (PoProvision rid label)
      obtain key rt1 where k: "draw_bytes H rt0 = (key, rt1)" by (cases "draw_bytes H rt0")
      obtain oc' s' o' where cp: "complete_provision (rt_usb rt1) rid label key (rt_scratch rt1) = (oc', s', o')"
        by (cases "complete_provision (rt_usb rt1) rid label key (rt_scratch rt1)")
      have "performs C (Some (OpProvision label key)) (rt_usb rt1) s'"
        by (rule performsI [OF ran_ops(7) [OF cp, unfolded snd_conv fst_conv]]) (simp_all add: failed_not_staged)
      then have "asked_for C (Some (OpProvision label key)) rt (rt1\<lparr> rt_usb := s', rt_scratch := o' \<rparr>)"
        using lift core_pairs(6) [OF k] c0 draw_bytes_ok [OF k h] by simp
      moreover have "direct oc'" using direct_complete(1) [of "rt_usb rt1" rid label key "rt_scratch rt1"] by (simp add: cp)
      ultimately show ?thesis using d Some PoProvision k cp by (auto simp: drive_trng_op_def Let_def simp flip: rt0_def)
    next
      case (PoPairOffer rid)
      obtain eph rt1 where k: "draw_bytes H rt0 = (eph, rt1)" by (cases "draw_bytes H rt0")
      obtain ch rt2 where k2: "draw_bytes H rt1 = (ch, rt2)" by (cases "draw_bytes H rt1")
      let ?op = "OpPairOffer eph (k_x_public C eph) ch"
      obtain oc' s' o' where cp: "complete_pair_offer C (rt_usb rt2) rid eph (k_x_public C eph) ch (rt_scratch rt2) = (oc', s', o')"
        by (cases "complete_pair_offer C (rt_usb rt2) rid eph (k_x_public C eph) ch (rt_scratch rt2)")
      have "performs C (Some ?op) (rt_usb rt2) s'"
        by (rule performsI [OF ran_ops(6) [OF cp [unfolded complete_pair_offer_def], unfolded snd_conv fst_conv]])
          (simp_all add: failed_not_staged)
      then have "asked_for C (Some ?op) rt (rt2\<lparr> rt_usb := s', rt_scratch := o' \<rparr>)"
        using lift core_pairs(6) [OF k] core_pairs(6) [OF k2] c0 draw_bytes_ok [OF k h] draw_bytes_ok [OF k2 h] by simp
      moreover have "direct oc'"
        using direct_complete(2) [of C "rt_usb rt2" rid eph "k_x_public C eph" ch "rt_scratch rt2"] by (simp add: cp)
      ultimately show ?thesis using d Some PoPairOffer k k2 cp by (auto simp: drive_trng_op_def Let_def simp flip: rt0_def)
    qed (use d none Some in \<open>auto simp: drive_trng_op_def Let_def direct_def simp flip: rt0_def\<close>)
  qed
qed

lemma send_prep_direct: "drive_send_prep C H rt = (oc, rt') \<Longrightarrow> direct oc"
  by (auto simp: drive_send_prep_def Let_def direct_def render_err_def put_scratch_def
      split: option.splits pending_op.splits if_splits sum.splits prod.splits bool.splits)

lemma ping_prep_core: "drive_ping_prep H rt = (oc, rt') \<Longrightarrow> core rt' = core rt \<and> direct oc"
  by (auto simp: drive_ping_prep_def Let_def direct_def render_err_def put_scratch_def dest!: core_pairs
      split: option.splits pending_op.splits if_splits prod.splits)

text \<open>The outcome that answers at once.\<close>

definition answer_now :: "outcome \<Rightarrow> runtime \<Rightarrow> runtime" where
  "answer_now oc rt = (case oc of Inline len \<Rightarrow> reply (take len (rt_scratch rt)) rt | _ \<Rightarrow> rt)"

lemma core_answer [simp]: "core (answer_now oc rt) = core rt"
  by (simp add: answer_now_def split: outcome.split)

lemma usb_outcome_cases:
  "drive_trng_op C H rt = (oc, rt') \<Longrightarrow> direct oc \<Longrightarrow> on_usb_outcome C H NeedsTrng rt = answer_now oc rt'"
  "on_usb_outcome C H NeedsSendPrep rt = (case drive_send_prep C H rt of (oc, rt') \<Rightarrow> answer_now oc rt')"
  "on_usb_outcome C H NeedsPingPrep rt = (case drive_ping_prep H rt of (oc, rt') \<Rightarrow> answer_now oc rt')"
  "direct oc \<Longrightarrow> on_usb_outcome C H oc rt = answer_now oc rt"
  "on_usb_outcome C H (NeedsCommit n) rt = finish_commit C H rt"
  using send_prep_direct [of C H rt] ping_prep_core [of H rt]
  by (auto simp: on_usb_outcome_def answer_now_def Let_def direct_def split: prod.split)

lemma core_reboot: "core (on_usb_outcome C H NeedsRebootBootsel rt) = core rt"
  by (auto simp: on_usb_outcome_def Let_def split: prod.split option.split)

lemma pump_follows:
  assumes C: "crypto_sizes C" and h: "host_ok C H" and i: "in_sync C rt nd"
    and p: "rt_pump_byte C J H b (lines, rt) = (lines', rt')" and n: "us_staged (rt_usb rt') = None"
  shows "\<exists>ls nd'. node_run C nd ls nd' \<and> in_sync C rt' nd'"
proof -
  have use: ?thesis if "follows_node C rt rt'" using that i by (simp add: follows_node_def)
  have none: "us_staged (rt_usb rt) = None" using i by (simp add: in_sync_def)
  obtain oco s l out where q: "pump_byte C J True (rt_usb rt) lines b (rt_scratch rt) PARSE_SCRATCH_LEN = (oco, s, l, out)"
    by (cases "pump_byte C J True (rt_usb rt) lines b (rt_scratch rt) PARSE_SCRATCH_LEN")
  define rt1 where "rt1 = rt\<lparr> rt_usb := s, rt_scratch := out \<rparr>"
  show ?thesis
  proof (cases oco)
    case None
    then have "core rt' = core rt"
      using p q pump_silent [OF q [unfolded None]] by (auto simp: rt_pump_byte_def core_usb_scratch core_def)
    then show ?thesis by (intro use follows_core)
  next
    case (Some oc)
    have rt': "rt' = on_usb_outcome C H oc rt1" using p q Some by (simp add: rt_pump_byte_def rt1_def)
    obtain opt where o: "performs C opt (rt_usb rt) s" "valid_ops (rt_engine rt) opt" "opt \<noteq> None \<Longrightarrow> settles oc"
      "\<And>r p t. opt = Some (OpPairImport r p t) \<Longrightarrow> direct oc"
      using pump_asks [OF q [unfolded Some]] by metis
    have a: "asked_for C opt rt rt1" using o by (simp add: asked_for_def rt1_def)
    have same: "core rt1 = core rt" if "opt = None"
      using a that by (simp add: asked_for_def performs_def untouched_def core_def)
    show ?thesis
    proof (cases "settles oc")
      case True
      show ?thesis
      proof (cases "direct oc")
        case True
        then have c: "core rt' = core rt1" by (simp add: rt' usb_outcome_cases(4))
        have "follows_node C rt rt'"
          using follows_after [OF not_committed [OF C a] c] n core_eqD(3) [OF c] by simp
        then show ?thesis by (rule use)
      next
        case False
        then obtain k where "oc = NeedsCommit k" using True by (auto simp: settles_def)
        then show ?thesis
          using finish_follows [OF C a] o(4) False n by (intro use) (auto simp: rt' usb_outcome_cases(5))
      qed
    next
      case False
      then have "opt = None" using o(3) by blast
      note s1 = same [OF this]
      from False consider "oc = NeedsTrng" | "oc = NeedsSendPrep" | "oc = NeedsPingPrep" | "oc = NeedsRebootBootsel"
        by (cases oc) (auto simp: settles_def direct_def)
      then show ?thesis
      proof cases
        case 1
        obtain oc2 rt2 where d: "drive_trng_op C H rt1 = (oc2, rt2)" by (cases "drive_trng_op C H rt1")
        obtain opt2 where a2: "asked_for C opt2 rt1 rt2" "direct oc2" using trng_asks [OF h d] by blast
        then have c: "core rt' = core rt2" by (simp add: rt' 1 usb_outcome_cases(1) [OF d])
        have "follows_node C rt1 rt'"
          using follows_after [OF not_committed [OF C a2(1)] c] n core_eqD(3) [OF c] by simp
        then show ?thesis by (intro use follows_before [OF s1])
      next
        case 2
        obtain oc2 rt2 where d: "drive_send_prep C H rt1 = (oc2, rt2)" by (cases "drive_send_prep C H rt1")
        have "core rt' = core rt2" by (simp add: rt' 2 usb_outcome_cases(2) d)
        then show ?thesis
          using follows_after [OF send_prep_follows [OF C d]] by (intro use follows_before [OF s1]) simp
      next
        case 3
        obtain oc2 rt2 where d: "drive_ping_prep H rt1 = (oc2, rt2)" by (cases "drive_ping_prep H rt1")
        have "core rt' = core rt" using ping_prep_core [OF d] s1 by (simp add: rt' 3 usb_outcome_cases(3) d)
        then show ?thesis by (intro use follows_core)
      next
        case 4
        then show ?thesis using s1 by (intro use follows_core) (simp add: rt' core_reboot)
      qed
    qed
  qed
qed

text \<open>C15: The firmware with a radio refines the abstract node. Time passing, every event of the radio
  task, every expired deadline and every byte from the host takes the runtime from a state in step
  with the abstract node to a state again in step with it, reached by the node in its own steps:
  operations of the engine, each with its save or its failed save. The one condition is on a byte
  that ends a line: the command must not leave a snapshot staged behind, which provisioning, arming
  and the activation of a contact do because they answer without a commit. So the properties of every run of the
  node hold of the runtime.\<close>

theorem runtime_refines_node:
  assumes "crypto_sizes C" and "host_ok C H" and "in_sync C rt nd"
    and "rt' \<in> {rt_advance_time H rt, on_radio_evt C H ev rt, poll_timeouts C H rt} \<or>
      rt' = snd (rt_pump_byte C J H b (lines, rt)) \<and> us_staged (rt_usb rt') = None"
  shows "\<exists>ls nd'. node_run C nd ls nd' \<and> in_sync C rt' nd'"
proof -
  have poll: "follows_node C rt (poll_timeouts C H rt)"
    unfolding poll_timeouts_def by (rule follows_after [OF poll_send_follows [OF assms(1)] poll_forward_core])
  from assms(4) show ?thesis
  proof
    assume "rt' \<in> {rt_advance_time H rt, on_radio_evt C H ev rt, poll_timeouts C H rt}"
    then have "follows_node C rt rt'"
      using advance_follows [OF assms(1)] event_follows [OF assms(1)] poll by auto
    with assms(3) show ?thesis by (simp add: follows_node_def)
  next
    assume "rt' = snd (rt_pump_byte C J H b (lines, rt)) \<and> us_staged (rt_usb rt') = None"
    then show ?thesis
      by (intro pump_follows [OF assms(1-3), where lines' = "fst (rt_pump_byte C J H b (lines, rt))"]) auto
  qed
qed

definition quiet_host :: host where
  "quiet_host = \<lparr> ho_now = (\<lambda>_. 0), ho_word = (\<lambda>_. 7), ho_bytes = (\<lambda>_. replicate 32 0),
     ho_luck = (\<lambda>_. \<lparr> fk_node = True, fk_settings = True, fk_wifi = True, fk_store = True, fk_landed = True \<rparr>),
     ho_room = (\<lambda>_. True), ho_events = (\<lambda>_. []) \<rparr>"

definition new_runtime :: runtime where
  "new_runtime = Runtime_new (UsbState_new (Engine_new False) HealthUnprovisioned)
     \<lparr> fl_node = None, fl_settings = None, fl_wifi = None \<rparr> POLICY_STATE"

definition stray_frame :: air_frame where
  "stray_frame = \<lparr> af_len = 2, af_bytes = [7, 9] \<rparr>"

lemma quiet_host_ok: "host_ok demo_crypto quiet_host"
  by (simp add: host_ok_def quiet_host_def demo_crypto_def)

lemma new_runtime_in_sync: "in_sync demo_crypto new_runtime (node_start demo_crypto False)"
  using settled_new [of demo_crypto False]
  by (simp add: in_sync_def new_runtime_def Runtime_new_def UsbState_new_def node_start_def boot_def)

theorem runtime_refines_node_witness:
  "\<exists>ls nd'. node_run demo_crypto (node_start demo_crypto False) ls nd' \<and>
     in_sync demo_crypto (on_radio_evt demo_crypto quiet_host (ReRxFrame stray_frame) new_runtime) nd'"
  by (rule runtime_refines_node [OF demo_crypto_sizes quiet_host_ok new_runtime_in_sync, where ev = "ReRxFrame stray_frame"]) simp

end
