(* ===== verification/Runtime_Sends.thy ===== *)
theory Runtime_Sends
  imports Runtime_Refine
begin

text \<open>
  The life of a deferred send in the runtime, and the text of its last reply: no event, no deadline
  and no failure loses the send without an answer, retries are bounded, and the 64-byte buffer of the
  reply is long enough only for small command numbers.
\<close>

section \<open>The texts\<close>

lemma length_digits_eq: "length (digits n) = (if n < 10 then 1 else Suc (length (digits (n div 10))))"
  by (simp add: digits_small digits_big)

lemma digits_long: "10 ^ k \<le> n \<Longrightarrow> k < length (digits n)"
proof (induction k arbitrary: n)
  case 0
  then show ?case by (subst length_digits_eq) simp
next
  case (Suc k)
  then have n: "10 \<le> n" "10 ^ k \<le> n div 10"
    by (simp_all add: less_eq_div_iff_mult_less_eq order_trans [OF _ Suc.prems] mult.commute)
  then show ?case using Suc.IH [OF n(2)] by (subst length_digits_eq) simp
qed

lemma digits_length_iff: "length (digits n) \<le> Suc k \<longleftrightarrow> n < 10 ^ Suc k"
  using length_digits [of n k] digits_long [of "Suc k" n] by (meson not_less not_less_eq_eq not_le)

lemma format_loop_num: "length (digits n) \<le> i \<Longrightarrow> 0 < n \<Longrightarrow> format_loop n i out = num_loop n i out"
proof (induction n i out rule: format_loop.induct)
  case (1 n i out)
  have i: "0 < i" using 1(2) length_digits_eq [of n] by (cases i) (auto split: if_splits)
  show ?case
  proof (cases "n < 10")
    case True
    then show ?thesis using 1(3) i
      by (subst format_loop.simps, subst num_loop.simps) (simp add: format_loop.simps [of 0] num_loop.simps [of 0])
  next
    case False
    then show ?thesis using 1 i length_digits_eq [of n]
      by (subst format_loop.simps, subst num_loop.simps) simp
  qed
qed

lemma format_u64_digits: "format_u64 v = digits (unat v)"
proof (cases "v = 0")
  case False
  then have "0 < unat v" by (simp add: unat_gt_0)
  then show ?thesis
    using False digits_u64 [of v] num_loop_digits [of "unat v" 20 "replicate 20 0"] format_loop_num [of "unat v" 20]
    by (simp add: format_u64_def put_at_def)
qed (simp add: format_u64_def digits_zero)

definition err_text :: "u64 \<Rightarrow> string \<Rightarrow> bytes" where
  "err_text rid code =
     tpush 64 (ascii ''\"}'') (tpush 64 (ascii code)
         (tpush 64 (ascii '',\"ok\":false,\"error\":\"'') (tpush 64 (format_u64 rid)
           (tpush 64 (ascii ''{\"id\":'') []))))"

definition ack_text :: "u64 \<Rightarrow> bytes" where
  "ack_text rid = tpush 64 (ascii '',\"ok\":true,\"result\":{\"status\":\"ACKNOWLEDGED\"}}'')
          (tpush 64 (format_u64 rid) (tpush 64 (ascii ''{\"id\":'') []))"

definition unconfirmed_text :: "u64 \<Rightarrow> bytes" where
  "unconfirmed_text rid = tpush 64 (ascii '',\"ok\":true,\"result\":{\"status\":\"UNCONFIRMED\"}}'')
          (tpush 64 (format_u64 rid) (tpush 64 (ascii ''{\"id\":'') []))"

lemma length_tpush: "length acc \<le> cap \<Longrightarrow> length (tpush cap s acc) \<le> cap"
  by (simp add: tpush_def)

lemma texts_short: "length (err_text rid code) \<le> 64" "length (ack_text rid) \<le> 64" "length (unconfirmed_text rid) \<le> 64"
  by (simp_all add: err_text_def ack_text_def unconfirmed_text_def length_tpush del: ascii_simps)

lemma put_scratch_reply:
  "put_scratch tmp rt = (oc, rt1) \<Longrightarrow> length tmp \<le> 64 \<Longrightarrow> length (rt_scratch rt) = 4096 \<Longrightarrow>
   reply_outcome oc rt1 = note_act (SendOut tmp) (rt\<lparr> rt_scratch := put_at 0 tmp (rt_scratch rt) \<rparr>)"
  by (auto simp: put_scratch_def reply_outcome_def reply_def put_at_def)

lemma emit_logs:
  assumes "length (rt_scratch rt) = 4096"
  shows "emit_err rid code rt =
      note_act (SendOut (err_text rid code)) (rt\<lparr> rt_scratch := put_at 0 (err_text rid code) (rt_scratch rt) \<rparr>)"
    and "emit_acknowledged rid rt =
      note_act (SendOut (ack_text rid)) (rt\<lparr> rt_scratch := put_at 0 (ack_text rid) (rt_scratch rt) \<rparr>)"
    and "emit_unconfirmed rid rt =
      note_act (SendOut (unconfirmed_text rid)) (rt\<lparr> rt_scratch := put_at 0 (unconfirmed_text rid) (rt_scratch rt) \<rparr>)"
  using put_scratch_reply [OF _ texts_short(1) assms] put_scratch_reply [OF _ texts_short(2) assms]
    put_scratch_reply [OF _ texts_short(3) assms]
  by (simp_all add: emit_err_def render_err_def emit_acknowledged_def emit_unconfirmed_def
      split: prod.split del: ascii_simps flip: err_text_def ack_text_def unconfirmed_text_def)

lemma late_texts:
  "ack_text rid = (if rid < 10 ^ 12 then json_text (ok_reply rid (JObj [(''status'', JStr (ascii ''ACKNOWLEDGED''))]))
               else ascii ''{\"id\":'' @ digits (unat rid))"
  "unconfirmed_text rid = (if rid < 10 ^ 13 then json_text (ok_reply rid (JObj [(''status'', JStr (ascii ''UNCONFIRMED''))]))
               else ascii ''{\"id\":'' @ digits (unat rid))"
proof -
  have n: "rid < 10 ^ 12 \<longleftrightarrow> length (digits (unat rid)) \<le> 12" "rid < 10 ^ 13 \<longleftrightarrow> length (digits (unat rid)) \<le> 13"
    using digits_length_iff [of "unat rid" 11] digits_length_iff [of "unat rid" 12] by (simp_all add: word_less_nat_alt)
  have l: "length (digits (unat rid)) \<le> 20" by (rule digits_u64)
  show "ack_text rid = (if rid < 10 ^ 12 then json_text (ok_reply rid (JObj [(''status'', JStr (ascii ''ACKNOWLEDGED''))]))
               else ascii ''{\"id\":'' @ digits (unat rid))"
    unfolding n using l by (simp add: ack_text_def tpush_def format_u64_digits ok_reply_def json_string_def escape_byte_def)
  show "unconfirmed_text rid = (if rid < 10 ^ 13 then json_text (ok_reply rid (JObj [(''status'', JStr (ascii ''UNCONFIRMED''))]))
               else ascii ''{\"id\":'' @ digits (unat rid))"
    unfolding n using l by (simp add: unconfirmed_text_def tpush_def format_u64_digits ok_reply_def json_string_def escape_byte_def)
qed

text \<open>C19: The last reply to a deferred send is written into a buffer of 64 bytes, and the part that
  does not fit is left out whole. So an acknowledged send is reported as the reply in JSON exactly for
  command numbers below ten to the 12, an unconfirmed one below ten to the 13; for larger numbers,
  such as a time in milliseconds, the host receives the beginning of an object without its end.\<close>

theorem late_reply_is_cut_short:
  assumes "length (rt_scratch rt) = 4096"
  shows "rt_log (emit_acknowledged rid rt) =
      SendOut (if rid < 10 ^ 12 then json_text (ok_reply rid (JObj [(''status'', JStr (ascii ''ACKNOWLEDGED''))]))
               else ascii ''{\"id\":'' @ digits (unat rid)) # rt_log rt \<and>
    rt_log (emit_unconfirmed rid rt) =
      SendOut (if rid < 10 ^ 13 then json_text (ok_reply rid (JObj [(''status'', JStr (ascii ''UNCONFIRMED''))]))
               else ascii ''{\"id\":'' @ digits (unat rid)) # rt_log rt"
  unfolding emit_logs(2,3) [OF assms] late_texts by (simp add: note_act_def)

definition idle_runtime :: runtime where
  "idle_runtime = Runtime_new (UsbState_new (Engine_new False) HealthUnprovisioned)
     \<lparr> fl_node = None, fl_settings = None, fl_wifi = None \<rparr> POLICY_STATE"

lemma idle_scratch: "length (rt_scratch idle_runtime) = 4096"
  by (simp add: idle_runtime_def Runtime_new_def)

text \<open>A time in milliseconds as the command number: the reply ends in the middle.\<close>

theorem late_reply_is_cut_short_witness:
  "rt_log (emit_acknowledged 1753000000000 idle_runtime) = [SendOut (ascii ''{\"id\":'' @ digits 1753000000000)]"
  using late_reply_is_cut_short [OF idle_scratch, of 1753000000000]
  by (simp add: idle_runtime_def Runtime_new_def)

section \<open>A deferred send\<close>

definition final_texts :: "u64 \<Rightarrow> bytes set" where
  "final_texts rid = {ack_text rid, unconfirmed_text rid} \<union> range (err_text rid)"

text \<open>The log only grows and the reply buffer keeps its size; nothing about the send changes.\<close>

definition sized :: "runtime \<Rightarrow> runtime \<Rightarrow> bool" where
  "sized rt rt' \<longleftrightarrow> length (rt_scratch rt') = length (rt_scratch rt) \<and> (\<exists>new. rt_log rt' = new @ rt_log rt)"

definition still :: "runtime \<Rightarrow> runtime \<Rightarrow> bool" where
  "still rt rt' \<longleftrightarrow> rt_send rt' = rt_send rt \<and> sized rt rt'"

definition framed :: "runtime \<Rightarrow> runtime \<Rightarrow> bool" where
  "framed rt rt' \<longleftrightarrow> still rt rt' \<and> rt_scratch rt' = rt_scratch rt"

text \<open>The send is over: it is forgotten by the engine too, and one of its last replies went out.\<close>

definition closes :: "in_flight \<Rightarrow> runtime \<Rightarrow> runtime \<Rightarrow> bool" where
  "closes sd rt rt' \<longleftrightarrow> rt_send rt' = None \<and> en_pending_send (rt_engine rt') = None \<and>
     length (rt_scratch rt') = length (rt_scratch rt) \<and>
     (\<exists>new b. rt_log rt' = new @ rt_log rt \<and> SendOut b \<in> set new \<and> b \<in> final_texts (if_reply_id sd))"

lemma sized_trans: "sized a b \<Longrightarrow> sized b c \<Longrightarrow> sized a c"
  by (auto simp: sized_def)

lemma still_trans: "still a b \<Longrightarrow> still b c \<Longrightarrow> still a c"
  by (auto simp: still_def intro: sized_trans)

lemma framed_trans: "framed a b \<Longrightarrow> framed b c \<Longrightarrow> framed a c"
  by (auto simp: framed_def intro: still_trans)

lemma framed_still: "framed a b \<Longrightarrow> still a b"
  by (simp add: framed_def)

lemma still_refl [simp]: "still a a" and framed_refl [simp]: "framed a a"
  by (simp_all add: still_def framed_def sized_def)

lemma closes_after: "still a b \<Longrightarrow> closes sd b c \<Longrightarrow> closes sd a c"
  by (auto simp: closes_def still_def sized_def)

lemma framed_parts [simp]:
  "framed rt (note_act a rt)" "framed rt (with_counters f rt)" "framed rt (with_engine g rt)" "framed rt (sync_policy rt)"
  "framed rt (rt\<lparr> rt_usb := u \<rparr>)" "framed rt (rt\<lparr> rt_forward := fw \<rparr>)" "framed rt (rt\<lparr> rt_ping := pg \<rparr>)"
  "framed rt (rt\<lparr> rt_flash := fl \<rparr>)" "framed rt (rt\<lparr> rt_policy := pl, rt_last_policy := lp \<rparr>)"
  by (simp_all add: framed_def still_def sized_def note_act_def with_counters_def with_engine_def sync_policy_def Let_def)

lemma framed_pairs:
  "alloc_cmd rt = (n, rt1) \<Longrightarrow> framed rt rt1" "try_cmd H c rt = (b, rt2) \<Longrightarrow> framed rt rt2"
  "read_now H rt = (t, rt3) \<Longrightarrow> framed rt rt3" "draw_word H rt = (w, rt4) \<Longrightarrow> framed rt rt4"
  "draw_jitter H rt = (j, rt5) \<Longrightarrow> framed rt rt5"
  by (auto simp: alloc_cmd_def try_cmd_def read_now_def draw_word_def draw_jitter_def Let_def)
     (simp add: framed_def still_def sized_def)

lemma framed_queue:
  assumes "queue_frame H contact j air rt = (r, rt1)"
  shows "framed rt rt1"
proof -
  obtain c rt2 where 2: "alloc_cmd (sync_policy rt) = (c, rt2)" by fastforce
  obtain b rt3 where 3: "try_cmd H (RcTx c air j contact (tx_token (rt_policy (sync_policy rt)) contact)) rt2 = (b, rt3)" by fastforce
  have "rt1 = rt3" using assms by (simp add: queue_frame_def Let_def 2 3)
  then show ?thesis
    using framed_trans [OF framed_trans [OF framed_parts(4) framed_pairs(1) [OF 2]] framed_pairs(2) [OF 3]] by simp
qed

lemma still_reply [simp]: "still rt (reply b rt)"
  by (simp add: reply_def framed_still)

lemma still_scratch: "length b = length (rt_scratch rt) \<Longrightarrow> still rt (rt\<lparr> rt_scratch := b \<rparr>)"
  by (simp add: still_def sized_def)

lemma still_outcome: "still rt (reply_outcome oc rt)"
  by (cases oc) (simp_all add: reply_outcome_def)

text \<open>No step of the writer changes the size of its buffer.\<close>

definition fits :: "wstep \<Rightarrow> bool" where
  "fits s \<longleftrightarrow> (\<forall>w. length (jw_buf (snd (s w))) = length (jw_buf w))"

lemma fits_raw [simp]: "fits (jraw bs)" and fits_num [simp]: "fits (jnum n)"
  by (auto simp: fits_def jraw_def jnum_def Let_def split: prod.split)

lemma fits_all: "list_all fits ss \<Longrightarrow> fits (w_all ss)"
proof (induction ss)
  case (Cons s ss)
  then have f: "fits s" "fits (w_all ss)" by simp_all
  have "length (jw_buf (snd (w_all (s # ss) w))) = length (jw_buf w)" for w
    using f unfolding fits_def by (cases "s w") (auto dest: spec [of _ w] split: bool.split)
  then show ?case by (simp add: fits_def)
qed (simp add: fits_def)

lemma fits_escape: "length (jw_buf (snd (escape_loop bs w))) = length (jw_buf w)"
proof (induction bs w rule: escape_loop.induct)
  case (2 b rest w)
  have "fits (w_all (map jraw ws))" for ws by (rule fits_all) (simp add: list_all_iff)
  then have w: "length (jw_buf (snd (w_all (map jraw ws) w))) = length (jw_buf w)" for ws by (simp add: fits_def)
  show ?case
  proof (cases "escape_one b rest")
    case (Some p)
    then obtain ws rest' where p: "escape_one b rest = Some (ws, rest')" by (cases p) simp
    obtain ok w' where w': "w_all (map jraw ws) w = (ok, w')" by fastforce
    show ?thesis using 2 [OF p refl, of ok w'] w [of ws] by (cases ok) (simp_all add: escape_loop.simps p w')
  qed (simp add: escape_loop.simps)
qed simp

lemma fits_received: "length (snd (reply_received k ep sq t out)) = length out"
proof -
  have e: "fits (escape_loop bs)" for bs by (simp add: fits_def fits_escape)
  have q: "fits (quoted_escaped t)" unfolding quoted_escaped_def by (rule fits_all) (simp add: e)
  have n: "fits (\<lambda>w. (False, w))" by (simp add: fits_def)
  define ws where "ws = [jraw (ascii ''{\"event\":\"received\",\"contact_id\":''), jnum (ucast k),
          jraw (ascii '',\"epoch\":''), jnum (ucast ep), jraw (ascii '',\"sequence\":''), jnum sq,
          jraw (ascii '',\"text\":'')] @
         (if utf8_valid t then [quoted_escaped t, jraw (ascii ''}'')] else [\<lambda>w. (False, w)])"
  have "fits (w_all ws)" by (rule fits_all) (simp add: ws_def q n del: ascii_simps)
  then show ?thesis unfolding reply_received_def ws_def [symmetric]
    by (auto simp: fits_def JsonWriter_new_def split: prod.split dest: spec [of _ "JsonWriter_new out"])
qed

lemma still_received: "still rt (emit_received k ep sq t rt)"
proof -
  obtain ln out where r: "reply_received k ep sq t (rt_scratch rt) = (ln, out)" by fastforce
  have s: "still rt (rt\<lparr> rt_scratch := out \<rparr>)" using fits_received [of k ep sq t "rt_scratch rt"] by (intro still_scratch) (simp add: r)
  show ?thesis using s still_trans [OF s still_reply] by (cases ln) (simp_all add: emit_received_def r)
qed

lemma still_emits:
  assumes "length (rt_scratch rt) = 4096"
  shows "still rt (emit_err rid code rt)" "still rt (emit_ping rid n c rt)"
proof -
  have put: "still rt (reply_outcome oc r)" if "put_scratch tmp rt = (oc, r)" "length tmp \<le> 96" for tmp oc r
    using that assms by (auto simp: put_scratch_def intro!: still_trans [OF still_scratch still_outcome])
  show "still rt (emit_err rid code rt)"
    unfolding emit_err_def render_err_def err_text_def [symmetric]
    using texts_short(1) [of rid code] by (auto split: prod.split intro: put)
  show "still rt (emit_ping rid n c rt)"
    unfolding emit_ping_def by (auto split: prod.split intro!: put length_tpush simp del: ascii_simps)
qed

text \<open>Giving the send up with an error, an acknowledgement, or unconfirmed.\<close>

lemma gives_up:
  assumes f: "framed rt rt1" and l: "length (rt_scratch rt) = 4096"
  shows "closes sd rt (emit_err (if_reply_id sd) code (with_engine (\<lambda>e. send_complete e b) (rt1\<lparr> rt_send := None \<rparr>)))"
    and "closes sd rt (emit_acknowledged (if_reply_id sd) (with_engine (\<lambda>e. send_complete e b) (rt1\<lparr> rt_send := None \<rparr>)))"
    and "closes sd rt (emit_unconfirmed (if_reply_id sd) (with_engine (\<lambda>e. send_complete e b) (rt1\<lparr> rt_send := None \<rparr>)))"
proof -
  define r where "r = with_engine (\<lambda>e. send_complete e b) (rt1\<lparr> rt_send := None \<rparr>)"
  have r: "length (rt_scratch r) = 4096" "rt_send r = None" "en_pending_send (rt_engine r) = None"
    "\<exists>new. rt_log r = new @ rt_log rt"
    using f l by (simp_all add: r_def with_engine_def send_complete_def framed_def still_def sized_def)
  have lp: "length (put_at 0 tmp (rt_scratch r)) = length (rt_scratch rt)" if "length tmp \<le> 64" for tmp
    using that r(1) l by simp
  have over: "closes sd rt (note_act (SendOut b') (r\<lparr> rt_scratch := s \<rparr>))" if b': "b' \<in> final_texts (if_reply_id sd)" "length s = length (rt_scratch rt)" for b' s
  proof -
    obtain new where "rt_log r = new @ rt_log rt" using r(4) by blast
    then show ?thesis
      unfolding closes_def
      by (intro conjI exI [of _ "SendOut b' # new"] exI [of _ b']) (simp_all add: note_act_def r b')
  qed
  show "closes sd rt (emit_err (if_reply_id sd) code (with_engine (\<lambda>e. send_complete e b) (rt1\<lparr> rt_send := None \<rparr>)))"
    "closes sd rt (emit_acknowledged (if_reply_id sd) (with_engine (\<lambda>e. send_complete e b) (rt1\<lparr> rt_send := None \<rparr>)))"
    "closes sd rt (emit_unconfirmed (if_reply_id sd) (with_engine (\<lambda>e. send_complete e b) (rt1\<lparr> rt_send := None \<rparr>)))"
    unfolding r_def [symmetric] emit_logs [OF r(1)]
    by (auto intro!: over lp texts_short simp: final_texts_def)
qed

text \<open>What a step may do to a send in flight.\<close>

definition cared_for :: "in_flight \<Rightarrow> runtime \<Rightarrow> runtime \<Rightarrow> bool" where
  "cared_for sd rt rt' \<longleftrightarrow> closes sd rt rt' \<or>
     (sized rt rt' \<and> (\<exists>sd'. rt_send rt' = Some sd' \<and> if_reply_id sd' = if_reply_id sd \<and> if_contact_id sd' = if_contact_id sd \<and>
        (if_tx_count sd' = if_tx_count sd \<or> if_tx_count sd < MAX_TX \<and> if_tx_count sd' = if_tx_count sd + 1)))"

lemma still_cared: "still rt rt' \<Longrightarrow> rt_send rt = Some sd \<Longrightarrow> cared_for sd rt rt'"
  by (auto simp: still_def cared_for_def)

lemma closes_cared: "closes sd rt rt' \<Longrightarrow> cared_for sd rt rt'"
  by (simp add: cared_for_def)

lemma closes_rest:
  "closes sd rt rt' \<Longrightarrow> closes sd rt (rt'\<lparr> rt_ping := p, rt_forward := f \<rparr>)"
  by (simp add: closes_def)

lemma fail_closes:
  assumes "framed rt rt1" and "rt_send rt = Some sd" and "length (rt_scratch rt) = 4096"
  shows "closes sd rt (fail_radio_closed H rt1)"
proof -
  define m where "m = blocked_mask (rt_engine rt1)"
  define rt2 where "rt2 = rt1\<lparr> rt_policy := set_policy (rt_policy rt1) False m, rt_last_policy := Some (False, m) \<rparr>"
  obtain n rt3 where 3: "alloc_cmd rt2 = (n, rt3)" by fastforce
  obtain b rt4 where 4: "try_cmd H (RcSetEnabled n False) rt3 = (b, rt4)" by fastforce
  have f: "framed rt rt4" unfolding rt2_def
    by (rule framed_trans [OF framed_trans [OF framed_trans [OF assms(1) framed_parts(9)] framed_pairs(1)] framed_pairs(2)])
      (use 3 4 in \<open>simp_all add: rt2_def\<close>)
  then have "rt_send rt4 = Some sd" using assms(2) by (simp add: framed_def still_def)
  then show ?thesis
    using closes_rest [OF gives_up(1) [OF f assms(3)]]
    by (simp add: fail_radio_closed_def Let_def 3 4 flip: m_def rt2_def)
qed

lemma framed_store: "store_with H await req rt = (ok, rt') \<Longrightarrow> framed rt rt'"
  by (auto simp: store_with_def Let_def split: prod.splits intro: framed_trans [OF framed_parts(1) framed_parts(8)])

lemma commit_cares:
  assumes c: "rt_commit H rt1 = (ok, rt')" and f: "framed rt rt1"
    and s: "rt_send rt = Some sd" and l: "length (rt_scratch rt) = 4096"
  shows "if ok then framed rt rt' else closes sd rt rt'"
proof -
  define rt2 where "rt2 = (if us_staged (rt_usb rt1) = None then rt1\<lparr> rt_usb := stage_for_commit (rt_usb rt1) \<rparr> else rt1)"
  have 2: "framed rt rt2" using f by (auto simp: rt2_def intro: framed_trans)
  show ?thesis
  proof (cases "us_staged (rt_usb rt2)")
    case None
    then show ?thesis using c 2 by (auto simp: rt_commit_def Let_def rt2_def)
  next
    case (Some p)
    then obtain b ln where p: "us_staged (rt_usb rt2) = Some (b, ln)" by (cases p) simp
    define rt3 where "rt3 = rt2\<lparr> rt_usb := (rt_usb rt2)\<lparr> us_staged := None \<rparr> \<rparr>"
    obtain ok' rt4 where 4: "store_with H await_committed (ReqCommit b ln) rt3 = (ok', rt4)" by fastforce
    have f4: "framed rt rt4"
      using framed_trans [OF framed_trans [OF 2] framed_store [OF 4]] by (simp add: rt3_def)
    define rt5 where "rt5 = with_engine (\<lambda>e. mark_fault (discard_staged e)) rt4"
    have f5: "framed rt (rt5\<lparr> rt_usb := (rt_usb rt5)\<lparr> us_health := HealthFault \<rparr> \<rparr>)"
      unfolding rt5_def by (rule framed_trans [OF framed_trans [OF f4 framed_parts(3)] framed_parts(5)])
    have "rt_commit H rt1 = (if ok' then (True, with_engine commit_ok rt4)
        else (False, fail_radio_closed H (rt5\<lparr> rt_usb := (rt_usb rt5)\<lparr> us_health := HealthFault \<rparr> \<rparr>)))"
      by (simp add: rt_commit_def Let_def p 4 rt5_def flip: rt2_def rt3_def)
    then show ?thesis
      using c fail_closes [OF f5 s l, of H] framed_trans [OF f4 framed_parts(3)] by (auto split: if_splits)
  qed
qed

lemma commit_cared:
  "rt_commit H rt1 = (ok, rt') \<Longrightarrow> framed rt rt1 \<Longrightarrow> rt_send rt = Some sd \<Longrightarrow> length (rt_scratch rt) = 4096 \<Longrightarrow>
   cared_for sd rt rt'"
  using commit_cares [of H rt1 ok rt' rt sd] by (auto intro: closes_cared still_cared framed_still split: if_splits)

text \<open>One step of each kind.\<close>

lemma framed_cared: "framed rt rt' \<Longrightarrow> rt_send rt = Some sd \<Longrightarrow> cared_for sd rt rt'"
  by (rule still_cared [OF framed_still])

lemma advance_cared:
  assumes send: "rt_send rt = Some sd" and buffer: "length (rt_scratch rt) = 4096"
  shows "cared_for sd rt (rt_advance_time H rt)"
proof -
  obtain n rt1 where 1: "read_now H rt = (n, rt1)" by fastforce
  obtain r e where a: "advance_time (rt_engine rt1) (of_nat (n div 1000)) = (r, e)" by fastforce
  have f: "framed rt (with_engine (\<lambda>_. e) rt1)" by (rule framed_trans [OF framed_pairs(3) [OF 1] framed_parts(3)])
  have "cared_for sd rt (snd (rt_commit H (with_engine (\<lambda>_. e) rt1)))"
    by (rule commit_cared [OF _ f send buffer]) (rule surjective_pairing)
  with closes_cared [OF fail_closes [OF f send buffer]] framed_cared [OF f send] show ?thesis
    by (simp add: rt_advance_time_def Let_def 1 a split: sum.split)
qed

lemma cared_now:
  assumes "framed rt rt1" and "if_reply_id sd' = if_reply_id sd" "if_contact_id sd' = if_contact_id sd"
    "if_tx_count sd' = if_tx_count sd \<or> if_tx_count sd < MAX_TX \<and> if_tx_count sd' = if_tx_count sd + 1"
  shows "cared_for sd rt (rt1\<lparr> rt_send := Some sd' \<rparr>)"
  using assms by (simp add: cared_for_def framed_def still_def sized_def)

lemma tx_done_cared:
  assumes send: "rt_send rt = Some sd" and buffer: "length (rt_scratch rt) = 4096"
  shows "cared_for sd rt (on_tx_done H rid result attempted rt)"
proof -
  define summary where "summary = (case result of
                       Inr _ \<Rightarrow> TdSuccess | Inl ChannelBusy \<Rightarrow> TdBusy
                     | Inl TfCancelled \<Rightarrow> TdCancelled | Inl TfRadio \<Rightarrow> TdRadio)"
  define rt1 where "rt1 = with_counters (\<lambda>k. report_tx_done k summary)
      (if attempted then with_counters report_tx_attempted rt else rt)"
  have f: "framed rt rt1" unfolding rt1_def by (rule framed_trans [OF _ framed_parts(2)]) simp
  then have s: "rt_send rt1 = Some sd" using send by (simp add: framed_def still_def)
  have tx: "on_tx_done H rid result attempted rt =
     (if if_cmd_id sd = rid then
        (case result of
           Inr _ \<Rightarrow> (case read_now H rt1 of (now, rt) \<Rightarrow> rt\<lparr> rt_send := Some (sd\<lparr> if_deadline := now + ACK_WAIT, if_cmd_id := rid \<rparr>) \<rparr>)
         | Inl fault \<Rightarrow>
             let rt = with_engine (\<lambda>e. send_complete e False) (rt1\<lparr> rt_send := None \<rparr>)
             in emit_err (if_reply_id sd)
                 (case fault of
                    ChannelBusy \<Rightarrow> ''CHANNEL_BUSY''
                  | TfCancelled \<Rightarrow> if contact_blocked (rt_engine rt) (if_contact_id sd) then ''CONTACT_BLOCKED'' else ''BUSY''
                  | TfRadio \<Rightarrow> ''RADIO'') rt)
      else case rt_forward rt1 of
        Some fwd \<Rightarrow> if pf_cmd_id fwd = Some rid then rt1\<lparr> rt_forward := None \<rparr> else rt1
      | None \<Rightarrow> rt1)"
    unfolding on_tx_done_def Let_def unfolding summary_def [symmetric] unfolding rt1_def [symmetric] by (simp add: s)
  have "framed rt (rt1\<lparr> rt_forward := None \<rparr>)" by (rule framed_trans [OF f framed_parts(6)])
  moreover obtain now rt2 where 2: "read_now H rt1 = (now, rt2)" by fastforce
  moreover from this have "framed rt rt2" by (rule framed_trans [OF f framed_pairs(3)])
  ultimately show ?thesis
    using f closes_cared [OF gives_up(1) [OF f buffer]]
    by (simp add: tx Let_def framed_cared [OF _ send] cared_now split: sum.split option.split)
qed

lemma cad_done_cared:
  assumes send: "rt_send rt = Some sd" and buffer: "length (rt_scratch rt) = 4096"
  shows "cared_for sd rt (on_cad_done H rid result rt)"
proof -
  define rt1 where "rt1 = rt\<lparr> rt_ping := None \<rparr>"
  have f: "framed rt rt1" by (simp add: rt1_def)
  have emits: "still rt (emit_err i code r)" "still rt (emit_ping i n c r)" if "framed rt r" for i code n c r
    using that still_trans [OF framed_still still_emits(1)] still_trans [OF framed_still still_emits(2)] buffer
    by (auto simp: framed_def)
  show ?thesis
  proof (cases "rt_ping rt")
    case None
    then show ?thesis by (simp add: on_cad_done_def framed_cared send)
  next
    case (Some ping)
    show ?thesis
    proof (cases "pg_cmd_id ping = rid")
      case False
      then show ?thesis by (simp add: on_cad_done_def framed_cared send Some)
    next
      case rid: True
      show ?thesis
      proof (cases result)
        case (Inl fault)
        then show ?thesis
          by (cases fault) (simp_all add: on_cad_done_def Some rid Let_def emits f still_cared send flip: rt1_def)
      next
        case (Inr clear)
        obtain n rt2 where 2: "alloc_cmd rt1 = (n, rt2)" by fastforce
        obtain ok rt3 where 3: "try_cmd H (RcCadProbe n) rt2 = (ok, rt3)" by fastforce
        have f3: "framed rt rt3" by (rule framed_trans [OF framed_trans [OF f framed_pairs(1) [OF 2]] framed_pairs(2) [OF 3]])
        show ?thesis
          using framed_cared [OF framed_trans [OF f3 framed_parts(7)] send] still_cared [OF emits(1) [OF f3] send]
            still_cared [OF still_trans [OF emits(2) [OF f] framed_still [OF framed_parts(5)]] send]
          by (simp add: on_cad_done_def Some rid Inr Let_def 2 3 flip: rt1_def)
      qed
    qed
  qed
qed

lemma framed_ack_if: "framed rt (ack_if C H out rt)"
proof (cases out)
  case (Some ack)
  define air where "air = air_from_outgoing ack"
  define contact where "contact = of_contact_id ack"
  obtain j rt1 where 1: "draw_jitter H rt = (j, rt1)" by fastforce
  obtain n rt2 where 2: "alloc_cmd (sync_policy rt1) = (n, rt2)" by fastforce
  obtain now rt3 where 3: "read_now H rt2 = (now, rt3)" by fastforce
  define rt4 where "rt4 = with_engine (\<lambda>e. note_origin C e (OutgoingFrame_as_slice ack) (of_nat now)) rt3"
  obtain ok rt5 where
    5: "try_cmd H (RcTx n air j contact (tx_token (rt_policy (sync_policy rt1)) contact)) rt4 = (ok, rt5)" by fastforce
  have 4: "framed rt rt4" unfolding rt4_def
    by (rule framed_trans [OF framed_trans [OF framed_trans [OF framed_trans [OF framed_pairs(5) [OF 1] framed_parts(4)]
          framed_pairs(1) [OF 2]] framed_pairs(3) [OF 3]] framed_parts(3)])
  have "ack_if C H out rt = rt5"
    by (simp add: ack_if_def send_ack_frame_def Some Let_def 1 2 3 5 flip: air_def contact_def rt4_def)
  then show ?thesis using framed_trans [OF 4 framed_pairs(2) [OF 5]] by simp
qed (simp add: ack_if_def)

lemma framed_schedule: "framed rt (schedule_forward H fwd rt)"
proof -
  obtain w rt1 where 1: "draw_word H rt = (w, rt1)" by fastforce
  obtain now rt2 where 2: "read_now H rt1 = (now, rt2)" by fastforce
  show ?thesis
    using framed_trans [OF framed_trans [OF framed_trans [OF framed_pairs(4) [OF 1] framed_pairs(3) [OF 2]] framed_parts(6)] framed_parts(2)]
    by (simp add: schedule_forward_def Let_def 1 2)
qed

lemma rx_cared:
  assumes send: "rt_send rt = Some sd" and buffer: "length (rt_scratch rt) = 4096"
  shows "cared_for sd rt (on_rx C H frame rt)"
proof -
  obtain now rt1 where 1: "read_now H rt = (now, rt1)" by fastforce
  obtain ack_id rt2 where 2: "draw_word H rt1 = (ack_id, rt2)" by fastforce
  obtain kind out event e where
    r: "on_frame C (rt_engine rt2) (take (unat (af_len frame)) (af_bytes frame)) (of_nat now) ack_id = ((kind, out, event), e)"
    by (metis prod.exhaust)
  define rt3 where "rt3 = with_counters (\<lambda>k. mirror_reception k (rt_engine (with_engine (\<lambda>_. e) rt2))) (with_engine (\<lambda>_. e) rt2)"
  have f: "framed rt rt3" unfolding rt3_def
    by (rule framed_trans [OF framed_trans [OF framed_trans [OF framed_pairs(3) [OF 1] framed_pairs(4) [OF 2]] framed_parts(3)] framed_parts(2)])
  have c: "cared_for sd rt (snd (rt_commit H rt'))" "\<And>rt''. rt_commit H rt' = (False, rt'') \<Longrightarrow> cared_for sd rt rt''"
    "\<And>rt''. rt_commit H rt' = (True, rt'') \<Longrightarrow> framed rt rt'' \<and> rt_send rt'' = Some sd" if "framed rt rt'" for rt'
  proof -
    show "cared_for sd rt (snd (rt_commit H rt'))" by (rule commit_cared [OF surjective_pairing that send buffer])
    show "cared_for sd rt rt''" if "rt_commit H rt' = (False, rt'')" for rt''
      using commit_cared [OF that \<open>framed rt rt'\<close> send buffer] .
    show "framed rt rt'' \<and> rt_send rt'' = Some sd" if "rt_commit H rt' = (True, rt'')" for rt''
      using commit_cares [OF that \<open>framed rt rt'\<close> send buffer] send by (simp add: framed_def still_def)
  qed
  note on_rx = on_rx_judged [OF 1 2 r rt3_def]
  show ?thesis
  proof (cases kind)
    case (Deliver k q)
    obtain ok rt4 where 4: "rt_commit H (with_counters report_rx_frame rt3) = (ok, rt4)" by fastforce
    have f3: "framed rt (with_counters report_rx_frame rt3)" by (rule framed_trans [OF f framed_parts(2)])
    show ?thesis
    proof (cases ok)
      case True
      with c(3) [OF f3, of rt4] 4 have f4: "framed rt (ack_if C H out rt4)" by (auto intro: framed_trans [OF _ framed_ack_if])
      then show ?thesis
        using still_cared [OF still_trans [OF framed_still [OF f4] still_received] send] framed_cared [OF f4 send]
        by (simp add: on_rx Deliver 4 True Let_def split: option.split node_event.split)
    qed (use c(2) [OF f3, of rt4] 4 in \<open>simp add: on_rx Deliver\<close>)
  next
    case (ReAck k)
    obtain ok rt4 where 4: "rt_commit H rt3 = (ok, rt4)" by fastforce
    show ?thesis
      using c(2,3) [OF f, of rt4] framed_cared [OF framed_trans [OF _ framed_ack_if] send] 4
      by (cases ok) (simp_all add: on_rx ReAck 4)
  next
    case (Ack k)
    obtain ok rt4 where 4: "rt_commit H rt3 = (ok, rt4)" by fastforce
    show ?thesis
      using c(2,3) [OF f, of rt4] framed_cared [OF _ send] closes_cared [OF gives_up(2) [OF _ buffer]] 4
      by (cases ok) (simp_all add: on_rx Ack 4)
  next
    case Forward
    then show ?thesis
      using framed_cared [OF f send] framed_cared [OF framed_trans [OF f framed_schedule] send]
      by (simp add: on_rx split: option.split)
  next
    case Ignore
    then show ?thesis using framed_cared [OF f send] c(1) [OF f] by (simp add: on_rx)
  qed
qed

lemma event_cared:
  assumes send: "rt_send rt = Some sd" and buffer: "length (rt_scratch rt) = 4096"
  shows "cared_for sd rt (on_radio_evt C H ev rt)"
  using framed_cared [OF framed_refl send] framed_cared [OF framed_parts(2) send] closes_cared [OF fail_closes [OF framed_refl send buffer]]
    tx_done_cared [OF assms] cad_done_cared [OF assms] rx_cared [OF assms]
  by (cases ev) simp_all

text \<open>An expired deadline: another transmission while some are left, otherwise the end.\<close>

definition tried_again :: "in_flight \<Rightarrow> runtime \<Rightarrow> runtime \<Rightarrow> bool" where
  "tried_again sd rt rt' \<longleftrightarrow> sized rt rt' \<and> if_tx_count sd < MAX_TX \<and>
     (\<exists>sd'. rt_send rt' = Some sd' \<and> if_reply_id sd' = if_reply_id sd \<and> if_contact_id sd' = if_contact_id sd \<and>
        if_tx_count sd' = if_tx_count sd + 1)"

definition overdue :: "host \<Rightarrow> in_flight \<Rightarrow> runtime \<Rightarrow> bool" where
  "overdue H sd rt \<longleftrightarrow> if_deadline sd \<le> ho_now H (ReadClock # rt_log rt)"

lemma tried_cared: "tried_again sd rt rt' \<Longrightarrow> cared_for sd rt rt'"
  by (auto simp: tried_again_def cared_for_def)

lemma poll_send_late:
  assumes send: "rt_send rt = Some sd" and buffer: "length (rt_scratch rt) = 4096" and late: "overdue H sd rt"
  shows "tried_again sd rt (poll_send C H rt) \<or> closes sd rt (poll_send C H rt)"
proof -
  obtain now rt1 where 1: "read_now H rt = (now, rt1)" by fastforce
  have f1: "framed rt rt1" by (rule framed_pairs(3) [OF 1])
  have now: "if_deadline sd \<le> now" using late 1 by (auto simp: overdue_def read_now_def note_act_def Let_def)
  define rt2 where "rt2 = rt1\<lparr> rt_send := None \<rparr>"
  show ?thesis
  proof (cases "if_tx_count sd < MAX_TX")
    case False
    with gives_up(3) [OF f1 buffer] now show ?thesis by (simp add: poll_send_def send 1 Let_def)
  next
    case more: True
    show ?thesis
    proof (cases "send_retry_echo C (rt_engine rt2)")
      case (Inl err)
      with gives_up(1) [OF f1 buffer] now more show ?thesis
        by (simp add: poll_send_def send 1 Let_def rt2_def)
    next
      case (Inr f)
      obtain j rt3 where 3: "draw_jitter H rt2 = (j, rt3)" by fastforce
      obtain n ok rt4 where 4: "queue_frame H (Some (if_contact_id sd)) j (air_from_outgoing f) rt3 = ((n, ok), rt4)"
        by (metis prod.collapse)
      obtain now' rt5 where 5: "read_now H rt4 = (now', rt5)" by fastforce
      have f4: "framed rt2 rt4" by (rule framed_trans [OF framed_pairs(5) [OF 3] framed_queue [OF 4]])
      have f5: "framed rt2 rt5" by (rule framed_trans [OF f4 framed_pairs(3) [OF 5]])
      have "sized rt (rt5\<lparr> rt_send := s \<rparr>)" for s
        using f1 f5 by (auto simp: framed_def still_def sized_def rt2_def)
      moreover have "closes sd rt (emit_err (if_reply_id sd) ''BUSY'' (with_engine (\<lambda>e. send_complete e False) rt4))"
      proof -
        have "framed rt (rt4\<lparr> rt_send := rt_send rt \<rparr>)"
          using f1 f4 by (auto simp: framed_def still_def sized_def rt2_def)
        moreover have "rt4\<lparr> rt_send := None \<rparr> = rt4"
          using f4 by (simp add: framed_def still_def rt2_def)
        ultimately show ?thesis using gives_up(1) [of rt "rt4\<lparr> rt_send := rt_send rt \<rparr>", OF _ buffer] by simp
      qed
      moreover have "poll_send C H rt =
        (if ok then rt5\<lparr> rt_send := Some (sd\<lparr> if_tx_count := if_tx_count sd + 1, if_deadline := now' + ACK_WAIT, if_cmd_id := n \<rparr>) \<rparr>
         else emit_err (if_reply_id sd) ''BUSY'' (with_engine (\<lambda>e. send_complete e False) rt4))"
        using now more Inr 3 4 5 unfolding rt2_def by (simp add: poll_send_def send 1 Let_def)
      ultimately show ?thesis using more by (simp add: tried_again_def)
    qed
  qed
qed

lemma framed_forward: "framed rt (poll_forward H rt)"
proof (cases "rt_forward rt")
  case (Some fwd)
  obtain now rt1 where 1: "read_now H rt = (now, rt1)" by fastforce
  obtain j rt2 where 2: "draw_jitter H rt1 = (j, rt2)" by fastforce
  obtain n ok rt3 where 3: "queue_frame H None j (pf_frame fwd) rt2 = ((n, ok), rt3)" by (metis prod.collapse)
  have f1: "framed rt rt1" by (rule framed_pairs(3) [OF 1])
  have f3: "framed rt rt3" by (rule framed_trans [OF framed_trans [OF f1 framed_pairs(5) [OF 2]] framed_queue [OF 3]])
  show ?thesis using f1 f3 framed_trans [OF f3 framed_parts(6)] by (simp add: poll_forward_def Let_def Some 1 2 3)
qed (simp add: poll_forward_def)

lemma forward_keeps:
  "closes sd rt r \<Longrightarrow> closes sd rt (poll_forward H r)" "tried_again sd rt r \<Longrightarrow> tried_again sd rt (poll_forward H r)"
  using framed_forward [of r H] core_eqD(1) [OF poll_forward_core [of H r]]
  by (auto simp: closes_def tried_again_def framed_def still_def sized_def intro: sized_trans)

lemma poll_late:
  assumes "rt_send rt = Some sd" and "length (rt_scratch rt) = 4096" and "overdue H sd rt"
  shows "tried_again sd rt (poll_timeouts C H rt) \<or> closes sd rt (poll_timeouts C H rt)"
  unfolding poll_timeouts_def using poll_send_late [OF assms] forward_keeps by blast

lemma poll_cared:
  assumes send: "rt_send rt = Some sd" and buffer: "length (rt_scratch rt) = 4096"
  shows "cared_for sd rt (poll_timeouts C H rt)"
proof (cases "overdue H sd rt")
  case True
  with poll_late [OF assms] show ?thesis by (blast intro: tried_cared closes_cared)
next
  case False
  obtain now rt1 where 1: "read_now H rt = (now, rt1)" by fastforce
  with False have "poll_send C H rt = rt1"
    by (auto simp: poll_send_def send overdue_def read_now_def note_act_def Let_def)
  with framed_cared [OF framed_trans [OF framed_pairs(3) [OF 1] framed_forward] send] show ?thesis
    by (simp add: poll_timeouts_def)
qed

section \<open>The life of a send\<close>

text \<open>What the runtime does between commands of the host.\<close>

datatype background = TimePasses | RadioEvent radio_evt | Poll

fun background_step :: "crypto \<Rightarrow> host \<Rightarrow> background \<Rightarrow> runtime \<Rightarrow> runtime" where
  "background_step C H TimePasses rt = rt_advance_time H rt"
| "background_step C H (RadioEvent ev) rt = on_radio_evt C H ev rt"
| "background_step C H Poll rt = poll_timeouts C H rt"

abbreviation in_background :: "crypto \<Rightarrow> host \<Rightarrow> background list \<Rightarrow> runtime \<Rightarrow> runtime" where
  "in_background C H bs rt \<equiv> fold (background_step C H) bs rt"

text \<open>The polls that find the deadline of the send in flight over.\<close>

primrec late_polls :: "crypto \<Rightarrow> host \<Rightarrow> background list \<Rightarrow> runtime \<Rightarrow> nat" where
  "late_polls C H [] rt = 0"
| "late_polls C H (b # bs) rt =
     (if b = Poll \<and> (case rt_send rt of Some sd \<Rightarrow> overdue H sd rt | None \<Rightarrow> False) then 1 else 0) +
     late_polls C H bs (background_step C H b rt)"

lemma step_cared:
  "rt_send rt = Some sd \<Longrightarrow> length (rt_scratch rt) = 4096 \<Longrightarrow> cared_for sd rt (background_step C H b rt)"
  by (cases b) (simp_all add: advance_cared event_cared poll_cared)

lemma closes_from: "sized a b \<Longrightarrow> closes sd' b c \<Longrightarrow> if_reply_id sd' = if_reply_id sd \<Longrightarrow> closes sd a c"
  by (auto simp: closes_def sized_def)

lemma send_lives:
  assumes "rt_send rt = Some sd" and "length (rt_scratch rt) = 4096" and "if_tx_count sd \<le> MAX_TX"
  shows "(\<exists>pre rest. bs = pre @ rest \<and> closes sd rt (in_background C H pre rt)) \<or>
    (\<exists>sd'. rt_send (in_background C H bs rt) = Some sd' \<and> if_reply_id sd' = if_reply_id sd \<and>
       if_contact_id sd' = if_contact_id sd \<and>
       unat (if_tx_count sd) + late_polls C H bs rt \<le> unat (if_tx_count sd') \<and> if_tx_count sd' \<le> MAX_TX)"
  using assms
proof (induction bs arbitrary: rt sd)
  case (Cons b bs)
  define rt1 where "rt1 = background_step C H b rt"
  define n where "n = (if b = Poll \<and> overdue H sd rt then 1 else 0 :: nat)"
  consider "closes sd rt rt1" | sd' where "sized rt rt1" "rt_send rt1 = Some sd'" "if_reply_id sd' = if_reply_id sd"
      "if_contact_id sd' = if_contact_id sd" "unat (if_tx_count sd) + n \<le> unat (if_tx_count sd')" "if_tx_count sd' \<le> MAX_TX"
  proof (cases "closes sd rt rt1")
    case unclosed: False
    have up: "unat (x + 1) = unat x + 1 \<and> x + 1 \<le> MAX_TX" if "x < MAX_TX" for x :: u8
      using that unat_plus_fits [of x 1] by (simp add: MAX_TX_def word_le_nat_alt word_less_nat_alt)
    show ?thesis
    proof (cases "b = Poll \<and> overdue H sd rt")
      case True
      then have "tried_again sd rt rt1"
        using poll_late [OF Cons.prems(1,2), of H C] unclosed by (auto simp: rt1_def)
      then obtain sd' where "sized rt rt1" "if_tx_count sd < MAX_TX" "rt_send rt1 = Some sd'" "if_reply_id sd' = if_reply_id sd"
          "if_contact_id sd' = if_contact_id sd" "if_tx_count sd' = if_tx_count sd + 1" by (auto simp: tried_again_def)
      with up [of "if_tx_count sd"] show ?thesis by (intro that(2) [of sd']) (simp_all add: n_def)
    next
      case False
      from step_cared [OF Cons.prems(1,2), of C H b] unclosed obtain sd' where
          "sized rt rt1" "rt_send rt1 = Some sd'" "if_reply_id sd' = if_reply_id sd" "if_contact_id sd' = if_contact_id sd"
          "if_tx_count sd' = if_tx_count sd \<or> if_tx_count sd < MAX_TX \<and> if_tx_count sd' = if_tx_count sd + 1"
        by (auto simp: cared_for_def simp flip: rt1_def)
      with False Cons.prems(3) up [of "if_tx_count sd"] show ?thesis by (intro that(2) [of sd']) (auto simp: n_def)
    qed
  qed
  then show ?case
  proof cases
    case 1
    then have "closes sd rt (in_background C H [b] rt)" by (simp add: rt1_def)
    then show ?thesis by (intro disjI1 exI [of _ "[b]"] exI [of _ bs]) simp
  next
    case (2 sd')
    then have l: "length (rt_scratch rt1) = 4096" using Cons.prems(2) by (simp add: sized_def)
    have k: "late_polls C H (b # bs) rt = n + late_polls C H bs rt1" by (simp add: n_def rt1_def Cons.prems(1))
    from Cons.IH [OF 2(2) l 2(6)] show ?thesis
    proof (elim disjE exE conjE)
      fix pre rest assume "bs = pre @ rest" "closes sd' rt1 (in_background C H pre rt1)"
      then have "b # bs = (b # pre) @ rest \<and> closes sd rt (in_background C H (b # pre) rt)"
        using closes_from [OF 2(1) _ 2(3)] by (simp add: rt1_def)
      then show ?thesis by blast
    next
      fix sd'' assume "rt_send (in_background C H bs rt1) = Some sd''" "if_reply_id sd'' = if_reply_id sd'"
        "if_contact_id sd'' = if_contact_id sd'" "unat (if_tx_count sd') + late_polls C H bs rt1 \<le> unat (if_tx_count sd'')"
        "if_tx_count sd'' \<le> MAX_TX"
      then show ?thesis using 2 by (intro disjI2 exI [of _ sd'']) (simp add: k del: late_polls.simps flip: rt1_def)
    qed
  qed
qed auto

text \<open>C18: A deferred send is never lost. Whatever the radio reports, however often time passes or a
  write to flash fails, between commands of the host the send stays in flight for the same command
  and contact, or a last reply with its command number goes out and both the runtime and the engine are
  free for the next send. Every poll that finds the deadline over transmits once more or ends the
  send, so after three transmissions and as many expired deadlines it has ended.\<close>

theorem deferred_send_is_answered:
  assumes "rt_send rt = Some sd" and "length (rt_scratch rt) = 4096" and "if_tx_count sd \<le> MAX_TX"
  shows "(\<exists>pre rest new b. bs = pre @ rest \<and> rt_send (in_background C H pre rt) = None \<and>
       en_pending_send (rt_engine (in_background C H pre rt)) = None \<and>
       rt_log (in_background C H pre rt) = new @ rt_log rt \<and>
       SendOut b \<in> set new \<and> b \<in> final_texts (if_reply_id sd)) \<or>
    (\<exists>sd'. rt_send (in_background C H bs rt) = Some sd' \<and> if_reply_id sd' = if_reply_id sd \<and>
       if_contact_id sd' = if_contact_id sd \<and> unat (if_tx_count sd) + late_polls C H bs rt \<le> 3)"
  using send_lives [OF assms, of bs C H] unfolding closes_def
proof (elim disjE exE conjE)
  fix sd' assume "if_tx_count sd' \<le> MAX_TX" "unat (if_tx_count sd) + late_polls C H bs rt \<le> unat (if_tx_count sd')"
    "rt_send (in_background C H bs rt) = Some sd'" "if_reply_id sd' = if_reply_id sd" "if_contact_id sd' = if_contact_id sd"
  then show ?thesis by (auto simp: MAX_TX_def word_le_nat_alt)
qed blast

definition last_wait :: in_flight where
  "last_wait = \<lparr> if_reply_id = 7, if_contact_id = 1, if_tx_count = 3, if_deadline = 0, if_cmd_id = 5 \<rparr>"

text \<open>The third deadline passes: the send is answered.\<close>

theorem deferred_send_is_answered_witness:
  "\<exists>pre rest new b. [Poll] = pre @ rest \<and>
     rt_log (in_background demo_crypto quiet_host pre (idle_runtime\<lparr> rt_send := Some last_wait \<rparr>)) = new \<and>
     SendOut b \<in> set new \<and> b \<in> final_texts 7"
proof -
  have "late_polls demo_crypto quiet_host [Poll] (idle_runtime\<lparr> rt_send := Some last_wait \<rparr>) = 1"
    by (simp add: overdue_def last_wait_def quiet_host_def)
  moreover have "rt_log idle_runtime = []" by (simp add: idle_runtime_def Runtime_new_def)
  ultimately show ?thesis
    using deferred_send_is_answered [of "idle_runtime\<lparr> rt_send := Some last_wait \<rparr>" last_wait "[Poll]" demo_crypto quiet_host]
      idle_scratch by (simp add: last_wait_def MAX_TX_def del: fold_simps) blast
qed

end
