(* ===== verification/Runtime_Boot.thy ===== *)
theory Runtime_Boot
  imports Runtime_Refine
begin

text \<open>
  Power cycles of the radio image: the boot of \<open>main.rs\<close> from whatever the runtime last saved, up to
  the start of the runtime's loop, as steps of the abstract node. Together with the refinement of
  the running loop, every property of a run of the node holds over the whole life of a board.
\<close>

section \<open>Loading the record\<close>

lemma load_stored:
  assumes "fk_node k" and "fl_node fl = Some b" and "decode_view b = Inr v"
  shows "\<exists>b' s w. fst (storage_service k ReqLoad fl) = [RespLoaded b', RespSettingsLoaded s, RespWifiLoaded w] \<and>
    decode_view b' = Inr v"
proof -
  have "length b = PERSIST_LEN \<or> length b = PERSIST_V2_LEN"
    using assms(3) by (auto simp: decode_view_def split: if_splits)
  moreover obtain b' where "migrate_to_v3 b = Inr b'" "decode_view b' = Inr v"
    using migrate_preserves_view [of b] assms(3) by auto
  ultimately show ?thesis using assms
    by (auto simp: storage_service_def fetch_item_def split: sum.split option.split)
qed

lemma restore_same_view: "decode_view b' = decode_view b \<Longrightarrow> restore C e b' = restore C e b"
  by (simp add: restore_def)

lemma identity_kept: "en_uid_set e \<Longrightarrow> en_uid e = uid \<Longrightarrow> set_identity e uid = e"
  by (simp add: set_identity_def)

lemma runtime_start_engine:
  assumes k: "fk_node k" and b: "fl_node fl = Some b" "decode_view b = Inr v" and u: "pv_uid_set v" "pv_uid v = uid"
  shows "\<exists>rt. runtime_start C uid version available (fst (storage_service k ReqLoad fl)) fl = Some (LineBuffer_new, rt) \<and>
    core rt = (set_radio_available (boot C False (fl_node fl)) available, fl_node fl, None, HealthReady) \<and>
    rt_send rt = None \<and> rt_hw_present rt = available"
proof -
  define e where "e = boot C False (fl_node fl)"
  obtain b' s w where l: "fst (storage_service k ReqLoad fl) = [RespLoaded b', RespSettingsLoaded s, RespWifiLoaded w]"
    and b': "decode_view b' = Inr v" using load_stored [OF k b] by blast
  have e: "restore C (Engine_new False) b' = (Inr (), e)"
    using b b' restore_same_view [of b' b C "Engine_new False"] by (simp add: e_def boot_def restore_def)
  then have "en_uid_set e" "en_uid e = uid" using b' u by (auto simp: restore_def)
  then have i: "set_identity e uid = e" by (rule identity_kept)
  show ?thesis unfolding l e_def [symmetric]
    by (simp add: runtime_start_def main_boot_def e i Let_def UsbState_new_def Runtime_new_def set_hw_present_def core_def)
qed

section \<open>A power cycle\<close>

text \<open>C17: A power cycle keeps the board in step with the abstract node. Power is lost between two steps of
  the runtime, the storage task can read its record again, of version 2 or 3, and the record carries
  the identity of the chip: then the boot reaches the loop with an empty line buffer and nothing in
  flight, and the new runtime is in step with the node after the node's restart. Nothing that was
  saved is lost, and the guarantees of the node, such as that no sequence number is used twice, go on
  across any number of power cycles.\<close>

theorem power_cycle_refines_node:
  assumes C: "crypto_sizes C" and inv: "node_inv C nd" and s: "in_sync C rt nd"
    and k: "fk_node k" and b: "fl_node (rt_flash rt) = Some b" "decode_view b = Inr v"
    and u: "pv_uid_set v" "pv_uid v = uid"
  shows "\<exists>rt' ls nd'.
    runtime_start C uid version available (fst (storage_service k ReqLoad (rt_flash rt))) (rt_flash rt) = Some (LineBuffer_new, rt') \<and>
    rt_send rt' = None \<and> node_run C nd (Restart False # ls) nd' \<and> in_sync C rt' nd'"
proof -
  define e where "e = boot C False (fl_node (rt_flash rt))"
  define nd1 where "nd1 = nd\<lparr> nd_engine := e \<rparr>"
  obtain rt' where start: "runtime_start C uid version available (fst (storage_service k ReqLoad (rt_flash rt))) (rt_flash rt) =
      Some (LineBuffer_new, rt')" and core: "core rt' = (set_radio_available e available, fl_node (rt_flash rt), None, HealthReady)"
    and none: "rt_send rt' = None"
    unfolding e_def using runtime_start_engine [OF k b u] by blast
  have fl: "nd_flash nd = fl_node (rt_flash rt)" using s by (simp add: in_sync_def)
  have step: "node_step C nd (Restart False) nd1"
    using step_restart [of C nd False] by (simp add: nd1_def e_def fl)
  have e: "settled C e" using inv fl by (simp add: node_inv_def e_def)
  define rt1 where "rt1 = with_engine (\<lambda>_. e) rt'"
  have c1: "core rt1 = (e, fl_node (rt_flash rt), None, HealthReady)" using core by (simp add: rt1_def core_with_engine)
  then have i1: "in_sync C rt1 nd1" using e fl by (simp add: in_sync_def core_def nd1_def)
  have "follows_node C rt1 rt'"
  proof (rule quiet_follows [OF C, of _ "OpRadioAvailable available"])
    show "core rt' = (snd (run_op C (OpRadioAvailable available) (rt_engine rt1)), snd (core rt1))"
      using core c1 by (simp add: core_def)
    show "\<not> en_persist_dirty (snd (run_op C (OpRadioAvailable available) (rt_engine rt1)))" if "settled C (rt_engine rt1)"
      using set_radio_available_ok [OF that, of available] by (simp add: settled_def)
  qed simp
  with i1 obtain ls nd' where "node_run C nd1 ls nd'" "in_sync C rt' nd'" unfolding follows_node_def by blast
  then have "node_run C nd (Restart False # ls) nd'" 
    using nd.exec_append [OF nd.exec_snoc [OF nd.exec_Nil step]] by fastforce
  with start none \<open>in_sync C rt' nd'\<close> show ?thesis by blast
qed

text \<open>A new board whose identity is saved, switched off and on.\<close>

definition named_engine :: engine where
  "named_engine = set_identity (Engine_new False) (replicate 8 7)"

lemma named_parts:
  "en_persist_dirty named_engine" "en_uid_set named_engine" "en_uid named_engine = replicate 8 7"
  by (simp_all add: named_engine_def set_identity_def Engine_new_def stage_persist_def Let_def split: prod.split)

lemma named_staged: "staged_ok demo_crypto named_engine"
  using set_identity_ok [OF settled_new [of demo_crypto False], of "replicate 8 7"] named_parts(1)
  by (simp add: named_engine_def op_ok_def settled_def)

definition named_record :: bytes where
  "named_record = view_bytes (Engine_persist_view named_engine)"

lemma named_saved: "pending_persist named_engine = Some named_record" "decode_view named_record = Inr (Engine_persist_view named_engine)"
  using named_staged decode_view_bytes [OF view_wf_core [of demo_crypto named_engine]]
  by (simp_all add: staged_ok_def named_record_def)

definition named_node :: node where
  "named_node = \<lparr> nd_engine = commit_ok named_engine, nd_flash = Some named_record,
     nd_roots = roots_of named_engine, nd_sealed = [], nd_delivered = [] \<rparr>"

lemma named_node_inv: "node_inv demo_crypto named_node"
proof -
  let ?nd = "node_start demo_crypto False"
  have c: "en_contacts named_engine = replicate MAX_CONTACTS Contact_empty"
    by (simp add: named_engine_def setting_contacts) (simp add: Engine_new_def)
  have "node_step demo_crypto ?nd (Done (OpIdentity (replicate 8 7)))
      \<lparr> nd_engine = (if en_persist_dirty named_engine then commit_ok named_engine else named_engine),
        nd_flash = (case pending_persist named_engine of Some b \<Rightarrow> Some b | None \<Rightarrow> nd_flash ?nd),
        nd_roots = nd_roots ?nd \<union> roots_of named_engine,
        nd_sealed = sealed_entries named_engine None @ nd_sealed ?nd,
        nd_delivered = delivered_entries named_engine None @ nd_delivered ?nd \<rparr>"
  proof (rule step_done)
    show "run_op demo_crypto (OpIdentity (replicate 8 7)) (nd_engine ?nd) = ((None, None), named_engine)"
      by (simp add: node_start_def boot_def named_engine_def)
    show "op_valid (nd_engine ?nd) (OpIdentity (replicate 8 7))" by (simp add: node_start_def boot_def Engine_new_def)
    show "fresh_roots ?nd named_engine" by (simp add: fresh_roots_def c Contact_empty_def)
  qed
  then have "node_step demo_crypto ?nd (Done (OpIdentity (replicate 8 7))) named_node"
    by (simp add: named_node_def named_parts named_saved sealed_entries_def delivered_entries_def) (simp add: node_start_def)
  then have "node_run demo_crypto ?nd [Done (OpIdentity (replicate 8 7))] named_node"
    using nd.exec_snoc [OF nd.exec_Nil] by fastforce
  then show ?thesis by (rule node_run_inv [OF demo_crypto_sizes])
qed

definition named_runtime :: runtime where
  "named_runtime = Runtime_new (UsbState_new (commit_ok named_engine) HealthReady)
     \<lparr> fl_node = Some named_record, fl_settings = None, fl_wifi = None \<rparr> POLICY_STATE"

lemma named_in_sync: "in_sync demo_crypto named_runtime named_node"
  using commit_settled [OF named_staged]
  by (simp add: in_sync_def named_runtime_def named_node_def Runtime_new_def UsbState_new_def)

theorem power_cycle_refines_node_witness:
  "\<exists>rt' ls nd'.
    runtime_start demo_crypto (replicate 8 7) (Some 0x12) True
      (fst (storage_service (ho_luck quiet_host []) ReqLoad (rt_flash named_runtime))) (rt_flash named_runtime) = Some (LineBuffer_new, rt') \<and>
    rt_send rt' = None \<and> node_run demo_crypto named_node (Restart False # ls) nd' \<and> in_sync demo_crypto rt' nd'"
  by (rule power_cycle_refines_node [OF demo_crypto_sizes named_node_inv named_in_sync _ _ named_saved(2)])
    (simp_all add: quiet_host_def named_runtime_def Runtime_new_def Engine_persist_view_def PersistView_new_def Let_def named_parts)

end
