(* ===== verification/Runtime_Gate.thy ===== *)
theory Runtime_Gate
  imports Runtime
begin

text \<open>
  The runtime and the transmit gate. The gate is written only together with the runtime's copy of it,
  so before every transmission it holds what the engine says, and the token that goes out with a frame
  is worth exactly what the engine allows at that moment.
\<close>

section \<open>The copy of the gate\<close>

definition gate_ok :: "runtime \<Rightarrow> bool" where
  "gate_ok rt \<longleftrightarrow>
     (\<forall>cur. rt_last_policy rt = Some cur \<longrightarrow> cur = (pl_enabled (rt_policy rt), pl_blocked_mask (rt_policy rt)))"

lemma gate_updates [simp]:
  "gate_ok (rt\<lparr> rt_usb := u \<rparr>) = gate_ok rt" "gate_ok (rt\<lparr> rt_send := sd \<rparr>) = gate_ok rt"
  "gate_ok (rt\<lparr> rt_ping := pg \<rparr>) = gate_ok rt" "gate_ok (rt\<lparr> rt_forward := fw \<rparr>) = gate_ok rt"
  "gate_ok (rt\<lparr> rt_scratch := b \<rparr>) = gate_ok rt" "gate_ok (rt\<lparr> rt_flash := fl \<rparr>) = gate_ok rt"
  "gate_ok (rt\<lparr> rt_wifi := w \<rparr>) = gate_ok rt" "gate_ok (rt\<lparr> rt_log := l \<rparr>) = gate_ok rt"
  "gate_ok (rt\<lparr> rt_next_cmd := n \<rparr>) = gate_ok rt" "gate_ok (note_act a rt) = gate_ok rt"
  "gate_ok (with_engine f rt) = gate_ok rt" "gate_ok (with_counters g rt) = gate_ok rt"
  by (simp_all add: gate_ok_def note_act_def with_engine_def with_counters_def)

lemma gate_replies [simp]:
  "gate_ok (reply b rt) = gate_ok rt" "gate_ok (reply_outcome oc rt) = gate_ok rt"
  "gate_ok (snd (put_scratch tmp rt)) = gate_ok rt" "gate_ok (snd (render_err rid code rt)) = gate_ok rt"
  "gate_ok (clear_send_text rt) = gate_ok rt" "gate_ok (emit_received k ep sq t rt) = gate_ok rt"
  "gate_ok (emit_owed rt) = gate_ok rt"
  by (auto simp: reply_def reply_outcome_def put_scratch_def render_err_def clear_send_text_def emit_received_def emit_owed_def
      split: outcome.split prod.split option.split)

lemma gate_emits [simp]:
  "gate_ok (emit_err rid code rt) = gate_ok rt" "gate_ok (emit_ping rid n c rt) = gate_ok rt"
  "gate_ok (emit_acknowledged rid rt) = gate_ok rt" "gate_ok (emit_unconfirmed rid rt) = gate_ok rt"
  by (simp_all add: emit_err_def render_err_def emit_ping_def emit_acknowledged_def emit_unconfirmed_def put_scratch_def)

lemma gate_pairs:
  "read_now H rt = (t, rt1) \<Longrightarrow> gate_ok rt1 = gate_ok rt" "draw_word H rt = (w, rt2) \<Longrightarrow> gate_ok rt2 = gate_ok rt"
  "draw_bytes H rt = (b, rt3) \<Longrightarrow> gate_ok rt3 = gate_ok rt" "try_cmd H c rt = (ok, rt4) \<Longrightarrow> gate_ok rt4 = gate_ok rt"
  "alloc_cmd rt = (n, rt5) \<Longrightarrow> gate_ok rt5 = gate_ok rt" "draw_jitter H rt = (j, rt6) \<Longrightarrow> gate_ok rt6 = gate_ok rt"
  "store_with H await req rt = (s, rt7) \<Longrightarrow> gate_ok rt7 = gate_ok rt"
  "render_err rid code rt = (oc, rt8) \<Longrightarrow> gate_ok rt8 = gate_ok rt"
  by (auto simp: read_now_def draw_word_def draw_bytes_def try_cmd_def alloc_cmd_def draw_jitter_def store_with_def Let_def
      render_err_def put_scratch_def split: prod.splits)

lemma gate_try [simp]: "gate_ok (snd (try_cmd H c rt)) = gate_ok rt"
  by (rule gate_pairs(4) [OF surjective_pairing])

lemma gate_sync: "gate_ok rt \<Longrightarrow> gate_ok (sync_policy rt)"
  by (simp add: gate_ok_def sync_policy_def Let_def)

lemma gate_fail: "gate_ok (fail_radio_closed H rt)"
proof -
  define rt1 where "rt1 = rt\<lparr> rt_policy := set_policy (rt_policy rt) False (blocked_mask (rt_engine rt)),
    rt_last_policy := Some (False, blocked_mask (rt_engine rt)) \<rparr>"
  obtain n rt2 where 2: "alloc_cmd rt1 = (n, rt2)" by fastforce
  obtain ok rt3 where 3: "try_cmd H (RcSetEnabled n False) rt2 = (ok, rt3)" by fastforce
  have "gate_ok rt3" using gate_pairs(5) [OF 2] gate_pairs(4) [OF 3] by (simp add: gate_ok_def rt1_def)
  then show ?thesis
    by (simp add: fail_radio_closed_def Let_def 2 3 flip: rt1_def split: option.split)
qed

lemma gate_queue: "queue_frame H contact j air rt = (r, rt1) \<Longrightarrow> gate_ok rt \<Longrightarrow> gate_ok rt1"
  by (auto simp: queue_frame_def Let_def gate_sync split: prod.splits dest!: gate_pairs)

lemma gate_commit:
  assumes "rt_commit H rt = (ok, rt')" and "gate_ok rt"
  shows "gate_ok rt'"
proof -
  define rt1 where "rt1 = (if us_staged (rt_usb rt) = None then rt\<lparr> rt_usb := stage_for_commit (rt_usb rt) \<rparr> else rt)"
  have 1: "gate_ok rt1" using assms(2) by (simp add: rt1_def)
  show ?thesis
  proof (cases "us_staged (rt_usb rt1)")
    case None
    then show ?thesis using assms(1) 1 by (auto simp: rt_commit_def Let_def rt1_def)
  next
    case (Some p)
    then obtain b ln where p: "us_staged (rt_usb rt1) = Some (b, ln)" by (cases p) simp
    obtain s rt2 where 2: "store_with H await_committed (ReqCommit b ln) (rt1\<lparr> rt_usb := (rt_usb rt1)\<lparr> us_staged := None \<rparr> \<rparr>) = (s, rt2)"
      by fastforce
    have "gate_ok rt2" using gate_pairs(7) [OF 2] 1 by simp
    then show ?thesis using assms(1) gate_fail
      by (auto simp: rt_commit_def Let_def p 2 simp flip: rt1_def split: if_splits)
  qed
qed

section \<open>Every step keeps the copy\<close>

lemma gate_advance: "gate_ok rt \<Longrightarrow> gate_ok (rt_advance_time H rt)"
proof -
  assume g: "gate_ok rt"
  have "gate_ok (snd (rt_commit H r))" if "gate_ok r" for r by (rule gate_commit [OF surjective_pairing that])
  with g show ?thesis by (auto simp: rt_advance_time_def Let_def gate_fail split: prod.split sum.split dest!: gate_pairs)
qed

lemma gate_tx_done: "gate_ok rt \<Longrightarrow> gate_ok (on_tx_done H rid result attempted rt)"
  by (auto simp: on_tx_done_def Let_def split: prod.split option.split sum.split dest!: gate_pairs)

lemma gate_cad_done: "gate_ok rt \<Longrightarrow> gate_ok (on_cad_done H rid result rt)"
  by (auto simp: on_cad_done_def Let_def split: prod.split option.split sum.split tx_fault.split dest!: gate_pairs)

lemma gate_ack: "gate_ok rt \<Longrightarrow> gate_ok (ack_if C H out rt)"
  by (auto simp: ack_if_def send_ack_frame_def Let_def gate_sync split: prod.split option.split dest!: gate_pairs)

lemma gate_schedule: "gate_ok rt \<Longrightarrow> gate_ok (schedule_forward H fwd rt)"
  by (auto simp: schedule_forward_def Let_def split: prod.split dest!: gate_pairs)

lemma gate_rx: "gate_ok rt \<Longrightarrow> gate_ok (on_rx C H frame rt)"
proof -
  assume g: "gate_ok rt"
  obtain now rt1 where 1: "read_now H rt = (now, rt1)" by fastforce
  obtain w rt2 where 2: "draw_word H rt1 = (w, rt2)" by fastforce
  obtain kind out event e where
    r: "on_frame C (rt_engine rt2) (take (unat (af_len frame)) (af_bytes frame)) (of_nat now) w = ((kind, out, event), e)"
    by (metis prod.exhaust)
  define rt3 where "rt3 = with_counters (\<lambda>k. mirror_reception k (rt_engine (with_engine (\<lambda>_. e) rt2))) (with_engine (\<lambda>_. e) rt2)"
  have g3: "gate_ok rt3" using g gate_pairs(1) [OF 1] gate_pairs(2) [OF 2] by (simp add: rt3_def)
  have c: "gate_ok (snd (rt_commit H r))" if "gate_ok r" for r by (rule gate_commit [OF surjective_pairing that])
  from g3 show ?thesis unfolding on_rx_judged [OF 1 2 r rt3_def]
    by (auto simp: Let_def c gate_schedule split: incoming_kind.split prod.split option.split node_event.split bool.split
        dest!: gate_commit intro: gate_ack)
qed

lemma gate_event: "gate_ok rt \<Longrightarrow> gate_ok (on_radio_evt C H ev rt)"
  by (cases ev) (simp_all add: gate_tx_done gate_cad_done gate_rx gate_fail)

lemma gate_poll_send: "gate_ok rt \<Longrightarrow> gate_ok (poll_send C H rt)"
  by (auto simp: poll_send_def Let_def split: prod.split option.split sum.split dest!: gate_pairs gate_queue)

lemma gate_poll: "gate_ok rt \<Longrightarrow> gate_ok (poll_timeouts C H rt)"
proof -
  have "gate_ok (poll_forward H r)" if "gate_ok r" for r
    using that by (auto simp: poll_forward_def Let_def split: prod.split option.split dest!: gate_pairs gate_queue)
  then show "gate_ok rt \<Longrightarrow> ?thesis" by (simp add: poll_timeouts_def gate_poll_send)
qed

lemma gate_wait: "gate_ok rt \<Longrightarrow> gate_ok (snd (wait_loop C H want deadline evs rt))"
proof (induction evs arbitrary: rt)
  case (Cons ev evs)
  obtain now rt1 where 1: "read_now H rt = (now, rt1)" by fastforce
  then have g1: "gate_ok rt1" using Cons.prems gate_pairs(1) by simp
  have "gate_ok (snd (wait_loop C H want deadline evs (on_radio_evt C H ev' rt1)))" for ev'
    by (rule Cons.IH [OF gate_event [OF g1]])
  then show ?case using g1 by (simp add: Let_def 1 split: radio_evt.split del: on_radio_evt.simps)
qed simp

lemma gate_control:
  assumes "wait_control C H want rt = (ok, rt')" and "gate_ok rt"
  shows "gate_ok rt'"
proof -
  obtain now rt1 where 1: "read_now H rt = (now, rt1)" by fastforce
  have "gate_ok (note_act AwaitEvents rt1)" using assms(2) gate_pairs(1) [OF 1] by simp
  note w = gate_wait [OF this, of C H want "now + WAIT_CONTROL_MS" "ho_events H (rt_log (note_act AwaitEvents rt1))"]
  show ?thesis
  proof (cases "rt_hw_present rt")
    case True
    then have "wait_loop C H want (now + WAIT_CONTROL_MS) (ho_events H (rt_log (note_act AwaitEvents rt1)))
        (note_act AwaitEvents rt1) = (ok, rt')"
      using assms(1) by (simp add: wait_control_def Let_def 1)
    then show ?thesis using w by simp
  qed (use assms in \<open>simp add: wait_control_def\<close>)
qed

lemma gate_barrier:
  assumes "barrier C H rt = (r, rt')" and "gate_ok rt"
  shows "gate_ok rt'"
proof -
  obtain n rt1 where 1: "alloc_cmd rt = (n, rt1)" by fastforce
  obtain ok rt2 where 2: "try_cmd H (RcBarrier n) rt1 = (ok, rt2)" by fastforce
  obtain ok' rt3 where 3: "wait_control C H n rt2 = (ok', rt3)" by fastforce
  have g: "gate_ok rt2" using assms(2) gate_pairs(5) [OF 1] gate_pairs(4) [OF 2] by simp
  show ?thesis using assms(1) g gate_control [OF 3 g] by (cases ok) (simp_all add: barrier_def Let_def 1 2 3)
qed

section \<open>Commands\<close>

text \<open>Rules that follow the shape of the code, and each access in the form they ask for.\<close>

named_theorems gate_rules \<open>one rule for each construct of the code\<close>

lemma gate_bind [gate_rules]:
  "gate_ok (snd p) \<Longrightarrow> (\<And>a r. gate_ok r \<Longrightarrow> gate_ok (f a r)) \<Longrightarrow> gate_ok (case p of (a, r) \<Rightarrow> f a r)"
  by (cases p) simp

lemma gate_cases [gate_rules]:
  "(b \<Longrightarrow> gate_ok r) \<Longrightarrow> (\<not> b \<Longrightarrow> gate_ok r') \<Longrightarrow> gate_ok (case b of True \<Rightarrow> r | False \<Rightarrow> r')"
  "(b \<Longrightarrow> gate_ok r) \<Longrightarrow> (\<not> b \<Longrightarrow> gate_ok r') \<Longrightarrow> gate_ok (if b then r else r')"
  "gate_ok r \<Longrightarrow> (\<And>x. gate_ok (f x)) \<Longrightarrow> gate_ok (case opt of None \<Rightarrow> r | Some x \<Rightarrow> f x)"
  "(\<And>x. gate_ok (g x)) \<Longrightarrow> (\<And>y. gate_ok (h y)) \<Longrightarrow> gate_ok (case s of Inl x \<Rightarrow> g x | Inr y \<Rightarrow> h y)"
  by (simp_all split: bool.split option.split sum.split)

lemma gate_accesses [simp]:
  "gate_ok (snd (read_now H rt)) = gate_ok rt" "gate_ok (snd (draw_word H rt)) = gate_ok rt"
  "gate_ok (snd (draw_bytes H rt)) = gate_ok rt" "gate_ok (snd (alloc_cmd rt)) = gate_ok rt"
  "gate_ok (snd (draw_jitter H rt)) = gate_ok rt" "gate_ok (snd (store_with H await req rt)) = gate_ok rt"
  by (rule gate_pairs [OF surjective_pairing])+

lemma gate_runs [gate_rules]:
  "gate_ok rt \<Longrightarrow> gate_ok (snd (rt_commit H rt))" "gate_ok rt \<Longrightarrow> gate_ok (snd (barrier C H rt))"
  "gate_ok rt \<Longrightarrow> gate_ok (snd (queue_frame H contact j air rt))"
  by (rule gate_commit gate_barrier gate_queue, rule surjective_pairing, assumption)+

lemma gate_writes [gate_rules]:
  "gate_ok rt \<Longrightarrow> gate_ok (emit_owed rt)" "gate_ok rt \<Longrightarrow> gate_ok (emit_err rid code rt)"
  by simp_all

declare gate_sync [simp]

lemma gate_set_radio [gate_rules]: "gate_ok rt \<Longrightarrow> gate_ok (control_set_radio_already_staged C H rid enabled rt)"
  unfolding control_set_radio_already_staged_def Let_def by (intro gate_rules; simp)

lemma gate_set_blocked [gate_rules]: "gate_ok rt \<Longrightarrow> gate_ok (control_set_blocked_already_staged C H rid rt)"
  unfolding control_set_blocked_already_staged_def Let_def by (intro gate_rules; simp)

text \<open>The arms that may have answered already.\<close>

definition gate_sum :: "runtime + runtime \<Rightarrow> bool" where
  "gate_sum r \<longleftrightarrow> (case r of Inl rt \<Rightarrow> gate_ok rt | Inr rt \<Rightarrow> gate_ok rt)"

lemma gate_sum_simps [simp]: "gate_sum (Inl rt) = gate_ok rt" "gate_sum (Inr rt) = gate_ok rt"
  by (simp_all add: gate_sum_def)

lemma gate_sum_rules [gate_rules]:
  "gate_ok (snd p) \<Longrightarrow> (\<And>a r. gate_ok r \<Longrightarrow> gate_sum (f a r)) \<Longrightarrow> gate_sum (case p of (a, r) \<Rightarrow> f a r)"
  "(b \<Longrightarrow> gate_sum r) \<Longrightarrow> (\<not> b \<Longrightarrow> gate_sum r') \<Longrightarrow> gate_sum (case b of True \<Rightarrow> r | False \<Rightarrow> r')"
  "(b \<Longrightarrow> gate_sum r) \<Longrightarrow> (\<not> b \<Longrightarrow> gate_sum r') \<Longrightarrow> gate_sum (if b then r else r')"
  "gate_sum r \<Longrightarrow> (\<And>x. gate_sum (f' x)) \<Longrightarrow> gate_sum (case opt of None \<Rightarrow> r | Some x \<Rightarrow> f' x)"
  "gate_sum s \<Longrightarrow> (\<And>r. gate_ok r \<Longrightarrow> gate_sum (g r)) \<Longrightarrow> gate_sum (rbind s g)"
  by (cases p, simp) (simp_all split: bool.split option.split, cases s, simp_all)

lemma gate_parts [gate_rules]:
  "gate_ok (snd r) \<Longrightarrow> gate_sum (or_fault r)" "gate_ok rt \<Longrightarrow> gate_sum (delete_barrier C H rid rt)"
  "gate_ok rt \<Longrightarrow> gate_ok (snd (commit_settings H rt))" "gate_ok rt \<Longrightarrow> gate_ok (snd (commit_wifi H rt))"
proof -
  show "gate_ok (snd r) \<Longrightarrow> gate_sum (or_fault r)"
    by (auto simp: or_fault_def split: prod.splits bool.splits)
  show "gate_ok rt \<Longrightarrow> gate_sum (delete_barrier C H rid rt)"
    unfolding delete_barrier_def Let_def by (intro gate_rules; simp split: option.split)
  show "gate_ok rt \<Longrightarrow> gate_ok (snd (commit_settings H rt))"
    by (auto simp: commit_settings_def Let_def split: prod.split dest!: gate_pairs)
  show "gate_ok rt \<Longrightarrow> gate_ok (snd (commit_wifi H rt))"
    by (auto simp: commit_wifi_def Let_def split: prod.split option.split dest!: gate_pairs)
qed

lemma gate_finish: "gate_ok rt \<Longrightarrow> gate_ok (finish_commit C H rt)"
proof -
  assume g: "gate_ok rt"
  have go: "gate_ok (case rbind r (\<lambda>rt. or_fault (rt_commit H rt)) of Inl rt \<Rightarrow> rt | Inr rt \<Rightarrow> emit_owed rt)"
    if "gate_sum r" for r
  proof -
    have "gate_sum (rbind r (\<lambda>rt. or_fault (rt_commit H rt)))" using that by (intro gate_rules)
    then show ?thesis by (auto simp: gate_sum_def split: sum.splits)
  qed
  have parts: "gate_sum (delete_barrier C H rid rt)" "gate_sum (or_fault (commit_settings H rt))"
      "gate_sum (or_fault (commit_wifi H rt))" "gate_sum (Inr rt)" for rid
    by (intro gate_rules g | simp add: g)+
  show ?thesis
    using go [OF parts(4)] gate_set_radio [OF g] gate_set_blocked [OF g] go [OF parts(1)] go [OF parts(2)] go [OF parts(3)]
    unfolding finish_commit_def Let_def by (cases "us_staged_reply (rt_usb rt)") (auto split: staged_reply.split)
qed

text \<open>Parts that leave an outcome.\<close>

lemma gate_snd [gate_rules]:
  fixes p :: "'a \<times> runtime" and q :: "'b \<times> engine" and u :: "'c \<times> usb_state" and v :: "'d \<times> usb_state \<times> bytes"
  shows "gate_ok (snd p) \<Longrightarrow> (\<And>a r. gate_ok r \<Longrightarrow> gate_ok (snd (f a r))) \<Longrightarrow> gate_ok (snd (case p of (a, r) \<Rightarrow> f a r))"
    "(\<And>a e. gate_ok (snd (g a e))) \<Longrightarrow> gate_ok (snd (case q of (a, e) \<Rightarrow> g a e))"
    "(\<And>a s. gate_ok (snd (h a s))) \<Longrightarrow> gate_ok (snd (case u of (a, s) \<Rightarrow> h a s))"
    "(\<And>a s out. gate_ok (snd (k a s out))) \<Longrightarrow> gate_ok (snd (case v of (a, s, out) \<Rightarrow> k a s out))"
    "(b \<Longrightarrow> gate_ok (snd x)) \<Longrightarrow> (\<not> b \<Longrightarrow> gate_ok (snd y)) \<Longrightarrow> gate_ok (snd (case b of True \<Rightarrow> x | False \<Rightarrow> y))"
    "(b \<Longrightarrow> gate_ok (snd x)) \<Longrightarrow> (\<not> b \<Longrightarrow> gate_ok (snd y)) \<Longrightarrow> gate_ok (snd (if b then x else y))"
    "(\<And>l. gate_ok (snd (m l))) \<Longrightarrow> (\<And>l. gate_ok (snd (n l))) \<Longrightarrow> gate_ok (snd (case s of Inl l \<Rightarrow> m l | Inr l \<Rightarrow> n l))"
    "gate_ok rt \<Longrightarrow> gate_ok (snd (oc, rt))"
  by (auto split: prod.split bool.split sum.split)

lemma gate_queue_tx: "gate_ok rt \<Longrightarrow> gate_ok (queue_tx H rid contact f is_retry rt)"
  by (auto simp: queue_tx_def Let_def split: prod.split option.split dest!: gate_pairs gate_queue)

lemma gate_send_prep: "gate_ok rt \<Longrightarrow> gate_ok (snd (drive_send_prep C H rt))"
proof (cases "us_pending_op (rt_usb rt)")
  case (Some op)
  assume g: "gate_ok rt"
  show ?thesis
  proof (cases op)
    case (PoSendPrep rid contact)
    show ?thesis
      unfolding drive_send_prep_def Let_def Some PoSendPrep option.case pending_op.case
      by (intro gate_rules; simp add: g gate_queue_tx)
  qed (simp_all add: drive_send_prep_def Some g)
qed (simp add: drive_send_prep_def)

lemma gate_ping_prep: "gate_ok rt \<Longrightarrow> gate_ok (snd (drive_ping_prep H rt))"
proof (cases "us_pending_op (rt_usb rt)")
  case (Some op)
  assume g: "gate_ok rt"
  show ?thesis
  proof (cases op)
    case (PoPingPrep rid count)
    show ?thesis
      unfolding drive_ping_prep_def Let_def Some PoPingPrep option.case pending_op.case
      by (intro gate_rules; simp add: g)
  qed (simp_all add: drive_ping_prep_def Some g)
qed (simp add: drive_ping_prep_def)

lemma gate_trng: "gate_ok rt \<Longrightarrow> gate_ok (snd (drive_trng_op C H rt))"
proof (cases "us_pending_op (rt_usb rt)")
  case (Some op)
  assume g: "gate_ok rt"
  show ?thesis
    unfolding drive_trng_op_def Let_def Some option.case
    by (cases op; simp only: pending_op.case; intro gate_rules; simp add: g)
qed (simp add: drive_trng_op_def)

lemma gate_outcome: "gate_ok rt \<Longrightarrow> gate_ok (on_usb_outcome C H oc rt)"
proof -
  assume g: "gate_ok rt"
  obtain oc1 rt1 where 1: "(if oc = NeedsTrng then drive_trng_op C H rt else (oc, rt)) = (oc1, rt1)" by fastforce
  obtain oc2 rt2 where 2: "(if oc1 = NeedsSendPrep then drive_send_prep C H rt1 else (oc1, rt1)) = (oc2, rt2)" by fastforce
  obtain oc3 rt3 where 3: "(if oc2 = NeedsPingPrep then drive_ping_prep H rt2 else (oc2, rt2)) = (oc3, rt3)" by fastforce
  have g1: "gate_ok rt1" using gate_trng [OF g, of C H] g 1 by (auto split: if_splits)
  have g2: "gate_ok rt2" using gate_send_prep [OF g1, of C H] g1 2 by (auto split: if_splits)
  have g3: "gate_ok rt3" using gate_ping_prep [OF g2, of H] g2 3 by (auto split: if_splits)
  show ?thesis using g3 gate_finish [OF g3, of C H]
    by (simp add: on_usb_outcome_def 1 2 3 Let_def split: outcome.split prod.split option.split)
qed

lemma gate_byte: "gate_ok rt \<Longrightarrow> gate_ok (snd (rt_pump_byte C J H b (lines, rt)))"
  by (auto simp: rt_pump_byte_def Let_def gate_outcome split: prod.split option.split)

section \<open>The runtime as a transition system\<close>

datatype runtime_label = TimePasses | RadioReports radio_evt | Deadlines | ByteArrives line_buffer u8

inductive runtime_step :: "crypto \<Rightarrow> json_core \<Rightarrow> host \<Rightarrow> runtime \<Rightarrow> runtime_label \<Rightarrow> runtime \<Rightarrow> bool" for C J H where
  "runtime_step C J H rt TimePasses (rt_advance_time H rt)"
| "runtime_step C J H rt (RadioReports ev) (on_radio_evt C H ev rt)"
| "runtime_step C J H rt Deadlines (poll_timeouts C H rt)"
| "runtime_step C J H rt (ByteArrives lines b) (snd (rt_pump_byte C J H b (lines, rt)))"

interpretation gate: transition_system "runtime_step C J H" gate_ok for C J H
  by unfold_locales (auto elim!: runtime_step.cases intro: gate_advance gate_event gate_poll gate_byte)

abbreviation runtime_run :: "crypto \<Rightarrow> json_core \<Rightarrow> host \<Rightarrow> runtime \<Rightarrow> runtime_label list \<Rightarrow> runtime \<Rightarrow> bool" where
  "runtime_run C J H \<equiv> transition_system.exec (runtime_step C J H)"

section \<open>Tokens\<close>

lemma bit_push_one: "bit (2 ^ n :: u32) k \<longleftrightarrow> k = n \<and> n < 32"
  by (auto simp: bit_simps)

lemma mask_loop_bit:
  "bit (blocked_mask_loop e js m) k \<longleftrightarrow> bit m k \<or> k < 32 \<and> (\<exists>j. j \<in> set js \<and> j - 1 = k \<and> contact_blocked e (of_nat j))"
proof (induction js arbitrary: m)
  case (Cons j js)
  have "bit (if contact_blocked e (of_nat j) then m OR push_bit (j - 1) 1 else m) k \<longleftrightarrow>
      bit m k \<or> k < 32 \<and> j - 1 = k \<and> contact_blocked e (of_nat j)"
    by (auto simp: bit_or_iff bit_push_one)
  then show ?case unfolding blocked_mask_loop.simps Cons.IH by (simp only: set_simps) blast
qed simp

lemma blocked_mask_bit:
  assumes "i < MAX_CONTACTS"
  shows "bit (blocked_mask e) i \<longleftrightarrow> contact_blocked e (of_nat (Suc i))"
proof -
  have j: "j \<in> set [1..<Suc MAX_CONTACTS] \<and> j - 1 = i \<longleftrightarrow> j = Suc i" for j using assms by auto
  have "i < 32" using assms by (simp add: MAX_CONTACTS_def)
  then have "bit (blocked_mask e) i \<longleftrightarrow> (\<exists>j. (j \<in> set [1..<Suc MAX_CONTACTS] \<and> j - 1 = i) \<and> contact_blocked e (of_nat j))"
    unfolding blocked_mask_def mask_loop_bit by (simp only: bit_0_eq bot_apply bot_bool_def) blast
  then show ?thesis unfolding j by blast
qed

lemma contact_of_idx: "contact_idx c = Some i \<Longrightarrow> of_nat (Suc i) = c \<and> i < MAX_CONTACTS"
proof -
  assume c: "contact_idx c = Some i"
  then have "1 \<le> c" "i = unat (c - 1)" by (auto simp: contact_idx_def split: if_splits)
  then have "Suc i = unat c" by (simp add: unat_sub word_le_nat_alt)
  then have "of_nat (Suc i) = c" by simp
  with contact_idx_lt [OF c] show ?thesis by blast
qed

text \<open>What the engine allows at this moment.\<close>

definition may_transmit :: "engine \<Rightarrow> u8 option \<Rightarrow> bool" where
  "may_transmit e contact \<longleftrightarrow> en_radio_on e \<and>
     (case contact of None \<Rightarrow> True | Some c \<Rightarrow> 1 \<le> c \<and> unat c \<le> MAX_CONTACTS \<and> \<not> contact_blocked e c)"

lemma synced_policy:
  "gate_ok rt \<Longrightarrow> pl_enabled (rt_policy (sync_policy rt)) = en_radio_on (rt_engine rt) \<and>
     pl_blocked_mask (rt_policy (sync_policy rt)) = blocked_mask (rt_engine rt)"
  by (auto simp: sync_policy_def gate_ok_def Let_def)

lemma fresh_token:
  assumes "gate_ok rt"
  shows "token_valid (rt_policy (sync_policy rt)) contact (tx_token (rt_policy (sync_policy rt)) contact) \<longleftrightarrow>
    may_transmit (rt_engine rt) contact"
proof (cases contact)
  case None
  then show ?thesis using synced_policy [OF assms] by (simp add: token_valid_def tx_token_def may_transmit_def)
next
  case (Some c)
  show ?thesis
  proof (cases "contact_idx c")
    case None
    then show ?thesis using Some by (auto simp: token_valid_def may_transmit_def contact_idx_def split: if_splits)
  next
    case idx: (Some i)
    then have "1 \<le> c \<and> unat c \<le> MAX_CONTACTS" by (auto simp: contact_idx_def split: if_splits)
    then show ?thesis
      using Some idx synced_policy [OF assms] contact_of_idx [OF idx] blocked_mask_bit [of i "rt_engine rt"]
      by (auto simp: token_valid_def tx_token_def may_transmit_def bit_of_shift)
  qed
qed


text \<open>An empty board with a radio, just booted: its radio is off and the token is worth nothing.\<close>

definition ready_host :: host where
  "ready_host = \<lparr> ho_now = (\<lambda>_. 0), ho_word = (\<lambda>_. 7), ho_bytes = (\<lambda>_. replicate 32 0),
     ho_luck = (\<lambda>_. \<lparr> fk_node = True, fk_settings = True, fk_wifi = True, fk_store = True, fk_landed = True \<rparr>),
     ho_room = (\<lambda>_. True), ho_events = (\<lambda>_. []) \<rparr>"

abbreviation empty_board :: "(line_buffer \<times> runtime) option" where
  "empty_board \<equiv> runtime_start demo_crypto (replicate 8 7) (Some 0x12) True
     [RespEmpty, RespSettingsLoaded (replicate 13 0), RespWifiLoaded (replicate 102 0)]
     \<lparr> fl_node = None, fl_settings = None, fl_wifi = None \<rparr>"

lemma empty_board_starts: "\<exists>lines rt. empty_board = Some (lines, rt) \<and> \<not> en_radio_on (rt_engine rt)"
  by (simp add: runtime_start_def main_boot_def Let_def set_identity_def stage_persist_def set_radio_available_def
      Engine_new_def set_hw_present_def Runtime_new_def UsbState_new_def split: prod.split)


end
