(* ===== verification/Byte_Pipes.thy ===== *)
theory Byte_Pipes
  imports Wifi_Cred Usb_Line "HOL-Library.Sublist"
begin

text \<open>
  The byte pipes between the host and the command loop: the USB tasks of \<open>firmware/src/main.rs\<close>, which
  cut a reply into packets of 64 bytes, and the Wi-Fi task of \<open>firmware/src/wifi.rs\<close>, which joins a
  network and serves one TCP client at a time. The USB class, the CYW43 driver and the TCP stack are
  third-party code: whether a write succeeds, a network is joined or a client is there, and what it
  sends, is a function of what happened before.
\<close>

section \<open>Packets\<close>

text \<open>\<open>chunks\<close> of a slice.\<close>

function chunks_of :: "nat \<Rightarrow> bytes \<Rightarrow> bytes list" where
  "chunks_of n bs = (if bs = [] \<or> n = 0 then [] else take n bs # chunks_of n (drop n bs))"
  by pat_completeness auto
termination by (relation "measure (\<lambda>(_, bs). length bs)") auto

declare chunks_of.simps [simp del]

lemma concat_chunks: "0 < n \<Longrightarrow> concat (chunks_of n bs) = bs"
proof (induction n bs rule: chunks_of.induct)
  case (1 n bs)
  then show ?case by (subst chunks_of.simps) simp
qed

lemma chunks_short: "p \<in> set (chunks_of n bs) \<Longrightarrow> p \<noteq> [] \<and> length p \<le> n"
proof (induction n bs rule: chunks_of.induct)
  case (1 n bs)
  then show ?case by (subst (asm) (2) chunks_of.simps) (auto split: if_splits)
qed

text \<open>A packet has 64 bytes, of which the first so many count.\<close>

definition packet :: "bytes \<Rightarrow> bytes \<times> nat" where
  "packet b = (put_at 0 b (replicate 64 0), length b)"

definition payload_of :: "bytes \<times> nat \<Rightarrow> bytes" where
  "payload_of p = take (snd p) (fst p)"

lemma payload_packet: "length b \<le> 64 \<Longrightarrow> payload_of (packet b) = b"
  by (simp add: payload_of_def packet_def put_at_def)

section \<open>USB\<close>

text \<open>\<open>out i\<close> says whether the \<open>i\<close>-th write succeeds; the packets attempted are returned.\<close>

primrec write_packets :: "(nat \<Rightarrow> bool) \<Rightarrow> nat \<Rightarrow> bytes list \<Rightarrow> bytes list \<times> bool" where
  "write_packets out i [] = ([], True)"
| "write_packets out i (p # ps) =
     (if out i then case write_packets out (Suc i) ps of (done', ok) \<Rightarrow> (p # done', ok) else ([p], False))"

definition write_line :: "(nat \<Rightarrow> bool) \<Rightarrow> bytes \<Rightarrow> bytes list \<times> bool" where
  "write_line out bs =
     (case write_packets out 0 (chunks_of 64 bs) of
        (ps, False) \<Rightarrow> (ps, False)
      | (ps, True) \<Rightarrow> (ps @ [[LF]], out (length ps)))"

text \<open>The sending task of the radio image.\<close>

definition transmit_record :: "(nat \<Rightarrow> bool) \<Rightarrow> bytes \<Rightarrow> bytes list" where
  "transmit_record out rec =
     (case write_packets out 0 (chunks_of 64 rec) of
        (ps, connected) \<Rightarrow> if connected then ps @ [[LF]] else ps)"

text \<open>The receiving task: one buffer for all reads of a connection, so a short read keeps old bytes behind
  its end.\<close>

primrec receive_packets :: "bytes \<Rightarrow> bytes list \<Rightarrow> (bytes \<times> nat) list" where
  "receive_packets pkt [] = []"
| "receive_packets pkt (r # rs) =
     (let pkt = put_at 0 r pkt in (pkt, length r) # receive_packets pkt rs)"

lemma received_payloads:
  "length pkt = 64 \<Longrightarrow> \<forall>r \<in> set rs. length r \<le> 64 \<Longrightarrow> map payload_of (receive_packets pkt rs) = rs"
  by (induction rs arbitrary: pkt) (simp_all add: Let_def payload_of_def put_at_def)

lemma write_packets_all:
  "write_packets out i ps = (qs, ok) \<Longrightarrow> (ok \<longleftrightarrow> (\<forall>j < length ps. out (i + j))) \<and> prefix qs ps \<and> (ok \<longrightarrow> qs = ps)"
proof (induction ps arbitrary: i qs)
  case (Cons p ps)
  show ?case
  proof (cases "out i")
    case True
    then obtain rs where r: "write_packets out (Suc i) ps = (rs, ok)" "qs = p # rs"
      using Cons.prems by (auto split: prod.splits)
    from Cons.IH [OF r(1)] show ?thesis using True r(2) by (auto simp: less_Suc_eq_0_disj)
  next
    case False
    then show ?thesis using Cons.prems by auto
  qed
qed auto

text \<open>Both ways of writing send the same packets: those of the reply and a line feed, or a part of
  them, and what arrives is the reply as one line.\<close>

lemma reply_in_packets:
  assumes "write_line out bs = (ps, ok)"
  shows "transmit_record out bs = ps \<and> prefix (concat ps) (bs @ [LF]) \<and> (\<forall>p \<in> set ps. length p \<le> 64) \<and>
    (ok \<longrightarrow> concat ps = bs @ [LF])"
proof -
  obtain qs k where q: "write_packets out 0 (chunks_of 64 bs) = (qs, k)" by fastforce
  from write_packets_all [OF q] have w: "prefix qs (chunks_of 64 bs)" "k \<Longrightarrow> qs = chunks_of 64 bs" by auto
  from w(1) obtain rest where "chunks_of 64 bs = qs @ rest" by (auto elim: prefixE)
  then have b: "bs = concat qs @ concat rest" using concat_chunks [of 64 bs] by simp
  have s: "\<forall>p \<in> set qs. length p \<le> 64" using set_mono_prefix [OF w(1)] chunks_short by blast
  show ?thesis
  proof (cases k)
    case True
    then have "concat qs = bs" using w(2) concat_chunks [of 64 bs] by simp
    then show ?thesis using assms s True by (auto simp: write_line_def transmit_record_def q)
  next
    case False
    have "prefix (concat qs) (bs @ [LF])" by (subst b) (simp add: prefix_def)
    then show ?thesis using assms s False by (auto simp: write_line_def transmit_record_def q)
  qed
qed

section \<open>The Wi-Fi task\<close>

datatype pipe_act =
    Join wifi_cred bool
  | Pause nat
  | Lamp bool
  | Accept bool
  | Abort
  | ReadSocket "bytes option"
  | ToUsbRx "bytes \<times> nat"
  | FromUsbTx "bytes option"
  | WriteSocket bytes bool

record net =
  nt_join :: "pipe_act list \<Rightarrow> bool"
  nt_accept :: "pipe_act list \<Rightarrow> bool"
  nt_read :: "pipe_act list \<Rightarrow> bytes option"
  nt_record :: "pipe_act list \<Rightarrow> bytes option"
  nt_write :: "pipe_act list \<Rightarrow> bool"

text \<open>Where the endless task stands. \<open>Ok(0)\<close> and an error of a read both end the client: \<open>None\<close>.\<close>

datatype pipe_place = Joining wifi_cred | Waiting | Connected

text \<open>One read, cut into packets: the loop over \<open>off\<close>.\<close>

function usb_rx_loop :: "bytes \<Rightarrow> nat \<Rightarrow> pipe_act list \<Rightarrow> pipe_act list" where
  "usb_rx_loop buf off lg =
     (if off < length buf then
        let n = min 64 (length buf - off) in
        usb_rx_loop buf (off + n) (ToUsbRx (packet (bslice off (off + n) buf)) # lg)
      else lg)"
  by pat_completeness auto
termination by (relation "measure (\<lambda>(buf, off, _). length buf - off)") auto

declare usb_rx_loop.simps [simp del]

primrec write_socket :: "net \<Rightarrow> bytes list \<Rightarrow> pipe_act list \<Rightarrow> bool \<times> pipe_act list" where
  "write_socket N [] lg = (True, lg)"
| "write_socket N (p # ps) lg =
     (let ok = nt_write N lg; lg = WriteSocket p ok # lg in
      if ok then write_socket N ps lg else (False, lg))"

definition serve_turn :: "net \<Rightarrow> pipe_place \<times> pipe_act list \<Rightarrow> pipe_place \<times> pipe_act list" where
  "serve_turn N st =
     (case st of
        (Joining cred, lg) \<Rightarrow>
          let ok = nt_join N lg; lg = Join cred ok # lg in
          if ok then (Waiting, Lamp False # lg) else (Joining cred, Pause 5000 # lg)
      | (Waiting, lg) \<Rightarrow>
          let lg = Lamp False # lg; ok = nt_accept N lg; lg = Accept ok # lg in
          if ok then (Connected, Lamp True # lg) else (Waiting, Abort # lg)
      | (Connected, lg) \<Rightarrow>
          let r = nt_read N lg; lg = ReadSocket r # lg in
          (case r of
             None \<Rightarrow> (Waiting, lg)
           | Some bs \<Rightarrow>
               let lg = usb_rx_loop bs 0 lg; t = nt_record N lg; lg = FromUsbTx t # lg in
               (case t of
                  None \<Rightarrow> (Connected, lg)
                | Some rec \<Rightarrow>
                    (case write_socket N (chunks_of 1024 rec @ [[LF]]) lg of
                       (True, lg) \<Rightarrow> (Connected, lg)
                     | (False, lg) \<Rightarrow> (Waiting, lg)))))"

abbreviation serve_turns :: "net \<Rightarrow> nat \<Rightarrow> pipe_place \<times> pipe_act list \<Rightarrow> pipe_place \<times> pipe_act list" where
  "serve_turns N n \<equiv> serve_turn N ^^ n"

text \<open>What went through the pipe, oldest first: the bytes of the clients, the bytes handed to the command
  loop, the lines due to the clients, and what was written to them.\<close>

fun from_client :: "pipe_act list \<Rightarrow> bytes" where
  "from_client [] = []"
| "from_client (ReadSocket (Some bs) # lg) = from_client lg @ bs"
| "from_client (_ # lg) = from_client lg"

fun to_loop :: "pipe_act list \<Rightarrow> bytes" where
  "to_loop [] = []"
| "to_loop (ToUsbRx p # lg) = to_loop lg @ payload_of p"
| "to_loop (_ # lg) = to_loop lg"

fun due_to_client :: "pipe_act list \<Rightarrow> bytes" where
  "due_to_client [] = []"
| "due_to_client (FromUsbTx (Some rec) # lg) = due_to_client lg @ rec @ [LF]"
| "due_to_client (_ # lg) = due_to_client lg"

fun to_client :: "pipe_act list \<Rightarrow> bytes" where
  "to_client [] = []"
| "to_client (WriteSocket bs True # lg) = to_client lg @ bs"
| "to_client (_ # lg) = to_client lg"

lemma rx_loop_log:
  "off \<le> length buf \<Longrightarrow> to_loop (usb_rx_loop buf off lg) = to_loop lg @ drop off buf \<and>
   from_client (usb_rx_loop buf off lg) = from_client lg \<and>
   due_to_client (usb_rx_loop buf off lg) = due_to_client lg \<and> to_client (usb_rx_loop buf off lg) = to_client lg \<and>
   (\<exists>ps. usb_rx_loop buf off lg = map ToUsbRx ps @ lg)"
proof (induction buf off lg rule: usb_rx_loop.induct)
  case (1 buf off lg)
  define n where "n = min 64 (length buf - off)"
  show ?case
  proof (cases "off < length buf")
    case True
    have p: "payload_of (packet (bslice off (off + n) buf)) = take n (drop off buf)"
      by (subst payload_packet) (simp_all add: n_def bslice_def)
    have d: "take n (drop off buf) @ drop (off + n) buf = drop off buf" by (metis append_take_drop_id drop_drop add.commute)
    have l: "usb_rx_loop buf off lg = usb_rx_loop buf (off + n) (ToUsbRx (packet (bslice off (off + n) buf)) # lg)"
      using True by (subst usb_rx_loop.simps) (simp add: Let_def n_def)
    have "off + n \<le> length buf" using True by (simp add: n_def)
    note ih = 1(1) [OF True n_def this]
    then obtain ps where "usb_rx_loop buf (off + n) (ToUsbRx (packet (bslice off (off + n) buf)) # lg) =
        map ToUsbRx ps @ ToUsbRx (packet (bslice off (off + n) buf)) # lg"
      by blast
    then have "\<exists>ps. usb_rx_loop buf off lg = map ToUsbRx ps @ lg"
      unfolding l by (intro exI [of _ "ps @ [packet (bslice off (off + n) buf)]"]) simp
    then show ?thesis using ih d unfolding l by (simp add: p)
  qed (use 1(2) in \<open>subst usb_rx_loop.simps, simp add: usb_rx_loop.simps\<close>)
qed

lemma write_socket_log:
  "write_socket N ps lg = (ok, lg') \<Longrightarrow> to_loop lg' = to_loop lg \<and> from_client lg' = from_client lg \<and>
   due_to_client lg' = due_to_client lg \<and>
   (if ok then to_client lg' = to_client lg @ concat ps else \<exists>b. WriteSocket b False \<in> set lg') \<and> set lg \<subseteq> set lg'"
proof (induction ps arbitrary: lg)
  case (Cons p ps)
  show ?case
  proof (cases "nt_write N lg")
    case True
    then have "write_socket N ps (WriteSocket p True # lg) = (ok, lg')" using Cons.prems by (simp add: Let_def)
    from Cons.IH [OF this] show ?thesis by auto
  next
    case False
    then show ?thesis using Cons.prems by (auto simp: Let_def)
  qed
qed auto

text \<open>The pipe is transparent. What the command loop receives is what the clients sent, in order and
  complete; and as long as no write fails, the clients receive the records as lines, in order.\<close>

definition transparent :: "pipe_act list \<Rightarrow> bool" where
  "transparent lg \<longleftrightarrow> to_loop lg = from_client lg \<and>
     ((\<forall>b. WriteSocket b False \<notin> set lg) \<longrightarrow> to_client lg = due_to_client lg)"

lemma turn_transparent:
  assumes "transparent (snd st)"
  shows "transparent (snd (serve_turn N st))"
proof -
  obtain place lg where st: "st = (place, lg)" by fastforce
  show ?thesis
  proof (cases place)
    case Connected
    show ?thesis
    proof (cases "nt_read N lg")
      case None
      then show ?thesis using assms by (simp add: serve_turn_def st Connected Let_def transparent_def)
    next
      case (Some bs)
      define lg1 where "lg1 = usb_rx_loop bs 0 (ReadSocket (Some bs) # lg)"
      have 1: "to_loop lg1 = to_loop lg @ bs" "from_client lg1 = from_client lg @ bs"
        "due_to_client lg1 = due_to_client lg" "to_client lg1 = to_client lg" "\<forall>b. WriteSocket b False \<in> set lg1 \<longleftrightarrow> WriteSocket b False \<in> set lg"
        using rx_loop_log [of 0 bs "ReadSocket (Some bs) # lg"] by (auto simp: lg1_def)
      then have t1: "transparent lg1" using assms by (simp add: transparent_def st)
      show ?thesis
      proof (cases "nt_record N lg1")
        case None
        then show ?thesis using t1 by (simp add: serve_turn_def st Connected Let_def Some transparent_def flip: lg1_def)
      next
        case rec: (Some rec)
        obtain ok lg2 where 2: "write_socket N (chunks_of 1024 rec @ [[LF]]) (FromUsbTx (Some rec) # lg1) = (ok, lg2)" by fastforce
        have "transparent lg2"
          using write_socket_log [OF 2] t1 concat_chunks [of 1024 rec] by (auto simp: transparent_def split: if_splits)
        then show ?thesis by (cases ok) (simp_all add: serve_turn_def st Connected Let_def Some rec 2 flip: lg1_def)
      qed
    qed
  qed (use assms in \<open>simp_all add: serve_turn_def st Let_def transparent_def\<close>)
qed

theorem wifi_pipe_transparent: "transparent (snd (serve_turns N n (place, [])))"
proof (induction n)
  case (Suc n)
  then show ?case by (simp add: turn_transparent)
qed (simp add: transparent_def)

end
